(* ===== verification/Cenix_Prelude.thy ===== *)
theory Cenix_Prelude
  imports Main "HOL-Library.Word" "HOL-Library.Monad_Syntax"
begin

unbundle bit_operations_syntax

text \<open>
  Shared vocabulary of the development: the machine types of the only supported target (the
  68000, where pointers, \<open>size_t\<close> and \<open>unsigned long\<close> have 32 bits), the error codes of
  \<open>core/include/errno.h\<close>, the collections of rewrite rules used by the component proofs,
  and generic lemmas on lists, words and loops in the option monad.
\<close>

section \<open>Machine types\<close>

type_synonym uint8_t = "8 word"
type_synonym uint16_t = "16 word"
type_synonym uint32_t = "32 word"
type_synonym size_t = "32 word"
type_synonym addr = "32 word"

abbreviation NULL :: addr where
  "NULL \<equiv> 0"

definition SIZE_MAX :: size_t where
  "SIZE_MAX = - 1"

section \<open>Error codes (core/include/errno.h)\<close>

definition EUNKNOWN :: size_t where "EUNKNOWN = 1"
definition ENOCAPABILITY :: size_t where "ENOCAPABILITY = 5"
definition ENOTSUP :: size_t where "ENOTSUP = 6"
definition ECAPINVAL :: size_t where "ECAPINVAL = 7"
definition ETOOMUCHNESTING :: size_t where "ETOOMUCHNESTING = 8"
definition EINVAL :: size_t where "EINVAL = 9"
definition ENOMEM :: size_t where "ENOMEM = 11"
definition ECAPEXISTS :: size_t where "ECAPEXISTS = 12"
definition EBADMSG :: size_t where "EBADMSG = 14"
definition ENOENT :: size_t where "ENOENT = 15"
definition ENOEXEC :: size_t where "ENOEXEC = 16"
definition ENOSYS :: size_t where "ENOSYS = 17"
definition EPERM :: size_t where "EPERM = 18"
definition EROFS :: size_t where "EROFS = 19"

named_theorems errno_defs "the numeric values of the error codes"

lemmas [errno_defs] =
  EUNKNOWN_def ENOCAPABILITY_def ENOTSUP_def ECAPINVAL_def ETOOMUCHNESTING_def EINVAL_def
  ENOMEM_def ECAPEXISTS_def EBADMSG_def ENOENT_def ENOEXEC_def ENOSYS_def EPERM_def EROFS_def

section \<open>Heads and lasts with a default\<close>

definition hd_or :: "'a \<Rightarrow> 'a list \<Rightarrow> 'a" where
  "hd_or d xs = (case xs of [] \<Rightarrow> d | x # _ \<Rightarrow> x)"

definition last_or :: "'a \<Rightarrow> 'a list \<Rightarrow> 'a" where
  "last_or d xs = (if xs = [] then d else last xs)"

lemma hd_or_simps [simp]:
  "hd_or d [] = d" "hd_or d (x # xs) = x"
  by (simp_all add: hd_or_def)

lemma last_or_simps [simp]:
  "last_or d [] = d" "last_or d (x # xs) = last_or x xs"
  "last_or d (xs @ [y]) = y"
  by (simp_all add: last_or_def)

lemma hd_or_append [simp]: "hd_or d (xs @ ys) = hd_or (hd_or d ys) xs"
  by (cases xs) simp_all

lemma last_or_append [simp]: "last_or d (xs @ ys) = last_or (last_or d xs) ys"
  by (cases ys rule: rev_cases) (simp_all add: last_or_def)

lemma hd_or_in_set: "xs \<noteq> [] \<Longrightarrow> hd_or d xs \<in> set xs"
  by (cases xs) simp_all

lemma last_or_in_set: "xs \<noteq> [] \<Longrightarrow> last_or d xs \<in> set xs"
  by (simp add: last_or_def)

section \<open>Loops in the option monad\<close>

text \<open>
  A counted loop runs its body on each index in turn; \<open>None\<close> is a body that does not return.
\<close>

fun for_each :: "('i \<Rightarrow> 's \<Rightarrow> 's option) \<Rightarrow> 'i list \<Rightarrow> 's \<Rightarrow> 's option" where
  "for_each f [] s = Some s"
| "for_each f (i # is) s = Option.bind (f i s) (for_each f is)"

lemma for_each_append [simp]:
  "for_each f (is @ js) s = Option.bind (for_each f is s) (for_each f js)"
proof (induction "is" arbitrary: s)
  case Nil
  show ?case by simp
next
  case (Cons i "is")
  then show ?case by (cases "f i s") simp_all
qed

lemma for_each_invariant:
  assumes "\<And>i s s'. i \<in> set is \<Longrightarrow> P s \<Longrightarrow> f i s = Some s' \<Longrightarrow> P s'"
    and "P s" and "for_each f is s = Some s'"
  shows "P s'"
  using assms
proof (induction "is" arbitrary: s)
  case Nil
  then show ?case by simp
next
  case (Cons i "is")
  from Cons.prems(3) obtain t where t: "f i s = Some t" "for_each f is t = Some s'"
    by (auto simp: bind_eq_Some_conv)
  moreover from t(1) Cons.prems(1,2) have "P t" by (meson list.set_intros(1))
  ultimately show ?case using Cons.IH Cons.prems(1) by (meson list.set_intros(2))
qed

lemma for_each_total:
  assumes "\<And>i s. i \<in> set is \<Longrightarrow> P s \<Longrightarrow> \<exists>s'. f i s = Some s' \<and> P s'" and "P s"
  shows "\<exists>s'. for_each f is s = Some s' \<and> P s'"
  using assms
proof (induction "is" arbitrary: s)
  case Nil
  then show ?case by simp
next
  case (Cons i "is")
  from Cons.prems obtain t where "f i s = Some t" "P t" by force
  then show ?case using Cons.IH Cons.prems(1) by simp
qed

text \<open>The counted loop is monotone in its body, so that recursive functions may loop.\<close>

lemma for_each_mono [partial_function_mono]:
  assumes "\<And>i s. mono_option (\<lambda>f. B f i s)"
  shows "mono_option (\<lambda>f. for_each (B f) is s)"
proof (induction "is" arbitrary: s)
  case Nil
  show ?case by (simp add: option.const_mono)
next
  case (Cons i "is")
  show ?case by (simp add: bind_mono [OF assms Cons])
qed

section \<open>Words\<close>

lemma unat_plus_no_wrap:
  "unat a + unat b < 2 ^ 32 \<Longrightarrow> unat (a + b) = unat a + unat (b :: 32 word)"
  using unat_add_lem [of a b] by simp

lemma unat_lt_2_32: "unat (a :: 32 word) < 2 ^ 32"
  using unsigned_less [of a] by simp

lemma unat_minus_no_wrap: "b \<le> a \<Longrightarrow> unat (a - b) = unat a - unat (b :: 32 word)"
  by (simp add: unat_sub)

lemma unat_ucast_8_32 [simp]: "unat (ucast (x :: 8 word) :: 32 word) = unat x"
proof -
  have "unat x < 2 ^ 8" using unsigned_less [of x, where 'a = nat] by simp
  then have "unat x < 2 ^ 32" by (rule less_trans) simp
  then show ?thesis by (simp add: unsigned_ucast_eq take_bit_nat_eq_self)
qed

lemma or_push_bit_and_mask:
  assumes "take_bit b i = (i :: 32 word)"
  shows "(i OR push_bit b a) AND (push_bit b 1 - 1) = i"
proof -
  have "push_bit b 1 - 1 = (mask b :: 32 word)" by (simp add: mask_eq_exp_minus_1 push_bit_eq_mult)
  then have "(i OR push_bit b a) AND (push_bit b 1 - 1) = take_bit b (i OR push_bit b a)"
    by (simp add: take_bit_eq_mask)
  also have "\<dots> = take_bit b i" by (auto simp: bit_eq_iff bit_simps)
  finally show ?thesis using assms by simp
qed

lemma drop_bit_or_push_bit:
  assumes "take_bit b i = (i :: 32 word)" and "take_bit d a = a" and "b + d \<le> 32"
  shows "drop_bit b (i OR push_bit b a) = a"
proof (rule bit_word_eqI)
  fix n assume "n < LENGTH(32)"
  have "\<not> bit i (b + n)" using assms(1) by (metis bit_take_bit_iff not_add_less1)
  moreover have "bit a n \<Longrightarrow> n < d" using assms(2) by (metis bit_take_bit_iff)
  ultimately show "bit (drop_bit b (i OR push_bit b a)) n = bit a n"
    using assms(3) by (auto simp: bit_simps)
qed

lemma take_bit_or_push_bit:
  assumes "take_bit b i = (i :: 32 word)" and "take_bit d a = a"
  shows "take_bit (b + d) (i OR push_bit b a) = i OR push_bit b a"
proof (rule bit_word_eqI)
  fix n assume "n < LENGTH(32)"
  have "bit i n \<longrightarrow> n < b" using assms(1) by (metis bit_take_bit_iff)
  moreover have "bit a (n - b) \<longrightarrow> n - b < d" using assms(2) by (metis bit_take_bit_iff)
  ultimately show "bit (take_bit (b + d) (i OR push_bit b a)) n = bit (i OR push_bit b a) n"
    by (auto simp only: bit_take_bit_iff bit_or_iff bit_push_bit_iff)
qed

lemma take_bit_small: "unat i < 2 ^ b \<Longrightarrow> take_bit b i = (i :: 32 word)"
  by (simp add: word_unat_eq_iff unsigned_take_bit_eq take_bit_nat_eq_self)

end
