(* ===== verification/Linked_List.thy ===== *)
theory Linked_List
  imports Cenix_Prelude
begin

text \<open>
  The intrusive doubly linked lists of \<open>core/kernel/linked_list.h\<close>. A link field of a
  structure is modelled as a function from addresses to links, so that the macros become
  functions on such a map: the first family keeps the two ends in a separate container, the
  second one repeats them in every element. Loops over links are functions into \<open>option\<close>,
  \<open>None\<close> being a loop that never ends. The representation predicates relate a map of
  links to the list of addresses it stands for, and every macro is specified against them.
\<close>

section \<open>Data (linked_list.h)\<close>

record link =
  lnk_prev :: addr
  lnk_next :: addr

record list_container =
  lc_start :: addr
  lc_end :: addr

record nc_link =
  nc_start :: addr
  nc_end :: addr
  nc_prev :: addr
  nc_next :: addr

type_synonym links = "addr \<Rightarrow> link"
type_synonym nc_links = "addr \<Rightarrow> nc_link"

section \<open>Lists with a separate container\<close>

definition LIST_INIT :: list_container where
  "LIST_INIT = \<lparr>lc_start = NULL, lc_end = NULL\<rparr>"

definition LIST_APPEND :: "list_container \<Rightarrow> links \<Rightarrow> addr \<Rightarrow> list_container \<times> links" where
  "LIST_APPEND c m item =
     (if lc_end c = NULL then
        (c\<lparr>lc_start := item, lc_end := item\<rparr>,
         m(item := (m item)\<lparr>lnk_prev := NULL, lnk_next := NULL\<rparr>))
      else
        let m1 = m(lc_end c := (m (lc_end c))\<lparr>lnk_next := item\<rparr>);
            m2 = m1(item := (m1 item)\<lparr>lnk_prev := lc_end c, lnk_next := NULL\<rparr>)
        in (c\<lparr>lc_end := item\<rparr>, m2))"

definition LIST_UPDATE_ADDRESS ::
    "list_container \<Rightarrow> links \<Rightarrow> addr \<Rightarrow> list_container \<times> links" where
  "LIST_UPDATE_ADDRESS c m item =
     (let (c1, m1) =
            (if lnk_next (m item) = NULL then (c\<lparr>lc_end := item\<rparr>, m)
             else (c, m(lnk_next (m item) := (m (lnk_next (m item)))\<lparr>lnk_prev := item\<rparr>)))
      in if lnk_prev (m1 item) = NULL then (c1\<lparr>lc_start := item\<rparr>, m1)
         else (c1, m1(lnk_prev (m1 item) := (m1 (lnk_prev (m1 item)))\<lparr>lnk_next := item\<rparr>)))"

text \<open>The variable receives the popped item, or keeps its value when the list is empty.\<close>

definition LIST_POP_FROM_START ::
    "list_container \<Rightarrow> links \<Rightarrow> addr \<Rightarrow> list_container \<times> links \<times> addr" where
  "LIST_POP_FROM_START c m var =
     (if lc_start c \<noteq> NULL then
        let v = lc_start c;
            c1 = c\<lparr>lc_start := lnk_next (m v)\<rparr>;
            m1 = m(v := (m v)\<lparr>lnk_prev := NULL, lnk_next := NULL\<rparr>);
            c2 = (if lc_start c1 = NULL then c1\<lparr>lc_end := NULL\<rparr> else c1)
        in (c2, m1, v)
      else (c, m, var))"

definition LIST_CAN_POP :: "list_container \<Rightarrow> bool" where
  "LIST_CAN_POP c \<longleftrightarrow> lc_start c \<noteq> NULL"

definition LIST_REMOVE :: "list_container \<Rightarrow> links \<Rightarrow> addr \<Rightarrow> list_container \<times> links" where
  "LIST_REMOVE c m item =
     (let (c1, m1) =
            (if lnk_prev (m item) = NULL then (c\<lparr>lc_start := lnk_next (m item)\<rparr>, m)
             else (c, m(lnk_prev (m item) :=
                     (m (lnk_prev (m item)))\<lparr>lnk_next := lnk_next (m item)\<rparr>)))
      in if lnk_next (m1 item) = NULL then (c1\<lparr>lc_end := lnk_prev (m1 item)\<rparr>, m1)
         else (c1, m1(lnk_next (m1 item) :=
                     (m1 (lnk_next (m1 item)))\<lparr>lnk_prev := lnk_prev (m1 item)\<rparr>)))"

text \<open>The items \<open>LIST_ITER\<close> visits from a first one on, when the body changes no link.\<close>

partial_function (option) list_iter_from :: "links \<Rightarrow> addr \<Rightarrow> addr list option" where
  "list_iter_from m x =
     (if x = NULL then Some []
      else Option.bind (list_iter_from m (lnk_next (m x))) (\<lambda>xs. Some (x # xs)))"

definition LIST_ITER :: "list_container \<Rightarrow> links \<Rightarrow> addr list option" where
  "LIST_ITER c m = list_iter_from m (lc_start c)"

section \<open>Lists with the container in every element\<close>

definition LIST_INIT_NO_CONTAINER :: "nc_links \<Rightarrow> addr \<Rightarrow> nc_links" where
  "LIST_INIT_NO_CONTAINER m c =
     m(c := \<lparr>nc_start = c, nc_end = c, nc_prev = NULL, nc_next = NULL\<rparr>)"

text \<open>The three loops of the macros: forwards or backwards, setting one end pointer.\<close>

partial_function (option) set_start_forward ::
    "nc_links \<Rightarrow> addr \<Rightarrow> addr \<Rightarrow> nc_links option" where
  "set_start_forward m v l =
     (if l = NULL then Some m
      else let m1 = m(l := (m l)\<lparr>nc_start := v\<rparr>) in set_start_forward m1 v (nc_next (m1 l)))"

partial_function (option) set_end_forward ::
    "nc_links \<Rightarrow> addr \<Rightarrow> addr \<Rightarrow> nc_links option" where
  "set_end_forward m v l =
     (if l = NULL then Some m
      else let m1 = m(l := (m l)\<lparr>nc_end := v\<rparr>) in set_end_forward m1 v (nc_next (m1 l)))"

partial_function (option) set_end_backward ::
    "nc_links \<Rightarrow> addr \<Rightarrow> addr \<Rightarrow> nc_links option" where
  "set_end_backward m v l =
     (if l = NULL then Some m
      else let m1 = m(l := (m l)\<lparr>nc_end := v\<rparr>) in set_end_backward m1 v (nc_prev (m1 l)))"

definition LIST_APPEND_NO_CONTAINER :: "nc_links \<Rightarrow> addr \<Rightarrow> addr \<Rightarrow> nc_links option" where
  "LIST_APPEND_NO_CONTAINER m c item =
     (let e = nc_end (m c);
          m1 = m(e := (m e)\<lparr>nc_next := item\<rparr>);
          m2 = m1(item := (m1 item)\<lparr>nc_prev := nc_end (m1 c)\<rparr>);
          m3 = m2(item := (m2 item)\<lparr>nc_next := NULL\<rparr>);
          m4 = m3(item := (m3 item)\<lparr>nc_start := nc_start (m3 c)\<rparr>)
      in set_end_forward m4 item (nc_start (m4 c)))"

definition LIST_INSERT_NO_CONTAINER :: "nc_links \<Rightarrow> addr \<Rightarrow> addr \<Rightarrow> nc_links" where
  "LIST_INSERT_NO_CONTAINER m c item =
     (if nc_start (m c) = nc_end (m c) then
        let m1 = m(c := (m c)\<lparr>nc_end := item\<rparr>);
            m2 = m1(item := (m1 item)\<lparr>nc_start := c, nc_end := item\<rparr>);
            m3 = m2(c := (m2 c)\<lparr>nc_next := item\<rparr>)
        in m3(item := (m3 item)\<lparr>nc_prev := c, nc_next := NULL\<rparr>)
      else
        let m1 = m(item := (m item)\<lparr>nc_start := nc_start (m c)\<rparr>);
            m2 = m1(item := (m1 item)\<lparr>nc_end := nc_end (m1 c)\<rparr>);
            p = nc_prev (m2 (nc_end (m2 c)));
            m3 = m2(p := (m2 p)\<lparr>nc_next := item\<rparr>);
            m4 = m3(item := (m3 item)\<lparr>nc_prev := p\<rparr>)
        in m4(item := (m4 item)\<lparr>nc_next := nc_end (m4 c)\<rparr>))"

definition relink_neighbours :: "nc_links \<Rightarrow> addr \<Rightarrow> nc_links" where
  "relink_neighbours m item =
     (let m1 = (if nc_prev (m item) \<noteq> NULL
                then m(nc_prev (m item) := (m (nc_prev (m item)))\<lparr>nc_next := item\<rparr>) else m)
      in if nc_next (m1 item) \<noteq> NULL
         then m1(nc_next (m1 item) := (m1 (nc_next (m1 item)))\<lparr>nc_prev := item\<rparr>)
         else m1)"

definition LIST_UPDATE_ADDRESS_NO_CONTAINER :: "nc_links \<Rightarrow> addr \<Rightarrow> nc_links option" where
  "LIST_UPDATE_ADDRESS_NO_CONTAINER m item = do {
     let m1 = relink_neighbours m item;
     m2 \<leftarrow> (if nc_prev (m1 item) = NULL then set_start_forward m1 item item else Some m1);
     (if nc_next (m2 item) = NULL then set_end_backward m2 item item else Some m2)
   }"

definition LIST_DELETE_NO_CONTAINER :: "nc_links \<Rightarrow> addr \<Rightarrow> nc_links option" where
  "LIST_DELETE_NO_CONTAINER m item =
     (if nc_prev (m item) \<noteq> NULL \<and> nc_next (m item) \<noteq> NULL then
        let p = nc_prev (m item); m1 = m(p := (m p)\<lparr>nc_next := nc_next (m item)\<rparr>);
            n = nc_next (m1 item)
        in Some (m1(n := (m1 n)\<lparr>nc_prev := nc_prev (m1 item)\<rparr>))
      else do {
        m1 \<leftarrow> (if nc_prev (m item) = NULL \<and> nc_next (m item) \<noteq> NULL then
                 let s = nc_next (m item)
                 in set_start_forward (m(s := (m s)\<lparr>nc_prev := NULL\<rparr>)) s s
               else Some m);
        (if nc_next (m1 item) = NULL \<and> nc_prev (m1 item) \<noteq> NULL then
           let e = nc_prev (m1 item)
           in set_end_backward (m1(e := (m1 e)\<lparr>nc_next := NULL\<rparr>)) e e
         else Some m1)
      })"

text \<open>The items \<open>LIST_ITER_NO_CONTAINER\<close> visits, when the body changes no link.\<close>

partial_function (option) nc_iter_from :: "nc_links \<Rightarrow> addr \<Rightarrow> addr list option" where
  "nc_iter_from m x =
     (if x = NULL then Some []
      else Option.bind (nc_iter_from m (nc_next (m x))) (\<lambda>xs. Some (x # xs)))"

definition LIST_ITER_NO_CONTAINER :: "nc_links \<Rightarrow> addr \<Rightarrow> addr list option" where
  "LIST_ITER_NO_CONTAINER m item = nc_iter_from m (nc_start (m item))"

section \<open>Doubly linked segments\<close>

text \<open>
  \<open>dseg pv nx p xs q\<close>: following the next pointers \<open>nx\<close> the addresses \<open>xs\<close> lead to
  \<open>q\<close>, and following the previous pointers \<open>pv\<close> back they lead to \<open>p\<close>.
\<close>

fun dseg :: "(addr \<Rightarrow> addr) \<Rightarrow> (addr \<Rightarrow> addr) \<Rightarrow> addr \<Rightarrow> addr list \<Rightarrow> addr \<Rightarrow> bool" where
  "dseg pv nx p [] q \<longleftrightarrow> True"
| "dseg pv nx p (x # xs) q \<longleftrightarrow>
     x \<noteq> NULL \<and> pv x = p \<and> nx x = hd_or q xs \<and> dseg pv nx x xs q"

lemma dseg_append [simp]:
  "dseg pv nx p (xs @ ys) q \<longleftrightarrow>
     dseg pv nx p xs (hd_or q ys) \<and> dseg pv nx (last_or p xs) ys q"
  by (induction xs arbitrary: p) auto

lemma dseg_nonnull: "dseg pv nx p xs q \<Longrightarrow> NULL \<notin> set xs"
  by (induction xs arbitrary: p) auto

lemma dseg_cong:
  assumes "\<And>a. a \<in> set xs \<Longrightarrow> pv' a = pv a \<and> nx' a = nx a"
  shows "dseg pv' nx' p xs q = dseg pv nx p xs q"
  using assms by (induction xs arbitrary: p) auto

text \<open>Changing the two outer pointers of a segment changes what it is connected to.\<close>

lemma dseg_relink:
  assumes "dseg pv nx p xs q" and "distinct xs"
    and "\<And>a. a \<in> set xs \<Longrightarrow> pv' a = (if a = hd_or p xs then p' else pv a)"
    and "\<And>a. a \<in> set xs \<Longrightarrow> nx' a = (if a = last_or q xs then q' else nx a)"
  shows "dseg pv' nx' p' xs q'"
proof (cases xs rule: rev_cases)
  case Nil
  then show ?thesis by simp
next
  case (snoc ys y)
  show ?thesis
  proof (cases ys)
    case Nil
    with assms snoc show ?thesis by simp
  next
    case (Cons x zs)
    with snoc assms have mid: "\<And>a. a \<in> set zs \<Longrightarrow> pv' a = pv a \<and> nx' a = nx a"
      by auto
    from snoc Cons assms have "dseg pv nx x zs y" and "x \<noteq> y" by auto
    then have "dseg pv' nx' x zs y" using dseg_cong [OF mid] by simp
    with snoc Cons assms show ?thesis by auto
  qed
qed

text \<open>The next pointers and the first address determine the whole list.\<close>

lemma dseg_unique:
  "dseg pv nx p xs NULL \<Longrightarrow> dseg pv' nx p' ys NULL \<Longrightarrow> hd_or NULL xs = hd_or NULL ys \<Longrightarrow> xs = ys"
proof (induction xs arbitrary: p p' ys)
  case Nil
  then show ?case by (cases ys) auto
next
  case (Cons x xs)
  then obtain zs where "ys = x # zs" by (cases ys) auto
  with Cons show ?case by auto
qed

lemma nx_last_or: "dseg pv nx p xs q \<Longrightarrow> xs \<noteq> [] \<Longrightarrow> nx (last_or d xs) = q"
  by (cases xs rule: rev_cases) auto

lemma pv_hd_or: "dseg pv nx p xs q \<Longrightarrow> xs \<noteq> [] \<Longrightarrow> pv (hd_or d xs) = p"
  by (cases xs) auto

lemma last_or_NULL_iff: "dseg pv nx p xs q \<Longrightarrow> last_or NULL xs = NULL \<longleftrightarrow> xs = []"
  by (cases xs rule: rev_cases) auto

lemma hd_or_NULL_iff: "dseg pv nx p xs q \<Longrightarrow> hd_or NULL xs = NULL \<longleftrightarrow> xs = []"
  by (cases xs) auto

section \<open>Lists with a container: representation and correctness of the macros\<close>

text \<open>
  \<open>list_rep p c m xs\<close>: the container \<open>c\<close> and the links \<open>m\<close> stand for the list
  \<open>xs\<close>, whose first element has \<open>p\<close> as its previous pointer. A list that is well formed
  in both directions has \<open>p = NULL\<close>.
\<close>

definition list_rep :: "addr \<Rightarrow> list_container \<Rightarrow> links \<Rightarrow> addr list \<Rightarrow> bool" where
  "list_rep p c m xs \<longleftrightarrow>
     distinct xs \<and> dseg (\<lambda>a. lnk_prev (m a)) (\<lambda>a. lnk_next (m a)) p xs NULL \<and>
     lc_start c = hd_or NULL xs \<and> lc_end c = last_or NULL xs"

lemma dseg_links_frame:
  assumes "\<And>a. a \<in> set xs \<Longrightarrow> m' a = m a"
  shows "dseg (\<lambda>a. lnk_prev (m' a)) (\<lambda>a. lnk_next (m' a)) p xs q =
    dseg (\<lambda>a. lnk_prev (m a)) (\<lambda>a. lnk_next (m a)) p xs q"
  by (rule dseg_cong) (simp add: assms)

lemma list_rep_frame:
  assumes "list_rep p c m xs" and "\<And>a. a \<in> set xs \<Longrightarrow> m' a = m a"
  shows "list_rep p c m' xs"
  using assms dseg_links_frame [of xs m' m] by (simp add: list_rep_def)

lemma list_rep_nonnull: "list_rep p c m xs \<Longrightarrow> NULL \<notin> set xs"
  unfolding list_rep_def using dseg_nonnull by blast

lemma list_rep_start: "list_rep p c m xs \<Longrightarrow> lc_start c = NULL \<longleftrightarrow> xs = []"
  by (auto simp: list_rep_def hd_or_NULL_iff)

lemma list_rep_end: "list_rep p c m xs \<Longrightarrow> lc_end c = NULL \<longleftrightarrow> xs = []"
  by (auto simp: list_rep_def last_or_NULL_iff)

lemma LIST_INIT_rep: "list_rep p LIST_INIT m []"
  by (simp add: list_rep_def LIST_INIT_def)

lemma LIST_APPEND_rep:
  assumes rep: "list_rep p c m xs" and "x \<noteq> NULL" and "x \<notin> set xs"
    and app: "LIST_APPEND c m x = (c', m')"
  shows "list_rep (if xs = [] then NULL else p) c' m' (xs @ [x])"
    and "\<And>a. a \<notin> set (xs @ [x]) \<Longrightarrow> m' a = m a"
proof -
  show "list_rep (if xs = [] then NULL else p) c' m' (xs @ [x])"
  proof (cases "xs = []")
    case True
    with assms list_rep_end [OF rep] show ?thesis
      by (auto simp: list_rep_def LIST_APPEND_def)
  next
    case False
    let ?e = "last_or NULL xs"
    from rep False have e: "lc_end c = ?e" "?e \<in> set xs" "?e \<noteq> NULL"
      using list_rep_end [OF rep] by (auto simp: list_rep_def last_or_in_set)
    with \<open>x \<notin> set xs\<close> have "?e \<noteq> x" by metis
    with app e have m': "c' = c\<lparr>lc_end := x\<rparr>"
      "m' = m(?e := (m ?e)\<lparr>lnk_next := x\<rparr>, x := (m x)\<lparr>lnk_prev := ?e, lnk_next := NULL\<rparr>)"
      by (simp_all add: LIST_APPEND_def Let_def)
    from rep have seg: "dseg (\<lambda>a. lnk_prev (m a)) (\<lambda>a. lnk_next (m a)) p xs NULL"
      and "distinct xs" by (simp_all add: list_rep_def)
    note hp = pv_hd_or [OF seg False]
    from seg \<open>distinct xs\<close>
    have "dseg (\<lambda>a. lnk_prev (m' a)) (\<lambda>a. lnk_next (m' a)) p xs x"
    proof (rule dseg_relink)
      fix a assume "a \<in> set xs"
      with \<open>x \<notin> set xs\<close> have "a \<noteq> x" by blast
      then show "lnk_prev (m' a) = (if a = hd_or p xs then p else lnk_prev (m a))"
        and "lnk_next (m' a) = (if a = last_or NULL xs then x else lnk_next (m a))"
        using hp by (simp_all add: m')
    qed
    with rep e m' assms(2,3) False show ?thesis
      by (simp add: list_rep_def last_or_def) (cases xs; simp)
  qed
next
  fix a assume a: "a \<notin> set (xs @ [x])"
  have "xs \<noteq> [] \<Longrightarrow> lc_end c \<in> set xs"
    using rep by (simp add: list_rep_def last_or_in_set)
  with app a list_rep_end [OF rep] show "m' a = m a"
    by (auto simp: LIST_APPEND_def Let_def split: if_splits)
qed

text \<open>
  Popping returns the first element and leaves the rest. The new first element keeps its
  pointer to the popped one: the macro does not reset it.
\<close>

lemma LIST_POP_FROM_START_rep:
  assumes rep: "list_rep p c m (x # xs)"
    and pop: "LIST_POP_FROM_START c m v = (c', m', v')"
  shows "v' = x" and "list_rep x c' m' xs"
    and "\<And>a. a \<noteq> x \<Longrightarrow> m' a = m a"
    and "m' x = (m x)\<lparr>lnk_prev := NULL, lnk_next := NULL\<rparr>"
proof -
  from rep have st: "lc_start c = x" "x \<noteq> NULL" "x \<notin> set xs"
    "lnk_next (m x) = hd_or NULL xs" "distinct xs"
    and seg: "dseg (\<lambda>a. lnk_prev (m a)) (\<lambda>a. lnk_next (m a)) x xs NULL"
    and en: "lc_end c = last_or x xs"
    by (auto simp: list_rep_def)
  from pop st show v: "v' = x" and other: "\<And>a. a \<noteq> x \<Longrightarrow> m' a = m a"
    and "m' x = (m x)\<lparr>lnk_prev := NULL, lnk_next := NULL\<rparr>"
    by (auto simp: LIST_POP_FROM_START_def Let_def)
  have "dseg (\<lambda>a. lnk_prev (m' a)) (\<lambda>a. lnk_next (m' a)) x xs NULL"
    using seg st(3) other dseg_links_frame [of xs m' m] by metis
  moreover have "lc_start c' = hd_or NULL xs" "lc_end c' = last_or NULL xs"
    using pop st en hd_or_NULL_iff [OF seg]
    by (auto simp: LIST_POP_FROM_START_def Let_def last_or_def split: if_splits)
  ultimately show "list_rep x c' m' xs"
    using st by (simp add: list_rep_def)
qed

lemma LIST_POP_FROM_START_empty:
  "list_rep p c m [] \<Longrightarrow> LIST_POP_FROM_START c m v = (c, m, v)"
  by (simp add: list_rep_def LIST_POP_FROM_START_def)

text \<open>
  Removing an element is correct unless it is the first one and its previous pointer is stale.
\<close>

lemma LIST_REMOVE_links:
  assumes rep: "list_rep p c m (ys @ x # zs)" and p: "ys = [] \<Longrightarrow> p = NULL"
    and rm: "LIST_REMOVE c m x = (c', m')"
  shows "lnk_prev (m' a) = (if zs \<noteq> [] \<and> a = hd_or NULL zs then last_or p ys else lnk_prev (m a))"
    and "lnk_next (m' a) = (if ys \<noteq> [] \<and> a = last_or NULL ys then hd_or NULL zs else lnk_next (m a))"
    and "lc_start c' = hd_or NULL (ys @ zs)" and "lc_end c' = last_or NULL (ys @ zs)"
proof -
  from rep have x: "lnk_prev (m x) = last_or p ys" "lnk_next (m x) = hd_or NULL zs"
    "lc_start c = hd_or x ys" "lc_end c = last_or x zs" "x \<notin> set ys" "x \<notin> set zs"
    and seg: "dseg (\<lambda>a. lnk_prev (m a)) (\<lambda>a. lnk_next (m a)) p ys x"
      "dseg (\<lambda>a. lnk_prev (m a)) (\<lambda>a. lnk_next (m a)) x zs NULL"
    and disj: "set ys \<inter> set zs = {}"
    by (auto simp: list_rep_def)
  have ys: "ys \<noteq> [] \<Longrightarrow> last_or p ys \<in> set ys \<and> last_or p ys \<noteq> NULL \<and> last_or p ys = last_or NULL ys"
    using last_or_in_set dseg_nonnull [OF seg(1)] by (metis last_or_def)
  have zs: "zs \<noteq> [] \<Longrightarrow> hd_or NULL zs \<in> set zs \<and> hd_or NULL zs \<noteq> NULL"
    using hd_or_in_set dseg_nonnull [OF seg(2)] by metis
  have eq: "m' = snd (LIST_REMOVE c m x)" "c' = fst (LIST_REMOVE c m x)"
    using rm by simp_all
  have m': "m' = (\<lambda>a. (m a)
      \<lparr>lnk_prev := (if zs \<noteq> [] \<and> a = hd_or NULL zs then last_or p ys else lnk_prev (m a)),
       lnk_next := (if ys \<noteq> [] \<and> a = last_or NULL ys then hd_or NULL zs else lnk_next (m a))\<rparr>)
     \<and> lc_start c' = hd_or NULL (ys @ zs) \<and> lc_end c' = last_or NULL (ys @ zs)"
  proof (cases "ys = []"; cases "zs = []")
    assume "ys = []" "zs = []"
    with x p show ?thesis unfolding eq by (auto simp: LIST_REMOVE_def)
  next
    assume "ys = []" "zs \<noteq> []"
    with x p zs show ?thesis unfolding eq
      by (auto simp: LIST_REMOVE_def fun_eq_iff last_or_def)
  next
    assume e: "ys \<noteq> []" "zs = []"
    with ys x(5) have "last_or NULL ys \<noteq> x" by metis
    with e x ys show ?thesis unfolding eq
      by (auto simp: LIST_REMOVE_def fun_eq_iff hd_or_def split: list.splits)
  next
    assume e: "ys \<noteq> []" "zs \<noteq> []"
    with ys zs x(5,6) disj have "last_or NULL ys \<noteq> x" "hd_or NULL zs \<noteq> x"
      "hd_or NULL zs \<noteq> last_or NULL ys" by (metis disjoint_iff)+
    with e x ys zs show ?thesis unfolding eq
      by (auto simp: LIST_REMOVE_def fun_eq_iff hd_or_def last_or_def split: list.splits)
  qed
  then show "lnk_prev (m' a) = (if zs \<noteq> [] \<and> a = hd_or NULL zs then last_or p ys else lnk_prev (m a))"
    and "lnk_next (m' a) = (if ys \<noteq> [] \<and> a = last_or NULL ys then hd_or NULL zs else lnk_next (m a))"
    and "lc_start c' = hd_or NULL (ys @ zs)" and "lc_end c' = last_or NULL (ys @ zs)"
    by simp_all
qed

lemma LIST_REMOVE_rep:
  assumes rep: "list_rep p c m (ys @ x # zs)" and p: "ys = [] \<Longrightarrow> p = NULL"
    and rm: "LIST_REMOVE c m x = (c', m')"
  shows "list_rep p c' m' (ys @ zs)" and "\<And>a. a \<notin> set (ys @ zs) \<Longrightarrow> m' a = m a"
proof -
  note m' = LIST_REMOVE_links [OF rep p rm]
  from rep have seg: "dseg (\<lambda>a. lnk_prev (m a)) (\<lambda>a. lnk_next (m a)) p ys x"
      "dseg (\<lambda>a. lnk_prev (m a)) (\<lambda>a. lnk_next (m a)) x zs NULL"
    and dis: "distinct ys" "distinct zs" "set ys \<inter> set zs = {}"
    by (auto simp: list_rep_def)
  from seg(1) dis(1)
  have 1: "dseg (\<lambda>a. lnk_prev (m' a)) (\<lambda>a. lnk_next (m' a)) p ys (hd_or NULL zs)"
  proof (rule dseg_relink)
    fix a assume a: "a \<in> set ys"
    then have "ys \<noteq> []" by auto
    moreover have "zs \<noteq> [] \<Longrightarrow> a \<noteq> hd_or NULL zs" using dis(3) a hd_or_in_set by fastforce
    ultimately show "lnk_prev (m' a) = (if a = hd_or p ys then p else lnk_prev (m a))"
      and "lnk_next (m' a) = (if a = last_or x ys then hd_or NULL zs else lnk_next (m a))"
      using pv_hd_or [OF seg(1)] by (auto simp: m' last_or_def)
  qed
  from seg(2) dis(2)
  have 2: "dseg (\<lambda>a. lnk_prev (m' a)) (\<lambda>a. lnk_next (m' a)) (last_or p ys) zs NULL"
  proof (rule dseg_relink)
    fix a assume a: "a \<in> set zs"
    then have "zs \<noteq> []" by auto
    moreover have "ys \<noteq> [] \<Longrightarrow> a \<noteq> last_or NULL ys" using dis(3) a last_or_in_set by fastforce
    ultimately show "lnk_prev (m' a) = (if a = hd_or x zs then last_or p ys else lnk_prev (m a))"
      and "lnk_next (m' a) = (if a = last_or NULL zs then NULL else lnk_next (m a))"
      using nx_last_or [OF seg(2)] by (auto simp: m' hd_or_def split: list.splits)
  qed
  from 1 2 dis m'(3,4) show "list_rep p c' m' (ys @ zs)"
    by (auto simp: list_rep_def)
next
  fix a assume "a \<notin> set (ys @ zs)"
  then show "m' a = m a"
    using LIST_REMOVE_links(1,2) [OF rep p rm, of a] hd_or_in_set last_or_in_set
    by (intro link.equality) fastforce+
qed

text \<open>
  An element that has been copied from \<open>old\<close> to \<open>new\<close> takes the place of the old one.
\<close>

lemma LIST_UPDATE_ADDRESS_rep:
  assumes rep: "list_rep p c m (ys @ old # zs)" and p: "ys = [] \<Longrightarrow> p = NULL"
    and new: "new \<noteq> NULL" "new \<notin> set (ys @ old # zs)"
    and upd: "LIST_UPDATE_ADDRESS c (m(new := m old)) new = (c', m')"
  shows "list_rep p c' m' (ys @ new # zs)"
proof -
  from rep have old: "lnk_prev (m old) = last_or p ys" "lnk_next (m old) = hd_or NULL zs"
    "lc_start c = hd_or old ys" "lc_end c = last_or old zs"
    and seg: "dseg (\<lambda>a. lnk_prev (m a)) (\<lambda>a. lnk_next (m a)) p ys old"
      "dseg (\<lambda>a. lnk_prev (m a)) (\<lambda>a. lnk_next (m a)) old zs NULL"
    and dis: "distinct ys" "distinct zs" "set ys \<inter> set zs = {}"
    by (auto simp: list_rep_def)
  have ys: "ys \<noteq> [] \<Longrightarrow> last_or p ys \<in> set ys \<and> last_or p ys \<noteq> NULL \<and> last_or p ys \<noteq> new"
    using last_or_in_set dseg_nonnull [OF seg(1)] new(2) by (metis UnI1 set_append)
  have zs: "zs \<noteq> [] \<Longrightarrow> hd_or NULL zs \<in> set zs \<and> hd_or NULL zs \<noteq> NULL \<and> hd_or NULL zs \<noteq> new"
    using hd_or_in_set dseg_nonnull [OF seg(2)] new(2) by (metis UnCI list.set_intros(2) set_append)
  have yz: "ys \<noteq> [] \<Longrightarrow> zs \<noteq> [] \<Longrightarrow> last_or p ys \<noteq> hd_or NULL zs"
    using ys zs dis(3) by (metis disjoint_iff)
  have eq: "m' = snd (LIST_UPDATE_ADDRESS c (m(new := m old)) new)"
    "c' = fst (LIST_UPDATE_ADDRESS c (m(new := m old)) new)"
    using upd by simp_all
  have m'new: "lnk_prev (m' new) = last_or p ys \<and> lnk_next (m' new) = hd_or NULL zs"
    unfolding eq using old ys zs p
    by (cases "ys = []"; cases "zs = []") (auto simp: LIST_UPDATE_ADDRESS_def)
  have m'y: "lnk_prev (m' a) = lnk_prev (m a) \<and>
      lnk_next (m' a) = (if a = last_or p ys then new else lnk_next (m a))"
    if "a \<in> set ys" for a
  proof -
    from that have ne: "ys \<noteq> []" by auto
    show ?thesis using that old ys [OF ne] zs yz [OF ne] new(2) dis(3) unfolding eq
      by (cases "zs = []") (auto simp: LIST_UPDATE_ADDRESS_def)
  qed
  have m'z: "lnk_next (m' a) = lnk_next (m a) \<and>
      lnk_prev (m' a) = (if a = hd_or NULL zs then new else lnk_prev (m a))"
    if "a \<in> set zs" for a
  proof -
    from that have ne: "zs \<noteq> []" by auto
    show ?thesis using that old ys zs [OF ne] yz [OF _ ne] p new(2) dis(3) unfolding eq
      by (cases "ys = []") (auto simp: LIST_UPDATE_ADDRESS_def)
  qed
  have "dseg (\<lambda>a. lnk_prev (m' a)) (\<lambda>a. lnk_next (m' a)) p ys new"
    using seg(1) dis(1) by (rule dseg_relink) (use m'y pv_hd_or [OF seg(1)] in \<open>cases ys; auto simp: last_or_def\<close>)+
  moreover have "dseg (\<lambda>a. lnk_prev (m' a)) (\<lambda>a. lnk_next (m' a)) new zs NULL"
    using seg(2) dis(2)
    by (rule dseg_relink)
      (use m'z nx_last_or [OF seg(2)] in \<open>cases zs; auto\<close>)+
  moreover have "lc_start c' = hd_or new ys"
  proof (cases "ys = []")
    case True
    with p old zs show ?thesis unfolding eq by (cases "zs = []") (auto simp: LIST_UPDATE_ADDRESS_def)
  next
    case False
    then have "hd_or old ys = hd_or new ys" by (cases ys) simp_all
    with False old ys [OF False] zs show ?thesis
      unfolding eq by (cases "zs = []") (auto simp: LIST_UPDATE_ADDRESS_def)
  qed
  moreover have "lc_end c' = last_or new zs"
  proof (cases "zs = []")
    case True
    then show ?thesis using old p unfolding eq by (auto simp: LIST_UPDATE_ADDRESS_def)
  next
    case False
    then have "last_or old zs = last_or new zs" by (simp add: last_or_def)
    with False old zs [OF False] show ?thesis
      unfolding eq by (auto simp: LIST_UPDATE_ADDRESS_def)
  qed
  ultimately show ?thesis using dis new m'new by (auto simp: list_rep_def)
qed

lemma list_iter_from_seg:
  "dseg pv (\<lambda>a. lnk_next (m a)) p xs NULL \<Longrightarrow> list_iter_from m (hd_or NULL xs) = Some xs"
proof (induction xs arbitrary: p)
  case Nil
  show ?case by (simp add: list_iter_from.simps)
next
  case (Cons x xs)
  then show ?case by (subst list_iter_from.simps) auto
qed

lemma LIST_ITER_rep: "list_rep p c m xs \<Longrightarrow> LIST_ITER c m = Some xs"
  unfolding list_rep_def LIST_ITER_def using list_iter_from_seg by metis

section \<open>The queue interface\<close>

text \<open>
  The clients of the container lists (run queues, the threads blocked on an endpoint, the
  buckets of the thread table) rely on them as first-in first-out queues.
\<close>

fun append_all :: "('c \<Rightarrow> 'm \<Rightarrow> addr \<Rightarrow> 'c \<times> 'm) \<Rightarrow> 'c \<Rightarrow> 'm \<Rightarrow> addr list \<Rightarrow> 'c \<times> 'm" where
  "append_all app c m [] = (c, m)"
| "append_all app c m (x # xs) = (let (c', m') = app c m x in append_all app c' m' xs)"

fun pop_n :: "('c \<Rightarrow> 'm \<Rightarrow> addr \<Rightarrow> 'c \<times> 'm \<times> addr) \<Rightarrow> nat \<Rightarrow> 'c \<Rightarrow> 'm \<Rightarrow> 'c \<times> 'm \<times> addr list" where
  "pop_n pop 0 c m = (c, m, [])"
| "pop_n pop (Suc n) c m =
     (let (c1, m1, x) = pop c m NULL; (c2, m2, xs) = pop_n pop n c1 m1 in (c2, m2, x # xs))"

locale fifo_queue =
  fixes rep :: "'c \<Rightarrow> 'm \<Rightarrow> addr list \<Rightarrow> bool"
    and app :: "'c \<Rightarrow> 'm \<Rightarrow> addr \<Rightarrow> 'c \<times> 'm"
    and pop :: "'c \<Rightarrow> 'm \<Rightarrow> addr \<Rightarrow> 'c \<times> 'm \<times> addr"
  assumes rep_app: "rep c m xs \<Longrightarrow> x \<noteq> NULL \<Longrightarrow> x \<notin> set xs \<Longrightarrow> app c m x = (c', m') \<Longrightarrow>
      rep c' m' (xs @ [x])"
    and rep_pop: "rep c m (x # xs) \<Longrightarrow> pop c m v = (c', m', v') \<Longrightarrow> v' = x \<and> rep c' m' xs"
    and rep_pop_empty: "rep c m [] \<Longrightarrow> pop c m v = (c, m, v)"
begin

lemma rep_append_all:
  assumes "rep c m ys" and "distinct (ys @ xs)" and "NULL \<notin> set xs"
    and "append_all app c m xs = (c', m')"
  shows "rep c' m' (ys @ xs)"
  using assms
proof (induction xs arbitrary: c m ys)
  case Nil
  then show ?case by simp
next
  case (Cons x xs)
  obtain c1 m1 where a: "app c m x = (c1, m1)" by fastforce
  with Cons.prems have "rep c1 m1 (ys @ [x])" by (intro rep_app) auto
  with Cons.prems a show ?case using Cons.IH [of c1 m1 "ys @ [x]"] by simp
qed

lemma rep_pop_n:
  assumes "rep c m (xs @ ys)" and "pop_n pop (length xs) c m = (c', m', zs)"
  shows "zs = xs \<and> rep c' m' ys"
  using assms
proof (induction xs arbitrary: c m zs)
  case Nil
  then show ?case by simp
next
  case (Cons x xs)
  obtain c1 m1 v where p: "pop c m NULL = (c1, m1, v)" by (metis prod_cases3)
  with Cons.prems(1) rep_pop have v: "v = x" "rep c1 m1 (xs @ ys)" by auto
  with Cons p show ?case by (auto split: prod.splits)
qed

lemma first_in_first_out:
  assumes "rep c m []" and "distinct xs" and "NULL \<notin> set xs"
    and "append_all app c m xs = (c1, m1)" and "pop_n pop (length xs) c1 m1 = (c2, m2, zs)"
  shows "zs = xs \<and> rep c2 m2 []"
  using rep_append_all [of c m "[]"] rep_pop_n [of c1 m1 xs "[]"] assms by simp

end

interpretation lq: fifo_queue "\<lambda>c m xs. \<exists>p. list_rep p c m xs" LIST_APPEND LIST_POP_FROM_START
  by unfold_locales
    (use LIST_APPEND_rep(1) in blast,
     use LIST_POP_FROM_START_rep(1,2) in blast,
     use LIST_POP_FROM_START_empty in blast)

section \<open>Lists without a container: representation and correctness of the macros\<close>

definition nc_rep :: "nc_links \<Rightarrow> addr list \<Rightarrow> bool" where
  "nc_rep m xs \<longleftrightarrow>
     distinct xs \<and> dseg (\<lambda>a. nc_prev (m a)) (\<lambda>a. nc_next (m a)) NULL xs NULL \<and>
     (\<forall>a \<in> set xs. nc_start (m a) = hd_or NULL xs \<and> nc_end (m a) = last_or NULL xs)"

lemma dseg_nc_frame:
  assumes "\<And>a. a \<in> set xs \<Longrightarrow> nc_prev (m' a) = nc_prev (m a) \<and> nc_next (m' a) = nc_next (m a)"
  shows "dseg (\<lambda>a. nc_prev (m' a)) (\<lambda>a. nc_next (m' a)) p xs q =
    dseg (\<lambda>a. nc_prev (m a)) (\<lambda>a. nc_next (m a)) p xs q"
  by (rule dseg_cong) (simp add: assms)

lemma nc_rep_frame:
  assumes "nc_rep m xs" and "\<And>a. a \<in> set xs \<Longrightarrow> m' a = m a"
  shows "nc_rep m' xs"
  using assms dseg_nc_frame [of xs m' m] by (simp add: nc_rep_def)

lemma nc_rep_nonnull: "nc_rep m xs \<Longrightarrow> NULL \<notin> set xs"
  unfolding nc_rep_def using dseg_nonnull by blast

lemma LIST_INIT_NO_CONTAINER_rep: "c \<noteq> NULL \<Longrightarrow> nc_rep (LIST_INIT_NO_CONTAINER m c) [c]"
  by (simp add: nc_rep_def LIST_INIT_NO_CONTAINER_def)

lemma set_start_forward_seg:
  assumes "dseg pv (\<lambda>a. nc_next (m a)) p xs NULL" and "distinct xs"
  shows "set_start_forward m v (hd_or NULL xs) =
    Some (\<lambda>a. if a \<in> set xs then (m a)\<lparr>nc_start := v\<rparr> else m a)"
  using assms
proof (induction xs arbitrary: m p)
  case Nil
  show ?case by (simp add: set_start_forward.simps)
next
  case (Cons x xs)
  let ?m = "m(x := (m x)\<lparr>nc_start := v\<rparr>)"
  have e: "(\<lambda>a. nc_next (?m a)) = (\<lambda>a. nc_next (m a))" by auto
  from Cons.prems have "dseg pv (\<lambda>a. nc_next (?m a)) x xs NULL" "distinct xs"
    unfolding e by simp_all
  then have "set_start_forward ?m v (hd_or NULL xs) =
    Some (\<lambda>a. if a \<in> set xs then (?m a)\<lparr>nc_start := v\<rparr> else ?m a)" by (rule Cons.IH)
  moreover from Cons.prems have "x \<noteq> NULL" "nc_next (m x) = hd_or NULL xs" "x \<notin> set xs" by auto
  ultimately show ?case
    by (subst set_start_forward.simps) (simp add: Let_def fun_eq_iff)
qed

lemma set_end_forward_seg:
  assumes "dseg pv (\<lambda>a. nc_next (m a)) p xs NULL" and "distinct xs"
  shows "set_end_forward m v (hd_or NULL xs) =
    Some (\<lambda>a. if a \<in> set xs then (m a)\<lparr>nc_end := v\<rparr> else m a)"
  using assms
proof (induction xs arbitrary: m p)
  case Nil
  show ?case by (simp add: set_end_forward.simps)
next
  case (Cons x xs)
  let ?m = "m(x := (m x)\<lparr>nc_end := v\<rparr>)"
  have e: "(\<lambda>a. nc_next (?m a)) = (\<lambda>a. nc_next (m a))" by auto
  from Cons.prems have "dseg pv (\<lambda>a. nc_next (?m a)) x xs NULL" "distinct xs"
    unfolding e by simp_all
  then have "set_end_forward ?m v (hd_or NULL xs) =
    Some (\<lambda>a. if a \<in> set xs then (?m a)\<lparr>nc_end := v\<rparr> else ?m a)" by (rule Cons.IH)
  moreover from Cons.prems have "x \<noteq> NULL" "nc_next (m x) = hd_or NULL xs" "x \<notin> set xs" by auto
  ultimately show ?case
    by (subst set_end_forward.simps) (simp add: Let_def fun_eq_iff)
qed

lemma set_end_backward_seg:
  assumes "dseg (\<lambda>a. nc_prev (m a)) nx NULL xs q" and "distinct xs"
  shows "set_end_backward m v (last_or NULL xs) =
    Some (\<lambda>a. if a \<in> set xs then (m a)\<lparr>nc_end := v\<rparr> else m a)"
  using assms
proof (induction xs arbitrary: m q rule: rev_induct)
  case Nil
  show ?case by (simp add: set_end_backward.simps)
next
  case (snoc x xs)
  let ?m = "m(x := (m x)\<lparr>nc_end := v\<rparr>)"
  have e: "(\<lambda>a. nc_prev (?m a)) = (\<lambda>a. nc_prev (m a))" by auto
  from snoc.prems have "dseg (\<lambda>a. nc_prev (?m a)) nx NULL xs x" "distinct xs"
    unfolding e by simp_all
  then have "set_end_backward ?m v (last_or NULL xs) =
    Some (\<lambda>a. if a \<in> set xs then (?m a)\<lparr>nc_end := v\<rparr> else ?m a)" by (rule snoc.IH)
  moreover from snoc.prems have "x \<noteq> NULL" "nc_prev (m x) = last_or NULL xs" "x \<notin> set xs" by auto
  ultimately show ?case
    by (subst last_or_simps, subst set_end_backward.simps) (simp add: Let_def fun_eq_iff)
qed

lemma nc_iter_from_seg:
  "dseg pv (\<lambda>a. nc_next (m a)) p xs NULL \<Longrightarrow> nc_iter_from m (hd_or NULL xs) = Some xs"
proof (induction xs arbitrary: p)
  case Nil
  show ?case by (simp add: nc_iter_from.simps)
next
  case (Cons x xs)
  then show ?case by (subst nc_iter_from.simps) auto
qed

lemma LIST_ITER_NO_CONTAINER_rep:
  "nc_rep m xs \<Longrightarrow> a \<in> set xs \<Longrightarrow> LIST_ITER_NO_CONTAINER m a = Some xs"
  using nc_iter_from_seg by (fastforce simp: nc_rep_def LIST_ITER_NO_CONTAINER_def)

text \<open>
  What deletion and address update have in common: two segments around a replaced part.
\<close>

lemma nc_segments:
  assumes rep: "nc_rep m (ys @ x # zs)"
  shows "dseg (\<lambda>a. nc_prev (m a)) (\<lambda>a. nc_next (m a)) NULL ys x"
    and "dseg (\<lambda>a. nc_prev (m a)) (\<lambda>a. nc_next (m a)) x zs NULL"
    and "distinct ys" "distinct zs" "set ys \<inter> set zs = {}" "x \<notin> set ys" "x \<notin> set zs"
    and "nc_prev (m x) = last_or NULL ys" "nc_next (m x) = hd_or NULL zs"
    and "x \<noteq> NULL"
  using rep by (auto simp: nc_rep_def)

lemma nc_relink:
  assumes rep: "nc_rep m (ys @ x # zs)"
    and left: "\<And>a. a \<in> set ys \<Longrightarrow> nc_prev (m' a) = nc_prev (m a) \<and>
      nc_next (m' a) = (if a = last_or NULL ys then q else nc_next (m a))"
    and right: "\<And>a. a \<in> set zs \<Longrightarrow> nc_next (m' a) = nc_next (m a) \<and>
      nc_prev (m' a) = (if a = hd_or NULL zs then p else nc_prev (m a))"
  shows "dseg (\<lambda>a. nc_prev (m' a)) (\<lambda>a. nc_next (m' a)) NULL ys q"
    and "dseg (\<lambda>a. nc_prev (m' a)) (\<lambda>a. nc_next (m' a)) p zs NULL"
proof -
  note s = nc_segments [OF rep]
  from s(1,3) show "dseg (\<lambda>a. nc_prev (m' a)) (\<lambda>a. nc_next (m' a)) NULL ys q"
    by (rule dseg_relink) (use left pv_hd_or [OF s(1)] in \<open>cases ys; auto simp: last_or_def\<close>)+
  from s(2,4) show "dseg (\<lambda>a. nc_prev (m' a)) (\<lambda>a. nc_next (m' a)) p zs NULL"
    by (rule dseg_relink) (use right nx_last_or [OF s(2)] in \<open>cases zs; auto\<close>)+
qed

lemma nc_neighbours:
  assumes rep: "nc_rep m (ys @ x # zs)"
  shows "ys \<noteq> [] \<Longrightarrow> last_or NULL ys \<in> set ys \<and> last_or NULL ys \<noteq> NULL \<and> last_or NULL ys \<noteq> x"
    and "zs \<noteq> [] \<Longrightarrow> hd_or NULL zs \<in> set zs \<and> hd_or NULL zs \<noteq> NULL \<and> hd_or NULL zs \<noteq> x"
    and "ys \<noteq> [] \<Longrightarrow> zs \<noteq> [] \<Longrightarrow> last_or NULL ys \<noteq> hd_or NULL zs"
proof -
  note s = nc_segments [OF rep]
  show 1: "last_or NULL ys \<in> set ys \<and> last_or NULL ys \<noteq> NULL \<and> last_or NULL ys \<noteq> x" if "ys \<noteq> []"
    using last_or_in_set [OF that] dseg_nonnull [OF s(1)] s(6) by metis
  show 2: "hd_or NULL zs \<in> set zs \<and> hd_or NULL zs \<noteq> NULL \<and> hd_or NULL zs \<noteq> x" if "zs \<noteq> []"
    using hd_or_in_set [OF that] dseg_nonnull [OF s(2)] s(7) by metis
  show "last_or NULL ys \<noteq> hd_or NULL zs" if "ys \<noteq> []" "zs \<noteq> []"
    using 1 2 s(5) that by (metis disjoint_iff)
qed

lemma LIST_DELETE_NO_CONTAINER_rep:
  assumes rep: "nc_rep m (ys @ x # zs)"
  shows "\<exists>m'. LIST_DELETE_NO_CONTAINER m x = Some m' \<and> nc_rep m' (ys @ zs) \<and>
    (\<forall>a. a \<notin> set (ys @ zs) \<longrightarrow> m' a = m a)"
proof -
  note s = nc_segments [OF rep] and n = nc_neighbours [OF rep]
  from rep have ends: "\<And>a. a \<in> set ys \<union> set zs \<Longrightarrow>
      nc_start (m a) = hd_or x ys \<and> nc_end (m a) = last_or x zs"
    by (simp add: nc_rep_def)
  consider "ys = []" "zs = []" | "ys = []" "zs \<noteq> []" | "ys \<noteq> []" "zs = []" | "ys \<noteq> []" "zs \<noteq> []"
    by blast
  then show ?thesis
  proof cases
    case 1
    with s show ?thesis by (simp add: LIST_DELETE_NO_CONTAINER_def nc_rep_def)
  next
    case 2
    let ?h = "hd_or NULL zs"
    let ?m = "m(?h := (m ?h)\<lparr>nc_prev := NULL\<rparr>)"
    let ?r = "\<lambda>a. if a \<in> set zs then (?m a)\<lparr>nc_start := ?h\<rparr> else ?m a"
    have e: "(\<lambda>a. nc_next (?m a)) = (\<lambda>a. nc_next (m a))" by auto
    have "set_start_forward ?m ?h ?h = Some ?r"
      using s(2,4) by (intro set_start_forward_seg) (auto simp only: e)
    with 2 s n(2) have del: "LIST_DELETE_NO_CONTAINER m x = Some ?r"
      by (simp add: LIST_DELETE_NO_CONTAINER_def Let_def)
    have "dseg (\<lambda>a. nc_prev (?r a)) (\<lambda>a. nc_next (?r a)) NULL zs NULL"
      using nc_relink(2) [OF rep, of ?r _ NULL] 2 by simp
    with del 2 s(4) ends n(2) show ?thesis
      by (auto simp: nc_rep_def last_or_def)
  next
    case 3
    let ?e = "last_or NULL ys"
    let ?m = "m(?e := (m ?e)\<lparr>nc_next := NULL\<rparr>)"
    let ?r = "\<lambda>a. if a \<in> set ys then (?m a)\<lparr>nc_end := ?e\<rparr> else ?m a"
    have e: "(\<lambda>a. nc_prev (?m a)) = (\<lambda>a. nc_prev (m a))" by auto
    have "set_end_backward ?m ?e ?e = Some ?r"
      using s(1,3) by (intro set_end_backward_seg) (auto simp only: e)
    with 3 s n(1) have del: "LIST_DELETE_NO_CONTAINER m x = Some ?r"
      by (simp add: LIST_DELETE_NO_CONTAINER_def Let_def)
    have "dseg (\<lambda>a. nc_prev (?r a)) (\<lambda>a. nc_next (?r a)) NULL ys NULL"
      using nc_relink(1) [OF rep, of ?r NULL] 3 by simp
    with del 3 s(3) ends n(1) show ?thesis
      by (auto simp: nc_rep_def hd_or_def split: list.splits)
  next
    case 4
    let ?e = "last_or NULL ys" and ?h = "hd_or NULL zs"
    let ?r = "m(?e := (m ?e)\<lparr>nc_next := ?h\<rparr>, ?h := (m ?h)\<lparr>nc_prev := ?e\<rparr>)"
    from 4 s n have del: "LIST_DELETE_NO_CONTAINER m x = Some ?r"
      by (auto simp: LIST_DELETE_NO_CONTAINER_def Let_def)
    have d: "\<And>a. a \<in> set ys \<Longrightarrow> a \<noteq> ?h" "\<And>a. a \<in> set zs \<Longrightarrow> a \<noteq> ?e"
      using n(1,2) 4 s(5) by (metis disjoint_iff)+
    then have "dseg (\<lambda>a. nc_prev (?r a)) (\<lambda>a. nc_next (?r a)) NULL ys ?h"
      and "dseg (\<lambda>a. nc_prev (?r a)) (\<lambda>a. nc_next (?r a)) ?e zs NULL"
      using nc_relink [OF rep, of ?r ?h ?e] n(3) 4 by simp_all
    moreover have "hd_or x ys = hd_or NULL (ys @ zs)" "last_or x zs = last_or NULL (ys @ zs)"
      using 4 by (auto simp: last_or_def hd_or_def split: list.splits)
    ultimately show ?thesis
      using del s(3-5) ends n 4 by (auto simp: nc_rep_def)
  qed
qed

lemma LIST_UPDATE_ADDRESS_NO_CONTAINER_rep:
  assumes rep: "nc_rep m (ys @ old # zs)" and new: "new \<noteq> NULL" "new \<notin> set (ys @ old # zs)"
  shows "\<exists>m'. LIST_UPDATE_ADDRESS_NO_CONTAINER (m(new := m old)) new = Some m' \<and>
    nc_rep m' (ys @ new # zs) \<and> (\<forall>a. a \<notin> set (ys @ new # zs) \<longrightarrow> m' a = m a)"
proof -
  note s = nc_segments [OF rep] and n = nc_neighbours [OF rep]
  let ?e = "last_or NULL ys" and ?h = "hd_or NULL zs"
  let ?m2 = "\<lambda>a. if a = new then m old
    else if ys \<noteq> [] \<and> a = ?e then (m a)\<lparr>nc_next := new\<rparr>
    else if zs \<noteq> [] \<and> a = ?h then (m a)\<lparr>nc_prev := new\<rparr> else m a"
  have fresh: "ys \<noteq> [] \<Longrightarrow> ?e \<noteq> new" "zs \<noteq> [] \<Longrightarrow> ?h \<noteq> new"
    using n(1,2) new(2) by auto
  have m2: "relink_neighbours (m(new := m old)) new = ?m2"
    using s(8,9) n fresh
    by (cases "ys = []"; cases "zs = []") (auto simp: relink_neighbours_def fun_eq_iff)
  have seg: "dseg (\<lambda>a. nc_prev (?m2 a)) (\<lambda>a. nc_next (?m2 a)) NULL (ys @ new # zs) NULL"
  proof -
    have "a \<noteq> new" if "a \<in> set ys \<union> set zs" for a using that new(2) by auto
    moreover have "a \<noteq> ?e" if "a \<in> set zs" "ys \<noteq> []" for a using that n(1) s(5) by auto
    moreover have "a \<noteq> ?h" if "a \<in> set ys" "zs \<noteq> []" for a using that n(2) s(5) by auto
    ultimately have "dseg (\<lambda>a. nc_prev (?m2 a)) (\<lambda>a. nc_next (?m2 a)) NULL ys new"
      and "dseg (\<lambda>a. nc_prev (?m2 a)) (\<lambda>a. nc_next (?m2 a)) new zs NULL"
      by (intro nc_relink [OF rep]; auto)+
    with s(8,9) new(1) show ?thesis by simp
  qed
  have dis: "distinct (ys @ new # zs)" using s new(2) by auto
  have ends: "nc_start (?m2 a) = hd_or old ys \<and> nc_end (?m2 a) = last_or old zs"
    if "a \<in> set (ys @ new # zs)" for a
    using that rep by (auto simp: nc_rep_def)
  let ?m3 = "\<lambda>a. if ys = [] \<and> a \<in> set (new # zs) then (?m2 a)\<lparr>nc_start := new\<rparr> else ?m2 a"
  have m3: "(if nc_prev (?m2 new) = NULL then set_start_forward ?m2 new new else Some ?m2) = Some ?m3"
    using set_start_forward_seg [of _ ?m2 _ "new # zs" new] seg dis s(8) n(1)
    by (cases "ys = []") auto
  let ?m4 = "\<lambda>a. if zs = [] \<and> a \<in> set (ys @ [new]) then (?m3 a)\<lparr>nc_end := new\<rparr> else ?m3 a"
  have prev3: "(\<lambda>a. nc_prev (?m3 a)) = (\<lambda>a. nc_prev (?m2 a))" by auto
  have m4: "(if nc_next (?m3 new) = NULL then set_end_backward ?m3 new new else Some ?m3) = Some ?m4"
  proof (cases "zs = []")
    case True
    with seg dis have "dseg (\<lambda>a. nc_prev (?m3 a)) (\<lambda>a. nc_next (?m2 a)) NULL (ys @ [new]) NULL"
      and "distinct (ys @ [new])" unfolding prev3 by simp_all
    from set_end_backward_seg [OF this, of new] True s(9) show ?thesis by simp
  next
    case False
    with s(9) n(2) show ?thesis by simp
  qed
  have "nc_rep ?m4 (ys @ new # zs)"
  proof -
    have "dseg (\<lambda>a. nc_prev (?m4 a)) (\<lambda>a. nc_next (?m4 a)) NULL (ys @ new # zs) NULL"
      using seg by (subst dseg_nc_frame [of _ _ ?m2]) auto
    moreover have "nc_start (?m4 a) = hd_or new ys \<and> nc_end (?m4 a) = last_or new zs"
      if "a \<in> set (ys @ new # zs)" for a
      using ends [OF that] that
      by (cases "ys = []"; cases "zs = []") (auto simp: last_or_def hd_or_def split: list.splits)
    ultimately show ?thesis using dis by (simp add: nc_rep_def)
  qed
  moreover have "LIST_UPDATE_ADDRESS_NO_CONTAINER (m(new := m old)) new = Some ?m4"
    by (simp only: LIST_UPDATE_ADDRESS_NO_CONTAINER_def Let_def m2 m3 m4 Option.bind.simps)
  moreover have "?m4 a = m a" if "a \<notin> set (ys @ new # zs)" for a
    using that n(1,2) by auto
  ultimately show ?thesis by blast
qed

text \<open>
  Insertion into a list of one element appends to it. Into a longer list it puts the new item
  before the last one but leaves the last item's previous pointer as it was: the list reads
  correctly forwards only.
\<close>

lemma LIST_INSERT_NO_CONTAINER_single:
  assumes "nc_rep m [c]" and "item \<noteq> NULL" and "item \<noteq> c"
  shows "nc_rep (LIST_INSERT_NO_CONTAINER m c item) [c, item]"
  using assms by (auto simp: nc_rep_def LIST_INSERT_NO_CONTAINER_def)

lemma LIST_INSERT_NO_CONTAINER_update:
  assumes "nc_start (m c) = a" "nc_end (m c) = z" "a \<noteq> z" "nc_prev (m z) = y"
    and "c \<noteq> item" "z \<noteq> item" "y \<noteq> item" "y \<noteq> z"
  shows "LIST_INSERT_NO_CONTAINER m c item =
    m(y := (m y)\<lparr>nc_next := item\<rparr>, item := \<lparr>nc_start = a, nc_end = z, nc_prev = y, nc_next = z\<rparr>)"
  using assms
  by (cases "c = y"; cases "m item") (auto simp: LIST_INSERT_NO_CONTAINER_def Let_def fun_eq_iff)

lemma LIST_INSERT_NO_CONTAINER_longer:
  assumes rep: "nc_rep m (ys @ [y, z])" and c: "c \<in> set (ys @ [y, z])"
    and item: "item \<noteq> NULL" "item \<notin> set (ys @ [y, z])"
  shows "LIST_INSERT_NO_CONTAINER m c item =
    m(y := (m y)\<lparr>nc_next := item\<rparr>,
      item := \<lparr>nc_start = hd_or y ys, nc_end = z, nc_prev = y, nc_next = z\<rparr>)"
proof -
  from rep have d: "distinct (ys @ [y, z])" and pz: "nc_prev (m z) = y"
    and e: "\<forall>a \<in> set (ys @ [y, z]). nc_start (m a) = hd_or y ys \<and> nc_end (m a) = z"
    by (simp_all add: nc_rep_def)
  from c e have "nc_start (m c) = hd_or y ys" "nc_end (m c) = z" by blast+
  moreover have "hd_or y ys \<noteq> z" using d by (cases ys) auto
  moreover from item c have "c \<noteq> item" "z \<noteq> item" "y \<noteq> item" by auto
  moreover from d have "y \<noteq> z" by simp
  moreover note pz
  ultimately show ?thesis by (intro LIST_INSERT_NO_CONTAINER_update) auto
qed

lemma LIST_INSERT_NO_CONTAINER_forward:
  assumes rep: "nc_rep m (ys @ [y, z])" and c: "c \<in> set (ys @ [y, z])"
    and item: "item \<noteq> NULL" "item \<notin> set (ys @ [y, z])"
  shows "LIST_ITER_NO_CONTAINER (LIST_INSERT_NO_CONTAINER m c item) c = Some (ys @ [y, item, z])"
    and "nc_prev (LIST_INSERT_NO_CONTAINER m c item z) = y"
proof -
  let ?m = "LIST_INSERT_NO_CONTAINER m c item"
  note eq = LIST_INSERT_NO_CONTAINER_longer [OF assms]
  from rep have seg: "dseg (\<lambda>a. nc_prev (m a)) (\<lambda>a. nc_next (m a)) NULL ys y"
    "y \<noteq> NULL" "z \<noteq> NULL" "y \<noteq> z" "y \<notin> set ys" "z \<notin> set ys" "nc_next (m z) = NULL"
    "nc_prev (m z) = y"
    by (auto simp: nc_rep_def)
  define pv where "pv = (\<lambda>a. if a = y then last_or NULL ys else if a = item then y
    else if a = z then item else nc_prev (m a))"
  have "dseg pv (\<lambda>a. nc_next (?m a)) NULL ys y"
    using seg item by (subst dseg_cong [of _ _ "\<lambda>a. nc_prev (m a)" _ "\<lambda>a. nc_next (m a)"])
      (auto simp: pv_def eq)
  then have "dseg pv (\<lambda>a. nc_next (?m a)) NULL (ys @ [y, item, z]) NULL"
    using seg item by (auto simp: eq pv_def)
  from nc_iter_from_seg [OF this]
  have "nc_iter_from ?m (hd_or y ys) = Some (ys @ [y, item, z])" by simp
  moreover have "nc_start (?m c) = hd_or y ys"
    using rep c item by (auto simp: eq nc_rep_def)
  ultimately show "LIST_ITER_NO_CONTAINER ?m c = Some (ys @ [y, item, z])"
    by (simp add: LIST_ITER_NO_CONTAINER_def)
  show "nc_prev (?m z) = y" using seg item by (simp add: eq)
qed

lemma LIST_APPEND_NO_CONTAINER_rep:
  assumes rep: "nc_rep m xs" and c: "c \<in> set xs" and item: "item \<noteq> NULL" "item \<notin> set xs"
  shows "\<exists>m'. LIST_APPEND_NO_CONTAINER m c item = Some m' \<and> nc_rep m' (xs @ [item])"
proof -
  from c obtain ys e where xs: "xs = ys @ [e]" by (metis empty_iff empty_set rev_exhaust)
  let ?m = "m(e := (m e)\<lparr>nc_next := item\<rparr>, item := (m item)\<lparr>nc_prev := e, nc_next := NULL, nc_start := hd_or e ys\<rparr>)"
  from rep c xs item have c': "nc_end (m c) = e" "nc_start (m c) = hd_or e ys" "c \<noteq> item" "e \<noteq> item"
    and seg: "dseg (\<lambda>a. nc_prev (m a)) (\<lambda>a. nc_next (m a)) NULL ys e" and e: "e \<noteq> NULL"
    "nc_prev (m e) = last_or NULL ys" "e \<notin> set ys"
    by (auto simp: nc_rep_def)
  have "dseg (\<lambda>a. nc_prev (?m a)) (\<lambda>a. nc_next (?m a)) NULL ys e"
    using seg e item xs by (subst dseg_nc_frame [of _ _ m]) auto
  then have seg': "dseg (\<lambda>a. nc_prev (?m a)) (\<lambda>a. nc_next (?m a)) NULL (xs @ [item]) NULL"
    using e c' item xs by simp
  have dis: "distinct (xs @ [item])" using rep item by (simp add: nc_rep_def)
  let ?r = "\<lambda>a. if a \<in> set (xs @ [item]) then (?m a)\<lparr>nc_end := item\<rparr> else ?m a"
  have "LIST_APPEND_NO_CONTAINER m c item = set_end_forward ?m item (hd_or NULL (xs @ [item]))"
    using c' xs by (cases "c = e") (auto simp: LIST_APPEND_NO_CONTAINER_def Let_def)
  also have "\<dots> = Some ?r" by (rule set_end_forward_seg [OF seg' dis])
  finally have "LIST_APPEND_NO_CONTAINER m c item = Some ?r" .
  moreover have "nc_rep ?r (xs @ [item])"
    unfolding nc_rep_def
  proof (intro conjI ballI)
    show "dseg (\<lambda>a. nc_prev (?r a)) (\<lambda>a. nc_next (?r a)) NULL (xs @ [item]) NULL"
      using seg' by (subst dseg_nc_frame [of _ _ ?m]) auto
  qed (use dis rep xs c' in \<open>auto simp: nc_rep_def\<close>)
  ultimately show ?thesis by blast
qed

end
