(* ===== verification/List_Properties.thy ===== *)
theory List_Properties
  imports Linked_List
begin

text \<open>
  The properties of the list macros the kernel relies on: ready queues and blocked lists are
  first in, first out; deleting a capability's resource takes it out of the resource's list
  and nothing else; and the two places where the macros do not keep their own invariant.
\<close>

definition demo_nc_links :: nc_links where
  "demo_nc_links = (\<lambda>_. \<lparr>nc_start = NULL, nc_end = NULL, nc_prev = NULL, nc_next = NULL\<rparr>)"

text \<open>
  Items appended to an empty list with \<open>LIST_APPEND\<close> are popped by
  \<open>LIST_POP_FROM_START\<close> in the order they were appended, and the list is empty afterwards.
\<close>

lemma LIST_APPEND_POP_fifo:
  assumes "distinct xs" and "NULL \<notin> set xs"
    and "append_all LIST_APPEND LIST_INIT m xs = (c1, m1)"
    and "pop_n LIST_POP_FROM_START (length xs) c1 m1 = (c2, m2, zs)"
  shows "zs = xs \<and> \<not> LIST_CAN_POP c2 \<and> LIST_ITER c2 m2 = Some []"
proof -
  have "\<exists>p. list_rep p LIST_INIT m []" using LIST_INIT_rep by blast
  from lq.first_in_first_out [OF this assms] obtain p where "zs = xs" "list_rep p c2 m2 []" by blast
  then show ?thesis using list_rep_start [of p c2 m2 "[]"] LIST_ITER_rep [of p c2 m2 "[]"]
    by (simp add: LIST_CAN_POP_def)
qed

text \<open>
  \<open>LIST_REMOVE\<close> takes exactly the given item out of a list whose first item has no
  predecessor, and the list that remains is iterated in the same order.
\<close>

lemma LIST_REMOVE_takes_out_one:
  assumes "list_rep NULL c m (ys @ x # zs)" and "LIST_REMOVE c m x = (c', m')"
  shows "list_rep NULL c' m' (ys @ zs) \<and> LIST_ITER c' m' = Some (ys @ zs)"
  using LIST_REMOVE_rep(1) [OF assms(1) refl assms(2)] LIST_ITER_rep by blast

text \<open>
  \<open>LIST_POP_FROM_START\<close> leaves the new first item with a pointer to the popped one.
  Removing that item with \<open>LIST_REMOVE\<close> right afterwards has no effect on the list: its
  container still starts with the removed item.
\<close>

lemma LIST_REMOVE_after_pop_keeps_item:
  assumes "list_rep p c m (x # y # zs)" and "LIST_POP_FROM_START c m v = (c1, m1, v1)"
    and "LIST_REMOVE c1 m1 y = (c2, m2)"
  shows "v1 = x \<and> lc_start c2 = y \<and> LIST_ITER c2 m2 = Some (y # zs)"
proof -
  note pop = LIST_POP_FROM_START_rep [OF assms(1,2)]
  from pop(2) have y: "lc_start c1 = y" "lnk_prev (m1 y) = x" "lnk_next (m1 y) = hd_or NULL zs"
    and seg: "dseg (\<lambda>a. lnk_prev (m1 a)) (\<lambda>a. lnk_next (m1 a)) x (y # zs) NULL"
    and dis: "distinct (y # zs)"
    by (simp_all add: list_rep_def)
  from assms(1) have x: "x \<noteq> NULL" "x \<noteq> y" "x \<notin> set zs" by (auto simp: list_rep_def)
  have m2: "lc_start c2 = y" "a \<noteq> x \<Longrightarrow> lnk_next (m2 a) = lnk_next (m1 a)" for a
    using assms(3) y x by (auto simp: LIST_REMOVE_def Let_def split: if_splits)
  have "dseg (\<lambda>a. lnk_prev (m1 a)) (\<lambda>a. lnk_next (m2 a)) x (y # zs) NULL =
      dseg (\<lambda>a. lnk_prev (m1 a)) (\<lambda>a. lnk_next (m1 a)) x (y # zs) NULL"
    using x m2(2) by (intro dseg_cong) (metis set_ConsD)
  with seg list_iter_from_seg have "list_iter_from m2 (hd_or NULL (y # zs)) = Some (y # zs)" by metis
  with m2(1) pop(1) show ?thesis by (simp add: LIST_ITER_def)
qed

text \<open>
  \<open>LIST_DELETE_NO_CONTAINER\<close> always ends, and takes exactly the given item out of its
  list: every remaining item's links and end pointers describe the shorter list, and no other
  memory is changed.
\<close>

lemma LIST_DELETE_NO_CONTAINER_takes_out_one:
  assumes "nc_rep m (ys @ x # zs)"
  shows "\<exists>m'. LIST_DELETE_NO_CONTAINER m x = Some m' \<and> nc_rep m' (ys @ zs)
    \<and> (\<forall>y \<in> set (ys @ zs). LIST_ITER_NO_CONTAINER m' y = Some (ys @ zs))
    \<and> (\<forall>a. a \<notin> set (ys @ zs) \<longrightarrow> m' a = m a)"
  using LIST_DELETE_NO_CONTAINER_rep [OF assms] LIST_ITER_NO_CONTAINER_rep by metis

lemma nc_iter_from_frame:
  "nc_iter_from m x = Some xs \<Longrightarrow> \<forall>a \<in> set xs. nc_next (m' a) = nc_next (m a) \<Longrightarrow>
   nc_iter_from m' x = Some xs"
proof (induction xs arbitrary: x)
  case Nil
  then show ?case
    by (subst nc_iter_from.simps) (subst (asm) nc_iter_from.simps, auto simp: bind_eq_Some_conv split: if_splits)
next
  case (Cons a xs)
  from Cons.prems(1) have "x = a" "a \<noteq> NULL" "nc_iter_from m (nc_next (m a)) = Some xs"
    by (subst (asm) nc_iter_from.simps, auto simp: bind_eq_Some_conv split: if_splits)+
  with Cons show ?case by (subst nc_iter_from.simps) auto
qed

text \<open>
  Inserting twice into a list of two or more items with \<open>LIST_INSERT_NO_CONTAINER\<close> loses
  the first inserted item: iteration over the list afterwards never reaches it.
\<close>

lemma LIST_INSERT_NO_CONTAINER_twice_loses_item:
  assumes "nc_rep m (ys @ [y, z])" and "c \<in> set (ys @ [y, z])"
    and "i \<noteq> NULL" and "i \<notin> set (ys @ [y, z])" and "j \<noteq> NULL" and "j \<notin> set (i # ys @ [y, z])"
  shows "LIST_ITER_NO_CONTAINER (LIST_INSERT_NO_CONTAINER m c i) c = Some (ys @ [y, i, z])
    \<and> LIST_ITER_NO_CONTAINER (LIST_INSERT_NO_CONTAINER (LIST_INSERT_NO_CONTAINER m c i) c j) c
        = Some (ys @ [y, j, z])"
proof -
  note fi = LIST_INSERT_NO_CONTAINER_forward(1) [OF assms(1-4)]
  note eqi = LIST_INSERT_NO_CONTAINER_longer [OF assms(1-4)]
  have j: "j \<notin> set (ys @ [y, z])" using assms(6) by simp
  note fj = LIST_INSERT_NO_CONTAINER_forward(1) [OF assms(1,2,5) j]
  note eqj = LIST_INSERT_NO_CONTAINER_longer [OF assms(1,2,5) j]
  let ?m = "LIST_INSERT_NO_CONTAINER m c i"
  from assms(1) have d: "distinct (ys @ [y, z])" and pz: "nc_prev (m z) = y"
    and e: "\<forall>a \<in> set (ys @ [y, z]). nc_start (m a) = hd_or y ys \<and> nc_end (m a) = z"
    by (simp_all add: nc_rep_def)
  have ne: "c \<noteq> i" "c \<noteq> j" "z \<noteq> i" "y \<noteq> i" "z \<noteq> j" "y \<noteq> j" "i \<noteq> j" "y \<noteq> z" "z \<noteq> y"
    using assms(2,4,6) d by auto
  have c: "nc_start (?m c) = hd_or y ys" "nc_end (?m c) = z" "nc_prev (?m z) = y"
    using e assms(2) ne pz by (auto simp: eqi)
  have "hd_or y ys \<noteq> z" using d by (cases ys) auto
  with c ne have eq: "LIST_INSERT_NO_CONTAINER ?m c j =
      ?m(y := (?m y)\<lparr>nc_next := j\<rparr>, j := \<lparr>nc_start = hd_or y ys, nc_end = z, nc_prev = y, nc_next = z\<rparr>)"
    by (intro LIST_INSERT_NO_CONTAINER_update) auto
  have "nc_iter_from (LIST_INSERT_NO_CONTAINER m c j) (hd_or y ys) = Some (ys @ [y, j, z])"
  proof -
    have "nc_start (LIST_INSERT_NO_CONTAINER m c j c) = hd_or y ys" using e assms(2) ne by (auto simp: eqj)
    then show ?thesis using fj by (simp add: LIST_ITER_NO_CONTAINER_def)
  qed
  moreover have "\<forall>a \<in> set (ys @ [y, j, z]). nc_next (LIST_INSERT_NO_CONTAINER ?m c j a) =
      nc_next (LIST_INSERT_NO_CONTAINER m c j a)"
    unfolding eq eqj using assms(4) ne by (auto simp: eqi)
  ultimately have "nc_iter_from (LIST_INSERT_NO_CONTAINER ?m c j) (hd_or y ys) = Some (ys @ [y, j, z])"
    by (rule nc_iter_from_frame)
  moreover have "nc_start (LIST_INSERT_NO_CONTAINER ?m c j c) = hd_or y ys"
    unfolding eq using c ne by auto
  ultimately show ?thesis using fi by (simp add: LIST_ITER_NO_CONTAINER_def)
qed

lemma LIST_INSERT_NO_CONTAINER_twice_loses_item_example:
  "LIST_ITER_NO_CONTAINER (LIST_INSERT_NO_CONTAINER (LIST_INSERT_NO_CONTAINER
     (LIST_INSERT_NO_CONTAINER (LIST_INIT_NO_CONTAINER demo_nc_links 256) 256 64) 256 128) 256 512) 256
   = Some [256, 512, 64]"
proof -
  have "nc_rep (LIST_INSERT_NO_CONTAINER (LIST_INIT_NO_CONTAINER demo_nc_links 256) 256 64) ([] @ [256, 64])"
    using LIST_INSERT_NO_CONTAINER_single [OF LIST_INIT_NO_CONTAINER_rep [of 256 demo_nc_links], of 64] by simp
  from LIST_INSERT_NO_CONTAINER_twice_loses_item [OF this, of 256 128 512] show ?thesis by simp
qed

end
