(* ===== verification/Kernel_Heap.thy ===== *)
theory Kernel_Heap
  imports Linked_List
begin

unbundle bit_operations_syntax

text \<open>
  The kernel's memory manager, \<open>core/kernel/heap.c\<close> and the inline functions of
  \<open>core/kernel/heap.h\<close>. Memory blocks are described by headers in a doubly linked list; a
  header is addressed by where it lies in memory, and the memory that holds headers is a
  function from addresses to headers. The state is an extensible record, so that the kernel's
  other objects can be added to it. What moving a block does to those objects (copying the
  block, telling the owner of the resource) is passed to the allocator as hooks, which
  the kernel instantiates with its own functions.
\<close>

section \<open>Data (heap.h, capabilities.h)\<close>

record absolute_capability_address =
  aca_thread_id :: uint16_t
  aca_bucket_number :: uint8_t
  aca_address :: size_t
  aca_depth :: size_t

text \<open>The only function the kernel ever registers for a moved block is \<open>on_thread_moved\<close>.\<close>

datatype update_function = On_thread_moved

datatype update_ref =
    Absolute_ptr addr
  | Update_function update_function
  | Update_capability absolute_capability_address

record heap_header =
  hh_size :: size_t
  hh_flags :: uint8_t
  hh_update_ref :: update_ref
  hh_next :: addr
  hh_prev :: addr

record heap =
  heap_base :: addr
  total_memory :: size_t
  used_memory :: size_t

record heap_state =
  hdrs :: "addr \<Rightarrow> heap_header"
  hp :: heap

record init_block =
  kernel_start :: addr
  kernel_end :: addr
  memory_start :: addr
  memory_end :: addr

text \<open>
  The 68000 ABI aligns to two bytes: size (4), flags and padding (2), the union of an
  address and a capability address (12), next and prev (8).
\<close>

definition sizeof_heap_header :: size_t where
  "sizeof_heap_header = 26"

definition KIND_AVAILABLE :: uint8_t where "KIND_AVAILABLE = 0"
definition KIND_IMMOVABLE :: uint8_t where "KIND_IMMOVABLE = 1"
definition KIND_MOVABLE :: uint8_t where "KIND_MOVABLE = 2"
definition FLAG_CAPABILITY_RESOURCE :: uint8_t where "FLAG_CAPABILITY_RESOURCE = 16"
definition FLAG_UPDATE_FUNCTION :: uint8_t where "FLAG_UPDATE_FUNCTION = 32"
definition KIND_MASK :: uint8_t where "KIND_MASK = 3"

definition GET_KIND :: "heap_header \<Rightarrow> uint8_t" where
  "GET_KIND h = hh_flags h AND KIND_MASK"

definition SET_KIND :: "heap_header \<Rightarrow> uint8_t \<Rightarrow> heap_header" where
  "SET_KIND h kind = h\<lparr>hh_flags := (hh_flags h AND NOT KIND_MASK) OR kind\<rparr>"

definition GET_OLD_KIND :: "heap_header \<Rightarrow> uint8_t" where
  "GET_OLD_KIND h = drop_bit 2 (hh_flags h) AND KIND_MASK"

definition SET_OLD_KIND :: "heap_header \<Rightarrow> uint8_t \<Rightarrow> heap_header" where
  "SET_OLD_KIND h kind =
     h\<lparr>hh_flags := (hh_flags h AND NOT (push_bit 2 KIND_MASK)) OR push_bit 2 kind\<rparr>"

named_theorems heap_consts "the numeric constants of heap.h"

lemmas [heap_consts] =
  sizeof_heap_header_def KIND_AVAILABLE_def KIND_IMMOVABLE_def KIND_MOVABLE_def
  FLAG_CAPABILITY_RESOURCE_def FLAG_UPDATE_FUNCTION_def KIND_MASK_def

section \<open>Headers\<close>

definition upd_hdr ::
    "addr \<Rightarrow> (heap_header \<Rightarrow> heap_header) \<Rightarrow> 'x heap_state_scheme \<Rightarrow> 'x heap_state_scheme" where
  "upd_hdr h f s = s\<lparr>hdrs := (hdrs s)(h := f (hdrs s h))\<rparr>"

definition upd_used :: "(size_t \<Rightarrow> size_t) \<Rightarrow> 'x heap_state_scheme \<Rightarrow> 'x heap_state_scheme" where
  "upd_used f s = s\<lparr>hp := (hp s)\<lparr>used_memory := f (used_memory (hp s))\<rparr>\<rparr>"

definition header_of :: "addr \<Rightarrow> addr" where
  "header_of ptr = ptr - sizeof_heap_header"

definition heap_lock :: "addr \<Rightarrow> 'x heap_state_scheme \<Rightarrow> 'x heap_state_scheme \<times> bool" where
  "heap_lock ptr s =
     (let h = header_of ptr
      in if GET_KIND (hdrs s h) = KIND_MOVABLE
         then (upd_hdr h (\<lambda>x. SET_KIND x KIND_IMMOVABLE) s, True)
         else (s, False))"

definition heap_unlock :: "addr \<Rightarrow> 'x heap_state_scheme \<Rightarrow> 'x heap_state_scheme" where
  "heap_unlock ptr s = upd_hdr (header_of ptr) (\<lambda>x. SET_KIND x KIND_MOVABLE) s"

definition heap_sizeof :: "addr \<Rightarrow> 'x heap_state_scheme \<Rightarrow> size_t" where
  "heap_sizeof ptr s = hh_size (hdrs s (header_of ptr)) - sizeof_heap_header"

definition heap_set_update_absolute ::
    "addr \<Rightarrow> addr \<Rightarrow> 'x heap_state_scheme \<Rightarrow> 'x heap_state_scheme" where
  "heap_set_update_absolute ptr p s =
     upd_hdr (header_of ptr)
       (\<lambda>x. x\<lparr>hh_flags := hh_flags x AND NOT (FLAG_CAPABILITY_RESOURCE OR FLAG_UPDATE_FUNCTION),
              hh_update_ref := Absolute_ptr p\<rparr>) s"

definition heap_set_update_function ::
    "addr \<Rightarrow> update_function \<Rightarrow> 'x heap_state_scheme \<Rightarrow> 'x heap_state_scheme" where
  "heap_set_update_function ptr f s =
     upd_hdr (header_of ptr)
       (\<lambda>x. x\<lparr>hh_flags := (hh_flags x AND NOT FLAG_CAPABILITY_RESOURCE) OR FLAG_UPDATE_FUNCTION,
              hh_update_ref := Update_function f\<rparr>) s"

definition heap_set_update_capability ::
    "addr \<Rightarrow> absolute_capability_address \<Rightarrow> 'x heap_state_scheme \<Rightarrow> 'x heap_state_scheme" where
  "heap_set_update_capability ptr address s =
     upd_hdr (header_of ptr)
       (\<lambda>x. x\<lparr>hh_flags := (hh_flags x AND NOT FLAG_UPDATE_FUNCTION) OR FLAG_CAPABILITY_RESOURCE,
              hh_update_ref := Update_capability address\<rparr>) s"

definition split_header ::
    "addr \<Rightarrow> size_t \<Rightarrow> 'x heap_state_scheme \<Rightarrow> 'x heap_state_scheme \<times> bool" where
  "split_header h at s =
     (if at \<ge> hh_size (hdrs s h) - sizeof_heap_header then (s, False)
      else if at \<le> sizeof_heap_header then (s, False)
      else
        let new = h + at;
            s1 = upd_hdr new (\<lambda>x. x\<lparr>hh_size := hh_size (hdrs s h) - at, hh_flags := KIND_AVAILABLE,
                                    hh_next := hh_next (hdrs s h), hh_prev := h\<rparr>) s;
            s2 = (if hh_next (hdrs s1 new) \<noteq> NULL
                  then upd_hdr (hh_next (hdrs s1 new)) (\<lambda>x. x\<lparr>hh_prev := new\<rparr>) s1 else s1)
        in (upd_hdr h (\<lambda>x. x\<lparr>hh_size := at, hh_next := new\<rparr>) s2, True))"

section \<open>Locking a region that already exists, initialisation\<close>

text \<open>
  One turn of the loop of \<open>heap_lock_existing_region\<close>: the new state and the header whose
  successor the loop goes on with. \<open>start\<close> is already lowered by the sz of a header.
\<close>

definition lock_region_step ::
    "addr \<Rightarrow> addr \<Rightarrow> addr \<Rightarrow> 'x heap_state_scheme \<Rightarrow> 'x heap_state_scheme \<times> addr" where
  "lock_region_step start en h s =
     (let block_start = h; block_end = h + hh_size (hdrs s h) in
      if block_end \<le> start \<or> block_start \<ge> en then (s, h)
      else if GET_KIND (hdrs s h) \<noteq> KIND_AVAILABLE then (s, h)
      else
        let at = start - block_start; sz = hh_size (hdrs s h) in
        if start > block_start \<and> at \<ge> sz - sizeof_heap_header then
          let offset = sz - at;
              s1 = upd_hdr h (\<lambda>x. x\<lparr>hh_size := at\<rparr>) s;
              n = hh_next (hdrs s1 h)
          in if n = NULL then (s1, h)
             else if GET_KIND (hdrs s1 n) = KIND_AVAILABLE then
               let tmp = (hdrs s1 n)\<lparr>hh_size := hh_size (hdrs s1 n) + offset\<rparr>;
                   n' = h + at;
                   s2 = upd_hdr n' (\<lambda>_. tmp) s1
               in (upd_hdr h (\<lambda>x. x\<lparr>hh_next := n'\<rparr>) s2, h)
             else (s1, h)
        else
          let (s0, did_split) = (if start > block_start then split_header h at s else (s, False)) in
          if did_split then (s0, h)
          else
            let at_end = en - block_start; p = hh_prev (hdrs s0 h) in
            if en < block_end \<and> at_end \<le> sizeof_heap_header \<and> p \<noteq> NULL
               \<and> GET_KIND (hdrs s0 p) = KIND_AVAILABLE then
              let s1 = upd_hdr p (\<lambda>x. x\<lparr>hh_size := hh_size x - at_end\<rparr>) s0;
                  tmp = (hdrs s1 h)\<lparr>hh_size := hh_size (hdrs s1 h) + at_end\<rparr>;
                  h' = h - at_end;
                  s2 = upd_hdr h' (\<lambda>_. tmp) s1
              in (upd_hdr p (\<lambda>x. x\<lparr>hh_next := h'\<rparr>) s2, p)
            else
              let s1 = (if en < block_end \<and> \<not> (at_end \<le> sizeof_heap_header \<and> p \<noteq> NULL)
                        then fst (split_header h at_end s0) else s0);
                  s2 = upd_used (\<lambda>u. u + hh_size (hdrs s1 h)) s1
              in if block_start + sizeof_heap_header \<le> start + sizeof_heap_header then
                   (upd_hdr h (\<lambda>x. (SET_KIND x KIND_IMMOVABLE)\<lparr>hh_update_ref := Absolute_ptr NULL\<rparr>) s2, h)
                 else
                   let s3 = (if hh_prev (hdrs s2 h) = NULL
                             then s2\<lparr>hp := (hp s2)\<lparr>heap_base := hh_next (hdrs s2 h)\<rparr>\<rparr>
                             else upd_hdr (hh_prev (hdrs s2 h))
                                    (\<lambda>x. x\<lparr>hh_next := hh_next (hdrs s2 h)\<rparr>) s2)
                   in (if hh_next (hdrs s3 h) \<noteq> NULL
                       then upd_hdr (hh_next (hdrs s3 h)) (\<lambda>x. x\<lparr>hh_prev := hh_prev (hdrs s3 h)\<rparr>) s3
                       else s3, h))"

partial_function (option) lock_region_loop ::
    "addr \<Rightarrow> addr \<Rightarrow> addr \<Rightarrow> 'x heap_state_scheme \<Rightarrow> 'x heap_state_scheme option" where
  "lock_region_loop start en h s =
     (if h = NULL then Some s
      else let (s', h') = lock_region_step start en h s
           in lock_region_loop start en (hh_next (hdrs s' h')) s')"

definition heap_lock_existing_region ::
    "addr \<Rightarrow> addr \<Rightarrow> 'x heap_state_scheme \<Rightarrow> 'x heap_state_scheme option" where
  "heap_lock_existing_region start en s =
     lock_region_loop (start - sizeof_heap_header) en (heap_base (hp s)) s"

definition heap_init ::
    "init_block \<Rightarrow> 'x heap_state_scheme \<Rightarrow> 'x heap_state_scheme option" where
  "heap_init b s =
     (let header_start = memory_start b;
          header_end = header_start + sizeof_heap_header;
          overlap = (header_end \<ge> kernel_start b \<and> header_start < kernel_end b);
          mstart = (if overlap then kernel_end b else memory_start b);
          s1 = s\<lparr>hp := \<lparr>heap_base = mstart, total_memory = memory_end b - memory_start b,
                       used_memory = (if overlap then kernel_end b - memory_start b else 0)\<rparr>\<rparr>;
          s2 = upd_hdr mstart (\<lambda>x. x\<lparr>hh_flags := KIND_AVAILABLE, hh_size := memory_end b - mstart,
                                     hh_prev := NULL, hh_next := NULL\<rparr>) s1
      in heap_lock_existing_region (kernel_start b) (kernel_end b) s2)"

section \<open>Allocation\<close>

definition alloc_size :: "size_t \<Rightarrow> size_t" where
  "alloc_size actual_size = ((actual_size + sizeof_heap_header) + 3) AND NOT 3"

datatype search_result =
    Not_found
  | Found (found_start: addr) (found_end: addr) (found_total: size_t) (found_to_move: size_t)

text \<open>The search for a series of blocks; \<open>None\<close> when it goes on for ever.\<close>

partial_function (option) heap_search ::
    "'x heap_state_scheme \<Rightarrow> size_t \<Rightarrow> addr \<Rightarrow> addr \<Rightarrow> size_t \<Rightarrow> size_t \<Rightarrow> size_t \<Rightarrow>
     search_result option" where
  "heap_search s sz st en tot to_move avail =
     (let hdr = hdrs s en; avl = total_memory (hp s) - used_memory (hp s) in
      if GET_KIND hdr = KIND_IMMOVABLE then
        if hh_next hdr = NULL then Some Not_found
        else heap_search s sz (hh_next hdr) (hh_next hdr) (hh_size (hdrs s (hh_next hdr))) 0 avl
      else
        let avail' = (if GET_KIND hdr = KIND_AVAILABLE then avail - hh_size hdr else avail);
            to_move' = (if GET_KIND hdr = KIND_MOVABLE then to_move + hh_size hdr else to_move)
        in if tot \<ge> sz then
             if to_move' \<le> avail' then Some (Found st en tot to_move')
             else heap_search s sz en en (hh_size hdr) 0 avl
           else if hh_next hdr = NULL then Some Not_found
           else heap_search s sz st (hh_next hdr)
                  (tot + hh_size (hdrs s (hh_next hdr))) to_move' avail')"

text \<open>Marking every block of the series immovable, remembering its kind.\<close>

partial_function (option) mark_blocks ::
    "addr \<Rightarrow> addr \<Rightarrow> 'x heap_state_scheme \<Rightarrow> 'x heap_state_scheme option" where
  "mark_blocks h en s =
     (let kind = GET_KIND (hdrs s h);
          s1 = upd_hdr h (\<lambda>x. SET_KIND (SET_OLD_KIND x kind) KIND_IMMOVABLE) s;
          s2 = (if kind = KIND_AVAILABLE then upd_used (\<lambda>u. u + hh_size (hdrs s1 h)) s1 else s1)
      in if h = en then Some s2 else mark_blocks (hh_next (hdrs s2 h)) en s2)"

text \<open>The way back when a nested allocation fails.\<close>

partial_function (option) revert_blocks ::
    "addr \<Rightarrow> addr \<Rightarrow> 'x heap_state_scheme \<Rightarrow> 'x heap_state_scheme option" where
  "revert_blocks h en s =
     (let kind = GET_OLD_KIND (hdrs s h);
          s1 = upd_hdr h (\<lambda>x. SET_KIND x kind) s;
          s2 = (if kind = KIND_AVAILABLE then upd_used (\<lambda>u. u - hh_size (hdrs s1 h)) s1 else s1)
      in if h = en then Some s2 else revert_blocks (hh_next (hdrs s2 h)) en s2)"

record 's heap_hooks =
  hk_memcpy :: "addr \<Rightarrow> addr \<Rightarrow> size_t \<Rightarrow> 's \<Rightarrow> 's"
  hk_update_capability :: "absolute_capability_address \<Rightarrow> addr \<Rightarrow> 's \<Rightarrow> 's option"
  hk_function :: "update_function \<Rightarrow> addr \<Rightarrow> 's \<Rightarrow> 's option"
  hk_store_pointer :: "addr \<Rightarrow> addr \<Rightarrow> 's \<Rightarrow> 's"

text \<open>
  Copying one block and updating the reference to it. The flags of the old header tell which
  member of the union is in use; a member that does not fit them is never read.
\<close>

definition move_block ::
    "'x heap_state_scheme heap_hooks \<Rightarrow> addr \<Rightarrow> addr \<Rightarrow> 'x heap_state_scheme \<Rightarrow>
     'x heap_state_scheme option" where
  "move_block hk h dest s = do {
     let n = hh_size (hdrs s h) - sizeof_heap_header;
     let s1 = hk_memcpy hk dest (h + sizeof_heap_header) n s;
     let s2 = upd_hdr h (\<lambda>x. SET_OLD_KIND x KIND_AVAILABLE) s1;
     let x = hdrs s2 h;
     s3 \<leftarrow> (if hh_flags x AND FLAG_CAPABILITY_RESOURCE \<noteq> 0 then
              (case hh_update_ref x of
                 Update_capability a \<Rightarrow>
                   map_option (heap_set_update_capability dest a) (hk_update_capability hk a dest s2)
               | _ \<Rightarrow> Some s2)
            else if hh_flags x AND FLAG_UPDATE_FUNCTION \<noteq> 0 then
              (case hh_update_ref x of
                 Update_function f \<Rightarrow>
                   map_option (heap_set_update_function dest f) (hk_function hk f dest s2)
               | _ \<Rightarrow> Some s2)
            else
              (case hh_update_ref x of
                 Absolute_ptr p \<Rightarrow>
                   Some (if p \<noteq> NULL
                         then heap_set_update_absolute dest p (hk_store_pointer hk p dest s2)
                         else s2)
               | _ \<Rightarrow> Some s2));
     Some (heap_unlock dest s3)
   }"

text \<open>Moving every movable block of the series; \<open>False\<close> when memory ran out on the way.\<close>

partial_function (option) move_blocks ::
    "('x heap_state_scheme \<Rightarrow> size_t \<Rightarrow> ('x heap_state_scheme \<times> addr) option) \<Rightarrow>
     'x heap_state_scheme heap_hooks \<Rightarrow> addr \<Rightarrow> addr \<Rightarrow> addr \<Rightarrow> 'x heap_state_scheme \<Rightarrow>
     ('x heap_state_scheme \<times> bool) option" where
  "move_blocks alloc hk st en h s =
     (if GET_OLD_KIND (hdrs s h) \<noteq> KIND_MOVABLE then
        if h = en then Some (s, True) else move_blocks alloc hk st en (hh_next (hdrs s h)) s
      else do {
        (s1, dest) \<leftarrow> alloc s (hh_size (hdrs s h) - sizeof_heap_header);
        if dest = NULL then map_option (\<lambda>s2. (s2, False)) (revert_blocks st en s1)
        else do {
          s2 \<leftarrow> move_block hk h dest s1;
          if h = en then Some (s2, True)
          else move_blocks alloc hk st en (hh_next (hdrs s2 h)) s2
        }
      })"

text \<open>Making one allocated block out of the series, then shaving off what is not needed.\<close>

definition merge_blocks :: "addr \<Rightarrow> addr \<Rightarrow> 'x heap_state_scheme \<Rightarrow> 'x heap_state_scheme" where
  "merge_blocks st en s =
     (let s1 = upd_hdr st (\<lambda>x. x\<lparr>hh_size := (en + hh_size (hdrs s en)) - st,
                                 hh_flags := KIND_IMMOVABLE, hh_next := hh_next (hdrs s en)\<rparr>) s;
          n = hh_next (hdrs s1 st);
          s2 = (if n \<noteq> NULL then upd_hdr n (\<lambda>x. x\<lparr>hh_prev := st\<rparr>) s1 else s1)
      in upd_hdr st (\<lambda>x. x\<lparr>hh_update_ref := Absolute_ptr NULL\<rparr>) s2)"

definition claim_blocks ::
    "size_t \<Rightarrow> addr \<Rightarrow> addr \<Rightarrow> size_t \<Rightarrow> 'x heap_state_scheme \<Rightarrow> 'x heap_state_scheme" where
  "claim_blocks sz st en to_move s =
     (let s1 = merge_blocks st en s;
          s2 = (if to_move = 0 then upd_used (\<lambda>u. u + hh_size (hdrs s1 st)) s1 else s1);
          (s3, did_split) = split_header st sz s2
      in if did_split then upd_used (\<lambda>u. u - hh_size (hdrs s3 (st + sz))) s3 else s3)"

text \<open>Splitting the last block of the series where the allocation ends, if it is unallocated.\<close>

definition split_end ::
    "size_t \<Rightarrow> addr \<Rightarrow> size_t \<Rightarrow> 'x heap_state_scheme \<Rightarrow> 'x heap_state_scheme" where
  "split_end sz en tot s =
     (let pos = sz - (tot - hh_size (hdrs s en));
          split_pos = (if pos \<ge> hh_size (hdrs s en) then 0 else pos)
      in if GET_KIND (hdrs s en) = KIND_AVAILABLE then fst (split_header en split_pos s) else s)"

lemma move_blocks_param_mono:
  assumes sub: "\<And>s n r. a s n = Some r \<Longrightarrow> b s n = Some r"
    and ret: "move_blocks a hk st en h s = Some r"
  shows "move_blocks b hk st en h s = Some r"
proof -
  have "a = a \<longrightarrow> move_blocks b hk st en h s = Some r"
  proof (rule move_blocks.raw_induct
      [where P = "\<lambda>al hk st en h s r. al = a \<longrightarrow> move_blocks b hk st en h s = Some r", OF _ ret])
    fix f al hk st en h s r
    assume IH: "\<And>al hk st en h s r. f al hk st en h s = Some r \<Longrightarrow>
        al = a \<longrightarrow> move_blocks b hk st en h s = Some r"
      and eq: "(if GET_OLD_KIND (hdrs s h) \<noteq> KIND_MOVABLE then
          if h = en then Some (s, True) else f al hk st en (hh_next (hdrs s h)) s
        else do {
          (s1, dest) \<leftarrow> al s (hh_size (hdrs s h) - sizeof_heap_header);
          if dest = NULL then map_option (\<lambda>s2. (s2, False)) (revert_blocks st en s1)
          else do {
            s2 \<leftarrow> move_block hk h dest s1;
            if h = en then Some (s2, True) else f al hk st en (hh_next (hdrs s2 h)) s2
          }
        }) = Some r"
    show "al = a \<longrightarrow> move_blocks b hk st en h s = Some r"
    proof
      assume "al = a"
      with IH have IH': "f al hk st en h s = Some r \<Longrightarrow> move_blocks b hk st en h s = Some r"
        for hk st en h s r by blast
      show "move_blocks b hk st en h s = Some r"
      proof (cases "a s (hh_size (hdrs s h) - sizeof_heap_header)")
        case None
        with eq \<open>al = a\<close> IH' show ?thesis by (subst move_blocks.simps) (auto split: if_splits)
      next
        case (Some sd)
        then obtain s1 dest where "a s (hh_size (hdrs s h) - sizeof_heap_header) = Some (s1, dest)"
          by (cases sd) simp
        moreover from this sub have "b s (hh_size (hdrs s h) - sizeof_heap_header) = Some (s1, dest)"
          by blast
        ultimately show ?thesis using eq \<open>al = a\<close> IH'
          by (subst move_blocks.simps) (auto split: if_splits bind_splits)
      qed
    qed
  qed
  then show ?thesis by simp
qed

lemma move_blocks_mono [partial_function_mono]:
  fixes B :: "('b \<Rightarrow> 'c option) \<Rightarrow> 'x heap_state_scheme \<Rightarrow> size_t \<Rightarrow> ('x heap_state_scheme \<times> addr) option"
  assumes "\<And>s n. mono_option (\<lambda>f. B f s n)"
  shows "mono_option (\<lambda>f. move_blocks (B f) hk st en h s)"
proof (rule monotoneI)
  fix f g :: "'b \<Rightarrow> 'c option"
  assume "fun_ord option_ord f g"
  then have "option_ord (B f s n) (B g s n)" for s n
    using assms by (simp add: monotone_def)
  then have "B f s n = Some r \<Longrightarrow> B g s n = Some r" for s n r
    by (metis flat_ord_def option.distinct(1))
  then show "option_ord (move_blocks (B f) hk st en h s) (move_blocks (B g) hk st en h s)"
    using move_blocks_param_mono [of "B f" "B g" hk st en h s]
    by (cases "move_blocks (B f) hk st en h s") (auto simp: flat_ord_def)
qed

partial_function (option) heap_alloc ::
    "'x heap_state_scheme heap_hooks \<Rightarrow> 'x heap_state_scheme \<Rightarrow> size_t \<Rightarrow>
     ('x heap_state_scheme \<times> addr) option" where
  "heap_alloc hk s actual_size =
     (let sz = alloc_size actual_size;
          avail = total_memory (hp s) - used_memory (hp s);
          base = heap_base (hp s) in
      if sz > avail then Some (s, NULL)
      else do {
        found \<leftarrow> heap_search s sz base base (hh_size (hdrs s base)) 0 avail;
        case found of
          Not_found \<Rightarrow> Some (s, NULL)
        | Found st en tot to_move \<Rightarrow>
            let s1 = split_end sz en tot s in
            if to_move > 0 then do {
              s2 \<leftarrow> mark_blocks st en s1;
              (s3, moved) \<leftarrow> move_blocks (heap_alloc hk) hk st en st s2;
              if moved then Some (claim_blocks sz st en to_move s3, st + sizeof_heap_header)
              else Some (s3, NULL)
            }
            else Some (claim_blocks sz st en to_move s1, st + sizeof_heap_header)
      })"

section \<open>Freeing\<close>

text \<open>The two merges at the end of \<open>heap_free\<close>, with the next and with the previous block.\<close>

definition free_block :: "addr \<Rightarrow> 'x heap_state_scheme \<Rightarrow> 'x heap_state_scheme" where
  "free_block h s =
     upd_used (\<lambda>u. u - hh_size (hdrs s h)) (upd_hdr h (\<lambda>x. x\<lparr>hh_flags := KIND_AVAILABLE\<rparr>) s)"

definition free_merge_next :: "addr \<Rightarrow> 'x heap_state_scheme \<Rightarrow> 'x heap_state_scheme" where
  "free_merge_next h s =
     (let n = hh_next (hdrs s h) in
      if n \<noteq> NULL \<and> GET_KIND (hdrs s n) = KIND_AVAILABLE then
        let t = upd_hdr h (\<lambda>x. x\<lparr>hh_size := hh_size x + hh_size (hdrs s n)\<rparr>) s;
            n' = hh_next (hdrs t n)
        in if hh_next (hdrs t n') \<noteq> NULL
           then upd_hdr (hh_next (hdrs t n')) (\<lambda>x. x\<lparr>hh_prev := h\<rparr>) t else t
      else s)"

definition free_merge_prev :: "addr \<Rightarrow> 'x heap_state_scheme \<Rightarrow> 'x heap_state_scheme" where
  "free_merge_prev h s =
     (let p = hh_prev (hdrs s h) in
      if p \<noteq> NULL \<and> GET_KIND (hdrs s p) = KIND_AVAILABLE then
        let t = upd_hdr p (\<lambda>x. x\<lparr>hh_size := hh_size x + hh_size (hdrs s h),
                                  hh_next := hh_next (hdrs s h)\<rparr>) s
        in if hh_next (hdrs t h) \<noteq> NULL
           then upd_hdr (hh_next (hdrs t h)) (\<lambda>x. x\<lparr>hh_prev := p\<rparr>) t else t
      else s)"

definition heap_free :: "addr \<Rightarrow> 'x heap_state_scheme \<Rightarrow> 'x heap_state_scheme" where
  "heap_free ptr s =
     (let h = header_of ptr in free_merge_prev h (free_merge_next h (free_block h s)))"

end
