(* ===== verification/Byte_Memory.thy ===== *)
theory Byte_Memory
  imports Cenix_Prelude
begin

unbundle bit_operations_syntax

text \<open>
  Memory as bytes: big-endian words and half words, and the routines of \<open>core/common\<close> that work on
  raw memory, \<open>memcpy\<close> (also \<open>memmove\<close>) and \<open>memset\<close>. The routines copy and fill whole words
  where they can; the properties say that the result is the one of the obvious byte by byte
  definition, for overlapping ranges too.
\<close>

type_synonym memory = "addr \<Rightarrow> uint8_t"

section \<open>Words in memory\<close>

definition word_bytes :: "uint32_t \<Rightarrow> uint8_t list" where
  "word_bytes w = [ucast (drop_bit 24 w), ucast (drop_bit 16 w), ucast (drop_bit 8 w), ucast w]"

definition half_bytes :: "uint16_t \<Rightarrow> uint8_t list" where
  "half_bytes w = [ucast (drop_bit 8 w), ucast w]"

definition bytes_word :: "uint8_t list \<Rightarrow> uint32_t" where
  "bytes_word bs = foldl (\<lambda>acc b. push_bit 8 acc OR ucast b) 0 bs"

definition bytes_half :: "uint8_t list \<Rightarrow> uint16_t" where
  "bytes_half bs = foldl (\<lambda>acc b. push_bit 8 acc OR ucast b) 0 bs"

definition word_at :: "nat \<Rightarrow> uint8_t list \<Rightarrow> uint32_t" where
  "word_at i bs = bytes_word (take 4 (drop i bs))"

section \<open>Ranges\<close>

text \<open>Copying a range of memory, on one store.\<close>

definition copy_range :: "addr \<Rightarrow> addr \<Rightarrow> size_t \<Rightarrow> (addr \<Rightarrow> 'a) \<Rightarrow> addr \<Rightarrow> 'a" where
  "copy_range dest src n m = (\<lambda>a. if a - dest < n then m (a - dest + src) else m a)"

section \<open>Round trips\<close>

lemma bit_push_byte:
  "bit (push_bit 8 x OR ucast b :: uint32_t) n \<longleftrightarrow> (if n < 8 then bit b n else n < 32 \<and> bit x (n - 8))"
  "bit (push_bit 8 y OR ucast b :: uint16_t) n \<longleftrightarrow> (if n < 8 then bit b n else n < 16 \<and> bit y (n - 8))"
  for b :: uint8_t
  using bit_imp_le_length [of b n] by (auto simp only: bit_or_iff bit_push_bit_iff bit_ucast_iff) (auto simp: bit_simps split: if_splits)

lemma bit_low_byte: "bit (ucast w :: uint8_t) n \<longleftrightarrow> n < 8 \<and> bit w n" for w :: "'a :: len word"
  by (auto simp: bit_simps)

lemma bytes_word_bytes [simp]: "bytes_word (word_bytes w) = w"
proof (rule bit_word_eqI)
  fix n assume n: "n < LENGTH(32)"
  have "bytes_word (word_bytes w) = push_bit 8 (push_bit 8 (push_bit 8 (push_bit 8 0 OR ucast (ucast (drop_bit 24 w) :: uint8_t))
     OR ucast (ucast (drop_bit 16 w) :: uint8_t)) OR ucast (ucast (drop_bit 8 w) :: uint8_t)) OR ucast (ucast w :: uint8_t)"
    unfolding bytes_word_def word_bytes_def by (simp only: foldl.simps)
  then show "bit (bytes_word (word_bytes w)) n = bit w n"
    using n by (simp only: bit_push_byte bit_low_byte bit_drop_bit_eq o_apply) auto
qed

lemma bytes_half_bytes [simp]: "bytes_half (half_bytes w) = w"
proof (rule bit_word_eqI)
  fix n assume n: "n < LENGTH(16)"
  have "bytes_half (half_bytes w) = push_bit 8 (push_bit 8 0 OR ucast (ucast (drop_bit 8 w) :: uint8_t)) OR ucast (ucast w :: uint8_t)"
    unfolding bytes_half_def half_bytes_def by (simp only: foldl.simps)
  then show "bit (bytes_half (half_bytes w)) n = bit w n"
    using n by (simp only: bit_push_byte bit_low_byte bit_drop_bit_eq o_apply) auto
qed

lemma length_word_bytes [simp]: "length (word_bytes w) = 4" "length (half_bytes h) = 2"
  by (simp_all add: word_bytes_def half_bytes_def)

lemma concat_word_bytes:
  "i < length ws \<Longrightarrow> take 4 (drop (4 * i) (concat (map word_bytes ws) @ r)) = word_bytes (ws ! i)"
proof (induction ws arbitrary: i)
  case (Cons w ws)
  then show ?case by (cases i) simp_all
qed simp

lemma length_concat_word_bytes [simp]: "length (concat (map word_bytes ws)) = 4 * length ws"
  by (induction ws) simp_all

section \<open>Copying (core/common/memcpy.c)\<close>

text \<open>
  The state of a copying loop is the destination pointer, the source pointer and the memory. A word
  is read as a whole before it is written. \<open>TLOOP1\<close> is a do-while loop on an unsigned counter, so a
  counter of zero means \<open>2 ^ 32\<close> turns; \<open>TLOOP\<close> checks for zero first.
\<close>

definition wsize :: size_t where "wsize = 4"
definition wmask :: size_t where "wmask = wsize - 1"

definition byte_forward :: "addr \<times> addr \<times> memory \<Rightarrow> addr \<times> addr \<times> memory" where
  "byte_forward = (\<lambda>(dst, src, m). (dst + 1, src + 1, m(dst := m src)))"

definition byte_backward :: "addr \<times> addr \<times> memory \<Rightarrow> addr \<times> addr \<times> memory" where
  "byte_backward = (\<lambda>(dst, src, m). (dst - 1, src - 1, m(dst - 1 := m (src - 1))))"

definition copy_word :: "addr \<Rightarrow> addr \<Rightarrow> memory \<Rightarrow> memory" where
  "copy_word dst src m = m(dst := m src, dst + 1 := m (src + 1), dst + 2 := m (src + 2), dst + 3 := m (src + 3))"

definition word_forward :: "addr \<times> addr \<times> memory \<Rightarrow> addr \<times> addr \<times> memory" where
  "word_forward = (\<lambda>(dst, src, m). (dst + wsize, src + wsize, copy_word dst src m))"

definition word_backward :: "addr \<times> addr \<times> memory \<Rightarrow> addr \<times> addr \<times> memory" where
  "word_backward = (\<lambda>(dst, src, m). (dst - wsize, src - wsize, copy_word (dst - wsize) (src - wsize) m))"

definition TLOOP1 :: "size_t \<Rightarrow> ('a \<Rightarrow> 'a) \<Rightarrow> 'a \<Rightarrow> 'a" where
  "TLOOP1 t f = (f ^^ (if t = 0 then 2 ^ 32 else unat t))"

definition TLOOP :: "size_t \<Rightarrow> ('a \<Rightarrow> 'a) \<Rightarrow> 'a \<Rightarrow> 'a" where
  "TLOOP t f = (if t \<noteq> 0 then TLOOP1 t f else id)"

definition memcpy :: "addr \<Rightarrow> addr \<Rightarrow> size_t \<Rightarrow> memory \<Rightarrow> memory \<times> addr" where
  "memcpy dst0 src0 len m =
     (if len = 0 \<or> dst0 = src0 then (m, dst0)
      else if dst0 < src0 then
        let (len1, x1) =
              (if (src0 OR dst0) AND wmask \<noteq> 0 then
                 let t = (if (src0 XOR dst0) AND wmask \<noteq> 0 \<or> len < wsize then len else wsize - (src0 AND wmask))
                 in (len - t, TLOOP1 t byte_forward (dst0, src0, m))
               else (len, dst0, src0, m));
            x2 = TLOOP (len1 div wsize) word_forward x1;
            (_, _, m') = TLOOP (len1 AND wmask) byte_forward x2
        in (m', dst0)
      else
        let src = src0 + len; dst = dst0 + len;
            (len1, x1) =
              (if (src OR dst) AND wmask \<noteq> 0 then
                 let t = (if (src XOR dst) AND wmask \<noteq> 0 \<or> len \<le> wsize then len else src AND wmask)
                 in (len - t, TLOOP1 t byte_backward (dst, src, m))
               else (len, dst, src, m));
            x2 = TLOOP (len1 div wsize) word_backward x1;
            (_, _, m') = TLOOP (len1 AND wmask) byte_backward x2
        in (m', dst0))"

definition memmove :: "addr \<Rightarrow> addr \<Rightarrow> size_t \<Rightarrow> memory \<Rightarrow> memory \<times> addr" where
  "memmove s1 s2 n m = memcpy s1 s2 n m"

lemma TLOOP1_funpow: "t \<noteq> 0 \<Longrightarrow> TLOOP1 t f = f ^^ unat t"
  by (simp add: TLOOP1_def)

lemma TLOOP_funpow: "TLOOP t f = f ^^ unat t"
  by (auto simp: TLOOP_def TLOOP1_def)

text \<open>What the loops of single bytes do.\<close>

lemma unat_of_nat_32: "n < 2 ^ 32 \<Longrightarrow> unat (of_nat n :: 32 word) = n"
  by (simp add: unat_of_nat)

lemma unat_plus_of_nat: "unat a + n < 2 ^ 32 \<Longrightarrow> unat (a + of_nat n :: 32 word) = unat a + n"
  by (simp add: unat_plus_no_wrap unat_of_nat)

lemma byte_forward_loop:
  assumes "unat d < unat s" and "unat s + n \<le> 2 ^ 32"
  shows "(byte_forward ^^ n) (d, s, m) =
    (d + of_nat n, s + of_nat n, \<lambda>a. if unat (a - d) < n then m (a - d + s) else m a)"
  using assms(2)
proof (induction n)
  case 0
  show ?case by simp
next
  case (Suc n)
  have sn: "unat (s + of_nat n) = unat s + n" using Suc.prems by (intro unat_plus_of_nat) simp
  have "d \<le> s + of_nat n" using assms(1) sn by (simp add: word_le_nat_alt)
  then have "unat (s + of_nat n - d) = unat s + n - unat d" by (simp add: unat_minus_no_wrap sn)
  then have rd: "\<not> unat (s + of_nat n - d) < n" using assms(1) by simp
  have n: "unat (of_nat n :: 32 word) = n" using Suc.prems by (simp add: unat_of_nat)
  have lt: "unat (a - d) < Suc n \<longleftrightarrow> a = d + of_nat n \<or> unat (a - d) < n" for a
  proof -
    have "unat (a - d) = n \<longleftrightarrow> a = d + of_nat n"
      using n word_unat_eq_iff [of "a - d" "of_nat n"] by (auto simp: eq_diff_eq diff_eq_eq add.commute)
    then show ?thesis by auto
  qed
  show ?case using Suc rd by (auto simp: byte_forward_def lt fun_eq_iff algebra_simps)
qed

lemma byte_backward_loop:
  assumes "unat s < unat d" and "n \<le> unat s"
  shows "(byte_backward ^^ n) (d, s, m) =
    (d - of_nat n, s - of_nat n, \<lambda>a. if unat (d - 1 - a) < n then m (a - d + s) else m a)"
  using assms(2)
proof (induction n)
  case 0
  show ?case by simp
next
  case (Suc n)
  have n: "unat (of_nat n :: 32 word) = n" using Suc.prems unat_lt_2_32 [of s] by (simp add: unat_of_nat)
  have "d - 1 - (s - of_nat n - 1) = (d - s) + of_nat n" by simp
  moreover have "unat (d - s) = unat d - unat s" using assms(1) by (simp add: unat_minus_no_wrap word_le_nat_alt)
  moreover have "unat d - unat s + n < 2 ^ 32" using assms(1) Suc.prems unat_lt_2_32 [of d] by simp
  ultimately have "unat (d - 1 - (s - of_nat n - 1)) = unat d - unat s + n"
    using unat_plus_of_nat [of "d - s" n] by presburger
  then have rd: "\<not> unat (d - 1 - (s - of_nat n - 1)) < n" using assms(1) by simp
  have lt: "unat (d - 1 - a) < Suc n \<longleftrightarrow> a = d - of_nat n - 1 \<or> unat (d - 1 - a) < n" for a
  proof -
    have "unat (d - 1 - a) = n \<longleftrightarrow> d - 1 - a = of_nat n"
      using n word_unat_eq_iff [of "d - 1 - a" "of_nat n"] by simp
    also have "\<dots> \<longleftrightarrow> a = d - of_nat n - 1" by (auto simp: algebra_simps)
    finally show ?thesis by auto
  qed
  let ?p = "d - of_nat n - 1"
  define mn where "mn = (\<lambda>a. if unat (d - 1 - a) < n then m (a - d + s) else m a)"
  have "mn (s - of_nat n - 1) = m (s - of_nat n - 1)" unfolding mn_def using rd by (rule if_not_P)
  moreover have "s - of_nat n - 1 = ?p - d + s" by simp
  ultimately have v: "mn (s - of_nat n - 1) = m (?p - d + s)" by (rule back_subst [where P = "\<lambda>x. mn (s - of_nat n - 1) = m x"])
  have upd: "mn(?p := mn (s - of_nat n - 1)) = (\<lambda>a. if unat (d - 1 - a) < Suc n then m (a - d + s) else m a)"
    unfolding v lt unfolding mn_def by (rule ext) (simp only: fun_upd_apply if_True if_False simp_thms split: if_split, blast)
  have "(byte_backward ^^ Suc n) (d, s, m) = (d - of_nat n - 1, s - of_nat n - 1, mn(?p := mn (s - of_nat n - 1)))"
    using Suc by (simp add: byte_backward_def mn_def)
  then show ?case unfolding upd by (simp add: diff_diff_eq add.commute)
qed

text \<open>A word is four bytes, so the loops of words are loops of bytes.\<close>

lemma unat_lt_4: "unat x < 4 \<longleftrightarrow> x = 0 \<or> x = 1 \<or> x = 2 \<or> x = (3 :: 32 word)"
  by (auto simp: word_unat_eq_iff)

lemma copy_word_range: "copy_word d s m = (\<lambda>a. if unat (a - d) < 4 then m (a - d + s) else m a)"
proof
  fix a
  obtain x where a: "a = d + x" by (metis add_diff_cancel_left' diff_add_cancel add.commute)
  have "(1 :: addr) \<noteq> 0" "(2 :: addr) \<noteq> 0" "(3 :: addr) \<noteq> 0" by simp_all
  then show "copy_word d s m a = (if unat (a - d) < 4 then m (a - d + s) else m a)"
    by (auto simp: a copy_word_def unat_lt_4 add.commute)
qed

lemma word_forward_bytes:
  assumes "unat d < unat s" and "unat s + 4 \<le> 2 ^ 32"
  shows "word_forward (d, s, m) = (byte_forward ^^ 4) (d, s, m)"
  using byte_forward_loop [OF assms] by (simp add: word_forward_def wsize_def copy_word_range)

lemma word_backward_bytes:
  assumes "unat s < unat d" and "4 \<le> unat s"
  shows "word_backward (d, s, m) = (byte_backward ^^ 4) (d, s, m)"
proof -
  have "unat (d - 1 - a) < 4 \<longleftrightarrow> unat (a - (d - 4)) < 4" for a
    unfolding unat_lt_4 by (auto simp: diff_eq_eq eq_diff_eq algebra_simps)
  then show ?thesis
    using byte_backward_loop [OF assms] by (simp add: word_backward_def wsize_def copy_word_range fun_eq_iff algebra_simps)
qed

lemma word_forward_loop:
  assumes "unat d < unat s" and "unat s + 4 * q \<le> 2 ^ 32"
  shows "(word_forward ^^ q) (d, s, m) = (byte_forward ^^ (4 * q)) (d, s, m)"
  using assms(2)
proof (induction q)
  case (Suc q)
  let ?k = "of_nat (4 * q) :: addr"
  have u: "unat (s + ?k) = unat s + 4 * q" "unat (d + ?k) = unat d + 4 * q"
    using Suc.prems assms(1) by (intro unat_plus_of_nat; simp)+
  have "(word_forward ^^ Suc q) (d, s, m) = word_forward ((byte_forward ^^ (4 * q)) (d, s, m))"
    using Suc by simp
  also have "\<dots> = (byte_forward ^^ 4) ((byte_forward ^^ (4 * q)) (d, s, m))"
    using byte_forward_loop [of d s "4 * q" m] word_forward_bytes [of "d + ?k" "s + ?k"] u Suc.prems assms(1) by simp
  also have "\<dots> = (byte_forward ^^ (4 * Suc q)) (d, s, m)"
    by (simp add: funpow_add [symmetric, THEN fun_cong, unfolded o_apply])
  finally show ?case .
qed simp

lemma word_backward_loop:
  assumes "unat s < unat d" and "4 * q \<le> unat s"
  shows "(word_backward ^^ q) (d, s, m) = (byte_backward ^^ (4 * q)) (d, s, m)"
  using assms(2)
proof (induction q)
  case (Suc q)
  let ?k = "of_nat (4 * q) :: addr"
  have k: "unat ?k = 4 * q" using Suc.prems unat_lt_2_32 [of s] by (intro unat_of_nat_32) simp
  then have u: "unat (s - ?k) = unat s - 4 * q" "unat (d - ?k) = unat d - 4 * q"
    using Suc.prems assms(1) by (intro unat_minus_no_wrap [of ?k, unfolded k]; simp add: word_le_nat_alt)+
  have "(word_backward ^^ Suc q) (d, s, m) = word_backward ((byte_backward ^^ (4 * q)) (d, s, m))"
    using Suc by simp
  also have "\<dots> = (byte_backward ^^ 4) ((byte_backward ^^ (4 * q)) (d, s, m))"
    using byte_backward_loop [of s d "4 * q" m] word_backward_bytes [of "s - ?k" "d - ?k"] u Suc.prems assms(1) by simp
  also have "\<dots> = (byte_backward ^^ (4 * Suc q)) (d, s, m)"
    by (simp add: funpow_add [symmetric, THEN fun_cong, unfolded o_apply])
  finally show ?case .
qed simp

lemma forward_parts:
  assumes "unat d < unat s" and "unat s + (t + 4 * q + r) \<le> 2 ^ 32"
  shows "(byte_forward ^^ r) ((word_forward ^^ q) ((byte_forward ^^ t) (d, s, m))) = (byte_forward ^^ (t + 4 * q + r)) (d, s, m)"
proof -
  let ?k = "of_nat t :: addr"
  have "(byte_forward ^^ t) (d, s, m) = (d + ?k, s + ?k, snd (snd ((byte_forward ^^ t) (d, s, m))))"
    using assms by (simp add: byte_forward_loop)
  moreover have "(word_forward ^^ q) (d + ?k, s + ?k, m') = (byte_forward ^^ (4 * q)) (d + ?k, s + ?k, m')" for m'
  proof (cases "q = 0")
    case False
    then have "unat (d + ?k) = unat d + t" "unat (s + ?k) = unat s + t"
      using assms by (intro unat_plus_of_nat; simp)+
    then show ?thesis using assms by (intro word_forward_loop) simp_all
  qed simp
  ultimately have "(word_forward ^^ q) ((byte_forward ^^ t) (d, s, m)) = (byte_forward ^^ (4 * q)) ((byte_forward ^^ t) (d, s, m))"
    by metis
  then show ?thesis by (simp add: funpow_add [symmetric, THEN fun_cong, unfolded o_apply] ac_simps)
qed

lemma backward_parts:
  assumes "unat s < unat d" and "t + 4 * q + r \<le> unat s"
  shows "(byte_backward ^^ r) ((word_backward ^^ q) ((byte_backward ^^ t) (d, s, m))) = (byte_backward ^^ (t + 4 * q + r)) (d, s, m)"
proof -
  let ?k = "of_nat t :: addr"
  have k: "unat ?k = t" using assms(2) unat_lt_2_32 [of s] by (intro unat_of_nat_32) simp
  have "(byte_backward ^^ t) (d, s, m) = (d - ?k, s - ?k, snd (snd ((byte_backward ^^ t) (d, s, m))))"
    using assms by (simp add: byte_backward_loop)
  moreover have "(word_backward ^^ q) (d - ?k, s - ?k, m') = (byte_backward ^^ (4 * q)) (d - ?k, s - ?k, m')" for m'
  proof (rule word_backward_loop)
    have "unat (s - ?k) = unat s - t" "unat (d - ?k) = unat d - t"
      using assms by (intro unat_minus_no_wrap [of ?k, unfolded k]; simp add: word_le_nat_alt k)+
    then show "unat (s - ?k) < unat (d - ?k)" "4 * q \<le> unat (s - ?k)" using assms by simp_all
  qed
  ultimately have "(word_backward ^^ q) ((byte_backward ^^ t) (d, s, m)) = (byte_backward ^^ (4 * q)) ((byte_backward ^^ t) (d, s, m))"
    by metis
  then show ?thesis by (simp add: funpow_add [symmetric, THEN fun_cong, unfolded o_apply] ac_simps)
qed

text \<open>The parts add up to the length.\<close>

lemma unat_wmask: "unat (x AND wmask) = unat x mod 4"
proof -
  have "x AND wmask = take_bit 2 x" by (simp add: wmask_def wsize_def take_bit_eq_mask mask_eq_exp_minus_1)
  then show ?thesis by (simp add: take_bit_eq_mod unat_mod)
qed

lemma memcpy_parts:
  assumes "t \<le> len"
  shows "unat t + 4 * unat ((len - t) div wsize) + unat ((len - t) AND wmask) = unat len"
proof -
  have "unat ((len - t) div wsize) = (unat len - unat t) div 4"
    using assms by (simp add: unat_div wsize_def unat_minus_no_wrap)
  moreover have "unat ((len - t) AND wmask) = (unat len - unat t) mod 4"
    using assms by (simp add: unat_wmask unat_minus_no_wrap)
  moreover have "unat t \<le> unat len" using assms by (simp add: word_le_nat_alt)
  ultimately show ?thesis using div_mult_mod_eq [of "unat len - unat t" 4] by simp
qed

lemma wmask_zero_iff: "x AND wmask = 0 \<longleftrightarrow> unat x mod 4 = 0"
  using unat_wmask [of x] by (simp add: word_unat_eq_iff)

lemma align_bits:
  assumes "(a OR b) AND wmask \<noteq> 0" and "(a XOR b) AND wmask = 0"
  shows "a AND wmask \<noteq> 0"
proof
  assume z: "a AND wmask = 0"
  have "b AND wmask = (a AND wmask) XOR ((a XOR b) AND wmask)" by (auto simp: bit_eq_iff bit_simps)
  with assms(2) z have "b AND wmask = 0" by simp
  with z have "(a OR b) AND wmask = 0" by (simp add: bit.conj_disj_distrib2)
  with assms(1) show False by simp
qed

lemma memcpy_forward:
  assumes "unat dst < unat src" and "unat src + unat len \<le> 2 ^ 32" and "len \<noteq> 0"
  shows "memcpy dst src len m = (snd (snd ((byte_forward ^^ unat len) (dst, src, m))), dst)"
proof -
  define t where "t = (if (src OR dst) AND wmask \<noteq> 0 then
      if (src XOR dst) AND wmask \<noteq> 0 \<or> len < wsize then len else wsize - (src AND wmask) else 0)"
  have a: "unat (src AND wmask) < 4" by (simp add: unat_wmask)
  have t4: "unat (wsize - (src AND wmask)) = 4 - unat (src AND wmask)"
    using a by (simp add: unat_minus_no_wrap wsize_def word_le_nat_alt)
  have t: "t \<le> len" and t0: "(src OR dst) AND wmask \<noteq> 0 \<longrightarrow> t \<noteq> 0"
    using assms(3) a t4 by (auto simp: t_def word_le_nat_alt word_less_nat_alt wsize_def unsigned_eq_0_iff [symmetric] word_unat_eq_iff)
  have loop: "(if (src OR dst) AND wmask \<noteq> 0 then
       let t = (if (src XOR dst) AND wmask \<noteq> 0 \<or> len < wsize then len else wsize - (src AND wmask))
       in (len - t, TLOOP1 t byte_forward (dst, src, m)) else (len, dst, src, m))
     = (len - t, (byte_forward ^^ unat t) (dst, src, m))"
    using t0 by (auto simp: t_def TLOOP1_funpow Let_def)
  have "dst < src" "dst \<noteq> src" using assms(1) by (auto simp: word_less_nat_alt)
  then show ?thesis
    unfolding memcpy_def loop
    using assms(3) forward_parts [OF assms(1), of "unat t" "unat ((len - t) div wsize)" "unat ((len - t) AND wmask)" m]
      memcpy_parts [OF t] assms(2)
    by (simp add: TLOOP_funpow split_beta)
qed

lemma range_from_end:
  assumes "n \<noteq> 0"
  shows "n - 1 - x < n \<longleftrightarrow> x < (n :: 32 word)"
  using assms by unat_arith

lemma memcpy_backward:
  assumes "unat src < unat dst" and "unat dst + unat len < 2 ^ 32" and "len \<noteq> 0"
  shows "memcpy dst src len m = (snd (snd ((byte_backward ^^ unat len) (dst + len, src + len, m))), dst)"
proof -
  define t where "t = (if (src + len OR dst + len) AND wmask \<noteq> 0 then
      if (src + len XOR dst + len) AND wmask \<noteq> 0 \<or> len \<le> wsize then len else (src + len) AND wmask else 0)"
  have a: "unat ((src + len) AND wmask) < 4" by (simp add: unat_wmask)
  have t: "t \<le> len"
    using a by (auto simp: t_def word_le_nat_alt wsize_def)
  have t0: "(src + len OR dst + len) AND wmask \<noteq> 0 \<longrightarrow> t \<noteq> 0"
    using assms(3) align_bits [of "src + len" "dst + len"] by (auto simp: t_def)
  have loop: "(if (src + len OR dst + len) AND wmask \<noteq> 0 then
       let t = (if (src + len XOR dst + len) AND wmask \<noteq> 0 \<or> len \<le> wsize then len else (src + len) AND wmask)
       in (len - t, TLOOP1 t byte_backward (dst + len, src + len, m)) else (len, dst + len, src + len, m))
     = (len - t, (byte_backward ^^ unat t) (dst + len, src + len, m))"
    using t0 by (auto simp: t_def TLOOP1_funpow Let_def)
  have u: "unat (src + len) = unat src + unat len" "unat (dst + len) = unat dst + unat len"
    using assms by (simp_all add: unat_plus_no_wrap)
  have "\<not> dst < src" "dst \<noteq> src" using assms(1) by (auto simp: word_less_nat_alt)
  then show ?thesis
    unfolding memcpy_def Let_def [of "src + len"] Let_def [of "dst + len"] loop
    using assms(1,3) backward_parts [of "src + len" "dst + len" "unat t" "unat ((len - t) div wsize)" "unat ((len - t) AND wmask)" m]
      memcpy_parts [OF t] u
    by (simp add: TLOOP_funpow split_beta)
qed

lemma memcpy_range:
  assumes "unat dst + unat len < 2 ^ 32" and "unat src + unat len < 2 ^ 32"
  shows "memcpy dst src len m = (copy_range dst src len m, dst)"
proof (cases "len = 0 \<or> dst = src")
  case True
  then show ?thesis by (auto simp: memcpy_def copy_range_def fun_eq_iff)
next
  case False
  then consider "unat dst < unat src" | "unat src < unat dst"
    using word_unat_eq_iff [of dst src] by linarith
  then show ?thesis
  proof cases
    case 1
    with False assms show ?thesis
      by (simp add: memcpy_forward byte_forward_loop copy_range_def word_less_nat_alt)
  next
    case 2
    have "unat (src + len) = unat src + unat len" "unat (dst + len) = unat dst + unat len"
      using assms by (simp_all add: unat_plus_no_wrap)
    moreover have "unat (dst + len - 1 - a) < unat len \<longleftrightarrow> a - dst < len" for a
      using False range_from_end [of len "a - dst"] by (simp add: word_less_nat_alt algebra_simps)
    ultimately show ?thesis using 2 False assms
      by (simp add: memcpy_backward byte_backward_loop copy_range_def fun_eq_iff algebra_simps)
  qed
qed

text \<open>
  C5: \<open>memcpy\<close> and \<open>memmove\<close>, which copy by words where the alignment allows it and choose the
  direction by the order of the two ranges, copy every byte of the source range as it was before
  the call to its place in the destination range and change no other byte, also when the ranges
  overlap. For ranges that end below the last address.
\<close>

theorem memcpy_copies_range:
  assumes "unat dst + unat len < 2 ^ 32" and "unat src + unat len < 2 ^ 32"
  shows "memcpy dst src len m = (copy_range dst src len m, dst) \<and> memmove dst src len m = (copy_range dst src len m, dst)"
  using memcpy_range [OF assms] by (simp add: memmove_def)

theorem memcpy_copies_range_witness:
  "memcpy 1001 1000 7 (\<lambda>a. ucast a) = (copy_range 1001 1000 7 (\<lambda>a. ucast a), 1001)"
  using memcpy_copies_range [of 1001 7 1000 "\<lambda>a. ucast a"] by simp

section \<open>Filling (core/common/memset.c)\<close>

definition store_word :: "addr \<Rightarrow> uint32_t \<Rightarrow> memory \<Rightarrow> memory" where
  "store_word a w m = m(a := word_bytes w ! 0, a + 1 := word_bytes w ! 1, a + 2 := word_bytes w ! 2, a + 3 := word_bytes w ! 3)"

lemma store_word_apply:
  "store_word a w m b = (if unat (b - a) < 4 then word_bytes w ! unat (b - a) else m b)"
proof -
  obtain x where b: "b = a + x" by (metis add_diff_cancel_left' diff_add_cancel add.commute)
  have "(1 :: addr) \<noteq> 0" "(2 :: addr) \<noteq> 0" "(3 :: addr) \<noteq> 0" by simp_all
  then show ?thesis by (auto simp: b store_word_def unat_lt_4)
qed

lemma unat_minus_lt:
  assumes "k + c \<le> 2 ^ 32" and "k < 2 ^ 32"
  shows "unat (x - of_nat k :: 32 word) < c \<longleftrightarrow> k \<le> unat x \<and> unat x < k + c"
proof (cases "k \<le> unat x")
  case True
  then have "unat (x - of_nat k) = unat x - k"
    using assms(2) by (subst unat_minus_no_wrap) (simp_all add: word_le_nat_alt unat_of_nat_32)
  with True show ?thesis by auto
next
  case False
  then have "unat (x - of_nat k) = unat x + 2 ^ 32 - k"
    using assms(2) by (subst unat_sub_if') (simp add: unat_of_nat_32)
  with False assms show ?thesis by auto
qed

text \<open>Reading a word back.\<close>

definition load_word :: "addr \<Rightarrow> memory \<Rightarrow> uint32_t" where
  "load_word a m = bytes_word [m a, m (a + 1), m (a + 2), m (a + 3)]"

lemma load_store_word: "load_word a (store_word a w m) = w"
proof -
  have "unat (0 :: addr) = 0" "unat (1 :: addr) = 1" "unat (2 :: addr) = 2" "unat (3 :: addr) = 3" by simp_all
  then have "[store_word a w m a, store_word a w m (a + 1), store_word a w m (a + 2), store_word a w m (a + 3)] = word_bytes w"
    unfolding store_word_apply by (simp add: word_bytes_def)
  then show ?thesis unfolding load_word_def by simp
qed

lemma load_word_cong:
  assumes "\<And>i. i < 4 \<Longrightarrow> m' (a + of_nat i) = m (a + of_nat i)"
  shows "load_word a m' = load_word a m"
  using assms [of 0] assms [of 1] assms [of 2] assms [of 3] by (simp add: load_word_def)

lemma store_word_other:
  assumes "4 \<le> k" and "k + 4 \<le> 2 ^ 32"
  shows "load_word (a + of_nat k) (store_word a w m) = load_word (a + of_nat k) m"
proof (rule load_word_cong)
  fix i :: nat assume "i < 4"
  then have "unat (of_nat (k + i) :: addr) = k + i" using assms(2) by (intro unat_of_nat_32) simp
  moreover have "a + of_nat k + of_nat i - a = of_nat (k + i)" by simp
  ultimately have "unat (a + of_nat k + of_nat i - a) = k + i" by (simp only:)
  then show "store_word a w m (a + of_nat k + of_nat i) = m (a + of_nat k + of_nat i)"
    unfolding store_word_apply using assms(1) by simp
qed

text \<open>Writing a half word and a list of bytes to memory.\<close>

definition store_half :: "addr \<Rightarrow> uint16_t \<Rightarrow> memory \<Rightarrow> memory" where
  "store_half a w m = m(a := half_bytes w ! 0, a + 1 := half_bytes w ! 1)"

fun store_bytes :: "addr \<Rightarrow> uint8_t list \<Rightarrow> memory \<Rightarrow> memory" where
  "store_bytes a [] m = m"
| "store_bytes a (b # bs) m = store_bytes (a + 1) bs (m(a := b))"

text \<open>The last loop of \<open>memset\<close>: so many words from the given address on.\<close>

fun fill_words :: "nat \<Rightarrow> addr \<Rightarrow> uint32_t \<Rightarrow> memory \<Rightarrow> memory" where
  "fill_words 0 ws wc m = m"
| "fill_words (Suc n) ws wc m = fill_words n (ws + 4) wc (store_word ws wc m)"

definition memset :: "addr \<Rightarrow> uint32_t \<Rightarrow> size_t \<Rightarrow> memory \<Rightarrow> memory \<times> addr" where
  "memset dest c n m =
     (let b = ucast c; s = dest in
      if n = 0 then (m, dest)
      else
        let m1 = m(s := b, s + (n - 1) := b) in
        if n \<le> 2 then (m1, dest)
        else
          let m2 = m1(s + 1 := b, s + 2 := b, s + (n - 2) := b, s + (n - 3) := b) in
          if n \<le> 6 then (m2, dest)
          else
            let m3 = m2(s + 3 := b, s + (n - 4) := b) in
            if n \<le> 8 then (m3, dest)
            else
              let k = (- s) AND 3;
                  n' = ((n - k) AND (- 4)) div 4;
                  wc0 = c AND 0xFF;
                  wc = wc0 OR (push_bit 8 wc0 OR push_bit 16 wc0 OR push_bit 24 wc0)
              in (fill_words (unat n') (s + k) wc m3, dest))"

text \<open>The reference definition: every byte of the range.\<close>

definition fill_range :: "addr \<Rightarrow> size_t \<Rightarrow> uint8_t \<Rightarrow> memory \<Rightarrow> memory" where
  "fill_range d n b m = (\<lambda>a. if a - d < n then b else m a)"

lemma word_bytes_repeated:
  assumes "w = c AND 0xFF"
  shows "word_bytes (w OR (push_bit 8 w OR push_bit 16 w OR push_bit 24 w)) = replicate 4 (ucast c)"
proof -
  have w: "w = take_bit 8 c" using assms by (simp add: take_bit_eq_mask mask_eq_exp_minus_1)
  let ?r = "w OR (push_bit 8 w OR push_bit 16 w OR push_bit 24 w)"
  have "(ucast (drop_bit j ?r) :: uint8_t) = ucast c" if "j = 0 \<or> j = 8 \<or> j = 16 \<or> j = 24" for j
    using that unfolding w by (intro bit_word_eqI) (auto simp: bit_simps)
  from this [of 0] this [of 8] this [of 16] this [of 24] show ?thesis
    by (simp add: word_bytes_def numeral_eq_Suc)
qed

lemma fill_words_range:
  assumes "word_bytes w = replicate 4 b" and "4 * n \<le> 2 ^ 32"
  shows "fill_words n s w m = (\<lambda>a. if unat (a - s) < 4 * n then b else m a)"
  using assms(2)
proof (induction n arbitrary: s m)
  case (Suc n)
  have st: "store_word s w m = (\<lambda>a. if unat (a - s) < 4 then b else m a)"
    by (auto simp: store_word_def assms(1) fun_eq_iff unat_lt_4 diff_eq_eq add.commute numeral_eq_Suc [of Num.One])
  have split: "unat (a - (s + 4)) < 4 * n \<or> unat (a - s) < 4 \<longleftrightarrow> unat (a - s) < 4 * Suc n" for a
  proof (cases "4 \<le> a - s")
    case True
    then have "unat (a - (s + 4)) = unat (a - s) - 4" using unat_minus_no_wrap [OF True] by (simp add: diff_diff_eq)
    then show ?thesis using True by (auto simp: word_le_nat_alt)
  next
    case False
    then show ?thesis by (auto simp: word_le_nat_alt)
  qed
  have "fill_words (Suc n) s w m = (\<lambda>a. if unat (a - (s + 4)) < 4 * n \<or> unat (a - s) < 4 then b else m a)"
    using Suc by (auto simp: st fun_eq_iff)
  then show ?case unfolding split .
qed simp

lemma unat_clear_low_bits: "unat (x AND (- 4)) = unat x div 4 * 4" for x :: "32 word"
proof -
  have "(x AND wmask) + (x AND NOT wmask) = (x AND wmask) OR (x AND NOT wmask)"
    by (rule disjunctive_add) (auto simp: bit_simps)
  also have "\<dots> = x" by (simp add: bit.conj_disj_distrib [symmetric])
  finally have e: "x AND NOT wmask = x - (x AND wmask)" by (simp add: algebra_simps)
  have "x AND wmask \<le> x" by (simp add: word_le_nat_alt unat_wmask)
  then have "unat (x AND NOT wmask) = unat x - unat x mod 4" by (simp add: e unat_minus_no_wrap unat_wmask)
  moreover have "NOT wmask = - 4" by (simp add: wmask_def wsize_def)
  ultimately show ?thesis by (simp add: minus_mod_eq_div_mult)
qed

text \<open>The head, the tail and the aligned words together cover the range, in offsets from its start.\<close>

lemma memset_cover:
  fixes x n k :: "32 word"
  assumes "8 < n" and "unat k < 4"
  shows "unat (x - k) < 4 * unat (((n - k) AND (- 4)) div 4)
      \<or> x = 0 \<or> x = 1 \<or> x = 2 \<or> x = 3 \<or> x = n - 1 \<or> x = n - 2 \<or> x = n - 3 \<or> x = n - 4 \<longleftrightarrow> x < n"
proof -
  have n: "8 < unat n" using assms(1) by (simp add: word_less_nat_alt)
  have nk: "unat (n - k) = unat n - unat k"
    using assms(2) n by (intro unat_minus_no_wrap) (simp add: word_le_nat_alt)
  have "unat ((n - k) AND (- 4)) = (unat (n - k) div 4) * 4" by (rule unat_clear_low_bits)
  then have q: "4 * unat (((n - k) AND (- 4)) div 4) = (unat n - unat k) div 4 * 4"
    by (simp add: unat_div nk)
  have tail: "x = n - j \<longleftrightarrow> unat x = unat n - unat j" if "unat j \<le> unat n" for j
    using that unat_minus_no_wrap [of j n] by (simp add: word_unat_eq_iff word_le_nat_alt)
  have tails: "x = n - 1 \<longleftrightarrow> unat x = unat n - 1" "x = n - 2 \<longleftrightarrow> unat x = unat n - 2"
    "x = n - 3 \<longleftrightarrow> unat x = unat n - 3" "x = n - 4 \<longleftrightarrow> unat x = unat n - 4"
    using tail [of 1] tail [of 2] tail [of 3] tail [of 4] n by simp_all
  have heads: "x = 0 \<or> x = 1 \<or> x = 2 \<or> x = 3 \<longleftrightarrow> unat x < 4" by (rule unat_lt_4 [symmetric])
  define Q where "Q = (unat n - unat k) div 4 * 4"
  have Q: "Q \<le> unat n - unat k" "unat n - unat k < Q + 4"
    using div_mult_mod_eq [of "unat n - unat k" 4] mod_less_divisor [of 4 "unat n - unat k"] unfolding Q_def by linarith+
  have nat: "unat (x - k) < Q \<or> unat x < 4 \<or> unat x = unat n - 1 \<or> unat x = unat n - 2 \<or> unat x = unat n - 3 \<or> unat x = unat n - 4
      \<longleftrightarrow> unat x < unat n"
  proof (cases "unat k \<le> unat x")
    case True
    then have "unat (x - k) = unat x - unat k" by (intro unat_minus_no_wrap) (simp add: word_le_nat_alt)
    then show ?thesis using True Q n assms(2) by arith
  next
    case False
    then show ?thesis using n assms(2) by arith
  qed
  have "x = 0 \<or> x = 1 \<or> x = 2 \<or> x = 3 \<or> R \<longleftrightarrow> unat x < 4 \<or> R" for R using heads by blast
  then show ?thesis unfolding q Q_def [symmetric] tails word_less_nat_alt using nat by simp
qed

lemma unat_cases: "k < 2 ^ 32 \<Longrightarrow> unat n = k \<longleftrightarrow> n = of_nat k" for n :: "32 word"
  by (simp add: word_unat_eq_iff unat_of_nat)

lemma memset_cover_2:
  fixes x n :: "32 word"
  assumes "0 < n" and "n \<le> 2"
  shows "x = 0 \<or> x = n - 1 \<longleftrightarrow> x < n"
proof -
  have "unat n = 1 \<or> unat n = 2" using assms unfolding word_less_nat_alt word_le_nat_alt by simp arith
  then have "n = 1 \<or> n = 2" by (simp add: unat_cases)
  then show ?thesis unfolding word_less_nat_alt word_unat_eq_iff [of x] by (elim disjE; hypsubst; simp; linarith)
qed

lemma memset_cover_6:
  fixes x n :: "32 word"
  assumes "2 < n" and "n \<le> 6"
  shows "x = 0 \<or> x = n - 1 \<or> x = 1 \<or> x = 2 \<or> x = n - 2 \<or> x = n - 3 \<longleftrightarrow> x < n"
proof -
  have "unat n = 3 \<or> unat n = 4 \<or> unat n = 5 \<or> unat n = 6"
    using assms unfolding word_less_nat_alt word_le_nat_alt by simp arith
  then have "n = 3 \<or> n = 4 \<or> n = 5 \<or> n = 6" by (simp add: unat_cases)
  then show ?thesis unfolding word_less_nat_alt word_unat_eq_iff [of x] by (elim disjE; hypsubst; simp; linarith)
qed

lemma memset_cover_8:
  fixes x n :: "32 word"
  assumes "6 < n" and "n \<le> 8"
  shows "x = 0 \<or> x = n - 1 \<or> x = 1 \<or> x = 2 \<or> x = n - 2 \<or> x = n - 3 \<or> x = 3 \<or> x = n - 4 \<longleftrightarrow> x < n"
proof -
  have "unat n = 7 \<or> unat n = 8" using assms unfolding word_less_nat_alt word_le_nat_alt by simp arith
  then have "n = 7 \<or> n = 8" by (simp add: unat_cases)
  then show ?thesis unfolding word_less_nat_alt word_unat_eq_iff [of x] by (elim disjE; hypsubst; simp; linarith)
qed

text \<open>The branches of \<open>memset\<close>, as assignments at offsets from the start of the range.\<close>

lemma memset_branches:
  fixes c :: uint32_t and n :: size_t
  defines "b \<equiv> (ucast c :: uint8_t)" and "w \<equiv> c AND 0xFF"
  shows "n = 0 \<Longrightarrow> memset d c n m = (m, d)"
    and "0 < n \<Longrightarrow> n \<le> 2 \<Longrightarrow> memset d c n m = (m(d := b, d + (n - 1) := b), d)"
    and "2 < n \<Longrightarrow> n \<le> 6 \<Longrightarrow> memset d c n m =
      (m(d := b, d + (n - 1) := b, d + 1 := b, d + 2 := b, d + (n - 2) := b, d + (n - 3) := b), d)"
    and "6 < n \<Longrightarrow> n \<le> 8 \<Longrightarrow> memset d c n m =
      (m(d := b, d + (n - 1) := b, d + 1 := b, d + 2 := b, d + (n - 2) := b, d + (n - 3) := b, d + 3 := b, d + (n - 4) := b), d)"
    and "8 < n \<Longrightarrow> memset d c n m = (fill_words (unat (((n - ((- d) AND 3)) AND (- 4)) div 4)) (d + ((- d) AND 3))
        (w OR (push_bit 8 w OR push_bit 16 w OR push_bit 24 w))
        (m(d := b, d + (n - 1) := b, d + 1 := b, d + 2 := b, d + (n - 2) := b, d + (n - 3) := b, d + 3 := b, d + (n - 4) := b)), d)"
  unfolding memset_def Let_def b_def w_def word_less_nat_alt word_le_nat_alt word_unat_eq_iff [of n] by simp_all

lemma memset_range: "memset dest c n m = (fill_range dest n (ucast c) m, dest)"
proof -
  let ?b = "ucast c :: uint8_t"
  have ext: "M = fill_range dest n ?b m" if "\<And>x. M (dest + x) = (if x < n then ?b else m (dest + x))" for M
  proof
    fix a
    show "M a = fill_range dest n ?b m a" using that [of "a - dest"] by (simp add: fill_range_def)
  qed
  consider "n = 0" | "0 < n \<and> n \<le> 2" | "2 < n \<and> n \<le> 6" | "6 < n \<and> n \<le> 8" | "8 < n"
    by (metis linorder_not_le word_neq_0_conv)
  then show ?thesis
  proof cases
    case 1
    then show ?thesis by (simp add: memset_branches fill_range_def)
  next
    case 2
    then show ?thesis
      by (simp add: memset_branches) (rule ext, simp add: memset_cover_2 [symmetric])
  next
    case 3
    then show ?thesis
      by (simp add: memset_branches) (rule ext, simp add: memset_cover_6 [symmetric])
  next
    case 4
    then show ?thesis
      by (simp add: memset_branches) (rule ext, simp add: memset_cover_8 [symmetric])
  next
    case 5
    define k where "k = (- dest) AND 3"
    have k: "unat k < 4" unfolding k_def using unat_wmask [of "- dest"] by (simp add: wmask_def wsize_def)
    define q where "q = ((n - k) AND (- 4)) div 4"
    have "4 * unat q \<le> 2 ^ 32"
      using unat_lt_2_32 [of "(n - k) AND (- 4)"] by (simp add: q_def unat_div)
    note fill = fill_words_range [OF word_bytes_repeated [OF refl] this]
    show ?thesis
      unfolding memset_branches(5) [OF 5] k_def [symmetric] q_def [symmetric] fill prod.inject
      by (intro conjI refl ext) (simp add: memset_cover [OF 5 k, folded q_def, symmetric])
  qed
qed

text \<open>
  C30: \<open>memset\<close>, which writes the head and the tail byte by byte and the aligned middle by words, sets
  every byte of the range to the low byte of its argument and changes no other byte, for every
  address, alignment and length.
\<close>

theorem memset_fills_range: "memset dest c n m = (fill_range dest n (ucast c) m, dest)"
  by (rule memset_range)

end
