(* ===== verification/Kernel_State.thy ===== *)
theory Kernel_State
  imports Kernel_Heap Byte_Memory
begin

unbundle bit_operations_syntax

text \<open>
  The state of the kernel: the heap of \<open>Kernel_Heap\<close> extended with one store per kind of
  object (capabilities, capability nodes, threads, endpoints, messages, argument structures,
  plain bytes) and with the global variables of \<open>threads.c\<close> and \<open>scheduler.c\<close>. An object is
  named by its address; the two kinds of list links inside a capability and the four inside a
  thread are stores of their own, so that the macros of \<open>Linked_List\<close> apply to them. A thread's
  root capability is its first member and therefore lies at the thread's own address.

  Kernel functions that loop or call themselves return \<open>None\<close> when they do not return: when
  a loop goes on for ever, or when the code calls through a NULL table of handlers.
\<close>

section \<open>Data (capabilities.h, threads.h, ipc.h, scheduler.h, sys/kernel.h, sys/arch/68000.h)\<close>

text \<open>The tables of invocation handlers, which the code names by their addresses.\<close>

datatype handlers =
    No_handlers
  | Node_handlers
  | Thread_handlers
  | Endpoint_handlers
  | Untyped_handlers
  | Address_space_handlers
  | Debug_handlers

record capability =
  cap_handlers :: handlers
  cap_resource :: addr
  cap_flags :: uint8_t
  cap_badge :: size_t
  cap_access_rights :: uint8_t
  cap_derived_from :: addr
  cap_derivation :: addr
  cap_address :: absolute_capability_address
  cap_heap :: addr

record capability_node =
  slot_bits :: uint8_t
  nested_nodes :: uint8_t

record thread_registers =
  stack_pointer :: uint32_t
  data_registers :: "uint32_t list"
  address_registers :: "uint32_t list"
  status_register :: uint16_t
  program_counter :: uint32_t

text \<open>The run queue of a thread is one of the priority queues, by its index, or none.\<close>

record thread_capability =
  exec_mode :: uint8_t
  niceness :: uint8_t
  recent_cpu_time :: uint32_t
  registers :: thread_registers
  thread_flags :: uint8_t
  priority :: uint8_t
  runqueue :: "nat option"
  thread_id :: uint16_t
  bucket_number :: uint8_t
  blocked_on :: addr
  message_buffer :: addr
  sending_badge :: size_t

record endpoint_capability =
  blocked_sending :: list_container
  blocked_receiving :: list_container

record ipc_message =
  msg_buffer :: "uint8_t list"
  msg_capabilities :: "(size_t \<times> size_t) list"
  msg_to_copy :: uint8_t
  msg_transferred :: uint8_t
  msg_badge :: size_t

record node_copy_args =
  source_address :: size_t
  source_depth :: size_t
  dest_slot :: size_t
  args_access_rights :: uint8_t
  args_badge :: size_t
  should_set_badge :: uint8_t

record alloc_args =
  alloc_type :: uint8_t
  alloc_arg_size :: size_t
  alloc_address :: size_t
  alloc_depth :: size_t

record read_write_register_args =
  rw_address :: addr
  rw_size :: size_t

record set_root_node_args =
  root_address :: size_t
  root_depth :: size_t

record kstate = heap_state +
  caps :: "addr \<Rightarrow> capability"
  res_links :: nc_links
  der_links :: nc_links
  nodes :: "addr \<Rightarrow> capability_node"
  threads :: "addr \<Rightarrow> thread_capability"
  runqueue_entry :: links
  cpu_update_entry :: links
  table_entry :: links
  blocked_queue :: links
  endpoints :: "addr \<Rightarrow> endpoint_capability"
  messages :: "addr \<Rightarrow> ipc_message"
  copy_args :: "addr \<Rightarrow> node_copy_args"
  allocation_args :: "addr \<Rightarrow> alloc_args"
  register_args :: "addr \<Rightarrow> read_write_register_args"
  root_node_args :: "addr \<Rightarrow> set_root_node_args"
  heap_pointers :: "addr \<Rightarrow> addr"
  user_bytes :: "addr \<Rightarrow> uint8_t"
  thread_hash_table :: "uint8_t \<Rightarrow> list_container"
  used_thread_ids :: "size_t list"
  current_thread :: addr
  priority_queues :: "nat \<Rightarrow> list_container"
  needs_cpu_time_update :: list_container
  timer_hz :: uint8_t
  ticks_until_cpu_time_update :: uint8_t
  pending_context_switch :: bool

section \<open>Constants\<close>

definition CAP_FLAG_IS_HEAP_MANAGED :: uint8_t where "CAP_FLAG_IS_HEAP_MANAGED = 1"
definition CAP_FLAG_IS_ROOT :: uint8_t where "CAP_FLAG_IS_ROOT = 2"
definition CAP_FLAG_BADGED :: uint8_t where "CAP_FLAG_BADGED = 4"
definition CAP_FLAG_ORIGINAL :: uint8_t where "CAP_FLAG_ORIGINAL = 8"
definition MAX_NESTED_NODES :: uint8_t where "MAX_NESTED_NODES = 4"
definition ROOT_CAP_SLOT_BITS :: size_t where "ROOT_CAP_SLOT_BITS = 4"

definition THREAD_CURRENTLY_RUNNING :: uint8_t where "THREAD_CURRENTLY_RUNNING = 1"
definition THREAD_NEEDS_CPU_UPDATE :: uint8_t where "THREAD_NEEDS_CPU_UPDATE = 2"
definition THREAD_BLOCKED_ON_SEND :: uint8_t where "THREAD_BLOCKED_ON_SEND = 4"
definition THREAD_BLOCKED_ON_RECEIVE :: uint8_t where "THREAD_BLOCKED_ON_RECEIVE = 8"

definition EXEC_MODE_RUNNING :: uint8_t where "EXEC_MODE_RUNNING = 0"
definition EXEC_MODE_BLOCKED :: uint8_t where "EXEC_MODE_BLOCKED = 1"
definition EXEC_MODE_SUSPENDED :: uint8_t where "EXEC_MODE_SUSPENDED = 2"
definition EXEC_MODE_EXITED :: uint8_t where "EXEC_MODE_EXITED = 4"

definition NUM_BUCKETS :: nat where "NUM_BUCKETS = 128"
definition NUM_PRIORITIES :: nat where "NUM_PRIORITIES = 64"
definition PTR_BITS :: nat where "PTR_BITS = 32"
definition USED_THREAD_IDS_SIZE :: nat where "USED_THREAD_IDS_SIZE = 32"
definition IPC_BUFFER_SIZE :: nat where "IPC_BUFFER_SIZE = 64"
definition IPC_CAPABILITY_SLOTS :: nat where "IPC_CAPABILITY_SLOTS = 4"

text \<open>
  Sizes under the 68000 ABI, which aligns members to two bytes: a capability has 4 + 4 + 2 + 4 + 2 +
  16 + 16 + 4 + 4 + 12 + 4 bytes; the slots of a node follow its two byte-sized members.
\<close>

definition sizeof_capability :: size_t where "sizeof_capability = 72"
definition sizeof_capability_node :: size_t where "sizeof_capability_node = 2"
definition sizeof_thread_capability :: size_t where "sizeof_thread_capability = 202"
definition sizeof_thread_registers :: nat where "sizeof_thread_registers = 70"
definition sizeof_endpoint_capability :: size_t where "sizeof_endpoint_capability = 16"
definition sizeof_address_space_capability :: size_t where "sizeof_address_space_capability = 4"

named_theorems kernel_consts "the numeric constants of the kernel headers"

lemmas [kernel_consts] =
  CAP_FLAG_IS_HEAP_MANAGED_def CAP_FLAG_IS_ROOT_def CAP_FLAG_BADGED_def CAP_FLAG_ORIGINAL_def
  MAX_NESTED_NODES_def ROOT_CAP_SLOT_BITS_def THREAD_CURRENTLY_RUNNING_def
  THREAD_NEEDS_CPU_UPDATE_def THREAD_BLOCKED_ON_SEND_def THREAD_BLOCKED_ON_RECEIVE_def
  EXEC_MODE_RUNNING_def EXEC_MODE_BLOCKED_def EXEC_MODE_SUSPENDED_def EXEC_MODE_EXITED_def
  NUM_BUCKETS_def NUM_PRIORITIES_def PTR_BITS_def USED_THREAD_IDS_SIZE_def
  IPC_BUFFER_SIZE_def IPC_CAPABILITY_SLOTS_def sizeof_capability_def sizeof_capability_node_def
  sizeof_thread_capability_def sizeof_thread_registers_def sizeof_endpoint_capability_def
  sizeof_address_space_capability_def

section \<open>Access to the state\<close>

definition upd_cap :: "addr \<Rightarrow> (capability \<Rightarrow> capability) \<Rightarrow> kstate \<Rightarrow> kstate" where
  "upd_cap a f s = s\<lparr>caps := (caps s)(a := f (caps s a))\<rparr>"

definition upd_thread :: "addr \<Rightarrow> (thread_capability \<Rightarrow> thread_capability) \<Rightarrow> kstate \<Rightarrow> kstate" where
  "upd_thread a f s = s\<lparr>threads := (threads s)(a := f (threads s a))\<rparr>"

definition upd_node :: "addr \<Rightarrow> (capability_node \<Rightarrow> capability_node) \<Rightarrow> kstate \<Rightarrow> kstate" where
  "upd_node a f s = s\<lparr>nodes := (nodes s)(a := f (nodes s a))\<rparr>"

definition upd_endpoint :: "addr \<Rightarrow> (endpoint_capability \<Rightarrow> endpoint_capability) \<Rightarrow> kstate \<Rightarrow> kstate" where
  "upd_endpoint a f s = s\<lparr>endpoints := (endpoints s)(a := f (endpoints s a))\<rparr>"

definition upd_message :: "addr \<Rightarrow> (ipc_message \<Rightarrow> ipc_message) \<Rightarrow> kstate \<Rightarrow> kstate" where
  "upd_message a f s = s\<lparr>messages := (messages s)(a := f (messages s a))\<rparr>"

text \<open>
  A shift by a register count, as the 68000 does it: the count is taken modulo 64, and shifting by
  32 or more gives zero.
\<close>

definition shl :: "size_t \<Rightarrow> size_t \<Rightarrow> size_t" where
  "shl x n = push_bit (unat n mod 64) x"

definition shr :: "size_t \<Rightarrow> size_t \<Rightarrow> size_t" where
  "shr x n = drop_bit (unat n mod 64) x"

definition bits_of_node :: "capability_node \<Rightarrow> size_t" where
  "bits_of_node n = ucast (slot_bits n)"

definition num_slots :: "capability_node \<Rightarrow> size_t" where
  "num_slots n = shl 1 (bits_of_node n)"

text \<open>The address of a node's slot with the given index.\<close>

definition slot_address :: "addr \<Rightarrow> size_t \<Rightarrow> addr" where
  "slot_address node i = node + sizeof_capability_node + i * sizeof_capability"

text \<open>Copying a range of memory: every store moves with it.\<close>

definition kernel_memcpy :: "addr \<Rightarrow> addr \<Rightarrow> size_t \<Rightarrow> kstate \<Rightarrow> kstate" where
  "kernel_memcpy d r n s =
     s\<lparr>caps := copy_range d r n (caps s), res_links := copy_range d r n (res_links s),
       der_links := copy_range d r n (der_links s), nodes := copy_range d r n (nodes s),
       threads := copy_range d r n (threads s), runqueue_entry := copy_range d r n (runqueue_entry s),
       cpu_update_entry := copy_range d r n (cpu_update_entry s),
       table_entry := copy_range d r n (table_entry s), blocked_queue := copy_range d r n (blocked_queue s),
       endpoints := copy_range d r n (endpoints s), messages := copy_range d r n (messages s),
       copy_args := copy_range d r n (copy_args s), allocation_args := copy_range d r n (allocation_args s),
       register_args := copy_range d r n (register_args s),
       root_node_args := copy_range d r n (root_node_args s),
       heap_pointers := copy_range d r n (heap_pointers s), user_bytes := copy_range d r n (user_bytes s)\<rparr>"

text \<open>Memory that is zero everywhere, and no thread.\<close>

definition zero_address :: absolute_capability_address where
  "zero_address = \<lparr>aca_thread_id = 0, aca_bucket_number = 0, aca_address = 0, aca_depth = 0\<rparr>"

definition zero_capability :: capability where
  "zero_capability =
     \<lparr>cap_handlers = No_handlers, cap_resource = NULL, cap_flags = 0, cap_badge = 0,
      cap_access_rights = 0, cap_derived_from = NULL, cap_derivation = NULL,
      cap_address = zero_address, cap_heap = NULL\<rparr>"

definition zero_link :: link where "zero_link = \<lparr>lnk_prev = NULL, lnk_next = NULL\<rparr>"

definition zero_nc_link :: nc_link where
  "zero_nc_link = \<lparr>nc_start = NULL, nc_end = NULL, nc_prev = NULL, nc_next = NULL\<rparr>"

definition zero_registers :: thread_registers where
  "zero_registers =
     \<lparr>stack_pointer = 0, data_registers = replicate 8 0, address_registers = replicate 7 0,
      status_register = 0, program_counter = 0\<rparr>"

definition zero_thread :: thread_capability where
  "zero_thread =
     \<lparr>exec_mode = 0, niceness = 0, recent_cpu_time = 0, registers = zero_registers,
      thread_flags = 0, priority = 0, runqueue = None, thread_id = 0, bucket_number = 0,
      blocked_on = NULL, message_buffer = NULL, sending_badge = 0\<rparr>"

definition zero_message :: ipc_message where
  "zero_message =
     \<lparr>msg_buffer = replicate 64 0, msg_capabilities = replicate 4 (0, 0), msg_to_copy = 0,
      msg_transferred = 0, msg_badge = 0\<rparr>"

definition zero_kstate :: kstate where
  "zero_kstate =
     \<lparr>hdrs = (\<lambda>_. \<lparr>hh_size = 0, hh_flags = 0, hh_update_ref = Absolute_ptr NULL, hh_next = NULL, hh_prev = NULL\<rparr>),
      hp = \<lparr>heap_base = NULL, total_memory = 0, used_memory = 0\<rparr>,
      caps = (\<lambda>_. zero_capability), res_links = (\<lambda>_. zero_nc_link), der_links = (\<lambda>_. zero_nc_link),
      nodes = (\<lambda>_. \<lparr>slot_bits = 0, nested_nodes = 0\<rparr>), threads = (\<lambda>_. zero_thread),
      runqueue_entry = (\<lambda>_. zero_link), cpu_update_entry = (\<lambda>_. zero_link),
      table_entry = (\<lambda>_. zero_link), blocked_queue = (\<lambda>_. zero_link),
      endpoints = (\<lambda>_. \<lparr>blocked_sending = LIST_INIT, blocked_receiving = LIST_INIT\<rparr>),
      messages = (\<lambda>_. zero_message),
      copy_args = (\<lambda>_. \<lparr>source_address = 0, source_depth = 0, dest_slot = 0,
        args_access_rights = 0, args_badge = 0, should_set_badge = 0\<rparr>),
      allocation_args = (\<lambda>_. \<lparr>alloc_type = 0, alloc_arg_size = 0, alloc_address = 0, alloc_depth = 0\<rparr>),
      register_args = (\<lambda>_. \<lparr>rw_address = NULL, rw_size = 0\<rparr>),
      root_node_args = (\<lambda>_. \<lparr>root_address = 0, root_depth = 0\<rparr>),
      heap_pointers = (\<lambda>_. NULL), user_bytes = (\<lambda>_. 0),
      thread_hash_table = (\<lambda>_. LIST_INIT), used_thread_ids = replicate 32 0,
      current_thread = NULL, priority_queues = (\<lambda>_. LIST_INIT), needs_cpu_time_update = LIST_INIT,
      timer_hz = 0, ticks_until_cpu_time_update = 0, pending_context_switch = False\<rparr>"

text \<open>Loops over a list whose body may change the state: the next link is read after the body.\<close>

partial_function (option) iter_links ::
    "(kstate \<Rightarrow> addr \<Rightarrow> addr) \<Rightarrow> (addr \<Rightarrow> kstate \<Rightarrow> kstate option) \<Rightarrow> addr \<Rightarrow> kstate \<Rightarrow> kstate option" where
  "iter_links nx body v s =
     (if v = NULL then Some s
      else do { s' \<leftarrow> body v s; iter_links nx body (nx s' v) s' })"

lemma iter_links_for_each:
  assumes "dseg pv nx0 p xs NULL" and "P s"
    and "\<And>v s. v \<in> set xs \<Longrightarrow> P s \<Longrightarrow> \<exists>s'. body v s = Some s' \<and> P s' \<and> nx s' v = nx0 v"
  shows "iter_links nx body (hd_or NULL xs) s = for_each body xs s"
  using assms
proof (induction xs arbitrary: p s)
  case Nil
  then show ?case by (simp add: iter_links.simps)
next
  case (Cons x xs)
  from Cons.prems(3) [of x s] Cons.prems(2) obtain s' where
    b: "body x s = Some s'" "P s'" "nx s' x = nx0 x" by auto
  have nx: "nx0 x = hd_or NULL xs" "x \<noteq> NULL" and seg: "dseg pv nx0 x xs NULL"
    using Cons.prems(1) by auto
  have "iter_links nx body (hd_or NULL xs) s' = for_each body xs s'"
    using Cons.IH [OF seg b(2)] Cons.prems(3) by simp
  with b nx show ?case by (subst iter_links.simps) simp
qed

text \<open>What every turn of such a loop keeps, the loop keeps.\<close>

lemma iter_links_keeps:
  assumes "iter_links nx body v s = Some t" and "Q s" and "\<And>v s s'. Q s \<Longrightarrow> body v s = Some s' \<Longrightarrow> Q s'"
  shows "Q t"
proof -
  have "nx = nx \<longrightarrow> body = body \<longrightarrow> Q s \<longrightarrow> Q t"
  proof (rule iter_links.raw_induct [OF _ assms(1), where P = "\<lambda>nx' body' v s t. nx' = nx \<longrightarrow> body' = body \<longrightarrow> Q s \<longrightarrow> Q t"], intro impI)
    fix iter nx' body' v s t
    assume ih: "\<And>nx' body' v s t. iter nx' body' v s = Some t \<Longrightarrow> nx' = nx \<longrightarrow> body' = body \<longrightarrow> Q s \<longrightarrow> Q t"
      and run: "(if v = NULL then Some s else do { s' \<leftarrow> body' v s; iter nx' body' (nx' s' v) s' }) = Some t"
      and eq: "nx' = nx" "body' = body" and q: "Q s"
    show "Q t"
    proof (cases "v = NULL")
      case False
      with run eq obtain s' where s': "body v s = Some s'" "iter nx body (nx s' v) s' = Some t"
        by (auto simp: Option.bind_eq_Some_conv)
      with ih assms(3) [OF q s'(1)] show ?thesis by blast
    qed (use run q in simp)
  qed
  with assms(2) show ?thesis by simp
qed

end
