(* ===== verification/Scheduler.thy ===== *)
theory Scheduler
  imports Kernel_State
begin

unbundle bit_operations_syntax

text \<open>
  The scheduler, \<open>core/kernel/scheduler.c\<close>: the run queues are container lists over the threads'
  \<open>runqueue_entry\<close> links, a thread's own record of the queue it is in is the index of a priority
  queue. The invariant \<open>sched_wf\<close> gives the threads of every queue as a list; the properties say
  how resuming, suspending and switching change those lists.
\<close>

section \<open>Operations\<close>

definition init_scheduler :: "kstate \<Rightarrow> kstate" where
  "init_scheduler s =
     s\<lparr>current_thread := NULL,
       priority_queues := (\<lambda>i. if i < NUM_PRIORITIES then LIST_INIT else priority_queues s i),
       needs_cpu_time_update := LIST_INIT, timer_hz := 0, ticks_until_cpu_time_update := 0\<rparr>"

definition append_to_queue :: "nat \<Rightarrow> addr \<Rightarrow> kstate \<Rightarrow> kstate" where
  "append_to_queue i t s =
     (let (c, m) = LIST_APPEND (priority_queues s i) (runqueue_entry s) t
      in s\<lparr>priority_queues := (priority_queues s)(i := c), runqueue_entry := m\<rparr>)"

definition remove_from_queue :: "nat \<Rightarrow> addr \<Rightarrow> kstate \<Rightarrow> kstate" where
  "remove_from_queue i t s =
     (let (c, m) = LIST_REMOVE (priority_queues s i) (runqueue_entry s) t
      in s\<lparr>priority_queues := (priority_queues s)(i := c), runqueue_entry := m\<rparr>)"

definition queue_thread :: "addr \<Rightarrow> kstate \<Rightarrow> kstate" where
  "queue_thread t s =
     (if runqueue (threads s t) \<noteq> None then s
      else append_to_queue 63 t (upd_thread t (\<lambda>x. x\<lparr>runqueue := Some 63\<rparr>) s))"

definition resume_thread :: "addr \<Rightarrow> uint8_t \<Rightarrow> kstate \<Rightarrow> kstate" where
  "resume_thread t reason s =
     (let s1 = upd_thread t (\<lambda>x. x\<lparr>exec_mode := exec_mode x AND NOT reason\<rparr>) s in
      if exec_mode (threads s1 t) = EXEC_MODE_RUNNING then
        let s2 = queue_thread t s1
        in if current_thread s2 = NULL then s2\<lparr>pending_context_switch := True\<rparr> else s2
      else s1)"

definition suspend_thread :: "addr \<Rightarrow> uint8_t \<Rightarrow> kstate \<Rightarrow> kstate" where
  "suspend_thread t new_exec_mode s =
     (let s1 = (if current_thread s = t then s\<lparr>pending_context_switch := True\<rparr> else s);
          s2 = upd_thread t (\<lambda>x. x\<lparr>exec_mode := exec_mode x OR new_exec_mode\<rparr>) s1
      in case runqueue (threads s2 t) of
           Some i \<Rightarrow>
             if exec_mode (threads s2 t) \<noteq> EXEC_MODE_RUNNING
             then upd_thread t (\<lambda>x. x\<lparr>runqueue := None\<rparr>) (remove_from_queue i t s2)
             else s2
         | None \<Rightarrow> s2)"

definition yield_thread :: "kstate \<Rightarrow> kstate" where
  "yield_thread s = s\<lparr>pending_context_switch := True\<rparr>"

text \<open>The search for the next thread, from the given priority downwards.\<close>

fun pop_next_thread :: "nat \<Rightarrow> kstate \<Rightarrow> kstate \<times> addr" where
  "pop_next_thread 0 s = (s, NULL)"
| "pop_next_thread (Suc i) s =
     (if lc_start (priority_queues s i) \<noteq> NULL then
        let (c, m, t) = LIST_POP_FROM_START (priority_queues s i) (runqueue_entry s) NULL;
            s1 = s\<lparr>priority_queues := (priority_queues s)(i := c), runqueue_entry := m\<rparr>
        in (upd_thread t (\<lambda>x. x\<lparr>runqueue := None\<rparr>) s1, t)
      else pop_next_thread i s)"

text \<open>
  \<open>idle_thread\<close> is the address of the function of that name. The interrupted registers go in, the
  ones to return to come out.
\<close>

definition save_current_thread ::
    "thread_registers \<Rightarrow> addr \<Rightarrow> kstate \<Rightarrow> kstate \<times> bool" where
  "save_current_thread regs next_thread s =
     (let t = current_thread s;
          save = (\<lambda>s. upd_thread t (\<lambda>x. x\<lparr>registers := regs,
                    thread_flags := thread_flags x AND NOT THREAD_CURRENTLY_RUNNING\<rparr>) s)
      in if t = NULL then (s, True)
         else if exec_mode (threads s t) = EXEC_MODE_RUNNING
         then (if next_thread \<noteq> NULL then queue_thread t (save s) else s, False)
         else ((save s)\<lparr>current_thread := NULL\<rparr>, True))"

definition try_context_switch ::
    "uint32_t \<Rightarrow> thread_registers \<Rightarrow> kstate \<Rightarrow> kstate \<times> thread_registers" where
  "try_context_switch idle_thread regs s =
     (if \<not> pending_context_switch s then (s, regs)
      else
        let s1 = s\<lparr>pending_context_switch := False\<rparr>;
            (s2, next_thread) = pop_next_thread NUM_PRIORITIES s1;
            (s3, should_idle) = save_current_thread regs next_thread s2
        in if next_thread \<noteq> NULL then
             (upd_thread next_thread (\<lambda>x. x\<lparr>thread_flags := thread_flags x OR THREAD_CURRENTLY_RUNNING\<rparr>)
                (s3\<lparr>current_thread := next_thread\<rparr>), registers (threads s3 next_thread))
           else if should_idle then (s3, regs\<lparr>program_counter := idle_thread\<rparr>)
           else (s3, regs))"

definition handle_thread_exception ::
    "uint32_t \<Rightarrow> thread_registers \<Rightarrow> kstate \<Rightarrow> kstate \<times> thread_registers" where
  "handle_thread_exception idle_thread regs s =
     try_context_switch idle_thread regs (suspend_thread (current_thread s) EXEC_MODE_SUSPENDED s)"

section \<open>The run queues as lists\<close>

text \<open>
  \<open>sched_wf s q\<close>: \<open>q i\<close> lists the threads in priority queue \<open>i\<close>, and the threads in it are exactly
  those whose \<open>runqueue\<close> is that queue; the lists are disjoint and without repetition. \<open>fresh\<close>
  says in addition that the first thread of every queue has no predecessor, which holds until a
  thread is taken off a queue.
\<close>

definition sched_wf :: "kstate \<Rightarrow> (nat \<Rightarrow> addr list) \<Rightarrow> bool" where
  "sched_wf s q \<longleftrightarrow>
     (\<forall>i. \<exists>p. list_rep p (priority_queues s i) (runqueue_entry s) (q i))
     \<and> (\<forall>i t. t \<in> set (q i) \<longleftrightarrow> t \<noteq> NULL \<and> runqueue (threads s t) = Some i)"

definition fresh :: "kstate \<Rightarrow> (nat \<Rightarrow> addr list) \<Rightarrow> bool" where
  "fresh s q \<longleftrightarrow> (\<forall>i. q i \<noteq> [] \<longrightarrow> lnk_prev (runqueue_entry s (hd_or NULL (q i))) = NULL)"

lemma sched_wf_disjoint: "sched_wf s q \<Longrightarrow> t \<in> set (q i) \<Longrightarrow> t \<in> set (q j) \<Longrightarrow> i = j"
  by (auto simp: sched_wf_def)

lemma sched_wf_nonnull: "sched_wf s q \<Longrightarrow> t \<in> set (q i) \<Longrightarrow> t \<noteq> NULL"
  by (auto simp: sched_wf_def)

lemma sched_wf_rep:
  assumes "sched_wf s q"
  obtains p where "list_rep p (priority_queues s i) (runqueue_entry s) (q i)"
  using assms unfolding sched_wf_def by blast

text \<open>A change of one queue that keeps the links of the threads outside it.\<close>

lemma sched_wf_update:
  assumes wf: "sched_wf s q" and c: "list_rep p c m xs"
    and other: "\<And>j a. j \<noteq> i \<Longrightarrow> a \<in> set (q j) \<Longrightarrow> m a = runqueue_entry s a"
    and mem: "\<And>a. a \<in> set xs \<longleftrightarrow> a \<noteq> NULL \<and> runqueue (ths a) = Some i"
    and keep: "\<And>j a. j \<noteq> i \<Longrightarrow> runqueue (ths a) = Some j \<longleftrightarrow> runqueue (threads s a) = Some j"
  shows "sched_wf (s\<lparr>priority_queues := (priority_queues s)(i := c), runqueue_entry := m, threads := ths\<rparr>)
     (q(i := xs))"
  unfolding sched_wf_def
proof (intro conjI allI)
  fix j
  show "\<exists>p. list_rep p (priority_queues (s\<lparr>priority_queues := (priority_queues s)(i := c),
      runqueue_entry := m, threads := ths\<rparr>) j)
      (runqueue_entry (s\<lparr>priority_queues := (priority_queues s)(i := c), runqueue_entry := m, threads := ths\<rparr>))
      ((q(i := xs)) j)"
  proof (cases "j = i")
    case True
    then show ?thesis using c by auto
  next
    case False
    obtain p' where "list_rep p' (priority_queues s j) (runqueue_entry s) (q j)"
      using sched_wf_rep [OF wf] by blast
    from list_rep_frame [OF this] other [OF False] False show ?thesis by auto
  qed
next
  fix j a
  show "a \<in> set ((q(i := xs)) j) \<longleftrightarrow> a \<noteq> NULL \<and>
      runqueue (threads (s\<lparr>priority_queues := (priority_queues s)(i := c), runqueue_entry := m, threads := ths\<rparr>) a) = Some j"
    using wf mem keep by (auto simp: sched_wf_def)
qed

lemma sched_wf_threads:
  assumes "sched_wf s q" and "\<And>a. runqueue (ths a) = runqueue (threads s a)"
  shows "sched_wf (s\<lparr>threads := ths\<rparr>) q"
  using assms by (auto simp: sched_wf_def)

lemma sched_wf_cong:
  "sched_wf s q \<Longrightarrow> priority_queues s' = priority_queues s \<Longrightarrow> runqueue_entry s' = runqueue_entry s \<Longrightarrow>
   (\<And>a. runqueue (threads s' a) = runqueue (threads s a)) \<Longrightarrow> sched_wf s' q"
  by (auto simp: sched_wf_def)

lemma queue_thread_wf:
  assumes wf: "sched_wf s q" and t: "t \<noteq> NULL" "runqueue (threads s t) = None"
  shows "sched_wf (queue_thread t s) (q(63 := q 63 @ [t]))"
    and "threads (queue_thread t s) = (threads s)(t := (threads s t)\<lparr>runqueue := Some 63\<rparr>)"
    and "current_thread (queue_thread t s) = current_thread s"
proof -
  obtain p where p: "list_rep p (priority_queues s 63) (runqueue_entry s) (q 63)"
    using sched_wf_rep [OF wf] by blast
  obtain c m where a: "LIST_APPEND (priority_queues s 63) (runqueue_entry s) t = (c, m)" by fastforce
  have nt: "t \<notin> set (q j)" for j using wf t by (auto simp: sched_wf_def)
  note app = LIST_APPEND_rep [OF p t(1) nt a]
  let ?ths = "(threads s)(t := (threads s t)\<lparr>runqueue := Some 63\<rparr>)"
  have eq: "queue_thread t s = s\<lparr>priority_queues := (priority_queues s)(63 := c), runqueue_entry := m, threads := ?ths\<rparr>"
    using t a by (simp add: queue_thread_def append_to_queue_def upd_thread_def)
  show "sched_wf (queue_thread t s) (q(63 := q 63 @ [t]))"
    unfolding eq
  proof (rule sched_wf_update [OF wf app(1)])
    fix j a assume "j \<noteq> (63 :: nat)" "a \<in> set (q j)"
    then have "a \<notin> set (q 63 @ [t])" using sched_wf_disjoint [OF wf] nt by auto
    then show "m a = runqueue_entry s a" by (rule app(2))
  qed (use wf t in \<open>auto simp: sched_wf_def\<close>)
  show "threads (queue_thread t s) = ?ths" "current_thread (queue_thread t s) = current_thread s"
    by (simp_all add: eq)
qed

lemma pop_next_thread_wf:
  assumes wf: "sched_wf s q" and i: "i < n" "q i = t # ts" and above: "\<And>j. i < j \<Longrightarrow> j < n \<Longrightarrow> q j = []"
  shows "snd (pop_next_thread n s) = t"
    and "sched_wf (fst (pop_next_thread n s)) (q(i := ts))"
    and "threads (fst (pop_next_thread n s)) = (threads s)(t := (threads s t)\<lparr>runqueue := None\<rparr>)"
    and "current_thread (fst (pop_next_thread n s)) = current_thread s"
proof -
  have start: "lc_start (priority_queues s j) = NULL \<longleftrightarrow> q j = []" for j
    using sched_wf_rep [OF wf] list_rep_start by metis
  obtain p where p: "list_rep p (priority_queues s i) (runqueue_entry s) (t # ts)"
    using sched_wf_rep [OF wf, of i] i(2) by metis
  obtain c m v where a: "LIST_POP_FROM_START (priority_queues s i) (runqueue_entry s) NULL = (c, m, v)"
    by (metis prod_cases3)
  note pop = LIST_POP_FROM_START_rep [OF p a]
  let ?ths = "(threads s)(t := (threads s t)\<lparr>runqueue := None\<rparr>)"
  have top: "pop_next_thread (Suc i) s =
      (s\<lparr>priority_queues := (priority_queues s)(i := c), runqueue_entry := m, threads := ?ths\<rparr>, t)"
    using start [of i] i(2) a pop(1) by (auto simp: upd_thread_def)
  have eq: "pop_next_thread n s =
      (s\<lparr>priority_queues := (priority_queues s)(i := c), runqueue_entry := m, threads := ?ths\<rparr>, t)"
    using i(1) above
  proof (induction n)
    case (Suc n)
    show ?case
    proof (cases "n = i")
      case True
      then show ?thesis by (simp only: top)
    next
      case False
      with Suc start [of n] show ?thesis by simp
    qed
  qed simp
  then show "snd (pop_next_thread n s) = t" "threads (fst (pop_next_thread n s)) = ?ths"
    "current_thread (fst (pop_next_thread n s)) = current_thread s" by simp_all
  have dis: "t \<notin> set ts" "t \<in> set (q i)" using p i(2) by (auto simp: list_rep_def)
  show "sched_wf (fst (pop_next_thread n s)) (q(i := ts))"
    unfolding eq fst_conv
  proof (rule sched_wf_update [OF wf pop(2)])
    fix j a assume "j \<noteq> i" "a \<in> set (q j)"
    then have "a \<noteq> t" using sched_wf_disjoint [OF wf] dis by blast
    then show "m a = runqueue_entry s a" by (rule pop(3))
  next
    fix a
    have "a \<in> set (t # ts) \<longleftrightarrow> a \<noteq> NULL \<and> runqueue (threads s a) = Some i"
      using wf i(2) unfolding sched_wf_def by metis
    then show "a \<in> set ts \<longleftrightarrow> a \<noteq> NULL \<and> runqueue (?ths a) = Some i" using dis by auto
  next
    fix j a assume "j \<noteq> i"
    moreover have "runqueue (threads s t) = Some i" using wf dis(2) by (simp add: sched_wf_def)
    ultimately show "runqueue (?ths a) = Some j \<longleftrightarrow> runqueue (threads s a) = Some j" by auto
  qed
qed

lemma pop_next_thread_none:
  assumes "sched_wf s q" and "\<And>j. j < n \<Longrightarrow> q j = []"
  shows "pop_next_thread n s = (s, NULL)"
  using assms(2)
proof (induction n)
  case (Suc n)
  have "lc_start (priority_queues s n) = NULL"
    using sched_wf_rep [OF assms(1), of n] list_rep_start Suc.prems [of n] by (metis lessI)
  with Suc show ?case by simp
qed simp

section \<open>Properties of the scheduler\<close>

lemma upd_thread_simps [simp]:
  "threads (upd_thread t f s) = (threads s)(t := f (threads s t))"
  "priority_queues (upd_thread t f s) = priority_queues s"
  "runqueue_entry (upd_thread t f s) = runqueue_entry s"
  "current_thread (upd_thread t f s) = current_thread s"
  "pending_context_switch (upd_thread t f s) = pending_context_switch s"
  by (simp_all add: upd_thread_def)

lemma pending_unchanged [simp]:
  "pending_context_switch (queue_thread t s) = pending_context_switch s"
  "pending_context_switch (fst (pop_next_thread n s)) = pending_context_switch s"
proof -
  show "pending_context_switch (queue_thread t s) = pending_context_switch s"
    by (simp add: queue_thread_def append_to_queue_def split_beta)
  show "pending_context_switch (fst (pop_next_thread n s)) = pending_context_switch s"
    by (induction n) (simp_all add: split_beta Let_def)
qed

lemma zero_kstate_sched_wf: "sched_wf zero_kstate (\<lambda>_. [])"
  by (auto simp: sched_wf_def zero_kstate_def zero_thread_def intro: LIST_INIT_rep)

lemma demo_queue:
  "sched_wf (queue_thread 256 zero_kstate) ((\<lambda>_. [])(63 := [256]))"
  "threads (queue_thread 256 zero_kstate) a = (if a = 256 then zero_thread\<lparr>runqueue := Some 63\<rparr> else zero_thread)"
proof -
  have z: "runqueue (threads zero_kstate 256) = None" by (simp add: zero_kstate_def zero_thread_def)
  show "sched_wf (queue_thread 256 zero_kstate) ((\<lambda>_. [])(63 := [256]))"
    using queue_thread_wf(1) [OF zero_kstate_sched_wf _ z] by simp
  show "threads (queue_thread 256 zero_kstate) a = (if a = 256 then zero_thread\<lparr>runqueue := Some 63\<rparr> else zero_thread)"
    using queue_thread_wf(2) [OF zero_kstate_sched_wf _ z] by (simp add: zero_kstate_def)
qed

text \<open>
  C13: a context switch in which some thread is ready and the current thread wants to go on is a
  step of round robin within the highest non-empty priority: the first ready thread of that
  queue becomes the current one and the processor gets its saved registers; the preempted thread
  keeps the interrupted registers and goes to the end of queue 63; all run queues stay well formed.
\<close>

theorem try_context_switch_round_robin:
  assumes "sched_wf s q" and "pending_context_switch s" and "q i = t # ts" and "i < 64"
    and "\<forall>j. i < j \<and> j < 64 \<longrightarrow> q j = []"
    and "current_thread s = c" and "c \<noteq> NULL" and "runqueue (threads s c) = None"
    and "exec_mode (threads s c) = EXEC_MODE_RUNNING"
  shows "\<exists>s'. try_context_switch idle regs s = (s', registers (threads s t))
    \<and> current_thread s' = t \<and> \<not> pending_context_switch s'
    \<and> registers (threads s' c) = regs
    \<and> sched_wf s' (let q' = q(i := ts) in q'(63 := q' 63 @ [c]))"
proof -
  let ?s1 = "s\<lparr>pending_context_switch := False\<rparr>" and ?q' = "q(i := ts)"
  have wf1: "sched_wf ?s1 q" using assms(1) by (rule sched_wf_cong) simp_all
  have above: "i < j \<Longrightarrow> j < 64 \<Longrightarrow> q j = []" for j using assms(5) by blast
  obtain s2 n where s2: "pop_next_thread 64 ?s1 = (s2, n)" by fastforce
  note pop = pop_next_thread_wf [OF wf1 assms(4,3) above, unfolded s2 fst_conv snd_conv]
  have "t \<in> set (q i)" using assms(3) by simp
  then have t: "t \<noteq> NULL" "runqueue (threads s t) = Some i" using assms(1) by (auto simp: sched_wf_def)
  have ct: "c \<noteq> t" using t assms(8) by auto
  define save where "save = upd_thread c (\<lambda>x. x\<lparr>registers := regs,
      thread_flags := thread_flags x AND NOT THREAD_CURRENTLY_RUNNING\<rparr>) s2"
  have wf_save: "sched_wf save ?q'" using pop(2) by (rule sched_wf_cong) (simp_all add: save_def)
  have c_save: "runqueue (threads save c) = None" using assms(8) pop(3) ct by (simp add: save_def)
  note qt = queue_thread_wf [OF wf_save assms(7) c_save]
  have pend: "\<not> pending_context_switch s2"
    using pending_unchanged(2) [of 64 ?s1] by (simp add: s2)
  have mode: "exec_mode (threads s2 c) = EXEC_MODE_RUNNING" using assms(9) pop(3) ct by simp
  have cur: "current_thread s2 = c" using pop(4) assms(6) by simp
  have "save_current_thread regs t s2 = (queue_thread c save, False)"
    using cur assms(7) mode t(1) by (simp add: save_current_thread_def save_def)
  then have eq: "try_context_switch idle regs s =
      (upd_thread t (\<lambda>x. x\<lparr>thread_flags := thread_flags x OR THREAD_CURRENTLY_RUNNING\<rparr>)
         ((queue_thread c save)\<lparr>current_thread := t\<rparr>), registers (threads (queue_thread c save) t))"
    using assms(2) s2 pop(1) t(1) by (simp add: try_context_switch_def NUM_PRIORITIES_def)
  have "registers (threads (queue_thread c save) t) = registers (threads s t)"
    using qt(2) pop(3) ct by (simp add: save_def)
  moreover have "registers (threads (queue_thread c save) c) = regs" using qt(2) by (simp add: save_def)
  moreover have "sched_wf (upd_thread t (\<lambda>x. x\<lparr>thread_flags := thread_flags x OR THREAD_CURRENTLY_RUNNING\<rparr>)
         ((queue_thread c save)\<lparr>current_thread := t\<rparr>)) (?q'(63 := ?q' 63 @ [c]))"
    by (rule sched_wf_cong [OF qt(1)]) simp_all
  moreover have "\<not> pending_context_switch (queue_thread c save)" using pend by (simp add: save_def)
  ultimately show ?thesis unfolding eq using ct by (simp add: Let_def)
qed

theorem try_context_switch_round_robin_witness:
  "\<exists>s'. try_context_switch 0 (zero_registers\<lparr>program_counter := 7\<rparr>)
      ((queue_thread 256 zero_kstate)\<lparr>current_thread := 512, pending_context_switch := True\<rparr>) = (s', zero_registers)
    \<and> current_thread s' = 256 \<and> sched_wf s' ((\<lambda>_. [])(63 := [512]))"
proof -
  let ?s = "(queue_thread 256 zero_kstate)\<lparr>current_thread := 512, pending_context_switch := True\<rparr>"
  have wf: "sched_wf ?s ((\<lambda>_. [])(63 := [256]))" by (rule sched_wf_cong [OF demo_queue(1)]) simp_all
  from try_context_switch_round_robin [OF wf, of 63 256 "[]" 512 0 "zero_registers\<lparr>program_counter := 7\<rparr>"]
  show ?thesis by (auto simp: demo_queue(2) zero_thread_def kernel_consts fun_upd_def cong: if_cong)
qed

text \<open>
  A context switch with no ready thread never changes a run queue. A current thread that
  may run is left running with its registers; otherwise its registers are saved, no thread is
  current afterwards, and the processor continues in the idle loop.
\<close>

lemma try_context_switch_nothing_ready:
  assumes "sched_wf s q" and "pending_context_switch s" and "\<forall>j < 64. q j = []"
  shows "\<exists>s' regs'. try_context_switch idle regs s = (s', regs') \<and> sched_wf s' q
    \<and> (if current_thread s \<noteq> NULL \<and> exec_mode (threads s (current_thread s)) = EXEC_MODE_RUNNING
       then current_thread s' = current_thread s \<and> regs' = regs \<and> threads s' = threads s
       else current_thread s' = NULL \<and> regs' = regs\<lparr>program_counter := idle\<rparr>
         \<and> (current_thread s \<noteq> NULL \<longrightarrow> registers (threads s' (current_thread s)) = regs))"
proof -
  let ?s1 = "s\<lparr>pending_context_switch := False\<rparr>"
  have wf1: "sched_wf ?s1 q" using assms(1) by (rule sched_wf_cong) simp_all
  have "pop_next_thread NUM_PRIORITIES ?s1 = (?s1, NULL)"
    using assms(3) by (intro pop_next_thread_none [OF wf1]) (simp add: NUM_PRIORITIES_def)
  moreover have "sched_wf (?s1\<lparr>threads := ths, current_thread := x\<rparr>) q"
    if "\<And>a. runqueue (ths a) = runqueue (threads s a)" for ths x
    using wf1 by (rule sched_wf_cong) (simp_all add: that)
  ultimately show ?thesis using wf1 assms(2)
    by (auto simp: try_context_switch_def save_current_thread_def Let_def upd_thread_def split: if_splits)
qed

text \<open>The queue a suspended thread is taken from, when the head of the queue has no predecessor.\<close>

lemma suspend_thread_wf:
  assumes wf: "sched_wf s q" and rq: "runqueue (threads s t) = Some i" and t: "t \<noteq> NULL"
    and fr: "fresh s q" and mode: "new_mode \<noteq> 0"
  shows "sched_wf (suspend_thread t new_mode s) (q(i := remove1 t (q i)))"
    and "runqueue (threads (suspend_thread t new_mode s) t) = None"
proof -
  have "t \<in> set (q i)" using wf rq t by (simp add: sched_wf_def)
  then obtain ys zs where q: "q i = ys @ t # zs" "t \<notin> set ys" by (meson split_list_first)
  obtain p where p: "list_rep p (priority_queues s i) (runqueue_entry s) (ys @ t # zs)"
    using sched_wf_rep [OF wf, of i] q(1) by metis
  have hd: "lnk_prev (runqueue_entry s (hd_or NULL (q i))) = p" using p q by (cases ys) (auto simp: list_rep_def)
  moreover have "lnk_prev (runqueue_entry s (hd_or NULL (q i))) = NULL"
    using fr q(1) unfolding fresh_def by (metis append_is_Nil_conv list.distinct(1))
  ultimately have pn: "ys = [] \<Longrightarrow> p = NULL" by metis
  obtain c m where a: "LIST_REMOVE (priority_queues s i) (runqueue_entry s) t = (c, m)" by fastforce
  have rm: "list_rep p c m (ys @ zs)" "\<And>a. a \<notin> set (ys @ zs) \<Longrightarrow> m a = runqueue_entry s a"
    using LIST_REMOVE_rep [OF p _ a] pn by blast+
  let ?x = "(threads s t)\<lparr>exec_mode := exec_mode (threads s t) OR new_mode, runqueue := None\<rparr>"
  have "exec_mode (threads s t) OR new_mode \<noteq> 0" using mode by (simp add: or_eq_0_iff)
  then have eq: "suspend_thread t new_mode s = (if current_thread s = t then s\<lparr>pending_context_switch := True\<rparr> else s)
      \<lparr>priority_queues := (priority_queues s)(i := c), runqueue_entry := m, threads := (threads s)(t := ?x)\<rparr>"
    using rq a by (auto simp: suspend_thread_def remove_from_queue_def upd_thread_def Let_def EXEC_MODE_RUNNING_def)
  have rem: "remove1 t (q i) = ys @ zs" using q by (simp add: remove1_append)
  have "sched_wf (s\<lparr>priority_queues := (priority_queues s)(i := c), runqueue_entry := m, threads := (threads s)(t := ?x)\<rparr>)
      (q(i := ys @ zs))"
  proof (rule sched_wf_update [OF wf rm(1)])
    fix j a assume "j \<noteq> i" "a \<in> set (q j)"
    then have "a \<notin> set (ys @ zs)" using sched_wf_disjoint [OF wf, of a j i] q(1) by auto
    then show "m a = runqueue_entry s a" by (rule rm(2))
  next
    fix a
    have "a \<in> set (ys @ t # zs) \<longleftrightarrow> a \<noteq> NULL \<and> runqueue (threads s a) = Some i"
      using wf q(1) unfolding sched_wf_def by metis
    moreover have "t \<notin> set (ys @ zs)" using p by (auto simp: list_rep_def)
    ultimately show "a \<in> set (ys @ zs) \<longleftrightarrow> a \<noteq> NULL \<and> runqueue (((threads s)(t := ?x)) a) = Some i" by auto
  qed (use rq in auto)
  then show "sched_wf (suspend_thread t new_mode s) (q(i := remove1 t (q i)))"
    unfolding rem by (rule sched_wf_cong) (simp_all add: eq)
  show "runqueue (threads (suspend_thread t new_mode s) t) = None" by (simp add: eq)
qed

text \<open>
  Suspending a ready thread takes exactly that thread out of its run queue, as long as
  no queue's first thread has a predecessor.
\<close>

lemma suspend_thread_dequeues:
  assumes "sched_wf s q" and "fresh s q" and "t \<in> set (q i)" and "mode \<noteq> 0"
  shows "sched_wf (suspend_thread t mode s) (q(i := remove1 t (q i)))
    \<and> exec_mode (threads (suspend_thread t mode s) t) = exec_mode (threads s t) OR mode"
proof -
  have "runqueue (threads s t) = Some i" "t \<noteq> NULL" using assms(1,3) by (auto simp: sched_wf_def)
  moreover have "exec_mode (threads (suspend_thread t mode s) t) = exec_mode (threads s t) OR mode"
    by (auto simp: suspend_thread_def Let_def remove_from_queue_def split_beta split: option.splits)
  ultimately show ?thesis using suspend_thread_wf(1) [OF assms(1) _ _ assms(2,4)] by blast
qed

lemmas pop_next_thread_64 = pop_next_thread.simps(2) [of 63, simplified]

lemma pop_next_thread_link:
  assumes wf: "sched_wf s q" and q: "q 63 = x # y # ts"
  shows "lc_start (priority_queues (fst (pop_next_thread 64 s)) 63) = y"
    and "lnk_prev (runqueue_entry (fst (pop_next_thread 64 s)) y) = x"
proof -
  obtain p where p: "list_rep p (priority_queues s 63) (runqueue_entry s) (x # y # ts)"
    using sched_wf_rep [OF wf, of 63] q by metis
  obtain c m v where a: "LIST_POP_FROM_START (priority_queues s 63) (runqueue_entry s) NULL = (c, m, v)"
    by (metis prod_cases3)
  note pop = LIST_POP_FROM_START_rep [OF p a]
  have start: "lc_start (priority_queues s 63) \<noteq> NULL" using list_rep_start [OF p] by simp
  have eq: "pop_next_thread 64 s = (upd_thread v (\<lambda>x. x\<lparr>runqueue := None\<rparr>)
      (s\<lparr>priority_queues := (priority_queues s)(63 := c), runqueue_entry := m\<rparr>), v)"
    using start a by (auto simp: pop_next_thread_64)
  show "lc_start (priority_queues (fst (pop_next_thread 64 s)) 63) = y"
    "lnk_prev (runqueue_entry (fst (pop_next_thread 64 s)) y) = x"
    using pop(2) by (simp_all add: eq list_rep_def)
qed

text \<open>
  C40: after the scheduler has taken a thread off a queue, suspending the thread that is now
  first in the queue marks it as suspended but leaves it in the queue: the next search for a thread to
  run returns the suspended thread.
\<close>

theorem suspended_thread_is_still_scheduled:
  assumes "sched_wf s q" and "q 63 = x # y # ts" and "mode \<noteq> 0"
  shows "snd (pop_next_thread 64 (suspend_thread y mode (fst (pop_next_thread 64 s)))) = y
    \<and> exec_mode (threads (suspend_thread y mode (fst (pop_next_thread 64 s))) y) \<noteq> EXEC_MODE_RUNNING"
proof -
  define s1 where "s1 = fst (pop_next_thread 64 s)"
  note link = pop_next_thread_link [OF assms(1,2), folded s1_def]
  have pop: "sched_wf s1 (q(63 := y # ts))"
    using pop_next_thread_wf(2) [OF assms(1) _ assms(2), of 64] by (simp add: s1_def)
  have xy: "x \<noteq> NULL" "y \<noteq> NULL" using sched_wf_nonnull [OF assms(1), of _ 63] assms(2) by auto
  have "y \<in> set ((q(63 := y # ts)) 63)" by simp
  then have rq: "runqueue (threads s1 y) = Some 63" using pop unfolding sched_wf_def by blast
  have "exec_mode (threads s1 y) OR mode \<noteq> 0" using assms(3) by (simp add: or_eq_0_iff)
  then have s2: "lc_start (priority_queues (suspend_thread y mode s1) 63) = y"
    "exec_mode (threads (suspend_thread y mode s1) y) \<noteq> EXEC_MODE_RUNNING"
    using rq link xy
    by (auto simp: suspend_thread_def remove_from_queue_def LIST_REMOVE_def EXEC_MODE_RUNNING_def Let_def split: if_splits)
  have "snd (pop_next_thread 64 (suspend_thread y mode s1)) = y"
    using s2(1) xy by (simp add: pop_next_thread_64 LIST_POP_FROM_START_def Let_def)
  then show ?thesis using s2(2) by (simp add: s1_def)
qed

theorem suspended_thread_is_still_scheduled_witness:
  "snd (pop_next_thread 64 (suspend_thread 512 EXEC_MODE_SUSPENDED
     (fst (pop_next_thread 64 (queue_thread 512 (queue_thread 256 zero_kstate)))))) = 512"
proof -
  have "sched_wf (queue_thread 512 (queue_thread 256 zero_kstate)) ((\<lambda>_. [])(63 := [256, 512]))"
    using queue_thread_wf(1) [OF demo_queue(1), of 512] by (simp add: demo_queue(2) zero_thread_def)
  from suspended_thread_is_still_scheduled [OF this, of 256 512 "[]" EXEC_MODE_SUSPENDED]
  show ?thesis by (simp add: kernel_consts)
qed

end
