(* ===== verification/Heap_Layout.thy ===== *)
theory Heap_Layout
  imports Kernel_Heap
begin

unbundle bit_operations_syntax

text \<open>
  The invariant of the kernel heap and what the header operations do to it. The blocks of a
  well-formed heap are linked in both directions, lie next to one another in memory without
  overlap, and the bytes in available blocks are exactly what the heap's counters call free.
\<close>

section \<open>Sizes and kinds\<close>

definition bsize :: "'x heap_state_scheme \<Rightarrow> addr \<Rightarrow> nat" where
  "bsize s h = unat (hh_size (hdrs s h))"

definition available :: "'x heap_state_scheme \<Rightarrow> addr \<Rightarrow> bool" where
  "available s h \<longleftrightarrow> GET_KIND (hdrs s h) = KIND_AVAILABLE"

definition bytes :: "'x heap_state_scheme \<Rightarrow> addr list \<Rightarrow> nat" where
  "bytes s hs = sum_list (map (bsize s) hs)"

definition free_bytes :: "'x heap_state_scheme \<Rightarrow> addr list \<Rightarrow> nat" where
  "free_bytes s hs = bytes s (filter (available s) hs)"

lemma bytes_simps [simp]:
  "bytes s [] = 0" "bytes s (h # hs) = bsize s h + bytes s hs"
  "bytes s (hs @ ks) = bytes s hs + bytes s ks"
  by (simp_all add: bytes_def)

lemma free_bytes_simps [simp]:
  "free_bytes s [] = 0"
  "free_bytes s (h # hs) = (if available s h then bsize s h else 0) + free_bytes s hs"
  "free_bytes s (hs @ ks) = free_bytes s hs + free_bytes s ks"
  by (simp_all add: free_bytes_def)

lemma free_bytes_all: "(\<And>h. h \<in> set hs \<Longrightarrow> available s h) \<Longrightarrow> free_bytes s hs = bytes s hs"
  by (induction hs) auto

lemma bytes_cong: "(\<And>h. h \<in> set hs \<Longrightarrow> bsize s' h = bsize s h) \<Longrightarrow> bytes s' hs = bytes s hs"
  by (induction hs) auto

lemma free_bytes_cong:
  "(\<And>h. h \<in> set hs \<Longrightarrow> bsize s' h = bsize s h \<and> available s' h = available s h) \<Longrightarrow>
   free_bytes s' hs = free_bytes s hs"
  by (induction hs) auto

section \<open>Contiguous blocks\<close>

fun blocks :: "'x heap_state_scheme \<Rightarrow> nat \<Rightarrow> addr list \<Rightarrow> nat \<Rightarrow> bool" where
  "blocks s lo [] hi \<longleftrightarrow> lo = hi"
| "blocks s lo (h # hs) hi \<longleftrightarrow>
     unat h = lo \<and> 26 \<le> bsize s h \<and> blocks s (lo + bsize s h) hs hi"

lemma blocks_append [simp]:
  "blocks s lo (xs @ ys) hi \<longleftrightarrow> blocks s lo xs (lo + bytes s xs) \<and> blocks s (lo + bytes s xs) ys hi"
  by (induction xs arbitrary: lo) (auto simp: add.assoc)

lemma blocks_end: "blocks s lo hs hi \<Longrightarrow> hi = lo + bytes s hs"
  by (induction hs arbitrary: lo) fastforce+

lemma blocks_bounds:
  "blocks s lo hs hi \<Longrightarrow> h \<in> set hs \<Longrightarrow> lo \<le> unat h \<and> unat h + bsize s h \<le> hi \<and> 26 \<le> bsize s h"
proof (induction hs arbitrary: lo)
  case Nil
  then show ?case by simp
next
  case (Cons k hs)
  from Cons.prems(1) have "blocks s (lo + bsize s k) hs hi" by simp
  with Cons.IH Cons.prems blocks_end [OF this] show ?case by fastforce
qed

lemma blocks_distinct: "blocks s lo hs hi \<Longrightarrow> distinct hs"
proof (induction hs arbitrary: lo)
  case Nil
  show ?case by simp
next
  case (Cons h hs)
  then have b: "blocks s (lo + bsize s h) hs hi" "unat h = lo" "26 \<le> bsize s h" by auto
  then have "h \<notin> set hs" using blocks_bounds [OF b(1)] by force
  with Cons.IH [OF b(1)] show ?case by simp
qed

lemma blocks_cong:
  "(\<And>h. h \<in> set hs \<Longrightarrow> bsize s' h = bsize s h) \<Longrightarrow> blocks s' lo hs hi = blocks s lo hs hi"
  by (induction hs arbitrary: lo) auto

text \<open>No header lies strictly inside a block.\<close>

lemma blocks_no_inner:
  assumes "blocks s lo (ys @ h # zs) hi" and "k \<in> set (ys @ h # zs)"
    and "unat h < n" and "n < unat h + bsize s h"
  shows "unat k \<noteq> n"
proof -
  from assms(1) have b: "blocks s lo ys (unat h)" "blocks s (unat h + bsize s h) zs hi" by auto
  from assms(2) consider "k \<in> set ys" | "k = h" | "k \<in> set zs" by auto
  then show ?thesis
  proof cases
    case 1
    then show ?thesis using blocks_bounds [OF b(1)] assms(3) by fastforce
  next
    case 2
    then show ?thesis using assms(3) by simp
  next
    case 3
    then show ?thesis using blocks_bounds [OF b(2)] assms(4) by fastforce
  qed
qed

section \<open>The invariant\<close>

abbreviation prev_of :: "'x heap_state_scheme \<Rightarrow> addr \<Rightarrow> addr" where
  "prev_of s \<equiv> \<lambda>a. hh_prev (hdrs s a)"

abbreviation next_of :: "'x heap_state_scheme \<Rightarrow> addr \<Rightarrow> addr" where
  "next_of s \<equiv> \<lambda>a. hh_next (hdrs s a)"

definition heap_linked :: "'x heap_state_scheme \<Rightarrow> addr list \<Rightarrow> bool" where
  "heap_linked s hs \<longleftrightarrow>
     hs \<noteq> [] \<and> heap_base (hp s) = hd_or NULL hs \<and>
     dseg (prev_of s) (next_of s) NULL hs NULL \<and>
     (\<exists>hi < 2 ^ 32. blocks s (unat (hd_or NULL hs)) hs hi)"

definition heap_wf :: "'x heap_state_scheme \<Rightarrow> addr list \<Rightarrow> bool" where
  "heap_wf s hs \<longleftrightarrow> heap_linked s hs \<and> bytes s hs \<le> unat (total_memory (hp s)) \<and>
     unat (total_memory (hp s)) = unat (used_memory (hp s)) + free_bytes s hs"

lemma heap_wf_distinct: "heap_wf s hs \<Longrightarrow> distinct hs"
  by (auto simp: heap_wf_def heap_linked_def dest: blocks_distinct)

lemma heap_wf_nonnull: "heap_wf s hs \<Longrightarrow> NULL \<notin> set hs"
  by (auto simp: heap_wf_def heap_linked_def dest: dseg_nonnull)

lemma heap_wf_base: "heap_wf s hs \<Longrightarrow> heap_base (hp s) \<in> set hs"
  by (auto simp: heap_wf_def heap_linked_def hd_or_in_set)

lemma heap_wf_bytes: "heap_wf s hs \<Longrightarrow> unat (hd_or NULL hs) + bytes s hs < 2 ^ 32"
  by (auto simp: heap_wf_def heap_linked_def dest: blocks_end)

lemma heap_wf_bsize: "heap_wf s hs \<Longrightarrow> h \<in> set hs \<Longrightarrow> 26 \<le> bsize s h"
  by (auto simp: heap_wf_def heap_linked_def dest: blocks_bounds)

lemma bytes_filter_le: "bytes s (filter P hs) \<le> bytes s hs"
  by (induction hs) auto

lemma bsize_le_bytes: "h \<in> set hs \<Longrightarrow> bsize s h \<le> bytes s hs"
  by (induction hs) auto

lemma free_bytes_le: "free_bytes s hs \<le> bytes s hs"
  by (simp add: free_bytes_def bytes_filter_le)

section \<open>Record updates\<close>

lemma hdrs_upd_hdr [simp]: "hdrs (upd_hdr h f s) a = (if a = h then f (hdrs s h) else hdrs s a)"
  by (simp add: upd_hdr_def)

lemma hp_upd_hdr [simp]: "hp (upd_hdr h f s) = hp s"
  by (simp add: upd_hdr_def)

lemma hdrs_upd_used [simp]: "hdrs (upd_used f s) = hdrs s"
  by (simp add: upd_used_def)

lemma hp_upd_used [simp]:
  "heap_base (hp (upd_used f s)) = heap_base (hp s)"
  "total_memory (hp (upd_used f s)) = total_memory (hp s)"
  "used_memory (hp (upd_used f s)) = f (used_memory (hp s))"
  by (simp_all add: upd_used_def)

lemma layout_upd_used [simp]:
  "bsize (upd_used f s) = bsize s" "available (upd_used f s) = available s"
  "bytes (upd_used f s) = bytes s" "free_bytes (upd_used f s) = free_bytes s"
proof -
  show b: "bsize (upd_used f s) = bsize s" and a: "available (upd_used f s) = available s"
    by (simp_all add: bsize_def available_def fun_eq_iff)
  show "bytes (upd_used f s) = bytes s" "free_bytes (upd_used f s) = free_bytes s"
    by (simp_all add: bytes_def free_bytes_def fun_eq_iff a b)
qed

lemma blocks_upd_used [simp]: "blocks (upd_used f s) lo hs hi = blocks s lo hs hi"
  by (rule blocks_cong) simp

lemma kind_of_flags [simp]:
  "hh_flags h = KIND_AVAILABLE \<Longrightarrow> GET_KIND h = KIND_AVAILABLE"
  "hh_flags h = KIND_IMMOVABLE \<Longrightarrow> GET_KIND h = KIND_IMMOVABLE"
  by (simp_all add: GET_KIND_def heap_consts)

lemma kinds_distinct [simp]:
  "KIND_AVAILABLE \<noteq> KIND_IMMOVABLE" "KIND_IMMOVABLE \<noteq> KIND_AVAILABLE"
  "KIND_AVAILABLE \<noteq> KIND_MOVABLE" "KIND_MOVABLE \<noteq> KIND_AVAILABLE"
  "KIND_IMMOVABLE \<noteq> KIND_MOVABLE" "KIND_MOVABLE \<noteq> KIND_IMMOVABLE"
  by (simp_all add: heap_consts)

section \<open>Splitting a header\<close>

lemma unat_inner:
  assumes "unat h + n < 2 ^ 32" and "unat at \<le> n"
  shows "unat (h + at) = unat h + unat (at :: addr)"
  using assms by (intro unat_plus_no_wrap) simp

lemma split_header_hdrs:
  assumes lk: "heap_linked s (ys @ h # zs)" and at: "26 < unat at" "unat at + 26 < bsize s h"
  shows "snd (split_header h at s)"
    and "hp (fst (split_header h at s)) = hp s"
    and "hdrs (fst (split_header h at s)) a =
      (if a = h then (hdrs s h)\<lparr>hh_size := at, hh_next := h + at\<rparr>
       else if a = h + at then (hdrs s a)\<lparr>hh_size := hh_size (hdrs s h) - at,
          hh_flags := KIND_AVAILABLE, hh_next := hd_or NULL zs, hh_prev := h\<rparr>
       else if zs \<noteq> [] \<and> a = hd_or NULL zs then (hdrs s a)\<lparr>hh_prev := h + at\<rparr>
       else hdrs s a)"
proof -
  from lk obtain hi where b: "blocks s (unat (hd_or h ys)) (ys @ h # zs) hi" "hi < 2 ^ 32"
    and seg: "dseg (prev_of s) (next_of s) NULL (ys @ h # zs) NULL"
    by (auto simp: heap_linked_def)
  have "unat h + bsize s h < 2 ^ 32" using blocks_bounds [OF b(1), of h] b(2) by simp
  then have uh: "unat (h + at) = unat h + unat at" using at by (intro unat_inner) auto
  have no: "unat k \<noteq> unat h + unat at" if "k \<in> set (ys @ h # zs)" for k
    using blocks_no_inner [OF b(1) that] at by simp
  have new: "h + at \<noteq> h" "zs \<noteq> [] \<Longrightarrow> hd_or NULL zs \<noteq> h + at"
    "zs \<noteq> [] \<Longrightarrow> hd_or NULL zs \<noteq> NULL" "zs \<noteq> [] \<Longrightarrow> hd_or NULL zs \<noteq> h"
    using no [of h] no [of "hd_or NULL zs"] uh hd_or_in_set [of zs NULL] dseg_nonnull [OF seg]
      blocks_distinct [OF b(1)] by auto
  have nx: "hh_next (hdrs s h) = hd_or NULL zs" using seg by simp
  have big: "\<not> hh_size (hdrs s h) - sizeof_heap_header \<le> at" "\<not> at \<le> sizeof_heap_header"
    using at by (auto simp: word_le_nat_alt unat_sub bsize_def heap_consts)
  show "snd (split_header h at s)" "hp (fst (split_header h at s)) = hp s"
    using big by (simp_all add: split_header_def Let_def)
  show "hdrs (fst (split_header h at s)) a =
      (if a = h then (hdrs s h)\<lparr>hh_size := at, hh_next := h + at\<rparr>
       else if a = h + at then (hdrs s a)\<lparr>hh_size := hh_size (hdrs s h) - at,
          hh_flags := KIND_AVAILABLE, hh_next := hd_or NULL zs, hh_prev := h\<rparr>
       else if zs \<noteq> [] \<and> a = hd_or NULL zs then (hdrs s a)\<lparr>hh_prev := h + at\<rparr>
       else hdrs s a)"
    using big new nx by (cases "zs = []") (auto simp: split_header_def Let_def)
qed

lemma split_header_linked:
  assumes lk: "heap_linked s (ys @ h # zs)" and at: "26 < unat at" "unat at + 26 < bsize s h"
  defines "s' \<equiv> fst (split_header h at s)"
  shows "heap_linked s' (ys @ h # (h + at) # zs)"
    and "bsize s' h = unat at" "bsize s' (h + at) = bsize s h - unat at"
    and "available s' (h + at)" "available s' h = available s h"
    and "\<And>k. k \<in> set ys \<union> set zs \<Longrightarrow> bsize s' k = bsize s k \<and> GET_KIND (hdrs s' k) = GET_KIND (hdrs s k)"
proof -
  note hd = split_header_hdrs(3) [OF lk at, folded s'_def]
  from lk obtain hi where b: "blocks s (unat (hd_or h ys)) (ys @ h # zs) hi" "hi < 2 ^ 32"
    and seg: "dseg (prev_of s) (next_of s) NULL (ys @ h # zs) NULL"
    and base: "heap_base (hp s) = hd_or h ys"
    by (auto simp: heap_linked_def)
  have "unat h + bsize s h < 2 ^ 32" using blocks_bounds [OF b(1), of h] b(2) by simp
  then have uh: "unat (h + at) = unat h + unat at" using at by (intro unat_inner) auto
  have no: "k \<noteq> h + at" if "k \<in> set (ys @ h # zs)" for k
    using blocks_no_inner [OF b(1) that, of "unat (h + at)"] at uh by auto
  have dis: "h \<notin> set ys" "h \<notin> set zs" "set ys \<inter> set zs = {}" "distinct zs" "distinct ys"
    using blocks_distinct [OF b(1)] by auto
  show sz: "bsize s' h = unat at" "bsize s' (h + at) = bsize s h - unat at"
    and "available s' (h + at)" "available s' h = available s h"
    using no [of h] at by (auto simp: bsize_def available_def hd GET_KIND_def heap_consts unat_sub word_le_nat_alt)
  show other: "bsize s' k = bsize s k \<and> GET_KIND (hdrs s' k) = GET_KIND (hdrs s k)"
    if "k \<in> set ys \<union> set zs" for k
    using that no [of k] dis by (auto simp: bsize_def hd GET_KIND_def)
  have "bytes s' ys = bytes s ys" using other by (intro bytes_cong) auto
  then have "blocks s' (unat (hd_or h ys)) (ys @ h # (h + at) # zs) hi"
    using b sz uh at other blocks_cong [of ys s' s] blocks_cong [of zs s' s]
    by (auto simp: add.assoc)
  moreover have "dseg (prev_of s') (next_of s') NULL ys h"
  proof -
    have "a \<noteq> hd_or NULL zs" if "a \<in> set ys" "zs \<noteq> []" for a
      using that dis(3) hd_or_in_set [of zs NULL] by auto
    then show ?thesis using seg no dis(1)
      by (subst dseg_cong [of _ _ "prev_of s" _ "next_of s"]) (auto simp: hd)
  qed
  moreover have "dseg (prev_of s') (next_of s') (h + at) zs NULL"
  proof -
    have segz: "dseg (prev_of s) (next_of s) h zs NULL" using seg by simp
    then show ?thesis using dis(4)
    proof (rule dseg_relink)
      fix a assume a: "a \<in> set zs"
      then have ne: "zs \<noteq> []" "a \<noteq> h" "a \<noteq> h + at" using dis(2) no [of a] by auto
      then have "hd_or h zs = hd_or NULL zs" by (cases zs) auto
      with ne show "prev_of s' a = (if a = hd_or h zs then h + at else prev_of s a)"
        by (simp add: hd)
      show "next_of s' a = (if a = last_or NULL zs then NULL else next_of s a)"
        using ne nx_last_or [OF segz ne(1), of NULL] by (simp add: hd)
    qed
  qed
  moreover have "h + at \<noteq> NULL" using uh at by auto
  moreover have "prev_of s' h = last_or NULL ys" "next_of s' h = h + at" "h \<noteq> NULL"
    "prev_of s' (h + at) = h" "next_of s' (h + at) = hd_or NULL zs"
    using seg no [of h] by (auto simp: hd)
  ultimately show "heap_linked s' (ys @ h # (h + at) # zs)"
    using b(2) base split_header_hdrs(2) [OF lk at, folded s'_def]
    by (auto simp: heap_linked_def)
qed

end
