(* ===== verification/Heap_Alloc.thy ===== *)
theory Heap_Alloc
  imports Heap_Layout
begin

text \<open>
  Correctness of \<open>heap_alloc\<close> on heaps without movable blocks: the search is first fit over
  runs of adjacent available blocks, it ends, it finds a run whenever there is one, and the
  block made of the run keeps the heap well formed.
\<close>

section \<open>Merging a run of blocks\<close>

lemma merge_blocks_hdrs:
  assumes lk: "heap_linked s (ys @ zs @ ws)" and zs: "zs \<noteq> []" "st = hd_or NULL zs" "en = last_or NULL zs"
  shows "hp (merge_blocks st en s) = hp s"
    and "hdrs (merge_blocks st en s) a =
      (if a = st then (hdrs s st)\<lparr>hh_size := (en + hh_size (hdrs s en)) - st,
          hh_flags := KIND_IMMOVABLE, hh_next := hd_or NULL ws, hh_update_ref := Absolute_ptr NULL\<rparr>
       else if ws \<noteq> [] \<and> a = hd_or NULL ws then (hdrs s a)\<lparr>hh_prev := st\<rparr>
       else hdrs s a)"
proof -
  from lk have seg: "dseg (prev_of s) (next_of s) (last_or NULL ys) zs (hd_or NULL ws)"
    "dseg (prev_of s) (next_of s) (last_or (last_or NULL ys) zs) ws NULL"
    by (auto simp: heap_linked_def)
  from lk have dis: "distinct (ys @ zs @ ws)"
    unfolding heap_linked_def using blocks_distinct by blast
  have nx: "hh_next (hdrs s en) = hd_or NULL ws" using nx_last_or [OF seg(1) zs(1)] zs(3) by simp
  have "st \<in> set zs" using zs hd_or_in_set by metis
  then have ws: "ws \<noteq> [] \<Longrightarrow> hd_or NULL ws \<noteq> NULL \<and> hd_or NULL ws \<noteq> st"
    using dis hd_or_in_set [of ws NULL] dseg_nonnull [OF seg(2)] by auto
  show "hp (merge_blocks st en s) = hp s" by (simp add: merge_blocks_def Let_def)
  show "hdrs (merge_blocks st en s) a =
      (if a = st then (hdrs s st)\<lparr>hh_size := (en + hh_size (hdrs s en)) - st,
          hh_flags := KIND_IMMOVABLE, hh_next := hd_or NULL ws, hh_update_ref := Absolute_ptr NULL\<rparr>
       else if ws \<noteq> [] \<and> a = hd_or NULL ws then (hdrs s a)\<lparr>hh_prev := st\<rparr>
       else hdrs s a)"
    using nx ws by (cases "ws = []") (auto simp: merge_blocks_def Let_def)
qed

lemma merge_blocks_linked:
  assumes lk: "heap_linked s (ys @ zs @ ws)" and zs: "zs \<noteq> []" "st = hd_or NULL zs" "en = last_or NULL zs"
  defines "s' \<equiv> merge_blocks st en s"
  shows "heap_linked s' (ys @ st # ws)" and "bsize s' st = bytes s zs"
    and "GET_KIND (hdrs s' st) = KIND_IMMOVABLE"
    and "\<And>k. k \<in> set ys \<union> set ws \<Longrightarrow> bsize s' k = bsize s k \<and> GET_KIND (hdrs s' k) = GET_KIND (hdrs s k)"
proof -
  note hd = merge_blocks_hdrs(2) [OF lk zs, folded s'_def]
  from lk obtain hi where b: "blocks s (unat (hd_or st ys)) (ys @ zs @ ws) hi" "hi < 2 ^ 32"
    and seg: "dseg (prev_of s) (next_of s) NULL (ys @ zs @ ws) NULL"
    and base: "heap_base (hp s) = hd_or st ys"
    using zs by (cases zs) (auto simp: heap_linked_def)
  have st: "st \<in> set zs" using zs hd_or_in_set by metis
  have en: "en \<in> set zs" using zs last_or_in_set by metis
  have dis: "st \<notin> set ys" "st \<notin> set ws" "set ys \<inter> set ws = {}" "distinct ws" "distinct ys"
    using blocks_distinct [OF b(1)] st by auto
  obtain zs' where zs': "zs = zs' @ [en]" using zs by (metis last_or_def append_butlast_last_id)
  have ust: "unat st = unat (hd_or st ys) + bytes s ys" using b zs by (cases zs) auto
  have uen: "unat en = unat st + bytes s zs'" using b zs' ust by auto
  have le: "unat en + bsize s en < 2 ^ 32" using blocks_bounds [OF b(1), of en] b(2) en by simp
  have "unat (en + hh_size (hdrs s en)) = unat en + bsize s en"
    using le by (simp add: bsize_def unat_plus_no_wrap)
  moreover from this uen have "st \<le> en + hh_size (hdrs s en)" by (simp add: word_le_nat_alt)
  ultimately have "unat (en + hh_size (hdrs s en) - st) = bytes s zs"
    using uen by (simp add: unat_minus_no_wrap zs')
  then show sz: "bsize s' st = bytes s zs" by (simp add: bsize_def hd)
  show "GET_KIND (hdrs s' st) = KIND_IMMOVABLE" by (simp add: hd)
  show other: "bsize s' k = bsize s k \<and> GET_KIND (hdrs s' k) = GET_KIND (hdrs s k)"
    if "k \<in> set ys \<union> set ws" for k
    using that dis by (auto simp: bsize_def hd GET_KIND_def)
  have "bytes s' ys = bytes s ys" using other by (intro bytes_cong) auto
  moreover have "26 \<le> bytes s zs" using blocks_bounds [OF b(1), of st] st bsize_le_bytes [OF st, of s] by simp
  ultimately have "blocks s' (unat (hd_or st ys)) (ys @ st # ws) hi"
    using b sz ust other blocks_cong [of ys s' s] blocks_cong [of ws s' s]
    by (auto simp: add.assoc)
  moreover have "dseg (prev_of s') (next_of s') NULL ys st"
  proof -
    have "a \<noteq> hd_or NULL ws" if "a \<in> set ys" "ws \<noteq> []" for a
      using that dis(3) hd_or_in_set [of ws NULL] by auto
    moreover have "hd_or (hd_or NULL ws) zs = st" using zs by (cases zs) auto
    ultimately show ?thesis using seg dis(1)
      by (subst dseg_cong [of _ _ "prev_of s" _ "next_of s"]) (auto simp: hd)
  qed
  moreover have "dseg (prev_of s') (next_of s') st ws NULL"
  proof -
    have segw: "dseg (prev_of s) (next_of s) (last_or (last_or NULL ys) zs) ws NULL" using seg by simp
    then show ?thesis using dis(4)
    proof (rule dseg_relink)
      fix a assume a: "a \<in> set ws"
      then have ne: "ws \<noteq> []" "a \<noteq> st" using dis(2) by auto
      then have "hd_or (last_or (last_or NULL ys) zs) ws = hd_or NULL ws" by (cases ws) auto
      with ne show "prev_of s' a = (if a = hd_or (last_or (last_or NULL ys) zs) ws then st else prev_of s a)"
        by (simp add: hd)
      show "next_of s' a = (if a = last_or NULL ws then NULL else next_of s a)"
        using ne nx_last_or [OF segw ne(1), of NULL] by (simp add: hd)
    qed
  qed
  moreover have "prev_of s st = last_or NULL ys" using seg zs by (cases zs) auto
  moreover have "st \<noteq> NULL" using dseg_nonnull [OF seg] st by auto
  ultimately show "heap_linked s' (ys @ st # ws)"
    using b(2) base merge_blocks_hdrs(1) [OF lk zs, folded s'_def]
    by (auto simp: heap_linked_def hd)
qed

section \<open>The search is first fit over runs of available blocks\<close>

definition pinned :: "'x heap_state_scheme \<Rightarrow> addr \<Rightarrow> bool" where
  "pinned s h \<longleftrightarrow> GET_KIND (hdrs s h) = KIND_AVAILABLE \<or> GET_KIND (hdrs s h) = KIND_IMMOVABLE"

fun find_run :: "'x heap_state_scheme \<Rightarrow> nat \<Rightarrow> addr list \<Rightarrow> addr list \<Rightarrow> addr list option" where
  "find_run s n run [] = None"
| "find_run s n run (h # hs) =
     (if available s h
      then if n \<le> bytes s (run @ [h]) then Some (run @ [h]) else find_run s n (run @ [h]) hs
      else find_run s n [] hs)"

lemma find_run_sound:
  "find_run s n run hs = Some r \<Longrightarrow> list_all (available s) run \<Longrightarrow>
   \<exists>ys zs. run @ hs = ys @ r @ zs \<and> r \<noteq> [] \<and> list_all (available s) r \<and> n \<le> bytes s r
     \<and> (bytes s run < n \<or> run = [] \<longrightarrow> bytes s (butlast r) < n \<or> n = 0)"
proof (induction s n run hs rule: find_run.induct)
  case (1 s n run)
  then show ?case by simp
next
  case (2 s n run h hs)
  show ?case
  proof (cases "available s h")
    case True
    show ?thesis
    proof (cases "n \<le> bytes s (run @ [h])")
      case big: True
      with 2 True have r: "r = run @ [h]" by simp
      show ?thesis
        by (rule exI [of _ "[]"], rule exI [of _ hs]) (use 2 True big r in \<open>auto simp: not_less\<close>)
    next
      case False
      have "list_all (available s) (run @ [h])" using 2(4) True by simp
      from 2(1) [OF True False _ this] 2(3) True False show ?thesis by auto
    qed
  next
    case False
    from 2(2) [OF False] 2(3) False obtain ys zs where
      "hs = ys @ r @ zs" "r \<noteq> []" "list_all (available s) r" "n \<le> bytes s r"
      "bytes s (butlast r) < n \<or> n = 0" by auto
    then show ?thesis by (intro exI [of _ "run @ h # ys"] exI [of _ zs]) auto
  qed
qed

lemma bytes_sublist: "bytes s r \<le> bytes s (ys @ r @ zs)"
  by simp

lemma find_run_complete:
  assumes "find_run s n run hs = None" and "list_all (available s) run" and "bytes s run < n"
    and "run @ hs = ys @ r @ zs" and "list_all (available s) r"
  shows "bytes s r < n"
  using assms
proof (induction s n run hs arbitrary: ys rule: find_run.induct)
  case (1 s n run)
  then have "bytes s run = bytes s (ys @ r @ zs)" by simp
  with 1(3) show ?case by simp
next
  case (2 s n run h hs)
  show ?case
  proof (cases "available s h")
    case True
    with 2(3) have "\<not> n \<le> bytes s (run @ [h])" by (auto split: if_splits)
    with True 2 show ?thesis by (auto split: if_splits)
  next
    case False
    have "(\<exists>us. run = ys @ r @ us) \<or> (\<exists>us. ys = run @ h # us)"
    proof (rule ccontr)
      assume no: "\<not> ?thesis"
      from 2(6) have "(\<exists>us. run = (ys @ r) @ us \<and> us @ h # hs = zs)
          \<or> (\<exists>us. run @ us = ys @ r \<and> h # hs = us @ zs)"
        by (auto simp: append_eq_append_conv2)
      with no obtain us where us: "run @ us = ys @ r" "h # hs = us @ zs" by auto
      then have "us \<noteq> []" using no by auto
      then have us': "us = h # tl us" using us(2) by (cases us) auto
      with us(1) have "run @ h # tl us = ys @ r" by simp
      then have "(\<exists>vs. run = ys @ vs \<and> vs @ h # tl us = r) \<or> (\<exists>vs. run @ vs = ys \<and> h # tl us = vs @ r)"
        by (auto simp: append_eq_append_conv2)
      moreover have "h \<notin> set r" using 2(7) False by (auto simp: list_all_iff)
      ultimately obtain vs where vs: "run @ vs = ys" "h # tl us = vs @ r" by auto
      show False
      proof (cases vs)
        case Nil
        with vs \<open>h \<notin> set r\<close> have "h \<in> set r" by (metis append_Nil list.set_intros(1))
        with \<open>h \<notin> set r\<close> show False by simp
      next
        case (Cons v vs')
        with vs no show False by auto
      qed
    qed
    then show ?thesis
    proof
      assume "\<exists>us. run = ys @ r @ us"
      then show ?thesis using 2(5) by auto
    next
      assume "\<exists>us. ys = run @ h # us"
      then obtain us where us: "hs = us @ r @ zs" using 2(6) by auto
      have "find_run s n [] hs = None" using 2(3) False by simp
      from 2(2) [OF False this _ _ _ 2(7), of us] us 2(5) show ?thesis by simp
    qed
  qed
qed

lemma heap_linked_mid:
  assumes "heap_linked s (ys @ run @ h # hs)"
  shows "next_of s h = hd_or NULL hs" and "hs \<noteq> [] \<Longrightarrow> hd_or NULL hs \<noteq> NULL"
    and "unat (of_nat (bytes s run + bsize s h) :: size_t) = bytes s run + bsize s h"
    and "unat (of_nat (bytes s run) :: size_t) = bytes s run"
proof -
  from assms obtain hi where b: "blocks s (unat (hd_or NULL (ys @ run @ h # hs))) (ys @ run @ h # hs) hi"
    "hi < 2 ^ 32" and seg: "dseg (prev_of s) (next_of s) NULL (ys @ run @ h # hs) NULL"
    unfolding heap_linked_def by blast
  from seg show "next_of s h = hd_or NULL hs" by simp
  from seg show "hs \<noteq> [] \<Longrightarrow> hd_or NULL hs \<noteq> NULL"
    using dseg_nonnull [OF seg] hd_or_in_set [of hs NULL] by auto
  have "bytes s run + bsize s h < 2 ^ 32" using blocks_end [OF b(1)] b(2) by simp
  then show "unat (of_nat (bytes s run + bsize s h) :: size_t) = bytes s run + bsize s h"
    and "unat (of_nat (bytes s run) :: size_t) = bytes s run"
    by (simp_all add: unat_of_nat del: of_nat_add)
qed

lemma of_nat_bsize [simp]: "of_nat (bsize s h) = hh_size (hdrs s h)"
  by (simp add: bsize_def)

lemma heap_search_find_run:
  assumes "heap_linked s (ys @ run @ h # hs)" and "\<And>k. k \<in> set (h # hs) \<Longrightarrow> pinned s k"
  shows "heap_search s sz (hd_or h run) h (of_nat (bytes s (run @ [h]))) 0 avail =
     Some (case find_run s (unat sz) run (h # hs) of None \<Rightarrow> Not_found
           | Some r \<Rightarrow> Found (hd_or NULL r) (last_or NULL r) (of_nat (bytes s r)) 0)"
  using assms
proof (induction hs arbitrary: ys run h avail)
  case Nil
  note lk = heap_linked_mid [OF Nil(1)]
  from Nil(2) have "pinned s h" by simp
  then show ?case using lk
    by (subst heap_search.simps) (auto simp: pinned_def available_def word_le_nat_alt Let_def)
next
  case (Cons k hs)
  note lk = heap_linked_mid [OF Cons(2)]
  have nx: "next_of s h = k" "k \<noteq> NULL" using lk by auto
  from Cons(3) have "pinned s h" by simp
  then consider (im) "GET_KIND (hdrs s h) = KIND_IMMOVABLE" | (av) "GET_KIND (hdrs s h) = KIND_AVAILABLE"
    by (auto simp: pinned_def)
  then show ?case
  proof cases
    case im
    have "heap_linked s ((ys @ run @ [h]) @ [] @ k # hs)" using Cons(2) by simp
    from Cons.IH [OF this] Cons(3)
    have "heap_search s sz k k (hh_size (hdrs s k)) 0 a =
      Some (case find_run s (unat sz) [] (k # hs) of None \<Rightarrow> Not_found
           | Some r \<Rightarrow> Found (hd_or NULL r) (last_or NULL r) (of_nat (bytes s r)) 0)" for a
      by simp
    moreover have "find_run s (unat sz) run (h # k # hs) = find_run s (unat sz) [] (k # hs)"
      using im by (simp add: available_def)
    ultimately show ?thesis using im nx
      by (subst heap_search.simps) (simp add: Let_def)
  next
    case av
    have "heap_linked s (ys @ (run @ [h]) @ k # hs)" using Cons(2) by simp
    from Cons.IH [OF this] Cons(3)
    have "heap_search s sz (hd_or h run) k (of_nat (bytes s run) + hh_size (hdrs s h) + hh_size (hdrs s k)) 0 a =
      Some (case find_run s (unat sz) (run @ [h]) (k # hs) of None \<Rightarrow> Not_found
           | Some r \<Rightarrow> Found (hd_or NULL r) (last_or NULL r) (of_nat (bytes s r)) 0)" for a
      by (simp add: add.assoc)
    moreover have "sz \<le> of_nat (bytes s run) + hh_size (hdrs s h) \<longleftrightarrow> unat sz \<le> bytes s (run @ [h])"
      using lk(3) by (simp add: word_le_nat_alt)
    ultimately show ?thesis using av nx
      by (subst heap_search.simps) (simp add: Let_def available_def add.assoc)
  qed
qed

section \<open>Claiming a run\<close>

lemma split_header_refuse:
  assumes "\<not> (26 < unat at \<and> unat at + 26 < bsize s h)" and "26 \<le> bsize s h"
  shows "split_header h at s = (s, False)"
proof -
  have "unat (hh_size (hdrs s h) - sizeof_heap_header) = bsize s h - 26"
    using assms(2) by (simp add: unat_sub word_le_nat_alt bsize_def heap_consts)
  then show ?thesis using assms
    by (auto simp: split_header_def word_le_nat_alt heap_consts not_less)
qed

definition same_block :: "'x heap_state_scheme \<Rightarrow> 'x heap_state_scheme \<Rightarrow> addr \<Rightarrow> bool" where
  "same_block s s' k \<longleftrightarrow> bsize s' k = bsize s k \<and> GET_KIND (hdrs s' k) = GET_KIND (hdrs s k)"

lemma same_block_trans: "same_block s t k \<Longrightarrow> same_block t u k \<Longrightarrow> same_block s u k"
  by (simp add: same_block_def)

lemma same_block_upd_used [simp]: "same_block s (upd_used f t) k = same_block s t k"
  by (simp add: same_block_def bsize_def)

lemma heap_linked_upd_used [simp]: "heap_linked (upd_used f s) hs = heap_linked s hs"
  by (simp add: heap_linked_def)

lemma same_block_bytes:
  "\<forall>k \<in> set hs. same_block s s' k \<Longrightarrow> bytes s' hs = bytes s hs \<and> free_bytes s' hs = free_bytes s hs"
  by (auto simp: same_block_def available_def intro!: bytes_cong free_bytes_cong)

text \<open>The run claimed as one block, before the rest is given back.\<close>

lemma split_end_cases:
  assumes lk: "heap_linked s (ys @ r @ [en] @ zs)" and av: "available s en"
    and sz: "bytes s r < unat sz" "unat sz \<le> bytes s (r @ [en])"
  defines "pos \<equiv> sz - of_nat (bytes s r)"
  shows "unat pos = unat sz - bytes s r"
    and "split_end sz en (of_nat (bytes s (r @ [en]))) s =
      (if 26 < unat pos \<and> unat pos + 26 < bsize s en then fst (split_header en pos s) else s)"
proof -
  have lk': "heap_linked s (ys @ r @ en # zs)" using lk by simp
  have tot: "unat (of_nat (bytes s r) :: size_t) = bytes s r"
    by (rule heap_linked_mid(4) [OF lk'])
  show u: "unat pos = unat sz - bytes s r"
    unfolding pos_def using sz tot by (simp add: unat_sub word_le_nat_alt)
  from lk obtain hi where b: "blocks s (unat (hd_or NULL (ys @ r @ [en] @ zs))) (ys @ r @ [en] @ zs) hi"
    unfolding heap_linked_def by blast
  have "26 \<le> bsize s en" using blocks_bounds [OF b, of en] by simp
  note refuse = split_header_refuse [OF _ this]
  have "hh_size (hdrs s en) \<le> pos \<longleftrightarrow> bsize s en \<le> unat pos"
    by (simp add: word_le_nat_alt bsize_def)
  moreover have "sz - (of_nat (bytes s (r @ [en])) - hh_size (hdrs s en)) = pos"
    by (simp add: pos_def)
  ultimately show "split_end sz en (of_nat (bytes s (r @ [en]))) s =
      (if 26 < unat pos \<and> unat pos + 26 < bsize s en then fst (split_header en pos s) else s)"
    using av refuse [of pos] refuse [of 0]
    by (auto simp: split_end_def Let_def available_def)
qed

text \<open>
  What claiming a run of \<open>tot\<close> bytes at \<open>st\<close> leaves behind: the block \<open>st\<close>, followed by
  \<open>rest\<close> (nothing, or one available block), and every other block as it was.
\<close>

definition claimed ::
    "'x heap_state_scheme \<Rightarrow> 'x heap_state_scheme \<Rightarrow> addr list \<Rightarrow> addr \<Rightarrow> addr list \<Rightarrow> addr list \<Rightarrow> nat \<Rightarrow> bool" where
  "claimed s s' ys st rest zs tot \<longleftrightarrow>
     heap_linked s' (ys @ [st] @ rest @ zs) \<and> bsize s' st + bytes s' rest = tot
     \<and> GET_KIND (hdrs s' st) = KIND_IMMOVABLE \<and> list_all (available s') rest
     \<and> (\<forall>k \<in> set ys \<union> set zs. same_block s s' k)
     \<and> total_memory (hp s') = total_memory (hp s)
     \<and> used_memory (hp s') = used_memory (hp s) + hh_size (hdrs s' st)"

lemma merge_used:
  assumes lk: "heap_linked s (ys @ r @ [en] @ ws)" and st: "st = hd_or en r"
  defines "s' \<equiv> upd_used (\<lambda>u. u + hh_size (hdrs (merge_blocks st en s) st)) (merge_blocks st en s)"
  shows "claimed s s' ys st [] ws (bytes s (r @ [en]))"
proof -
  have lk': "heap_linked s (ys @ (r @ [en]) @ ws)" using lk by simp
  note m = merge_blocks_linked [OF lk', of st en] merge_blocks_hdrs(1) [OF lk', of st en]
  have "hd_or NULL (r @ [en]) = st" using st by (cases r) auto
  with m show ?thesis
    by (auto simp: claimed_def s'_def same_block_def bsize_def)
qed

lemma claim_blocks_alt:
  "claim_blocks sz st en 0 s =
     (let s2 = upd_used (\<lambda>u. u + hh_size (hdrs (merge_blocks st en s) st)) (merge_blocks st en s);
          (s3, did_split) = split_header st sz s2
      in if did_split then upd_used (\<lambda>u. u - hh_size (hdrs s3 (st + sz))) s3 else s3)"
  by (simp add: claim_blocks_def Let_def)

lemma claimed_bsize: "claimed s s' ys st rest zs tot \<Longrightarrow> 26 \<le> bsize s' st"
  by (auto simp: claimed_def heap_linked_def)

lemma claimed_rest:
  assumes "claimed s s' ys st [st + sz] zs tot"
  shows "bsize s' st = unat sz"
proof -
  from assms have "heap_linked s' (ys @ st # (st + sz) # zs)" by (simp add: claimed_def)
  then have "unat (st + sz) = unat st + bsize s' st" by (auto simp: heap_linked_def)
  then have "of_nat (unat (st + sz)) = (of_nat (unat st + bsize s' st) :: addr)" by (rule arg_cong)
  then show ?thesis by (simp add: bsize_def)
qed

lemma claim_early_split:
  assumes lk: "heap_linked s (ys @ r @ [en] @ zs)" and st: "st = hd_or en r"
    and sz: "unat sz = bytes s r + unat pos" and pos: "26 < unat pos" "unat pos + 26 < bsize s en"
  shows "claimed s (claim_blocks sz st en 0 (fst (split_header en pos s))) ys st [en + pos] zs (bytes s (r @ [en]))"
proof -
  define s1 where "s1 = fst (split_header en pos s)"
  define s2 where "s2 = upd_used (\<lambda>u. u + hh_size (hdrs (merge_blocks st en s1) st)) (merge_blocks st en s1)"
  have lk1: "heap_linked s ((ys @ r) @ en # zs)" using lk by simp
  note sp = split_header_linked [OF lk1 pos, folded s1_def] split_header_hdrs(2) [OF lk1 pos, folded s1_def]
  have lk2: "heap_linked s1 (ys @ r @ [en] @ (en + pos) # zs)" using sp(1) by simp
  have m: "claimed s1 s2 ys st [] ((en + pos) # zs) (bytes s1 (r @ [en]))"
    unfolding s2_def by (rule merge_used [OF lk2 st])
  have "bytes s1 r = bytes s r" using sp(6) by (intro bytes_cong) auto
  then have b: "bytes s1 (r @ [en]) = unat sz" using sp(2) sz by simp
  then have "bsize s2 st = unat sz" using m by (simp add: claimed_def)
  then have "split_header st sz s2 = (s2, False)"
    using claimed_bsize [OF m] by (intro split_header_refuse) auto
  then have eq: "claim_blocks sz st en 0 s1 = s2" by (simp add: claim_blocks_alt s2_def)
  have "same_block s s1 k" if "k \<in> set ys \<union> set zs" for k using sp(6) [of k] that by (auto simp: same_block_def)
  then have "same_block s s2 k" if "k \<in> set ys \<union> set zs" for k
    using m that same_block_trans [of s s1 k s2] by (auto simp: claimed_def)
  moreover have "bsize s2 (en + pos) = bsize s en - unat pos" "available s2 (en + pos)"
    using m sp(3,4) by (auto simp: claimed_def same_block_def available_def)
  ultimately show ?thesis unfolding s1_def [symmetric] eq using m b sz pos sp(7)
    by (simp add: claimed_def)
qed

lemma claim_late_split:
  assumes lk: "heap_linked s (ys @ r @ [en] @ zs)" and st: "st = hd_or en r" and sz: "26 < unat sz"
  shows "claimed s (claim_blocks sz st en 0 s) ys st
    (if unat sz + 26 < bytes s (r @ [en]) then [st + sz] else []) zs (bytes s (r @ [en]))"
proof -
  define s2 where "s2 = upd_used (\<lambda>u. u + hh_size (hdrs (merge_blocks st en s) st)) (merge_blocks st en s)"
  have m: "claimed s s2 ys st [] zs (bytes s (r @ [en]))"
    unfolding s2_def by (rule merge_used [OF lk st])
  then have b: "bsize s2 st = bytes s (r @ [en])" by (simp add: claimed_def)
  show ?thesis
  proof (cases "unat sz + 26 < bytes s (r @ [en])")
    case True
    define s3 where "s3 = fst (split_header st sz s2)"
    have lk2: "heap_linked s2 (ys @ st # zs)" and big: "unat sz + 26 < bsize s2 st"
      using m b True by (auto simp: claimed_def)
    note sp = split_header_linked [OF lk2 sz big, folded s3_def]
      split_header_hdrs(1,2) [OF lk2 sz big, folded s3_def]
    have eq: "claim_blocks sz st en 0 s = upd_used (\<lambda>u. u - hh_size (hdrs s3 (st + sz))) s3"
      using sp(7) by (simp add: claim_blocks_alt s2_def [symmetric] s3_def split_beta)
    have "GET_KIND (hdrs s3 st) = KIND_IMMOVABLE"
      using m split_header_hdrs(3) [OF lk2 sz big, of st] by (simp add: claimed_def s3_def GET_KIND_def)
    moreover have "same_block s s3 k" if "k \<in> set ys \<union> set zs" for k
      using m sp(6) [OF that] that by (auto simp: claimed_def same_block_def)
    moreover have "used_memory (hp s3) = used_memory (hp s) + of_nat (bytes s (r @ [en]))"
      using m b sp(8) of_nat_bsize [of s2 st] by (simp add: claimed_def)
    moreover have "hh_size (hdrs s3 (st + sz)) = of_nat (bytes s (r @ [en])) - sz"
      using sp(3) b big of_nat_bsize [of s3 "st + sz"] by (simp add: of_nat_diff)
    moreover have "hh_size (hdrs s3 st) = sz" using sp(2) by (simp add: bsize_def word_unat_eq_iff)
    ultimately show ?thesis unfolding eq using True m sp b
      by (simp add: claimed_def)
  next
    case False
    then have "split_header st sz s2 = (s2, False)"
      using b claimed_bsize [OF m] by (intro split_header_refuse) auto
    then show ?thesis using m False by (simp add: claim_blocks_alt s2_def)
  qed
qed

lemma claim_run:
  assumes lk: "heap_linked s (ys @ r @ zs)" and r: "r \<noteq> []" and av: "list_all (available s) r"
    and sz: "bytes s (butlast r) < unat sz" "unat sz \<le> bytes s r" "26 < unat sz"
  defines "st \<equiv> hd_or NULL r" and "en \<equiv> last_or NULL r"
  shows "claimed s (claim_blocks sz st en 0 (split_end sz en (of_nat (bytes s r)) s)) ys st
    (if unat sz + 26 < bytes s r then [st + sz] else []) zs (bytes s r)"
proof -
  obtain r' e where r': "r = r' @ [e]" using r by (cases r rule: rev_cases) auto
  have en: "en = e" by (simp add: en_def r')
  have st: "st = hd_or en r'" by (cases r') (simp_all add: st_def r' en)
  have lk': "heap_linked s (ys @ r' @ [en] @ zs)" using lk r' en by simp
  have av': "available s en" and sz': "bytes s r' < unat sz" "unat sz \<le> bytes s (r' @ [en])"
    using av sz r' en by auto
  define pos where "pos = sz - of_nat (bytes s r')"
  note se = split_end_cases [OF lk' av' sz', folded pos_def]
  from lk' obtain hi where b: "blocks s (unat (hd_or NULL (ys @ r' @ [en] @ zs))) (ys @ r' @ [en] @ zs) hi"
    unfolding heap_linked_def by blast
  have "unat en = unat st + bytes s r'" using b by (cases r') (auto simp: st)
  then have "of_nat (unat en) = (of_nat (unat st + bytes s r') :: addr)" by (rule arg_cong)
  then have "en = st + of_nat (bytes s r')" by simp
  then have st_pos: "en + pos = st + sz" by (simp add: pos_def)
  show ?thesis
  proof (cases "26 < unat pos \<and> unat pos + 26 < bsize s en")
    case True
    have "unat sz = bytes s r' + unat pos" using se(1) sz' by simp
    with claim_early_split [OF lk' st this] True show ?thesis
      using se(2) r' en st_pos by simp
  next
    case False
    then have "split_end sz en (of_nat (bytes s r)) s = s" using se(2) r' en by (auto split: if_splits)
    then show ?thesis using claim_late_split [OF lk' st sz(3)] r' en by simp
  qed
qed

lemma claimed_wf:
  assumes wf: "heap_wf s (ys @ r @ zs)" and av: "list_all (available s) r"
    and c: "claimed s s' ys st rest zs (bytes s r)"
  shows "heap_wf s' (ys @ [st] @ rest @ zs)"
proof -
  have fr: "free_bytes s r = bytes s r" "free_bytes s' rest = bytes s' rest"
    using av c by (auto simp: claimed_def list_all_iff intro!: free_bytes_all)
  have same: "free_bytes s' ys = free_bytes s ys" "free_bytes s' zs = free_bytes s zs"
    "bytes s' ys = bytes s ys" "bytes s' zs = bytes s zs"
    using c by (auto simp: claimed_def same_block_bytes)
  have st: "\<not> available s' st" using c by (simp add: claimed_def available_def)
  have "unat (used_memory (hp s)) + bsize s' st \<le> unat (total_memory (hp s))"
    using wf c fr by (auto simp: heap_wf_def claimed_def)
  then have "unat (used_memory (hp s)) + bsize s' st < 2 ^ 32"
    using unat_lt_2_32 [of "total_memory (hp s)"] by linarith
  then have "unat (used_memory (hp s')) = unat (used_memory (hp s)) + bsize s' st"
    using c by (simp add: claimed_def bsize_def unat_plus_no_wrap)
  with wf c fr same st show ?thesis by (auto simp: heap_wf_def claimed_def)
qed

lemma alloc_size_bounds:
  assumes "unat n + 29 < 2 ^ 32"
  shows "unat n + 26 \<le> unat (alloc_size n)" "unat (alloc_size n) \<le> unat n + 29"
    "4 dvd unat (alloc_size n)" "28 \<le> unat (alloc_size n)"
proof -
  define x where "x = n + 29"
  have x: "unat x = unat n + 29" using assms by (simp add: x_def unat_plus_no_wrap)
  have "(3 :: addr) = mask 2" by (simp add: mask_eq_exp_minus_1)
  then have "alloc_size n = x AND NOT (mask 2)"
    unfolding alloc_size_def heap_consts x_def by (simp only: add.assoc) simp
  also have "\<dots> = x AND NOT (take_bit 2 x)" by (auto simp: bit_eq_iff bit_simps)
  also have "\<dots> = x - take_bit 2 x"
    by (rule disjunctive_diff_eq_and_not [symmetric]) (auto simp: bit_eq_iff bit_simps)
  finally have "alloc_size n = x - take_bit 2 x" .
  moreover have u: "unat (take_bit 2 x) = unat x mod 4"
    by (metis unsigned_take_bit_eq take_bit_eq_mod power2_eq_square mult_2 numeral_Bit0 numeral_One one_add_one)
  moreover from this have "take_bit 2 x \<le> x" by (simp add: word_le_nat_alt)
  ultimately have sz: "unat (alloc_size n) = unat x - unat x mod 4" by (simp add: unat_sub)
  then show le: "unat n + 26 \<le> unat (alloc_size n)" "unat (alloc_size n) \<le> unat n + 29"
    using x by linarith+
  show "4 dvd unat (alloc_size n)" unfolding sz by (rule dvd_minus_mod)
  with le show "28 \<le> unat (alloc_size n)" by presburger
qed

section \<open>Allocation\<close>

lemma free_run_le: "list_all (available s) r \<Longrightarrow> bytes s r \<le> free_bytes s (ys @ r @ zs)"
  using free_bytes_all [of r s] by (simp add: list_all_iff)

lemma heap_alloc_pinned:
  assumes wf: "heap_wf s hs" and pin: "\<And>k. k \<in> set hs \<Longrightarrow> pinned s k" and n: "unat n + 29 < 2 ^ 32"
  shows "heap_alloc hk s n =
    (case find_run s (unat (alloc_size n)) [] hs of None \<Rightarrow> Some (s, NULL)
     | Some r \<Rightarrow> Some (claim_blocks (alloc_size n) (hd_or NULL r) (last_or NULL r) 0
                    (split_end (alloc_size n) (last_or NULL r) (of_nat (bytes s r)) s),
                  hd_or NULL r + sizeof_heap_header))"
proof -
  let ?sz = "alloc_size n" and ?avail = "total_memory (hp s) - used_memory (hp s)"
  from wf have lk: "heap_linked s hs" and acc: "unat (total_memory (hp s)) = unat (used_memory (hp s)) + free_bytes s hs"
    by (auto simp: heap_wf_def)
  obtain h hs' where hs: "hs = h # hs'" using lk by (cases hs) (auto simp: heap_linked_def)
  have base: "heap_base (hp s) = h" using lk by (simp add: heap_linked_def hs)
  have "used_memory (hp s) \<le> total_memory (hp s)" using acc by (simp add: word_le_nat_alt)
  then have avail: "unat ?avail = free_bytes s hs" using acc by (simp add: unat_minus_no_wrap)
  have lk': "heap_linked s ([] @ [] @ h # hs')" using lk hs by simp
  have search: "heap_search s ?sz h h (hh_size (hdrs s h)) 0 ?avail =
     Some (case find_run s (unat ?sz) [] hs of None \<Rightarrow> Not_found
           | Some r \<Rightarrow> Found (hd_or NULL r) (last_or NULL r) (of_nat (bytes s r)) 0)"
    using heap_search_find_run [OF lk', of ?sz ?avail] pin hs by simp
  show ?thesis
  proof (cases "?sz > ?avail")
    case True
    then have "free_bytes s hs < unat ?sz" using avail by (simp add: word_less_nat_alt)
    moreover have "unat ?sz \<le> free_bytes s hs" if "find_run s (unat ?sz) [] hs = Some r" for r
    proof -
      from find_run_sound [OF that] obtain ys zs where
        "hs = ys @ r @ zs" "list_all (available s) r" "unat ?sz \<le> bytes s r" by auto
      then show ?thesis using free_run_le [of s r ys zs] by simp
    qed
    ultimately have "find_run s (unat ?sz) [] hs = None" by (cases "find_run s (unat ?sz) [] hs") force+
    then show ?thesis using True by (subst heap_alloc.simps) simp
  next
    case False
    then show ?thesis
      by (subst heap_alloc.simps) (auto simp: Let_def base search split: option.split)
  qed
qed

lemma heap_alloc_some:
  assumes wf: "heap_wf s hs" and pin: "\<And>k. k \<in> set hs \<Longrightarrow> pinned s k" and n: "unat n + 29 < 2 ^ 32"
    and r: "find_run s (unat (alloc_size n)) [] hs = Some r"
  obtains s' ys zs where "hs = ys @ r @ zs" "r \<noteq> []" "list_all (available s) r"
    "heap_alloc hk s n = Some (s', hd_or NULL r + sizeof_heap_header)"
    "claimed s s' ys (hd_or NULL r)
       (if unat (alloc_size n) + 26 < bytes s r then [hd_or NULL r + alloc_size n] else []) zs (bytes s r)"
    "heap_wf s' (ys @ [hd_or NULL r]
       @ (if unat (alloc_size n) + 26 < bytes s r then [hd_or NULL r + alloc_size n] else []) @ zs)"
    "unat (alloc_size n) \<le> bytes s r"
proof -
  from find_run_sound [OF r] alloc_size_bounds(4) [OF n]
  obtain ys zs where hs: "hs = ys @ r @ zs" "r \<noteq> []" "list_all (available s) r"
    "unat (alloc_size n) \<le> bytes s r" "bytes s (butlast r) < unat (alloc_size n)"
    by auto
  have "heap_linked s (ys @ r @ zs)" using wf hs(1) by (simp add: heap_wf_def)
  from claim_run [OF this hs(2,3,5,4)] alloc_size_bounds(4) [OF n]
  have c: "claimed s (claim_blocks (alloc_size n) (hd_or NULL r) (last_or NULL r) 0
        (split_end (alloc_size n) (last_or NULL r) (of_nat (bytes s r)) s)) ys (hd_or NULL r)
       (if unat (alloc_size n) + 26 < bytes s r then [hd_or NULL r + alloc_size n] else []) zs (bytes s r)"
    by simp
  have "heap_wf s (ys @ r @ zs)" using wf hs(1) by simp
  from claimed_wf [OF this hs(3) c] c hs heap_alloc_pinned [OF wf pin n] r that show ?thesis by simp
qed

end
