(* ===== verification/Heap_Free.thy ===== *)
theory Heap_Free
  imports Heap_Alloc
begin

unbundle bit_operations_syntax

text \<open>
  Correctness of \<open>heap_free\<close>: the block becomes available and is merged with an available
  block in front of it. Merging with an available block behind it leaves that block in the
  list, so that the bytes behind the freed block belong to two blocks at once.
\<close>

lemma hdrs_free_block [simp]:
  "hdrs (free_block h s) a = (if a = h then (hdrs s h)\<lparr>hh_flags := KIND_AVAILABLE\<rparr> else hdrs s a)"
  by (simp add: free_block_def)

lemma heap_linked_cong:
  assumes "hp s' = hp s" and "\<And>k. k \<in> set hs \<Longrightarrow>
    hh_size (hdrs s' k) = hh_size (hdrs s k) \<and> hh_next (hdrs s' k) = hh_next (hdrs s k)
    \<and> hh_prev (hdrs s' k) = hh_prev (hdrs s k)"
  shows "heap_linked s' hs = heap_linked s hs"
proof -
  have "blocks s' lo hs hi = blocks s lo hs hi" for lo hi
    using assms(2) by (intro blocks_cong) (simp add: bsize_def)
  moreover have "dseg (prev_of s') (next_of s') NULL hs NULL = dseg (prev_of s) (next_of s) NULL hs NULL"
    using assms(2) by (intro dseg_cong) auto
  ultimately show ?thesis using assms(1) by (simp add: heap_linked_def)
qed

lemma free_block_wf:
  assumes wf: "heap_wf s (ys @ h # zs)" and al: "\<not> available s h"
  defines "s' \<equiv> free_block h s"
  shows "heap_wf s' (ys @ h # zs)" and "available s' h" and "bsize s' h = bsize s h"
    and "\<And>k. k \<noteq> h \<Longrightarrow> same_block s s' k"
    and "unat (used_memory (hp s')) = unat (used_memory (hp s)) - bsize s h"
    and "bsize s h \<le> unat (used_memory (hp s))"
proof -
  have s': "s' = upd_used (\<lambda>u. u - hh_size (hdrs s h)) (upd_hdr h (\<lambda>x. x\<lparr>hh_flags := KIND_AVAILABLE\<rparr>) s)"
    by (simp add: s'_def free_block_def)
  have "heap_linked (upd_hdr h (\<lambda>x. x\<lparr>hh_flags := KIND_AVAILABLE\<rparr>) s) (ys @ h # zs) = heap_linked s (ys @ h # zs)"
    by (rule heap_linked_cong) auto
  then have lk: "heap_linked s' (ys @ h # zs)" using wf by (simp add: heap_wf_def s')
  show b: "bsize s' h = bsize s h" and av: "available s' h"
    by (simp_all add: bsize_def available_def s'_def)
  show same: "same_block s s' k" if "k \<noteq> h" for k
    using that by (simp add: same_block_def bsize_def s'_def)
  have "\<forall>k \<in> set ys. same_block s s' k" "\<forall>k \<in> set zs. same_block s s' k"
    using heap_wf_distinct [OF wf] by (auto intro!: same)
  then have eq: "bytes s' ys = bytes s ys" "bytes s' zs = bytes s zs"
    "free_bytes s' ys = free_bytes s ys" "free_bytes s' zs = free_bytes s zs"
    by (simp_all add: same_block_bytes)
  show le: "bsize s h \<le> unat (used_memory (hp s))"
    using wf al free_bytes_le [of s ys] free_bytes_le [of s zs] by (simp add: heap_wf_def)
  then have "hh_size (hdrs s h) \<le> used_memory (hp s)" by (simp add: bsize_def word_le_nat_alt)
  then show u: "unat (used_memory (hp s')) = unat (used_memory (hp s)) - bsize s h"
    by (simp add: s' unat_minus_no_wrap bsize_def)
  show "heap_wf s' (ys @ h # zs)"
    using wf lk u le eq b av al by (simp add: heap_wf_def s')
qed

text \<open>Merging with the previous block makes the same layout as merging a run of two blocks.\<close>

lemma free_merge_prev_hdrs:
  assumes lk: "heap_linked s (ys @ p # h # zs)" and av: "available s p"
  defines "s' \<equiv> free_merge_prev h s" and "m \<equiv> merge_blocks p h s"
  shows "hp s' = hp s"
    and "hh_size (hdrs s' k) = hh_size (hdrs m k) \<and> hh_next (hdrs s' k) = hh_next (hdrs m k)
      \<and> hh_prev (hdrs s' k) = hh_prev (hdrs m k)"
    and "hh_flags (hdrs s' k) = hh_flags (hdrs s k)"
proof -
  have lk2: "heap_linked s (ys @ [p, h] @ zs)" using lk by simp
  from lk2 obtain hi where b: "blocks s (unat (hd_or p ys)) (ys @ [p, h] @ zs) hi"
    and seg: "dseg (prev_of s) (next_of s) NULL (ys @ [p, h] @ zs) NULL"
    unfolding heap_linked_def by (cases ys) auto
  have pv: "prev_of s h = p" "p \<noteq> NULL" "next_of s h = hd_or NULL zs" "p \<noteq> h"
    using seg blocks_distinct [OF b] by auto
  have "unat h = unat p + bsize s p" using b by auto
  then have "of_nat (unat h) = (of_nat (unat p + bsize s p) :: addr)" by (rule arg_cong)
  then have h: "h = p + hh_size (hdrs s p)" by simp
  have s': "s' = (let t = upd_hdr p (\<lambda>x. x\<lparr>hh_size := hh_size x + hh_size (hdrs s h), hh_next := hd_or NULL zs\<rparr>) s
       in if hd_or NULL zs \<noteq> NULL then upd_hdr (hd_or NULL zs) (\<lambda>x. x\<lparr>hh_prev := p\<rparr>) t else t)"
    using pv av by (simp add: s'_def free_merge_prev_def available_def Let_def)
  show "hp s' = hp s" by (simp add: s' Let_def)
  show "hh_flags (hdrs s' k) = hh_flags (hdrs s k)" by (simp add: s' Let_def)
  have "hh_size (hdrs s p) + hh_size (hdrs s h) = h + hh_size (hdrs s h) - p" using h by simp
  moreover have "hd_or NULL zs \<noteq> p" using seg blocks_distinct [OF b] by (cases zs) auto
  ultimately show "hh_size (hdrs s' k) = hh_size (hdrs m k) \<and> hh_next (hdrs s' k) = hh_next (hdrs m k)
      \<and> hh_prev (hdrs s' k) = hh_prev (hdrs m k)"
    using pv by (simp add: s' m_def merge_blocks_def Let_def)
qed

lemma free_merge_prev_wf:
  assumes wf: "heap_wf s (ys @ p # h # zs)" and av: "available s p" "available s h"
  defines "s' \<equiv> free_merge_prev h s"
  shows "heap_wf s' (ys @ p # zs)" and "available s' p" and "bsize s' p = bsize s p + bsize s h"
    and "\<And>k. k \<in> set ys \<union> set zs \<Longrightarrow> same_block s s' k" and "hp s' = hp s"
proof -
  have lk: "heap_linked s (ys @ p # h # zs)" using wf by (simp add: heap_wf_def)
  have lk2: "heap_linked s (ys @ [p, h] @ zs)" using lk by simp
  note m = merge_blocks_linked [OF lk2, of p h, simplified] merge_blocks_hdrs(1) [OF lk2, of p h, simplified]
  note f = free_merge_prev_hdrs [OF lk av(1), folded s'_def]
  have "hp s' = hp (merge_blocks p h s)" using f(1) m(5) by simp
  from heap_linked_cong [OF this] f(2) m(1) have lk': "heap_linked s' (ys @ p # zs)" by simp
  show sz: "bsize s' p = bsize s p + bsize s h" using f(2) m(2) by (simp add: bsize_def)
  show av': "available s' p" using av f(3) by (simp add: available_def GET_KIND_def)
  show same: "same_block s s' k" if "k \<in> set ys \<union> set zs" for k
    using f(2,3) m(4) that by (auto simp: same_block_def bsize_def GET_KIND_def)
  then have "bytes s' ys = bytes s ys" "bytes s' zs = bytes s zs"
    "free_bytes s' ys = free_bytes s ys" "free_bytes s' zs = free_bytes s zs"
    by (simp_all add: same_block_bytes)
  then show "heap_wf s' (ys @ p # zs)" using wf lk' sz av av' f(1) by (simp add: heap_wf_def)
  show "hp s' = hp s" by (rule f(1))
qed

text \<open>Freeing a block whose successor is in use.\<close>

lemma free_merge_next_taken:
  "next_of s h = NULL \<or> \<not> available s (next_of s h) \<Longrightarrow> free_merge_next h s = s"
  by (auto simp: free_merge_next_def available_def)

lemma heap_free_merges:
  assumes wf: "heap_wf s (ys @ h # zs)" and al: "\<not> available s h" and h: "header_of ptr = h"
    and nx: "zs = [] \<or> \<not> available s (hd_or NULL zs)"
  shows "heap_free ptr s = (if ys \<noteq> [] \<and> available s (last_or NULL ys)
      then free_merge_prev h (free_block h s) else free_block h s)"
proof -
  note f = free_block_wf [OF wf al]
  have seg: "dseg (prev_of s) (next_of s) NULL (ys @ h # zs) NULL" and dis: "distinct (ys @ h # zs)"
    using wf heap_wf_distinct [OF wf] by (simp_all add: heap_wf_def heap_linked_def)
  have nh: "next_of s h = hd_or NULL zs" and ph: "prev_of s h = last_or NULL ys" using seg by auto
  have same: "available (free_block h s) k = available s k" if "k \<noteq> h" for k
    using f(4) [OF that] by (simp add: same_block_def available_def)
  have "zs \<noteq> [] \<Longrightarrow> hd_or NULL zs \<noteq> h" "ys \<noteq> [] \<Longrightarrow> last_or NULL ys \<noteq> h \<and> last_or NULL ys \<noteq> NULL"
    using dis hd_or_in_set [of zs NULL] last_or_in_set [of ys NULL] dseg_nonnull [OF seg] by auto
  moreover from this have "free_merge_next h (free_block h s) = free_block h s"
    using nx nh same [of "hd_or NULL zs"] by (intro free_merge_next_taken) (cases "zs = []"; simp)
  ultimately show ?thesis using h ph same [of "last_or NULL ys"]
    by (cases "ys = []") (simp_all add: heap_free_def free_merge_prev_def available_def)
qed

section \<open>Properties of the heap\<close>

lemma heap_wf_end:
  assumes "heap_wf s hs" and "h \<in> set hs"
  shows "unat h + bsize s h < 2 ^ 32"
proof -
  from assms(1) obtain hi where "hi < 2 ^ 32" "blocks s (unat (hd_or NULL hs)) hs hi"
    by (auto simp: heap_wf_def heap_linked_def)
  with blocks_bounds [OF this(2) assms(2)] show ?thesis by simp
qed

lemma block_pointer:
  assumes "heap_wf s hs" and "h \<in> set hs" and "unat n + 26 \<le> bsize s h"
  shows "h + sizeof_heap_header \<noteq> NULL" and "header_of (h + sizeof_heap_header) = h"
    and "n \<le> heap_sizeof (h + sizeof_heap_header) s"
proof -
  have "26 \<le> bsize s h" using heap_wf_bsize [OF assms(1,2)] .
  then have "unat h + 26 < 2 ^ 32" using heap_wf_end [OF assms(1,2)] by linarith
  then have "unat (h + sizeof_heap_header) = unat h + 26" by (simp add: heap_consts unat_plus_no_wrap)
  then show "h + sizeof_heap_header \<noteq> NULL" by (metis add_is_0 unsigned_0 zero_neq_numeral)
  show eq: "header_of (h + sizeof_heap_header) = h" by (simp add: header_of_def)
  have "unat (hh_size (hdrs s h) - sizeof_heap_header) = bsize s h - 26"
    using \<open>26 \<le> bsize s h\<close> by (simp add: unat_sub word_le_nat_alt bsize_def heap_consts)
  then show "n \<le> heap_sizeof (h + sizeof_heap_header) s"
    using assms(3) by (simp add: heap_sizeof_def eq word_le_nat_alt)
qed

lemma heap_alloc_nonnull:
  assumes "heap_wf s hs" and "\<And>k. k \<in> set hs \<Longrightarrow> pinned s k" and "unat n + 29 < 2 ^ 32"
    and "hs = us @ q @ vs" and "list_all (available s) q" and "unat (alloc_size n) \<le> bytes s q"
  shows "\<exists>s' p. heap_alloc hk s n = Some (s', p) \<and> p \<noteq> NULL"
proof -
  have "0 < unat (alloc_size n)" using alloc_size_bounds(4) [OF assms(3)] by simp
  then obtain r where r: "find_run s (unat (alloc_size n)) [] hs = Some r"
    using find_run_complete [of s "unat (alloc_size n)" "[]" hs us q vs] assms(4-6)
    by (cases "find_run s (unat (alloc_size n)) [] hs") auto
  from heap_alloc_some [OF assms(1-3) r, of hk] obtain s' ys rest zs where
    ret: "heap_alloc hk s n = Some (s', hd_or NULL r + sizeof_heap_header)"
    and wf: "heap_wf s' (ys @ [hd_or NULL r] @ rest @ zs)" by metis
  have "hd_or NULL r + sizeof_heap_header \<noteq> NULL"
    using block_pointer(1) [OF wf, of "hd_or NULL r" 0] heap_wf_bsize [OF wf, of "hd_or NULL r"] by simp
  with ret show ?thesis by blast
qed

definition demo_heap :: heap_state where
  "demo_heap =
     \<lparr>hdrs = (\<lambda>_. \<lparr>hh_size = 0, hh_flags = 0, hh_update_ref = Absolute_ptr NULL, hh_next = NULL, hh_prev = NULL\<rparr>)
        (4096 := \<lparr>hh_size = 100, hh_flags = KIND_IMMOVABLE, hh_update_ref = Absolute_ptr NULL, hh_next = 4196, hh_prev = NULL\<rparr>,
         4196 := \<lparr>hh_size = 64, hh_flags = KIND_AVAILABLE, hh_update_ref = Absolute_ptr NULL, hh_next = 4260, hh_prev = 4096\<rparr>,
         4260 := \<lparr>hh_size = 200, hh_flags = KIND_AVAILABLE, hh_update_ref = Absolute_ptr NULL, hh_next = NULL, hh_prev = 4196\<rparr>),
      hp = \<lparr>heap_base = 4096, total_memory = 364, used_memory = 100\<rparr>\<rparr>"

definition demo_heap2 :: heap_state where
  "demo_heap2 =
     \<lparr>hdrs = (\<lambda>_. \<lparr>hh_size = 0, hh_flags = 0, hh_update_ref = Absolute_ptr NULL, hh_next = NULL, hh_prev = NULL\<rparr>)
        (4096 := \<lparr>hh_size = 100, hh_flags = KIND_AVAILABLE, hh_update_ref = Absolute_ptr NULL, hh_next = 4196, hh_prev = NULL\<rparr>,
         4196 := \<lparr>hh_size = 64, hh_flags = KIND_IMMOVABLE, hh_update_ref = Absolute_ptr NULL, hh_next = NULL, hh_prev = 4096\<rparr>),
      hp = \<lparr>heap_base = 4096, total_memory = 164, used_memory = 64\<rparr>\<rparr>"

definition demo_hooks :: "heap_state heap_hooks" where
  "demo_hooks = \<lparr>hk_memcpy = (\<lambda>_ _ _ s. s), hk_update_capability = (\<lambda>_ _ s. Some s),
     hk_function = (\<lambda>_ _ s. Some s), hk_store_pointer = (\<lambda>_ _ s. s)\<rparr>"

lemma demo_heap_wf: "heap_wf demo_heap [4096, 4196, 4260]"
  "\<forall>k \<in> set [4096, 4196, 4260]. pinned demo_heap k"
  by (simp_all add: heap_wf_def heap_linked_def demo_heap_def bsize_def available_def pinned_def GET_KIND_def heap_consts)

lemma demo_heap2_wf: "heap_wf demo_heap2 [4096, 4196]"
  by (simp add: heap_wf_def heap_linked_def demo_heap2_def bsize_def available_def GET_KIND_def heap_consts)

text \<open>
  C1: on a well-formed heap without movable blocks, an allocation returns whenever some run of
  adjacent available blocks is large enough (header and rounding to four bytes included). The
  block it returns was available, is in use afterwards and holds at least the bytes asked for;
  the heap stays well formed, every block that was in use is still there with its size
  and kind, and the counter of used memory grows by exactly the size of the new block.
\<close>

theorem heap_alloc_finds_run:
  assumes "heap_wf s hs" and "\<forall>k \<in> set hs. pinned s k" and "unat n + 29 < 2 ^ 32"
    and "hs = us @ q @ vs" and "list_all (available s) q" and "unat (alloc_size n) \<le> bytes s q"
  shows "\<exists>s' p hs'. heap_alloc hk s n = Some (s', p) \<and> p \<noteq> NULL \<and> heap_wf s' hs'
    \<and> header_of p \<in> set hs \<and> header_of p \<in> set hs'
    \<and> available s (header_of p) \<and> GET_KIND (hdrs s' (header_of p)) = KIND_IMMOVABLE
    \<and> n \<le> heap_sizeof p s'
    \<and> (\<forall>k \<in> set hs. \<not> available s k \<longrightarrow> k \<in> set hs' \<and> same_block s s' k)
    \<and> used_memory (hp s') = used_memory (hp s) + hh_size (hdrs s' (header_of p))"
proof -
  have pin: "\<And>k. k \<in> set hs \<Longrightarrow> pinned s k" using assms(2) by blast
  have "28 \<le> unat (alloc_size n)" using alloc_size_bounds(4) [OF assms(3)] .
  then obtain r where r: "find_run s (unat (alloc_size n)) [] hs = Some r"
    using find_run_complete [of s "unat (alloc_size n)" "[]" hs us q vs] assms(4-6)
    by (cases "find_run s (unat (alloc_size n)) [] hs") auto
  let ?st = "hd_or NULL r" and ?rest = "if unat (alloc_size n) + 26 < bytes s r then [hd_or NULL r + alloc_size n] else []"
  from heap_alloc_some [OF assms(1) pin assms(3) r, of hk] obtain s' ys zs where
    hs: "hs = ys @ r @ zs" "r \<noteq> []" "list_all (available s) r"
    and ret: "heap_alloc hk s n = Some (s', ?st + sizeof_heap_header)"
    and c: "claimed s s' ys ?st ?rest zs (bytes s r)"
    and wf: "heap_wf s' (ys @ [?st] @ ?rest @ zs)" and big: "unat (alloc_size n) \<le> bytes s r" .
  have "unat (alloc_size n) \<le> bsize s' ?st"
    using c big claimed_rest [of s s' ys ?st "alloc_size n" zs "bytes s r"]
    by (cases "unat (alloc_size n) + 26 < bytes s r") (auto simp: claimed_def)
  then have "unat n + 26 \<le> bsize s' ?st" using alloc_size_bounds(1) [OF assms(3)] by linarith
  note bp = block_pointer [OF wf _ this]
  have "?st \<in> set r" using hs(2) hd_or_in_set by metis
  moreover have "k \<in> set ys \<union> set zs" if "k \<in> set hs" "\<not> available s k" for k
    using that hs by (auto simp: list_all_iff)
  ultimately show ?thesis using ret wf bp c hs
    by (intro exI [of _ s'] exI [of _ "?st + sizeof_heap_header"] exI [of _ "ys @ [?st] @ ?rest @ zs"])
       (auto simp: claimed_def list_all_iff)
qed

theorem heap_alloc_finds_run_witness:
  "\<exists>s' p hs'. heap_alloc demo_hooks demo_heap 180 = Some (s', p) \<and> p \<noteq> NULL \<and> heap_wf s' hs'
    \<and> header_of p \<in> set [4096, 4196, 4260] \<and> header_of p \<in> set hs'
    \<and> available demo_heap (header_of p) \<and> GET_KIND (hdrs s' (header_of p)) = KIND_IMMOVABLE
    \<and> 180 \<le> heap_sizeof p s'
    \<and> (\<forall>k \<in> set [4096, 4196, 4260]. \<not> available demo_heap k \<longrightarrow> k \<in> set hs' \<and> same_block demo_heap s' k)
    \<and> used_memory (hp s') = used_memory (hp demo_heap) + hh_size (hdrs s' (header_of p))"
  by (rule heap_alloc_finds_run [OF demo_heap_wf, of 180 "[4096]" "[4196, 4260]" "[]" demo_hooks])
     (simp_all add: demo_heap_def available_def GET_KIND_def heap_consts alloc_size_def bsize_def)

text \<open>
  C28: the other way round, an allocation on a well-formed heap without movable blocks that returns NULL leaves the heap as it
  was, and it does so only when no run of adjacent available blocks is large enough.
\<close>

theorem heap_alloc_fails_only_when_full:
  assumes "heap_wf s hs" and "\<forall>k \<in> set hs. pinned s k" and "unat n + 29 < 2 ^ 32"
    and "heap_alloc hk s n = Some (s', NULL)"
  shows "s' = s \<and> (\<forall>us q vs. hs = us @ q @ vs \<and> list_all (available s) q
    \<longrightarrow> bytes s q < unat (alloc_size n))"
proof -
  have pin: "\<And>k. k \<in> set hs \<Longrightarrow> pinned s k" using assms(2) by blast
  show ?thesis
  proof (cases "find_run s (unat (alloc_size n)) [] hs")
    case None
    have "0 < unat (alloc_size n)" using alloc_size_bounds(4) [OF assms(3)] by simp
    with None assms(4) heap_alloc_pinned [OF assms(1) pin assms(3), of hk]
      find_run_complete [of s "unat (alloc_size n)" "[]" hs] show ?thesis by auto
  next
    case (Some r)
    from heap_alloc_some [OF assms(1) pin assms(3) Some, of hk] obtain t ys zs rest where
      r: "heap_alloc hk s n = Some (t, hd_or NULL r + sizeof_heap_header)"
      and wf: "heap_wf t (ys @ [hd_or NULL r] @ rest @ zs)" by metis
    have "hd_or NULL r + sizeof_heap_header \<noteq> NULL"
      using block_pointer(1) [OF wf, of "hd_or NULL r" 0] heap_wf_bsize [OF wf, of "hd_or NULL r"] by simp
    with r assms(4) show ?thesis by simp
  qed
qed

theorem heap_alloc_fails_only_when_full_witness:
  "heap_wf demo_heap [4096, 4196, 4260] \<and> heap_alloc demo_hooks demo_heap 300 = Some (demo_heap, NULL)
    \<and> list_all (available demo_heap) [4196, 4260] \<and> \<not> available demo_heap 4096
    \<and> bytes demo_heap [4196, 4260] < unat (alloc_size 300)"
proof -
  have "heap_alloc demo_hooks demo_heap 300 = Some (demo_heap, NULL)"
    by (subst heap_alloc.simps) (simp add: Let_def demo_heap_def alloc_size_def heap_consts)
  moreover have "list_all (available demo_heap) [4196, 4260]" "\<not> available demo_heap 4096"
    by (simp_all add: demo_heap_def available_def GET_KIND_def heap_consts)
  moreover have "\<forall>us q vs. [4096, 4196, 4260] = us @ q @ vs \<and> list_all (available demo_heap) q \<longrightarrow> bytes demo_heap q < unat (alloc_size 300)"
    using heap_alloc_fails_only_when_full [OF demo_heap_wf _ calculation(1)] by simp
  from this [THEN spec, of "[4096]", THEN spec, of "[4196, 4260]", THEN spec, of "[]"]
  have "list_all (available demo_heap) [4196, 4260] \<longrightarrow> bytes demo_heap [4196, 4260] < unat (alloc_size 300)" by simp
  ultimately show ?thesis using demo_heap_wf(1) by blast
qed

text \<open>
  Freeing a block whose successor is not available keeps the heap well formed: the block
  becomes available, or becomes part of the available block in front of it, its bytes are no longer
  counted as used, and every other block keeps its size and kind.
\<close>

lemma heap_free_keeps_wf:
  assumes "heap_wf s (ys @ h # zs)" and "\<not> available s h" and "header_of ptr = h"
    and "zs = [] \<or> \<not> available s (hd_or NULL zs)"
  shows "(if ys \<noteq> [] \<and> available s (last ys)
          then heap_wf (heap_free ptr s) (ys @ zs)
            \<and> bsize (heap_free ptr s) (last ys) = bsize s (last ys) + bsize s h
          else heap_wf (heap_free ptr s) (ys @ h # zs) \<and> available (heap_free ptr s) h
            \<and> bsize (heap_free ptr s) h = bsize s h)
    \<and> unat (used_memory (hp (heap_free ptr s))) = unat (used_memory (hp s)) - bsize s h
    \<and> (\<forall>k \<in> set ys \<union> set zs. k \<noteq> last ys \<or> \<not> available s (last ys) \<longrightarrow> same_block s (heap_free ptr s) k)"
proof (cases "ys \<noteq> [] \<and> available s (last ys)")
  case True
  then obtain us p where ys: "ys = us @ [p]" "available s p" by (cases ys rule: rev_cases) auto
  note f = free_block_wf [OF assms(1,2)]
  have eq: "heap_free ptr s = free_merge_prev h (free_block h s)"
    using heap_free_merges [OF assms] True ys by simp
  have dis: "distinct (ys @ h # zs)" using heap_wf_distinct [OF assms(1)] .
  have p: "same_block s (free_block h s) p" using f(4) [of p] dis ys by auto
  have wf: "heap_wf (free_block h s) (us @ p # h # zs)" using f(1) ys by simp
  have "available (free_block h s) p" using p ys(2) by (simp add: same_block_def available_def)
  note m = free_merge_prev_wf [OF wf this f(2)]
  have "same_block s (free_merge_prev h (free_block h s)) k" if "k \<in> set us \<union> set zs" for k
    using m(4) [OF that] f(4) [of k] same_block_trans dis that ys by auto
  then show ?thesis using True ys f(3,5) m p unfolding eq by (auto simp: same_block_def)
next
  case False
  note f = free_block_wf [OF assms(1,2)]
  have "heap_free ptr s = free_block h s"
    using heap_free_merges [OF assms] False by (auto simp: last_or_def)
  moreover have "h \<notin> set ys \<union> set zs" using heap_wf_distinct [OF assms(1)] by auto
  then have "\<forall>k \<in> set ys \<union> set zs. same_block s (free_block h s) k" using f(4) by metis
  ultimately show ?thesis using f(1-3,5) False by auto
qed

lemma heap_free_keeps_wf_example:
  "heap_wf (heap_free 4222 demo_heap2) [4096] \<and> bsize (heap_free 4222 demo_heap2) 4096 = 164
   \<and> used_memory (hp (heap_free 4222 demo_heap2)) = 0"
proof -
  have av: "available demo_heap2 4096" "\<not> available demo_heap2 4196" "header_of 4222 = 4196"
    "bsize demo_heap2 4096 = 100" "bsize demo_heap2 4196 = 64" "used_memory (hp demo_heap2) = 64"
    by (simp_all add: demo_heap2_def available_def GET_KIND_def heap_consts header_of_def bsize_def)
  have "heap_wf demo_heap2 ([4096] @ 4196 # [])" by (simp add: demo_heap2_wf)
  from heap_free_keeps_wf [OF this av(2,3)] av show ?thesis
    by (simp add: word_unat_eq_iff)
qed

text \<open>
  C39: freeing a block whose successor is available, and not the last block, and whose predecessor, if it has one, is not
  available, never gives a well-formed heap: the freed block grows by the size of its successor, but the successor stays
  in the list, so its bytes belong to two blocks.
\<close>

theorem heap_free_keeps_merged_block:
  assumes "heap_wf s (ys @ h # n # z # zs)" and "\<not> available s h" and "available s n"
    and "header_of ptr = h" and "ys = [] \<or> \<not> available s (last ys)"
  shows "\<not> (\<exists>hs'. heap_wf (heap_free ptr s) hs')"
proof
  assume "\<exists>hs'. heap_wf (heap_free ptr s) hs'"
  then obtain hs' where wf': "heap_wf (heap_free ptr s) hs'" ..
  note f = free_block_wf [OF assms(1,2)]
  let ?hs = "ys @ h # n # z # zs" and ?s2 = "free_block h s"
  have seg: "dseg (prev_of s) (next_of s) NULL ?hs NULL" and dis: "distinct ?hs"
    using assms(1) heap_wf_distinct [OF assms(1)] by (simp_all add: heap_wf_def heap_linked_def)
  have hd: "heap_base (hp s) = hd_or h ys" using assms(1) by (simp add: heap_wf_def heap_linked_def)
  have nav: "available ?s2 n" using assms(3) dis by (auto simp: available_def)
  have nx: "next_of s h = n" "next_of s n = z" "n \<noteq> NULL" "prev_of s h = last_or NULL ys" using seg by auto
  define s3 where "s3 = free_merge_next h ?s2"
  have ne: "n \<noteq> h" "h \<noteq> z" "n \<noteq> z" using dis by auto
  have s3: "s3 = (let t = upd_hdr h (\<lambda>x. x\<lparr>hh_size := hh_size x + hh_size (hdrs s n)\<rparr>) ?s2
      in if next_of s z \<noteq> NULL then upd_hdr (next_of s z) (\<lambda>x. x\<lparr>hh_prev := h\<rparr>) t else t)"
    unfolding s3_def free_merge_next_def Let_def using nav nx ne by (simp add: available_def)
  have nz: "next_of s z = hd_or NULL zs" using seg by simp
  have zh: "hd_or NULL zs \<noteq> h" using seg dis by (cases zs) auto
  have s3_nx: "next_of s3 = next_of s" and s3_kind: "GET_KIND (hdrs s3 k) = GET_KIND (hdrs ?s2 k)"
    and s3_h: "prev_of s3 h = last_or NULL ys" "hh_size (hdrs s3 h) = hh_size (hdrs s h) + hh_size (hdrs s n)"
    and s3_hp: "hp s3 = hp ?s2" for k
    using zh nz nx(4) by (auto simp: s3 Let_def GET_KIND_def fun_eq_iff)
  have "last_or NULL ys = NULL \<or> GET_KIND (hdrs s3 (last_or NULL ys)) \<noteq> KIND_AVAILABLE"
    using assms(5) dis last_or_in_set [of ys NULL] unfolding s3_kind
    by (cases "ys = []") (auto simp: last_or_def available_def)
  then have "free_merge_prev h s3 = s3" using s3_h(1) by (auto simp: free_merge_prev_def Let_def)
  then have "heap_free ptr s = s3" using assms(4) by (simp add: heap_free_def s3_def)
  with wf' have lk': "heap_linked s3 hs'" by (simp add: heap_wf_def)
  have "hs' = ?hs"
  proof (rule dseg_unique)
    show "dseg (prev_of s3) (next_of s) NULL hs' NULL" using lk' by (simp add: heap_linked_def s3_nx)
    show "dseg (prev_of s) (next_of s) NULL ?hs NULL" by (rule seg)
    show "hd_or NULL hs' = hd_or NULL ?hs"
      using lk' hd s3_hp by (simp add: heap_linked_def free_block_def)
  qed
  with lk' have "unat n = unat h + bsize s3 h" by (auto simp: heap_linked_def)
  moreover have "unat n = unat h + bsize s h" using assms(1) by (auto simp: heap_wf_def heap_linked_def)
  moreover have "bsize s3 h = bsize s h + bsize s n"
    using heap_wf_bytes [OF assms(1)] by (simp add: bsize_def s3_h(2) unat_plus_no_wrap)
  moreover have "26 \<le> bsize s n" using heap_wf_bsize [OF assms(1), of n] by simp
  ultimately show False by simp
qed

theorem heap_free_keeps_merged_block_witness:
  "\<not> (\<exists>hs'. heap_wf (heap_free 4122 (fst (split_header 4260 64 demo_heap))) hs')"
proof -
  have lk: "heap_linked demo_heap ([4096, 4196] @ 4260 # [])"
    using demo_heap_wf(1) by (simp add: heap_wf_def)
  have at: "26 < unat (64 :: size_t)" "unat (64 :: size_t) + 26 < bsize demo_heap 4260"
    by (simp_all add: demo_heap_def bsize_def)
  note sp = split_header_linked [OF lk at] split_header_hdrs(2) [OF lk at]
  let ?s = "fst (split_header 4260 64 demo_heap)"
  have k: "k \<in> set [4096, 4196] \<union> set [] \<Longrightarrow> bsize ?s k = bsize demo_heap k
    \<and> available ?s k = available demo_heap k" for k
    using sp(6) by (simp add: available_def)
  have d: "available demo_heap 4196" "\<not> available demo_heap 4096" "available demo_heap 4260"
    "bsize demo_heap 4096 = 100" "bsize demo_heap 4196 = 64" "bsize demo_heap 4260 = 200"
    "total_memory (hp demo_heap) = 364" "used_memory (hp demo_heap) = 100"
    by (simp_all add: demo_heap_def available_def GET_KIND_def heap_consts bsize_def)
  have "heap_wf ?s ([] @ 4096 # 4196 # 4260 # [4324])"
    using sp k [of 4096] k [of 4196] d by (simp add: heap_wf_def)
  from heap_free_keeps_merged_block [OF this] show ?thesis
    using k [of 4096] k [of 4196] d by (simp add: header_of_def heap_consts)
qed

end
