(* ===== verification/Cap_Lookup.thy ===== *)
theory Cap_Lookup
  imports Scheduler Heap_Free
begin

unbundle bit_operations_syntax

text \<open>
  Looking up threads by their id and capabilities by their address
  (\<open>look_up_thread_by_id\<close> of \<open>core/kernel/threads.c\<close>, the lookup functions of
  \<open>core/kernel/capabilities.c\<close>). A lookup locks the memory of the node it is in and unlocks
  that of the node it came from; the properties are that nothing but the lock of the node found
  is left behind, that a lookup always ends, and that it finds the slot the address names in the
  tree of nodes.
\<close>

section \<open>Threads\<close>

text \<open>The loop over a bucket of the thread table; \<open>NULL\<close> when the thread is not in it.\<close>

partial_function (option) find_thread :: "kstate \<Rightarrow> uint16_t \<Rightarrow> addr \<Rightarrow> addr option" where
  "find_thread s tid t =
     (if t = NULL then Some NULL
      else if thread_id (threads s t) = tid then Some t
      else find_thread s tid (lnk_next (table_entry s t)))"

definition look_up_thread_by_id ::
    "uint16_t \<Rightarrow> uint8_t \<Rightarrow> kstate \<Rightarrow> (kstate \<times> bool \<times> addr) option" where
  "look_up_thread_by_id tid bucket s = do {
     t \<leftarrow> find_thread s tid (lc_start (thread_hash_table s bucket));
     (if t = NULL then Some (s, False, NULL)
      else let (s', locked) = heap_lock t s in Some (s', locked, t))
   }"

section \<open>Capabilities\<close>

record look_up_result =
  lr_slot :: addr
  lr_depth :: size_t
  lr_container :: addr
  lr_should_unlock :: bool

definition unlock_if :: "bool \<Rightarrow> addr \<Rightarrow> kstate \<Rightarrow> kstate" where
  "unlock_if should_unlock p s = (if should_unlock then heap_unlock p s else s)"

partial_function (option) look_up_loop ::
    "bool \<Rightarrow> size_t \<Rightarrow> size_t \<Rightarrow> size_t \<Rightarrow> addr \<Rightarrow> bool \<Rightarrow> kstate \<Rightarrow> (kstate \<times> look_up_result option) option" where
  "look_up_loop use_first_non_node address depth actual_depth node should_unlock s =
     (let bits = bits_of_node (nodes s node);
          index_in_node = address AND (num_slots (nodes s node) - 1);
          slot = slot_address node index_in_node;
          is_node = (cap_handlers (caps s slot) = Node_handlers)
      in if (use_first_non_node \<and> \<not> is_node) \<or> depth = bits then
           Some (s, Some \<lparr>lr_slot = slot, lr_depth = actual_depth + bits, lr_container = node,
                          lr_should_unlock = should_unlock\<rparr>)
         else if depth < bits \<or> \<not> is_node then Some (unlock_if should_unlock node s, None)
         else
           let (s1, next_should_unlock) = heap_lock (cap_resource (caps s slot)) s;
               next_node = cap_resource (caps s1 slot);
               s2 = unlock_if should_unlock node s1
           in look_up_loop use_first_non_node (shr address bits) (depth - bits) (actual_depth + bits)
                next_node next_should_unlock s2)"

definition look_up_capability ::
    "addr \<Rightarrow> size_t \<Rightarrow> size_t \<Rightarrow> kstate \<Rightarrow> (kstate \<times> look_up_result option) option" where
  "look_up_capability root address depth s =
     (if cap_handlers (caps s root) \<noteq> Node_handlers then Some (s, None)
      else
        let use_first_non_node = (depth = SIZE_MAX);
            address' = (if use_first_non_node then address else address AND (shl 1 depth - 1));
            (s1, should_unlock) = heap_lock (cap_resource (caps s root)) s
        in look_up_loop use_first_non_node address' depth 0 (cap_resource (caps s1 root)) should_unlock s1)"

definition unlock_looked_up_capability :: "look_up_result \<Rightarrow> kstate \<Rightarrow> kstate" where
  "unlock_looked_up_capability r s = unlock_if (lr_should_unlock r) (lr_container r) s"

definition look_up_capability_relative ::
    "size_t \<Rightarrow> size_t \<Rightarrow> kstate \<Rightarrow> (kstate \<times> look_up_result option) option" where
  "look_up_capability_relative address depth s =
     (if current_thread s = NULL then Some (s, None)
      else do {
        let (s1, should_unlock) = heap_lock (current_thread s) s;
        (s2, r) \<leftarrow> look_up_capability (current_thread s1) address depth s1;
        Some (unlock_if should_unlock (current_thread s2) s2, r)
      })"

definition look_up_capability_absolute ::
    "absolute_capability_address \<Rightarrow> kstate \<Rightarrow> (kstate \<times> look_up_result option) option" where
  "look_up_capability_absolute a s = do {
     (s1, should_unlock, thread) \<leftarrow> look_up_thread_by_id (aca_thread_id a) (aca_bucket_number a) s;
     (if thread = NULL then Some (s1, None)
      else do {
        (s2, r) \<leftarrow> look_up_capability thread (aca_address a) (aca_depth a) s1;
        Some (unlock_if should_unlock thread s2, r)
      })
   }"

section \<open>Locks are given back\<close>

lemma set_kind_back:
  assumes "hh_flags x AND 3 = 2"
  shows "SET_KIND (SET_KIND x KIND_IMMOVABLE) KIND_MOVABLE = x"
proof -
  have "((((hh_flags x AND NOT 3) OR 1) AND NOT 3) OR 2) = (hh_flags x AND NOT 3) OR (hh_flags x AND 3)"
    unfolding assms by (simp add: bit.conj_disj_distrib2 and.assoc)
  also have "\<dots> = hh_flags x" by (metis bit.conj_disj_distrib bit.disj_cancel_left and.right_neutral)
  finally show ?thesis by (simp add: SET_KIND_def heap_consts)
qed

lemma get_set_kind [simp]:
  "GET_KIND (SET_KIND x KIND_IMMOVABLE) = KIND_IMMOVABLE" "GET_KIND (SET_KIND x KIND_MOVABLE) = KIND_MOVABLE"
  by (simp_all add: GET_KIND_def SET_KIND_def heap_consts bit.conj_disj_distrib2 and.assoc)

definition movable :: "kstate \<Rightarrow> addr \<Rightarrow> bool" where
  "movable s p \<longleftrightarrow> GET_KIND (hdrs s (header_of p)) = KIND_MOVABLE"

definition lock_hdr :: "addr \<Rightarrow> kstate \<Rightarrow> kstate" where
  "lock_hdr p s = upd_hdr (header_of p) (\<lambda>x. SET_KIND x KIND_IMMOVABLE) s"

lemma heap_lock_alt: "heap_lock p s = (if movable s p then (lock_hdr p s, True) else (s, False))"
  by (simp add: heap_lock_def movable_def lock_hdr_def Let_def)

lemma upd_hdr_upd_hdr: "upd_hdr h f (upd_hdr h g s) = upd_hdr h (\<lambda>x. f (g x)) s"
  by (simp add: upd_hdr_def)

lemma upd_hdr_commute: "h \<noteq> k \<Longrightarrow> upd_hdr h f (upd_hdr k g s) = upd_hdr k g (upd_hdr h f s)"
  by (simp add: upd_hdr_def fun_upd_twist)

lemma upd_hdr_id: "f (hdrs s h) = hdrs s h \<Longrightarrow> upd_hdr h f s = s"
  by (simp add: upd_hdr_def)

lemma unlock_lock_hdr:
  assumes "movable s p"
  shows "heap_unlock p (lock_hdr p s) = s"
proof -
  have "hh_flags (hdrs s (header_of p)) AND 3 = 2" using assms by (simp add: movable_def GET_KIND_def heap_consts)
  from set_kind_back [OF this] show ?thesis
    by (simp add: heap_unlock_def lock_hdr_def upd_hdr_upd_hdr upd_hdr_id)
qed

lemma lock_hdr_simps [simp]:
  "caps (lock_hdr p s) = caps s" "nodes (lock_hdr p s) = nodes s" "threads (lock_hdr p s) = threads s"
  "current_thread (lock_hdr p s) = current_thread s" "table_entry (lock_hdr p s) = table_entry s"
  "thread_hash_table (lock_hdr p s) = thread_hash_table s"
  by (simp_all add: lock_hdr_def upd_hdr_def)

lemma heap_unlock_simps [simp]:
  "caps (heap_unlock p s) = caps s" "nodes (heap_unlock p s) = nodes s" "threads (heap_unlock p s) = threads s"
  "current_thread (heap_unlock p s) = current_thread s" "table_entry (heap_unlock p s) = table_entry s"
  "thread_hash_table (heap_unlock p s) = thread_hash_table s"
  by (simp_all add: heap_unlock_def upd_hdr_def)

text \<open>
  The state of a lookup: the state \<open>s\<close> it started in, with the node it is in locked if that node
  was movable.
\<close>

definition holds_lock :: "kstate \<Rightarrow> addr \<Rightarrow> bool \<Rightarrow> kstate" where
  "holds_lock s p b = (if b then lock_hdr p s else s)"

lemma holds_lock_simps [simp]:
  "caps (holds_lock s p b) = caps s" "nodes (holds_lock s p b) = nodes s"
  "current_thread (holds_lock s p b) = current_thread s"
  by (simp_all add: holds_lock_def)

lemma unlock_holds_lock: "(b \<longrightarrow> movable s p) \<Longrightarrow> unlock_if b p (holds_lock s p b) = s"
  by (simp add: unlock_if_def holds_lock_def unlock_lock_hdr)

lemma movable_lock_hdr: "movable (lock_hdr p s) q \<longleftrightarrow> header_of q \<noteq> header_of p \<and> movable s q"
  by (auto simp: movable_def lock_hdr_def)

lemma lock_next:
  assumes "b \<longrightarrow> movable s p" and "heap_lock q (holds_lock s p b) = (s1, b')"
  shows "(b' \<longrightarrow> movable s q) \<and> unlock_if b p s1 = holds_lock s q b'"
proof (cases b)
  case False
  with assms(2) show ?thesis
    by (auto simp: holds_lock_def heap_lock_alt unlock_if_def split: if_splits)
next
  case True
  then have mp: "movable s p" using assms(1) by simp
  show ?thesis
  proof (cases "movable s q \<and> header_of q \<noteq> header_of p")
    case move: True
    then have "s1 = lock_hdr q (lock_hdr p s)" "b'" using True assms(2)
      by (auto simp: holds_lock_def heap_lock_alt movable_lock_hdr)
    moreover have "lock_hdr q (lock_hdr p s) = lock_hdr p (lock_hdr q s)"
      unfolding lock_hdr_def using move by (intro upd_hdr_commute) simp
    moreover have "movable (lock_hdr q s) p" using mp move by (auto simp: movable_lock_hdr)
    ultimately show ?thesis using True move unlock_lock_hdr [of "lock_hdr q s" p]
      by (simp add: unlock_if_def holds_lock_def)
  next
    case False
    then have "s1 = lock_hdr p s" "\<not> b'" using True assms(2)
      by (auto simp: holds_lock_def heap_lock_alt movable_lock_hdr split: if_splits)
    then show ?thesis using True mp by (simp add: unlock_if_def holds_lock_def unlock_lock_hdr)
  qed
qed

lemma look_up_loop_locks:
  assumes "look_up_loop u address depth actual node b s1 = Some (s2, r)"
    and "b \<longrightarrow> movable s node" and "s1 = holds_lock s node b"
  shows "case r of None \<Rightarrow> s2 = s
    | Some x \<Rightarrow> (lr_should_unlock x \<longrightarrow> movable s (lr_container x))
        \<and> s2 = holds_lock s (lr_container x) (lr_should_unlock x)"
proof -
  let ?Q = "\<lambda>b node s1 (s2 :: kstate, r). (b \<longrightarrow> movable s node) \<and> s1 = holds_lock s node b \<longrightarrow>
    (case r of None \<Rightarrow> s2 = s | Some x \<Rightarrow> (lr_should_unlock x \<longrightarrow> movable s (lr_container x))
        \<and> s2 = holds_lock s (lr_container x) (lr_should_unlock x))"
  have "?Q b node s1 (s2, r)"
  proof (rule look_up_loop.raw_induct [where P = "\<lambda>u a d ac node b s1 z. ?Q b node s1 z", OF _ assms(1)])
    fix f u a d ac n b' t z
    assume IH: "\<And>u a d ac n b' t z. f u a d ac n b' t = Some z \<Longrightarrow> ?Q b' n t z"
      and eq: "(let bits = bits_of_node (nodes t n); index_in_node = a AND (num_slots (nodes t n) - 1);
          slot = slot_address n index_in_node; is_node = (cap_handlers (caps t slot) = Node_handlers)
      in if (u \<and> \<not> is_node) \<or> d = bits then
           Some (t, Some \<lparr>lr_slot = slot, lr_depth = ac + bits, lr_container = n, lr_should_unlock = b'\<rparr>)
         else if d < bits \<or> \<not> is_node then Some (unlock_if b' n t, None)
         else
           let (s1, next_should_unlock) = heap_lock (cap_resource (caps t slot)) t;
               next_node = cap_resource (caps s1 slot);
               s2 = unlock_if b' n s1
           in f u (shr a bits) (d - bits) (ac + bits) next_node next_should_unlock s2) = Some z"
    show "?Q b' n t z"
    proof (cases z)
      case (Pair t2 r2)
      show ?thesis unfolding Pair
      proof (clarify)
        assume inv: "b' \<longrightarrow> movable s n" "t = holds_lock s n b'"
        show "case r2 of None \<Rightarrow> t2 = s | Some x \<Rightarrow> (lr_should_unlock x \<longrightarrow> movable s (lr_container x))
          \<and> t2 = holds_lock s (lr_container x) (lr_should_unlock x)"
        proof -
          define slot where "slot = slot_address n (a AND (num_slots (nodes t n) - 1))"
          obtain t1 b1 where lk: "heap_lock (cap_resource (caps t slot)) t = (t1, b1)" by fastforce
          have nx: "(b1 \<longrightarrow> movable s (cap_resource (caps t slot)))
            \<and> unlock_if b' n t1 = holds_lock s (cap_resource (caps t slot)) b1"
            using lock_next [OF inv(1)] lk inv(2) by metis
          have c1: "caps t1 = caps t" using lk by (auto simp: heap_lock_alt split: if_splits)
          show ?thesis
            using eq unfolding Let_def slot_def [symmetric] lk prod.case c1
          proof (auto split: if_splits)
          qed (use inv unlock_holds_lock [OF inv(1)] Pair IH nx in force)+
        qed
      qed
    qed
  qed
  then show ?thesis using assms(2,3) by simp
qed

text \<open>What a lookup that started in \<open>s\<close> may leave: nothing, or the lock of the node found.\<close>

definition lookup_leaves :: "kstate \<Rightarrow> kstate \<Rightarrow> look_up_result option \<Rightarrow> bool" where
  "lookup_leaves s s' r \<longleftrightarrow> (case r of None \<Rightarrow> s' = s
    | Some x \<Rightarrow> (lr_should_unlock x \<longrightarrow> movable s (lr_container x))
        \<and> s' = holds_lock s (lr_container x) (lr_should_unlock x))"

lemma look_up_capability_leaves:
  assumes "look_up_capability root address depth s = Some (s', r)"
  shows "lookup_leaves s s' r"
proof (cases "cap_handlers (caps s root) = Node_handlers")
  case True
  obtain s1 b where lk: "heap_lock (cap_resource (caps s root)) s = (s1, b)" by fastforce
  then have "b \<longrightarrow> movable s (cap_resource (caps s root))" "s1 = holds_lock s (cap_resource (caps s root)) b"
    "caps s1 = caps s"
    by (auto simp: heap_lock_alt holds_lock_def split: if_splits)
  with look_up_loop_locks assms True lk show ?thesis
    by (simp add: look_up_capability_def lookup_leaves_def Let_def)
qed (use assms in \<open>simp add: look_up_capability_def lookup_leaves_def\<close>)

lemma lookup_leaves_unlock:
  assumes "lookup_leaves (holds_lock s p b) s' r" and "b \<longrightarrow> movable s p"
  shows "lookup_leaves s (unlock_if b p s') r"
proof (cases r)
  case None
  with assms show ?thesis by (simp add: lookup_leaves_def unlock_holds_lock)
next
  case (Some x)
  let ?q = "lr_container x" and ?c = "lr_should_unlock x"
  show ?thesis
  proof (cases ?c)
    case True
    then have "heap_lock ?q (holds_lock s p b) = (s', True)"
      using assms(1) Some by (simp add: lookup_leaves_def heap_lock_alt holds_lock_def)
    from lock_next [OF assms(2) this] True Some show ?thesis by (simp add: lookup_leaves_def)
  next
    case False
    with assms Some show ?thesis by (simp add: lookup_leaves_def holds_lock_def unlock_if_def unlock_lock_hdr)
  qed
qed

lemma look_up_capability_relative_leaves:
  assumes "look_up_capability_relative address depth s = Some (s', r)"
  shows "lookup_leaves s s' r"
proof (cases "current_thread s = NULL")
  case False
  define b where "b = movable s (current_thread s)"
  have lk: "heap_lock (current_thread s) s = (holds_lock s (current_thread s) b, b)"
    by (simp add: heap_lock_alt holds_lock_def b_def)
  obtain s2 where s2: "look_up_capability (current_thread s) address depth (holds_lock s (current_thread s) b) = Some (s2, r)"
    "s' = unlock_if b (current_thread s2) s2"
    using assms False lk by (auto simp: look_up_capability_relative_def bind_eq_Some_conv)
  note lv = look_up_capability_leaves [OF s2(1)]
  then have "current_thread s2 = current_thread s" by (auto simp: lookup_leaves_def split: option.splits)
  with lookup_leaves_unlock [OF lv] s2(2) show ?thesis by (simp add: b_def)
qed (use assms in \<open>simp add: look_up_capability_relative_def lookup_leaves_def\<close>)

lemma look_up_thread_by_id_locks:
  assumes "look_up_thread_by_id tid bucket s = Some (s1, b, t)"
  shows "(b \<longrightarrow> movable s t) \<and> s1 = holds_lock s t b \<and> (b \<longrightarrow> t \<noteq> NULL)"
  using assms by (auto simp: look_up_thread_by_id_def bind_eq_Some_conv heap_lock_alt holds_lock_def split: if_splits)

lemma look_up_capability_absolute_leaves:
  assumes "look_up_capability_absolute a s = Some (s', r)"
  shows "lookup_leaves s s' r"
proof -
  from assms obtain s1 b t where
    th: "look_up_thread_by_id (aca_thread_id a) (aca_bucket_number a) s = Some (s1, b, t)"
    and rest: "(if t = NULL then Some (s1, None) else do {
        (s2, r) \<leftarrow> look_up_capability t (aca_address a) (aca_depth a) s1;
        Some (unlock_if b t s2, r) }) = Some (s', r)"
    by (auto simp: look_up_capability_absolute_def bind_eq_Some_conv)
  note lk = look_up_thread_by_id_locks [OF th]
  show ?thesis
  proof (cases "t = NULL")
    case True
    with lk rest show ?thesis by (auto simp: lookup_leaves_def holds_lock_def)
  next
    case False
    with rest obtain s2 where s2: "look_up_capability t (aca_address a) (aca_depth a) s1 = Some (s2, r)"
      "s' = unlock_if b t s2" by (auto simp: bind_eq_Some_conv)
    from lookup_leaves_unlock [of s t b s2 r] look_up_capability_leaves [OF s2(1)] lk s2(2)
    show ?thesis by simp
  qed
qed

section \<open>Lookups end\<close>

text \<open>No capability in memory names a node without address bits.\<close>

definition nodes_have_bits :: "kstate \<Rightarrow> bool" where
  "nodes_have_bits s \<longleftrightarrow>
     (\<forall>c. cap_handlers (caps s c) = Node_handlers \<longrightarrow> 0 < slot_bits (nodes s (cap_resource (caps s c))))"

lemma look_up_loop_total:
  assumes "nodes_have_bits s" and "0 < slot_bits (nodes s node)"
  shows "\<exists>z. look_up_loop u address depth actual node b s = Some z"
  using assms
proof (induction "unat depth" arbitrary: depth address actual node b s rule: less_induct)
  case less
  define bits where "bits = bits_of_node (nodes s node)"
  define slot where "slot = slot_address node (address AND (num_slots (nodes s node) - 1))"
  have pos: "0 < unat bits" using less.prems(2)
    by (simp add: bits_def bits_of_node_def word_less_nat_alt)
  show ?case
  proof (cases "(u \<and> cap_handlers (caps s slot) \<noteq> Node_handlers) \<or> depth = bits
      \<or> depth < bits \<or> cap_handlers (caps s slot) \<noteq> Node_handlers")
    case True
    then show ?thesis by (subst look_up_loop.simps) (auto simp: Let_def bits_def slot_def)
  next
    case False
    obtain s1 b1 where lk: "heap_lock (cap_resource (caps s slot)) s = (s1, b1)" by fastforce
    then have s1: "caps s1 = caps s" "nodes s1 = nodes s" by (auto simp: heap_lock_alt split: if_splits)
    let ?s2 = "unlock_if b node s1"
    have s2: "caps ?s2 = caps s" "nodes ?s2 = nodes s" using s1 by (simp_all add: unlock_if_def)
    have le: "bits \<le> depth" using False by auto
    then have "unat (depth - bits) < unat depth"
      using pos by (simp add: unat_minus_no_wrap word_le_nat_alt)
    from less.hyps [OF this, of ?s2 "cap_resource (caps s slot)"] less.prems(1) False s2
    have "\<exists>z. look_up_loop u (shr address bits) (depth - bits) (actual + bits) (cap_resource (caps s slot)) b1 ?s2 = Some z"
      by (simp add: nodes_have_bits_def)
    then show ?thesis using False lk s1
      by (subst look_up_loop.simps) (simp add: Let_def bits_def [symmetric] slot_def [symmetric])
  qed
qed

lemma look_up_capability_total:
  assumes "nodes_have_bits s"
  shows "\<exists>z. look_up_capability root address depth s = Some z"
proof (cases "cap_handlers (caps s root) = Node_handlers")
  case True
  obtain s1 b where lk: "heap_lock (cap_resource (caps s root)) s = (s1, b)" by fastforce
  then have s1: "caps s1 = caps s" "nodes s1 = nodes s" by (auto simp: heap_lock_alt split: if_splits)
  have "nodes_have_bits s1" using assms s1 by (simp add: nodes_have_bits_def)
  moreover have "0 < slot_bits (nodes s1 (cap_resource (caps s root)))"
    using assms True s1 by (simp add: nodes_have_bits_def)
  ultimately show ?thesis using True lk s1 look_up_loop_total
    by (simp add: look_up_capability_def Let_def)
qed (simp add: look_up_capability_def)

section \<open>Addresses name paths of slots\<close>

text \<open>
  A path is a list of slot indices, one per node. Its address has the first index in the lowest
  bits; its depth is the sum of the nodes' bits.
\<close>

fun path_slot :: "kstate \<Rightarrow> addr \<Rightarrow> size_t list \<Rightarrow> addr" where
  "path_slot s node [] = NULL"
| "path_slot s node (i # is) =
     (if is = [] then slot_address node i else path_slot s (cap_resource (caps s (slot_address node i))) is)"

fun path_container :: "kstate \<Rightarrow> addr \<Rightarrow> size_t list \<Rightarrow> addr" where
  "path_container s node [] = node"
| "path_container s node (i # is) =
     (if is = [] then node else path_container s (cap_resource (caps s (slot_address node i))) is)"

fun path_depth :: "kstate \<Rightarrow> addr \<Rightarrow> size_t list \<Rightarrow> nat" where
  "path_depth s node [] = 0"
| "path_depth s node (i # is) =
     unat (slot_bits (nodes s node)) + path_depth s (cap_resource (caps s (slot_address node i))) is"

fun path_address :: "kstate \<Rightarrow> addr \<Rightarrow> size_t list \<Rightarrow> size_t" where
  "path_address s node [] = 0"
| "path_address s node (i # is) =
     i OR push_bit (unat (slot_bits (nodes s node)))
            (path_address s (cap_resource (caps s (slot_address node i))) is)"

fun valid_path :: "kstate \<Rightarrow> addr \<Rightarrow> size_t list \<Rightarrow> bool" where
  "valid_path s node [] \<longleftrightarrow> False"
| "valid_path s node (i # is) \<longleftrightarrow>
     0 < slot_bits (nodes s node) \<and> unat i < 2 ^ unat (slot_bits (nodes s node))
     \<and> (is \<noteq> [] \<longrightarrow> cap_handlers (caps s (slot_address node i)) = Node_handlers
          \<and> valid_path s (cap_resource (caps s (slot_address node i))) is)"

lemma path_frame:
  assumes "caps s' = caps s" and "nodes s' = nodes s"
  shows "path_slot s' n is = path_slot s n is" "path_container s' n is = path_container s n is"
    "path_depth s' n is = path_depth s n is" "path_address s' n is = path_address s n is"
    "valid_path s' n is = valid_path s n is"
proof -
  show "path_slot s' n is = path_slot s n is" "path_container s' n is = path_container s n is"
    by (induction "is" arbitrary: n) (simp_all add: assms)
  show "path_depth s' n is = path_depth s n is" "path_address s' n is = path_address s n is"
    "valid_path s' n is = valid_path s n is"
    by (induction "is" arbitrary: n) (simp_all add: assms)
qed

lemma path_address_bits:
  "valid_path s n is \<Longrightarrow> take_bit (path_depth s n is) (path_address s n is) = path_address s n is"
proof (induction "is" arbitrary: n)
  case (Cons i "is")
  then have i: "take_bit (unat (slot_bits (nodes s n))) i = i" by (intro take_bit_small) simp
  show ?case
  proof (cases "is = []")
    case True
    with i show ?thesis by simp
  next
    case False
    with Cons take_bit_or_push_bit [OF i] show ?thesis by simp
  qed
qed simp

lemma path_depth_pos: "valid_path s n is \<Longrightarrow> 0 < path_depth s n is"
  by (cases "is") (auto simp: word_less_nat_alt)

lemma num_slots_push_bit:
  "unat (slot_bits n) \<le> 32 \<Longrightarrow> num_slots n = push_bit (unat (slot_bits n)) 1"
  by (simp add: num_slots_def shl_def bits_of_node_def)

lemma look_up_loop_path:
  assumes "valid_path s node is" and "path_depth s node is \<le> 32"
  shows "\<exists>s' b'. look_up_loop False (path_address s node is) (of_nat (path_depth s node is)) actual node b s =
     Some (s', Some \<lparr>lr_slot = path_slot s node is, lr_depth = actual + of_nat (path_depth s node is),
        lr_container = path_container s node is, lr_should_unlock = b'\<rparr>)"
  using assms
proof (induction "is" arbitrary: node actual b s)
  case (Cons i "is")
  define bits where "bits = slot_bits (nodes s node)"
  define slot where "slot = slot_address node i"
  define n where "n = cap_resource (caps s slot)"
  have i: "take_bit (unat bits) i = i" using Cons.prems by (intro take_bit_small) (simp add: bits_def)
  have b32: "unat bits \<le> 32" using Cons.prems(2) by (simp add: bits_def)
  have idx: "path_address s node (i # is) AND (num_slots (nodes s node) - 1) = i"
    using b32 or_push_bit_and_mask [OF i] by (simp add: num_slots_push_bit bits_def)
  have word_bits: "bits_of_node (nodes s node) = of_nat (unat bits)" by (simp add: bits_of_node_def bits_def)
  show ?case
  proof (cases "is = []")
    case True
    then show ?thesis using idx word_bits by (subst look_up_loop.simps) (simp add: Let_def bits_def)
  next
    case False
    define d where "d = path_depth s n is"
    have vp: "valid_path s n is" and node: "cap_handlers (caps s slot) = Node_handlers"
      using Cons.prems(1) False by (simp_all add: n_def slot_def)
    have d: "0 < d" "unat bits + d \<le> 32" "path_depth s node (i # is) = unat bits + d"
      using path_depth_pos [OF vp] Cons.prems(2) by (simp_all add: d_def bits_def n_def slot_def)
    obtain s1 b1 where lk: "heap_lock n s = (s1, b1)" by fastforce
    then have s1: "caps s1 = caps s" "nodes s1 = nodes s" by (auto simp: heap_lock_alt split: if_splits)
    let ?s2 = "unlock_if b node s1"
    have s2: "caps ?s2 = caps s" "nodes ?s2 = nodes s" using s1 by (simp_all add: unlock_if_def)
    note fr = path_frame [OF s2]
    have ne: "(of_nat (unat bits + d) :: size_t) \<noteq> of_nat (unat bits)" "\<not> (of_nat (unat bits + d) :: size_t) < of_nat (unat bits)"
      using d by (simp_all add: word_unat_eq_iff word_less_nat_alt unat_of_nat del: of_nat_add)
    have rest: "shr (path_address s node (i # is)) (bits_of_node (nodes s node)) = path_address s n is"
      using b32 drop_bit_or_push_bit [OF i path_address_bits [OF vp]] d
      by (simp add: shr_def bits_of_node_def bits_def n_def slot_def d_def)
    from Cons.IH [of ?s2 n "actual + of_nat (unat bits)" b1] vp d
    obtain s' b' where "look_up_loop False (path_address s n is) (of_nat d) (actual + of_nat (unat bits)) n b1 ?s2 =
      Some (s', Some \<lparr>lr_slot = path_slot s n is, lr_depth = actual + of_nat (unat bits) + of_nat d,
        lr_container = path_container s n is, lr_should_unlock = b'\<rparr>)"
      by (auto simp: fr d_def)
    then show ?thesis using False node ne rest idx lk s1 d(3)
      by (subst look_up_loop.simps)
        (simp add: Let_def word_bits slot_def [symmetric] n_def [symmetric] add.assoc)
  qed
qed simp

lemma look_up_capability_path:
  assumes "cap_handlers (caps s root) = Node_handlers"
    and "valid_path s (cap_resource (caps s root)) is" and "path_depth s (cap_resource (caps s root)) is \<le> 32"
  shows "\<exists>s' b'. look_up_capability root (path_address s (cap_resource (caps s root)) is)
      (of_nat (path_depth s (cap_resource (caps s root)) is)) s =
     Some (s', Some \<lparr>lr_slot = path_slot s (cap_resource (caps s root)) is,
        lr_depth = of_nat (path_depth s (cap_resource (caps s root)) is),
        lr_container = path_container s (cap_resource (caps s root)) is, lr_should_unlock = b'\<rparr>)"
proof -
  let ?n = "cap_resource (caps s root)"
  define d where "d = path_depth s ?n is"
  define a where "a = path_address s ?n is"
  obtain s1 b where lk: "heap_lock ?n s = (s1, b)" by fastforce
  then have s1: "caps s1 = caps s" "nodes s1 = nodes s" by (auto simp: heap_lock_alt split: if_splits)
  note fr = path_frame [OF s1]
  have du: "unat (of_nat d :: size_t) = d" using assms(3) by (simp add: unat_of_nat d_def)
  have "of_nat d \<noteq> SIZE_MAX"
  proof
    assume "of_nat d = SIZE_MAX"
    then have "d = unat SIZE_MAX" using du by simp
    then show False using assms(3) by (simp add: SIZE_MAX_def d_def unsigned_minus_1_eq_mask mask_eq_exp_minus_1)
  qed
  moreover have "a AND (shl 1 (of_nat d) - 1) = a"
    using or_push_bit_and_mask [of d a 0] path_address_bits [OF assms(2)] du assms(3)
    by (simp add: shl_def a_def d_def)
  ultimately show ?thesis using look_up_loop_path [of s1 ?n "is" 0 b] assms lk s1
    by (simp add: look_up_capability_def Let_def fr a_def [symmetric] d_def [symmetric])
qed

lemma look_up_capability_relative_total:
  assumes "nodes_have_bits s"
  shows "\<exists>z. look_up_capability_relative address depth s = Some z"
proof (cases "current_thread s = NULL")
  case False
  obtain s1 b where lk: "heap_lock (current_thread s) s = (s1, b)" by fastforce
  then have "nodes_have_bits s1" using assms
    by (auto simp: heap_lock_alt nodes_have_bits_def split: if_splits)
  from look_up_capability_total [OF this] obtain z where
    "look_up_capability (current_thread s1) address depth s1 = Some z" by blast
  then show ?thesis using False lk by (cases z) (simp add: look_up_capability_relative_def)
qed (simp add: look_up_capability_relative_def)

section \<open>Properties of lookups\<close>

definition demo_cspace :: kstate where
  "demo_cspace = zero_kstate\<lparr>current_thread := 512,
     caps := (\<lambda>_. zero_capability)(512 := zero_capability\<lparr>cap_handlers := Node_handlers, cap_resource := 1024\<rparr>,
       1098 := zero_capability\<lparr>cap_handlers := Node_handlers, cap_resource := 2048\<rparr>),
     copy_args := (\<lambda>_. \<lparr>source_address = 21, source_depth = 5, dest_slot = 2,
       args_access_rights = 1, args_badge = 7, should_set_badge = 0\<rparr>),
     nodes := (\<lambda>_. \<lparr>slot_bits = 2, nested_nodes = 1\<rparr>)(2048 := \<lparr>slot_bits = 3, nested_nodes = 2\<rparr>),
     hdrs := (hdrs zero_kstate)(998 := (hdrs zero_kstate 998)\<lparr>hh_flags := KIND_MOVABLE\<rparr>,
       2022 := (hdrs zero_kstate 2022)\<lparr>hh_flags := KIND_MOVABLE\<rparr>)\<rparr>"

lemma demo_cspace_bits: "nodes_have_bits demo_cspace"
  by (simp add: nodes_have_bits_def demo_cspace_def)

text \<open>
  C26: a capability lookup leaves exactly one trace in memory. When it fails, the state is the one
  it started in; when it finds a slot, unlocking the result restores the state it started in, and
  the result asks for unlocking only a node that was movable before.
\<close>

theorem look_up_capability_relative_restores:
  assumes "look_up_capability_relative address depth s = Some (s', r)"
  shows "case r of None \<Rightarrow> s' = s
    | Some x \<Rightarrow> unlock_looked_up_capability x s' = s \<and> (lr_should_unlock x \<longrightarrow> movable s (lr_container x))"
  using look_up_capability_relative_leaves [OF assms]
  by (auto simp: lookup_leaves_def unlock_looked_up_capability_def unlock_holds_lock split: option.splits)

theorem look_up_capability_relative_restores_witness:
  "\<exists>s' r. look_up_capability_relative 21 5 demo_cspace = Some (s', r)
    \<and> (case r of None \<Rightarrow> s' = demo_cspace | Some x \<Rightarrow> unlock_looked_up_capability x s' = demo_cspace)"
proof -
  obtain s' r where l: "look_up_capability_relative 21 5 demo_cspace = Some (s', r)"
    using look_up_capability_relative_total [OF demo_cspace_bits] by fast
  from look_up_capability_relative_restores [OF l] l show ?thesis by (auto split: option.splits)
qed

text \<open>
  C27: when every node named by a capability has at least one address bit, every lookup by the
  running thread returns, whatever address and depth it asks for. (A node of 0 bits, which \<open>alloc_node\<close> does not refuse, adds
  nothing to the depth reached; nodes of 0 bits that lead back to each other would be walked for ever.)
\<close>

theorem look_up_capability_relative_returns:
  assumes "nodes_have_bits s"
  shows "\<exists>s' r. look_up_capability_relative address depth s = Some (s', r)"
  using look_up_capability_relative_total [OF assms] by fast

theorem look_up_capability_relative_returns_witness:
  "\<exists>s' r. look_up_capability_relative 21 SIZE_MAX demo_cspace = Some (s', r)"
  by (rule look_up_capability_relative_returns [OF demo_cspace_bits])

lemma look_up_path:
  assumes "current_thread s = t" and "t \<noteq> NULL" and "cap_handlers (caps s t) = Node_handlers"
    and "valid_path s (cap_resource (caps s t)) is" and "path_depth s (cap_resource (caps s t)) is \<le> 32"
  shows "\<exists>s' r. look_up_capability_relative (path_address s (cap_resource (caps s t)) is)
      (of_nat (path_depth s (cap_resource (caps s t)) is)) s = Some (s', Some r)
    \<and> lr_slot r = path_slot s (cap_resource (caps s t)) is
    \<and> lr_container r = path_container s (cap_resource (caps s t)) is
    \<and> lr_depth r = of_nat (path_depth s (cap_resource (caps s t)) is)
    \<and> unlock_looked_up_capability r s' = s"
proof -
  let ?n = "cap_resource (caps s t)"
  obtain s1 b where lk: "heap_lock t s = (s1, b)" by fastforce
  then have s1: "caps s1 = caps s" "nodes s1 = nodes s" "current_thread s1 = t"
    using assms(1) by (auto simp: heap_lock_alt split: if_splits)
  from look_up_capability_path [of s1 t "is"] assms(3-5) s1 path_frame [OF s1(1,2)]
  obtain s2 b' where l: "look_up_capability t (path_address s ?n is) (of_nat (path_depth s ?n is)) s1 =
     Some (s2, Some \<lparr>lr_slot = path_slot s ?n is, lr_depth = of_nat (path_depth s ?n is),
        lr_container = path_container s ?n is, lr_should_unlock = b'\<rparr>)" by auto
  then obtain s' r where r: "look_up_capability_relative (path_address s ?n is) (of_nat (path_depth s ?n is)) s = Some (s', Some r)"
    "lr_slot r = path_slot s ?n is" "lr_container r = path_container s ?n is" "lr_depth r = of_nat (path_depth s ?n is)"
    using assms(1,2) lk s1(3) by (auto simp: look_up_capability_relative_def)
  moreover have "unlock_looked_up_capability r s' = s"
    using look_up_capability_relative_leaves [OF r(1)]
    by (simp add: lookup_leaves_def unlock_looked_up_capability_def unlock_holds_lock)
  ultimately show ?thesis by blast
qed

lemma demo_cspace_look_up:
  "\<exists>s' r. look_up_capability_relative 21 5 demo_cspace = Some (s', Some r)
    \<and> lr_slot r = slot_address 2048 5 \<and> lr_container r = 2048 \<and> unlock_looked_up_capability r s' = demo_cspace"
proof -
  have d: "current_thread demo_cspace = 512" "caps demo_cspace 512 = zero_capability\<lparr>cap_handlers := Node_handlers, cap_resource := 1024\<rparr>"
    "caps demo_cspace 1098 = zero_capability\<lparr>cap_handlers := Node_handlers, cap_resource := 2048\<rparr>"
    "slot_bits (nodes demo_cspace 1024) = 2" "slot_bits (nodes demo_cspace 2048) = 3" "slot_address 1024 1 = 1098"
    by (simp_all add: demo_cspace_def slot_address_def kernel_consts)
  have p: "valid_path demo_cspace (cap_resource (caps demo_cspace 512)) [1, 5]"
    "path_depth demo_cspace (cap_resource (caps demo_cspace 512)) [1, 5] = 5"
    "path_address demo_cspace (cap_resource (caps demo_cspace 512)) [1, 5] = 21"
    "path_slot demo_cspace (cap_resource (caps demo_cspace 512)) [1, 5] = slot_address 2048 5"
    "path_container demo_cspace (cap_resource (caps demo_cspace 512)) [1, 5] = 2048"
    by (simp_all add: d)
  from look_up_path [OF d(1) _ _ p(1), unfolded p(2-5)] d(2) show ?thesis by auto
qed

text \<open>
  C3: addresses name paths. For every path of slot indices through nodes of at most 32 bits
  altogether, looking up the path's address to the path's depth finds the slot at the end of the
  path, with its node as the container; unlocking the result restores the state.
\<close>

theorem look_up_capability_relative_path:
  assumes "current_thread s = t" and "t \<noteq> NULL" and "cap_handlers (caps s t) = Node_handlers"
    and "valid_path s (cap_resource (caps s t)) is" and "path_depth s (cap_resource (caps s t)) is \<le> 32"
  shows "\<exists>s' r. look_up_capability_relative (path_address s (cap_resource (caps s t)) is)
      (of_nat (path_depth s (cap_resource (caps s t)) is)) s = Some (s', Some r)
    \<and> lr_slot r = path_slot s (cap_resource (caps s t)) is
    \<and> lr_container r = path_container s (cap_resource (caps s t)) is
    \<and> lr_depth r = of_nat (path_depth s (cap_resource (caps s t)) is)
    \<and> unlock_looked_up_capability r s' = s"
  by (rule look_up_path [OF assms])

theorem look_up_capability_relative_path_witness:
  "\<exists>s' r. look_up_capability_relative 21 5 demo_cspace = Some (s', Some r)
    \<and> lr_slot r = slot_address 2048 5 \<and> lr_container r = 2048 \<and> unlock_looked_up_capability r s' = demo_cspace"
proof -
  have d: "current_thread demo_cspace = 512" "caps demo_cspace 512 = zero_capability\<lparr>cap_handlers := Node_handlers, cap_resource := 1024\<rparr>"
    "caps demo_cspace 1098 = zero_capability\<lparr>cap_handlers := Node_handlers, cap_resource := 2048\<rparr>"
    "slot_bits (nodes demo_cspace 1024) = 2" "slot_bits (nodes demo_cspace 2048) = 3" "slot_address 1024 1 = 1098"
    by (simp_all add: demo_cspace_def slot_address_def kernel_consts)
  have p: "valid_path demo_cspace (cap_resource (caps demo_cspace 512)) [1, 5]"
    "path_depth demo_cspace (cap_resource (caps demo_cspace 512)) [1, 5] = 5"
    "path_address demo_cspace (cap_resource (caps demo_cspace 512)) [1, 5] = 21"
    "path_slot demo_cspace (cap_resource (caps demo_cspace 512)) [1, 5] = slot_address 2048 5"
    "path_container demo_cspace (cap_resource (caps demo_cspace 512)) [1, 5] = 2048"
    by (simp_all add: d)
  from look_up_capability_relative_path [OF d(1) _ _ p(1), unfolded p(2-5)] d(2) show ?thesis by auto
qed

end
