(* ===== verification/Cap_Space.thy ===== *)
theory Cap_Space
  imports Cap_Lookup
begin

unbundle bit_operations_syntax

text \<open>
  The operations of \<open>core/kernel/capabilities.c\<close> on capabilities themselves: keeping the
  resource and derivation lists and the stored addresses up to date when a capability or its
  resource moves, and moving and copying capabilities. The callbacks for moved objects of
  \<open>threads.c\<close> and \<open>ipc.c\<close> are here too, because a moved resource calls them; they make up the
  hooks the heap gets.
\<close>

section \<open>References to a capability\<close>

abbreviation next_derived :: "kstate \<Rightarrow> addr \<Rightarrow> addr" where
  "next_derived s v \<equiv> nc_next (der_links s v)"

abbreviation next_sharing :: "kstate \<Rightarrow> addr \<Rightarrow> addr" where
  "next_sharing s v \<equiv> nc_next (res_links s v)"

text \<open>\<open>LIST_ITER_NO_CONTAINER\<close> over the derivation list and over the resource list of an item.\<close>

definition for_derived :: "(addr \<Rightarrow> kstate \<Rightarrow> kstate option) \<Rightarrow> addr \<Rightarrow> kstate \<Rightarrow> kstate option" where
  "for_derived body item s = iter_links next_derived body (nc_start (der_links s item)) s"

definition for_sharing :: "(addr \<Rightarrow> kstate \<Rightarrow> kstate option) \<Rightarrow> addr \<Rightarrow> kstate \<Rightarrow> kstate option" where
  "for_sharing body item s = iter_links next_sharing body (nc_start (res_links s item)) s"

definition update_capability_references :: "addr \<Rightarrow> kstate \<Rightarrow> kstate option" where
  "update_capability_references c s = do {
     rl \<leftarrow> LIST_UPDATE_ADDRESS_NO_CONTAINER (res_links s) c;
     let s1 = s\<lparr>res_links := rl\<rparr>;
     dl \<leftarrow> LIST_UPDATE_ADDRESS_NO_CONTAINER (der_links s1) c;
     let s2 = s1\<lparr>der_links := dl\<rparr>;
     s3 \<leftarrow> (if cap_flags (caps s2 c) AND (CAP_FLAG_ORIGINAL OR CAP_FLAG_BADGED) \<noteq> 0
               \<and> cap_derivation (caps s2 c) \<noteq> NULL
            then for_derived (\<lambda>v s. Some (upd_cap v (\<lambda>x. x\<lparr>cap_derived_from := c\<rparr>) s))
                   (cap_derivation (caps s2 c)) s2
            else Some s2);
     Some (if nc_prev (der_links s3 c) = NULL \<and> cap_derived_from (caps s3 c) \<noteq> NULL
           then upd_cap (cap_derived_from (caps s3 c)) (\<lambda>x. x\<lparr>cap_derivation := c\<rparr>) s3
           else s3)
   }"

text \<open>Copying the whole structure from one slot to another.\<close>

definition copy_slot :: "addr \<Rightarrow> addr \<Rightarrow> kstate \<Rightarrow> kstate" where
  "copy_slot to from s =
     s\<lparr>caps := (caps s)(to := caps s from), res_links := (res_links s)(to := res_links s from),
       der_links := (der_links s)(to := der_links s from)\<rparr>"

definition clear_handlers :: "addr \<Rightarrow> kstate \<Rightarrow> kstate" where
  "clear_handlers c s = upd_cap c (\<lambda>x. x\<lparr>cap_handlers := No_handlers\<rparr>) s"

definition move_capability :: "addr \<Rightarrow> addr \<Rightarrow> kstate \<Rightarrow> kstate option" where
  "move_capability from to s =
     map_option (clear_handlers from) (update_capability_references to (copy_slot to from s))"

section \<open>Derivation\<close>

definition upd_der :: "addr \<Rightarrow> (nc_link \<Rightarrow> nc_link) \<Rightarrow> kstate \<Rightarrow> kstate" where
  "upd_der a f s = s\<lparr>der_links := (der_links s)(a := f (der_links s a))\<rparr>"

text \<open>The child list goes in front of the last item of the list \<open>c\<close> is in.\<close>

definition splice_derivation :: "addr \<Rightarrow> kstate \<Rightarrow> kstate option" where
  "splice_derivation c s = do {
     let derivation = cap_derivation (caps s c);
     let prev = nc_prev (der_links s (nc_end (der_links s c)));
     let s1 = upd_der prev (\<lambda>x. x\<lparr>nc_next := nc_start (der_links s derivation)\<rparr>) s;
     let s2 = upd_der (nc_start (der_links s1 derivation)) (\<lambda>x. x\<lparr>nc_prev := prev\<rparr>) s1;
     let s3 = upd_der (nc_end (der_links s2 c)) (\<lambda>x. x\<lparr>nc_prev := nc_end (der_links s2 derivation)\<rparr>) s2;
     let s4 = upd_der (nc_end (der_links s3 derivation)) (\<lambda>x. x\<lparr>nc_next := nc_end (der_links s3 derivation)\<rparr>) s3;
     for_derived (\<lambda>v s. Some (upd_der v
         (\<lambda>x. x\<lparr>nc_start := nc_start (der_links s c), nc_end := nc_end (der_links s c)\<rparr>) s))
       (cap_derivation (caps s4 c)) s4
   }"

definition merge_derivation_lists :: "addr \<Rightarrow> kstate \<Rightarrow> kstate option" where
  "merge_derivation_lists c s = do {
     s1 \<leftarrow> (if cap_flags (caps s c) AND CAP_FLAG_BADGED \<noteq> 0 \<and> cap_derived_from (caps s c) \<noteq> NULL
               \<and> cap_derivation (caps s c) \<noteq> NULL
            then do {
              t1 \<leftarrow> for_derived (\<lambda>v s. Some (upd_cap v
                       (\<lambda>x. x\<lparr>cap_derived_from := cap_derived_from (caps s c)\<rparr>) s))
                     (cap_derivation (caps s c)) s;
              (if nc_start (der_links t1 c) = nc_end (der_links t1 c)
               then Some (upd_cap (cap_derived_from (caps t1 c))
                      (\<lambda>x. x\<lparr>cap_derivation := cap_derivation (caps t1 c)\<rparr>) t1)
               else splice_derivation c t1)
            }
            else Some s);
     let s2 = (if nc_prev (der_links s1 c) = NULL \<and> cap_derived_from (caps s1 c) \<noteq> NULL
               then upd_cap (cap_derived_from (caps s1 c))
                      (\<lambda>x. x\<lparr>cap_derivation := nc_next (der_links s1 c)\<rparr>) s1
               else s1);
     dl \<leftarrow> LIST_DELETE_NO_CONTAINER (der_links s2) c;
     Some (s2\<lparr>der_links := dl\<rparr>)
   }"

text \<open>Entering the copy into the derivation list it belongs to.\<close>

definition add_derivation :: "addr \<Rightarrow> addr \<Rightarrow> kstate \<Rightarrow> kstate" where
  "add_derivation source dest s =
     (if cap_flags (caps s source) AND (CAP_FLAG_ORIGINAL OR CAP_FLAG_BADGED) \<noteq> 0 then
        let s1 = upd_cap dest (\<lambda>x. x\<lparr>cap_derived_from := source\<rparr>) s in
        if cap_derivation (caps s1 source) = NULL then
          let s2 = upd_cap source (\<lambda>x. x\<lparr>cap_derivation := dest\<rparr>) s1
          in s2\<lparr>der_links := LIST_INIT_NO_CONTAINER (der_links s2) dest\<rparr>
        else s1\<lparr>der_links := LIST_INSERT_NO_CONTAINER (der_links s1) (cap_derivation (caps s1 source)) dest\<rparr>
      else s\<lparr>der_links := LIST_INSERT_NO_CONTAINER (der_links s) source dest\<rparr>)"

definition copy_capability :: "addr \<Rightarrow> addr \<Rightarrow> size_t \<Rightarrow> size_t \<Rightarrow> kstate \<Rightarrow> kstate" where
  "copy_capability source dest address depth s =
     (let s1 = upd_cap dest (\<lambda>x. x\<lparr>cap_flags := cap_flags x AND NOT (CAP_FLAG_ORIGINAL OR CAP_FLAG_BADGED),
                  cap_address := (cap_address x)\<lparr>aca_address := address, aca_depth := depth\<rparr>\<rparr>)
                (copy_slot dest source s);
          s2 = s1\<lparr>res_links := LIST_INSERT_NO_CONTAINER (res_links s1) source dest\<rparr>;
          s3 = add_derivation source dest s2
      in upd_cap dest (\<lambda>x. x\<lparr>cap_derivation := NULL\<rparr>) s3)"

section \<open>Addresses of the capabilities in a node\<close>

text \<open>The indices a loop over the slots of a node goes through.\<close>

definition slot_indices :: "capability_node \<Rightarrow> size_t list" where
  "slot_indices n = map of_nat [0..<unat (num_slots n)]"

partial_function (option) update_capability_addresses ::
    "addr \<Rightarrow> absolute_capability_address \<Rightarrow> uint8_t \<Rightarrow> kstate \<Rightarrow> kstate option" where
  "update_capability_addresses slot a nesting s =
     (let s1 = (if nc_prev (res_links s slot) = NULL
                then heap_set_update_capability (cap_resource (caps s slot)) a s else s);
          s2 = upd_cap slot (\<lambda>x. x\<lparr>cap_address := a\<rparr>) s1
      in if cap_handlers (caps s2 slot) = Node_handlers then
           let node = cap_resource (caps s2 slot);
               s3 = upd_node node (\<lambda>x. x\<lparr>nested_nodes := nesting\<rparr>) s2
           in for_each (\<lambda>i s. if cap_handlers (caps s (slot_address node i)) = No_handlers then Some s
                  else update_capability_addresses (slot_address node i)
                    (a\<lparr>aca_address := shl i (aca_depth a) OR aca_address a,
                       aca_depth := aca_depth a + bits_of_node (nodes s node)\<rparr>) (nesting + 1) s)
                (slot_indices (nodes s3 node)) s3
         else Some s2)"

section \<open>Moved objects\<close>

definition on_node_moved :: "addr \<Rightarrow> kstate \<Rightarrow> kstate option" where
  "on_node_moved node s =
     for_each (\<lambda>i s. if cap_handlers (caps s (slot_address node i)) \<noteq> No_handlers
                     then update_capability_references (slot_address node i) s else Some s)
       (slot_indices (nodes s node)) s"

definition on_thread_moved :: "addr \<Rightarrow> kstate \<Rightarrow> kstate option" where
  "on_thread_moved t s =
     (let s1 = (case runqueue (threads s t) of None \<Rightarrow> s
                | Some i \<Rightarrow> let (c, m) = LIST_UPDATE_ADDRESS (priority_queues s i) (runqueue_entry s) t
                            in s\<lparr>priority_queues := (priority_queues s)(i := c), runqueue_entry := m\<rparr>);
          e = blocked_on (threads s1 t);
          s2 = (if e = NULL then s1
                else if thread_flags (threads s1 t) AND THREAD_BLOCKED_ON_SEND \<noteq> 0 then
                  let (c, m) = LIST_UPDATE_ADDRESS (blocked_sending (endpoints s1 e)) (blocked_queue s1) t
                  in (upd_endpoint e (\<lambda>x. x\<lparr>blocked_sending := c\<rparr>) s1)\<lparr>blocked_queue := m\<rparr>
                else if thread_flags (threads s1 t) AND THREAD_BLOCKED_ON_RECEIVE \<noteq> 0 then
                  let (c, m) = LIST_UPDATE_ADDRESS (blocked_receiving (endpoints s1 e)) (blocked_queue s1) t
                  in (upd_endpoint e (\<lambda>x. x\<lparr>blocked_receiving := c\<rparr>) s1)\<lparr>blocked_queue := m\<rparr>
                else s1);
          b = bucket_number (threads s2 t);
          s3 = (let (c, m) = LIST_UPDATE_ADDRESS (thread_hash_table s2 b) (table_entry s2) t
                in s2\<lparr>thread_hash_table := (thread_hash_table s2)(b := c), table_entry := m\<rparr>);
          s4 = (if thread_flags (threads s3 t) AND THREAD_NEEDS_CPU_UPDATE \<noteq> 0 then
                  let (c, m) = LIST_UPDATE_ADDRESS (needs_cpu_time_update s3) (cpu_update_entry s3) t
                  in s3\<lparr>needs_cpu_time_update := c, cpu_update_entry := m\<rparr>
                else s3);
          s5 = (if thread_flags (threads s4 t) AND THREAD_CURRENTLY_RUNNING \<noteq> 0
                then s4\<lparr>current_thread := t\<rparr> else s4)
      in if cap_handlers (caps s5 t) \<noteq> No_handlers then update_capability_references t s5 else Some s5)"

definition for_blocked :: "(addr \<Rightarrow> kstate \<Rightarrow> kstate option) \<Rightarrow> list_container \<Rightarrow> kstate \<Rightarrow> kstate option" where
  "for_blocked body c s = iter_links (\<lambda>s v. lnk_next (blocked_queue s v)) body (lc_start c) s"

definition on_endpoint_moved :: "addr \<Rightarrow> kstate \<Rightarrow> kstate option" where
  "on_endpoint_moved e s = do {
     s1 \<leftarrow> for_blocked (\<lambda>t s. Some (upd_thread t (\<lambda>x. x\<lparr>blocked_on := e\<rparr>) s)) (blocked_sending (endpoints s e)) s;
     for_blocked (\<lambda>t s. Some (upd_thread t (\<lambda>x. x\<lparr>blocked_on := e\<rparr>) s)) (blocked_receiving (endpoints s1 e)) s1
   }"

text \<open>The \<open>on_moved\<close> member of a table of handlers; the other tables have none.\<close>

definition on_moved :: "handlers \<Rightarrow> addr \<Rightarrow> kstate \<Rightarrow> kstate option" where
  "on_moved h resource s =
     (case h of Node_handlers \<Rightarrow> on_node_moved resource s
      | Thread_handlers \<Rightarrow> on_thread_moved resource s
      | Endpoint_handlers \<Rightarrow> on_endpoint_moved resource s
      | _ \<Rightarrow> Some s)"

definition update_resource_at :: "look_up_result \<Rightarrow> addr \<Rightarrow> kstate \<Rightarrow> kstate option" where
  "update_resource_at r new_address s =
     (if cap_handlers (caps s (lr_slot r)) = No_handlers then Some (unlock_looked_up_capability r s)
      else do {
        s1 \<leftarrow> for_sharing (\<lambda>v s. Some (upd_cap v (\<lambda>x. x\<lparr>cap_resource := new_address\<rparr>) s)) (lr_slot r) s;
        s2 \<leftarrow> on_moved (cap_handlers (caps s1 (lr_slot r))) (cap_resource (caps s1 (lr_slot r))) s1;
        Some (unlock_looked_up_capability r s2)
      })"

definition update_capability_resource ::
    "absolute_capability_address \<Rightarrow> addr \<Rightarrow> kstate \<Rightarrow> kstate option" where
  "update_capability_resource a new_address s =
     (if aca_address a = 0 \<and> aca_depth a = 0 then do {
        (s1, should_unlock, t) \<leftarrow> look_up_thread_by_id (aca_thread_id a) (aca_bucket_number a) s;
        (if t = NULL then Some s1
         else update_resource_at \<lparr>lr_slot = t, lr_depth = 0, lr_container = t, lr_should_unlock = should_unlock\<rparr>
                new_address s1)
      }
      else do {
        (s1, r) \<leftarrow> look_up_capability_absolute a s;
        (case r of None \<Rightarrow> Some s1 | Some x \<Rightarrow> update_resource_at x new_address s1)
      })"

text \<open>
  What the heap calls when it moves a block. The only pointer it may be asked to rewrite directly
  is in no object of the kernel (every caller of \<open>heap_set_update_absolute\<close> would be one), so there is
  nothing in the state to change.
\<close>

definition kernel_hooks :: "kstate heap_hooks" where
  "kernel_hooks =
     \<lparr>hk_memcpy = kernel_memcpy, hk_update_capability = update_capability_resource,
      hk_function = (\<lambda>f p s. case f of On_thread_moved \<Rightarrow> on_thread_moved p s),
      hk_store_pointer = (\<lambda>p v s. s)\<rparr>"

end
