(* ===== verification/Kernel_Objects.thy ===== *)
theory Kernel_Objects
  imports Cap_Space
begin

unbundle bit_operations_syntax

text \<open>
  The life of kernel objects: threads (\<open>core/kernel/threads.c\<close>), endpoints (\<open>core/kernel/ipc.c\<close>) and
  capability nodes (\<open>core/kernel/capabilities.c\<close>) are allocated on the heap, named by
  capabilities, and destroyed with the last capability that names them.
\<close>

section \<open>Thread ids and the thread table\<close>

text \<open>
  32-bit FNV-1a over the two bytes of the id, most significant byte first as they lie in the memory
  of a big-endian machine.
\<close>

definition fnv_hash :: "uint16_t \<Rightarrow> uint32_t" where
  "fnv_hash v =
     (let d0 = ucast (drop_bit 8 v); d1 = ucast (v AND 255);
          r1 = (0x811c9dc5 XOR d0) * 0x01000193
      in (r1 XOR d1) * 0x01000193)"

definition bucket_of :: "uint16_t \<Rightarrow> uint8_t" where
  "bucket_of v = ucast (fnv_hash v mod of_nat NUM_BUCKETS)"

definition init_threads :: "kstate \<Rightarrow> kstate" where
  "init_threads s =
     s\<lparr>thread_hash_table := (\<lambda>b. if unat b < NUM_BUCKETS then LIST_INIT else thread_hash_table s b),
       used_thread_ids := (replicate USED_THREAD_IDS_SIZE 0)[0 := 1]\<rparr>"

text \<open>The first bit that is clear, counting from the given one.\<close>

fun first_clear_bit :: "size_t \<Rightarrow> nat \<Rightarrow> nat \<Rightarrow> nat" where
  "first_clear_bit w b 0 = b"
| "first_clear_bit w b (Suc n) = (if w AND push_bit b 1 \<noteq> 0 then first_clear_bit w (Suc b) n else b)"

text \<open>The loop over the words of the bitmap, from word \<open>i\<close> on: the new words and the id taken.\<close>

fun take_free_id :: "size_t list \<Rightarrow> nat \<Rightarrow> (size_t list \<times> uint16_t) option" where
  "take_free_id [] i = None"
| "take_free_id (w # ws) i =
     (if w = SIZE_MAX then map_option (\<lambda>(us, tid). (w # us, tid)) (take_free_id ws (Suc i))
      else let b = first_clear_bit w 0 PTR_BITS
           in Some ((w OR push_bit b 1) # ws, of_nat (i * PTR_BITS + b)))"

definition release_id :: "uint16_t \<Rightarrow> size_t list \<Rightarrow> size_t list" where
  "release_id tid ws =
     (let i = unat tid div PTR_BITS in ws[i := ws ! i AND NOT (push_bit (unat tid mod PTR_BITS) 1)])"

definition zero_thread_at :: "addr \<Rightarrow> kstate \<Rightarrow> kstate" where
  "zero_thread_at t s =
     s\<lparr>threads := (threads s)(t := zero_thread), caps := (caps s)(t := zero_capability),
       res_links := (res_links s)(t := zero_nc_link), der_links := (der_links s)(t := zero_nc_link),
       runqueue_entry := (runqueue_entry s)(t := zero_link), cpu_update_entry := (cpu_update_entry s)(t := zero_link),
       table_entry := (table_entry s)(t := zero_link), blocked_queue := (blocked_queue s)(t := zero_link)\<rparr>"

definition append_to_table :: "addr \<Rightarrow> kstate \<Rightarrow> kstate" where
  "append_to_table t s =
     (let b = bucket_number (threads s t);
          (c, m) = LIST_APPEND (thread_hash_table s b) (table_entry s) t
      in s\<lparr>thread_hash_table := (thread_hash_table s)(b := c), table_entry := m\<rparr>)"

definition alloc_thread :: "kstate \<Rightarrow> (kstate \<times> addr) option" where
  "alloc_thread s =
     (case take_free_id (used_thread_ids s) 0 of
        None \<Rightarrow> Some (s, NULL)
      | Some (ids, tid) \<Rightarrow> do {
          (s1, t) \<leftarrow> heap_alloc kernel_hooks (s\<lparr>used_thread_ids := ids\<rparr>) sizeof_thread_capability;
          (if t = NULL then Some (s1\<lparr>used_thread_ids := release_id tid (used_thread_ids s1)\<rparr>, NULL)
           else
             let s2 = upd_thread t (\<lambda>x. x\<lparr>exec_mode := EXEC_MODE_SUSPENDED, thread_id := tid,
                        bucket_number := bucket_of tid\<rparr>) (zero_thread_at t s1)
             in Some (append_to_table t s2, t))
        })"

section \<open>Endpoints and nodes\<close>

definition alloc_endpoint :: "kstate \<Rightarrow> (kstate \<times> addr) option" where
  "alloc_endpoint s = do {
     (s1, e) \<leftarrow> heap_alloc kernel_hooks s sizeof_endpoint_capability;
     (if e = NULL then Some (s1, NULL)
      else Some (upd_endpoint e (\<lambda>_. \<lparr>blocked_sending = LIST_INIT, blocked_receiving = LIST_INIT\<rparr>) s1, e))
   }"

definition clear_slots :: "addr \<Rightarrow> size_t \<Rightarrow> kstate \<Rightarrow> kstate" where
  "clear_slots node total_slots s =
     fold (\<lambda>i. clear_handlers (slot_address node (of_nat i))) [0..<unat total_slots] s"

definition node_alloc_size :: "size_t \<Rightarrow> size_t" where
  "node_alloc_size total_slots = sizeof_capability_node + total_slots * sizeof_capability"

definition alloc_node :: "size_t \<Rightarrow> kstate \<Rightarrow> (kstate \<times> addr) option" where
  "alloc_node bits s = do {
     let bits' = (if bits \<ge> 32 then 31 else bits);
     let total_slots = shl 1 bits';
     (s1, node) \<leftarrow> heap_alloc kernel_hooks s (node_alloc_size total_slots);
     (if node = NULL then Some (s1, NULL)
      else Some (clear_slots node total_slots
                   (upd_node node (\<lambda>_. \<lparr>slot_bits = ucast bits', nested_nodes = 1\<rparr>) s1), node))
   }"

section \<open>Destruction\<close>

text \<open>\<open>thread_destructor\<close> after it has deleted the thread's root capability.\<close>

definition unlink_thread :: "addr \<Rightarrow> kstate \<Rightarrow> kstate" where
  "unlink_thread t s =
     (let s1 = (case runqueue (threads s t) of None \<Rightarrow> s | Some i \<Rightarrow> remove_from_queue i t s);
          s2 = (if thread_flags (threads s1 t) AND THREAD_NEEDS_CPU_UPDATE \<noteq> 0 then
                  let (c, m) = LIST_REMOVE (needs_cpu_time_update s1) (cpu_update_entry s1) t
                  in s1\<lparr>needs_cpu_time_update := c, cpu_update_entry := m\<rparr>
                else s1);
          b = bucket_number (threads s2 t);
          s3 = (let (c, m) = LIST_REMOVE (thread_hash_table s2 b) (table_entry s2) t
                in s2\<lparr>thread_hash_table := (thread_hash_table s2)(b := c), table_entry := m\<rparr>);
          e = blocked_on (threads s3 t);
          s4 = (if e = NULL then s3
                else if thread_flags (threads s3 t) AND THREAD_BLOCKED_ON_SEND \<noteq> 0 then
                  let (c, m) = LIST_REMOVE (blocked_sending (endpoints s3 e)) (blocked_queue s3) t
                  in (upd_endpoint e (\<lambda>x. x\<lparr>blocked_sending := c\<rparr>) s3)\<lparr>blocked_queue := m\<rparr>
                else
                  let (c, m) = LIST_REMOVE (blocked_receiving (endpoints s3 e)) (blocked_queue s3) t
                  in (upd_endpoint e (\<lambda>x. x\<lparr>blocked_receiving := c\<rparr>) s3)\<lparr>blocked_queue := m\<rparr>)
      in s4\<lparr>used_thread_ids := release_id (thread_id (threads s4 t)) (used_thread_ids s4)\<rparr>)"

definition unblock_thread :: "addr \<Rightarrow> kstate \<Rightarrow> kstate" where
  "unblock_thread t s =
     upd_thread t (\<lambda>x. x\<lparr>blocked_on := NULL\<rparr>)
       (resume_thread t EXEC_MODE_BLOCKED (suspend_thread t EXEC_MODE_SUSPENDED s))"

definition endpoint_destructor :: "addr \<Rightarrow> kstate \<Rightarrow> kstate option" where
  "endpoint_destructor e s = do {
     s1 \<leftarrow> for_blocked (\<lambda>t s. Some (unblock_thread t s)) (blocked_sending (endpoints s e)) s;
     for_blocked (\<lambda>t s. Some (unblock_thread t s)) (blocked_receiving (endpoints s1 e)) s1
   }"

text \<open>
  \<open>delete_capability\<close> with the destructors of nodes and threads, which delete capabilities in turn.
  A capability without handlers that owns its resource makes the code call through a NULL
  pointer; that is \<open>None\<close>.
\<close>

partial_function (option) delete_capability :: "addr \<Rightarrow> kstate \<Rightarrow> kstate option" where
  "delete_capability c s = do {
     let first = (nc_prev (res_links s c) = NULL);
     let destroy_resource = (first \<and> nc_next (res_links s c) = NULL);
     let s1 = (if first \<and> \<not> destroy_resource
               then heap_set_update_capability (cap_resource (caps s c))
                      (cap_address (caps s (nc_next (res_links s c)))) s
               else s);
     rl \<leftarrow> LIST_DELETE_NO_CONTAINER (res_links s1) c;
     let s2 = s1\<lparr>res_links := rl\<rparr>;
     let resource = cap_resource (caps s2 c);
     s3 \<leftarrow> (if \<not> destroy_resource then Some s2
            else do {
              t1 \<leftarrow> (case cap_handlers (caps s2 c) of
                       No_handlers \<Rightarrow> None
                     | Node_handlers \<Rightarrow>
                         for_each (\<lambda>i s. if cap_handlers (caps s (slot_address resource i)) = No_handlers then Some s
                             else do {
                               t \<leftarrow> merge_derivation_lists (slot_address resource i) s;
                               delete_capability (slot_address resource i) t
                             })
                           (slot_indices (nodes s2 resource)) s2
                     | Thread_handlers \<Rightarrow> do { t \<leftarrow> delete_capability resource s2; Some (unlink_thread resource t) }
                     | Endpoint_handlers \<Rightarrow> endpoint_destructor resource s2
                     | _ \<Rightarrow> Some s2);
              Some (if cap_resource (caps t1 c) \<noteq> NULL then heap_free (cap_resource (caps t1 c)) t1 else t1)
            });
     Some (clear_handlers c s3)
   }"

section \<open>Filling a slot\<close>

text \<open>Giving up on a new resource.\<close>

definition discard_resource :: "uint8_t \<Rightarrow> addr \<Rightarrow> kstate \<Rightarrow> kstate" where
  "discard_resource flags resource s =
     (if flags AND CAP_FLAG_IS_HEAP_MANAGED \<noteq> 0 then heap_free resource s else s)"

definition fill_slot ::
    "size_t \<Rightarrow> addr \<Rightarrow> handlers \<Rightarrow> uint8_t \<Rightarrow> addr \<Rightarrow> look_up_result \<Rightarrow> kstate \<Rightarrow> kstate" where
  "fill_slot address resource h flags heap r s =
     (let slot = lr_slot r;
          t = current_thread s;
          a = \<lparr>aca_thread_id = (if t \<noteq> NULL then thread_id (threads s t) else 0),
               aca_bucket_number = (if t \<noteq> NULL then bucket_number (threads s t) else 0),
               aca_address = address, aca_depth = lr_depth r\<rparr>;
          s1 = upd_cap slot (\<lambda>_. zero_capability\<lparr>cap_handlers := h, cap_resource := resource,
                 cap_flags := flags OR CAP_FLAG_ORIGINAL, cap_access_rights := 255,
                 cap_address := a, cap_heap := heap\<rparr>) s;
          s2 = s1\<lparr>res_links := LIST_INIT_NO_CONTAINER (res_links s1) slot,
                  der_links := (der_links s1)(slot := zero_nc_link)\<rparr>
      in if flags AND CAP_FLAG_IS_HEAP_MANAGED \<noteq> 0
         then heap_unlock resource (heap_set_update_capability resource a s2) else s2)"

definition populate_capability_slot ::
    "addr \<Rightarrow> size_t \<Rightarrow> size_t \<Rightarrow> addr \<Rightarrow> handlers \<Rightarrow> uint8_t \<Rightarrow> kstate \<Rightarrow> (kstate \<times> size_t) option" where
  "populate_capability_slot heap address depth resource h flags s = do {
     (s1, result) \<leftarrow> look_up_capability_relative address depth s;
     (case result of
        None \<Rightarrow> Some (discard_resource flags resource s1, ENOCAPABILITY)
      | Some r \<Rightarrow>
          if cap_handlers (caps s1 (lr_slot r)) \<noteq> No_handlers then
            Some (unlock_looked_up_capability r (discard_resource flags resource s1), ECAPEXISTS)
          else if h = Node_handlers \<and> lr_container r \<noteq> NULL
                  \<and> nested_nodes (nodes s1 (lr_container r)) \<ge> MAX_NESTED_NODES then
            Some (unlock_looked_up_capability r (discard_resource flags resource s1), ETOOMUCHNESTING)
          else
            let s2 = (if h = Node_handlers \<and> lr_container r \<noteq> NULL
                      then upd_node resource (\<lambda>x. x\<lparr>nested_nodes := nested_nodes (nodes s1 (lr_container r)) + 1\<rparr>) s1
                      else s1)
            in Some (unlock_looked_up_capability r (fill_slot address resource h flags heap r s2), 0))
   }"

section \<open>Nesting\<close>

partial_function (option) nesting_depth_search :: "addr \<Rightarrow> kstate \<Rightarrow> uint8_t option" where
  "nesting_depth_search c s =
     (let node = cap_resource (caps s c) in
      for_each (\<lambda>i best. if cap_handlers (caps s (slot_address node i)) \<noteq> Node_handlers then Some best
                  else do { d \<leftarrow> nesting_depth_search (slot_address node i) s; Some (if d > best then d else best) })
        (slot_indices (nodes s node)) (nested_nodes (nodes s node)))"

definition get_nested_nodes_depth :: "addr \<Rightarrow> kstate \<Rightarrow> uint8_t option" where
  "get_nested_nodes_depth c s =
     (if cap_handlers (caps s c) \<noteq> Node_handlers then Some 0
      else map_option (\<lambda>d. d - nested_nodes (nodes s (cap_resource (caps s c)))) (nesting_depth_search c s))"

end
