(* ===== verification/Ipc.thy ===== *)
theory Ipc
  imports Kernel_Objects
begin

unbundle bit_operations_syntax

text \<open>
  Message passing through endpoints, \<open>core/kernel/ipc.c\<close>: a sender meets a waiting receiver or waits
  itself, and the other way round; the message's bytes are copied and its capabilities are moved or
  copied between the capability spaces of the two threads.
\<close>

section \<open>Transferring capabilities\<close>

definition thread_address :: "addr \<Rightarrow> size_t \<times> size_t \<Rightarrow> kstate \<Rightarrow> absolute_capability_address" where
  "thread_address t ad s =
     \<lparr>aca_thread_id = thread_id (threads s t), aca_bucket_number = bucket_number (threads s t),
      aca_address = fst ad, aca_depth = snd ad\<rparr>"

text \<open>One turn of the loop of \<open>transfer_capabilities\<close>, for the given index.\<close>

definition transfer_capability :: "addr \<Rightarrow> addr \<Rightarrow> addr \<Rightarrow> addr \<Rightarrow> nat \<Rightarrow> kstate \<Rightarrow> kstate option" where
  "transfer_capability sending receiving sent_message recv_buffer i s =
     (let sc = msg_capabilities (messages s sent_message) ! i;
          rc = msg_capabilities (messages s recv_buffer) ! i in
      if snd sc = 0 \<or> snd rc = 0 then Some s
      else do {
        (s1, source_result) \<leftarrow> look_up_capability_absolute (thread_address sending sc s) s;
        (case source_result of None \<Rightarrow> Some s1
         | Some src \<Rightarrow>
             let should_copy = (msg_to_copy (messages s1 sent_message) AND push_bit i 1 \<noteq> 0);
                 h = cap_handlers (caps s1 (lr_slot src)) in
             if h = No_handlers \<or> (should_copy \<and> h = Node_handlers)
             then Some (unlock_looked_up_capability src s1)
             else do {
               let dest_address = thread_address receiving rc s1;
               (s2, dest_result) \<leftarrow> look_up_capability_absolute dest_address s1;
               (case dest_result of None \<Rightarrow> Some (unlock_looked_up_capability src s2)
                | Some dst \<Rightarrow>
                    if cap_handlers (caps s2 (lr_slot dst)) \<noteq> No_handlers
                    then Some (unlock_looked_up_capability dst (unlock_looked_up_capability src s2))
                    else do {
                      s3 \<leftarrow> (if should_copy
                             then Some (copy_capability (lr_slot src) (lr_slot dst)
                                          (aca_address dest_address) (aca_depth dest_address) s2)
                             else move_capability (lr_slot src) (lr_slot dst) s2);
                      s4 \<leftarrow> update_capability_addresses (lr_slot dst) dest_address 0 s3;
                      let s5 = upd_message recv_buffer
                                 (\<lambda>x. x\<lparr>msg_transferred := msg_transferred x OR push_bit i 1\<rparr>) s4;
                      Some (unlock_looked_up_capability dst (unlock_looked_up_capability src s5))
                    })
             })
      })"

definition transfer_capabilities :: "addr \<Rightarrow> addr \<Rightarrow> addr \<Rightarrow> addr \<Rightarrow> kstate \<Rightarrow> kstate option" where
  "transfer_capabilities sending receiving sent_message recv_buffer s =
     for_each (transfer_capability sending receiving sent_message recv_buffer) [0..<IPC_CAPABILITY_SLOTS]
       (upd_message recv_buffer (\<lambda>x. x\<lparr>msg_transferred := 0\<rparr>) s)"

section \<open>Sending and receiving\<close>

text \<open>Waiting on one side of an endpoint.\<close>

definition block_on_send :: "addr \<Rightarrow> addr \<Rightarrow> size_t \<Rightarrow> addr \<Rightarrow> kstate \<Rightarrow> kstate" where
  "block_on_send t message badge e s =
     (let s1 = upd_thread t (\<lambda>x. x\<lparr>message_buffer := message, sending_badge := badge, blocked_on := e,
                 thread_flags := thread_flags x OR THREAD_BLOCKED_ON_SEND\<rparr>) s;
          (c, m) = LIST_APPEND (blocked_sending (endpoints s1 e)) (blocked_queue s1) t;
          s2 = (upd_endpoint e (\<lambda>x. x\<lparr>blocked_sending := c\<rparr>) s1)\<lparr>blocked_queue := m\<rparr>
      in suspend_thread t EXEC_MODE_BLOCKED s2)"

definition block_on_receive :: "addr \<Rightarrow> addr \<Rightarrow> size_t \<Rightarrow> addr \<Rightarrow> kstate \<Rightarrow> kstate" where
  "block_on_receive t message badge e s =
     (let s1 = upd_thread t (\<lambda>x. x\<lparr>message_buffer := message, sending_badge := badge, blocked_on := e,
                 thread_flags := thread_flags x OR THREAD_BLOCKED_ON_RECEIVE\<rparr>) s;
          (c, m) = LIST_APPEND (blocked_receiving (endpoints s1 e)) (blocked_queue s1) t;
          s2 = (upd_endpoint e (\<lambda>x. x\<lparr>blocked_receiving := c\<rparr>) s1)\<lparr>blocked_queue := m\<rparr>
      in suspend_thread t EXEC_MODE_BLOCKED s2)"

definition endpoint_send :: "addr \<Rightarrow> addr \<Rightarrow> kstate \<Rightarrow> (kstate \<times> size_t) option" where
  "endpoint_send slot message s =
     (let e = cap_resource (caps s slot); badge = cap_badge (caps s slot) in
      if LIST_CAN_POP (blocked_receiving (endpoints s e)) then do {
        let (c, m, receiving) = LIST_POP_FROM_START (blocked_receiving (endpoints s e)) (blocked_queue s) NULL;
        let s1 = (upd_endpoint e (\<lambda>x. x\<lparr>blocked_receiving := c\<rparr>) s)\<lparr>blocked_queue := m\<rparr>;
        let s2 = upd_thread receiving (\<lambda>x. x\<lparr>thread_flags := thread_flags x AND NOT THREAD_BLOCKED_ON_RECEIVE,
                   blocked_on := NULL\<rparr>) s1;
        let recv_buffer = message_buffer (threads s2 receiving);
        let s3 = upd_message recv_buffer (\<lambda>x. x\<lparr>msg_buffer := msg_buffer (messages s2 message), msg_badge := badge\<rparr>) s2;
        s4 \<leftarrow> transfer_capabilities (current_thread s3) receiving message recv_buffer s3;
        Some (resume_thread receiving EXEC_MODE_BLOCKED s4, 0)
      }
      else Some (block_on_send (current_thread s) message badge e s, 0))"

definition endpoint_receive :: "addr \<Rightarrow> addr \<Rightarrow> kstate \<Rightarrow> (kstate \<times> size_t) option" where
  "endpoint_receive slot message s =
     (let e = cap_resource (caps s slot); badge = cap_badge (caps s slot) in
      if LIST_CAN_POP (blocked_sending (endpoints s e)) then do {
        let (c, m, sending) = LIST_POP_FROM_START (blocked_sending (endpoints s e)) (blocked_queue s) NULL;
        let s1 = (upd_endpoint e (\<lambda>x. x\<lparr>blocked_sending := c\<rparr>) s)\<lparr>blocked_queue := m\<rparr>;
        let s2 = upd_thread sending (\<lambda>x. x\<lparr>thread_flags := thread_flags x AND NOT THREAD_BLOCKED_ON_SEND,
                   blocked_on := NULL\<rparr>) s1;
        let sent = message_buffer (threads s2 sending);
        let s3 = upd_message message (\<lambda>x. x\<lparr>msg_buffer := msg_buffer (messages s2 sent),
                   msg_badge := sending_badge (threads s2 sending)\<rparr>) s2;
        s4 \<leftarrow> transfer_capabilities sending (current_thread s3) sent message s3;
        Some (resume_thread sending EXEC_MODE_BLOCKED s4, 0)
      }
      else Some (block_on_receive (current_thread s) message badge e s, 0))"

end
