(* ===== verification/Invocation.thy ===== *)
theory Invocation
  imports Ipc
begin

unbundle bit_operations_syntax

text \<open>
  Invocations: the handlers of the capability types (\<open>core/kernel/capabilities.c\<close>,
  \<open>core/kernel/threads.c\<close>), their dispatch in \<open>invoke_capability\<close>, and the system call entry of
  \<open>core/kernel/arch/68000/interrupts.c\<close>. A handler gets the address and depth the capability was
  invoked with, its slot and the argument, and returns the value for the caller.
\<close>

section \<open>Capability nodes\<close>

definition node_copy :: "size_t \<Rightarrow> size_t \<Rightarrow> addr \<Rightarrow> addr \<Rightarrow> kstate \<Rightarrow> (kstate \<times> size_t) option" where
  "node_copy address depth slot argument s =
     (let args = copy_args s argument;
          node = cap_resource (caps s slot);
          dest = slot_address node (dest_slot args) in
      if dest_slot args \<ge> num_slots (nodes s node) then Some (s, EINVAL)
      else if cap_handlers (caps s dest) \<noteq> No_handlers then Some (s, ECAPEXISTS)
      else do {
        (s1, result) \<leftarrow> look_up_capability_relative (source_address args) (source_depth args) s;
        (case result of None \<Rightarrow> Some (s1, ENOCAPABILITY)
         | Some r \<Rightarrow>
             if cap_handlers (caps s1 (lr_slot r)) = Node_handlers
             then Some (unlock_looked_up_capability r s1, ECAPINVAL)
             else if should_set_badge args \<noteq> 0 \<and> cap_flags (caps s1 (lr_slot r)) AND CAP_FLAG_ORIGINAL = 0
             then Some (unlock_looked_up_capability r s1, ECAPINVAL)
             else
               let s2 = copy_capability (lr_slot r) dest (address OR shl (dest_slot args) depth)
                          (depth + bits_of_node (nodes s1 node)) s1;
                   s3 = (if should_set_badge args \<noteq> 0
                         then upd_cap dest (\<lambda>x. x\<lparr>cap_badge := args_badge args,
                                cap_flags := cap_flags x OR CAP_FLAG_BADGED\<rparr>) s2
                         else s2)
               in Some (unlock_looked_up_capability r s3, 0))
      })"

definition node_move :: "size_t \<Rightarrow> size_t \<Rightarrow> addr \<Rightarrow> addr \<Rightarrow> kstate \<Rightarrow> (kstate \<times> size_t) option" where
  "node_move address depth slot argument s =
     (let args = copy_args s argument;
          node = cap_resource (caps s slot);
          dest = slot_address node (dest_slot args) in
      if dest_slot args \<ge> num_slots (nodes s node) then Some (s, EINVAL)
      else if cap_handlers (caps s dest) \<noteq> No_handlers then Some (s, ECAPEXISTS)
      else do {
        (s1, result) \<leftarrow> look_up_capability_relative (source_address args) (source_depth args) s;
        (case result of None \<Rightarrow> Some (s1, ENOCAPABILITY)
         | Some r \<Rightarrow> do {
             s2 \<leftarrow> move_capability (lr_slot r) dest s1;
             let s3 = upd_cap dest (\<lambda>x. x\<lparr>cap_address := (cap_address x)\<lparr>
                        aca_address := address OR shl (dest_slot args) depth,
                        aca_depth := depth + bits_of_node (nodes s2 node)\<rparr>\<rparr>) s2;
             let s4 = (if cap_flags (caps s3 dest) AND CAP_FLAG_IS_HEAP_MANAGED \<noteq> 0 \<and> nc_prev (res_links s3 dest) = NULL
                       then heap_set_update_capability (cap_resource (caps s3 dest)) (cap_address (caps s3 dest)) s3
                       else s3);
             Some (unlock_looked_up_capability r s4, 0)
           })
      })"

definition node_delete :: "size_t \<Rightarrow> size_t \<Rightarrow> addr \<Rightarrow> size_t \<Rightarrow> kstate \<Rightarrow> (kstate \<times> size_t) option" where
  "node_delete address depth slot argument s =
     (let node = cap_resource (caps s slot); to_delete = slot_address node argument in
      if argument \<ge> num_slots (nodes s node) then Some (s, EINVAL)
      else if cap_handlers (caps s to_delete) = No_handlers then Some (s, ENOCAPABILITY)
      else do {
        s1 \<leftarrow> merge_derivation_lists to_delete s;
        s2 \<leftarrow> delete_capability to_delete s1;
        Some (s2, 0)
      })"

text \<open>The body of the loop of \<open>node_revoke\<close>: a second level of derivation is deleted first.\<close>

definition revoke_derived :: "addr \<Rightarrow> kstate \<Rightarrow> kstate option" where
  "revoke_derived c s = do {
     s1 \<leftarrow> (if cap_flags (caps s c) AND (CAP_FLAG_ORIGINAL OR CAP_FLAG_BADGED) \<noteq> 0 \<and> cap_derivation (caps s c) \<noteq> NULL
            then for_derived delete_capability (cap_derivation (caps s c)) s else Some s);
     delete_capability c s1
   }"

definition node_revoke :: "size_t \<Rightarrow> size_t \<Rightarrow> addr \<Rightarrow> size_t \<Rightarrow> kstate \<Rightarrow> (kstate \<times> size_t) option" where
  "node_revoke address depth slot argument s =
     (let node = cap_resource (caps s slot); to_revoke = slot_address node argument; h = cap_handlers (caps s to_revoke) in
      if argument \<ge> num_slots (nodes s node) then Some (s, EINVAL)
      else if h = No_handlers then Some (s, ENOCAPABILITY)
      else if h = Node_handlers \<or> cap_flags (caps s to_revoke) AND (CAP_FLAG_BADGED OR CAP_FLAG_ORIGINAL) = 0
      then Some (s, ECAPINVAL)
      else if cap_derivation (caps s to_revoke) = NULL then Some (s, 0)
      else do {
        s1 \<leftarrow> for_derived revoke_derived (cap_derivation (caps s to_revoke)) s;
        Some (upd_cap to_revoke (\<lambda>x. x\<lparr>cap_derivation := NULL\<rparr>) s1, 0)
      })"

section \<open>Untyped memory and address spaces\<close>

definition untyped_lock :: "addr \<Rightarrow> kstate \<Rightarrow> kstate \<times> size_t" where
  "untyped_lock slot s = (fst (heap_lock (cap_resource (caps s slot)) s), cap_resource (caps s slot))"

definition untyped_unlock :: "addr \<Rightarrow> kstate \<Rightarrow> kstate \<times> size_t" where
  "untyped_unlock slot s = (heap_unlock (cap_resource (caps s slot)) s, 0)"

definition untyped_try_lock :: "addr \<Rightarrow> kstate \<Rightarrow> kstate \<times> size_t" where
  "untyped_try_lock slot s =
     (let (s1, locked) = heap_lock (cap_resource (caps s slot)) s
      in (s1, if locked then cap_resource (caps s1 slot) else NULL))"

definition untyped_sizeof :: "addr \<Rightarrow> kstate \<Rightarrow> kstate \<times> size_t" where
  "untyped_sizeof slot s = (s, heap_sizeof (cap_resource (caps s slot)) s)"

text \<open>The four types of object, by their numbers.\<close>

definition allocate_type :: "uint8_t \<Rightarrow> size_t \<Rightarrow> kstate \<Rightarrow> (kstate \<times> addr \<times> handlers) option" where
  "allocate_type ty sz s =
     (if ty = 0 then map_option (\<lambda>(t, p). (t, p, Untyped_handlers)) (heap_alloc kernel_hooks s sz)
      else if ty = 1 then map_option (\<lambda>(t, p). (t, p, Node_handlers)) (alloc_node sz s)
      else if ty = 2 then map_option (\<lambda>(t, p). (t, p, Thread_handlers)) (alloc_thread s)
      else map_option (\<lambda>(t, p). (t, p, Endpoint_handlers)) (alloc_endpoint s))"

definition address_space_alloc :: "addr \<Rightarrow> addr \<Rightarrow> kstate \<Rightarrow> (kstate \<times> size_t) option" where
  "address_space_alloc slot argument s =
     (let args = allocation_args s argument; heap = heap_pointers s (cap_resource (caps s slot)) in
      if alloc_type args \<ge> 4 then Some (s, EINVAL)
      else if cap_access_rights (caps s slot) AND push_bit (unat (alloc_type args)) 1 = 0 then Some (s, EPERM)
      else do {
        (s1, resource, h) \<leftarrow> allocate_type (alloc_type args) (alloc_arg_size args) s;
        (if resource = NULL then Some (s1, ENOMEM)
         else let args' = allocation_args s1 argument
              in populate_capability_slot heap (alloc_address args') (alloc_depth args') resource h
                   CAP_FLAG_IS_HEAP_MANAGED s1)
      })"

section \<open>Threads\<close>

text \<open>The 70 bytes of a register structure in memory, big-endian.\<close>

definition encode_registers :: "thread_registers \<Rightarrow> uint8_t list" where
  "encode_registers r =
     word_bytes (stack_pointer r) @ concat (map word_bytes (data_registers r))
     @ concat (map word_bytes (address_registers r)) @ half_bytes (status_register r)
     @ word_bytes (program_counter r)"

definition decode_registers :: "uint8_t list \<Rightarrow> thread_registers" where
  "decode_registers bs =
     \<lparr>stack_pointer = word_at 0 bs, data_registers = map (\<lambda>i. word_at (4 + 4 * i) bs) [0..<8],
      address_registers = map (\<lambda>i. word_at (36 + 4 * i) bs) [0..<7],
      status_register = bytes_half (take 2 (drop 64 bs)), program_counter = word_at 66 bs\<rparr>"

definition sanitize_registers :: "thread_registers \<Rightarrow> thread_registers" where
  "sanitize_registers r = r\<lparr>status_register := status_register r AND 0x001f\<rparr>"

definition rw_length :: "size_t \<Rightarrow> nat" where
  "rw_length n = min (unat n) sizeof_thread_registers"

definition read_registers :: "addr \<Rightarrow> addr \<Rightarrow> kstate \<Rightarrow> kstate \<times> size_t" where
  "read_registers slot argument s =
     (let args = register_args s argument;
          (s1, should_unlock) = heap_lock (cap_resource (caps s slot)) s;
          bs = encode_registers (registers (threads s1 (cap_resource (caps s1 slot))));
          s2 = s1\<lparr>user_bytes := (\<lambda>a. if unat (a - rw_address args) < rw_length (rw_size args)
                                     then bs ! unat (a - rw_address args) else user_bytes s1 a)\<rparr>
      in (unlock_if should_unlock (cap_resource (caps s2 slot)) s2, 0))"

definition write_registers :: "addr \<Rightarrow> addr \<Rightarrow> kstate \<Rightarrow> kstate \<times> size_t" where
  "write_registers slot argument s =
     (let args = register_args s argument;
          (s1, should_unlock) = heap_lock (cap_resource (caps s slot)) s;
          t = cap_resource (caps s1 slot);
          n = rw_length (rw_size args);
          bs = map (\<lambda>i. user_bytes s1 (rw_address args + of_nat i)) [0..<n]
                 @ drop n (encode_registers (registers (threads s1 t)));
          s2 = upd_thread t (\<lambda>x. x\<lparr>registers := sanitize_registers (decode_registers bs)\<rparr>) s1
      in (unlock_if should_unlock (cap_resource (caps s2 slot)) s2, 0))"

definition resume :: "addr \<Rightarrow> kstate \<Rightarrow> kstate \<times> size_t" where
  "resume slot s =
     (let (s1, should_unlock) = heap_lock (cap_resource (caps s slot)) s;
          s2 = resume_thread (cap_resource (caps s1 slot)) EXEC_MODE_SUSPENDED s1
      in (unlock_if should_unlock (cap_resource (caps s2 slot)) s2, 0))"

definition suspend :: "addr \<Rightarrow> kstate \<Rightarrow> kstate \<times> size_t" where
  "suspend slot s =
     (let (s1, should_unlock) = heap_lock (cap_resource (caps s slot)) s;
          s2 = suspend_thread (cap_resource (caps s1 slot)) EXEC_MODE_SUSPENDED s1
      in (unlock_if should_unlock (cap_resource (caps s2 slot)) s2, 0))"

definition set_root_node :: "addr \<Rightarrow> addr \<Rightarrow> kstate \<Rightarrow> (kstate \<times> size_t) option" where
  "set_root_node slot argument s = do {
     let t = cap_resource (caps s slot);
     let args = root_node_args s argument;
     (s1, result) \<leftarrow> look_up_capability_relative (root_address args) (root_depth args) s;
     (case result of None \<Rightarrow> Some (s1, ENOCAPABILITY)
      | Some r \<Rightarrow> do {
          nesting \<leftarrow> get_nested_nodes_depth (lr_slot r) s1;
          (if cap_handlers (caps s1 (lr_slot r)) = Node_handlers \<and> nesting < MAX_NESTED_NODES then do {
             s2 \<leftarrow> move_capability (lr_slot r) t s1;
             s3 \<leftarrow> update_capability_addresses t (thread_address t (0, 0) s2) 0 s2;
             Some (unlock_looked_up_capability r s3, 0)
           }
           else Some (unlock_looked_up_capability r s1, ECAPINVAL))
        })
   }"

section \<open>Dispatch\<close>

definition num_handlers :: "handlers \<Rightarrow> size_t" where
  "num_handlers h =
     (case h of No_handlers \<Rightarrow> 0 | Node_handlers \<Rightarrow> 4 | Thread_handlers \<Rightarrow> 5 | Endpoint_handlers \<Rightarrow> 2
      | Untyped_handlers \<Rightarrow> 4 | Address_space_handlers \<Rightarrow> 1 | Debug_handlers \<Rightarrow> 1)"

text \<open>Printing, the only debug invocation, changes nothing in the state.\<close>

definition call_handler ::
    "handlers \<Rightarrow> size_t \<Rightarrow> size_t \<Rightarrow> size_t \<Rightarrow> addr \<Rightarrow> size_t \<Rightarrow> kstate \<Rightarrow> (kstate \<times> size_t) option" where
  "call_handler h n address depth slot argument s =
     (case h of
        Node_handlers \<Rightarrow>
          if n = 0 then node_copy address depth slot argument s
          else if n = 1 then node_move address depth slot argument s
          else if n = 2 then node_delete address depth slot argument s
          else node_revoke address depth slot argument s
      | Thread_handlers \<Rightarrow>
          if n = 0 then Some (read_registers slot argument s)
          else if n = 1 then Some (write_registers slot argument s)
          else if n = 2 then Some (resume slot s)
          else if n = 3 then Some (suspend slot s)
          else set_root_node slot argument s
      | Endpoint_handlers \<Rightarrow> if n = 0 then endpoint_send slot argument s else endpoint_receive slot argument s
      | Untyped_handlers \<Rightarrow>
          Some (if n = 0 then untyped_lock slot s else if n = 1 then untyped_unlock slot s
                else if n = 2 then untyped_try_lock slot s else untyped_sizeof slot s)
      | Address_space_handlers \<Rightarrow> address_space_alloc slot argument s
      | Debug_handlers \<Rightarrow> Some (s, 0)
      | No_handlers \<Rightarrow> None)"

definition invoke_capability :: "size_t \<Rightarrow> size_t \<Rightarrow> size_t \<Rightarrow> size_t \<Rightarrow> kstate \<Rightarrow> (kstate \<times> size_t) option" where
  "invoke_capability address depth handler_number argument s = do {
     (s1, result) \<leftarrow> look_up_capability_relative address depth s;
     (case result of None \<Rightarrow> Some (s1, ENOCAPABILITY)
      | Some r \<Rightarrow>
          let h = cap_handlers (caps s1 (lr_slot r)) in
          if h = No_handlers \<or> handler_number \<ge> num_handlers h
          then Some (unlock_looked_up_capability r s1, ECAPINVAL)
          else do {
            (s2, v) \<leftarrow> call_handler h handler_number address depth (lr_slot r) argument s1;
            Some (unlock_looked_up_capability r s2, v)
          })
   }"

section \<open>Traps\<close>

definition SYSCALL_YIELD :: uint32_t where "SYSCALL_YIELD = 0"
definition SYSCALL_INVOKE :: uint32_t where "SYSCALL_INVOKE = 1"

definition trap_handler ::
    "uint32_t \<Rightarrow> thread_registers \<Rightarrow> kstate \<Rightarrow> (kstate \<times> thread_registers) option" where
  "trap_handler idle_thread regs s =
     (if data_registers regs ! 0 = SYSCALL_YIELD then Some (try_context_switch idle_thread regs (yield_thread s))
      else if data_registers regs ! 0 = SYSCALL_INVOKE then do {
        (s1, v) \<leftarrow> invoke_capability (data_registers regs ! 1) (data_registers regs ! 2) (data_registers regs ! 3)
                    (address_registers regs ! 0) s;
        Some (try_context_switch idle_thread (regs\<lparr>data_registers := (data_registers regs)[0 := v]\<rparr>) s1)
      }
      else Some (try_context_switch idle_thread regs s))"

end
