(* ===== verification/Thread_Ids.thy ===== *)
theory Thread_Ids
  imports Kernel_Objects
begin

unbundle bit_operations_syntax

text \<open>
  Thread ids are bits of a bitmap of 32 words. The interface of an allocator of ids, as a
  locale over the set of ids in use, is proved for the bitmap; its clients get that ids handed
  out are new and pairwise different.
\<close>

section \<open>Allocators of ids\<close>

locale id_allocator =
  fixes wf :: "'s \<Rightarrow> bool" and used :: "'s \<Rightarrow> nat set" and capacity :: nat
    and alloc :: "'s \<Rightarrow> ('s \<times> nat) option" and release :: "nat \<Rightarrow> 's \<Rightarrow> 's"
  assumes alloc_new: "wf s \<Longrightarrow> alloc s = Some (s', i) \<Longrightarrow>
      wf s' \<and> i < capacity \<and> i \<notin> used s \<and> used s' = insert i (used s)"
    and alloc_full: "wf s \<Longrightarrow> alloc s = None \<longleftrightarrow> {..<capacity} \<subseteq> used s"
    and release_used: "wf s \<Longrightarrow> i < capacity \<Longrightarrow> wf (release i s) \<and> used (release i s) = used s - {i}"
begin

fun alloc_many :: "nat \<Rightarrow> 's \<Rightarrow> ('s \<times> nat list) option" where
  "alloc_many 0 s = Some (s, [])"
| "alloc_many (Suc n) s =
     (case alloc s of None \<Rightarrow> None
      | Some (s1, i) \<Rightarrow> map_option (\<lambda>(s2, is). (s2, i # is)) (alloc_many n s1))"

lemma alloc_many_distinct:
  "wf s \<Longrightarrow> alloc_many n s = Some (s', is) \<Longrightarrow>
   distinct is \<and> set is \<inter> used s = {} \<and> used s' = used s \<union> set is \<and> length is = n"
proof (induction n arbitrary: s s' "is")
  case (Suc n)
  from Suc.prems(2) obtain s1 i js where a: "alloc s = Some (s1, i)" "alloc_many n s1 = Some (s', js)" "is = i # js"
    by (auto split: option.splits)
  from alloc_new [OF Suc.prems(1) a(1)] Suc.IH [OF _ a(2)] a(3) show ?case by auto
qed simp

lemma release_after_alloc:
  "wf s \<Longrightarrow> alloc s = Some (s', i) \<Longrightarrow> used (release i s') = used s"
  using alloc_new [of s s' i] release_used [of s' i] by auto

end

section \<open>The bitmap of thread ids\<close>

definition id_used :: "size_t list \<Rightarrow> nat \<Rightarrow> bool" where
  "id_used ws k \<longleftrightarrow> k < 32 * length ws \<and> bit (ws ! (k div 32)) (k mod 32)"

lemma first_clear_bit_spec:
  "\<forall>k < b. bit w k \<Longrightarrow> b \<le> first_clear_bit w b n \<and> first_clear_bit w b n \<le> b + n
     \<and> (\<forall>k < first_clear_bit w b n. bit w k)
     \<and> (first_clear_bit w b n < b + n \<longrightarrow> \<not> bit w (first_clear_bit w b n))"
proof (induction n arbitrary: b)
  case (Suc n)
  show ?case
  proof (cases "bit w b")
    case True
    then have "\<forall>k < Suc b. bit w k" using Suc.prems by (auto simp: less_Suc_eq)
    from Suc.IH [OF this] True show ?thesis by (auto simp: bit_iff_and_push_bit_not_eq_0)
  next
    case False
    then show ?thesis using Suc.prems by (auto simp: bit_iff_and_push_bit_not_eq_0)
  qed
qed simp

lemma first_clear_bit_clear:
  assumes "w \<noteq> SIZE_MAX"
  shows "first_clear_bit w 0 32 < 32" and "\<not> bit w (first_clear_bit w 0 32)"
proof -
  note sp = first_clear_bit_spec [of 0 w 32]
  show lt: "first_clear_bit w 0 32 < 32"
  proof (rule ccontr)
    assume "\<not> ?thesis"
    with sp have "\<forall>k < 32. bit w k" by auto
    then have "w = SIZE_MAX" by (intro bit_word_eqI) (simp add: SIZE_MAX_def)
    with assms show False by simp
  qed
  with sp show "\<not> bit w (first_clear_bit w 0 32)" by simp
qed

lemma id_used_Cons: "id_used (w # ws) m \<longleftrightarrow> (if m < 32 then bit w m else id_used ws (m - 32))"
proof (cases "m < 32")
  case False
  then obtain n where "m = n + 32" by (metis add.commute le_Suc_ex not_less)
  moreover have "(n + 32) div 32 = Suc (n div 32)" by simp
  ultimately show ?thesis by (simp add: id_used_def)
qed (simp add: id_used_def)

lemma take_free_id_spec:
  assumes "take_free_id ws i = Some (us, tid)" and "i + length ws \<le> 32"
  shows "\<exists>k. unat tid = 32 * i + k \<and> k < 32 * length ws \<and> \<not> id_used ws k \<and> length us = length ws
    \<and> (\<forall>m. id_used us m \<longleftrightarrow> m = k \<or> id_used ws m)"
  using assms
proof (induction ws i arbitrary: us rule: take_free_id.induct)
  case (1 i)
  then show ?case by simp
next
  case (2 w ws i)
  show ?case
  proof (cases "w = SIZE_MAX")
    case True
    with 2(2) obtain vs where r: "take_free_id ws (Suc i) = Some (vs, tid)" "us = w # vs" by auto
    from 2(1) [OF True r(1)] 2(3) obtain k where
      k: "unat tid = 32 * Suc i + k" "k < 32 * length ws" "\<not> id_used ws k" "length vs = length ws"
      "\<forall>m. id_used vs m \<longleftrightarrow> m = k \<or> id_used ws m" by auto
    have "id_used us m \<longleftrightarrow> m = k + 32 \<or> id_used (w # ws) m" for m
      using spec [OF k(5), of "m - 32"] True by (auto simp: id_used_Cons r(2))
    moreover have "\<not> id_used (w # ws) (k + 32)" using k(3) by (simp add: id_used_Cons)
    ultimately show ?thesis using k(1,2,4) r(2) by (intro exI [of _ "k + 32"]) simp
  next
    case False
    define b where "b = first_clear_bit w 0 32"
    note fc = first_clear_bit_clear [OF False, folded b_def]
    from 2(2) False have r: "us = (w OR push_bit b 1) # ws" "tid = of_nat (i * 32 + b)"
      by (simp_all add: PTR_BITS_def b_def Let_def)
    have "i * 32 + b < 2 ^ 16" using 2(3) fc(1) by simp
    then have u: "unat tid = 32 * i + b" by (simp add: r(2) unat_of_nat del: of_nat_add)
    have bt: "bit (w OR push_bit b 1) m \<longleftrightarrow> m = b \<or> bit w m" if "m < 32" for m
      using that by (auto simp: bit_simps)
    have "id_used us m \<longleftrightarrow> m = b \<or> id_used (w # ws) m" for m
      using fc(1) bt [of m] by (auto simp: id_used_Cons r(1))
    then show ?thesis using u fc r(1) by (intro exI [of _ b]) (auto simp: id_used_Cons)
  qed
qed

lemma take_free_id_none:
  "take_free_id ws i = None \<longleftrightarrow> (\<forall>w \<in> set ws. w = SIZE_MAX)"
  by (induction ws i rule: take_free_id.induct) (auto simp: Let_def)

lemma id_used_full: "(\<forall>w \<in> set ws. w = SIZE_MAX) \<longleftrightarrow> (\<forall>k < 32 * length ws. id_used ws k)"
proof
  assume m: "\<forall>w \<in> set ws. w = SIZE_MAX"
  have i: "ws ! (k div 32) \<in> set ws" if "k < 32 * length ws" for k
    using that by (intro nth_mem) (simp add: less_mult_imp_div_less mult.commute)
  show "\<forall>k < 32 * length ws. id_used ws k"
  proof (intro allI impI)
    fix k assume k: "k < 32 * length ws"
    then have "ws ! (k div 32) = SIZE_MAX" using m i by blast
    then show "id_used ws k" using k by (simp add: id_used_def SIZE_MAX_def)
  qed
next
  assume u: "\<forall>k < 32 * length ws. id_used ws k"
  show "\<forall>w \<in> set ws. w = SIZE_MAX"
  proof
    fix w assume "w \<in> set ws"
    then obtain j where j: "j < length ws" "ws ! j = w" by (auto simp: in_set_conv_nth)
    show "w = SIZE_MAX"
    proof (rule bit_word_eqI)
      fix n assume n: "n < LENGTH(32)"
      then have "32 * j + n < 32 * length ws" using j(1) by simp
      with u have "id_used ws (32 * j + n)" by blast
      then show "bit w n = bit SIZE_MAX n" using n j by (simp add: id_used_def SIZE_MAX_def)
    qed
  qed
qed

lemma id_used_release:
  assumes "unat tid < 32 * length ws"
  shows "id_used (release_id tid ws) k \<longleftrightarrow> id_used ws k \<and> k \<noteq> unat tid"
proof -
  let ?i = "unat tid div 32" and ?b = "unat tid mod 32"
  have bt: "bit (ws ! ?i AND NOT (push_bit ?b 1)) m \<longleftrightarrow> bit (ws ! ?i) m \<and> m \<noteq> ?b" if "m < 32" for m
    using that by (auto simp: bit_simps)
  have "k = unat tid \<longleftrightarrow> k div 32 = ?i \<and> k mod 32 = ?b" by (metis div_mult_mod_eq)
  then show ?thesis using bt [of "k mod 32"] assms
    by (auto simp: id_used_def release_id_def PTR_BITS_def Let_def nth_list_update)
qed

definition alloc_id :: "size_t list \<Rightarrow> (size_t list \<times> nat) option" where
  "alloc_id ws = map_option (\<lambda>(us, tid). (us, unat tid)) (take_free_id ws 0)"

interpretation tids: id_allocator "\<lambda>ws. length ws = 32" "\<lambda>ws. Collect (id_used ws)" 1024 alloc_id
  "\<lambda>i. release_id (of_nat i)"
proof
  fix s s' i assume "length s = 32" "alloc_id s = Some (s', i)"
  then show "length s' = 32 \<and> i < 1024 \<and> i \<notin> Collect (id_used s) \<and> Collect (id_used s') = insert i (Collect (id_used s))"
    using take_free_id_spec [of s 0] by (fastforce simp: alloc_id_def)
next
  fix s :: "size_t list" assume "length s = 32"
  then show "alloc_id s = None \<longleftrightarrow> {..<1024} \<subseteq> Collect (id_used s)"
    using take_free_id_none [of s 0] id_used_full [of s] by (auto simp: alloc_id_def)
next
  fix s :: "size_t list" and i assume "length s = 32" "i < (1024 :: nat)"
  then have "unat (of_nat i :: uint16_t) = i" by (simp add: unat_of_nat)
  then show "length (release_id (of_nat i) s) = 32 \<and> Collect (id_used (release_id (of_nat i) s)) = Collect (id_used s) - {i}"
    using id_used_release [of "of_nat i" s] \<open>length s = 32\<close> \<open>i < 1024\<close> by (auto simp: release_id_def Let_def)
qed

end
