(* ===== verification/Thread_Table.thy ===== *)
theory Thread_Table
  imports Thread_Ids
begin

unbundle bit_operations_syntax

text \<open>
  Allocating threads: what the heap's operations leave alone, the thread table as lists, and the
  round trip from \<open>alloc_thread\<close> to \<open>look_up_thread_by_id\<close>.
\<close>

section \<open>What the heap leaves alone\<close>

definition heap_frame :: "'x heap_state_scheme \<Rightarrow> 'x heap_state_scheme \<Rightarrow> bool" where
  "heap_frame s s' \<longleftrightarrow> s' = s\<lparr>hdrs := hdrs s', hp := hp s'\<rparr>"

lemma heap_frame_refl [simp]: "heap_frame s s"
  by (simp add: heap_frame_def)

lemma heap_frame_trans: "heap_frame s t \<Longrightarrow> heap_frame t u \<Longrightarrow> heap_frame s u"
proof -
  assume "heap_frame s t" "heap_frame t u"
  then have "u = s\<lparr>hdrs := hdrs t, hp := hp t\<rparr>\<lparr>hdrs := hdrs u, hp := hp u\<rparr>" by (simp add: heap_frame_def)
  then show ?thesis by (simp add: heap_frame_def)
qed

lemma heap_frame_upd [simp]: "heap_frame s (upd_hdr h f t) = heap_frame s t" "heap_frame s (upd_used g t) = heap_frame s t"
proof -
  have "heap_frame t (upd_hdr h f t)" "heap_frame (upd_hdr h f t) t" "heap_frame t (upd_used g t)" "heap_frame (upd_used g t) t"
    by (simp_all add: heap_frame_def upd_hdr_def upd_used_def)
  then show "heap_frame s (upd_hdr h f t) = heap_frame s t" "heap_frame s (upd_used g t) = heap_frame s t"
    using heap_frame_trans by blast+
qed

lemma heap_frame_split_header: "heap_frame s (fst (split_header h at s))"
  by (simp add: split_header_def Let_def)

lemma heap_frame_claim: "heap_frame s (claim_blocks sz st en m s)"
proof -
  have mg: "heap_frame s (merge_blocks st en t) = heap_frame s t" for t by (simp add: merge_blocks_def Let_def)
  have sp: "heap_frame s t \<Longrightarrow> heap_frame s (fst (split_header h at t))" for h at t
    using heap_frame_split_header heap_frame_trans by blast
  show ?thesis
    by (auto simp: claim_blocks_def Let_def split_beta intro!: sp simp: mg)
qed

lemma heap_frame_split_end: "heap_frame s (split_end sz en tot s)"
  by (simp add: split_end_def Let_def heap_frame_split_header)

lemma heap_alloc_pinned_frame:
  assumes "heap_wf s hs" and "\<And>k. k \<in> set hs \<Longrightarrow> pinned s k" and "unat n + 29 < 2 ^ 32"
    and "heap_alloc hk s n = Some (s', p)"
  shows "heap_frame s s'"
  using assms(4) heap_alloc_pinned [OF assms(1-3), of hk] heap_frame_claim heap_frame_split_end heap_frame_trans
  by (auto split: option.splits) blast

lemma heap_alloc_pinned_available:
  assumes "heap_wf s hs" and "\<And>k. k \<in> set hs \<Longrightarrow> pinned s k" and "unat n + 29 < 2 ^ 32"
    and "heap_alloc hk s n = Some (s', p)" and "p \<noteq> NULL"
  shows "available s (header_of p)"
proof -
  from assms(4,5) heap_alloc_pinned [OF assms(1-3), of hk] obtain r where
    r: "find_run s (unat (alloc_size n)) [] hs = Some r" "p = hd_or NULL r + sizeof_heap_header"
    by (auto split: option.splits)
  from find_run_sound [OF r(1)] have "r \<noteq> []" "list_all (available s) r" by auto
  then have "available s (hd_or NULL r)" using hd_or_in_set by (metis list_all_iff)
  then show ?thesis by (simp add: r(2) header_of_def)
qed

lemma heap_wf_cong:
  assumes "hdrs s' = hdrs s" and "hp s' = hp s"
  shows "heap_wf s' hs = heap_wf s hs" "available s' = available s" "pinned s' = pinned s" "bytes s' = bytes s"
    "find_run s' n run hs = find_run s n run hs"
proof -
  have b: "bsize s' = bsize s" and a: "available s' = available s" by (simp_all add: bsize_def available_def fun_eq_iff assms)
  have bl: "blocks s' lo hs hi = blocks s lo hs hi" for lo hi by (rule blocks_cong) (simp add: b)
  show "available s' = available s" "pinned s' = pinned s" by (simp_all add: a pinned_def fun_eq_iff assms)
  show by': "bytes s' = bytes s" by (simp add: bytes_def fun_eq_iff b)
  then have "free_bytes s' = free_bytes s" by (simp add: free_bytes_def fun_eq_iff a)
  then show "heap_wf s' hs = heap_wf s hs" by (simp add: heap_wf_def heap_linked_def assms by' bl)
  show "find_run s' n run hs = find_run s n run hs"
    by (induction hs arbitrary: run) (simp_all add: a by')
qed

lemma heap_alloc_pinned_block:
  assumes "heap_wf s hs" and "\<And>k. k \<in> set hs \<Longrightarrow> pinned s k" and "unat n + 29 < 2 ^ 32"
    and "heap_alloc hk s n = Some (s', p)" and "p \<noteq> NULL"
  shows "n \<le> heap_sizeof p s'" and "unat p + unat (heap_sizeof p s') < 2 ^ 32"
proof -
  from assms(4,5) heap_alloc_pinned [OF assms(1-3), of hk] obtain r where
    r: "find_run s (unat (alloc_size n)) [] hs = Some r" "p = hd_or NULL r + sizeof_heap_header"
    by (auto split: option.splits)
  let ?st = "hd_or NULL r" and ?rest = "if unat (alloc_size n) + 26 < bytes s r then [hd_or NULL r + alloc_size n] else []"
  from heap_alloc_some [OF assms(1-3) r(1), of hk] obtain s1 ys zs where
    ret: "heap_alloc hk s n = Some (s1, ?st + sizeof_heap_header)" and c: "claimed s s1 ys ?st ?rest zs (bytes s r)"
    and wf: "heap_wf s1 (ys @ [?st] @ ?rest @ zs)" and big: "unat (alloc_size n) \<le> bytes s r" by metis
  have s1: "s1 = s'" using ret assms(4) by simp
  have "unat (alloc_size n) \<le> bsize s1 ?st"
    using c big claimed_rest [of s s1 ys ?st "alloc_size n" zs "bytes s r"]
    by (cases "unat (alloc_size n) + 26 < bytes s r") (auto simp: claimed_def)
  then have sz: "unat n + 26 \<le> bsize s1 ?st" using alloc_size_bounds(1) [OF assms(3)] by linarith
  have st: "?st \<in> set (ys @ [?st] @ ?rest @ zs)" by simp
  note bp = block_pointer [OF wf st sz]
  show "n \<le> heap_sizeof p s'" using bp(3) by (simp add: r(2) s1)
  have b: "26 \<le> bsize s1 ?st" "unat ?st + bsize s1 ?st < 2 ^ 32" using heap_wf_bsize [OF wf st] heap_wf_end [OF wf st] by auto
  have "unat (?st + sizeof_heap_header) = unat ?st + 26" using b by (simp add: heap_consts unat_plus_no_wrap)
  moreover have "unat (heap_sizeof p s1) = bsize s1 ?st - 26"
    using b(1) unfolding heap_sizeof_def r(2) bp(2) by (simp add: unat_sub word_le_nat_alt bsize_def heap_consts)
  ultimately show "unat p + unat (heap_sizeof p s') < 2 ^ 32" using b by (simp add: r(2) s1)
qed

lemma heap_frame_fields:
  assumes "heap_frame s (s' :: kstate)"
  shows "threads s' = threads s" "table_entry s' = table_entry s" "thread_hash_table s' = thread_hash_table s"
    "used_thread_ids s' = used_thread_ids s" "caps s' = caps s" "nodes s' = nodes s"
proof -
  have eq: "s' = s\<lparr>hdrs := hdrs s', hp := hp s'\<rparr>" using assms by (simp add: heap_frame_def)
  show "threads s' = threads s" "table_entry s' = table_entry s" "thread_hash_table s' = thread_hash_table s"
    "used_thread_ids s' = used_thread_ids s" "caps s' = caps s" "nodes s' = nodes s"
    by (subst eq, simp)+
qed

section \<open>A new node\<close>

lemma clear_slots_caps:
  "clear_slots node n s = s\<lparr>caps := (\<lambda>a. if \<exists>i < unat n. a = slot_address node (of_nat i) then (caps s a)\<lparr>cap_handlers := No_handlers\<rparr> else caps s a)\<rparr>"
proof -
  have "fold (\<lambda>i. clear_handlers (slot_address node (of_nat i))) [0..<k] s =
      s\<lparr>caps := (\<lambda>a. if \<exists>i < k. a = slot_address node (of_nat i) then (caps s a)\<lparr>cap_handlers := No_handlers\<rparr> else caps s a)\<rparr>" for k
  proof (induction k)
    case (Suc k)
    let ?f = "\<lambda>k a. if \<exists>i < k. a = slot_address node (of_nat i) then (caps s a)\<lparr>cap_handlers := No_handlers\<rparr> else caps s a"
    have "(?f k)(slot_address node (of_nat k) := (?f k (slot_address node (of_nat k)))\<lparr>cap_handlers := No_handlers\<rparr>) = ?f (Suc k)"
      by (auto simp: fun_eq_iff less_Suc_eq)
    moreover have "clear_handlers a (s\<lparr>caps := F\<rparr>) = s\<lparr>caps := F(a := (F a)\<lparr>cap_handlers := No_handlers\<rparr>)\<rparr>" for a F
      by (simp add: clear_handlers_def upd_cap_def)
    ultimately have "clear_handlers (slot_address node (of_nat k)) (s\<lparr>caps := ?f k\<rparr>) = s\<lparr>caps := ?f (Suc k)\<rparr>" by (simp only:)
    with Suc show ?case by simp
  qed simp
  then show ?thesis by (simp add: clear_slots_def)
qed

section \<open>The thread table\<close>

text \<open>The first thread of a list with the given id, or NULL.\<close>

definition thread_in :: "kstate \<Rightarrow> uint16_t \<Rightarrow> addr list \<Rightarrow> addr" where
  "thread_in s tid xs = hd_or NULL (filter (\<lambda>t. thread_id (threads s t) = tid) xs)"

lemma find_thread_list:
  "dseg pv (\<lambda>a. lnk_next (table_entry s a)) p xs NULL \<Longrightarrow> find_thread s tid (hd_or NULL xs) = Some (thread_in s tid xs)"
proof (induction xs arbitrary: p)
  case Nil
  then show ?case by (simp add: find_thread.simps thread_in_def)
next
  case (Cons x xs)
  then show ?case by (subst find_thread.simps) (auto simp: thread_in_def)
qed

lemma look_up_thread_list:
  assumes "list_rep p (thread_hash_table s b) (table_entry s) xs"
  shows "look_up_thread_by_id tid b s =
    (let t = thread_in s tid xs in
     Some (if t = NULL then (s, False, NULL) else (fst (heap_lock t s), snd (heap_lock t s), t)))"
proof -
  have "find_thread s tid (lc_start (thread_hash_table s b)) = Some (thread_in s tid xs)"
    using assms find_thread_list unfolding list_rep_def by metis
  then show ?thesis by (simp add: look_up_thread_by_id_def Let_def split_beta)
qed

section \<open>A new thread\<close>

lemma zero_thread_at_simps [simp]:
  "threads (zero_thread_at t s) = (threads s)(t := zero_thread)"
  "table_entry (zero_thread_at t s) = (table_entry s)(t := zero_link)"
  "thread_hash_table (zero_thread_at t s) = thread_hash_table s"
  "used_thread_ids (zero_thread_at t s) = used_thread_ids s"
  by (simp_all add: zero_thread_at_def)

lemma upd_thread_table [simp]:
  "thread_hash_table (upd_thread t f s) = thread_hash_table s" "table_entry (upd_thread t f s) = table_entry s"
  "used_thread_ids (upd_thread t f s) = used_thread_ids s"
  by (simp_all add: upd_thread_def)

text \<open>
  The threads of a bucket: their ids are in use, and their memory is allocated.
\<close>

definition bucket_wf :: "kstate \<Rightarrow> uint8_t \<Rightarrow> addr list \<Rightarrow> bool" where
  "bucket_wf s b xs \<longleftrightarrow>
     (\<exists>p. list_rep p (thread_hash_table s b) (table_entry s) xs)
     \<and> (\<forall>x \<in> set xs. id_used (used_thread_ids s) (unat (thread_id (threads s x))) \<and> \<not> available s (header_of x))"

lemma new_thread_in_bucket:
  assumes b: "bucket_wf s b xs" and t: "t \<noteq> NULL" "available s (header_of t)"
    and fr: "threads s1 = threads s" "table_entry s1 = table_entry s" "thread_hash_table s1 = thread_hash_table s"
    and tid: "\<not> id_used (used_thread_ids s) (unat tid)" and b': "b = bucket_of tid"
  defines "s2 \<equiv> upd_thread t (\<lambda>x. x\<lparr>exec_mode := EXEC_MODE_SUSPENDED, thread_id := tid, bucket_number := bucket_of tid\<rparr>)
      (zero_thread_at t s1)"
  shows "\<exists>p. list_rep p (thread_hash_table (append_to_table t s2) b) (table_entry (append_to_table t s2)) (xs @ [t])"
    and "thread_in (append_to_table t s2) tid (xs @ [t]) = t"
    and "threads (append_to_table t s2) = (threads s)(t := zero_thread\<lparr>exec_mode := EXEC_MODE_SUSPENDED,
        thread_id := tid, bucket_number := b\<rparr>)"
proof -
  have tx: "t \<notin> set xs" using b t(2) by (auto simp: bucket_wf_def)
  obtain p where p: "list_rep p (thread_hash_table s b) (table_entry s) xs" using b by (auto simp: bucket_wf_def)
  have p2: "list_rep p (thread_hash_table s2 b) (table_entry s2) xs"
  proof -
    have "table_entry s2 a = table_entry s a" if "a \<in> set xs" for a using that tx fr by (auto simp: s2_def)
    moreover have "thread_hash_table s2 = thread_hash_table s" using fr by (simp add: s2_def)
    ultimately show ?thesis using list_rep_frame [OF p] by simp
  qed
  obtain c m where a: "LIST_APPEND (thread_hash_table s2 b) (table_entry s2) t = (c, m)" by fastforce
  have th: "threads s2 = (threads s)(t := zero_thread\<lparr>exec_mode := EXEC_MODE_SUSPENDED, thread_id := tid, bucket_number := b\<rparr>)"
    using fr(1) b' by (simp add: s2_def)
  then have bn: "bucket_number (threads s2 t) = b" by simp
  have eq: "append_to_table t s2 = s2\<lparr>thread_hash_table := (thread_hash_table s2)(b := c), table_entry := m\<rparr>"
    by (simp add: append_to_table_def bn a)
  show "\<exists>p. list_rep p (thread_hash_table (append_to_table t s2) b) (table_entry (append_to_table t s2)) (xs @ [t])"
    using LIST_APPEND_rep(1) [OF p2 t(1) tx a] by (auto simp: eq)
  show th': "threads (append_to_table t s2) = (threads s)(t := zero_thread\<lparr>exec_mode := EXEC_MODE_SUSPENDED,
        thread_id := tid, bucket_number := b\<rparr>)" using th by (simp add: eq)
  have "thread_id (threads s x) \<noteq> tid" if "x \<in> set xs" for x using b that tid by (auto simp: bucket_wf_def)
  then have "filter (\<lambda>x. thread_id (threads (append_to_table t s2) x) = tid) (xs @ [t]) = [t]"
    using tx by (auto simp: th' filter_empty_conv)
  then show "thread_in (append_to_table t s2) tid (xs @ [t]) = t" by (simp add: thread_in_def)
qed

definition demo_kernel :: "size_t \<Rightarrow> kstate" where
  "demo_kernel n = zero_kstate\<lparr>
     hdrs := (hdrs zero_kstate)(4096 := \<lparr>hh_size = n, hh_flags = KIND_AVAILABLE,
       hh_update_ref = Absolute_ptr NULL, hh_next = NULL, hh_prev = NULL\<rparr>),
     hp := \<lparr>heap_base = 4096, total_memory = n, used_memory = 0\<rparr>\<rparr>"

lemma demo_kernel_wf:
  assumes "26 \<le> n" and "unat n < 2 ^ 31"
  shows "heap_wf (demo_kernel n) [4096]" "\<forall>k \<in> set [4096]. pinned (demo_kernel n) k"
    "available (demo_kernel n) 4096" "bsize (demo_kernel n) 4096 = unat n"
  using assms
  by (simp_all add: demo_kernel_def heap_wf_def heap_linked_def pinned_def available_def bsize_def GET_KIND_def
      heap_consts word_le_nat_alt)

lemma demo_kernel_buckets: "\<forall>b. bucket_wf (demo_kernel n) b []" "length (used_thread_ids (demo_kernel n)) = 32"
  by (auto simp: bucket_wf_def demo_kernel_def zero_kstate_def intro: LIST_INIT_rep)

lemma demo_alloc_thread: "\<exists>s' t. alloc_thread (demo_kernel 1000) = Some (s', t) \<and> t \<noteq> NULL"
proof -
  have n: "26 \<le> (1000 :: size_t)" "unat (1000 :: size_t) < 2 ^ 31" by simp_all
  obtain ids tid where tk: "take_free_id (used_thread_ids (demo_kernel 1000)) 0 = Some (ids, tid)"
    by (simp add: demo_kernel_def zero_kstate_def SIZE_MAX_def Let_def eval_nat_numeral)
  let ?s0 = "(demo_kernel 1000)\<lparr>used_thread_ids := ids\<rparr>"
  have hd: "hdrs ?s0 = hdrs (demo_kernel 1000)" "hp ?s0 = hp (demo_kernel 1000)" by simp_all
  have wf: "heap_wf ?s0 [4096]" "\<And>k. k \<in> set [4096] \<Longrightarrow> pinned ?s0 k"
    using demo_kernel_wf(1,2) [OF n] heap_wf_cong [OF hd] by auto
  have "\<exists>s1 t. heap_alloc kernel_hooks ?s0 sizeof_thread_capability = Some (s1, t) \<and> t \<noteq> NULL"
    by (rule heap_alloc_nonnull [OF wf, of sizeof_thread_capability "[]" "[4096]" "[]"])
       (use demo_kernel_wf(3,4) [OF n] heap_wf_cong [OF hd] in
         \<open>auto simp: kernel_consts heap_consts alloc_size_def\<close>)
  then show ?thesis by (auto simp: alloc_thread_def tk Let_def)
qed

text \<open>
  C29: a thread allocated on a heap without movable blocks is found by its id. Its id was not in use
  and is marked as in use, it is suspended, it stands at the end of the bucket its id belongs to, behind the threads that were
  there, and looking up its id in this bucket returns it and locks it: the state is the one from before with the
  thread's memory locked, so that it cannot be moved.
\<close>

theorem alloc_thread_look_up:
  assumes "heap_wf s hs" and "\<forall>k \<in> set hs. pinned s k" and "length (used_thread_ids s) = 32"
    and "\<forall>b. bucket_wf s b (bucket b)"
    and "alloc_thread s = Some (s', t)" and "t \<noteq> NULL"
  shows "\<exists>tid. \<not> id_used (used_thread_ids s) (unat tid)
    \<and> (\<forall>k. id_used (used_thread_ids s') k \<longleftrightarrow> k = unat tid \<or> id_used (used_thread_ids s) k)
    \<and> exec_mode (threads s' t) = EXEC_MODE_SUSPENDED \<and> thread_id (threads s' t) = tid \<and> bucket_number (threads s' t) = bucket_of tid
    \<and> (\<exists>p. list_rep p (thread_hash_table s' (bucket_of tid)) (table_entry s') (bucket (bucket_of tid) @ [t]))
    \<and> look_up_thread_by_id tid (bucket_of tid) s' = Some (fst (heap_lock t s'), snd (heap_lock t s'), t)
    \<and> \<not> movable (fst (heap_lock t s')) t"
proof -
  from assms(5,6) obtain ids tid where tk: "take_free_id (used_thread_ids s) 0 = Some (ids, tid)"
    by (auto simp: alloc_thread_def split: option.splits)
  let ?s0 = "s\<lparr>used_thread_ids := ids\<rparr>"
  from assms(5,6) tk obtain s1 where
    al: "heap_alloc kernel_hooks ?s0 sizeof_thread_capability = Some (s1, t)"
    and s': "s' = append_to_table t (upd_thread t (\<lambda>x. x\<lparr>exec_mode := EXEC_MODE_SUSPENDED, thread_id := tid,
        bucket_number := bucket_of tid\<rparr>) (zero_thread_at t s1))"
    by (auto simp: alloc_thread_def bind_eq_Some_conv Let_def split: if_splits)
  from take_free_id_spec [OF tk] assms(3) have ids: "\<not> id_used (used_thread_ids s) (unat tid)"
    "\<forall>m. id_used ids m \<longleftrightarrow> m = unat tid \<or> id_used (used_thread_ids s) m" by auto
  have hd: "hdrs ?s0 = hdrs s" "hp ?s0 = hp s" by simp_all
  have wf0: "heap_wf ?s0 hs" "\<And>k. k \<in> set hs \<Longrightarrow> pinned ?s0 k"
    using assms(1,2) heap_wf_cong [OF hd] by auto
  have sz: "unat sizeof_thread_capability + 29 < 2 ^ 32" by (simp add: kernel_consts)
  have av: "available s (header_of t)"
    using heap_alloc_pinned_available [OF wf0 sz al assms(6)] heap_wf_cong(2) [OF hd] by simp
  note fr = heap_frame_fields [OF heap_alloc_pinned_frame [OF wf0 sz al]]
  have fr': "threads s1 = threads s" "table_entry s1 = table_entry s" "thread_hash_table s1 = thread_hash_table s"
    using fr by simp_all
  have bw: "bucket_wf s (bucket_of tid) (bucket (bucket_of tid))" using assms(4) by blast
  note nt = new_thread_in_bucket [OF bw assms(6) av fr' ids(1) refl, folded s']
  obtain p where p: "list_rep p (thread_hash_table s' (bucket_of tid)) (table_entry s') (bucket (bucket_of tid) @ [t])"
    using nt(1) by blast
  have "used_thread_ids s' = ids" using fr(4) by (simp add: s' append_to_table_def split_beta Let_def)
  moreover have "look_up_thread_by_id tid (bucket_of tid) s' = Some (fst (heap_lock t s'), snd (heap_lock t s'), t)"
    using look_up_thread_list [OF p, of tid] nt(2) assms(6) by simp
  moreover have "exec_mode (threads s' t) = EXEC_MODE_SUSPENDED" "thread_id (threads s' t) = tid"
    "bucket_number (threads s' t) = bucket_of tid" using nt(3) by simp_all
  moreover have "\<not> movable (fst (heap_lock t s')) t" by (simp add: heap_lock_alt movable_lock_hdr)
  ultimately show ?thesis using ids p by blast
qed

theorem alloc_thread_look_up_witness:
  "\<exists>s' t tid. alloc_thread (demo_kernel 1000) = Some (s', t)
    \<and> look_up_thread_by_id tid (bucket_of tid) s' = Some (fst (heap_lock t s'), snd (heap_lock t s'), t)
    \<and> (\<exists>p. list_rep p (thread_hash_table s' (bucket_of tid)) (table_entry s') [t])"
proof -
  have n: "26 \<le> (1000 :: size_t)" "unat (1000 :: size_t) < 2 ^ 31" by simp_all
  obtain s' t where a: "alloc_thread (demo_kernel 1000) = Some (s', t)" "t \<noteq> NULL" using demo_alloc_thread by blast
  from alloc_thread_look_up [OF demo_kernel_wf(1,2) [OF n] demo_kernel_buckets(2,1) a] a(1)
  show ?thesis by auto
qed

text \<open>
  When the heap has no room for a thread, \<open>alloc_thread\<close> returns NULL, the id it had taken is free
  again, and nothing else in the state has changed; when all 1024 ids are in use it returns NULL and
  changes nothing.
\<close>

lemma alloc_thread_failure_releases_id:
  assumes "heap_wf s hs" and "\<forall>k \<in> set hs. pinned s k" and "length (used_thread_ids s) = 32"
    and "find_run s (unat (alloc_size sizeof_thread_capability)) [] hs = None
      \<or> (\<forall>k < 1024. id_used (used_thread_ids s) k)"
  shows "\<exists>ids. alloc_thread s = Some (s\<lparr>used_thread_ids := ids\<rparr>, NULL)
    \<and> (\<forall>k. id_used ids k \<longleftrightarrow> id_used (used_thread_ids s) k)"
proof (cases "take_free_id (used_thread_ids s) 0")
  case None
  then show ?thesis by (intro exI [of _ "used_thread_ids s"]) (simp add: alloc_thread_def)
next
  case (Some r)
  then obtain ids tid where tk: "take_free_id (used_thread_ids s) 0 = Some (ids, tid)" by (cases r) auto
  from take_free_id_spec [OF tk] assms(3) have ids: "unat tid < 1024" "\<not> id_used (used_thread_ids s) (unat tid)"
    "length ids = 32" "\<forall>m. id_used ids m \<longleftrightarrow> m = unat tid \<or> id_used (used_thread_ids s) m" by auto
  then have run: "find_run s (unat (alloc_size sizeof_thread_capability)) [] hs = None" using assms(4) by blast
  let ?s0 = "s\<lparr>used_thread_ids := ids\<rparr>"
  have hd: "hdrs ?s0 = hdrs s" "hp ?s0 = hp s" by simp_all
  have wf0: "heap_wf ?s0 hs" "\<And>k. k \<in> set hs \<Longrightarrow> pinned ?s0 k"
    using assms(1,2) heap_wf_cong [OF hd] by auto
  have sz: "unat sizeof_thread_capability + 29 < 2 ^ 32" by (simp add: kernel_consts)
  have "heap_alloc kernel_hooks ?s0 sizeof_thread_capability = Some (?s0, NULL)"
    using heap_alloc_pinned [OF wf0 sz, of kernel_hooks] run heap_wf_cong(5) [OF hd] by simp
  then have "alloc_thread s = Some (s\<lparr>used_thread_ids := release_id tid ids\<rparr>, NULL)"
    by (simp add: alloc_thread_def tk)
  moreover have "id_used (release_id tid ids) k \<longleftrightarrow> id_used (used_thread_ids s) k" for k
    using id_used_release [of tid ids k] ids by auto
  ultimately show ?thesis by blast
qed

text \<open>
  C34: the bitmap hands out an id exactly when one of the 1024 is free; the id was not in use, it is
  the only one whose state changes, and releasing it gives the set of used ids from before.
\<close>

theorem take_free_id_fresh:
  assumes "length ws = 32"
  shows "case take_free_id ws 0 of
      None \<Rightarrow> \<forall>k < 1024. id_used ws k
    | Some (us, tid) \<Rightarrow> unat tid < 1024 \<and> \<not> id_used ws (unat tid)
        \<and> (\<forall>k. id_used us k \<longleftrightarrow> k = unat tid \<or> id_used ws k)
        \<and> (\<forall>k. id_used (release_id tid us) k \<longleftrightarrow> id_used ws k)"
proof (cases "take_free_id ws 0")
  case None
  then show ?thesis using tids.alloc_full [OF assms] by (auto simp: alloc_id_def)
next
  case (Some r)
  then obtain us tid where r: "take_free_id ws 0 = Some (us, tid)" by (cases r) auto
  then have a: "alloc_id ws = Some (us, unat tid)" by (simp add: alloc_id_def)
  from tids.alloc_new [OF assms a] tids.release_after_alloc [OF assms a] r show ?thesis by auto
qed

theorem take_free_id_fresh_witness:
  "\<exists>us tid. take_free_id (replicate 32 0) 0 = Some (us, tid) \<and> id_used us (unat tid)"
proof -
  have len: "length (replicate 32 (0 :: size_t)) = 32" by simp
  obtain us tid where a: "take_free_id (replicate 32 0) 0 = Some (us, tid)"
    by (simp add: SIZE_MAX_def Let_def eval_nat_numeral)
  from take_free_id_fresh [OF len] a show ?thesis by auto
qed

end
