(* ===== verification/Cap_Properties.thy ===== *)
theory Cap_Properties
  imports Invocation_Properties
begin

unbundle bit_operations_syntax

text \<open>
  Properties of the operations on capabilities: who owns a resource after a deletion, what moving a
  capability does to the lists it is in, what a copy may do, and what revoking takes away.
\<close>

section \<open>Sizes of nodes\<close>

lemma unat_two_power: "b < 32 \<Longrightarrow> unat ((2 :: size_t) ^ b) = 2 ^ b"
proof -
  assume "b < 32"
  then have "(2 :: nat) ^ b < 2 ^ 32" by (intro power_strict_increasing) simp_all
  then show ?thesis using unat_of_nat_32 [of "2 ^ b"] by simp
qed

lemma node_alloc_size_mod:
  assumes "b < 32"
  shows "unat (node_alloc_size (shl 1 (of_nat b))) = (2 + 72 * 2 ^ b) mod 2 ^ 32"
proof -
  have "shl 1 (of_nat b) = (2 :: size_t) ^ b" using assms by (simp add: shl_def unat_of_nat_32 push_bit_eq_mult)
  moreover have "unat ((2 :: size_t) ^ b) = 2 ^ b" using assms by (simp add: unat_two_power)
  ultimately show ?thesis by (simp add: node_alloc_size_def kernel_consts unat_word_ariths mult.commute mod_simps)
qed

text \<open>
  C35: a node of up to 25 bits that \<open>alloc_node\<close> returns, on a heap without movable blocks, has \<open>2 ^ bits\<close> empty slots, all of them inside its
  allocation, one after the other behind its two own bytes. For more bits (\<open>alloc_node\<close> takes 31 for 32 and more) the size
  is computed modulo \<open>2 ^ 32\<close> and nothing is checked: whatever the heap, a node that is returned says that it has slots of more bytes
  than there are addresses.
\<close>

theorem alloc_node_slots_fit:
  assumes "alloc_node bits s = Some (s', node)" and "node \<noteq> NULL" and "b = min (unat bits) 31"
  shows "num_slots (nodes s' node) = 2 ^ b
    \<and> (\<exists>s1 n. heap_alloc kernel_hooks s n = Some (s1, node) \<and> unat n = (2 + 72 * 2 ^ b) mod 2 ^ 32)
    \<and> (26 \<le> b \<longrightarrow> 2 ^ 32 < 72 * unat (num_slots (nodes s' node)))
    \<and> (b \<le> 25 \<and> heap_wf s hs \<and> (\<forall>k \<in> set hs. pinned s k) \<longrightarrow>
        (\<forall>i < 2 ^ b. cap_handlers (caps s' (slot_address node (of_nat i))) = No_handlers
          \<and> unat (slot_address node (of_nat i)) = unat node + 2 + 72 * i
          \<and> 2 + 72 * i + 72 \<le> unat (heap_sizeof node s')))"
proof -
  define bits' where "bits' = (if bits \<ge> 32 then 31 else bits)"
  have b: "b < 32" "bits' = of_nat b" "unat bits' = b"
    using assms(3) by (auto simp: bits'_def word_le_nat_alt min_def unat_of_nat_32)
  define n where "n = node_alloc_size (shl 1 bits')"
  have n: "unat n = (2 + 72 * 2 ^ b) mod 2 ^ 32" unfolding n_def b(2) by (rule node_alloc_size_mod [OF b(1)])
  have sl: "shl 1 bits' = (2 :: size_t) ^ b" using b by (simp add: shl_def push_bit_eq_mult)
  have u2: "unat ((2 :: size_t) ^ b) = 2 ^ b" using b(1) by (simp add: unat_two_power)
  from assms(1,2) obtain s1 where
    al: "heap_alloc kernel_hooks s n = Some (s1, node)"
    and s': "s' = clear_slots node (shl 1 bits') (upd_node node (\<lambda>_. \<lparr>slot_bits = ucast bits', nested_nodes = 1\<rparr>) s1)"
    by (auto simp: alloc_node_def bits'_def [symmetric] n_def [symmetric] Let_def Option.bind_eq_Some_conv split: if_splits)
  have ub: "unat (ucast bits' :: uint8_t) = b" using b by (simp add: unsigned_ucast_eq take_bit_nat_eq_self)
  have ns: "num_slots (nodes s' node) = 2 ^ b"
    using b(1) ub by (simp add: s' clear_slots_caps upd_node_def num_slots_push_bit push_bit_eq_mult)
  have "2 ^ 32 < 72 * unat (num_slots (nodes s' node))" if "26 \<le> b"
  proof -
    have "(2 :: nat) ^ 26 \<le> 2 ^ b" using that by (rule power_increasing) simp
    then show ?thesis unfolding ns u2 by simp
  qed
  moreover have "cap_handlers (caps s' (slot_address node (of_nat i))) = No_handlers
      \<and> unat (slot_address node (of_nat i)) = unat node + 2 + 72 * i \<and> 2 + 72 * i + 72 \<le> unat (heap_sizeof node s')"
    if "b \<le> 25" "heap_wf s hs" "\<forall>k \<in> set hs. pinned s k" "i < 2 ^ b" for i
  proof -
    have "(2 :: nat) ^ b \<le> 2 ^ 25" using that(1) by (rule power_increasing) simp
    then have n': "unat n = 2 + 72 * 2 ^ b" "unat n + 29 < 2 ^ 32" using n by simp_all
    have pin: "\<And>k. k \<in> set hs \<Longrightarrow> pinned s k" using that(3) by blast
    have hs: "heap_sizeof node s' = heap_sizeof node s1" by (simp add: heap_sizeof_def s' clear_slots_caps upd_node_def)
    note blk = heap_alloc_pinned_block [OF that(2) pin n'(2) al assms(2), folded hs]
    have fit: "2 + 72 * i + 72 \<le> unat (heap_sizeof node s')" using blk(1) n'(1) that(4) by (simp add: word_le_nat_alt)
    have "slot_address node (of_nat i) = node + of_nat (2 + 72 * i)" by (simp add: slot_address_def kernel_consts mult.commute)
    moreover have "unat (of_nat (2 + 72 * i) :: addr) = 2 + 72 * i" using fit blk(2) by (intro unat_of_nat_32) linarith
    ultimately have "unat (slot_address node (of_nat i)) = unat node + 2 + 72 * i"
      using fit blk(2) unat_plus_no_wrap [of node "of_nat (2 + 72 * i)"] by (simp del: of_nat_add of_nat_mult)
    moreover have "cap_handlers (caps s' (slot_address node (of_nat i))) = No_handlers"
      using that(4) by (auto simp: s' clear_slots_caps sl u2)
    ultimately show ?thesis using fit by blast
  qed
  ultimately show ?thesis using ns al n by blast
qed

theorem alloc_node_slots_fit_witness:
  "\<exists>s' node. alloc_node 3 (demo_kernel 1000) = Some (s', node) \<and> node \<noteq> NULL
    \<and> (\<forall>i < 8. cap_handlers (caps s' (slot_address node (of_nat i))) = No_handlers \<and> 2 + 72 * i + 72 \<le> unat (heap_sizeof node s'))"
proof -
  have n: "26 \<le> (1000 :: size_t)" "unat (1000 :: size_t) < 2 ^ 31" by simp_all
  note w = demo_kernel_wf [OF n]
  have sz: "unat (578 :: size_t) + 29 < 2 ^ 32" by simp
  have pin: "\<And>k. k \<in> set [4096] \<Longrightarrow> pinned (demo_kernel 1000) k" using w(2) by blast
  have "unat (alloc_size 578) \<le> bytes (demo_kernel 1000) [4096]" using w(4) by (simp add: alloc_size_def heap_consts)
  then have "\<exists>r. find_run (demo_kernel 1000) (unat (alloc_size 578)) [] [4096] = Some r"
    using w(3) find_run_complete [of "demo_kernel 1000" "unat (alloc_size 578)" "[]" "[4096]" "[]" "[4096]" "[]"]
    by (cases "find_run (demo_kernel 1000) (unat (alloc_size 578)) [] [4096]") (auto simp: alloc_size_def heap_consts)
  then obtain r where r: "find_run (demo_kernel 1000) (unat (alloc_size 578)) [] [4096] = Some r" by blast
  obtain s1 ys zs where al: "heap_alloc kernel_hooks (demo_kernel 1000) 578 = Some (s1, hd_or NULL r + sizeof_heap_header)"
    and wf: "heap_wf s1 (ys @ [hd_or NULL r] @ (if unat (alloc_size 578) + 26 < bytes (demo_kernel 1000) r then [hd_or NULL r + alloc_size 578] else []) @ zs)"
    using heap_alloc_some [OF w(1) pin sz r, of kernel_hooks] by metis
  have nz: "hd_or NULL r + sizeof_heap_header \<noteq> NULL"
    using block_pointer(1) [OF wf, of "hd_or NULL r" 0] heap_wf_bsize [OF wf, of "hd_or NULL r"] by simp
  have "node_alloc_size (shl 1 3) = 578" by (simp add: node_alloc_size_def shl_def kernel_consts)
  with al nz obtain s' where a: "alloc_node 3 (demo_kernel 1000) = Some (s', hd_or NULL r + sizeof_heap_header)"
    by (simp add: alloc_node_def)
  from alloc_node_slots_fit [OF a nz, of 3 "[4096]"] w(1,2) a nz show ?thesis by auto
qed

section \<open>Deleting\<close>

lemma delete_alone: "nc_prev (m c) = NULL \<Longrightarrow> nc_next (m c) = NULL \<Longrightarrow> LIST_DELETE_NO_CONTAINER m c = Some m"
  by (simp add: LIST_DELETE_NO_CONTAINER_def)

lemma upd_cap_simps [simp]:
  "caps (upd_cap c f s) = (caps s)(c := f (caps s c))" "res_links (upd_cap c f s) = res_links s"
  "der_links (upd_cap c f s) = der_links s" "hdrs (upd_cap c f s) = hdrs s" "hp (upd_cap c f s) = hp s"
  "nodes (upd_cap c f s) = nodes s"
  by (simp_all add: upd_cap_def)

lemma clear_handlers_simps [simp]:
  "caps (clear_handlers c s) = (caps s)(c := (caps s c)\<lparr>cap_handlers := No_handlers\<rparr>)"
  "res_links (clear_handlers c s) = res_links s" "der_links (clear_handlers c s) = der_links s"
  "hdrs (clear_handlers c s) = hdrs s" "hp (clear_handlers c s) = hp s"
  by (simp_all add: clear_handlers_def)

lemma set_update_simps [simp]:
  "caps (heap_set_update_capability p a s) = caps s" "res_links (heap_set_update_capability p a s) = res_links s"
  "der_links (heap_set_update_capability p a s) = der_links s" "hp (heap_set_update_capability p a s) = hp s"
  by (simp_all add: heap_set_update_capability_def upd_hdr_def)

text \<open>
  Deleting the last capability of a thread that never got a root node does not return: its
  destructor deletes the empty root capability, which calls the destructor of a NULL table.
\<close>

lemma delete_thread_without_root:
  assumes "cap_handlers (caps s c) = Thread_handlers" and "cap_resource (caps s c) = t" and "t \<noteq> c"
    and "nc_prev (res_links s c) = NULL" and "nc_next (res_links s c) = NULL"
    and "cap_handlers (caps s t) = No_handlers"
    and "nc_prev (res_links s t) = NULL" and "nc_next (res_links s t) = NULL"
  shows "delete_capability c s = None"
proof -
  have "delete_capability t s = None"
    using assms(6-8) by (subst delete_capability.simps) (simp add: delete_alone)
  then show ?thesis
    using assms(1-5) by (subst delete_capability.simps) (simp add: delete_alone)
qed

text \<open>
  C32: deleting a capability that is not the last one for its resource frees nothing. The others
  keep sharing the resource in the same order, the slot is empty, and when the deleted capability
  owned the resource, the next one becomes the owner.
\<close>

theorem delete_capability_shared:
  assumes "nc_rep (res_links s) (ys @ c # zs)" and "ys @ zs \<noteq> []"
  shows "\<exists>s'. delete_capability c s = Some s' \<and> nc_rep (res_links s') (ys @ zs)
    \<and> caps s' = (caps s)(c := (caps s c)\<lparr>cap_handlers := No_handlers\<rparr>) \<and> hp s' = hp s
    \<and> hdrs s' = (if ys = [] then hdrs (heap_set_update_capability (cap_resource (caps s c)) (cap_address (caps s (hd zs))) s)
                 else hdrs s)"
proof -
  from LIST_DELETE_NO_CONTAINER_rep [OF assms(1)] obtain rl where
    rl: "LIST_DELETE_NO_CONTAINER (res_links s) c = Some rl" "nc_rep rl (ys @ zs)" by blast
  have links: "nc_prev (res_links s c) = last_or NULL ys" "nc_next (res_links s c) = hd_or NULL zs"
    using assms(1) by (auto simp: nc_rep_def)
  have nn: "NULL \<notin> set (ys @ c # zs)" using nc_rep_nonnull [OF assms(1)] .
  have y0: "last_or NULL ys = NULL \<longleftrightarrow> ys = []" using nn last_or_in_set [of ys NULL] by (cases "ys = []") auto
  have z0: "hd_or NULL zs = NULL \<longleftrightarrow> zs = []" using nn hd_or_in_set [of zs NULL] by (cases "zs = []") auto
  show ?thesis
  proof (cases "ys = []")
    case True
    then have z: "zs \<noteq> []" "hd_or NULL zs = hd zs" using assms(2) by (auto simp: hd_or_def split: list.splits)
    show ?thesis using True z links y0 z0 rl
      by (subst delete_capability.simps) (simp add: Let_def)
  next
    case False
    then show ?thesis using links y0 z0 rl
      by (subst delete_capability.simps) (simp add: Let_def)
  qed
qed

theorem delete_capability_shared_witness:
  "\<exists>s'. delete_capability 256 (zero_kstate\<lparr>res_links :=
      LIST_INSERT_NO_CONTAINER (LIST_INIT_NO_CONTAINER (\<lambda>_. zero_nc_link) 256) 256 64\<rparr>) = Some s'
    \<and> nc_rep (res_links s') [64]"
proof -
  let ?s = "zero_kstate\<lparr>res_links := LIST_INSERT_NO_CONTAINER (LIST_INIT_NO_CONTAINER (\<lambda>_. zero_nc_link) 256) 256 64\<rparr>"
  have "nc_rep (res_links ?s) ([] @ 256 # [64])"
    using LIST_INSERT_NO_CONTAINER_single [OF LIST_INIT_NO_CONTAINER_rep [of 256 "\<lambda>_. zero_nc_link"], of 64] by simp
  from delete_capability_shared [OF this] show ?thesis by auto
qed

text \<open>
  Deleting the last capability of untyped memory frees the memory, and nothing else happens.
\<close>

lemma delete_capability_last_untyped:
  assumes "nc_prev (res_links s c) = NULL" and "nc_next (res_links s c) = NULL"
    and "cap_handlers (caps s c) = Untyped_handlers" and "cap_resource (caps s c) \<noteq> NULL"
  shows "delete_capability c s = Some (clear_handlers c (heap_free (cap_resource (caps s c)) s))"
  using assms by (subst delete_capability.simps) (simp add: delete_alone)

section \<open>Moving\<close>

text \<open>
  A capability is in a list, or its links were never set up (the derivation list of an original
  capability).
\<close>

definition in_list :: "nc_links \<Rightarrow> addr list \<Rightarrow> addr \<Rightarrow> addr list \<Rightarrow> bool" where
  "in_list m ys c zs \<longleftrightarrow>
     nc_rep m (ys @ c # zs) \<or> (ys = [] \<and> zs = [] \<and> nc_prev (m c) = NULL \<and> nc_next (m c) = NULL)"

lemma LIST_UPDATE_ADDRESS_moved:
  assumes "in_list m ys old zs" and new: "new \<noteq> NULL" "new \<notin> set (ys @ old # zs)"
  shows "\<exists>m'. LIST_UPDATE_ADDRESS_NO_CONTAINER (m(new := m old)) new = Some m' \<and>
    nc_rep m' (ys @ new # zs) \<and> (\<forall>a. a \<notin> set (ys @ new # zs) \<longrightarrow> m' a = m a)"
proof (cases "nc_rep m (ys @ old # zs)")
  case True
  then show ?thesis by (rule LIST_UPDATE_ADDRESS_NO_CONTAINER_rep [OF _ new])
next
  case False
  with assms(1) have al: "ys = []" "zs = []" "nc_prev (m old) = NULL" "nc_next (m old) = NULL"
    by (auto simp: in_list_def)
  have "set_start_forward (m(new := m old)) new new = Some (m(new := (m old)\<lparr>nc_start := new\<rparr>))"
    using al new by (simp add: set_start_forward.simps)
  moreover have "set_end_backward (m(new := (m old)\<lparr>nc_start := new\<rparr>)) new new =
      Some (m(new := (m old)\<lparr>nc_start := new, nc_end := new\<rparr>))"
    using al new by (simp add: set_end_backward.simps)
  ultimately have "LIST_UPDATE_ADDRESS_NO_CONTAINER (m(new := m old)) new =
      Some (m(new := (m old)\<lparr>nc_start := new, nc_end := new\<rparr>))"
    using al by (simp add: LIST_UPDATE_ADDRESS_NO_CONTAINER_def relink_neighbours_def)
  then show ?thesis using al new by (auto simp: nc_rep_def)
qed

lemma for_each_upd_cap:
  "distinct xs \<Longrightarrow> for_each (\<lambda>v s. Some (upd_cap v f s)) xs s =
     Some (s\<lparr>caps := (\<lambda>a. if a \<in> set xs then f (caps s a) else caps s a)\<rparr>)"
proof (induction xs arbitrary: s)
  case (Cons x xs)
  have "(\<lambda>a. if a \<in> set xs then f (caps (upd_cap x f s) a) else caps (upd_cap x f s) a) =
      (\<lambda>a. if a \<in> set (x # xs) then f (caps s a) else caps s a)"
    using Cons.prems by (auto simp: fun_eq_iff)
  moreover have "(upd_cap x f s)\<lparr>caps := g\<rparr> = s\<lparr>caps := g\<rparr>" for g by (simp add: upd_cap_def)
  ultimately show ?case using Cons by simp
qed simp

lemma for_derived_upd_cap:
  assumes rep: "nc_rep (der_links s) cs" and c: "c \<in> set cs"
  shows "for_derived (\<lambda>v s. Some (upd_cap v f s)) c s =
     Some (s\<lparr>caps := (\<lambda>a. if a \<in> set cs then f (caps s a) else caps s a)\<rparr>)"
proof -
  have seg: "dseg (\<lambda>a. nc_prev (der_links s a)) (\<lambda>a. nc_next (der_links s a)) NULL cs NULL"
    and st: "nc_start (der_links s c) = hd_or NULL cs" and dis: "distinct cs"
    using rep c by (auto simp: nc_rep_def)
  have "iter_links next_derived (\<lambda>v s. Some (upd_cap v f s)) (hd_or NULL cs) s = for_each (\<lambda>v s. Some (upd_cap v f s)) cs s"
    by (rule iter_links_for_each [OF seg, where P = "\<lambda>t. der_links t = der_links s"]) auto
  with for_each_upd_cap [OF dis] show ?thesis by (simp add: for_derived_def st)
qed

text \<open>The capabilities derived from a capability that moves are derived from its new slot.\<close>

lemma derived_from_moved:
  assumes cs: "if cap_flags (caps s from) AND (CAP_FLAG_ORIGINAL OR CAP_FLAG_BADGED) \<noteq> 0 \<and> cap_derivation (caps s from) \<noteq> NULL
         then nc_rep (der_links s) cs \<and> cap_derivation (caps s from) \<in> set cs \<and> set cs \<inter> set (to # us @ from # vs) = {}
         else cs = []"
    and dl: "\<forall>a. a \<notin> set (us @ to # vs) \<longrightarrow> der_links t a = der_links s a" and t: "caps t = (caps s)(to := caps s from)"
  shows "(if cap_flags (caps t to) AND (CAP_FLAG_ORIGINAL OR CAP_FLAG_BADGED) \<noteq> 0 \<and> cap_derivation (caps t to) \<noteq> NULL
      then for_derived (\<lambda>v s. Some (upd_cap v (\<lambda>x. x\<lparr>cap_derived_from := to\<rparr>) s)) (cap_derivation (caps t to)) t else Some t) =
    Some (t\<lparr>caps := (\<lambda>a. if a \<in> set cs then (caps t a)\<lparr>cap_derived_from := to\<rparr> else caps t a)\<rparr>)"
proof (cases "cap_flags (caps s from) AND (CAP_FLAG_ORIGINAL OR CAP_FLAG_BADGED) \<noteq> 0 \<and> cap_derivation (caps s from) \<noteq> NULL")
  case True
  with cs have c: "nc_rep (der_links s) cs" "cap_derivation (caps s from) \<in> set cs" "set cs \<inter> set (to # us @ from # vs) = {}" by auto
  have "nc_rep (der_links t) cs" by (rule nc_rep_frame [OF c(1)]) (use c(3) dl in auto)
  from for_derived_upd_cap [OF this c(2)] True show ?thesis by (simp add: t)
next
  case False
  with cs have "cs = []" by auto
  then have "t\<lparr>caps := (\<lambda>a. if a \<in> set cs then (caps t a)\<lparr>cap_derived_from := to\<rparr> else caps t a)\<rparr> = t" by simp
  with False show ?thesis by (auto simp: t)
qed

text \<open>
  C16: moving a capability puts the destination in the place of the source in the resource list and
  in the derivation list, empties the source, and keeps the capability's type and resource; every capability
  derived from it is then derived from the destination, and the capability it was first derived
  from points to the destination.
\<close>

theorem move_capability_relinks:
  assumes "in_list (res_links s) ys from zs" and "in_list (der_links s) us from vs"
    and "to \<noteq> NULL" and "to \<notin> set (ys @ from # zs)" and "to \<notin> set (us @ from # vs)"
    and "if cap_flags (caps s from) AND (CAP_FLAG_ORIGINAL OR CAP_FLAG_BADGED) \<noteq> 0 \<and> cap_derivation (caps s from) \<noteq> NULL
         then nc_rep (der_links s) cs \<and> cap_derivation (caps s from) \<in> set cs \<and> set cs \<inter> set (to # us @ from # vs) = {}
         else cs = []"
  shows "\<exists>s'. move_capability from to s = Some s'
    \<and> nc_rep (res_links s') (ys @ to # zs) \<and> nc_rep (der_links s') (us @ to # vs)
    \<and> cap_handlers (caps s' from) = No_handlers
    \<and> cap_handlers (caps s' to) = cap_handlers (caps s from) \<and> cap_resource (caps s' to) = cap_resource (caps s from)
    \<and> (\<forall>c \<in> set cs. cap_derived_from (caps s' c) = to)
    \<and> (us = [] \<and> cap_derived_from (caps s from) \<noteq> NULL \<longrightarrow>
         cap_derivation (caps s' (cap_derived_from (caps s from))) = to)"
proof -
  have ft: "from \<noteq> to" using assms(4) by auto
  from LIST_UPDATE_ADDRESS_moved [OF assms(1,3,4)] obtain rl where
    rl: "LIST_UPDATE_ADDRESS_NO_CONTAINER ((res_links s)(to := res_links s from)) to = Some rl" "nc_rep rl (ys @ to # zs)" by blast
  from LIST_UPDATE_ADDRESS_moved [OF assms(2,3,5)] obtain dl where
    dl: "LIST_UPDATE_ADDRESS_NO_CONTAINER ((der_links s)(to := der_links s from)) to = Some dl" "nc_rep dl (us @ to # vs)"
    "\<forall>a. a \<notin> set (us @ to # vs) \<longrightarrow> dl a = der_links s a" by blast
  let ?f = "\<lambda>x. x\<lparr>cap_derived_from := to\<rparr>"
  define s2 where "s2 = (copy_slot to from s)\<lparr>res_links := rl, der_links := dl\<rparr>"
  define s3 where "s3 = s2\<lparr>caps := (\<lambda>a. if a \<in> set cs then ?f (caps s2 a) else caps s2 a)\<rparr>"
  have c2: "caps s2 = (caps s)(to := caps s from)" "der_links s2 = dl" "res_links s2 = rl"
    by (simp_all add: s2_def copy_slot_def)
  have "\<forall>a. a \<notin> set (us @ to # vs) \<longrightarrow> der_links s2 a = der_links s a" using dl(3) by (simp add: c2)
  note upd = derived_from_moved [OF assms(6) this c2(1), folded s3_def]
  have tcs: "to \<notin> set cs" using assms(6) by (auto split: if_splits)
  define d where "d = cap_derived_from (caps s from)"
  have c3: "caps s3 to = caps s from" using tcs by (simp add: s3_def c2)
  have pv: "nc_prev (dl to) = last_or NULL us" using dl(2) by (simp add: nc_rep_def)
  have pv0: "last_or NULL us = NULL \<longleftrightarrow> us = []"
    using nc_rep_nonnull [OF dl(2)] last_or_in_set [of us NULL] by (cases "us = []") auto
  define s4 where "s4 = (if us = [] \<and> d \<noteq> NULL then upd_cap d (\<lambda>x. x\<lparr>cap_derivation := to\<rparr>) s3 else s3)"
  have rl': "LIST_UPDATE_ADDRESS_NO_CONTAINER (res_links (copy_slot to from s)) to = Some rl"
    and dl': "LIST_UPDATE_ADDRESS_NO_CONTAINER (der_links ((copy_slot to from s)\<lparr>res_links := rl\<rparr>)) to = Some dl"
    using rl(1) dl(1) by (simp_all add: copy_slot_def)
  have d3: "der_links s3 = dl" by (simp add: s3_def c2)
  have "update_capability_references to (copy_slot to from s) = Some s4"
    unfolding update_capability_references_def Let_def rl' Option.bind_lunit dl' s2_def [symmetric] upd
    using c3 pv pv0 d3 by (simp add: s4_def d_def)
  then have mv: "move_capability from to s = Some (clear_handlers from s4)" by (simp add: move_capability_def)
  have l4: "res_links s4 = rl" "der_links s4 = dl" by (simp_all add: s4_def s3_def c2)
  have c4: "cap_handlers (caps s4 a) = cap_handlers (caps s3 a)" "cap_resource (caps s4 a) = cap_resource (caps s3 a)"
    "cap_derived_from (caps s4 a) = cap_derived_from (caps s3 a)" for a by (simp_all add: s4_def)
  have "cap_derived_from (caps s3 c) = to" if "c \<in> set cs" for c using that by (simp add: s3_def)
  moreover have "us = [] \<and> d \<noteq> NULL \<longrightarrow> cap_derivation (caps s4 d) = to" by (simp add: s4_def)
  ultimately show ?thesis using rl(2) dl(2) l4 c3 ft
    by (auto simp: mv c4 d_def [symmetric])
qed

theorem move_capability_relinks_witness:
  "\<exists>s'. move_capability 256 128 (zero_kstate\<lparr>caps := (\<lambda>_. zero_capability)(256 := zero_capability\<lparr>
        cap_handlers := Untyped_handlers, cap_flags := CAP_FLAG_ORIGINAL, cap_derivation := 64\<rparr>),
      res_links := LIST_INIT_NO_CONTAINER (\<lambda>_. zero_nc_link) 256,
      der_links := LIST_INIT_NO_CONTAINER (\<lambda>_. zero_nc_link) 64\<rparr>) = Some s'
    \<and> nc_rep (res_links s') [128] \<and> cap_handlers (caps s' 256) = No_handlers
    \<and> cap_handlers (caps s' 128) = Untyped_handlers \<and> cap_derived_from (caps s' 64) = 128"
proof -
  let ?s = "zero_kstate\<lparr>caps := (\<lambda>_. zero_capability)(256 := zero_capability\<lparr>
        cap_handlers := Untyped_handlers, cap_flags := CAP_FLAG_ORIGINAL, cap_derivation := 64\<rparr>),
      res_links := LIST_INIT_NO_CONTAINER (\<lambda>_. zero_nc_link) 256,
      der_links := LIST_INIT_NO_CONTAINER (\<lambda>_. zero_nc_link) 64\<rparr>"
  have r: "in_list (res_links ?s) [] 256 []" "in_list (der_links ?s) [] 256 []"
    using LIST_INIT_NO_CONTAINER_rep [of 256 "\<lambda>_. zero_nc_link"]
    by (simp_all add: in_list_def LIST_INIT_NO_CONTAINER_def zero_nc_link_def)
  have "nc_rep (der_links ?s) [64]" using LIST_INIT_NO_CONTAINER_rep [of 64 "\<lambda>_. zero_nc_link"] by simp
  with move_capability_relinks [OF r, of 128 "[64]"] show ?thesis
    by (auto simp: kernel_consts)
qed

section \<open>Copying\<close>

lemma copy_capability_dest:
  assumes "source \<noteq> dest"
  shows "caps (copy_capability source dest address depth s) dest = (caps s source)\<lparr>
      cap_flags := cap_flags (caps s source) AND NOT (CAP_FLAG_ORIGINAL OR CAP_FLAG_BADGED),
      cap_address := (cap_address (caps s source))\<lparr>aca_address := address, aca_depth := depth\<rparr>,
      cap_derived_from := (if cap_flags (caps s source) AND (CAP_FLAG_ORIGINAL OR CAP_FLAG_BADGED) \<noteq> 0
                           then source else cap_derived_from (caps s source)),
      cap_derivation := NULL\<rparr>"
  using assms by (auto simp: copy_capability_def add_derivation_def copy_slot_def Let_def upd_cap_def)

lemma unlock_looked_up_caps [simp]: "caps (unlock_looked_up_capability r s) = caps s"
  by (simp add: unlock_looked_up_capability_def)

text \<open>
  A successful \<open>node_copy\<close> gives the copy all access rights of the source, whatever rights the caller
  asked for. The copy is never original; it is badged exactly when a badge was asked for, and then
  it has that badge; otherwise it has the source's badge.
\<close>

lemma node_copy_rights_and_badge:
  assumes "look_up_capability_relative (source_address (copy_args s argument)) (source_depth (copy_args s argument)) s
      = Some (s1, Some r)"
    and "dest = slot_address (cap_resource (caps s slot)) (dest_slot (copy_args s argument))"
    and "dest_slot (copy_args s argument) < num_slots (nodes s (cap_resource (caps s slot)))"
    and "cap_handlers (caps s dest) = No_handlers" and "lr_slot r \<noteq> dest"
    and "cap_handlers (caps s (lr_slot r)) \<noteq> Node_handlers"
    and "should_set_badge (copy_args s argument) \<noteq> 0 \<Longrightarrow> cap_flags (caps s (lr_slot r)) AND CAP_FLAG_ORIGINAL \<noteq> 0"
  shows "\<exists>s'. node_copy address depth slot argument s = Some (s', 0)
    \<and> cap_access_rights (caps s' dest) = cap_access_rights (caps s (lr_slot r))
    \<and> cap_handlers (caps s' dest) = cap_handlers (caps s (lr_slot r))
    \<and> cap_resource (caps s' dest) = cap_resource (caps s (lr_slot r))
    \<and> cap_flags (caps s' dest) AND CAP_FLAG_ORIGINAL = 0
    \<and> (if should_set_badge (copy_args s argument) \<noteq> 0
       then cap_badge (caps s' dest) = args_badge (copy_args s argument) \<and> cap_flags (caps s' dest) AND CAP_FLAG_BADGED \<noteq> 0
       else cap_badge (caps s' dest) = cap_badge (caps s (lr_slot r)) \<and> cap_flags (caps s' dest) AND CAP_FLAG_BADGED = 0)"
proof -
  have c1: "caps s1 = caps s"
    using look_up_capability_relative_leaves [OF assms(1)] by (auto simp: lookup_leaves_def)
  have fl: "(w AND (NOT CAP_FLAG_ORIGINAL AND NOT CAP_FLAG_BADGED)) AND CAP_FLAG_ORIGINAL = 0"
    "(w AND (NOT CAP_FLAG_ORIGINAL AND NOT CAP_FLAG_BADGED)) AND CAP_FLAG_BADGED = 0"
    "((w AND (NOT CAP_FLAG_ORIGINAL AND NOT CAP_FLAG_BADGED)) OR CAP_FLAG_BADGED) AND CAP_FLAG_ORIGINAL = 0"
    "CAP_FLAG_BADGED \<noteq> 0" for w
    by (simp_all add: kernel_consts and.assoc bit.conj_disj_distrib2)
  show ?thesis
    using assms(3-7) unfolding node_copy_def Let_def assms(2) [symmetric] assms(1)
    by (auto simp: c1 fl copy_capability_dest not_le split: if_splits)
qed

lemma node_copy_rights_and_badge_example:
  "\<exists>s'. node_copy 1 2 1098 0 demo_cspace = Some (s', 0)
    \<and> cap_access_rights (caps s' (slot_address 2048 2)) = 0 \<and> cap_badge (caps s' (slot_address 2048 2)) = 0"
proof -
  obtain s1 r where l: "look_up_capability_relative 21 5 demo_cspace = Some (s1, Some r)" "lr_slot r = slot_address 2048 5"
    using demo_cspace_look_up by blast
  have d: "slot_address 2048 5 = 2410" "slot_address 2048 2 = 2194" "caps demo_cspace 2410 = zero_capability"
    "caps demo_cspace 2194 = zero_capability" "cap_resource (caps demo_cspace 1098) = 2048"
    "num_slots (nodes demo_cspace 2048) = 8" "copy_args demo_cspace 0 = \<lparr>source_address = 21, source_depth = 5, dest_slot = 2,
       args_access_rights = 1, args_badge = 7, should_set_badge = 0\<rparr>"
    by (simp_all add: slot_address_def kernel_consts demo_cspace_def num_slots_def bits_of_node_def shl_def)
  from node_copy_rights_and_badge [of demo_cspace 0 s1 r 2194 1098 1 2] l show ?thesis
    by (auto simp: d zero_capability_def)
qed

end
