(* ===== verification/Cap_Merge.thy ===== *)
theory Cap_Merge
  imports Cap_Properties
begin

unbundle bit_operations_syntax

text \<open>
  What happens to the derivation lists of \<open>core/kernel/capabilities.c\<close> when a capability from which
  others were derived is deleted.
\<close>

section \<open>Merging derivation lists\<close>

text \<open>A loop that never leaves a set of items without \<open>NULL\<close> does not end.\<close>

lemma iter_links_stuck:
  assumes "v \<in> A" and "P s" and "NULL \<notin> A"
    and "\<And>v s. v \<in> A \<Longrightarrow> P s \<Longrightarrow> \<exists>s'. body v s = Some s' \<and> P s' \<and> nx s' v \<in> A"
  shows "iter_links nx body v s = None"
proof (rule ccontr)
  assume "iter_links nx body v s \<noteq> None"
  then obtain t where t: "iter_links nx body v s = Some t" by blast
  have "nx = nx \<longrightarrow> body = body \<longrightarrow> v \<in> A \<longrightarrow> P s \<longrightarrow> False"
  proof (rule iter_links.raw_induct [OF _ t, where P = "\<lambda>nx' body' v s t. nx' = nx \<longrightarrow> body' = body \<longrightarrow> v \<in> A \<longrightarrow> P s \<longrightarrow> False"], intro impI)
    fix iter nx' body' v s t
    assume ih: "\<And>nx' body' v s t. iter nx' body' v s = Some t \<Longrightarrow> nx' = nx \<longrightarrow> body' = body \<longrightarrow> v \<in> A \<longrightarrow> P s \<longrightarrow> False"
      and run: "(if v = NULL then Some s else do { s' \<leftarrow> body' v s; iter nx' body' (nx' s' v) s' }) = Some t"
      and eq: "nx' = nx" "body' = body" and v: "v \<in> A" "P s"
    from assms(4) [OF v] obtain s' where s': "body v s = Some s'" "P s'" "nx s' v \<in> A" by blast
    moreover have "v \<noteq> NULL" using v(1) assms(3) by auto
    ultimately have "iter nx body (nx s' v) s' = Some t" using run eq by simp
    with ih s' show False by blast
  qed
  with assms(1,2) show False by simp
qed

lemma next_in_list:
  assumes "nc_rep m xs" and "a \<in> set xs" and "a \<noteq> last xs"
  shows "nc_next (m a) \<in> set xs"
proof -
  obtain ys zs where xs: "xs = ys @ a # zs" using assms(2) by (auto dest: split_list)
  with assms(3) obtain z zs' where z: "zs = z # zs'" by (cases zs) auto
  then show ?thesis using assms(1) xs by (auto simp: nc_rep_def)
qed

lemma upd_der_fields:
  "nc_start (der_links (upd_der a (\<lambda>x. x\<lparr>nc_next := v\<rparr>) s) b) = nc_start (der_links s b)"
  "nc_end (der_links (upd_der a (\<lambda>x. x\<lparr>nc_next := v\<rparr>) s) b) = nc_end (der_links s b)"
  "nc_next (der_links (upd_der a (\<lambda>x. x\<lparr>nc_next := v\<rparr>) s) b) = (if b = a then v else nc_next (der_links s b))"
  "nc_start (der_links (upd_der a (\<lambda>x. x\<lparr>nc_prev := v\<rparr>) s) b) = nc_start (der_links s b)"
  "nc_end (der_links (upd_der a (\<lambda>x. x\<lparr>nc_prev := v\<rparr>) s) b) = nc_end (der_links s b)"
  "nc_next (der_links (upd_der a (\<lambda>x. x\<lparr>nc_prev := v\<rparr>) s) b) = nc_next (der_links s b)"
  "caps (upd_der a f s) = caps s"
  by (simp_all add: upd_der_def)

lemma splice_derivation_stuck:
  assumes "nc_rep (der_links s) xs" and "cap_derivation (caps s c) \<in> set xs"
  shows "splice_derivation c s = None"
proof -
  have ne: "xs \<noteq> []" using assms(2) by auto
  then have hl: "hd xs \<in> set xs" "last xs \<in> set xs" "hd_or NULL xs = hd xs" "last_or NULL xs = last xs"
    by (simp_all add: hd_or_def last_or_def list.case_eq_if)
  define d where "d = cap_derivation (caps s c)"
  have d: "nc_start (der_links s d) = hd xs" "nc_end (der_links s d) = last xs"
    using assms hl by (auto simp: nc_rep_def d_def)
  define prev where "prev = nc_prev (der_links s (nc_end (der_links s c)))"
  define s1 where "s1 = upd_der prev (\<lambda>x. x\<lparr>nc_next := hd xs\<rparr>) s"
  define s2 where "s2 = upd_der (hd xs) (\<lambda>x. x\<lparr>nc_prev := prev\<rparr>) s1"
  define s3 where "s3 = upd_der (nc_end (der_links s2 c)) (\<lambda>x. x\<lparr>nc_prev := last xs\<rparr>) s2"
  define s4 where "s4 = upd_der (last xs) (\<lambda>x. x\<lparr>nc_next := last xs\<rparr>) s3"
  have k: "nc_start (der_links s1 d) = hd xs" "nc_end (der_links s2 d) = last xs" "nc_end (der_links s3 d) = last xs"
    "nc_start (der_links s4 d) = hd xs" "cap_derivation (caps s4 c) = d"
    using d by (simp_all add: s1_def s2_def s3_def s4_def upd_der_fields d_def)
  have n: "nc_next (der_links s4 a) \<in> set xs" if "a \<in> set xs" for a
    using next_in_list [OF assms(1) that] hl by (simp add: s1_def s2_def s3_def s4_def upd_der_fields)
  let ?body = "\<lambda>v s. Some (upd_der v (\<lambda>x. x\<lparr>nc_start := nc_start (der_links s c), nc_end := nc_end (der_links s c)\<rparr>) s)"
  have "iter_links next_derived ?body (hd xs) s4 = None"
    by (rule iter_links_stuck [where A = "set xs" and P = "\<lambda>t. \<forall>a \<in> set xs. nc_next (der_links t a) \<in> set xs"])
      (use n hl nc_rep_nonnull [OF assms(1)] in \<open>auto simp: upd_der_def\<close>)
  moreover have "splice_derivation c s = for_derived ?body d s4"
    using d k by (simp add: splice_derivation_def Let_def d_def [symmetric] prev_def [symmetric] s1_def [symmetric]
        s2_def [symmetric] s3_def [symmetric] s4_def [symmetric])
  ultimately show ?thesis using k(4) by (simp add: for_derived_def)
qed

text \<open>
  C38: merging the derivation lists, which \<open>node_delete\<close> and the destructor of a node do before they delete
  a capability, never returns for a badged capability from which others were derived and which is not
  the only one of its own derivation list: the last derived capability is linked to itself, and the
  loop over the derived capabilities that follows does not end.
\<close>

theorem merge_derivation_lists_hangs:
  assumes "cap_flags (caps s c) AND CAP_FLAG_BADGED \<noteq> 0" and "cap_derived_from (caps s c) \<noteq> NULL"
    and "nc_rep (der_links s) xs" and "cap_derivation (caps s c) \<in> set xs"
    and "nc_start (der_links s c) \<noteq> nc_end (der_links s c)"
  shows "merge_derivation_lists c s = None"
proof -
  have nn: "cap_derivation (caps s c) \<noteq> NULL" using assms(3,4) nc_rep_nonnull by metis
  let ?body = "\<lambda>v s. Some (upd_cap v (\<lambda>x. x\<lparr>cap_derived_from := cap_derived_from (caps s c)\<rparr>) s)"
  have "splice_derivation c t = None \<and> nc_start (der_links t c) \<noteq> nc_end (der_links t c)"
    if "for_derived ?body (cap_derivation (caps s c)) s = Some t" for t
  proof -
    have "der_links t = der_links s \<and> cap_derivation (caps t c) = cap_derivation (caps s c)"
      by (rule iter_links_keeps [OF that [unfolded for_derived_def],
            where Q = "\<lambda>t. der_links t = der_links s \<and> cap_derivation (caps t c) = cap_derivation (caps s c)"])
        (auto simp: upd_cap_def)
    with assms(3-5) splice_derivation_stuck [of t xs c] show ?thesis by simp
  qed
  with assms(1,2) nn show ?thesis
    by (cases "for_derived ?body (cap_derivation (caps s c)) s") (simp_all add: merge_derivation_lists_def)
qed

text \<open>A badged capability at 256, with a sibling at 512 and one derived capability at 1024.\<close>

definition demo_derived :: kstate where
  "demo_derived = zero_kstate\<lparr>
     caps := (\<lambda>_. zero_capability)(256 := zero_capability\<lparr>cap_flags := CAP_FLAG_BADGED, cap_derived_from := 64, cap_derivation := 1024\<rparr>),
     der_links := (\<lambda>_. zero_nc_link)(256 := zero_nc_link\<lparr>nc_start := 256, nc_end := 512, nc_next := 512\<rparr>,
       512 := zero_nc_link\<lparr>nc_start := 256, nc_end := 512, nc_prev := 256\<rparr>, 1024 := zero_nc_link\<lparr>nc_start := 1024, nc_end := 1024\<rparr>)\<rparr>"

theorem merge_derivation_lists_hangs_witness: "merge_derivation_lists 256 demo_derived = None"
  by (rule merge_derivation_lists_hangs [where xs = "[1024]"])
    (simp_all add: demo_derived_def CAP_FLAG_BADGED_def nc_rep_def zero_nc_link_def)

end
