(* ===== verification/Ipc_Transfer.thy ===== *)
theory Ipc_Transfer
  imports Ipc
begin

unbundle bit_operations_syntax

text \<open>
  What the transfer of the capabilities of a message leaves alone. \<open>transfer_capabilities\<close> of
  \<open>core/kernel/ipc.c\<close> looks capabilities up, moves or copies them and records their new addresses;
  it changes capabilities, nodes, the lists they are in and the headers of the heap, but no thread, no endpoint,
  no queue and nothing of a message but the set of transferred capabilities.
\<close>

section \<open>States that differ only in the capability space\<close>

definition space_frame :: "kstate \<Rightarrow> kstate \<Rightarrow> bool" where
  "space_frame s s' \<longleftrightarrow> threads s' = threads s \<and> endpoints s' = endpoints s \<and> blocked_queue s' = blocked_queue s
     \<and> runqueue_entry s' = runqueue_entry s \<and> priority_queues s' = priority_queues s
     \<and> current_thread s' = current_thread s \<and> messages s' = messages s
     \<and> pending_context_switch s' = pending_context_switch s"

lemma space_frame_refl [simp]: "space_frame s s"
  by (simp add: space_frame_def)

lemma space_frame_trans: "space_frame s t \<Longrightarrow> space_frame t u \<Longrightarrow> space_frame s u"
  by (simp add: space_frame_def)

lemma space_frame_upd [simp]:
  "space_frame s (upd_cap c f t) = space_frame s t" "space_frame s (upd_node n g t) = space_frame s t"
  "space_frame s (upd_hdr a h t) = space_frame s t" "space_frame s (t\<lparr>res_links := rl\<rparr>) = space_frame s t"
  "space_frame s (t\<lparr>der_links := dl\<rparr>) = space_frame s t" "space_frame s (t\<lparr>caps := cs\<rparr>) = space_frame s t"
  by (simp_all add: space_frame_def upd_cap_def upd_node_def upd_hdr_def)

lemma space_frame_locks [simp]:
  "space_frame s (fst (heap_lock p t)) = space_frame s t" "space_frame s (heap_unlock p t) = space_frame s t"
  "space_frame s (unlock_if b p t) = space_frame s t" "space_frame s (unlock_looked_up_capability r t) = space_frame s t"
  "space_frame s (heap_set_update_capability p a t) = space_frame s t"
  by (simp_all add: heap_lock_def heap_unlock_def unlock_if_def unlock_looked_up_capability_def
      heap_set_update_capability_def Let_def)

lemma for_each_keeps:
  assumes "for_each body xs s = Some t" and "Q s" and "\<And>v s s'. Q s \<Longrightarrow> body v s = Some s' \<Longrightarrow> Q s'"
  shows "Q t"
  using assms(1,2)
proof (induction xs arbitrary: s)
  case (Cons x xs)
  then obtain s' where "body x s = Some s'" "for_each body xs s' = Some t"
    by (auto simp: Option.bind_eq_Some_conv)
  with Cons assms(3) show ?case by blast
qed simp

section \<open>Lookups\<close>

lemma look_up_loop_space:
  assumes "look_up_loop f address depth actual node unlock s = Some (s', r)"
  shows "space_frame s s'"
proof -
  have "space_frame s (fst (s', r))"
  proof (rule look_up_loop.raw_induct [OF _ assms, where P = "\<lambda>f address depth actual node unlock s x. space_frame s (fst x)"])
    fix go f address depth actual node unlock s x
    assume ih: "\<And>f address depth actual node unlock s x. go f address depth actual node unlock s = Some x \<Longrightarrow> space_frame s (fst x)"
      and run: "(let bits = bits_of_node (nodes s node); index_in_node = address AND (num_slots (nodes s node) - 1);
          slot = slot_address node index_in_node; is_node = (cap_handlers (caps s slot) = Node_handlers)
      in if (f \<and> \<not> is_node) \<or> depth = bits then
           Some (s, Some \<lparr>lr_slot = slot, lr_depth = actual + bits, lr_container = node, lr_should_unlock = unlock\<rparr>)
         else if depth < bits \<or> \<not> is_node then Some (unlock_if unlock node s, None)
         else let (s1, next_should_unlock) = heap_lock (cap_resource (caps s slot)) s;
               next_node = cap_resource (caps s1 slot); s2 = unlock_if unlock node s1
           in go f (shr address bits) (depth - bits) (actual + bits) next_node next_should_unlock s2) = Some x"
    show "space_frame s (fst x)"
    proof (cases x)
      case (Pair t y)
      have step: "space_frame s t" if "go a b c d e g (unlock_if unlock node (fst (heap_lock p s))) = Some (t, y)" for a b c d e g p
        by (rule space_frame_trans [OF _ ih [OF that, simplified]]) simp
      show ?thesis using run unfolding Pair
        by (auto simp: Let_def split_beta dest: step split: if_splits)
    qed
  qed
  then show ?thesis by simp
qed

lemma look_up_capability_space:
  "look_up_capability root address depth s = Some (s', r) \<Longrightarrow> space_frame s s'"
  by (auto simp: look_up_capability_def Let_def split_beta split: if_splits dest: look_up_loop_space
      intro: space_frame_trans [rotated])

lemma look_up_capability_absolute_space:
  assumes "look_up_capability_absolute a s = Some (s', r)"
  shows "space_frame s s'"
proof -
  obtain s1 unlock t where lt: "look_up_thread_by_id (aca_thread_id a) (aca_bucket_number a) s = Some (s1, unlock, t)"
    and rest: "(if t = NULL then Some (s1, None)
      else do { (s2, r) \<leftarrow> look_up_capability t (aca_address a) (aca_depth a) s1; Some (unlock_if unlock t s2, r) }) = Some (s', r)"
    using assms by (auto simp: look_up_capability_absolute_def Option.bind_eq_Some_conv)
  have f1: "space_frame s s1"
    using lt by (auto simp: look_up_thread_by_id_def Option.bind_eq_Some_conv split_beta split: if_splits)
  show ?thesis
  proof (cases "t = NULL")
    case False
    then obtain s2 where s2: "look_up_capability t (aca_address a) (aca_depth a) s1 = Some (s2, r)" "s' = unlock_if unlock t s2"
      using rest by (auto simp: Option.bind_eq_Some_conv)
    with f1 look_up_capability_space show ?thesis by (auto intro: space_frame_trans)
  qed (use rest f1 in simp)
qed

section \<open>Moving and copying\<close>

lemma update_capability_references_space:
  assumes "update_capability_references c s = Some s'"
  shows "space_frame s s'"
proof -
  have loop: "space_frame s t" if "for_derived (\<lambda>v s. Some (upd_cap v (f v) s)) d u = Some t" "space_frame s u" for f d u t
    using that(1) unfolding for_derived_def by (rule iter_links_keeps) (use that(2) in auto)
  show ?thesis using assms
    by (auto simp: update_capability_references_def Option.bind_eq_Some_conv Let_def split: if_splits dest!: loop)
qed

lemma move_capability_space: "move_capability a b s = Some s' \<Longrightarrow> space_frame s s'"
  by (auto simp: move_capability_def clear_handlers_def copy_slot_def dest!: update_capability_references_space
      intro: space_frame_trans [rotated])

lemma copy_capability_space: "space_frame s (copy_capability a b address depth s)"
  by (simp add: copy_capability_def add_derivation_def copy_slot_def Let_def)

lemma update_capability_addresses_space:
  assumes "update_capability_addresses slot a nesting s = Some s'"
  shows "space_frame s s'"
proof (rule update_capability_addresses.raw_induct [OF _ assms, where P = "\<lambda>slot a nesting s s'. space_frame s s'"], goal_cases)
  case (1 go slot a nesting s s')
  define s1 where "s1 = (if nc_prev (res_links s slot) = NULL then heap_set_update_capability (cap_resource (caps s slot)) a s else s)"
  define s2 where "s2 = upd_cap slot (\<lambda>x. x\<lparr>cap_address := a\<rparr>) s1"
  have f2: "space_frame s s2" by (simp add: s2_def s1_def)
  show ?case
  proof (cases "cap_handlers (caps s2 slot) = Node_handlers")
    case False
    with 1(2) f2 show ?thesis by (simp add: s1_def [symmetric] s2_def [symmetric] Let_def)
  next
    case True
    let ?n = "cap_resource (caps s2 slot)"
    let ?s3 = "upd_node ?n (\<lambda>x. x\<lparr>nested_nodes := nesting\<rparr>) s2"
    have "for_each (\<lambda>i s. if cap_handlers (caps s (slot_address ?n i)) = No_handlers then Some s
        else go (slot_address ?n i) (a\<lparr>aca_address := shl i (aca_depth a) OR aca_address a,
               aca_depth := aca_depth a + bits_of_node (nodes s ?n)\<rparr>) (nesting + 1) s) (slot_indices (nodes ?s3 ?n)) ?s3 = Some s'"
      using 1(2) True by (simp add: s1_def [symmetric] s2_def [symmetric] Let_def)
    then show ?thesis
      by (rule for_each_keeps) (use f2 1(1) in \<open>auto intro: space_frame_trans split: if_splits\<close>)
  qed
qed

section \<open>Transferring\<close>

text \<open>
  A transfer changes the capability space and, of the messages, only which capabilities the
  receiver's buffer says were transferred.
\<close>

definition transfer_frame :: "addr \<Rightarrow> kstate \<Rightarrow> kstate \<Rightarrow> bool" where
  "transfer_frame recv_buffer s s' \<longleftrightarrow> (\<exists>x. space_frame (upd_message recv_buffer (\<lambda>m. m\<lparr>msg_transferred := x\<rparr>) s) s')"

lemma transfer_frame_mark:
  "transfer_frame b s t \<Longrightarrow> transfer_frame b s (upd_message b (\<lambda>m. m\<lparr>msg_transferred := f m\<rparr>) t)"
  by (auto simp: transfer_frame_def space_frame_def upd_message_def)

lemma transfer_frame_space: "transfer_frame b s t \<Longrightarrow> space_frame t u \<Longrightarrow> transfer_frame b s u"
  by (auto simp: transfer_frame_def intro: space_frame_trans)

lemma transfer_frame_unlock: "transfer_frame b s t \<Longrightarrow> transfer_frame b s (unlock_looked_up_capability r t)"
  by (erule transfer_frame_space) simp

text \<open>The part of a turn after both slots are found.\<close>

lemma transfer_into_frame:
  assumes "(case dst of None \<Rightarrow> Some (unlock_looked_up_capability r s2)
      | Some d \<Rightarrow> if cap_handlers (caps s2 (lr_slot d)) \<noteq> No_handlers
          then Some (unlock_looked_up_capability d (unlock_looked_up_capability r s2))
          else do {
            s3 \<leftarrow> (if copy then Some (copy_capability (lr_slot r) (lr_slot d) (aca_address da) (aca_depth da) s2)
                   else move_capability (lr_slot r) (lr_slot d) s2);
            s4 \<leftarrow> update_capability_addresses (lr_slot d) da 0 s3;
            Some (unlock_looked_up_capability d (unlock_looked_up_capability r
              (upd_message b (\<lambda>x. x\<lparr>msg_transferred := msg_transferred x OR push_bit i 1\<rparr>) s4)))
          }) = Some s'"
    and f2: "transfer_frame b s0 s2"
  shows "transfer_frame b s0 s'"
proof (cases "\<exists>d. dst = Some d \<and> cap_handlers (caps s2 (lr_slot d)) = No_handlers")
  case False
  with assms show ?thesis by (auto intro!: transfer_frame_unlock split: option.splits)
next
  case True
  then obtain d where d: "dst = Some d" "cap_handlers (caps s2 (lr_slot d)) = No_handlers" by blast
  with assms(1) obtain s3 s4 where
    s3: "(if copy then Some (copy_capability (lr_slot r) (lr_slot d) (aca_address da) (aca_depth da) s2)
      else move_capability (lr_slot r) (lr_slot d) s2) = Some s3"
    and s4: "update_capability_addresses (lr_slot d) da 0 s3 = Some s4"
    and s': "s' = unlock_looked_up_capability d (unlock_looked_up_capability r
          (upd_message b (\<lambda>x. x\<lparr>msg_transferred := msg_transferred x OR push_bit i 1\<rparr>) s4))"
    by (auto simp: Option.bind_eq_Some_conv)
  have "transfer_frame b s0 s3"
    using s3 f2 by (auto intro: transfer_frame_space copy_capability_space move_capability_space split: if_splits)
  from transfer_frame_space [OF this update_capability_addresses_space [OF s4]]
  show ?thesis by (simp add: s' transfer_frame_unlock transfer_frame_mark)
qed

lemma transfer_capability_frame:
  assumes "transfer_capability sending receiving sent b i s = Some s'" and "transfer_frame b s0 s"
  shows "transfer_frame b s0 s'"
proof (cases "snd (msg_capabilities (messages s sent) ! i) = 0 \<or> snd (msg_capabilities (messages s b) ! i) = 0")
  case True
  with assms show ?thesis by (simp add: transfer_capability_def)
next
  case False
  let ?sc = "msg_capabilities (messages s sent) ! i" and ?rc = "msg_capabilities (messages s b) ! i"
  obtain s1 src where src: "look_up_capability_absolute (thread_address sending ?sc s) s = Some (s1, src)"
    using assms(1) False by (auto simp: transfer_capability_def Let_def Option.bind_eq_Some_conv)
  note f1 = transfer_frame_space [OF assms(2) look_up_capability_absolute_space [OF src]]
  show ?thesis
  proof (cases src)
    case None
    with assms(1) False src f1 show ?thesis by (simp add: transfer_capability_def Let_def)
  next
    case (Some r)
    define copy where "copy \<longleftrightarrow> msg_to_copy (messages s1 sent) AND push_bit i 1 \<noteq> 0"
    define h where "h = cap_handlers (caps s1 (lr_slot r))"
    show ?thesis
    proof (cases "h = No_handlers \<or> (copy \<and> h = Node_handlers)")
      case True
      then have "s' = unlock_looked_up_capability r s1"
        using assms(1) False src Some by (simp add: transfer_capability_def Let_def h_def copy_def)
      with f1 transfer_frame_unlock show ?thesis by simp
    next
      case nocopy: False
      note run = assms(1) [unfolded transfer_capability_def Let_def if_not_P [OF False] src Some Option.bind_lunit prod.case
          option.case if_not_P [OF nocopy [unfolded h_def copy_def]] Option.bind_eq_Some_conv [of "look_up_capability_absolute a s" for a s]]
      note f2 = transfer_frame_space [OF f1 look_up_capability_absolute_space]
      from run f2 show ?thesis by (auto elim!: transfer_into_frame)
    qed
  qed
qed

lemma transfer_capabilities_frame:
  assumes "transfer_capabilities sending receiving sent b s = Some s'"
  shows "transfer_frame b s s'"
proof -
  have "transfer_frame b s (upd_message b (\<lambda>x. x\<lparr>msg_transferred := 0\<rparr>) s)"
    unfolding transfer_frame_def by (rule exI [of _ 0]) simp
  with assms show ?thesis
    unfolding transfer_capabilities_def by (rule for_each_keeps) (rule transfer_capability_frame)
qed

lemma transfer_frame_fields:
  assumes "transfer_frame b s s'"
  shows "threads s' = threads s" "endpoints s' = endpoints s" "blocked_queue s' = blocked_queue s"
    "runqueue_entry s' = runqueue_entry s" "priority_queues s' = priority_queues s" "current_thread s' = current_thread s"
    "msg_buffer (messages s' a) = msg_buffer (messages s a)" "msg_badge (messages s' a) = msg_badge (messages s a)"
    "msg_capabilities (messages s' a) = msg_capabilities (messages s a)" "a \<noteq> b \<Longrightarrow> messages s' a = messages s a"
  using assms by (auto simp: transfer_frame_def space_frame_def upd_message_def)

end
