(* ===== verification/Ipc_Properties.thy ===== *)
theory Ipc_Properties
  imports Ipc_Transfer
begin

unbundle bit_operations_syntax

text \<open>
  What message passing promises: a sender that finds a waiting receiver hands over bytes and badge
  at once, one that does not waits at the end of the endpoint's queue, and the next receiver is
  served by the first sender in that queue.
\<close>

section \<open>Frames\<close>

lemma queue_thread_frame [simp]:
  "messages (queue_thread t s) = messages s" "endpoints (queue_thread t s) = endpoints s"
  "blocked_queue (queue_thread t s) = blocked_queue s" "caps (queue_thread t s) = caps s"
  by (simp_all add: queue_thread_def append_to_queue_def upd_thread_def split_beta)

lemma upd_frames [simp]:
  "caps (upd_thread t f s) = caps s" "caps (upd_endpoint e g s) = caps s" "caps (upd_message b h s) = caps s"
  "messages (upd_thread t f s) = messages s" "endpoints (upd_thread t f s) = endpoints s"
  "blocked_queue (upd_thread t f s) = blocked_queue s"
  "messages (upd_endpoint e g s) = messages s" "threads (upd_endpoint e g s) = threads s"
  "endpoints (upd_endpoint e g s) = (endpoints s)(e := g (endpoints s e))"
  "blocked_queue (upd_endpoint e g s) = blocked_queue s" "current_thread (upd_endpoint e g s) = current_thread s"
  "runqueue_entry (upd_endpoint e g s) = runqueue_entry s" "priority_queues (upd_endpoint e g s) = priority_queues s"
  "pending_context_switch (upd_endpoint e g s) = pending_context_switch s"
  "messages (upd_message b h s) = (messages s)(b := h (messages s b))" "threads (upd_message b h s) = threads s"
  "endpoints (upd_message b h s) = endpoints s" "blocked_queue (upd_message b h s) = blocked_queue s"
  "current_thread (upd_message b h s) = current_thread s" "runqueue_entry (upd_message b h s) = runqueue_entry s"
  "priority_queues (upd_message b h s) = priority_queues s"
  by (simp_all add: upd_thread_def upd_endpoint_def upd_message_def)

lemma resume_blocked:
  assumes "sched_wf s q" and "t \<noteq> NULL" and "runqueue (threads s t) = None"
    and "exec_mode (threads s t) = EXEC_MODE_BLOCKED" and "s' = resume_thread t EXEC_MODE_BLOCKED s"
  shows "sched_wf s' (q(63 := q 63 @ [t]))"
    and "threads s' = (threads s)(t := (threads s t)\<lparr>exec_mode := EXEC_MODE_RUNNING, runqueue := Some 63\<rparr>)"
    and "messages s' = messages s" and "endpoints s' = endpoints s" and "blocked_queue s' = blocked_queue s"
    and "current_thread s' = current_thread s" and "caps s' = caps s"
proof -
  define s1 where "s1 = upd_thread t (\<lambda>x. x\<lparr>exec_mode := exec_mode x AND NOT EXEC_MODE_BLOCKED\<rparr>) s"
  have w1: "sched_wf s1 q" unfolding s1_def using assms(1) by (rule sched_wf_cong) simp_all
  have t1: "runqueue (threads s1 t) = None" "exec_mode (threads s1 t) = EXEC_MODE_RUNNING"
    using assms(3,4) by (simp_all add: s1_def kernel_consts)
  note qt = queue_thread_wf [OF w1 assms(2) t1(1)]
  define s2 where "s2 = queue_thread t s1"
  have s': "s' = (if current_thread s2 = NULL then s2\<lparr>pending_context_switch := True\<rparr> else s2)"
    using t1(2) by (simp add: assms(5) resume_thread_def s1_def [symmetric] s2_def [symmetric])
  show "sched_wf s' (q(63 := q 63 @ [t]))"
    by (rule sched_wf_cong [OF qt(1)]) (simp_all add: s' s2_def)
  show "threads s' = (threads s)(t := (threads s t)\<lparr>exec_mode := EXEC_MODE_RUNNING, runqueue := Some 63\<rparr>)"
    using assms(4) by (simp add: s' s2_def qt(2)) (simp add: s1_def kernel_consts)
  show "messages s' = messages s" "endpoints s' = endpoints s" "blocked_queue s' = blocked_queue s"
    "current_thread s' = current_thread s" "caps s' = caps s"
    by (simp_all add: s' s2_def qt(3)) (simp_all add: s1_def)
qed

section \<open>Messages without capabilities\<close>

text \<open>No capability slot is used on both sides.\<close>

definition no_capabilities :: "ipc_message \<Rightarrow> ipc_message \<Rightarrow> bool" where
  "no_capabilities x y \<longleftrightarrow>
     list_all (\<lambda>i. snd (msg_capabilities x ! i) = 0 \<or> snd (msg_capabilities y ! i) = 0) [0..<IPC_CAPABILITY_SLOTS]"

lemma no_capabilities_cong:
  "no_capabilities x y \<Longrightarrow> msg_capabilities x' = msg_capabilities x \<Longrightarrow> msg_capabilities y' = msg_capabilities y \<Longrightarrow>
   no_capabilities x' y'"
  by (simp add: no_capabilities_def)

lemma transfer_no_capabilities:
  assumes "no_capabilities (messages s sent) (messages s recv)"
  shows "transfer_capabilities a b sent recv s = Some (upd_message recv (\<lambda>x. x\<lparr>msg_transferred := 0\<rparr>) s)"
proof -
  let ?s = "upd_message recv (\<lambda>x. x\<lparr>msg_transferred := 0\<rparr>) s"
  have "msg_capabilities (messages ?s x) = msg_capabilities (messages s x)" for x by simp
  then have "for_each (transfer_capability a b sent recv) is ?s = Some ?s"
    if "list_all (\<lambda>i. snd (msg_capabilities (messages s sent) ! i) = 0 \<or> snd (msg_capabilities (messages s recv) ! i) = 0) is" for "is"
    using that by (induction "is") (simp_all add: transfer_capability_def Let_def)
  from this assms show ?thesis unfolding transfer_capabilities_def no_capabilities_def by blast
qed

section \<open>Meeting a waiting thread\<close>

text \<open>
  C2: a thread that sends to an endpoint where receivers wait hands its message to the first of
  them at once. Whatever capabilities the message transfers, when the system call returns it
  returns 0, the receiver's buffer has the bytes and the badge of the capability the sender
  used, the receiver has left the endpoint's queue, is no longer blocked and is ready at the end
  of its run queue, and the sender keeps running. For a message that transfers no capability (no slot is
  given on both sides) the call returns.
\<close>

theorem endpoint_send_delivers:
  assumes "e = cap_resource (caps s slot)"
    and "list_rep p (blocked_receiving (endpoints s e)) (blocked_queue s) (r # rs)"
    and "sched_wf s q" and "runqueue (threads s r) = None" and "exec_mode (threads s r) = EXEC_MODE_BLOCKED"
  shows "(\<forall>s' result. endpoint_send slot message s = Some (s', result) \<longrightarrow> result = 0
    \<and> msg_buffer (messages s' (message_buffer (threads s r))) = msg_buffer (messages s message)
    \<and> msg_badge (messages s' (message_buffer (threads s r))) = cap_badge (caps s slot)
    \<and> list_rep r (blocked_receiving (endpoints s' e)) (blocked_queue s') rs
    \<and> blocked_on (threads s' r) = NULL \<and> thread_flags (threads s' r) AND THREAD_BLOCKED_ON_RECEIVE = 0
    \<and> exec_mode (threads s' r) = EXEC_MODE_RUNNING \<and> sched_wf s' (q(63 := q 63 @ [r]))
    \<and> current_thread s' = current_thread s \<and> blocked_sending (endpoints s' e) = blocked_sending (endpoints s e))
    \<and> (no_capabilities (messages s message) (messages s (message_buffer (threads s r))) \<longrightarrow>
       (\<exists>s'. endpoint_send slot message s = Some (s', 0)))"
    (is "(\<forall>s' result. _ \<longrightarrow> ?delivered s' result) \<and> _")
proof -
  let ?b = "message_buffer (threads s r)"
  obtain c m v where pop: "LIST_POP_FROM_START (blocked_receiving (endpoints s e)) (blocked_queue s) NULL = (c, m, v)"
    using prod_cases3 by blast
  note pr = LIST_POP_FROM_START_rep [OF assms(2) pop]
  have rn: "r \<noteq> NULL" using list_rep_nonnull [OF assms(2)] by auto
  have can: "LIST_CAN_POP (blocked_receiving (endpoints s e))"
    using list_rep_start [OF assms(2)] by (simp add: LIST_CAN_POP_def)
  define s2 where "s2 = upd_thread r (\<lambda>x. x\<lparr>thread_flags := thread_flags x AND NOT THREAD_BLOCKED_ON_RECEIVE, blocked_on := NULL\<rparr>)
      ((upd_endpoint e (\<lambda>x. x\<lparr>blocked_receiving := c\<rparr>) s)\<lparr>blocked_queue := m\<rparr>)"
  define s3 where "s3 = upd_message ?b (\<lambda>x. x\<lparr>msg_buffer := msg_buffer (messages s2 message), msg_badge := cap_badge (caps s slot)\<rparr>) s2"
  have b: "message_buffer (threads s2 r) = ?b" by (simp add: s2_def)
  have eq: "endpoint_send slot message s = do {
      s4 \<leftarrow> transfer_capabilities (current_thread s3) r message ?b s3; Some (resume_thread r EXEC_MODE_BLOCKED s4, 0) }"
    unfolding endpoint_send_def Let_def assms(1) [symmetric] pop prod.case pr(1) s2_def [symmetric] b
      s3_def [symmetric] using can by simp
  have s3: "threads s3 = (threads s)(r := (threads s r)\<lparr>thread_flags := thread_flags (threads s r) AND NOT THREAD_BLOCKED_ON_RECEIVE, blocked_on := NULL\<rparr>)"
    "endpoints s3 = (endpoints s)(e := (endpoints s e)\<lparr>blocked_receiving := c\<rparr>)" "blocked_queue s3 = m"
    "current_thread s3 = current_thread s" "priority_queues s3 = priority_queues s" "runqueue_entry s3 = runqueue_entry s"
    "msg_buffer (messages s3 ?b) = msg_buffer (messages s message)" "msg_badge (messages s3 ?b) = cap_badge (caps s slot)"
    by (simp_all add: s3_def s2_def)
  have "?delivered s' result" if run: "endpoint_send slot message s = Some (s', result)" for s' result
  proof -
    obtain s4 where tr: "transfer_capabilities (current_thread s3) r message ?b s3 = Some s4"
      and s': "s' = resume_thread r EXEC_MODE_BLOCKED s4" "result = 0"
      using run by (auto simp: eq Option.bind_eq_Some_conv)
    note s4 = transfer_frame_fields [OF transfer_capabilities_frame [OF tr]]
    have w4: "sched_wf s4 q" using assms(3) by (rule sched_wf_cong) (simp_all add: s4 s3)
    have r4: "runqueue (threads s4 r) = None" "exec_mode (threads s4 r) = EXEC_MODE_BLOCKED" using assms(4,5) by (simp_all add: s4 s3)
    from resume_blocked [OF w4 rn r4 s'(1)] pr(2) s'(2) show ?thesis by (simp add: s4 s3 and.assoc)
  qed
  moreover have "\<exists>s'. endpoint_send slot message s = Some (s', 0)" if "no_capabilities (messages s message) (messages s ?b)"
  proof -
    have "no_capabilities (messages s3 message) (messages s3 ?b)"
      using that by (rule no_capabilities_cong) (simp_all add: s3_def s2_def)
    from transfer_no_capabilities [OF this] show ?thesis by (simp add: eq)
  qed
  ultimately show ?thesis by blast
qed

text \<open>Receiving from an endpoint where senders wait takes the message of the first of them.\<close>

lemma endpoint_receive_first:
  assumes "e = cap_resource (caps s slot)"
    and "list_rep p (blocked_sending (endpoints s e)) (blocked_queue s) (t # ts)"
    and "sched_wf s q" and "runqueue (threads s t) = None" and "exec_mode (threads s t) = EXEC_MODE_BLOCKED"
  shows "(\<forall>s' result. endpoint_receive slot message s = Some (s', result) \<longrightarrow> result = 0
    \<and> msg_buffer (messages s' message) = msg_buffer (messages s (message_buffer (threads s t)))
    \<and> msg_badge (messages s' message) = sending_badge (threads s t)
    \<and> list_rep t (blocked_sending (endpoints s' e)) (blocked_queue s') ts
    \<and> exec_mode (threads s' t) = EXEC_MODE_RUNNING \<and> sched_wf s' (q(63 := q 63 @ [t]))
    \<and> (\<forall>a. a \<noteq> message \<longrightarrow> messages s' a = messages s a) \<and> (\<forall>a. a \<noteq> t \<longrightarrow> threads s' a = threads s a)
    \<and> msg_capabilities (messages s' message) = msg_capabilities (messages s message))
    \<and> (no_capabilities (messages s (message_buffer (threads s t))) (messages s message) \<longrightarrow>
       (\<exists>s'. endpoint_receive slot message s = Some (s', 0) \<and> caps s' = caps s))"
    (is "(\<forall>s' result. _ \<longrightarrow> ?received s' result) \<and> _")
proof -
  let ?b = "message_buffer (threads s t)"
  obtain c m v where pop: "LIST_POP_FROM_START (blocked_sending (endpoints s e)) (blocked_queue s) NULL = (c, m, v)"
    using prod_cases3 by blast
  note pr = LIST_POP_FROM_START_rep [OF assms(2) pop]
  have rn: "t \<noteq> NULL" using list_rep_nonnull [OF assms(2)] by auto
  have can: "LIST_CAN_POP (blocked_sending (endpoints s e))"
    using list_rep_start [OF assms(2)] by (simp add: LIST_CAN_POP_def)
  define s2 where "s2 = upd_thread t (\<lambda>x. x\<lparr>thread_flags := thread_flags x AND NOT THREAD_BLOCKED_ON_SEND, blocked_on := NULL\<rparr>)
      ((upd_endpoint e (\<lambda>x. x\<lparr>blocked_sending := c\<rparr>) s)\<lparr>blocked_queue := m\<rparr>)"
  define s3 where "s3 = upd_message message (\<lambda>x. x\<lparr>msg_buffer := msg_buffer (messages s2 ?b), msg_badge := sending_badge (threads s2 t)\<rparr>) s2"
  have b: "message_buffer (threads s2 t) = ?b" by (simp add: s2_def)
  have eq: "endpoint_receive slot message s = do {
      s4 \<leftarrow> transfer_capabilities t (current_thread s3) ?b message s3; Some (resume_thread t EXEC_MODE_BLOCKED s4, 0) }"
    unfolding endpoint_receive_def Let_def assms(1) [symmetric] pop prod.case pr(1) s2_def [symmetric] b
      s3_def [symmetric] using can by simp
  have s3: "threads s3 = (threads s)(t := (threads s t)\<lparr>thread_flags := thread_flags (threads s t) AND NOT THREAD_BLOCKED_ON_SEND, blocked_on := NULL\<rparr>)"
    "endpoints s3 = (endpoints s)(e := (endpoints s e)\<lparr>blocked_sending := c\<rparr>)" "blocked_queue s3 = m"
    "priority_queues s3 = priority_queues s" "runqueue_entry s3 = runqueue_entry s" "caps s3 = caps s"
    "msg_buffer (messages s3 message) = msg_buffer (messages s ?b)" "msg_badge (messages s3 message) = sending_badge (threads s t)"
    "msg_capabilities (messages s3 message) = msg_capabilities (messages s message)" "a \<noteq> message \<Longrightarrow> messages s3 a = messages s a" for a
    by (simp_all add: s3_def s2_def)
  have resumed: "sched_wf s4 q \<and> runqueue (threads s4 t) = None \<and> exec_mode (threads s4 t) = EXEC_MODE_BLOCKED"
    if "threads s4 = threads s3" "priority_queues s4 = priority_queues s3" "runqueue_entry s4 = runqueue_entry s3" for s4
    using assms(3-5) that by (auto intro!: sched_wf_cong [OF assms(3)] simp: s3)
  have "?received s' result" if run: "endpoint_receive slot message s = Some (s', result)" for s' result
  proof -
    obtain s4 where tr: "transfer_capabilities t (current_thread s3) ?b message s3 = Some s4"
      and s': "s' = resume_thread t EXEC_MODE_BLOCKED s4" "result = 0"
      using run by (auto simp: eq Option.bind_eq_Some_conv)
    note s4 = transfer_frame_fields [OF transfer_capabilities_frame [OF tr]]
    from resumed [OF s4(1,5,4)] have "sched_wf s4 q" "runqueue (threads s4 t) = None" "exec_mode (threads s4 t) = EXEC_MODE_BLOCKED" by auto
    from resume_blocked [OF this(1) rn this(2,3) s'(1)] pr(2) s'(2) show ?thesis by (simp add: s4 s3)
  qed
  moreover have "\<exists>s'. endpoint_receive slot message s = Some (s', 0) \<and> caps s' = caps s"
    if "no_capabilities (messages s ?b) (messages s message)"
  proof -
    have "no_capabilities (messages s3 ?b) (messages s3 message)"
      using that by (rule no_capabilities_cong) (simp_all add: s3_def s2_def)
    note tr = transfer_no_capabilities [OF this]
    let ?s4 = "upd_message message (\<lambda>x. x\<lparr>msg_transferred := 0\<rparr>) s3"
    have "sched_wf ?s4 q \<and> runqueue (threads ?s4 t) = None \<and> exec_mode (threads ?s4 t) = EXEC_MODE_BLOCKED"
      by (rule resumed) simp_all
    from resume_blocked(7) [OF conjunct1 [OF this] rn conjunct1 [OF conjunct2 [OF this]] conjunct2 [OF conjunct2 [OF this]] refl]
    show ?thesis by (simp add: eq tr s3)
  qed
  ultimately show ?thesis by blast
qed

section \<open>Waiting\<close>

lemma suspend_running:
  assumes "runqueue (threads s t) = None" and "current_thread s = t"
  shows "suspend_thread t mode s =
    (upd_thread t (\<lambda>x. x\<lparr>exec_mode := exec_mode x OR mode\<rparr>) s)\<lparr>pending_context_switch := True\<rparr>"
  using assms by (simp add: suspend_thread_def upd_thread_def Let_def)

text \<open>A sender that finds no receiver joins the end of the queue, with its message and badge on record.\<close>

lemma endpoint_send_waits:
  assumes "e = cap_resource (caps s slot)" and "blocked_receiving (endpoints s e) = LIST_INIT"
    and "list_rep p (blocked_sending (endpoints s e)) (blocked_queue s) ts"
    and "current_thread s = t" and "t \<noteq> NULL" and "t \<notin> set ts"
    and "sched_wf s q" and "runqueue (threads s t) = None" and "exec_mode (threads s t) = EXEC_MODE_RUNNING"
  shows "\<exists>s' p'. endpoint_send slot message s = Some (s', 0)
    \<and> list_rep p' (blocked_sending (endpoints s' e)) (blocked_queue s') (ts @ [t])
    \<and> threads s' = (threads s)(t := (threads s t)\<lparr>message_buffer := message, sending_badge := cap_badge (caps s slot), blocked_on := e,
         thread_flags := thread_flags (threads s t) OR THREAD_BLOCKED_ON_SEND, exec_mode := EXEC_MODE_BLOCKED\<rparr>)
    \<and> messages s' = messages s \<and> caps s' = caps s \<and> sched_wf s' q
    \<and> blocked_receiving (endpoints s' e) = LIST_INIT \<and> pending_context_switch s'"
proof -
  define s1 where "s1 = upd_thread t (\<lambda>x. x\<lparr>message_buffer := message, sending_badge := cap_badge (caps s slot), blocked_on := e,
      thread_flags := thread_flags x OR THREAD_BLOCKED_ON_SEND\<rparr>) s"
  obtain c m where app: "LIST_APPEND (blocked_sending (endpoints s e)) (blocked_queue s) t = (c, m)" by fastforce
  note ar = LIST_APPEND_rep [OF assms(3,5,6) app]
  define s2 where "s2 = (upd_endpoint e (\<lambda>x. x\<lparr>blocked_sending := c\<rparr>) s1)\<lparr>blocked_queue := m\<rparr>"
  have s2: "threads s2 = (threads s)(t := (threads s t)\<lparr>message_buffer := message, sending_badge := cap_badge (caps s slot), blocked_on := e,
         thread_flags := thread_flags (threads s t) OR THREAD_BLOCKED_ON_SEND\<rparr>)"
    "endpoints s2 = (endpoints s)(e := (endpoints s e)\<lparr>blocked_sending := c\<rparr>)" "blocked_queue s2 = m" "current_thread s2 = t"
    "messages s2 = messages s" "priority_queues s2 = priority_queues s" "runqueue_entry s2 = runqueue_entry s"
    using assms(4) by (simp_all add: s2_def s1_def)
  have c2: "caps s2 = caps s" by (simp add: s2_def s1_def upd_thread_def upd_endpoint_def)
  have can: "\<not> LIST_CAN_POP (blocked_receiving (endpoints s e))"
    using assms(2) by (simp add: LIST_CAN_POP_def LIST_INIT_def)
  have "block_on_send t message (cap_badge (caps s slot)) e s = suspend_thread t EXEC_MODE_BLOCKED s2"
    unfolding block_on_send_def Let_def s1_def [symmetric] using app by (simp add: s1_def s2_def)
  then have eq: "endpoint_send slot message s = Some (suspend_thread t EXEC_MODE_BLOCKED s2, 0)"
    using can by (simp add: endpoint_send_def assms(1) [symmetric] assms(4))
  have sus: "suspend_thread t EXEC_MODE_BLOCKED s2 =
      (upd_thread t (\<lambda>x. x\<lparr>exec_mode := exec_mode x OR EXEC_MODE_BLOCKED\<rparr>) s2)\<lparr>pending_context_switch := True\<rparr>"
    by (rule suspend_running) (use assms(8) in \<open>simp_all add: s2\<close>)
  define s3 where "s3 = (upd_thread t (\<lambda>x. x\<lparr>exec_mode := exec_mode x OR EXEC_MODE_BLOCKED\<rparr>) s2)\<lparr>pending_context_switch := True\<rparr>"
  have w: "sched_wf s3 q" by (rule sched_wf_cong [OF assms(7)]) (simp_all add: s3_def s2)
  have "list_rep (if ts = [] then NULL else p) (blocked_sending (endpoints s3 e)) (blocked_queue s3) (ts @ [t])"
    using ar(1) by (simp add: s3_def s2)
  moreover have "threads s3 = (threads s)(t := (threads s t)\<lparr>message_buffer := message, sending_badge := cap_badge (caps s slot), blocked_on := e,
         thread_flags := thread_flags (threads s t) OR THREAD_BLOCKED_ON_SEND, exec_mode := EXEC_MODE_BLOCKED\<rparr>)"
    using assms(9) by (simp add: s3_def s2 kernel_consts)
  moreover have "messages s3 = messages s" "caps s3 = caps s" "blocked_receiving (endpoints s3 e) = LIST_INIT" "pending_context_switch s3"
    using assms(2) by (simp_all add: s3_def s2 c2)
  ultimately show ?thesis using w by (auto simp: eq sus s3_def [symmetric])
qed

section \<open>Senders and receivers\<close>

text \<open>Receiving messages one after the other from the same endpoint.\<close>

definition receive_each :: "addr \<Rightarrow> addr list \<Rightarrow> kstate \<Rightarrow> kstate option" where
  "receive_each slot = for_each (\<lambda>message s. map_option fst (endpoint_receive slot message s))"

text \<open>A message buffer that has no capability slot to receive into.\<close>

definition no_slots :: "ipc_message \<Rightarrow> bool" where
  "no_slots x \<longleftrightarrow> list_all (\<lambda>i. snd (msg_capabilities x ! i) = 0) [0..<IPC_CAPABILITY_SLOTS]"

lemma no_slots_no_capabilities: "no_slots y \<Longrightarrow> no_capabilities x y"
  by (auto simp: no_slots_def no_capabilities_def list_all_iff)

lemma no_slots_cong: "msg_capabilities x = msg_capabilities y \<Longrightarrow> no_slots x = no_slots y"
  by (simp add: no_slots_def)

text \<open>The threads waiting to send to an endpoint, as blocked threads outside the run queues.\<close>

definition senders :: "kstate \<Rightarrow> addr \<Rightarrow> addr list \<Rightarrow> bool" where
  "senders s e ts \<longleftrightarrow> (\<exists>p. list_rep p (blocked_sending (endpoints s e)) (blocked_queue s) ts)
     \<and> list_all (\<lambda>t. runqueue (threads s t) = None \<and> exec_mode (threads s t) = EXEC_MODE_BLOCKED) ts"

definition message_of :: "kstate \<Rightarrow> addr \<Rightarrow> uint8_t list \<times> size_t" where
  "message_of s t = (msg_buffer (messages s (message_buffer (threads s t))), sending_badge (threads s t))"

lemma receive_each_in_order:
  assumes "e = cap_resource (caps s slot)" and "senders s e ts" and "sched_wf s q" and "length ms \<le> length ts"
    and "distinct ms" and "set ms \<inter> (\<lambda>t. message_buffer (threads s t)) ` set ts = {}"
    and "list_all (\<lambda>m. no_slots (messages s m)) ms"
  shows "\<exists>s'. receive_each slot ms s = Some s'
    \<and> map (\<lambda>m. (msg_buffer (messages s' m), msg_badge (messages s' m))) ms = map (message_of s) (take (length ms) ts)
    \<and> senders s' e (drop (length ms) ts) \<and> sched_wf s' (q(63 := q 63 @ take (length ms) ts))
    \<and> (\<forall>a. a \<notin> set ms \<longrightarrow> messages s' a = messages s a)"
  using assms
proof (induction ms arbitrary: s ts q)
  case Nil
  then show ?case by (simp add: receive_each_def)
next
  case (Cons m ms)
  then obtain t ts' where ts: "ts = t # ts'" by (cases ts) auto
  obtain p where p: "list_rep p (blocked_sending (endpoints s e)) (blocked_queue s) (t # ts')"
    using Cons.prems(2) by (auto simp: senders_def ts)
  have td: "t \<notin> set ts'" using p by (simp add: list_rep_def)
  have th: "runqueue (threads s t) = None" "exec_mode (threads s t) = EXEC_MODE_BLOCKED"
    using Cons.prems(2) by (simp_all add: senders_def ts)
  have nc: "no_capabilities (messages s (message_buffer (threads s t))) (messages s m)"
    using Cons.prems(7) by (auto intro: no_slots_no_capabilities)
  note first = endpoint_receive_first [OF Cons.prems(1) p Cons.prems(3) th, of m]
  from nc first obtain s1 where run1: "endpoint_receive slot m s = Some (s1, 0)" and caps1: "caps s1 = caps s" by blast
  from conjunct1 [OF first, rule_format, OF run1] run1 caps1 have
    s1: "endpoint_receive slot m s = Some (s1, 0)" "msg_buffer (messages s1 m) = msg_buffer (messages s (message_buffer (threads s t)))"
      "msg_badge (messages s1 m) = sending_badge (threads s t)" "list_rep t (blocked_sending (endpoints s1 e)) (blocked_queue s1) ts'"
      "sched_wf s1 (q(63 := q 63 @ [t]))" "caps s1 = caps s" and
    other: "\<And>a. a \<noteq> m \<Longrightarrow> messages s1 a = messages s a" "\<And>a. a \<noteq> t \<Longrightarrow> threads s1 a = threads s a" by blast+
  have th1: "threads s1 a = threads s a" if "a \<in> set ts'" for a using other(2) td that by metis
  have snd1: "senders s1 e ts'" using Cons.prems(2) s1(4) th1 by (auto simp: senders_def ts list_all_iff)
  have ms1: "messages s1 a = messages s a" if "a \<noteq> m" for a using other(1) that by blast
  have mo: "message_of s1 a = message_of s a" if "a \<in> set ts'" for a
  proof -
    have "message_buffer (threads s a) \<noteq> m" using Cons.prems(6) that by (auto simp: ts)
    then show ?thesis using th1 [OF that] ms1 by (simp add: message_of_def)
  qed
  have nm: "m \<notin> set ms" using Cons.prems(5) by simp
  define q' where "q' = q(63 := q 63 @ [t])"
  have "\<exists>s'. receive_each slot ms s1 = Some s'
    \<and> map (\<lambda>m. (msg_buffer (messages s' m), msg_badge (messages s' m))) ms = map (message_of s1) (take (length ms) ts')
    \<and> senders s' e (drop (length ms) ts') \<and> sched_wf s' (q'(63 := q' 63 @ take (length ms) ts'))
    \<and> (\<forall>a. a \<notin> set ms \<longrightarrow> messages s' a = messages s1 a)"
  proof (rule Cons.IH)
    show "sched_wf s1 q'" using s1(5) by (simp add: q'_def)
    show "set ms \<inter> (\<lambda>t. message_buffer (threads s1 t)) ` set ts' = {}"
      using Cons.prems(6) th1 by (auto simp: ts)
    show "list_all (\<lambda>m. no_slots (messages s1 m)) ms"
      unfolding list_all_iff
    proof
      fix x assume "x \<in> set ms"
      then show "no_slots (messages s1 x)" using Cons.prems(7) ms1 [of x] nm by (cases "x = m") (auto simp: list_all_iff)
    qed
  qed (use Cons.prems s1 snd1 in \<open>simp_all add: ts\<close>)
  then obtain s' where s': "receive_each slot ms s1 = Some s'"
    "map (\<lambda>m. (msg_buffer (messages s' m), msg_badge (messages s' m))) ms = map (message_of s1) (take (length ms) ts')"
    "senders s' e (drop (length ms) ts')" "sched_wf s' (q(63 := q 63 @ t # take (length ms) ts'))"
    "\<forall>a. a \<notin> set ms \<longrightarrow> messages s' a = messages s1 a" by (auto simp: q'_def)
  have "map (message_of s1) (take (length ms) ts') = map (message_of s) (take (length ms) ts')"
    using mo by (auto dest: in_set_takeD)
  moreover have "messages s' m = messages s1 m" using s'(5) nm by simp
  moreover have "\<forall>a. a \<notin> set (m # ms) \<longrightarrow> messages s' a = messages s a" using s'(5) ms1 by simp
  moreover have "receive_each slot (m # ms) s = Some s'" using s1(1) s'(1) by (simp add: receive_each_def)
  moreover have "sched_wf s' (q(63 := q 63 @ take (length (m # ms)) ts))"
    unfolding ts length_Cons take_Suc_Cons by (rule s'(4))
  moreover have "message_of s t = (msg_buffer (messages s1 m), msg_badge (messages s1 m))"
    using s1(2,3) by (simp add: message_of_def)
  ultimately show ?case using s'(2,3) by (intro exI [of _ s']) (simp add: ts fun_upd_def)
qed

text \<open>
  C17: an endpoint serves waiting senders in the order of its queue, to the end of which a sender that
  blocks is added (lemma \<open>endpoint_send_waits\<close>). Receiving into a list of buffers that are different from each other and from
  the buffers of the senders, and that have no slots for capabilities, returns and puts the bytes and the badge of the i-th waiting sender into
  the i-th buffer; the senders served become ready in the same order, and the others keep waiting.
\<close>

theorem endpoint_receive_in_order:
  assumes "e = cap_resource (caps s slot)" and "senders s e ts" and "sched_wf s q" and "length ms \<le> length ts"
    and "distinct ms" and "set ms \<inter> (\<lambda>t. message_buffer (threads s t)) ` set ts = {}"
    and "list_all (\<lambda>m. no_slots (messages s m)) ms"
  shows "\<exists>s'. receive_each slot ms s = Some s'
    \<and> map (\<lambda>m. (msg_buffer (messages s' m), msg_badge (messages s' m))) ms = map (message_of s) (take (length ms) ts)
    \<and> senders s' e (drop (length ms) ts) \<and> sched_wf s' (q(63 := q 63 @ take (length ms) ts))"
  using receive_each_in_order [OF assms] by blast

text \<open>An endpoint at 2000 with badge 7, and a thread at 256 that waits there, with its buffer at 3000.\<close>

definition demo_ipc :: "kstate" where
  "demo_ipc = zero_kstate\<lparr>current_thread := 512,
     caps := (\<lambda>_. zero_capability\<lparr>cap_handlers := Endpoint_handlers, cap_resource := 2000, cap_badge := 7\<rparr>),
     messages := (\<lambda>_. zero_message)(4000 := zero_message\<lparr>msg_buffer := replicate IPC_BUFFER_SIZE 42\<rparr>),
     threads := (\<lambda>_. zero_thread)(256 := zero_thread\<lparr>exec_mode := EXEC_MODE_BLOCKED, message_buffer := 3000\<rparr>)\<rparr>"

definition demo_waiting :: list_container where
  "demo_waiting = \<lparr>lc_start = 256, lc_end = 256\<rparr>"

lemma demo_waiting_rep: "list_rep NULL demo_waiting (blocked_queue (demo_ipc\<lparr>endpoints := E\<rparr>)) [256]"
  by (simp add: list_rep_def demo_waiting_def demo_ipc_def zero_kstate_def zero_link_def)

lemma demo_ipc_wf: "sched_wf (demo_ipc\<lparr>endpoints := E\<rparr>) (\<lambda>_. [])"
  by (rule sched_wf_cong [OF zero_kstate_sched_wf]) (simp_all add: demo_ipc_def zero_kstate_def zero_thread_def)

lemma demo_no_slots: "no_slots (messages demo_ipc a)"
  by (simp add: no_slots_def demo_ipc_def zero_message_def list_all_iff kernel_consts)

theorem endpoint_receive_in_order_witness:
  "\<exists>s'. receive_each 100 [4000] (demo_ipc\<lparr>endpoints := (\<lambda>_. \<lparr>blocked_sending = demo_waiting, blocked_receiving = LIST_INIT\<rparr>)\<rparr>) = Some s'
    \<and> sched_wf s' ((\<lambda>_. [])(63 := [256]))"
proof -
  let ?s = "demo_ipc\<lparr>endpoints := (\<lambda>_. \<lparr>blocked_sending = demo_waiting, blocked_receiving = LIST_INIT\<rparr>)\<rparr>"
  have "senders ?s 2000 [256]"
    using demo_waiting_rep by (auto simp: senders_def demo_ipc_def zero_thread_def)
  moreover have "message_buffer (threads ?s 256) = 3000" "cap_resource (caps ?s 100) = 2000"
    by (simp_all add: demo_ipc_def)
  moreover have "no_slots (messages ?s a)" for a using demo_no_slots by simp
  ultimately show ?thesis
    using endpoint_receive_in_order [OF _ _ demo_ipc_wf, of 2000 _ 100 "[256]" "[4000]"] by auto
qed

theorem endpoint_send_delivers_witness:
  "\<exists>s'. endpoint_send 100 4000 (demo_ipc\<lparr>endpoints := (\<lambda>_. \<lparr>blocked_sending = LIST_INIT, blocked_receiving = demo_waiting\<rparr>)\<rparr>) = Some (s', 0)
    \<and> msg_buffer (messages s' 3000) = replicate IPC_BUFFER_SIZE 42 \<and> msg_badge (messages s' 3000) = 7"
proof -
  let ?s = "demo_ipc\<lparr>endpoints := (\<lambda>_. \<lparr>blocked_sending = LIST_INIT, blocked_receiving = demo_waiting\<rparr>)\<rparr>"
  have t: "message_buffer (threads ?s 256) = 3000" "cap_resource (caps ?s 100) = 2000" "cap_badge (caps ?s 100) = 7"
    "msg_buffer (messages ?s 4000) = replicate IPC_BUFFER_SIZE 42" "runqueue (threads ?s 256) = None"
    "exec_mode (threads ?s 256) = EXEC_MODE_BLOCKED"
    by (simp_all add: demo_ipc_def zero_thread_def)
  have n: "no_capabilities (messages ?s 4000) (messages ?s 3000)"
    by (rule no_slots_no_capabilities) (simp add: demo_no_slots)
  have "2000 = cap_resource (caps ?s 100)" "list_rep NULL (blocked_receiving (endpoints ?s 2000)) (blocked_queue ?s) [256]"
    using t(2) demo_waiting_rep by simp_all
  note send = endpoint_send_delivers [OF this demo_ipc_wf t(5,6), of 4000, unfolded t]
  from n send obtain s' where s': "endpoint_send 100 4000 ?s = Some (s', 0)" by blast
  from conjunct1 [OF send, rule_format, OF this] s' show ?thesis by blast
qed

section \<open>Rendezvous\<close>

text \<open>
  C25: a message sent to an endpoint where no thread waits, neither to send nor to receive, is not lost. The sender
  blocks and asks for a context switch; when the next thread that receives from the endpoint
  returns from the system call, whatever capabilities the message transfers, it has the sender's bytes and the badge of the
  capability the sender used, and the sender is ready again. If the message transfers no capability (no slot is
  given on both sides) the receiver does return.
\<close>

theorem endpoint_rendezvous:
  assumes "e = cap_resource (caps s slot)" and "e = cap_resource (caps s slot')"
    and "blocked_receiving (endpoints s e) = LIST_INIT" and "blocked_sending (endpoints s e) = LIST_INIT"
    and "current_thread s = t" and "t \<noteq> NULL" and "sched_wf s q"
    and "runqueue (threads s t) = None" and "exec_mode (threads s t) = EXEC_MODE_RUNNING"
  shows "\<exists>s1. endpoint_send slot message s = Some (s1, 0)
    \<and> exec_mode (threads s1 t) = EXEC_MODE_BLOCKED \<and> pending_context_switch s1
    \<and> (\<forall>s2 result. endpoint_receive slot' message' (s1\<lparr>current_thread := u\<rparr>) = Some (s2, result) \<longrightarrow>
        result = 0 \<and> msg_buffer (messages s2 message') = msg_buffer (messages s message)
        \<and> msg_badge (messages s2 message') = cap_badge (caps s slot)
        \<and> exec_mode (threads s2 t) = EXEC_MODE_RUNNING \<and> sched_wf s2 (q(63 := q 63 @ [t])))
    \<and> (no_capabilities (messages s message) (messages s message') \<longrightarrow>
        endpoint_receive slot' message' (s1\<lparr>current_thread := u\<rparr>) \<noteq> None)"
proof -
  have "list_rep NULL (blocked_sending (endpoints s e)) (blocked_queue s) []"
    using assms(4) LIST_INIT_rep by simp
  from endpoint_send_waits [OF assms(1,3) this assms(5,6) _ assms(7-9), of message] obtain s1 p where
    s1: "endpoint_send slot message s = Some (s1, 0)" "list_rep p (blocked_sending (endpoints s1 e)) (blocked_queue s1) [t]"
      "threads s1 = (threads s)(t := (threads s t)\<lparr>message_buffer := message, sending_badge := cap_badge (caps s slot), blocked_on := e,
         thread_flags := thread_flags (threads s t) OR THREAD_BLOCKED_ON_SEND, exec_mode := EXEC_MODE_BLOCKED\<rparr>)"
      "messages s1 = messages s" "caps s1 = caps s" "sched_wf s1 q" "pending_context_switch s1" by auto
  let ?s = "s1\<lparr>current_thread := u\<rparr>"
  have w: "sched_wf ?s q" by (rule sched_wf_cong [OF s1(6)]) simp_all
  have r: "e = cap_resource (caps ?s slot')" "list_rep p (blocked_sending (endpoints ?s e)) (blocked_queue ?s) [t]"
    "runqueue (threads ?s t) = None" "exec_mode (threads ?s t) = EXEC_MODE_BLOCKED"
    using assms(2,8) s1 by simp_all
  from endpoint_receive_first [OF r(1,2) w r(3,4), of message'] s1 show ?thesis
    by (intro exI [of _ s1]) fastforce
qed

theorem endpoint_rendezvous_witness:
  "\<exists>s1 s2. endpoint_send 100 4000 (demo_ipc\<lparr>endpoints := (\<lambda>_. \<lparr>blocked_sending = LIST_INIT, blocked_receiving = LIST_INIT\<rparr>)\<rparr>) = Some (s1, 0)
    \<and> endpoint_receive 200 5000 (s1\<lparr>current_thread := 1024\<rparr>) = Some (s2, 0)
    \<and> msg_buffer (messages s2 5000) = replicate IPC_BUFFER_SIZE 42 \<and> msg_badge (messages s2 5000) = 7"
proof -
  let ?s = "demo_ipc\<lparr>endpoints := (\<lambda>_. \<lparr>blocked_sending = LIST_INIT, blocked_receiving = LIST_INIT\<rparr>)\<rparr>"
  have t: "cap_resource (caps ?s a) = 2000" "cap_badge (caps ?s a) = 7" "current_thread ?s = 512"
    "msg_buffer (messages ?s 4000) = replicate IPC_BUFFER_SIZE 42" "runqueue (threads ?s 512) = None"
    "exec_mode (threads ?s 512) = EXEC_MODE_RUNNING" for a
    by (simp_all add: demo_ipc_def zero_thread_def kernel_consts)
  have n: "no_capabilities (messages ?s 4000) (messages ?s 5000)"
    by (rule no_slots_no_capabilities) (simp add: demo_no_slots)
  from endpoint_rendezvous [OF _ _ _ _ t(3) _ demo_ipc_wf t(5,6), of 2000 100 200 4000 5000 1024] n obtain s1 where
    s1: "endpoint_send 100 4000 ?s = Some (s1, 0)"
    "\<forall>s2 result. endpoint_receive 200 5000 (s1\<lparr>current_thread := 1024\<rparr>) = Some (s2, result) \<longrightarrow>
        result = 0 \<and> msg_buffer (messages s2 5000) = msg_buffer (messages ?s 4000) \<and> msg_badge (messages s2 5000) = cap_badge (caps ?s 100)"
    "endpoint_receive 200 5000 (s1\<lparr>current_thread := 1024\<rparr>) \<noteq> None"
    using t(1) by fastforce
  then obtain s2 result where "endpoint_receive 200 5000 (s1\<lparr>current_thread := 1024\<rparr>) = Some (s2, result)" by fastforce
  with s1 t show ?thesis by metis
qed

end
