(* ===== verification/Jax.thy ===== *)
theory Jax
  imports Byte_Memory "HOL-Library.Sublist"
begin

unbundle bit_operations_syntax

text \<open>
  Jax archives: the reader in \<open>core/common/jax.c\<close>, which walks over the records of an archive in
  memory, and the records as \<open>utils/jax/create.c\<close> writes them. The properties say that the reader
  finds every record of an archive that the writer made, and what it does at the end of it.
\<close>

section \<open>The reader\<close>

record jax_iterator =
  iter_start :: addr
  iter_end :: addr

definition TYPE_DIRECTORY :: uint8_t where "TYPE_DIRECTORY = 100"
definition TYPE_LINK :: uint8_t where "TYPE_LINK = 115"
definition TYPE_REGULAR :: uint8_t where "TYPE_REGULAR = 114"

record jax_file =
  file_type :: uint8_t
  name_length :: uint16_t
  file_name :: addr
  description_length :: uint16_t
  description :: addr
  timestamp :: "64 word"
  file_mode :: uint16_t
  owner :: uint16_t
  file_group :: uint16_t
  file_size :: "64 word"
  file_data :: addr

definition open_jax :: "memory \<Rightarrow> addr \<Rightarrow> addr \<Rightarrow> jax_iterator option" where
  "open_jax m start stop =
     (if start + 4 > stop \<or> m start \<noteq> 94 \<or> m (start + 1) \<noteq> 106 \<or> m (start + 2) \<noteq> 97 \<or> m (start + 3) \<noteq> 120 then None
      else Some \<lparr>iter_start = start + 4, iter_end = stop\<rparr>)"

definition u16_to_ne :: "memory \<Rightarrow> addr \<Rightarrow> uint16_t" where
  "u16_to_ne m bytes = ucast (m bytes) OR push_bit 8 (ucast (m (bytes + 1)))"

definition i64_to_ne :: "memory \<Rightarrow> addr \<Rightarrow> 64 word" where
  "i64_to_ne m bytes = foldl (\<lambda>result i. result OR push_bit (i * 8) (ucast (m (bytes + of_nat i)))) 0 [0..<8]"

text \<open>
  The iterator and the file are changed on the way, also when the record turns out to be cut off.
  A 64-bit number added to a pointer counts modulo \<open>2 ^ 32\<close>.
\<close>

definition jax_next_file :: "memory \<Rightarrow> jax_iterator \<Rightarrow> jax_file \<Rightarrow> jax_iterator \<times> jax_file \<times> bool" where
  "jax_next_file m iter file =
     (let a = iter_start iter; e = iter_end iter in
      if a \<ge> e \<or> a + 3 \<ge> e then (iter, file, False)
      else
        let file1 = file\<lparr>file_type := m a, name_length := u16_to_ne m (a + 1), file_name := a + 3\<rparr>;
            b = a + (ucast (name_length file1) + 3) in
        if b \<ge> e \<or> b + 2 \<ge> e then (iter\<lparr>iter_start := b\<rparr>, file1, False)
        else
          let file2 = file1\<lparr>description_length := u16_to_ne m b, description := b + 2\<rparr>;
              c = b + (ucast (description_length file2) + 2) in
          if c \<ge> e \<or> c + 22 \<ge> e then (iter\<lparr>iter_start := c\<rparr>, file2, False)
          else
            let file3 = file2\<lparr>timestamp := i64_to_ne m c, file_mode := u16_to_ne m (c + 8), owner := u16_to_ne m (c + 10),
                          file_group := u16_to_ne m (c + 12), file_size := i64_to_ne m (c + 14), file_data := c + 22\<rparr>;
                d = c + ucast (file_size file3 + 22)
            in (iter\<lparr>iter_start := d\<rparr>, file3, d \<le> e))"

text \<open>The number of characters on which a name of so many more characters agrees with a string.\<close>

fun match_from :: "memory \<Rightarrow> addr \<Rightarrow> addr \<Rightarrow> nat \<Rightarrow> addr \<Rightarrow> addr" where
  "match_from m name to_find 0 i = i"
| "match_from m name to_find (Suc n) i =
     (if m (name + i) = m (to_find + i) \<and> m (to_find + i) \<noteq> 0 then match_from m name to_find n (i + 1) else i)"

text \<open>The loop over the files; \<open>None\<close> is a walk that never ends, which a negative size can cause.\<close>

partial_function (option) find_loop ::
    "memory \<Rightarrow> addr \<Rightarrow> uint8_t \<Rightarrow> jax_iterator \<Rightarrow> jax_file \<Rightarrow> (jax_iterator \<times> (addr \<times> size_t) option) option" where
  "find_loop m to_find type iter file =
     (case jax_next_file m iter file of (iter', file', ok) \<Rightarrow>
        if \<not> ok then Some (iter', None)
        else if type \<noteq> 0 \<and> file_type file' \<noteq> type then find_loop m to_find type iter' file'
        else if m (to_find + match_from m (file_name file') to_find (unat (name_length file')) 0) \<noteq> 0
        then find_loop m to_find type iter' file'
        else Some (iter', Some (file_data file', ucast (file_size file'))))"

definition jax_find ::
    "memory \<Rightarrow> jax_iterator \<Rightarrow> addr \<Rightarrow> uint8_t \<Rightarrow> jax_file \<Rightarrow> (jax_iterator \<times> (addr \<times> size_t) option) option" where
  "jax_find m iter to_find type file =
     find_loop m (if m to_find = 47 then to_find + 1 else to_find) type iter file"

section \<open>The writer\<close>

text \<open>
  \<open>nftw_visit\<close> of \<open>utils/jax/create.c\<close> for one file the walk comes to: what the archive, of which the
  last byte was written last, becomes, or \<open>None\<close> when the visit fails, for an archive that can be written to.
  Besides the contents a visit has the size the walk found, which another program may have made wrong, and whether
  the file can be opened and the link be read. The host is \<open>BUFSIZ\<close> of the C library, which is positive,
  which sizes can be allocated, whether the archive can be sought in, and how the bytes of an \<open>int64_t\<close> lie in
  memory. \<open>fread\<close> and \<open>fwrite\<close> of one item of no bytes return 0, which the code takes for an error.
\<close>

datatype visit_type = FTW_F | FTW_D | FTW_SL

record host =
  bufsiz :: nat
  malloc_works :: "nat \<Rightarrow> bool"
  archive_seeks :: bool
  native_i64 :: "64 word \<Rightarrow> uint8_t list"

record visit =
  visit_name :: "uint8_t list"
  visit_kind :: visit_type
  st_mtime :: "64 word"
  st_mode :: uint32_t
  st_uid :: uint32_t
  st_gid :: uint32_t
  st_size :: int
  can_open :: bool
  can_read_link :: bool
  contents :: "uint8_t list"

definition u16_to_le :: "uint16_t \<Rightarrow> uint8_t list" where
  "u16_to_le number = [ucast (number AND 0xff), ucast (drop_bit 8 number)]"

definition i64_to_le :: "64 word \<Rightarrow> uint8_t list" where
  "i64_to_le number = map (\<lambda>i. ucast (drop_bit (i * 8) number AND 0xff)) [0..<8]"

definition fwrite_item :: "uint8_t list \<Rightarrow> uint8_t list \<Rightarrow> uint8_t list option" where
  "fwrite_item item archive = (if item = [] then None else Some (archive @ item))"

text \<open>The copying loop, with the bytes of the file that are left and the file size that is left.\<close>

function copy_contents :: "nat \<Rightarrow> int \<Rightarrow> uint8_t list \<Rightarrow> uint8_t list \<Rightarrow> uint8_t list option" where
  "copy_contents buffer_size left rest archive =
     (if buffer_size = 0 \<or> left < 0 then Some archive
      else
        let rw_size = (if left > int buffer_size then buffer_size else nat left) in
        if rw_size = 0 \<or> length rest < rw_size then None
        else copy_contents buffer_size (left - int buffer_size) (drop rw_size rest) (archive @ take rw_size rest))"
  by auto

termination copy_contents
  by (relation "measure (\<lambda>(b, l, r, a). nat (l + 1))") auto

declare copy_contents.simps [simp del]

text \<open>
  The target of a link: a link that became shorter since the walk found its size gets another size, for which the
  code goes back over the one it wrote, does not ask whether that worked, and does not convert the new one.
\<close>

definition write_link :: "'h host_scheme \<Rightarrow> visit \<Rightarrow> uint8_t list \<Rightarrow> uint8_t list option" where
  "write_link h v archive =
     (let size = nat (st_size v); target = take size (contents v) in
      if st_size v < 0 \<or> \<not> malloc_works h size \<or> \<not> can_read_link v then None
      else do {
        a \<leftarrow> (if length target \<noteq> size
              then fwrite_item (native_i64 h (of_nat (length target)))
                     (if archive_seeks h then take (length archive - 8) archive else archive)
              else Some archive);
        fwrite_item target a
      })"

definition nftw_visit :: "'h host_scheme \<Rightarrow> visit \<Rightarrow> uint8_t list \<Rightarrow> uint8_t list option" where
  "nftw_visit h v archive = do {
     let record_type = (case visit_kind v of FTW_F \<Rightarrow> TYPE_REGULAR | FTW_D \<Rightarrow> TYPE_DIRECTORY | FTW_SL \<Rightarrow> TYPE_LINK);
     a1 \<leftarrow> fwrite_item [record_type] archive;
     let length_of_name = (of_nat (length (visit_name v)) :: uint16_t);
     a2 \<leftarrow> fwrite_item (u16_to_le length_of_name) a1;
     a3 \<leftarrow> fwrite_item (take (unat length_of_name) (visit_name v)) a2;
     a4 \<leftarrow> fwrite_item [0, 0] a3;
     a5 \<leftarrow> fwrite_item (i64_to_le (st_mtime v) @ u16_to_le (ucast (st_mode v)) @ u16_to_le (ucast (st_uid v))
             @ u16_to_le (ucast (st_gid v))
             @ (if visit_kind v = FTW_D then i64_to_le 0 else i64_to_le (word_of_int (st_size v)))) a4;
     (case visit_kind v of
        FTW_F \<Rightarrow> if can_open v then copy_contents (bufsiz h) (st_size v) (contents v) a5 else None
      | FTW_SL \<Rightarrow> write_link h v a5
      | FTW_D \<Rightarrow> Some a5)
   }"

section \<open>Bytes in memory\<close>

fun holds :: "memory \<Rightarrow> addr \<Rightarrow> uint8_t list \<Rightarrow> bool" where
  "holds m a [] = True"
| "holds m a (x # xs) = (m a = x \<and> holds m (a + 1) xs)"

lemma holds_append: "holds m a (xs @ ys) \<longleftrightarrow> holds m a xs \<and> holds m (a + of_nat (length xs)) ys"
  by (induction xs arbitrary: a) (simp_all add: algebra_simps)

lemma holds_nth: "holds m a xs \<Longrightarrow> i < length xs \<Longrightarrow> m (a + of_nat i) = xs ! i"
proof (induction xs arbitrary: a i)
  case (Cons x xs)
  show ?case
  proof (cases i)
    case (Suc k)
    with Cons.IH [of "a + 1" k] Cons.prems show ?thesis by (simp add: add.assoc)
  qed (use Cons.prems in simp)
qed simp

lemma length_u16_to_le [simp]: "length (u16_to_le w) = 2"
  by (simp add: u16_to_le_def)

lemma length_i64_to_le [simp]: "length (i64_to_le w) = 8"
  by (simp add: i64_to_le_def)

lemma u16_round_trip: "holds m a (u16_to_le w) \<Longrightarrow> u16_to_ne m a = w"
proof (rule bit_word_eqI)
  fix n assume h: "holds m a (u16_to_le w)" and n: "n < LENGTH(16)"
  then have b: "m a = ucast (take_bit 8 w)" "m (a + 1) = ucast (drop_bit 8 w)"
    by (simp_all add: u16_to_le_def take_bit_eq_mask mask_eq_exp_minus_1)
  show "bit (u16_to_ne m a) n = bit w n" using n unfolding u16_to_ne_def b by (auto simp: bit_simps)
qed

lemma bit_or_bytes:
  "bit (foldl (\<lambda>result i. result OR push_bit (i * 8) (ucast (f i))) r is) n \<longleftrightarrow>
     bit r n \<or> (\<exists>i \<in> set is. i * 8 \<le> n \<and> n < 64 \<and> n - i * 8 < 8 \<and> bit (f i) (n - i * 8))"
  for f :: "nat \<Rightarrow> uint8_t" and r :: "64 word"
proof (induction "is" arbitrary: r)
  case (Cons i "is")
  have "bit (push_bit (i * 8) (ucast (f i)) :: 64 word) n \<longleftrightarrow> i * 8 \<le> n \<and> n < 64 \<and> n - i * 8 < 8 \<and> bit (f i) (n - i * 8)"
    using bit_imp_le_length [of "f i" "n - i * 8"] by (auto simp: bit_simps)
  then show ?case using Cons [of "r OR push_bit (i * 8) (ucast (f i))"] by (auto simp: bit_or_iff)
qed simp

lemma i64_round_trip: "holds m a (i64_to_le w) \<Longrightarrow> i64_to_ne m a = w"
proof (rule bit_word_eqI)
  fix n assume h: "holds m a (i64_to_le w)" and "n < LENGTH(64)"
  then have n: "n < 64" by simp
  have b: "m (a + of_nat i) = ucast (take_bit 8 (drop_bit (i * 8) w))" if "i < 8" for i
    using holds_nth [OF h, of i] that by (simp add: i64_to_le_def take_bit_eq_mask mask_eq_exp_minus_1)
  have w: "bit (m (a + of_nat i)) (n - i * 8) \<longleftrightarrow> bit w n" if "i < 8" "i * 8 \<le> n" "n - i * 8 < 8" for i
    unfolding b [OF that(1)] using that by (auto simp: bit_simps)
  have "bit (i64_to_ne m a) n \<longleftrightarrow> (\<exists>i < 8. i * 8 \<le> n \<and> n - i * 8 < 8 \<and> bit (m (a + of_nat i)) (n - i * 8))"
    using n unfolding i64_to_ne_def bit_or_bytes Bex_def set_upt atLeastLessThan_iff by (metis bit_0_eq bot_apply bot_bool_def le0)
  also have "\<dots> \<longleftrightarrow> (\<exists>i < 8. i * 8 \<le> n \<and> n - i * 8 < 8 \<and> bit w n)"
    using w by blast
  also have "\<dots> \<longleftrightarrow> bit w n"
  proof
    have "n div 8 * 8 \<le> n" "n - n div 8 * 8 < 8" "n div 8 < 8"
      using n div_mult_mod_eq [of n 8] by simp_all
    then show "\<exists>i < 8. i * 8 \<le> n \<and> n - i * 8 < 8 \<and> bit w n" if "bit w n" using that by blast
  qed blast
  finally show "bit (i64_to_ne m a) n = bit w n" .
qed

section \<open>Records\<close>

record jax_record =
  rec_type :: uint8_t
  rec_name :: "uint8_t list"
  rec_description :: "uint8_t list"
  rec_time :: "64 word"
  rec_mode :: uint16_t
  rec_owner :: uint16_t
  rec_group :: uint16_t
  rec_data :: "uint8_t list"

definition record_bytes :: "jax_record \<Rightarrow> uint8_t list" where
  "record_bytes r = [rec_type r] @ u16_to_le (of_nat (length (rec_name r))) @ rec_name r
     @ u16_to_le (of_nat (length (rec_description r))) @ rec_description r
     @ i64_to_le (rec_time r) @ u16_to_le (rec_mode r) @ u16_to_le (rec_owner r) @ u16_to_le (rec_group r)
     @ i64_to_le (of_nat (length (rec_data r))) @ rec_data r"

lemma length_record_bytes:
  "length (record_bytes r) = 27 + length (rec_name r) + length (rec_description r) + length (rec_data r)"
  by (simp add: record_bytes_def)

text \<open>The file a reader sees for a record at an address.\<close>

definition file_at :: "addr \<Rightarrow> jax_record \<Rightarrow> jax_file" where
  "file_at a r =
     (let n = length (rec_name r); d = length (rec_description r) in
      \<lparr>file_type = rec_type r, name_length = of_nat n, file_name = a + 3,
       description_length = of_nat d, description = a + of_nat (3 + n + 2),
       timestamp = rec_time r, file_mode = rec_mode r, owner = rec_owner r, file_group = rec_group r,
       file_size = of_nat (length (rec_data r)), file_data = a + of_nat (3 + n + 2 + d + 22)\<rparr>)"

definition record_wf :: "jax_record \<Rightarrow> bool" where
  "record_wf r \<longleftrightarrow> length (rec_name r) < 2 ^ 16 \<and> length (rec_description r) < 2 ^ 16"

lemma ucast_of_nat_16_32: "n < 2 ^ 16 \<Longrightarrow> (ucast (of_nat n :: uint16_t) :: 32 word) = of_nat n"
  by (simp add: word_unat_eq_iff unsigned_ucast_eq unat_of_nat take_bit_eq_mod)

lemma ucast_of_nat_64_32: "(ucast (of_nat n :: 64 word) :: 32 word) = of_nat n"
  by (simp add: word_unat_eq_iff unsigned_ucast_eq unat_of_nat take_bit_eq_mod mod_mod_cancel)

lemma ucast_of_nat_32_16: "(ucast (of_nat n :: 32 word) :: uint16_t) = of_nat n"
  by (simp add: word_unat_eq_iff unsigned_ucast_eq unat_of_nat take_bit_eq_mod mod_mod_cancel)

lemma jax_next_file_record:
  assumes h: "holds m a (record_bytes r)" and wf: "record_wf r" and fits: "unat a + length (record_bytes r) \<le> unat e"
  shows "if unat a + (length (rec_name r) + length (rec_description r) + 27) < unat e
    then jax_next_file m \<lparr>iter_start = a, iter_end = e\<rparr> file =
      (\<lparr>iter_start = a + of_nat (length (record_bytes r)), iter_end = e\<rparr>, file_at a r, True)
    else \<not> snd (snd (jax_next_file m \<lparr>iter_start = a, iter_end = e\<rparr> file))"
proof -
  let ?n = "length (rec_name r)" and ?d = "length (rec_description r)" and ?l = "length (rec_data r)"
  define b where "b = a + of_nat (?n + 3)"
  define c where "c = a + of_nat (?n + ?d + 5)"
  define f where "f = a + of_nat (27 + ?n + ?d + ?l)"
  have len: "unat a + (27 + ?n + ?d + ?l) \<le> unat e" using fits by (simp add: length_record_bytes)
  have in_range: "unat (a + of_nat k) = unat a + k" if "k \<le> 27 + ?n + ?d + ?l" for k
    using that len unat_lt_2_32 [of e] by (intro unat_plus_of_nat) linarith
  have h': "m a = rec_type r" "holds m (a + 1) (u16_to_le (of_nat ?n))" "holds m b (u16_to_le (of_nat ?d))"
    "holds m c (i64_to_le (rec_time r))" "holds m (c + 8) (u16_to_le (rec_mode r))" "holds m (c + 10) (u16_to_le (rec_owner r))"
    "holds m (c + 12) (u16_to_le (rec_group r))" "holds m (c + 14) (i64_to_le (of_nat ?l))"
    using h by (simp_all add: record_bytes_def holds_append b_def c_def algebra_simps)
  have bc: "a + (ucast (of_nat ?n :: uint16_t) + 3) = b" "b + (ucast (of_nat ?d :: uint16_t) + 2) = c"
    using wf by (simp_all add: record_wf_def ucast_of_nat_16_32 b_def c_def algebra_simps)
  have f: "c + ucast (of_nat ?l + 22 :: 64 word) = f"
    using ucast_of_nat_64_32 [of "?l + 22"] by (simp add: c_def f_def algebra_simps)
  have eqs: "b + 2 = a + of_nat (?n + 5)" "c + 22 = a + of_nat (?n + ?d + 27)" "a + 3 = a + of_nat 3"
    by (simp_all add: b_def c_def algebra_simps)
  have u: "unat b = unat a + (?n + 3)" "unat (b + 2) = unat a + (?n + 5)" "unat (c + 22) = unat a + (?n + ?d + 27)"
    "unat (a + 3) = unat a + 3" "unat c = unat a + (?n + ?d + 5)" "unat f = unat a + (27 + ?n + ?d + ?l)"
    unfolding eqs unfolding b_def c_def f_def by (rule in_range; simp)+
  have lt: "\<not> a \<ge> e" "\<not> a + 3 \<ge> e" "\<not> b \<ge> e" "\<not> b + 2 \<ge> e" "\<not> c \<ge> e" "f \<le> e"
    and last: "c + 22 \<ge> e \<longleftrightarrow> \<not> unat a + (?n + ?d + 27) < unat e"
    unfolding word_le_nat_alt u using len by linarith+
  note r = h'(2,3,5-7) [THEN u16_round_trip] h'(4,8) [THEN i64_round_trip]
  show ?thesis
  proof (cases "unat a + (?n + ?d + 27) < unat e")
    case True
    then have "\<not> c + 22 \<ge> e" using last by blast
    then have "jax_next_file m \<lparr>iter_start = a, iter_end = e\<rparr> file = (\<lparr>iter_start = f, iter_end = e\<rparr>,
       \<lparr>file_type = rec_type r, name_length = of_nat ?n, file_name = a + 3, description_length = of_nat ?d, description = b + 2,
        timestamp = rec_time r, file_mode = rec_mode r, owner = rec_owner r, file_group = rec_group r,
        file_size = of_nat ?l, file_data = c + 22\<rparr>, True)"
      unfolding jax_next_file_def Let_def
      by (cases "file") (simp only: jax_iterator.simps jax_file.simps r h'(1) bc f lt simp_thms if_False)
    with True show ?thesis unfolding eqs by (simp add: file_at_def Let_def length_record_bytes f_def add.commute add.left_commute)
  next
    case False
    then have "c + 22 \<ge> e" using last by blast
    then have "\<not> snd (snd (jax_next_file m \<lparr>iter_start = a, iter_end = e\<rparr> file))"
      unfolding jax_next_file_def Let_def
      by (cases "file") (simp only: jax_iterator.simps jax_file.simps r h'(1) bc lt simp_thms if_False if_True snd_conv)
    with False show ?thesis by simp
  qed
qed

lemma jax_next_file_reads:
  assumes "holds m a (record_bytes r)" and "record_wf r" and "unat a + length (record_bytes r) \<le> unat e"
    and "rec_data r \<noteq> [] \<or> unat a + length (record_bytes r) < unat e"
  shows "jax_next_file m \<lparr>iter_start = a, iter_end = e\<rparr> file =
    (\<lparr>iter_start = a + of_nat (length (record_bytes r)), iter_end = e\<rparr>, file_at a r, True)"
proof -
  have "0 < length (rec_data r) \<or> unat a + length (record_bytes r) < unat e" using assms(4) by auto
  then have "unat a + (length (rec_name r) + length (rec_description r) + 27) < unat e"
    using assms(3) unfolding length_record_bytes by linarith
  with jax_next_file_record [OF assms(1-3), of "file"] show ?thesis by simp
qed

section \<open>Writing and reading\<close>

lemma copy_contents_some:
  assumes "copy_contents buffer_size left rest archive = Some archive'" and "left = int (length rest)" and "0 < buffer_size"
  shows "archive' = archive @ rest \<and> \<not> buffer_size dvd length rest"
  using assms
proof (induction buffer_size left rest archive rule: copy_contents.induct)
  case (1 buffer_size left rest archive)
  show ?case
  proof (cases "length rest > buffer_size")
    case True
    have step: "copy_contents buffer_size (left - int buffer_size) (drop buffer_size rest) (archive @ take buffer_size rest) = Some archive'"
      using "1.prems" True by (subst (asm) copy_contents.simps) (simp add: Let_def)
    have "archive' = (archive @ take buffer_size rest) @ drop buffer_size rest \<and> \<not> buffer_size dvd length (drop buffer_size rest)"
      using "1.prems" True step by (intro "1.IH") auto
    then show ?thesis using True by (auto simp: dvd_minus_self)
  next
    case False
    then have "rest \<noteq> []" "copy_contents buffer_size (left - int buffer_size) [] (archive @ rest) = Some archive'"
      using "1.prems" by (subst (asm) copy_contents.simps; auto simp: Let_def split: if_splits)+
    moreover from this(2) have "length rest \<noteq> buffer_size \<and> archive' = archive @ rest"
      using "1.prems" False by (subst (asm) copy_contents.simps) (auto simp: Let_def split: if_splits)
    ultimately show ?thesis using False by (auto dest: dvd_imp_le)
  qed
qed

lemma copy_contents_returns:
  assumes "\<not> buffer_size dvd length rest" and "0 < buffer_size"
  shows "copy_contents buffer_size (int (length rest)) rest archive \<noteq> None"
  using assms
proof (induction buffer_size "int (length rest)" rest archive rule: copy_contents.induct)
  case (1 buffer_size rest archive)
  show ?case
  proof (cases "buffer_size < length rest")
    case True
    then have "copy_contents buffer_size (int (length (drop buffer_size rest))) (drop buffer_size rest) (archive @ take buffer_size rest) \<noteq> None"
      using "1.prems" by (intro "1.hyps") (auto simp: dvd_minus_self)
    with True show ?thesis by (subst copy_contents.simps) (auto simp: Let_def of_nat_diff)
  next
    case False
    have "length rest \<noteq> 0" "length rest \<noteq> buffer_size" using "1.prems" by auto
    with False show ?thesis by (subst copy_contents.simps) (auto simp: Let_def copy_contents.simps)
  qed
qed

definition record_of :: "visit \<Rightarrow> jax_record" where
  "record_of v =
     \<lparr>rec_type = (case visit_kind v of FTW_F \<Rightarrow> TYPE_REGULAR | FTW_D \<Rightarrow> TYPE_DIRECTORY | FTW_SL \<Rightarrow> TYPE_LINK),
      rec_name = visit_name v, rec_description = [], rec_time = st_mtime v, rec_mode = ucast (st_mode v),
      rec_owner = ucast (st_uid v), rec_group = ucast (st_gid v),
      rec_data = (if visit_kind v = FTW_D then [] else contents v)\<rparr>"

text \<open>A file that did not change between the walk and the visit.\<close>

definition steady :: "visit \<Rightarrow> bool" where
  "steady v \<longleftrightarrow> visit_kind v = FTW_D \<or> st_size v = int (length (contents v))"

lemma nftw_visit_appends:
  assumes "nftw_visit h v archive = Some archive'" and "length (visit_name v) < 2 ^ 16" and "0 < bufsiz h" and "steady v"
  shows "archive' = archive @ record_bytes (record_of v) \<and> (visit_kind v = FTW_D \<or> contents v \<noteq> [])"
proof -
  have "unat (of_nat (length (visit_name v)) :: uint16_t) = length (visit_name v)"
    using assms(2) by (simp add: unat_of_nat)
  moreover have "u16_to_le 0 = [0, 0]" by (simp add: u16_to_le_def)
  moreover have "u16_to_le w \<noteq> []" "i64_to_le x \<noteq> []" for w x by (simp_all add: u16_to_le_def i64_to_le_def)
  ultimately show ?thesis
    using assms(1,4) unfolding nftw_visit_def record_bytes_def record_of_def steady_def
    by (cases "visit_kind v")
       (auto simp: write_link_def fwrite_item_def Let_def bind_eq_Some_conv split: if_splits
         dest!: copy_contents_some [OF _ refl assms(3)])
qed

text \<open>When a visit succeeds, for a file that did not change.\<close>

definition visitable :: "'h host_scheme \<Rightarrow> visit \<Rightarrow> bool" where
  "visitable h v \<longleftrightarrow> visit_name v \<noteq> [] \<and> length (visit_name v) < 2 ^ 16 \<and> steady v
     \<and> (case visit_kind v of FTW_F \<Rightarrow> can_open v \<and> \<not> bufsiz h dvd length (contents v)
        | FTW_SL \<Rightarrow> can_read_link v \<and> malloc_works h (length (contents v)) \<and> contents v \<noteq> []
        | FTW_D \<Rightarrow> True)"

lemma nftw_visit_succeeds:
  assumes "visitable h v" and "0 < bufsiz h"
  shows "nftw_visit h v archive = Some (archive @ record_bytes (record_of v))"
proof -
  have "unat (of_nat (length (visit_name v)) :: uint16_t) = length (visit_name v)"
    using assms(1) by (simp add: visitable_def unat_of_nat)
  moreover have "u16_to_le w \<noteq> []" "i64_to_le x \<noteq> []" for w x by (simp_all add: u16_to_le_def i64_to_le_def)
  ultimately have "nftw_visit h v archive \<noteq> None"
    using assms(1) copy_contents_returns [of "bufsiz h" "contents v"] assms(2) unfolding nftw_visit_def visitable_def steady_def
    by (cases "visit_kind v") (auto simp: write_link_def fwrite_item_def Let_def)
  then obtain archive' where "nftw_visit h v archive = Some archive'" by blast
  moreover from nftw_visit_appends [OF this _ assms(2)] have "archive' = archive @ record_bytes (record_of v)"
    using assms(1) by (simp add: visitable_def)
  ultimately show ?thesis by simp
qed

text \<open>
  What the archiver writes for a file, the reader reads: after a successful \<open>nftw_visit\<close> the next
  file found where the archive ended before has the name, kind, times, permissions, size and contents of
  the visited file, and the reader goes on where the archive ends now. Directories, which have no
  contents, only when something follows them.
\<close>

lemma jax_reads_what_was_written:
  assumes "nftw_visit h v archive = Some archive'" and "length (visit_name v) < 2 ^ 16" and "0 < bufsiz h" and "steady v"
    and "holds m base archive'" and "unat base + length archive' \<le> unat e"
    and "visit_kind v = FTW_D \<Longrightarrow> unat base + length archive' < unat e"
  shows "\<exists>f. jax_next_file m \<lparr>iter_start = base + of_nat (length archive), iter_end = e\<rparr> file =
      (\<lparr>iter_start = base + of_nat (length archive'), iter_end = e\<rparr>, f, True)
    \<and> name_length f = of_nat (length (visit_name v)) \<and> holds m (file_name f) (visit_name v)
    \<and> file_type f = rec_type (record_of v) \<and> timestamp f = st_mtime v \<and> file_mode f = ucast (st_mode v)
    \<and> owner f = ucast (st_uid v) \<and> file_group f = ucast (st_gid v)
    \<and> file_size f = of_nat (length (rec_data (record_of v))) \<and> holds m (file_data f) (rec_data (record_of v))"
proof -
  let ?r = "record_of v" and ?a = "base + of_nat (length archive)"
  from nftw_visit_appends [OF assms(1-4)] have ar: "archive' = archive @ record_bytes ?r"
    "visit_kind v = FTW_D \<or> contents v \<noteq> []" by auto
  have h: "holds m ?a (record_bytes ?r)" using assms(5) by (simp add: ar holds_append)
  have ua: "unat ?a = unat base + length archive"
    using assms(6) unat_lt_2_32 [of e] by (intro unat_plus_of_nat) (simp add: ar)
  have "jax_next_file m \<lparr>iter_start = ?a, iter_end = e\<rparr> file =
      (\<lparr>iter_start = ?a + of_nat (length (record_bytes ?r)), iter_end = e\<rparr>, file_at ?a ?r, True)"
  proof (rule jax_next_file_reads [OF h])
    show "record_wf ?r" using assms(2) by (simp add: record_wf_def record_of_def)
    show "unat ?a + length (record_bytes ?r) \<le> unat e" using assms(6) ua by (simp add: ar)
    show "rec_data ?r \<noteq> [] \<or> unat ?a + length (record_bytes ?r) < unat e"
      using assms(7) ar ua by (auto simp: record_of_def)
  qed
  moreover have "holds m (file_name (file_at ?a ?r)) (visit_name v)" "holds m (file_data (file_at ?a ?r)) (rec_data ?r)"
    using h by (simp_all add: record_bytes_def holds_append file_at_def Let_def record_of_def algebra_simps)
  ultimately show ?thesis by (auto simp: ar file_at_def Let_def record_of_def algebra_simps)
qed

text \<open>Memory that holds the given bytes from an address on.\<close>

definition memory_with :: "addr \<Rightarrow> uint8_t list \<Rightarrow> memory" where
  "memory_with base bs = (\<lambda>a. if unat (a - base) < length bs then bs ! unat (a - base) else 0)"

lemma holds_iff_nth: "holds m a xs \<longleftrightarrow> (\<forall>i < length xs. m (a + of_nat i) = xs ! i)"
proof (induction xs arbitrary: a)
  case (Cons x xs)
  have "(\<forall>i < length (x # xs). m (a + of_nat i) = (x # xs) ! i) \<longleftrightarrow> m a = x \<and> (\<forall>i < length xs. m (a + 1 + of_nat i) = xs ! i)"
    by (auto simp: less_Suc_eq_0_disj add.assoc)
  with Cons show ?case by simp
qed simp

lemma holds_memory_with: "length bs < 2 ^ 32 \<Longrightarrow> holds (memory_with base bs) base bs"
  by (simp add: holds_iff_nth memory_with_def unat_of_nat_32)

definition demo_visit :: visit where
  "demo_visit = \<lparr>visit_name = [97, 47, 98], visit_kind = FTW_F, st_mtime = 7, st_mode = 420, st_uid = 1, st_gid = 2,
     st_size = 3, can_open = True, can_read_link = False, contents = [1, 2, 3]\<rparr>"

definition demo_host :: host where
  "demo_host = \<lparr>bufsiz = 8192, malloc_works = (\<lambda>n. True), archive_seeks = True, native_i64 = i64_to_le\<rparr>"

lemma demo_visitable: "bufsiz h = 8192 \<Longrightarrow> visitable h demo_visit"
  by (auto simp: visitable_def steady_def demo_visit_def dest: dvd_imp_le)

lemma demo_visit_written: "nftw_visit demo_host demo_visit [94, 106, 97, 120] = Some ([94, 106, 97, 120] @ record_bytes (record_of demo_visit))"
  by (rule nftw_visit_succeeds) (simp_all add: demo_visitable demo_host_def)

text \<open>A link that became shorter since the walk: the size in front of its target is the new one.\<close>

lemma shorter_link_written:
  "nftw_visit demo_host (demo_visit\<lparr>visit_kind := FTW_SL, can_read_link := True, st_size := 9\<rparr>) [] =
     Some (record_bytes (record_of (demo_visit\<lparr>visit_kind := FTW_SL\<rparr>)))"
  by (simp add: nftw_visit_def write_link_def fwrite_item_def Let_def demo_visit_def demo_host_def record_of_def
      record_bytes_def u16_to_le_def i64_to_le_def)

lemma jax_reads_what_was_written_example:
  "\<exists>f. jax_next_file (memory_with 4096 ([94, 106, 97, 120] @ record_bytes (record_of demo_visit)))
       \<lparr>iter_start = 4100, iter_end = 4133\<rparr> (file_at 0 (record_of demo_visit)) = (\<lparr>iter_start = 4133, iter_end = 4133\<rparr>, f, True)
     \<and> timestamp f = 7 \<and> file_size f = 3"
proof -
  have l: "length (record_bytes (record_of demo_visit)) = 33"
    by (simp add: length_record_bytes record_of_def demo_visit_def)
  have h: "holds (memory_with 4096 ([94, 106, 97, 120] @ record_bytes (record_of demo_visit))) 4096
      ([94, 106, 97, 120] @ record_bytes (record_of demo_visit))"
    by (rule holds_memory_with) (simp add: l)
  have d: "visit_kind demo_visit = FTW_F" "length (visit_name demo_visit) = 3" "st_mtime demo_visit = 7"
    "length (rec_data (record_of demo_visit)) = 3"
    by (simp_all add: demo_visit_def record_of_def)
  have "0 < bufsiz demo_host" "steady demo_visit" by (simp_all add: demo_host_def steady_def demo_visit_def)
  from jax_reads_what_was_written [OF demo_visit_written _ this h, of 4133] show ?thesis
    by (auto simp: d l)
qed

section \<open>Searching an archive\<close>

lemma match_from_prefix:
  assumes "holds m (name + i) nm" and "holds m (to_find + i) (s @ [0])" and "0 \<notin> set s"
  shows "m (to_find + match_from m name to_find (length nm) i) = 0 \<longleftrightarrow> prefix s nm"
  using assms
proof (induction nm arbitrary: i s)
  case Nil
  then show ?case by (cases s) auto
next
  case (Cons x nm)
  show ?case
  proof (cases s)
    case Nil
    with Cons.prems show ?thesis by simp
  next
    case (Cons y s')
    with Cons.prems Cons.IH [of "i + 1" s'] show ?thesis by (simp add: add.assoc)
  qed
qed

text \<open>The first record in an archive, with its address, that satisfies a predicate.\<close>

fun first_record :: "(jax_record \<Rightarrow> bool) \<Rightarrow> addr \<Rightarrow> jax_record list \<Rightarrow> (addr \<times> jax_record) option" where
  "first_record P a [] = None"
| "first_record P a (r # rs) = (if P r then Some (a, r) else first_record P (a + of_nat (length (record_bytes r))) rs)"

definition archive_bytes :: "jax_record list \<Rightarrow> uint8_t list" where
  "archive_bytes rs = concat (map record_bytes rs)"

lemma archive_bytes_simps [simp]:
  "archive_bytes [] = []" "archive_bytes (r # rs) = record_bytes r @ archive_bytes rs"
  by (simp_all add: archive_bytes_def)

definition searched :: "uint8_t \<Rightarrow> uint8_t list \<Rightarrow> jax_record \<Rightarrow> bool" where
  "searched type s r \<longleftrightarrow> (type = 0 \<or> rec_type r = type) \<and> prefix s (rec_name r)"

text \<open>An archive in memory up to an address: the reader takes off its first record.\<close>

definition archive_at :: "memory \<Rightarrow> addr \<Rightarrow> jax_record list \<Rightarrow> addr \<Rightarrow> bool" where
  "archive_at m a rs e \<longleftrightarrow> holds m a (archive_bytes rs) \<and> list_all record_wf rs
     \<and> unat a + length (archive_bytes rs) = unat e \<and> (rs \<noteq> [] \<longrightarrow> rec_data (last rs) \<noteq> [])"

lemma archive_at_Nil: "archive_at m a [] e \<Longrightarrow> \<not> snd (snd (jax_next_file m \<lparr>iter_start = a, iter_end = e\<rparr> file))"
  by (simp add: archive_at_def word_le_nat_alt jax_next_file_def Let_def)

lemma archive_at_Cons:
  assumes "archive_at m a (r # rs) e"
  shows "jax_next_file m \<lparr>iter_start = a, iter_end = e\<rparr> file =
      (\<lparr>iter_start = a + of_nat (length (record_bytes r)), iter_end = e\<rparr>, file_at a r, True)"
    and "archive_at m (a + of_nat (length (record_bytes r))) rs e"
    and "holds m a (record_bytes r)" and "record_wf r"
    and "unat (a + of_nat (length (record_bytes r))) = unat a + length (record_bytes r)"
proof -
  let ?b = "a + of_nat (length (record_bytes r))"
  have len: "unat a + (length (record_bytes r) + length (archive_bytes rs)) = unat e"
    using assms by (simp add: archive_at_def)
  show ub: "unat ?b = unat a + length (record_bytes r)"
    using len unat_lt_2_32 [of e] by (intro unat_plus_of_nat) simp
  show h: "holds m a (record_bytes r)" and wf: "record_wf r" using assms by (simp_all add: archive_at_def holds_append)
  have "rs \<noteq> [] \<longrightarrow> 0 < length (archive_bytes rs)" by (cases rs) (simp_all add: record_bytes_def)
  then have "rec_data r \<noteq> [] \<or> unat a + length (record_bytes r) < unat e"
    using assms len unfolding archive_at_def by (cases "rs = []") (simp, linarith)
  then show "jax_next_file m \<lparr>iter_start = a, iter_end = e\<rparr> file = (\<lparr>iter_start = ?b, iter_end = e\<rparr>, file_at a r, True)"
    using len by (intro jax_next_file_reads [OF h wf]) simp_all
  show "archive_at m ?b rs e" using assms len ub by (auto simp: archive_at_def holds_append split: if_splits)
qed

text \<open>The name of the file a reader sees is the name in the record.\<close>

lemma file_at_name:
  assumes "holds m a (record_bytes r)" and "record_wf r"
  shows "holds m (file_name (file_at a r)) (rec_name r)" and "unat (name_length (file_at a r)) = length (rec_name r)"
proof -
  show "holds m (file_name (file_at a r)) (rec_name r)"
    using assms(1) by (simp add: record_bytes_def holds_append file_at_def Let_def algebra_simps)
  show "unat (name_length (file_at a r)) = length (rec_name r)"
    using assms(2) by (simp add: file_at_def Let_def record_wf_def unat_of_nat)
qed

lemma find_loop_first:
  assumes "archive_at m a rs e" and "holds m to_find (s @ [0])" and "0 \<notin> set s"
  shows "\<exists>iter. find_loop m to_find type \<lparr>iter_start = a, iter_end = e\<rparr> file =
    Some (iter, map_option (\<lambda>(a, r). (file_data (file_at a r), of_nat (length (rec_data r)))) (first_record (searched type s) a rs))"
  using assms(1)
proof (induction rs arbitrary: a "file")
  case Nil
  from archive_at_Nil [OF Nil, of "file"] show ?case by (subst find_loop.simps) (simp add: split_beta)
next
  case (Cons r rs)
  note step = archive_at_Cons [OF Cons.prems]
  note name = file_at_name [OF step(3,4)]
  have match: "m (to_find + match_from m (file_name (file_at a r)) to_find (unat (name_length (file_at a r))) 0) = 0 \<longleftrightarrow> prefix s (rec_name r)"
    using match_from_prefix [of m "file_name (file_at a r)" 0 "rec_name r" to_find s] name assms(2,3) by simp
  have ty: "file_type (file_at a r) = rec_type r" "(ucast (file_size (file_at a r)) :: size_t) = of_nat (length (rec_data r))"
    by (simp_all add: file_at_def Let_def ucast_of_nat_64_32)
  show ?case
  proof (cases "searched type s r")
    case True
    then show ?thesis by (subst find_loop.simps) (auto simp: step(1) match ty searched_def)
  next
    case False
    then have "find_loop m to_find type \<lparr>iter_start = a, iter_end = e\<rparr> file =
        find_loop m to_find type \<lparr>iter_start = a + of_nat (length (record_bytes r)), iter_end = e\<rparr> (file_at a r)"
      by (subst find_loop.simps) (auto simp: step(1) match ty searched_def)
    with False Cons.IH [OF step(2), of "file_at a r"] show ?thesis by simp
  qed
qed

text \<open>
  Searching an archive returns, and finds the first record of the wanted type whose name starts with
  the string searched for, less one leading slash: the address of its data and its size; when there
  is none, the search fails. The name only has to start with the string, not to be equal to it. For
  an archive whose last record has contents.
\<close>

lemma jax_find_first_prefix:
  assumes "archive_at m a rs e" and "holds m to_find (s @ [0])" and "0 \<notin> set s"
  shows "\<exists>iter. jax_find m \<lparr>iter_start = a, iter_end = e\<rparr> to_find type file = Some (iter,
    map_option (\<lambda>(a, r). (file_data (file_at a r), of_nat (length (rec_data r))))
      (first_record (searched type (if s \<noteq> [] \<and> hd s = 47 then tl s else s)) a rs))"
proof (cases "s \<noteq> [] \<and> hd s = 47")
  case True
  then obtain t where t: "s = 47 # t" by (cases s) auto
  then have "m to_find = 47" "holds m (to_find + 1) (t @ [0])" "0 \<notin> set t" using assms(2,3) by auto
  with find_loop_first [OF assms(1) this(2,3)] t show ?thesis by (simp add: jax_find_def)
next
  case False
  then have "m to_find \<noteq> 47" using assms(2) by (cases s) auto
  with find_loop_first [OF assms] show ?thesis unfolding if_not_P [OF False] by (simp add: jax_find_def)
qed

lemma jax_find_first_prefix_example:
  "\<exists>iter. jax_find (memory_with 4096 (record_bytes (record_of demo_visit) @ [47, 97, 0])) \<lparr>iter_start = 4096, iter_end = 4129\<rparr>
     4129 0 (file_at 0 (record_of demo_visit)) = Some (iter, Some (4126, 3))"
proof -
  let ?m = "memory_with 4096 (record_bytes (record_of demo_visit) @ [47, 97, 0])" and ?r = "record_of demo_visit"
  have l: "length (record_bytes ?r) = 33" by (simp add: length_record_bytes record_of_def demo_visit_def)
  have "holds ?m 4096 (record_bytes ?r @ [47, 97, 0])" by (rule holds_memory_with) (simp add: l)
  then have h: "holds ?m 4096 (archive_bytes [?r])" "holds ?m 4129 ([47, 97] @ [0])" by (simp_all add: holds_append l)
  have f: "first_record (searched 0 [97]) 4096 [?r] = Some (4096, ?r)"
    by (simp add: searched_def record_of_def demo_visit_def)
  have "record_wf ?r" "rec_data ?r \<noteq> []" "file_data (file_at 4096 ?r) = 4126" "length (rec_data ?r) = 3"
    by (simp_all add: record_wf_def record_of_def demo_visit_def file_at_def Let_def)
  moreover from this h(1) have "archive_at ?m 4096 [?r] 4129" by (simp add: archive_at_def l)
  ultimately show ?thesis using jax_find_first_prefix [OF _ h(2), of 4096 "[?r]" 4129 0 "file_at 0 ?r"] f by simp
qed

text \<open>
  A record without contents (a directory or an empty file) that ends exactly where the archive
  ends is not found: the reader takes it for a record that is cut off.
\<close>

lemma jax_next_file_misses_last_empty:
  assumes "holds m a (record_bytes r)" and "record_wf r" and "unat a + length (record_bytes r) = unat e" and "rec_data r = []"
  shows "\<not> snd (snd (jax_next_file m \<lparr>iter_start = a, iter_end = e\<rparr> file))"
  using jax_next_file_record [OF assms(1,2), of e "file"] assms(3,4) by (simp add: length_record_bytes split: if_splits)

end
