(* ===== verification/Syscalls.thy ===== *)
theory Syscalls
  imports Invocation
begin

unbundle bit_operations_syntax

text \<open>
  System calls as the servers in user space see them (\<open>core/include/sys/kernel.h\<close>,
  \<open>core/include/sys/arch/68000.h\<close>). A server runs on memory and on whatever the kernel keeps; it
  gets the system calls as a parameter, a record of three functions. Calls that do not block have
  one instance in this theory, the kernel of \<open>Invocation\<close>; sending and receiving messages may let
  other threads run, so what they return is up to the environment. A call that does not return is
  \<open>None\<close>, which is also what becomes of a server whose assertion fails.
\<close>

section \<open>The interface\<close>

definition NODE_COPY :: size_t where "NODE_COPY = 0"
definition NODE_MOVE :: size_t where "NODE_MOVE = 1"
definition NODE_DELETE :: size_t where "NODE_DELETE = 2"
definition UNTYPED_LOCK :: size_t where "UNTYPED_LOCK = 0"
definition UNTYPED_UNLOCK :: size_t where "UNTYPED_UNLOCK = 1"
definition UNTYPED_SIZEOF :: size_t where "UNTYPED_SIZEOF = 3"
definition ADDRESS_SPACE_ALLOC :: size_t where "ADDRESS_SPACE_ALLOC = 0"
definition THREAD_WRITE_REGISTERS :: size_t where "THREAD_WRITE_REGISTERS = 1"
definition THREAD_RESUME :: size_t where "THREAD_RESUME = 2"
definition THREAD_SET_ROOT_NODE :: size_t where "THREAD_SET_ROOT_NODE = 4"
definition INIT_NODE_DEPTH :: nat where "INIT_NODE_DEPTH = 4"

definition TYPE_UNTYPED :: uint8_t where "TYPE_UNTYPED = 0"
definition TYPE_NODE :: uint8_t where "TYPE_NODE = 1"
definition TYPE_THREAD :: uint8_t where "TYPE_THREAD = 2"
definition TYPE_ENDPOINT :: uint8_t where "TYPE_ENDPOINT = 3"

text \<open>What a system call may change: the memory, and whatever the kernel keeps.\<close>

record 'k world =
  ram :: memory
  kern :: 'k

text \<open>The argument of an invocation: a number, or a structure the caller points to.\<close>

datatype argument =
    Number size_t
  | Alloc_args alloc_args
  | Node_args node_copy_args
  | Root_args set_root_node_args
  | Register_args thread_registers size_t

type_synonym 'k invocation = "size_t \<Rightarrow> size_t \<Rightarrow> size_t \<Rightarrow> argument \<Rightarrow> 'k world \<Rightarrow> ('k world \<times> size_t) option"
type_synonym 'k transfer = "size_t \<Rightarrow> size_t \<Rightarrow> ipc_message \<Rightarrow> 'k world \<Rightarrow> ('k world \<times> size_t \<times> ipc_message) option"

record 'k os =
  sys_invoke :: "'k invocation"
  sys_send :: "'k transfer"
  sys_receive :: "'k transfer"

section \<open>The kernel as its implementation\<close>

text \<open>
  \<open>syscall_invoke\<close> on the kernel of this development. A structure the argument points to is put at
  the address \<open>frame\<close>, where the caller has its local variables.
\<close>

definition pass_argument :: "addr \<Rightarrow> argument \<Rightarrow> kstate \<Rightarrow> kstate \<times> size_t" where
  "pass_argument frame arg s =
     (case arg of
        Number n \<Rightarrow> (s, n)
      | Alloc_args x \<Rightarrow> (s\<lparr>allocation_args := (allocation_args s)(frame := x)\<rparr>, frame)
      | Node_args x \<Rightarrow> (s\<lparr>copy_args := (copy_args s)(frame := x)\<rparr>, frame)
      | Root_args x \<Rightarrow> (s\<lparr>root_node_args := (root_node_args s)(frame := x)\<rparr>, frame)
      | Register_args r n \<Rightarrow>
          (s\<lparr>register_args := (register_args s)(frame := \<lparr>rw_address = frame + 8, rw_size = n\<rparr>),
             user_bytes := (\<lambda>a. if unat (a - (frame + 8)) < sizeof_thread_registers
                                then encode_registers r ! unat (a - (frame + 8)) else user_bytes s a)\<rparr>, frame))"

definition kernel_invoke :: "addr \<Rightarrow> kstate invocation" where
  "kernel_invoke frame address depth handler_number arg w = do {
     let (s, x) = pass_argument frame arg ((kern w)\<lparr>user_bytes := ram w\<rparr>);
     (s', v) \<leftarrow> invoke_capability address depth handler_number x s;
     Some (\<lparr>ram = user_bytes s', kern = s'\<rparr>, v)
   }"

text \<open>
  The trap that \<open>syscall_invoke\<close> executes does this when no context switch is due afterwards: the
  value is in the first data register, and the registers are the caller's otherwise.
\<close>

lemma trap_is_kernel_invoke:
  assumes "kernel_invoke frame address depth n (Number x) w = Some (w', v)"
    and "regs = r\<lparr>data_registers := [SYSCALL_INVOKE, address, depth, n] @ ds, address_registers := x # as\<rparr>"
    and "\<not> pending_context_switch (kern w')"
  shows "trap_handler idle regs ((kern w)\<lparr>user_bytes := ram w\<rparr>) =
    Some (kern w', regs\<lparr>data_registers := [v, address, depth, n] @ ds\<rparr>)"
  using assms
  by (auto simp: kernel_invoke_def pass_argument_def trap_handler_def SYSCALL_INVOKE_def SYSCALL_YIELD_def
      try_context_switch_def split: Option.bind_splits)

section \<open>Untyped memory\<close>

text \<open>
  What a server relies on when it keeps data in untyped memory: as long as the world is good,
  locking the slot gives the address of the memory, unlocking it succeeds, neither touches any
  memory, and the world stays good, also when the server writes to memory.
\<close>

locale untyped_slot =
  fixes sys :: "'k invocation" and good :: "'k world \<Rightarrow> bool" and slot :: size_t and pointer :: addr
  assumes pointer: "good w \<Longrightarrow> pointer \<noteq> NULL"
    and lock: "good w \<Longrightarrow> \<exists>w'. sys slot SIZE_MAX UNTYPED_LOCK (Number 0) w = Some (w', pointer) \<and> ram w' = ram w \<and> good w'"
    and unlock: "good w \<Longrightarrow> \<exists>w'. sys slot SIZE_MAX UNTYPED_UNLOCK (Number 0) w = Some (w', 0) \<and> ram w' = ram w \<and> good w'"
    and keep: "good w \<Longrightarrow> good (w\<lparr>ram := m\<rparr>)"
begin

text \<open>A server function that locks the slot, works on the memory and unlocks it.\<close>

lemma locked_work:
  assumes "good w"
  shows "\<exists>w'. (do { (w1, p) \<leftarrow> sys slot SIZE_MAX UNTYPED_LOCK (Number 0) w;
                   (w3, v) \<leftarrow> sys slot SIZE_MAX UNTYPED_UNLOCK (Number 0) (w1\<lparr>ram := f p (ram w1)\<rparr>);
                   Some (w3, p, v) }) = Some (w', pointer, 0)
    \<and> ram w' = f pointer (ram w) \<and> good w'"
proof -
  from lock [OF assms] obtain w1 where w1: "sys slot SIZE_MAX UNTYPED_LOCK (Number 0) w = Some (w1, pointer)"
    "ram w1 = ram w" "good w1" by blast
  from unlock [OF keep [OF w1(3), of "f pointer (ram w)"]] w1 show ?thesis by auto
qed

end

section \<open>Untyped memory of the kernel\<close>

text \<open>
  With a depth of \<open>SIZE_MAX\<close> a lookup goes on to the first slot that holds no node. The address may
  have more bits than the path to that slot.
\<close>

lemma look_up_loop_first:
  assumes "valid_path s node is" and "path_depth s node is \<le> 32"
    and "cap_handlers (caps s (path_slot s node is)) \<noteq> Node_handlers"
    and "take_bit (path_depth s node is) address = path_address s node is"
    and "path_depth s node is + 32 < unat depth"
  shows "\<exists>s' b'. look_up_loop True address depth actual node b s =
     Some (s', Some \<lparr>lr_slot = path_slot s node is, lr_depth = actual + of_nat (path_depth s node is),
        lr_container = path_container s node is, lr_should_unlock = b'\<rparr>)"
  using assms
proof (induction "is" arbitrary: node actual b s address depth)
  case (Cons i "is")
  define bits where "bits = slot_bits (nodes s node)"
  define slot where "slot = slot_address node i"
  define n where "n = cap_resource (caps s slot)"
  define d where "d = path_depth s n is"
  have i: "take_bit (unat bits) i = i" using Cons.prems by (intro take_bit_small) (simp add: bits_def)
  have dd: "path_depth s node (i # is) = unat bits + d" by (simp add: d_def bits_def n_def slot_def)
  have b32: "unat bits \<le> 32" using Cons.prems(2) by (simp add: bits_def)
  have "take_bit (unat bits) (take_bit (unat bits + d) address) = take_bit (unat bits) (path_address s node (i # is))"
    using Cons.prems(4) by (simp only: dd)
  then have "take_bit (unat bits) address = i"
    using i by (simp add: take_bit_or take_bit_push_bit bits_def [symmetric] push_bit_take_bit min_def)
  then have idx: "address AND (num_slots (nodes s node) - 1) = i"
    using b32 by (simp add: num_slots_push_bit bits_def take_bit_eq_mask mask_eq_exp_minus_1 push_bit_eq_mult)
  have word_bits: "bits_of_node (nodes s node) = of_nat (unat bits)" by (simp add: bits_of_node_def bits_def)
  have ub: "unat (of_nat (unat bits) :: size_t) = unat bits" using b32 by (intro unat_of_nat_32) simp
  show ?case
  proof (cases "is = []")
    case True
    then show ?thesis using idx word_bits Cons.prems(3) by (subst look_up_loop.simps) (simp add: Let_def bits_def)
  next
    case False
    have vp: "valid_path s n is" and node: "cap_handlers (caps s slot) = Node_handlers"
      using Cons.prems(1) False by (simp_all add: n_def slot_def)
    obtain s1 b1 where lk: "heap_lock n s = (s1, b1)" by fastforce
    then have s1: "caps s1 = caps s" "nodes s1 = nodes s" by (auto simp: heap_lock_alt split: if_splits)
    let ?s2 = "unlock_if b node s1"
    have s2: "caps ?s2 = caps s" "nodes ?s2 = nodes s" using s1 by (simp_all add: unlock_if_def)
    note fr = path_frame [OF s2]
    have far: "unat bits + d + 32 < unat depth" using Cons.prems(5) dd by simp
    have le: "of_nat (unat bits) \<le> depth" using far ub by (simp add: word_le_nat_alt)
    then have ud: "unat (depth - of_nat (unat bits)) = unat depth - unat bits"
      using ub by (simp add: unat_minus_no_wrap)
    have ne: "depth \<noteq> of_nat (unat bits)" "\<not> depth < of_nat (unat bits)" using far ub le by auto
    have rest: "take_bit d (shr address (bits_of_node (nodes s node))) = path_address s n is"
    proof -
      have "take_bit d (drop_bit (unat bits) address) = drop_bit (unat bits) (take_bit (unat bits + d) address)"
        by (simp add: take_bit_drop_bit add.commute)
      also have "\<dots> = drop_bit (unat bits) (path_address s node (i # is))" using Cons.prems(4) dd by simp
      also have "\<dots> = path_address s n is"
        using drop_bit_or_push_bit [OF i path_address_bits [OF vp]] Cons.prems(2) dd
        by (simp add: bits_def n_def slot_def d_def)
      finally show ?thesis using b32 by (simp add: shr_def bits_of_node_def bits_def)
    qed
    have leaf: "cap_handlers (caps s (path_slot s n is)) \<noteq> Node_handlers"
      using Cons.prems(3) False by (simp add: n_def slot_def)
    have "\<exists>s' b'. look_up_loop True (shr address (bits_of_node (nodes s node))) (depth - of_nat (unat bits))
        (actual + of_nat (unat bits)) n b1 ?s2 =
      Some (s', Some \<lparr>lr_slot = path_slot s n is, lr_depth = actual + of_nat (unat bits) + of_nat d,
        lr_container = path_container s n is, lr_should_unlock = b'\<rparr>)"
      using Cons.IH [of ?s2 n "shr address (bits_of_node (nodes s node))" "depth - of_nat (unat bits)" "actual + of_nat (unat bits)" b1]
        vp leaf rest far ud Cons.prems(2) dd
      by (simp add: fr s2 d_def)
    then show ?thesis using False node ne idx lk s1 dd
      by (subst look_up_loop.simps)
        (auto simp: Let_def word_bits slot_def [symmetric] n_def [symmetric] add.assoc)
  qed
qed simp

lemma look_up_first_non_node:
  assumes "t = current_thread s" and "t \<noteq> NULL" and "cap_handlers (caps s t) = Node_handlers"
    and "n = cap_resource (caps s t)" and "valid_path s n path" and "path_depth s n path \<le> 32"
    and "take_bit (path_depth s n path) address = path_address s n path"
    and "cap_handlers (caps s (path_slot s n path)) \<noteq> Node_handlers"
  shows "\<exists>r. look_up_capability_relative address SIZE_MAX s =
      Some (holds_lock s (lr_container r) (lr_should_unlock r), Some r)
    \<and> lr_slot r = path_slot s n path \<and> lr_container r = path_container s n path
    \<and> unlock_looked_up_capability r (holds_lock s (lr_container r) (lr_should_unlock r)) = s"
proof -
  obtain s1 b where lk: "heap_lock t s = (s1, b)" by fastforce
  then have s1: "caps s1 = caps s" "nodes s1 = nodes s" "current_thread s1 = t"
    using assms(1) by (auto simp: heap_lock_alt split: if_splits)
  obtain s2 b2 where lk2: "heap_lock n s1 = (s2, b2)" by fastforce
  then have s2: "caps s2 = caps s" "nodes s2 = nodes s"
    using s1 by (auto simp: heap_lock_alt split: if_splits)
  note fr = path_frame [OF s2]
  have "unat SIZE_MAX = 2 ^ 32 - 1" by (simp add: SIZE_MAX_def unsigned_minus_1_eq_mask mask_eq_exp_minus_1)
  then have "path_depth s2 n path + 32 < unat SIZE_MAX" using assms(6) by (simp add: fr)
  with look_up_loop_first [of s2 n path address SIZE_MAX 0 b2] assms(5-8) obtain s3 r where
    "look_up_loop True address SIZE_MAX 0 n b2 s2 = Some (s3, Some r)" "lr_slot r = path_slot s n path"
    "lr_container r = path_container s n path" by (fastforce simp: fr s2)
  then have l: "look_up_capability_relative address SIZE_MAX s = Some (unlock_if b (current_thread s3) s3, Some r)"
    using assms(1-4) lk lk2 s1 s2 by (simp add: look_up_capability_relative_def look_up_capability_def Let_def)
  from look_up_capability_relative_leaves [OF l] l \<open>lr_slot r = _\<close> \<open>lr_container r = _\<close> show ?thesis
    by (auto simp: lookup_leaves_def unlock_looked_up_capability_def unlock_holds_lock)
qed

text \<open>The running thread finds untyped memory at \<open>p\<close> under the address, at the end of the path.\<close>

definition untyped_at :: "size_t list \<Rightarrow> size_t \<Rightarrow> addr \<Rightarrow> kstate world \<Rightarrow> bool" where
  "untyped_at path address p w \<longleftrightarrow>
     (let s = kern w; t = current_thread s; n = cap_resource (caps s t); c = caps s (path_slot s n path) in
      t \<noteq> NULL \<and> cap_handlers (caps s t) = Node_handlers \<and> valid_path s n path \<and> path_depth s n path \<le> 32
      \<and> take_bit (path_depth s n path) address = path_address s n path
      \<and> cap_handlers c = Untyped_handlers \<and> cap_resource c = p \<and> p \<noteq> NULL)"

lemma untyped_at_cong:
  assumes "untyped_at path address p w" and "caps (kern w') = caps (kern w)" and "nodes (kern w') = nodes (kern w)"
    and "current_thread (kern w') = current_thread (kern w)"
  shows "untyped_at path address p w'"
  using assms(1) unfolding untyped_at_def Let_def assms(2-4) path_frame [OF assms(2,3)] .

text \<open>Locks change headers and nothing else.\<close>

definition same_but_headers :: "kstate \<Rightarrow> kstate \<Rightarrow> bool" where
  "same_but_headers s s' \<longleftrightarrow> (\<exists>h. s' = s\<lparr>hdrs := h\<rparr> \<and> (\<forall>a. hh_size (h a) = hh_size (hdrs s a)))"

lemma same_but_headers_upd: "\<forall>x. hh_size (f x) = hh_size x \<Longrightarrow> same_but_headers s (upd_hdr h f s)"
  by (auto simp: same_but_headers_def upd_hdr_def intro!: exI [of _ "(hdrs s)(h := f (hdrs s h))"])

lemma same_but_headers_trans: "same_but_headers s t \<Longrightarrow> same_but_headers t u \<Longrightarrow> same_but_headers s u"
  by (auto simp: same_but_headers_def)

lemma same_but_headers_refl: "same_but_headers s s"
  by (auto simp: same_but_headers_def intro!: exI [of _ "hdrs s"])

lemma same_but_headers_locks [intro]:
  "same_but_headers s (fst (heap_lock p s))" "same_but_headers s (heap_unlock p s)"
  "same_but_headers s (unlock_if b p s)" "same_but_headers s (holds_lock s p b)"
  by (auto simp: heap_lock_def heap_unlock_def unlock_if_def holds_lock_def lock_hdr_def Let_def SET_KIND_def
      intro!: same_but_headers_upd same_but_headers_refl)

lemma same_but_headersD:
  assumes "same_but_headers s s'"
  shows "caps s' = caps s" "nodes s' = nodes s" "current_thread s' = current_thread s" "user_bytes s' = user_bytes s"
    "heap_sizeof p s' = heap_sizeof p s"
  using assms by (auto simp: same_but_headers_def heap_sizeof_def)

lemma kernel_untyped_call:
  assumes "untyped_at path address p w" and "n = UNTYPED_LOCK \<or> n = UNTYPED_UNLOCK \<or> n = UNTYPED_SIZEOF"
  shows "\<exists>s'. kernel_invoke frame address SIZE_MAX n (Number x) w = Some (\<lparr>ram = ram w, kern = s'\<rparr>,
      if n = UNTYPED_LOCK then p else if n = UNTYPED_UNLOCK then 0 else heap_sizeof p (kern w))
    \<and> same_but_headers ((kern w)\<lparr>user_bytes := ram w\<rparr>) s'"
proof -
  define s where "s = (kern w)\<lparr>user_bytes := ram w\<rparr>"
  let ?t = "current_thread s" and ?n = "cap_resource (caps s (current_thread s))"
  have "untyped_at path address p \<lparr>ram = ram w, kern = s\<rparr>"
    by (rule untyped_at_cong [OF assms(1)]) (simp_all add: s_def)
  then have u: "?t \<noteq> NULL" "cap_handlers (caps s ?t) = Node_handlers" "valid_path s ?n path" "path_depth s ?n path \<le> 32"
    "take_bit (path_depth s ?n path) address = path_address s ?n path"
    "cap_handlers (caps s (path_slot s ?n path)) = Untyped_handlers" "cap_resource (caps s (path_slot s ?n path)) = p"
    by (simp_all add: untyped_at_def Let_def)
  then have "cap_handlers (caps s (path_slot s ?n path)) \<noteq> Node_handlers" by simp
  from look_up_first_non_node [OF refl u(1,2) refl u(3-5) this] obtain r where
    r: "look_up_capability_relative address SIZE_MAX s = Some (holds_lock s (lr_container r) (lr_should_unlock r), Some r)"
    "lr_slot r = path_slot s ?n path" by blast
  define s1 where "s1 = holds_lock s (lr_container r) (lr_should_unlock r)"
  have s1: "same_but_headers s s1" by (auto simp: s1_def)
  note d = same_but_headersD [OF s1]
  define s2 where "s2 = (if n = UNTYPED_LOCK then fst (heap_lock p s1) else if n = UNTYPED_UNLOCK then heap_unlock p s1 else s1)"
  have slot: "cap_resource (caps s1 (lr_slot r)) = p" using u(7) d(1) r(2) by simp
  have size: "heap_sizeof p s1 = heap_sizeof p (kern w)" using d(5) [of p] by (simp add: s_def heap_sizeof_def)
  have s2: "call_handler Untyped_handlers n address SIZE_MAX (lr_slot r) x s1 =
      Some (s2, if n = UNTYPED_LOCK then p else if n = UNTYPED_UNLOCK then 0 else heap_sizeof p (kern w))"
    using assms(2) size by (auto simp: call_handler_def UNTYPED_LOCK_def UNTYPED_UNLOCK_def UNTYPED_SIZEOF_def untyped_lock_def
        untyped_unlock_def untyped_sizeof_def slot s2_def)
  have "same_but_headers s1 s2" by (auto simp: s2_def intro: same_but_headers_refl)
  define s3 where "s3 = unlock_looked_up_capability r s2"
  have s3: "same_but_headers s s3"
    unfolding s3_def unlock_looked_up_capability_def
    by (rule same_but_headers_trans [OF same_but_headers_trans [OF s1 \<open>same_but_headers s1 s2\<close>] same_but_headers_locks(3)])
  have nh: "\<not> num_handlers Untyped_handlers \<le> n"
    using assms(2) by (auto simp: num_handlers_def word_le_nat_alt UNTYPED_LOCK_def UNTYPED_UNLOCK_def UNTYPED_SIZEOF_def)
  have "invoke_capability address SIZE_MAX n x s =
      Some (s3, if n = UNTYPED_LOCK then p else if n = UNTYPED_UNLOCK then 0 else heap_sizeof p (kern w))"
    using r u(6) d s2 nh by (simp add: invoke_capability_def s1_def [symmetric] s3_def)
  then show ?thesis using same_but_headersD(4) [OF s3] s3
    by (auto simp: kernel_invoke_def pass_argument_def s_def)
qed

lemma untyped_at_same:
  "untyped_at path address p w \<Longrightarrow> same_but_headers ((kern w)\<lparr>user_bytes := m\<rparr>) s' \<Longrightarrow> untyped_at path address p \<lparr>ram = m', kern = s'\<rparr>"
  by (erule untyped_at_cong) (auto simp: same_but_headers_def)

interpretation kernel_slot: untyped_slot "kernel_invoke frame" "untyped_at path address p" address p
  for frame path address p
proof
  fix w assume u: "untyped_at path address p w"
  then show "p \<noteq> NULL" by (simp add: untyped_at_def Let_def)
  from kernel_untyped_call [OF u, of UNTYPED_LOCK] untyped_at_same [OF u]
  show "\<exists>w'. kernel_invoke frame address SIZE_MAX UNTYPED_LOCK (Number 0) w = Some (w', p) \<and> ram w' = ram w \<and> untyped_at path address p w'"
    by fastforce
  from kernel_untyped_call [OF u, of UNTYPED_UNLOCK] untyped_at_same [OF u]
  show "\<exists>w'. kernel_invoke frame address SIZE_MAX UNTYPED_UNLOCK (Number 0) w = Some (w', 0) \<and> ram w' = ram w \<and> untyped_at path address p w'"
    by (fastforce simp: UNTYPED_LOCK_def UNTYPED_UNLOCK_def)
  show "untyped_at path address p (w\<lparr>ram := m\<rparr>)" for m by (rule untyped_at_cong [OF u]) simp_all
qed

end
