(* ===== verification/Vfs_Client.thy ===== *)
theory Vfs_Client
  imports Syscalls
begin

unbundle bit_operations_syntax

text \<open>
  The client side of the file system protocol, \<open>core/include/sys/vfs.h\<close>: the numbers of the calls,
  where a message has its arguments, and the functions that send a request and wait for the reply.
  A server may be anything: what comes back is up to the system calls, which are a parameter.
\<close>

section \<open>Constants\<close>

definition FD_READ :: uint8_t where "FD_READ = 0"
definition FD_READ_FAST :: uint8_t where "FD_READ_FAST = 1"
definition FD_WRITE :: uint8_t where "FD_WRITE = 2"
definition FD_WRITE_FAST :: uint8_t where "FD_WRITE_FAST = 3"
definition FD_STAT :: uint8_t where "FD_STAT = 4"
definition FD_OPEN :: uint8_t where "FD_OPEN = 5"
definition FD_LINK :: uint8_t where "FD_LINK = 6"
definition FD_UNLINK :: uint8_t where "FD_UNLINK = 7"
definition FD_TRUNCATE :: uint8_t where "FD_TRUNCATE = 8"
definition FD_MOUNT :: uint8_t where "FD_MOUNT = 9"
definition FD_UNMOUNT :: uint8_t where "FD_UNMOUNT = 10"

definition VFS_NEW_PROCESS :: uint8_t where "VFS_NEW_PROCESS = 255"
definition VFS_SHARE_NAMESPACE :: uint8_t where "VFS_SHARE_NAMESPACE = 1"
definition VFS_READ_ONLY_NAMESPACE :: uint8_t where "VFS_READ_ONLY_NAMESPACE = 2"
definition MOUNT_CREATE :: uint8_t where "MOUNT_CREATE = 8"
definition MODE_WRITE :: uint8_t where "MODE_WRITE = 4"
definition MODE_APPEND :: uint8_t where "MODE_APPEND = 8"
definition OPEN_CREATE :: uint8_t where "OPEN_CREATE = 1"
definition OPEN_EXCLUSIVE :: uint8_t where "OPEN_EXCLUSIVE = 2"

definition FD_READ_FAST_MAX_SIZE :: size_t where "FD_READ_FAST_MAX_SIZE = of_nat IPC_BUFFER_SIZE - 4 * 2"
definition FD_WRITE_FAST_MAX_SIZE :: size_t where "FD_WRITE_FAST_MAX_SIZE = of_nat IPC_BUFFER_SIZE - 4 * 2"
definition sizeof_vfs_directory_entry :: size_t where "sizeof_vfs_directory_entry = 10"
definition sizeof_stat :: nat where "sizeof_stat = 54"

lemmas fd_calls = FD_READ_def FD_READ_FAST_def FD_WRITE_def FD_WRITE_FAST_def FD_STAT_def FD_OPEN_def
  FD_LINK_def FD_UNLINK_def FD_TRUNCATE_def FD_MOUNT_def FD_UNMOUNT_def

abbreviation FD_CALL_NUMBER :: "ipc_message \<Rightarrow> uint8_t" where
  "FD_CALL_NUMBER x \<equiv> msg_buffer x ! 0"

abbreviation FD_RETURN_VALUE :: "ipc_message \<Rightarrow> size_t" where
  "FD_RETURN_VALUE x \<equiv> word_at 0 (msg_buffer x)"

section \<open>Messages\<close>

text \<open>A message as an initializer gives it: what is not named is zero.\<close>

definition new_message :: "uint8_t list \<Rightarrow> (size_t \<times> size_t) list \<Rightarrow> uint8_t \<Rightarrow> ipc_message" where
  "new_message bs capabilities to_copy =
     \<lparr>msg_buffer = bs @ replicate (IPC_BUFFER_SIZE - length bs) 0,
      msg_capabilities = capabilities @ replicate (IPC_CAPABILITY_SLOTS - length capabilities) (0, 0),
      msg_to_copy = to_copy, msg_transferred = 0, msg_badge = 0\<rparr>"

definition put_bytes :: "nat \<Rightarrow> uint8_t list \<Rightarrow> ipc_message \<Rightarrow> ipc_message" where
  "put_bytes i bs x = x\<lparr>msg_buffer := take i (msg_buffer x) @ bs @ drop (i + length bs) (msg_buffer x)\<rparr>"

definition put_word :: "nat \<Rightarrow> size_t \<Rightarrow> ipc_message \<Rightarrow> ipc_message" where
  "put_word i v x = put_bytes i (word_bytes v) x"

section \<open>Calls\<close>

text \<open>Returns the result and both messages as the system calls left them.\<close>

definition vfs_call ::
    "'k os \<Rightarrow> size_t \<Rightarrow> size_t \<Rightarrow> ipc_message \<Rightarrow> ipc_message \<Rightarrow> 'k world
      \<Rightarrow> ('k world \<times> size_t \<times> ipc_message \<times> ipc_message) option" where
  "vfs_call os endpoint reply_endpoint to_send to_receive w = do {
     (w1, result, sent) \<leftarrow> sys_send os endpoint SIZE_MAX to_send w;
     (if result \<noteq> 0 then Some (w1, result, sent, to_receive)
      else do {
        (w2, result, got) \<leftarrow> sys_receive os reply_endpoint SIZE_MAX to_receive w1;
        (if result \<noteq> 0 then Some (w2, result, sent, got) else Some (w2, FD_RETURN_VALUE got, sent, got))
      })
   }"

definition fd_read ::
    "'k os \<Rightarrow> size_t \<Rightarrow> size_t \<Rightarrow> size_t \<Rightarrow> size_t \<Rightarrow> size_t \<Rightarrow> 'k world \<Rightarrow> ('k world \<times> size_t \<times> size_t) option" where
  "fd_read os fd_address reply_endpoint read_buffer sz position w = do {
     let to_send = put_word 8 position (put_word 4 sz
           (new_message [FD_READ] [(reply_endpoint, SIZE_MAX), (read_buffer, SIZE_MAX)] 3));
     (w1, result, _, got) \<leftarrow> vfs_call os fd_address reply_endpoint to_send (new_message [] [] 0) w;
     Some (w1, result, word_at 4 (msg_buffer got))
   }"

text \<open>The caller's counter of bytes read stays as it was when the call fails.\<close>

definition fd_read_fast ::
    "'k os \<Rightarrow> size_t \<Rightarrow> size_t \<Rightarrow> addr \<Rightarrow> size_t \<Rightarrow> size_t \<Rightarrow> size_t \<Rightarrow> 'k world \<Rightarrow> ('k world \<times> size_t \<times> size_t) option" where
  "fd_read_fast os fd_address reply_endpoint read_buffer sz position bytes_read w =
     (if sz > FD_READ_FAST_MAX_SIZE then Some (w, EINVAL, bytes_read)
      else do {
        let to_send = put_word 4 position (new_message [FD_READ_FAST, ucast sz] [(reply_endpoint, SIZE_MAX)] 1);
        (w1, result, _, got) \<leftarrow> vfs_call os fd_address reply_endpoint to_send (new_message [] [] 0) w;
        (if result \<noteq> 0 then Some (w1, result, bytes_read)
         else
           let n = word_at 4 (msg_buffer got) in
           Some (w1\<lparr>ram := store_bytes read_buffer (take (unat (if sz > n then n else sz)) (drop 8 (msg_buffer got))) (ram w1)\<rparr>, 0, n))
      })"

definition fd_write ::
    "'k os \<Rightarrow> size_t \<Rightarrow> size_t \<Rightarrow> size_t \<Rightarrow> size_t \<Rightarrow> size_t \<Rightarrow> 'k world \<Rightarrow> ('k world \<times> size_t \<times> size_t) option" where
  "fd_write os fd_address reply_endpoint write_buffer sz position w = do {
     let to_send = put_word 8 position (put_word 4 sz
           (new_message [FD_WRITE] [(reply_endpoint, SIZE_MAX), (write_buffer, SIZE_MAX)] 1));
     (w1, result, _, got) \<leftarrow> vfs_call os fd_address reply_endpoint to_send (new_message [] [] 0) w;
     Some (w1, result, word_at 4 (msg_buffer got))
   }"

text \<open>The counter of bytes written is taken from the empty message, before the call.\<close>

definition fd_write_fast ::
    "'k os \<Rightarrow> size_t \<Rightarrow> size_t \<Rightarrow> addr \<Rightarrow> size_t \<Rightarrow> size_t \<Rightarrow> size_t \<Rightarrow> 'k world \<Rightarrow> ('k world \<times> size_t \<times> size_t) option" where
  "fd_write_fast os fd_address reply_endpoint write_buffer sz position bytes_written w =
     (if sz > FD_WRITE_FAST_MAX_SIZE then Some (w, EINVAL, bytes_written)
      else do {
        let to_send = put_word 4 position (new_message [FD_WRITE_FAST, ucast sz] [(reply_endpoint, SIZE_MAX)] 1);
        let to_send = put_bytes 8 (map (\<lambda>i. ram w (write_buffer + of_nat i)) [0..<unat sz]) to_send;
        let to_receive = new_message [] [] 0;
        (w1, result, _, _) \<leftarrow> vfs_call os fd_address reply_endpoint to_send to_receive w;
        Some (w1, result, word_at 4 (msg_buffer to_receive))
      })"

text \<open>The bytes of the structure are returned; on failure the caller's stay.\<close>

definition fd_stat ::
    "'k os \<Rightarrow> size_t \<Rightarrow> size_t \<Rightarrow> uint8_t list \<Rightarrow> 'k world \<Rightarrow> ('k world \<times> size_t \<times> uint8_t list) option" where
  "fd_stat os fd_address reply_endpoint stat_buffer w = do {
     (w1, result, _, got) \<leftarrow> vfs_call os fd_address reply_endpoint
        (new_message [FD_STAT] [(reply_endpoint, SIZE_MAX)] 1) (new_message [] [] 0) w;
     Some (w1, result, if result = 0 then take sizeof_stat (drop 4 (msg_buffer got)) else stat_buffer)
   }"

definition fd_open ::
    "'k os \<Rightarrow> size_t \<Rightarrow> size_t \<Rightarrow> size_t \<Rightarrow> size_t \<Rightarrow> uint8_t \<Rightarrow> uint8_t \<Rightarrow> 'k world \<Rightarrow> ('k world \<times> size_t) option" where
  "fd_open os fd_address reply_endpoint name_address fd_slot flags mode w = do {
     (w1, result, _, _) \<leftarrow> vfs_call os fd_address reply_endpoint
        (new_message [FD_OPEN, flags, mode] [(reply_endpoint, SIZE_MAX), (name_address, SIZE_MAX)] 1)
        (new_message [] [(fd_slot, SIZE_MAX)] 0) w;
     Some (w1, result)
   }"

definition fd_link ::
    "'k os \<Rightarrow> size_t \<Rightarrow> size_t \<Rightarrow> size_t \<Rightarrow> size_t \<Rightarrow> 'k world \<Rightarrow> ('k world \<times> size_t) option" where
  "fd_link os fd_address reply_endpoint fd_to_link name_address w = do {
     (w1, result, _, _) \<leftarrow> vfs_call os fd_address reply_endpoint
        (new_message [FD_LINK] [(reply_endpoint, SIZE_MAX), (fd_to_link, SIZE_MAX), (name_address, SIZE_MAX)] 1)
        (new_message [] [] 0) w;
     Some (w1, result)
   }"

definition fd_unlink :: "'k os \<Rightarrow> size_t \<Rightarrow> size_t \<Rightarrow> size_t \<Rightarrow> 'k world \<Rightarrow> ('k world \<times> size_t) option" where
  "fd_unlink os fd_address reply_endpoint name_address w = do {
     (w1, result, _, _) \<leftarrow> vfs_call os fd_address reply_endpoint
        (new_message [FD_UNLINK] [(reply_endpoint, SIZE_MAX), (name_address, SIZE_MAX)] 1) (new_message [] [] 0) w;
     Some (w1, result)
   }"

definition fd_truncate :: "'k os \<Rightarrow> size_t \<Rightarrow> size_t \<Rightarrow> size_t \<Rightarrow> 'k world \<Rightarrow> ('k world \<times> size_t) option" where
  "fd_truncate os fd_address reply_endpoint sz w = do {
     (w1, result, _, _) \<leftarrow> vfs_call os fd_address reply_endpoint
        (put_word 4 sz (new_message [FD_TRUNCATE] [(reply_endpoint, SIZE_MAX)] 1)) (new_message [] [] 0) w;
     Some (w1, result)
   }"

definition fd_mount :: "'k os \<Rightarrow> size_t \<Rightarrow> size_t \<Rightarrow> size_t \<Rightarrow> uint8_t \<Rightarrow> 'k world \<Rightarrow> ('k world \<times> size_t) option" where
  "fd_mount os fd_address reply_endpoint directory_fd flags w = do {
     (w1, result, _, _) \<leftarrow> vfs_call os fd_address reply_endpoint
        (new_message [FD_MOUNT, flags] [(reply_endpoint, SIZE_MAX), (directory_fd, SIZE_MAX)] 1) (new_message [] [] 0) w;
     Some (w1, result)
   }"

definition fd_unmount :: "'k os \<Rightarrow> size_t \<Rightarrow> size_t \<Rightarrow> size_t \<Rightarrow> 'k world \<Rightarrow> ('k world \<times> size_t) option" where
  "fd_unmount os fd_address reply_endpoint to_unmount w = do {
     (w1, result, _, _) \<leftarrow> vfs_call os fd_address reply_endpoint
        (new_message [FD_UNMOUNT] [(reply_endpoint, SIZE_MAX), (to_unmount, SIZE_MAX)] 1) (new_message [] [] 0) w;
     Some (w1, result)
   }"

end
