(* ===== verification/Initrd_Fs.thy ===== *)
theory Initrd_Fs
  imports Jax Vfs_Client "HOL-Library.Signed_Division"
begin

unbundle bit_operations_syntax

text \<open>
  The initrd file system server, \<open>core/initrd_fs/main.c\<close>: it answers calls on file descriptors whose
  badge is the address of a record in a Jax archive, or 0 for the root directory. System calls are
  parameters: \<open>invoke\<close> is \<open>syscall_invoke\<close> and \<open>copy_capability_to\<close> is \<open>syscall_invoke\<close> with
  \<open>NODE_COPY\<close>, whose arguments are a structure. The buffer of the reply is memory at the address
  \<open>reply\<close>. A value of \<open>None\<close> is a walk over the archive that never ends. A structure that C leaves
  uninitialized is the parameter \<open>junk\<close>.
\<close>

section \<open>Walking over the archive\<close>

record fs_state =
  initrd_start :: addr
  initrd_end :: addr
  iterator :: jax_iterator
  fs_endpoint :: "size_t \<times> size_t"
  fs_node :: "size_t \<times> size_t"

definition next_file :: "memory \<Rightarrow> addr \<Rightarrow> addr \<Rightarrow> jax_file \<Rightarrow> addr \<times> jax_file" where
  "next_file m address stop file =
     (case jax_next_file m \<lparr>iter_start = address, iter_end = stop\<rparr> file of
        (iter, file', ok) \<Rightarrow> (if ok then iter_start iter else NULL, file'))"

text \<open>The position of the first slash in a name from \<open>i\<close> on, and how far two names agree.\<close>

fun skip_to_slash :: "memory \<Rightarrow> addr \<Rightarrow> nat \<Rightarrow> nat \<Rightarrow> nat" where
  "skip_to_slash m name 0 i = i"
| "skip_to_slash m name (Suc n) i = (if m (name + of_nat i) \<noteq> 47 then skip_to_slash m name n (i + 1) else i)"

fun agree_upto :: "memory \<Rightarrow> addr \<Rightarrow> addr \<Rightarrow> nat \<Rightarrow> nat \<Rightarrow> nat" where
  "agree_upto m a b 0 i = i"
| "agree_upto m a b (Suc n) i = (if m (a + of_nat i) = m (b + of_nat i) then agree_upto m a b n (i + 1) else i)"

definition in_directory :: "memory \<Rightarrow> jax_file \<Rightarrow> jax_file \<Rightarrow> bool" where
  "in_directory m dir_file file =
     (let dlen = unat (name_length dir_file); len = unat (name_length file);
          dname = file_name dir_file; name = file_name file in
      if dlen = 0 then
        let i = skip_to_slash m name len 0 in \<not> (i < len \<and> m (name + of_nat i) = 47)
      else if len < dlen + 1 then False
      else
        let i = agree_upto m dname name dlen 0 in
        if (i < dlen \<and> m (dname + of_nat i) \<noteq> m (name + of_nat i)) \<or> m (name + of_nat dlen) \<noteq> 47 then False
        else
          let j = skip_to_slash m name (len - (dlen + 1)) (dlen + 1) in \<not> (j < len \<and> m (name + of_nat j) = 47))"

partial_function (option) dir_loop ::
    "memory \<Rightarrow> jax_file \<Rightarrow> addr \<Rightarrow> addr \<Rightarrow> jax_file \<Rightarrow> (addr \<times> jax_file \<times> addr option) option" where
  "dir_loop m dir_file stop address file =
     (case next_file m address stop file of (next_address, file') \<Rightarrow>
        if next_address = NULL then Some (NULL, file', None)
        else if in_directory m dir_file file' then Some (next_address, file', Some address)
        else dir_loop m dir_file stop next_address file')"

definition next_file_in_dir ::
    "memory \<Rightarrow> jax_file \<Rightarrow> addr \<Rightarrow> addr \<Rightarrow> addr \<Rightarrow> jax_file \<Rightarrow> (addr \<times> jax_file \<times> addr option) option" where
  "next_file_in_dir m dir_file address start stop file =
     (if address < start then Some (NULL, file, None) else dir_loop m dir_file stop address file)"

section \<open>Reading\<close>

text \<open>
  A directory entry has the inode, the position of the next entry, the length of the name and the
  name, at the offsets 0, 4, 8 and 10.
\<close>

definition write_directory_entry ::
    "jax_file \<Rightarrow> jax_file \<Rightarrow> addr \<Rightarrow> addr \<Rightarrow> size_t \<Rightarrow> addr \<Rightarrow> memory \<Rightarrow> memory \<times> size_t" where
  "write_directory_entry dir_file current_file inode next_position read_size entry m =
     (let dlen = name_length dir_file;
          full = ucast (name_length current_file - (if dlen = 0 then 0 else dlen - 1)) :: size_t;
          room = read_size - sizeof_vfs_directory_entry;
          entry_name_length = ucast (if room < full then room else full) :: uint16_t;
          m1 = store_half (entry + 8) entry_name_length (store_word entry inode (store_word (entry + 4) next_position m));
          m2 = fst (memcpy (entry + 10) (file_name current_file + (if dlen = 0 then 0 else ucast dlen + 1)) (ucast entry_name_length) m1)
      in (m2, ucast entry_name_length + sizeof_vfs_directory_entry))"

definition read_directory ::
    "fs_state \<Rightarrow> jax_file \<Rightarrow> addr \<Rightarrow> addr \<Rightarrow> jax_file \<Rightarrow> size_t \<Rightarrow> size_t \<Rightarrow> addr \<Rightarrow> memory \<Rightarrow> (memory \<times> size_t) option" where
  "read_directory st junk badge reply file position read_size read_data m =
     (let size1 = (if read_size < sizeof_vfs_directory_entry then sizeof_vfs_directory_entry else read_size);
          read_address = (if position = 0 then badge else position) in
      if read_address < iter_start (iterator st) \<and> read_address \<noteq> 0 then Some (store_word reply EINVAL m, 0)
      else do {
        (next_address, current_file, current) \<leftarrow> next_file_in_dir m file read_address (initrd_start st) (initrd_end st) junk;
        if next_address = NULL then Some (store_word reply EINVAL m, 0)
        else do {
          (following, _, _) \<leftarrow> next_file_in_dir m file next_address (initrd_start st) (initrd_end st) junk;
          let next_position = (if following = NULL then 0 else next_address);
          let (m1, n) = write_directory_entry file current_file (the current) next_position size1 read_data m;
          Some (store_word reply 0 m1, n)
        }
      })"

definition read_file :: "jax_file \<Rightarrow> size_t \<Rightarrow> size_t \<Rightarrow> addr \<Rightarrow> addr \<Rightarrow> memory \<Rightarrow> memory \<times> size_t" where
  "read_file file position read_size read_data reply m =
     (let fsize = ucast (file_size file) :: size_t;
          n = (if position \<ge> fsize then 0
               else if position + read_size \<ge> fsize then fsize - position else read_size)
      in (store_word reply 0 (fst (memcpy read_data (file_data file + position) n m)), n))"

definition handle_read ::
    "fs_state \<Rightarrow> jax_file \<Rightarrow> addr \<Rightarrow> addr \<Rightarrow> jax_file \<Rightarrow> size_t \<Rightarrow> size_t \<Rightarrow> addr \<Rightarrow> memory \<Rightarrow> (memory \<times> size_t) option" where
  "handle_read st junk badge reply file position read_size read_data m =
     (if file_type file = TYPE_DIRECTORY then read_directory st junk badge reply file position read_size read_data m
      else Some (read_file file position read_size read_data reply m))"

section \<open>Opening\<close>

type_synonym 'k invoke = "size_t \<Rightarrow> size_t \<Rightarrow> size_t \<Rightarrow> size_t \<Rightarrow> 'k world \<Rightarrow> 'k world \<times> size_t"
type_synonym 'k copy_to = "size_t \<Rightarrow> size_t \<Rightarrow> node_copy_args \<Rightarrow> 'k world \<Rightarrow> 'k world \<times> size_t"

text \<open>How far the rest of a name agrees with a file name, which the code takes to end where the name does.\<close>

fun agree_with :: "memory \<Rightarrow> addr \<Rightarrow> addr \<Rightarrow> nat \<Rightarrow> nat \<Rightarrow> nat \<Rightarrow> nat \<times> nat" where
  "agree_with m name filename 0 i j = (i, j)"
| "agree_with m name filename (Suc n) i j =
     (if m (name + of_nat i) = m (filename + of_nat j) then agree_with m name filename n (i + 1) (j + 1) else (i, j))"

definition name_matches :: "memory \<Rightarrow> jax_file \<Rightarrow> jax_file \<Rightarrow> addr \<Rightarrow> bool" where
  "name_matches m dir_file file filename =
     (let start = (if name_length dir_file = 0 then 0 else unat (name_length dir_file) + 1);
          (i, j) = agree_with m (file_name file) filename (unat (name_length file) - start) start 0
      in m (file_name file + of_nat i) = m (filename + of_nat j))"

text \<open>The search for a file of that name in the directory.\<close>

partial_function (option) open_loop ::
    "memory \<Rightarrow> fs_state \<Rightarrow> jax_file \<Rightarrow> addr \<Rightarrow> addr \<Rightarrow> jax_file \<Rightarrow> addr option option" where
  "open_loop m st file filename next_address current = do {
     (next', current', found) \<leftarrow> next_file_in_dir m file next_address (initrd_start st) (initrd_end st) current;
     if next' = NULL then Some None
     else if name_matches m file current' filename then Some found
     else open_loop m st file filename next' current'
   }"

definition handle_open ::
    "'k invoke \<Rightarrow> 'k copy_to \<Rightarrow> fs_state \<Rightarrow> jax_file \<Rightarrow> ipc_message \<Rightarrow> addr \<Rightarrow> jax_file \<Rightarrow> addr \<Rightarrow> 'k world
      \<Rightarrow> ('k world \<times> (size_t \<times> size_t) option) option" where
  "handle_open invoke copy_to st junk received reply file next_address w =
     (let ret = (\<lambda>e w. w\<lparr>ram := store_word reply e (ram w)\<rparr>);
          open_flags = msg_buffer received ! 1; open_mode = msg_buffer received ! 2;
          name = msg_capabilities received ! 1 in
      if file_type file \<noteq> TYPE_DIRECTORY then Some (ret ENOTSUP w, None)
      else if open_flags AND OPEN_EXCLUSIVE \<noteq> 0 \<or> open_mode AND (MODE_WRITE OR MODE_APPEND) \<noteq> 0 then Some (ret EROFS w, None)
      else
        let (w1, filename) = invoke (fst name) (snd name) UNTYPED_LOCK 0 w in
        if filename = NULL then Some (ret ENOMEM w1, None)
        else do {
          found \<leftarrow> open_loop (ram w1) st file filename next_address junk;
          (case found of
             Some current_file_pointer \<Rightarrow>
               let (w2, result) = copy_to (fst (fs_node st)) (snd (fs_node st))
                     \<lparr>source_address = fst (fs_endpoint st), source_depth = snd (fs_endpoint st),
                      dest_slot = of_nat IPC_CAPABILITY_SLOTS + 1, args_access_rights = 255,
                      args_badge = current_file_pointer, should_set_badge = 1\<rparr> w1;
                   w3 = ret result w2;
                   reply_fd = (if result = 0
                     then Some (push_bit INIT_NODE_DEPTH (of_nat IPC_CAPABILITY_SLOTS + 1) OR fst (fs_node st), SIZE_MAX) else None)
               in Some (fst (invoke (fst name) (snd name) UNTYPED_UNLOCK 0 w3), reply_fd)
           | None \<Rightarrow>
               let w2 = ret (if open_flags AND OPEN_CREATE \<noteq> 0 then EROFS else ENOENT) w1
               in Some (fst (invoke (fst name) (snd name) UNTYPED_UNLOCK 0 w2), None))
        })"

section \<open>Dispatch\<close>

definition dword_bytes :: "64 word \<Rightarrow> uint8_t list" where
  "dword_bytes w = word_bytes (ucast (drop_bit 32 w)) @ word_bytes (ucast w)"

text \<open>The 54 bytes of \<open>struct stat\<close> (\<open>core/include/sys/stat.h\<close>) for a file.\<close>

definition stat_bytes :: "jax_file \<Rightarrow> addr \<Rightarrow> uint8_t list" where
  "stat_bytes file badge =
     word_bytes 0 @ word_bytes badge @ half_bytes (file_mode file) @ half_bytes 0 @ half_bytes (owner file)
     @ half_bytes (file_group file) @ word_bytes 0 @ word_bytes (ucast (file_size file)) @ dword_bytes (timestamp file)
     @ dword_bytes (timestamp file) @ dword_bytes (timestamp file) @ half_bytes 512
     @ word_bytes (word_of_int (sint (file_size file + 511) sdiv 512))"

definition handle_fd_message ::
    "'k invoke \<Rightarrow> 'k copy_to \<Rightarrow> fs_state \<Rightarrow> jax_file \<Rightarrow> ipc_message \<Rightarrow> addr \<Rightarrow> jax_file \<Rightarrow> addr \<Rightarrow> 'k world
      \<Rightarrow> ('k world \<times> (size_t \<times> size_t) option) option" where
  "handle_fd_message invoke copy_to st junk received reply file next_address w =
     (let call = FD_CALL_NUMBER received; buf = msg_buffer received; cap = msg_capabilities received ! 1;
          ret = (\<lambda>e w. w\<lparr>ram := store_word reply e (ram w)\<rparr>) in
      if call = FD_READ then
        let (w1, data) = invoke (fst cap) (snd cap) UNTYPED_LOCK 0 w in
        if data = NULL then Some (ret ENOMEM w1, None)
        else
          let (w2, size) = invoke (fst cap) (snd cap) UNTYPED_SIZEOF 0 w1;
              wanted = word_at 4 buf in
          do {
            (m, n) \<leftarrow> handle_read st junk (msg_badge received) reply file (word_at 8 buf) (if wanted > size then size else wanted) data (ram w2);
            let w3 = w2\<lparr>ram := store_word (reply + 4) n m\<rparr>;
            Some (fst (invoke (fst cap) (snd cap) UNTYPED_UNLOCK 0 w3), None)
          }
      else if call = FD_READ_FAST then
        let wanted = ucast (buf ! 1) :: size_t in
        do {
          (m, n) \<leftarrow> handle_read st junk (msg_badge received) reply file (word_at 4 buf)
                     (if wanted > FD_READ_FAST_MAX_SIZE then FD_READ_FAST_MAX_SIZE else wanted) (reply + 8) (ram w);
          Some (w\<lparr>ram := store_word (reply + 4) n m\<rparr>, None)
        }
      else if call = FD_STAT then
        Some (ret 0 (w\<lparr>ram := store_bytes (reply + 4) (stat_bytes file (msg_badge received)) (ram w)\<rparr>), None)
      else if call = FD_OPEN then handle_open invoke copy_to st junk received reply file next_address w
      else if call \<in> {FD_WRITE, FD_WRITE_FAST, FD_LINK, FD_UNLINK, FD_TRUNCATE} then Some (ret ENOTSUP w, None)
      else Some (w, None))"

definition root_file :: "addr \<Rightarrow> jax_file" where
  "root_file empty_string =
     \<lparr>file_type = TYPE_DIRECTORY, name_length = 0, file_name = empty_string, description_length = 0, description = empty_string,
      timestamp = 0, file_mode = 0b101101101, owner = 0, file_group = 0, file_size = 0, file_data = NULL\<rparr>"

definition handle_ipc_message ::
    "'k invoke \<Rightarrow> 'k copy_to \<Rightarrow> addr \<Rightarrow> jax_file \<Rightarrow> fs_state \<Rightarrow> ipc_message \<Rightarrow> addr \<Rightarrow> 'k world
      \<Rightarrow> ('k world \<times> (size_t \<times> size_t) option) option" where
  "handle_ipc_message invoke copy_to empty_string junk st received reply w =
     (if msg_badge received = 0 then
        handle_fd_message invoke copy_to st junk (received\<lparr>msg_badge := iter_start (iterator st)\<rparr>) reply
          (root_file empty_string) (iter_start (iterator st)) w
      else
        let (next_address, file) = next_file (ram w) (msg_badge received) (initrd_end st) junk
        in handle_fd_message invoke copy_to st junk received reply file next_address w)"

end
