(* ===== verification/Initrd_Properties.thy ===== *)
theory Initrd_Properties
  imports Initrd_Fs
begin

unbundle bit_operations_syntax

text \<open>
  What the initrd file system promises: which records of the archive belong to a directory, that
  walking over a directory finds its entries in the order of the archive, and that reading a file
  gives the bytes of the record.
\<close>

section \<open>Directories\<close>

lemma skip_to_slash_finds:
  assumes "k + n = length nm" and "holds m name nm" and "i = skip_to_slash m name n k"
  shows "i < length nm \<and> m (name + of_nat i) = 47 \<longleftrightarrow> (\<exists>l. k \<le> l \<and> l < length nm \<and> nm ! l = 47)"
  using assms(1,3)
proof (induction n arbitrary: k)
  case 0
  then show ?case by auto
next
  case (Suc n)
  have nth: "m (name + of_nat k) = nm ! k" using Suc.prems by (intro holds_nth [OF assms(2)]) simp
  show ?case
  proof (cases "nm ! k = 47")
    case True
    with Suc.prems nth show ?thesis by auto
  next
    case False
    then have "i < length nm \<and> m (name + of_nat i) = 47 \<longleftrightarrow> (\<exists>l. k + 1 \<le> l \<and> l < length nm \<and> nm ! l = 47)"
      using Suc.prems nth by (intro Suc.IH) simp_all
    also have "\<dots> \<longleftrightarrow> (\<exists>l. k \<le> l \<and> l < length nm \<and> nm ! l = 47)"
      using False by (metis Suc_eq_plus1 Suc_leD le_less_Suc_eq not_less_eq_eq order_le_less)
    finally show ?thesis .
  qed
qed

lemma agree_upto_differs:
  assumes "k + n = length xs" and "holds m a xs" and "holds m b ys" and "length xs \<le> length ys" and "i = agree_upto m a b n k"
  shows "i < length xs \<and> m (a + of_nat i) \<noteq> m (b + of_nat i) \<longleftrightarrow> (\<exists>l. k \<le> l \<and> l < length xs \<and> xs ! l \<noteq> ys ! l)"
  using assms(1,5)
proof (induction n arbitrary: k)
  case 0
  then show ?case by auto
next
  case (Suc n)
  have nth: "m (a + of_nat k) = xs ! k" "m (b + of_nat k) = ys ! k"
    using Suc.prems assms(4) by (intro holds_nth [OF assms(2)] holds_nth [OF assms(3)]; simp)+
  show ?case
  proof (cases "xs ! k = ys ! k")
    case False
    with Suc.prems nth show ?thesis by auto
  next
    case True
    then have "i < length xs \<and> m (a + of_nat i) \<noteq> m (b + of_nat i) \<longleftrightarrow> (\<exists>l. k + 1 \<le> l \<and> l < length xs \<and> xs ! l \<noteq> ys ! l)"
      using Suc.prems nth by (intro Suc.IH) simp_all
    also have "\<dots> \<longleftrightarrow> (\<exists>l. k \<le> l \<and> l < length xs \<and> xs ! l \<noteq> ys ! l)"
      using True by (metis Suc_eq_plus1 Suc_leD le_less_Suc_eq not_less_eq_eq order_le_less)
    finally show ?thesis .
  qed
qed

text \<open>The names of the entries of a directory, given by its own name; the root directory has none.\<close>

definition child_of :: "uint8_t list \<Rightarrow> uint8_t list \<Rightarrow> bool" where
  "child_of d x \<longleftrightarrow> (if d = [] then 47 \<notin> set x else take (length d + 1) x = d @ [47] \<and> 47 \<notin> set (drop (length d + 1) x))"

lemma ex_slash: "(\<exists>l. k \<le> l \<and> l < length xs \<and> xs ! l = y) \<longleftrightarrow> y \<in> set (drop k xs)"
proof
  assume "\<exists>l. k \<le> l \<and> l < length xs \<and> xs ! l = y"
  then obtain l where "k \<le> l" "l < length xs" "xs ! l = y" by blast
  then show "y \<in> set (drop k xs)" by (auto simp: in_set_conv_nth intro!: exI [of _ "l - k"])
next
  assume "y \<in> set (drop k xs)"
  then obtain l where "l < length xs - k" "drop k xs ! l = y" by (auto simp: in_set_conv_nth)
  then show "\<exists>l. k \<le> l \<and> l < length xs \<and> xs ! l = y" by (intro exI [of _ "k + l"]) simp
qed

lemma in_directory_child_of:
  assumes "holds m (file_name dir) d" and "unat (name_length dir) = length d"
    and "holds m (file_name f) x" and "unat (name_length f) = length x"
  shows "in_directory m dir f \<longleftrightarrow> child_of d x"
proof (cases "d = []")
  case True
  have "(let i = skip_to_slash m (file_name f) (length x) 0 in \<not> (i < length x \<and> m (file_name f + of_nat i) = 47)) \<longleftrightarrow> 47 \<notin> set x"
    using skip_to_slash_finds [OF _ assms(3) refl, of 0 "length x"] ex_slash [of 0 x 47] by (auto simp: Let_def)
  with True assms(2,4) show ?thesis by (auto simp: in_directory_def Let_def child_of_def)
next
  case False
  show ?thesis
  proof (cases "length x < length d + 1")
    case True
    then have "take (length d + 1) x \<noteq> d @ [47]" by (metis length_append_singleton length_take less_irrefl min.absorb4 min.commute Suc_eq_plus1)
    with True False assms(2,4) show ?thesis by (simp add: in_directory_def Let_def child_of_def)
  next
    case long: False
    define i where "i = agree_upto m (file_name dir) (file_name f) (length d) 0"
    define j where "j = skip_to_slash m (file_name f) (length x - (length d + 1)) (length d + 1)"
    have i: "i < length d \<and> m (file_name dir + of_nat i) \<noteq> m (file_name f + of_nat i) \<longleftrightarrow> \<not> (\<forall>l < length d. d ! l = x ! l)"
      using agree_upto_differs [OF _ assms(1,3) _ i_def] long by auto
    have j: "j < length x \<and> m (file_name f + of_nat j) = 47 \<longleftrightarrow> 47 \<in> set (drop (length d + 1) x)"
      using skip_to_slash_finds [OF _ assms(3) j_def] long ex_slash [of "length d + 1" x 47] by auto
    have s: "m (file_name f + of_nat (length d)) = x ! length d" using holds_nth [OF assms(3)] long by simp
    have t: "take (length d + 1) x = d @ [47] \<longleftrightarrow> (\<forall>l < length d. d ! l = x ! l) \<and> x ! length d = 47"
      using long by (auto simp: list_eq_iff_nth_eq nth_append less_Suc_eq)
    have "in_directory m dir f \<longleftrightarrow> \<not> ((i < length d \<and> m (file_name dir + of_nat i) \<noteq> m (file_name f + of_nat i))
        \<or> m (file_name f + of_nat (length d)) \<noteq> 47) \<and> \<not> (j < length x \<and> m (file_name f + of_nat j) = 47)"
      using False long unfolding in_directory_def Let_def assms(2,4) i_def j_def by auto
    then show ?thesis unfolding i j s using False t by (auto simp: child_of_def)
  qed
qed

lemma dir_loop_first_child:
  assumes "archive_at m a rs e" and "holds m (file_name dir) d" and "unat (name_length dir) = length d"
  shows "case first_record (\<lambda>r. child_of d (rec_name r)) a rs of
      None \<Rightarrow> \<exists>f. dir_loop m dir e a file = Some (NULL, f, None)
    | Some (b, r) \<Rightarrow> dir_loop m dir e a file = Some (b + of_nat (length (record_bytes r)), file_at b r, Some b)"
  using assms(1)
proof (induction rs arbitrary: a "file")
  case Nil
  from archive_at_Nil [OF Nil, of "file"] show ?case
    by (subst dir_loop.simps) (auto simp: next_file_def split_beta)
next
  case (Cons r rs)
  note step = archive_at_Cons [OF Cons.prems]
  let ?b = "a + of_nat (length (record_bytes r))"
  have "0 < unat ?b" unfolding step(5) by (simp add: length_record_bytes)
  then have "?b \<noteq> NULL" by auto
  then have nf: "next_file m a e file = (?b, file_at a r)" "?b \<noteq> NULL" by (simp_all add: next_file_def step(1))
  have ind: "in_directory m dir (file_at a r) \<longleftrightarrow> child_of d (rec_name r)"
    by (rule in_directory_child_of [OF assms(2,3) file_at_name [OF step(3,4)]])
  show ?case
  proof (cases "child_of d (rec_name r)")
    case True
    then show ?thesis using nf ind by (subst dir_loop.simps) simp
  next
    case False
    then have eq: "dir_loop m dir e a file = dir_loop m dir e ?b (file_at a r)"
      using nf ind by (subst dir_loop.simps) simp
    show ?thesis unfolding eq using False Cons.IH [OF step(2), of "file_at a r"] by simp
  qed
qed

text \<open>
  C31: walking over a directory finds its entries. From any record boundary on, the walk ends and returns
  the first record whose name is the directory's name, a slash and one more component (for the root
  directory, a name without slash), with the address of that record and the address of the record
  after it, from which the walk goes on; or NULL when no entry is left. The archive is one whose last record has contents
  (\<open>archive_at\<close>); a last record without contents, such as an empty directory at the end, is not found
  (lemma \<open>jax_next_file_misses_last_empty\<close>).
\<close>

theorem next_file_in_dir_first_child:
  assumes "archive_at m a rs e" and "start \<le> a" and "holds m (file_name dir) d" and "unat (name_length dir) = length d"
  shows "case first_record (\<lambda>r. child_of d (rec_name r)) a rs of
      None \<Rightarrow> \<exists>f. next_file_in_dir m dir a start e file = Some (NULL, f, None)
    | Some (b, r) \<Rightarrow> next_file_in_dir m dir a start e file = Some (b + of_nat (length (record_bytes r)), file_at b r, Some b)"
proof -
  have "next_file_in_dir m dir a start e file = dir_loop m dir e a file"
    using assms(2) by (simp add: next_file_in_dir_def leD)
  then show ?thesis using dir_loop_first_child [OF assms(1,3,4)] by presburger
qed

definition demo_file :: jax_record where
  "demo_file = \<lparr>rec_type = TYPE_REGULAR, rec_name = [97, 47, 98], rec_description = [], rec_time = 7, rec_mode = 420,
     rec_owner = 1, rec_group = 2, rec_data = [10, 20, 30, 40, 50]\<rparr>"

definition demo_dir :: jax_record where
  "demo_dir = demo_file\<lparr>rec_type := TYPE_DIRECTORY, rec_name := [97], rec_data := []\<rparr>"

lemma demo_length: "length (record_bytes demo_file) = 35" "length (record_bytes demo_dir) = 28"
  by (simp_all add: length_record_bytes demo_dir_def demo_file_def)

lemma demo_archive:
  "archive_at (memory_with 4096 (archive_bytes [demo_dir, demo_file])) 4096 [demo_dir, demo_file] 4159"
proof -
  have "holds (memory_with 4096 (archive_bytes [demo_dir, demo_file])) 4096 (archive_bytes [demo_dir, demo_file])"
    by (rule holds_memory_with) (simp add: demo_length)
  then show ?thesis by (simp add: archive_at_def demo_length) (simp add: demo_dir_def demo_file_def record_wf_def)
qed

theorem next_file_in_dir_first_child_witness:
  "next_file_in_dir (memory_with 4096 (archive_bytes [demo_dir, demo_file])) (file_at 4096 demo_dir) 4096 4096 4159 (root_file 0)
     = Some (4159, file_at 4124 demo_file, Some 4124)"
proof -
  note step = archive_at_Cons [OF demo_archive]
  have nm: "rec_name demo_dir = [97]" "rec_name demo_file = [97, 47, 98]" by (simp_all add: demo_dir_def demo_file_def)
  have c: "\<not> child_of [97] [97]" "child_of [97] [97, 47, 98]" by (simp_all add: child_of_def)
  have "first_record (\<lambda>r. child_of [97] (rec_name r)) 4096 [demo_dir, demo_file] = Some (4124, demo_file)"
    by (simp add: nm c demo_length)
  with next_file_in_dir_first_child [OF demo_archive _ file_at_name [OF step(3,4)], of 4096 "root_file 0", unfolded nm]
  show ?thesis by (simp add: demo_length del: first_record.simps archive_bytes_simps)
qed

section \<open>Reading a file\<close>

text \<open>The memory after the copy and the two words in front of it.\<close>

lemma reply_memory:
  assumes "holds m src out" and "length out = unat n" and "unat reply + 8 + unat n < 2 ^ 32" and "unat src + unat n < 2 ^ 32"
    and "m' = store_word (reply + 4) v (store_word reply e (fst (memcpy (reply + 8) src n m)))"
  shows "holds m' reply (word_bytes e @ word_bytes v @ out)"
    and "\<And>a. 8 + unat n \<le> unat (a - reply) \<Longrightarrow> m' a = m a"
proof -
  have "unat (reply + 8) = unat reply + 8" using assms(3) unat_plus_of_nat [of reply 8] by simp
  then have cp: "fst (memcpy (reply + 8) src n m) = copy_range (reply + 8) src n m"
    using assms(3,4) by (simp add: memcpy_range)
  have d4: "a - (reply + 4) = (a - reply) - of_nat 4" and d8: "a - (reply + 8) = (a - reply) - of_nat 8" for a by simp_all
  have lt: "unat (a - reply - of_nat 4) < 4 \<longleftrightarrow> 4 \<le> unat (a - reply) \<and> unat (a - reply) < 8"
    "unat (a - reply - of_nat 8) < unat n \<longleftrightarrow> 8 \<le> unat (a - reply) \<and> unat (a - reply) < 8 + unat n" for a
    using unat_minus_lt [of 4 4 "a - reply"] unat_minus_lt [of 8 "unat n" "a - reply"] assms(3) by simp_all
  have m': "m' a = (if 4 \<le> unat (a - reply) \<and> unat (a - reply) < 8 then word_bytes v ! unat ((a - reply) - of_nat 4)
      else if unat (a - reply) < 4 then word_bytes e ! unat (a - reply)
      else if 8 \<le> unat (a - reply) \<and> unat (a - reply) < 8 + unat n then m ((a - reply) - of_nat 8 + src) else m a)" for a
    unfolding assms(5) cp store_word_apply copy_range_def d4 d8 word_less_nat_alt lt ..
  show "m' a = m a" if "8 + unat n \<le> unat (a - reply)" for a using that by (simp add: m')
  have i: "unat (of_nat i :: addr) = i" if "i < 8 + unat n" for i using that assms(3) by (intro unat_of_nat_32) simp
  have sub: "unat (of_nat i - of_nat k :: addr) = i - k" if "k \<le> i" "i < 8 + unat n" for i k
  proof -
    have "(of_nat i - of_nat k :: addr) = of_nat (i - k)" using that(1) by (rule of_nat_diff [symmetric])
    moreover have "i - k < 2 ^ 32" using that(2) assms(3) by simp
    ultimately show ?thesis by (simp only: unat_of_nat_32)
  qed
  show "holds m' reply (word_bytes e @ word_bytes v @ out)"
    unfolding holds_iff_nth
  proof (intro allI impI)
    fix j assume "j < length (word_bytes e @ word_bytes v @ out)"
    then have j: "j < 8 + unat n" by (simp add: assms(2))
    have "m' (reply + of_nat j) = (if 4 \<le> j \<and> j < 8 then word_bytes v ! (j - 4) else if j < 4 then word_bytes e ! j
        else m (of_nat j - of_nat 8 + src))"
      using i [OF j] sub [of 4 j] j by (simp add: m')
    moreover have "m (of_nat j - of_nat 8 + src) = out ! (j - 8)" if "8 \<le> j"
      using holds_nth [OF assms(1), of "j - 8"] that j assms(2) by (simp add: of_nat_diff add.commute)
    ultimately show "m' (reply + of_nat j) = (word_bytes e @ word_bytes v @ out) ! j"
      by (auto simp: nth_append)
  qed
qed

lemma holds_slice: "holds m a xs \<Longrightarrow> holds m (a + of_nat k) (take n (drop k xs))"
  by (auto simp: holds_iff_nth add.assoc of_nat_add [symmetric] simp del: of_nat_add)

text \<open>How many bytes a read gives: none beyond the end, and never more than asked for.\<close>

lemma read_size_slice:
  fixes fsize :: size_t
  assumes "fsize = of_nat (length data)" and "length data < 2 ^ 32" and "unat position + unat wanted < 2 ^ 32"
    and "n = (if position \<ge> fsize then 0 else if position + wanted \<ge> fsize then fsize - position else wanted)"
  shows "unat n = length (take (unat wanted) (drop (unat position) data))"
proof -
  have f: "unat fsize = length data" unfolding assms(1) by (rule unat_of_nat_32 [OF assms(2)])
  have "unat (position + wanted) = unat position + unat wanted" using assms(3) by (rule unat_plus_no_wrap)
  then show ?thesis using f unfolding assms(4)
    by (auto simp: word_le_nat_alt unat_minus_no_wrap)
qed

text \<open>The abstract file: its bytes, and what a read of so many bytes at a position gives.\<close>

definition file_read :: "uint8_t list \<Rightarrow> size_t \<Rightarrow> size_t \<Rightarrow> uint8_t list" where
  "file_read data position n = take (unat n) (drop (unat position) data)"

text \<open>A file descriptor is the address of a record in the archive, and the reply is elsewhere in memory.\<close>

definition descriptor_for :: "memory \<Rightarrow> fs_state \<Rightarrow> addr \<Rightarrow> jax_record \<Rightarrow> bool" where
  "descriptor_for m st badge r \<longleftrightarrow> badge \<noteq> 0 \<and> holds m badge (record_bytes r) \<and> record_wf r \<and> rec_data r \<noteq> []
     \<and> unat badge + length (record_bytes r) \<le> unat (initrd_end st)"

definition reply_apart :: "fs_state \<Rightarrow> addr \<Rightarrow> addr \<Rightarrow> bool" where
  "reply_apart st badge reply \<longleftrightarrow> unat reply + 64 \<le> unat badge
     \<or> unat (initrd_end st) \<le> unat reply \<and> unat reply + 64 < 2 ^ 32"

lemma descriptor_file:
  assumes "descriptor_for m st badge r"
  shows "snd (next_file m badge (initrd_end st) junk) = file_at badge r"
    and "holds m (file_data (file_at badge r)) (rec_data r)"
    and "unat (file_data (file_at badge r)) + length (rec_data r) \<le> unat (initrd_end st)"
    and "length (rec_data r) + 27 + unat badge \<le> unat (initrd_end st)"
proof -
  have h: "holds m badge (record_bytes r)" and fits: "unat badge + length (record_bytes r) \<le> unat (initrd_end st)"
    using assms by (simp_all add: descriptor_for_def)
  have "jax_next_file m \<lparr>iter_start = badge, iter_end = initrd_end st\<rparr> junk =
      (\<lparr>iter_start = badge + of_nat (length (record_bytes r)), iter_end = initrd_end st\<rparr>, file_at badge r, True)"
    using assms by (intro jax_next_file_reads) (simp_all add: descriptor_for_def)
  then show "snd (next_file m badge (initrd_end st) junk) = file_at badge r" by (simp add: next_file_def)
  show "holds m (file_data (file_at badge r)) (rec_data r)"
    using h by (simp add: record_bytes_def holds_append file_at_def Let_def algebra_simps)
  let ?k = "3 + length (rec_name r) + 2 + length (rec_description r) + 22"
  have "unat (badge + of_nat ?k) = unat badge + ?k"
    using fits unat_lt_2_32 [of "initrd_end st"] unfolding length_record_bytes by (intro unat_plus_of_nat) linarith
  moreover have "file_data (file_at badge r) = badge + of_nat ?k" by (simp add: file_at_def Let_def)
  ultimately show "unat (file_data (file_at badge r)) + length (rec_data r) \<le> unat (initrd_end st)"
    using fits unfolding length_record_bytes by simp
  show "length (rec_data r) + 27 + unat badge \<le> unat (initrd_end st)" using fits by (simp add: length_record_bytes)
qed

text \<open>The file part of \<open>handle_read\<close> into the reply, for a small number of bytes.\<close>

lemma read_file_slice:
  assumes "descriptor_for m st badge r" and "reply_apart st badge reply" and "unat wanted \<le> 56"
    and "out = file_read (rec_data r) p wanted"
    and "read_file (file_at badge r) p wanted (reply + 8) reply m = (m2, n)" and "m' = store_word (reply + 4) n m2"
  shows "n = of_nat (length out)" and "holds m' reply (word_bytes 0 @ word_bytes n @ out)"
    and "\<forall>a. 8 + length out \<le> unat (a - reply) \<longrightarrow> m' a = m a"
proof -
  let ?f = "file_at badge r"
  note d = descriptor_file [OF assms(1)]
  define fsize where "fsize = (ucast (file_size ?f) :: size_t)"
  define src where "src = file_data ?f + p"
  have fs: "fsize = of_nat (length (rec_data r))" by (simp add: fsize_def file_at_def Let_def ucast_of_nat_64_32)
  have n_def: "n = (if p \<ge> fsize then 0 else if p + wanted \<ge> fsize then fsize - p else wanted)"
    and m': "m' = store_word (reply + 4) n (store_word reply 0 (fst (memcpy (reply + 8) src n m)))"
    using assms(5,6) by (auto simp: read_file_def Let_def fsize_def src_def)
  have end32: "unat (initrd_end st) < 2 ^ 32" by (rule unat_lt_2_32)
  have len32: "length (rec_data r) + 56 < 2 ^ 32" using d(4) assms(2) end32 unfolding reply_apart_def by linarith
  have slice: "holds m src out"
    using holds_slice [OF d(2), of "unat p" "unat wanted"] by (simp add: src_def assms(4) file_read_def)
  have fu: "unat fsize = length (rec_data r)" unfolding fs using len32 by (intro unat_of_nat_32) simp
  have out: "length out \<le> 56" "length out \<le> length (rec_data r) - unat p" using assms(3) by (simp_all add: assms(4) file_read_def)
  have n: "unat n = length out \<and> unat src + unat n < 2 ^ 32"
  proof (cases "p \<ge> fsize")
    case True
    then have "length (rec_data r) \<le> unat p" using fu by (simp add: word_le_nat_alt)
    then show ?thesis using True unat_lt_2_32 [of src] by (simp add: n_def assms(4) file_read_def)
  next
    case False
    then have p: "unat p < length (rec_data r)" using fu by (simp add: word_le_nat_alt)
    then have "unat p + unat wanted < 2 ^ 32" "length (rec_data r) < 2 ^ 32" using assms(3) len32 by linarith+
    then have "unat n = length out" unfolding assms(4) file_read_def by (intro read_size_slice [OF fs]) (simp_all add: n_def)
    moreover have "unat src = unat (file_data ?f) + unat p"
      unfolding src_def using p d(3) end32 by (intro unat_plus_no_wrap) linarith
    ultimately show ?thesis using p d(3) end32 out by linarith
  qed
  then have "length out = unat n" by simp
  then show "n = of_nat (length out)" by simp
  have "unat reply + 8 + unat n < 2 ^ 32"
    using assms(2) out n end32 unat_lt_2_32 [of badge] unfolding reply_apart_def by linarith
  with reply_memory [OF slice _ _ _ m'] n
  show "holds m' reply (word_bytes 0 @ word_bytes n @ out)" "\<forall>a. 8 + length out \<le> unat (a - reply) \<longrightarrow> m' a = m a" by auto
qed

lemma demo_descriptor:
  assumes "initrd_end st = 4159"
  shows "descriptor_for (memory_with 4096 (archive_bytes [demo_dir, demo_file])) st 4124 demo_file"
    and "rec_type demo_file \<noteq> TYPE_DIRECTORY"
proof -
  let ?m = "memory_with 4096 (archive_bytes [demo_dir, demo_file])"
  have "archive_at ?m (4096 + of_nat 28) [demo_file] 4159" using archive_at_Cons(2) [OF demo_archive] by (simp add: demo_length)
  then have "archive_at ?m 4124 [demo_file] 4159" by simp
  from archive_at_Cons(3,4) [OF this] show "descriptor_for ?m st 4124 demo_file"
    using assms by (simp add: descriptor_for_def demo_length) (simp add: demo_file_def)
  show "rec_type demo_file \<noteq> TYPE_DIRECTORY" by (simp add: demo_file_def TYPE_REGULAR_def TYPE_DIRECTORY_def)
qed

lemma read_fast_reply:
  assumes "descriptor_for (ram w) st (msg_badge received) r" and "rec_type r \<noteq> TYPE_DIRECTORY"
    and "reply_apart st (msg_badge received) reply"
    and "FD_CALL_NUMBER received = FD_READ_FAST" and "wanted = (if 56 < msg_buffer received ! 1 then 56 else ucast (msg_buffer received ! 1))"
    and "out = file_read (rec_data r) (word_at 4 (msg_buffer received)) wanted"
  shows "\<exists>m'. handle_ipc_message invoke copy_to empty_string junk st received reply w = Some (w\<lparr>ram := m'\<rparr>, None)
    \<and> holds m' reply (word_bytes 0 @ word_bytes (of_nat (length out)) @ out)
    \<and> (\<forall>a. 8 + length out \<le> unat (a - reply) \<longrightarrow> m' a = ram w a)"
proof -
  let ?f = "file_at (msg_badge received) r" and ?p = "word_at 4 (msg_buffer received)"
  have wanted: "wanted = (if ucast (msg_buffer received ! 1) > FD_READ_FAST_MAX_SIZE then FD_READ_FAST_MAX_SIZE else ucast (msg_buffer received ! 1))"
    and w56: "unat wanted \<le> 56"
    using assms(5) by (auto simp: FD_READ_FAST_MAX_SIZE_def kernel_consts word_less_nat_alt)
  obtain m2 n where rd: "read_file ?f ?p wanted (reply + 8) reply (ram w) = (m2, n)" by fastforce
  note r = read_file_slice [OF assms(1,3) w56 assms(6) rd refl]
  have "msg_badge received \<noteq> 0" using assms(1) by (simp add: descriptor_for_def)
  moreover have "handle_read st junk (msg_badge received) reply ?f ?p wanted (reply + 8) (ram w) = Some (m2, n)"
    using assms(2) rd by (simp add: handle_read_def file_at_def Let_def)
  moreover have "FD_READ_FAST \<noteq> FD_READ" by (simp add: fd_calls)
  ultimately have "handle_ipc_message invoke copy_to empty_string junk st received reply w =
      Some (w\<lparr>ram := store_word (reply + 4) n m2\<rparr>, None)"
    unfolding handle_ipc_message_def handle_fd_message_def Let_def wanted [symmetric]
    using descriptor_file(1) [OF assms(1)] by (simp add: split_beta assms(4))
  with r show ?thesis by auto
qed

text \<open>
  Reading from a file descriptor refines reading from the file. A \<open>FD_READ_FAST\<close> message to the
  descriptor of a record that is not a directory is answered with the code 0, the number of bytes
  and exactly the bytes of the record's contents at the position asked for, at most 56 of them and none
  beyond the end of the file. No other memory changes.
\<close>

lemma handle_ipc_message_reads_file:
  assumes "descriptor_for (ram w) st (msg_badge received) r" and "rec_type r \<noteq> TYPE_DIRECTORY"
    and "reply_apart st (msg_badge received) reply"
    and "FD_CALL_NUMBER received = FD_READ_FAST" and "wanted = (if 56 < msg_buffer received ! 1 then 56 else ucast (msg_buffer received ! 1))"
    and "out = file_read (rec_data r) (word_at 4 (msg_buffer received)) wanted"
  shows "\<exists>m'. handle_ipc_message invoke copy_to empty_string junk st received reply w = Some (w\<lparr>ram := m'\<rparr>, None)
    \<and> holds m' reply (word_bytes 0 @ word_bytes (of_nat (length out)) @ out)
    \<and> (\<forall>a. 8 + length out \<le> unat (a - reply) \<longrightarrow> m' a = ram w a)"
  by (rule read_fast_reply [OF assms])

section \<open>Directory entries\<close>

text \<open>
  The directory entry of a file in any directory but the root directory is two bytes longer than
  the file's name in that directory: the code takes the directory's name less one character off the
  full name where it has to take off the directory's name and the slash.
\<close>

lemma directory_entry_too_long:
  assumes "name_length dir = of_nat d" and "name_length f = of_nat len" and "0 < d" and "d < len" and "len < 2 ^ 16 - 1"
    and "len + 12 \<le> unat read_size"
  shows "snd (write_directory_entry dir f inode next_position read_size entry m) = of_nat (10 + (len - (d + 1)) + 2)"
proof -
  have dw: "unat (of_nat d :: uint16_t) = d" using assms(4,5) by (simp add: unat_of_nat)
  then have nz: "(of_nat d :: uint16_t) \<noteq> 0" using assms(3) by auto
  have "(of_nat len - (of_nat d - 1) :: uint16_t) = of_nat (len - d + 1)"
    using assms(4) by (simp add: of_nat_diff)
  then have full: "(ucast (of_nat len - (of_nat d - 1) :: uint16_t) :: size_t) = of_nat (len - d + 1)"
    using assms(3,5) by (simp only:) (rule ucast_of_nat_16_32, simp)
  have room: "\<not> read_size - sizeof_vfs_directory_entry < of_nat (len - d + 1)"
  proof -
    have "unat (read_size - sizeof_vfs_directory_entry) = unat read_size - 10"
      using assms(6) by (subst unat_minus_no_wrap) (simp_all add: sizeof_vfs_directory_entry_def word_le_nat_alt)
    moreover have "unat (of_nat (len - d + 1) :: size_t) = len - d + 1" using assms(5) by (intro unat_of_nat_32) simp
    ultimately show ?thesis using assms(6) by (simp add: word_less_nat_alt del: of_nat_add of_nat_Suc)
  qed
  have narrow: "(ucast (ucast (of_nat (len - d + 1) :: size_t) :: uint16_t) :: size_t) = of_nat (len - d + 1)"
    unfolding ucast_of_nat_32_16 using assms(3,5) by (intro ucast_of_nat_16_32) simp
  have "snd (write_directory_entry dir f inode next_position read_size entry m) = of_nat (len - d + 1) + sizeof_vfs_directory_entry"
    using nz room unfolding write_directory_entry_def Let_def assms(1,2) snd_conv
    by (simp only: if_False full narrow)
  also have "\<dots> = of_nat (len - d + 1 + 10)" by (simp add: sizeof_vfs_directory_entry_def)
  also have "len - d + 1 + 10 = 10 + (len - (d + 1)) + 2" using assms(4) by simp
  finally show ?thesis .
qed

lemma directory_entry_too_long_example:
  "snd (write_directory_entry (file_at 4096 demo_dir) (file_at 4124 demo_file) 4124 0 100 8192 (\<lambda>_. 0)) = 13"
  using directory_entry_too_long [of "file_at 4096 demo_dir" 1 "file_at 4124 demo_file" 3 100 4124 0 8192 "\<lambda>_. 0"]
  by (simp add: file_at_def Let_def demo_dir_def demo_file_def)

end
