(* ===== verification/Client_Server.thy ===== *)
theory Client_Server
  imports Initrd_Properties
begin

unbundle bit_operations_syntax

text \<open>
  The client functions of \<open>core/include/sys/vfs.h\<close> talking to the initrd file system server. The
  system calls that connect them are what endpoints do: sending hands over the message with the
  badge of the descriptor, and receiving waits until the server has answered.
\<close>

definition initrd_os ::
    "ipc_message option invoke \<Rightarrow> ipc_message option copy_to \<Rightarrow> addr \<Rightarrow> jax_file \<Rightarrow> fs_state \<Rightarrow> size_t \<Rightarrow> addr \<Rightarrow> ipc_message option os" where
  "initrd_os invoke copy_to empty_string junk st badge reply =
     \<lparr>sys_invoke = (\<lambda>_ _ _ _ _. None),
      sys_send = (\<lambda>_ _ message w. Some (w\<lparr>kern := Some (message\<lparr>msg_badge := badge\<rparr>)\<rparr>, 0, message)),
      sys_receive = (\<lambda>_ _ message w. do {
        request \<leftarrow> kern w;
        (w', _) \<leftarrow> handle_ipc_message invoke copy_to empty_string junk st request reply (w\<lparr>kern := None\<rparr>);
        Some (w', 0, message\<lparr>msg_buffer := map (\<lambda>i. ram w' (reply + of_nat i)) [0..<IPC_BUFFER_SIZE]\<rparr>)
      })\<rparr>"

section \<open>Messages\<close>

lemma word_at_append: "length xs = i \<Longrightarrow> word_at i (xs @ word_bytes v @ ys) = v"
  by (simp add: word_at_def)

lemma unat_ucast_up_8: "unat (ucast (x :: uint8_t) :: size_t) = unat x"
  by (simp add: unsigned_ucast_eq)

lemma put_word_fields:
  assumes "length (msg_buffer x) = 64"
  shows "word_at 4 (msg_buffer (put_word 4 v x)) = v" "j < 4 \<Longrightarrow> msg_buffer (put_word 4 v x) ! j = msg_buffer x ! j"
  using assms by (simp_all add: put_word_def put_bytes_def word_at_append nth_append)

lemma read_back: "holds m a xs \<Longrightarrow> length xs \<le> n \<Longrightarrow> \<exists>ys. map (\<lambda>i. m (a + of_nat i)) [0..<n] = xs @ ys"
proof -
  assume h: "holds m a xs" and n: "length xs \<le> n"
  have "map (\<lambda>i. m (a + of_nat i)) [0..<length xs] = xs"
    by (rule nth_equalityI) (simp_all add: holds_nth [OF h])
  moreover have "[0..<n] = [0..<length xs] @ [length xs..<n]" using n by (metis le_add_diff_inverse upt_add_eq_append zero_le)
  ultimately show ?thesis by simp
qed

section \<open>Writing bytes to memory\<close>

lemma store_bytes_apply:
  "length bs \<le> 2 ^ 32 \<Longrightarrow> store_bytes a bs m b = (if unat (b - a) < length bs then bs ! unat (b - a) else m b)"
proof (induction bs arbitrary: a m)
  case (Cons x bs)
  show ?case
  proof (cases "b = a")
    case True
    have "unat (- 1 :: addr) = 2 ^ 32 - 1" by (simp add: unsigned_minus_1_eq_mask mask_eq_exp_minus_1)
    with True Cons show ?thesis by simp
  next
    case False
    then have "b - a \<noteq> 0" by simp
    then have "0 < unat (b - a)" by (simp add: unat_gt_0)
    moreover have "1 \<le> b - a" using \<open>b - a \<noteq> 0\<close> by (simp add: word_le_nat_alt Suc_le_eq unat_gt_0)
    then have "unat (b - a - 1) = unat (b - a) - 1" by (simp add: unat_minus_no_wrap)
    ultimately have u: "unat (b - a) = Suc (unat (b - a - 1))" by simp
    have eq: "b - (a + 1) = b - a - 1" by simp
    have ih: "store_bytes (a + 1) bs (m(a := x)) b = (if unat (b - (a + 1)) < length bs then bs ! unat (b - (a + 1)) else (m(a := x)) b)"
      using Cons.prems by (intro Cons.IH) simp
    show ?thesis using False u unfolding store_bytes.simps ih eq by simp
  qed
qed simp

lemma holds_store_bytes: "length bs < 2 ^ 32 \<Longrightarrow> holds (store_bytes a bs m) a bs"
  by (simp add: holds_iff_nth store_bytes_apply unat_of_nat_32)

text \<open>
  C4: a client that reads from the descriptor of a file in the initrd gets the file: \<open>fd_read_fast\<close>
  returns 0, the number of bytes, and in the caller's buffer exactly the bytes of the file at the
  position asked for, as many as it asked for and the file has. Besides the caller's buffer only the
  server's reply is written.
\<close>

theorem fd_read_fast_reads_file:
  assumes "descriptor_for (ram w) st badge r" and "rec_type r \<noteq> TYPE_DIRECTORY" and "reply_apart st badge reply"
    and "sz \<le> FD_READ_FAST_MAX_SIZE" and "out = file_read (rec_data r) position sz"
  shows "\<exists>w'. fd_read_fast (initrd_os invoke copy_to empty_string junk st badge reply) fd reply_endpoint buffer sz position n w =
      Some (w', 0, of_nat (length out))
    \<and> holds (ram w') buffer out
    \<and> (\<forall>a. 8 + length out \<le> unat (a - reply) \<and> length out \<le> unat (a - buffer) \<longrightarrow> ram w' a = ram w a)"
proof -
  let ?os = "initrd_os invoke copy_to empty_string junk st badge reply"
  define request where "request = put_word 4 position (new_message [FD_READ_FAST, ucast sz] [(reply_endpoint, SIZE_MAX)] 1)"
  define msg where "msg = request\<lparr>msg_badge := badge\<rparr>"
  have s56: "sz \<le> 56" using assms(4) by (simp add: FD_READ_FAST_MAX_SIZE_def kernel_consts)
  then have sz: "unat (ucast sz :: uint8_t) = unat sz"
    by (simp add: word_le_nat_alt unsigned_ucast_eq take_bit_eq_mod)
  have nm: "length (msg_buffer (new_message [FD_READ_FAST, ucast sz] [(reply_endpoint, SIZE_MAX)] 1)) = 64"
    by (simp add: new_message_def IPC_BUFFER_SIZE_def)
  have b: "FD_CALL_NUMBER msg = FD_READ_FAST" "msg_buffer msg ! 1 = ucast sz" "word_at 4 (msg_buffer msg) = position" "msg_badge msg = badge"
    using put_word_fields [OF nm, where v = position] by (simp_all add: msg_def request_def new_message_def)
  have wanted: "sz = (if 56 < msg_buffer msg ! 1 then 56 else ucast (msg_buffer msg ! 1))"
  proof -
    have "\<not> 56 < (ucast sz :: uint8_t)" using s56 sz by (simp add: word_less_nat_alt word_le_nat_alt)
    moreover have "ucast (ucast sz :: uint8_t) = sz" by (rule word_unat_eq_iff [THEN iffD2]) (metis sz unat_ucast_up_8)
    ultimately show ?thesis unfolding b(2) by simp
  qed
  let ?w1 = "w\<lparr>kern := None\<rparr>"
  from read_fast_reply [of ?w1 st msg r reply sz out invoke copy_to empty_string junk] assms(1-3,5) b wanted obtain m' where
    m': "handle_ipc_message invoke copy_to empty_string junk st msg reply ?w1 = Some (?w1\<lparr>ram := m'\<rparr>, None)"
    "holds m' reply (word_bytes 0 @ word_bytes (of_nat (length out)) @ out)"
    "\<forall>a. 8 + length out \<le> unat (a - reply) \<longrightarrow> m' a = ram w a" by auto
  have out: "length out \<le> unat sz" "length out \<le> 56" using s56 assms(5) by (simp_all add: file_read_def word_le_nat_alt)
  from read_back [OF m'(2), of 64] out obtain ys where
    ys: "map (\<lambda>i. m' (reply + of_nat i)) [0..<64] = word_bytes 0 @ word_bytes (of_nat (length out)) @ out @ ys" by auto
  have u: "unat (of_nat (length out) :: size_t) = length out" using out(2) by (intro unat_of_nat_32) simp
  have t: "of_nat (length out) < sz \<Longrightarrow> take (unat (of_nat (length out) :: size_t)) (out @ ys) = out"
    "\<not> of_nat (length out) < sz \<Longrightarrow> take (unat sz) (out @ ys) = out"
    using out(1) u by (simp_all add: word_less_nat_alt)
  let ?w' = "?w1\<lparr>ram := store_bytes buffer out m'\<rparr>"
  have c: "vfs_call ?os fd reply_endpoint request (new_message [] [] 0) w = Some (?w1\<lparr>ram := m'\<rparr>, 0, request,
      (new_message [] [] 0)\<lparr>msg_buffer := word_bytes 0 @ word_bytes (of_nat (length out)) @ out @ ys\<rparr>)"
    using m'(1) ys word_at_append [of "[]" 0 0] by (simp add: vfs_call_def initrd_os_def msg_def IPC_BUFFER_SIZE_def)
  have "fd_read_fast ?os fd reply_endpoint buffer sz position n w = Some (?w', 0, of_nat (length out))"
    using leD [OF assms(4)] c t word_at_append [of "word_bytes 0" 4]
    by (simp add: fd_read_fast_def request_def [symmetric] Let_def del: take_append)
  moreover have "holds (ram ?w') buffer out" using holds_store_bytes [of out buffer m'] out(2) by simp
  moreover have "ram ?w' a = ram w a" if "8 + length out \<le> unat (a - reply) \<and> length out \<le> unat (a - buffer)" for a
    using that m'(3) out(2) by (simp add: store_bytes_apply)
  ultimately show ?thesis by blast
qed

theorem fd_read_fast_reads_file_witness:
  "\<exists>w'. fd_read_fast (initrd_os (\<lambda>_ _ _ _ w. (w, 0)) (\<lambda>_ _ _ w. (w, 0)) 0 (root_file 0)
      \<lparr>initrd_start = 4092, initrd_end = 4159, iterator = \<lparr>iter_start = 4096, iter_end = 4159\<rparr>, fs_endpoint = (4, 0), fs_node = (3, 0)\<rparr> 4124 8192)
      7 8 12288 3 1 0 \<lparr>ram = memory_with 4096 (archive_bytes [demo_dir, demo_file]), kern = None\<rparr> = Some (w', 0, 3)
    \<and> holds (ram w') 12288 [20, 30, 40]"
proof -
  define m where "m = memory_with 4096 (archive_bytes [demo_dir, demo_file])"
  define st where "st = \<lparr>initrd_start = 4092, initrd_end = 4159, iterator = \<lparr>iter_start = 4096, iter_end = 4159\<rparr>, fs_endpoint = (4, 0), fs_node = (3, 0)\<rparr>"
  have d: "descriptor_for (ram \<lparr>ram = m, kern = None\<rparr>) st 4124 demo_file" "rec_type demo_file \<noteq> TYPE_DIRECTORY"
    "reply_apart st 4124 8192"
    using demo_descriptor [of st] by (simp_all add: m_def st_def reply_apart_def)
  have s: "3 \<le> FD_READ_FAST_MAX_SIZE" by (simp add: FD_READ_FAST_MAX_SIZE_def kernel_consts)
  have o: "[20, 30, 40] = file_read (rec_data demo_file) 1 3" by (simp add: demo_file_def file_read_def)
  from fd_read_fast_reads_file [OF d s o, of "\<lambda>_ _ _ _ w. (w, 0)" "\<lambda>_ _ _ w. (w, 0)" 0 "root_file 0" 7 8 12288 0]
  show ?thesis unfolding m_def [symmetric] st_def [symmetric] by auto
qed

end
