(* ===== verification/Bflt.thy ===== *)
theory Bflt
  imports Kernel_State
begin

unbundle bit_operations_syntax

text \<open>
  The loader of flat binaries, \<open>core/common/bflt.c\<close>: it checks the header, copies the segments,
  clears the bss, applies the relocations, fixes up the global offset table of position-independent
  binaries, and sets up the registers of the new thread. The header is a record, its address and
  the rest of the binary are memory.
\<close>

section \<open>The loader\<close>

record bflt_header =
  magic :: "uint8_t list"
  version :: uint32_t
  entry_point :: uint32_t
  data_start :: uint32_t
  data_end :: uint32_t
  bss_end :: uint32_t
  stack_size :: uint32_t
  relocations_start :: uint32_t
  num_relocations :: uint32_t
  bflt_flags :: uint32_t

definition BFLT_FLAG_RAM :: uint32_t where "BFLT_FLAG_RAM = 1"
definition BFLT_FLAG_GOTPIC :: uint32_t where "BFLT_FLAG_GOTPIC = 2"
definition BFLT_FLAG_GZIP :: uint32_t where "BFLT_FLAG_GZIP = 4"
definition sizeof_bflt_header :: uint32_t where "sizeof_bflt_header = 64"

definition gotpic :: "bflt_header \<Rightarrow> bool" where
  "gotpic h \<longleftrightarrow> bflt_flags h AND BFLT_FLAG_GOTPIC \<noteq> 0"

text \<open>The header as it lies in memory, with the members in the order of \<open>struct bflt_header\<close>.\<close>

definition bflt_header_at :: "memory \<Rightarrow> addr \<Rightarrow> bflt_header" where
  "bflt_header_at m a =
     \<lparr>magic = [m a, m (a + 1), m (a + 2), m (a + 3)], version = load_word (a + 4) m, entry_point = load_word (a + 8) m,
      data_start = load_word (a + 12) m, data_end = load_word (a + 16) m, bss_end = load_word (a + 20) m,
      stack_size = load_word (a + 24) m, relocations_start = load_word (a + 28) m,
      num_relocations = load_word (a + 32) m, bflt_flags = load_word (a + 36) m\<rparr>"

definition bflt_verify :: "bflt_header \<Rightarrow> bool" where
  "bflt_verify h =
     (if magic h ! 0 \<noteq> 98 \<or> magic h ! 1 \<noteq> 70 \<or> magic h ! 2 \<noteq> 76 \<or> magic h ! 3 \<noteq> 84 then False
      else if version h \<noteq> 4 then False
      else if bflt_flags h AND BFLT_FLAG_GZIP \<noteq> 0 then False
      else True)"

definition bflt_allocation_size :: "bflt_header \<Rightarrow> size_t" where
  "bflt_allocation_size h =
     (if gotpic h then bss_end h - data_start h + stack_size h
      else bss_end h - sizeof_bflt_header + stack_size h)"

definition offset_to_address :: "addr \<Rightarrow> addr \<Rightarrow> bool \<Rightarrow> uint32_t \<Rightarrow> size_t \<Rightarrow> addr" where
  "offset_to_address text data deny_text ds offset =
     (let data_segment_offset = ds - sizeof_bflt_header in
      if offset < data_segment_offset then (if deny_text then NULL else text + offset)
      else data + offset - data_segment_offset)"

text \<open>One relocation, and the loop over the table.\<close>

definition relocate :: "addr \<Rightarrow> addr \<Rightarrow> bool \<Rightarrow> bflt_header \<Rightarrow> addr \<Rightarrow> nat \<Rightarrow> memory \<Rightarrow> memory" where
  "relocate text data text_writable h table i m =
     (let offset = load_word (table + of_nat (4 * i)) m;
          a = offset_to_address text data (\<not> text_writable) (data_start h) offset in
      if a = NULL then m
      else store_word a (offset_to_address text data False (data_start h) (load_word a m)) m)"

text \<open>The loop over the global offset table, which ends at an entry of all ones.\<close>

partial_function (option) fix_got :: "addr \<Rightarrow> addr \<Rightarrow> bflt_header \<Rightarrow> addr \<Rightarrow> memory \<Rightarrow> memory option" where
  "fix_got text data h got m =
     (if load_word got m = - 1 then Some m
      else fix_got text data h (got + 4) (store_word got (offset_to_address text data False (data_start h) (load_word got m)) m))"

definition set_program_counter :: "size_t \<Rightarrow> thread_registers \<Rightarrow> thread_registers" where
  "set_program_counter pc r = r\<lparr>program_counter := pc\<rparr>"

definition set_stack_pointer :: "size_t \<Rightarrow> thread_registers \<Rightarrow> thread_registers" where
  "set_stack_pointer sp r = r\<lparr>stack_pointer := sp\<rparr>"

definition set_got_pointer :: "size_t \<Rightarrow> thread_registers \<Rightarrow> thread_registers" where
  "set_got_pointer got r = r\<lparr>address_registers := (address_registers r)[5 := got]\<rparr>"

definition load_segments :: "bflt_header \<Rightarrow> addr \<Rightarrow> addr \<Rightarrow> addr \<Rightarrow> addr \<Rightarrow> memory \<Rightarrow> memory" where
  "load_segments h header text data stop m =
     (let m1 = (if gotpic h then fst (memcpy data (header + data_start h) (data_end h - data_start h) m)
                else fst (memcpy text (header + sizeof_bflt_header) (data_end h - sizeof_bflt_header) m))
      in fst (memset stop 0 (bss_end h - data_end h) m1))"

definition bflt_load ::
    "bflt_header \<Rightarrow> addr \<Rightarrow> addr \<Rightarrow> thread_registers \<Rightarrow> memory \<Rightarrow> (memory \<times> thread_registers) option" where
  "bflt_load h header allocation regs m =
     (let text = (if gotpic h then header + sizeof_bflt_header else allocation);
          data = (if gotpic h then allocation else allocation + data_start h - sizeof_bflt_header);
          stop = (if gotpic h then allocation + data_end h - data_start h else allocation + data_end h - sizeof_bflt_header);
          m1 = load_segments h header text data stop m;
          m2 = fold (relocate text data (\<not> gotpic h) h (header + relocations_start h)) [0..<unat (num_relocations h)] m1
      in do {
        m3 \<leftarrow> (if gotpic h then fix_got text data h data m2 else Some m2);
        let pc = (if gotpic h then header + entry_point h else allocation + entry_point h - sizeof_bflt_header);
        let r1 = set_stack_pointer (allocation + bflt_allocation_size h) (set_program_counter pc regs);
        Some (m3, if gotpic h then set_got_pointer data r1 else r1)
      })"

section \<open>Addresses\<close>

text \<open>In a binary that is loaded as a whole every offset is an offset from the allocation.\<close>

lemma offset_to_address_flat:
  "offset_to_address a (a + ds - sizeof_bflt_header) False ds offset = a + offset"
  by (simp add: offset_to_address_def Let_def)

section \<open>Binaries that are loaded as a whole\<close>

text \<open>The memory of the new program before relocation: the image of the file, and zero in the bss.\<close>

definition program_image :: "bflt_header \<Rightarrow> addr \<Rightarrow> addr \<Rightarrow> memory \<Rightarrow> memory" where
  "program_image h header A m = (\<lambda>a.
     if unat (a - A) < unat (data_end h) - 64 then m (header + 64 + (a - A))
     else if unat (a - A) < unat (bss_end h) - 64 then 0 else m a)"

text \<open>Relocation: the load address is added to the word at each of the offsets.\<close>

definition relocated :: "addr \<Rightarrow> uint32_t list \<Rightarrow> memory \<Rightarrow> memory" where
  "relocated A offsets = fold (\<lambda>off m. store_word (A + off) (A + load_word (A + off) m) m) offsets"

definition header_wf :: "bflt_header \<Rightarrow> bool" where
  "header_wf h \<longleftrightarrow> 64 \<le> unat (data_end h) \<and> unat (data_end h) \<le> unat (bss_end h)"

lemma load_segments_flat:
  assumes "\<not> gotpic h" and "header_wf h" and "unat A + unat (bss_end h) < 2 ^ 32" and "unat header + unat (data_end h) < 2 ^ 32"
  shows "load_segments h header A data (A + data_end h - sizeof_bflt_header) m = program_image h header A m"
proof
  fix a
  let ?x = "a - A"
  have de: "unat (data_end h - 64) = unat (data_end h) - 64"
    using assms(2) by (subst unat_minus_no_wrap) (simp_all add: header_wf_def word_le_nat_alt)
  have bs: "unat (bss_end h - data_end h) = unat (bss_end h) - unat (data_end h)"
    using assms(2) by (subst unat_minus_no_wrap) (simp_all add: header_wf_def word_le_nat_alt)
  have h64: "unat (header + 64) = unat header + 64"
    using assms(2,4) unat_plus_of_nat [of header 64] by (simp add: header_wf_def)
  have cp: "memcpy A (header + 64) (data_end h - 64) m = (copy_range A (header + 64) (data_end h - 64) m, A)"
    using assms(2-4) unfolding header_wf_def by (intro memcpy_range; unfold de h64; linarith)
  have k: "data_end h - 64 = of_nat (unat (data_end h) - 64)" using de by (metis of_nat_unat ucast_id)
  have e: "a - (A + data_end h - 64) = ?x - of_nat (unat (data_end h) - 64)" unfolding k [symmetric] by simp
  have "unat (data_end h) - 64 + (unat (bss_end h) - unat (data_end h)) = unat (bss_end h) - 64"
    using assms(2) unfolding header_wf_def by linarith
  then have bss: "unat (a - (A + data_end h - 64)) < unat (bss_end h) - unat (data_end h) \<longleftrightarrow>
      unat (data_end h) - 64 \<le> unat ?x \<and> unat ?x < unat (bss_end h) - 64"
    using unat_lt_2_32 [of "bss_end h"] unat_lt_2_32 [of "data_end h"] unfolding e
    by (subst unat_minus_lt) simp_all
  show "load_segments h header A data (A + data_end h - sizeof_bflt_header) m a = program_image h header A m a"
    using assms(1) by (auto simp: load_segments_def sizeof_bflt_header_def cp memset_range fill_range_def copy_range_def
        word_less_nat_alt de bs bss program_image_def add.commute)
qed

definition same_outside :: "addr \<Rightarrow> nat \<Rightarrow> memory \<Rightarrow> memory \<Rightarrow> bool" where
  "same_outside A n m m' \<longleftrightarrow> (\<forall>a. n \<le> unat (a - A) \<longrightarrow> m' a = m a)"

lemma same_outside_store:
  assumes "same_outside A n m m'" and "unat off + 4 \<le> n" and "n < 2 ^ 32"
  shows "same_outside A n m (store_word (A + off) w m')"
  unfolding same_outside_def
proof (intro allI impI)
  fix a assume a: "n \<le> unat (a - A)"
  have "a - (A + off) = (a - A) - of_nat (unat off)" by simp
  moreover have "\<not> unat ((a - A) - of_nat (unat off)) < 4" using a assms(2,3) unat_minus_lt [of "unat off" 4 "a - A"] by simp
  ultimately have "\<not> unat (a - (A + off)) < 4" by (rule ssubst)
  with a assms(1) show "store_word (A + off) w m' a = m a" by (simp add: store_word_apply same_outside_def)
qed

lemma relocate_flat:
  assumes "A \<noteq> 0" and "unat A + n < 2 ^ 32" and "load_word (table + of_nat (4 * i)) m = off" and "unat off + 4 \<le> n"
  shows "relocate A (A + data_start h - sizeof_bflt_header) True h table i m = store_word (A + off) (A + load_word (A + off) m) m"
proof -
  have "unat (A + off) = unat A + unat off" using assms(2,4) by (intro unat_plus_no_wrap) simp
  then have "A + off \<noteq> NULL" using assms(1) unsigned_eq_0_iff [of A, where 'a = nat] by auto
  then show ?thesis unfolding relocate_def Let_def assms(3) not_True_eq_False offset_to_address_flat by simp
qed

lemma relocation_loop:
  assumes "A \<noteq> 0" and "unat A + n < 2 ^ 32"
    and "\<And>i. i \<in> set is \<Longrightarrow> unat (load_word (table + of_nat (4 * i)) m) + 4 \<le> n"
    and "\<And>i j. i \<in> set is \<Longrightarrow> j < 4 \<Longrightarrow> n \<le> unat (table + of_nat (4 * i) + of_nat j - A)"
    and "same_outside A n m m'"
  shows "fold (relocate A (A + data_start h - sizeof_bflt_header) True h table) is m' =
    relocated A (map (\<lambda>i. load_word (table + of_nat (4 * i)) m) is) m'"
  using assms(3-5)
proof (induction "is" arbitrary: m')
  case (Cons i "is")
  let ?off = "load_word (table + of_nat (4 * i)) m"
  have off: "unat ?off + 4 \<le> n" using Cons.prems(1) by simp
  have ld: "load_word (table + of_nat (4 * i)) m' = ?off"
    using Cons.prems(2) [of i] Cons.prems(3) by (intro load_word_cong) (simp add: same_outside_def)
  have "same_outside A n m (store_word (A + ?off) (A + load_word (A + ?off) m') m')"
    using assms(2) by (intro same_outside_store [OF Cons.prems(3) off]) simp
  then have "fold (relocate A (A + data_start h - sizeof_bflt_header) True h table) is (store_word (A + ?off) (A + load_word (A + ?off) m') m') =
      relocated A (map (\<lambda>i. load_word (table + of_nat (4 * i)) m) is) (store_word (A + ?off) (A + load_word (A + ?off) m') m')"
    using Cons.prems by (intro Cons.IH) auto
  then show ?case unfolding fold.simps list.map o_apply relocate_flat [OF assms(1,2) ld off]
    by (simp add: relocated_def)
qed (simp add: relocated_def)

text \<open>
  C12: loading a binary that is not position independent returns; the memory from the allocation on
  holds the file from behind its header on, then zeros for the bss, and every word that a
  relocation names has the load address added to it; no other memory changes. The thread starts at
  the entry point, relative to the allocation, with its stack at the end of the allocation. For
  segments in order, relocations inside them, and a relocation table outside the allocation.
\<close>

theorem bflt_load_flat:
  assumes "\<not> gotpic h" and "header_wf h" and "A \<noteq> 0"
    and "unat A + unat (bss_end h) < 2 ^ 32" and "unat header + unat (data_end h) < 2 ^ 32"
    and "offsets = map (\<lambda>i. load_word (header + relocations_start h + of_nat (4 * i)) m) [0..<unat (num_relocations h)]"
    and "list_all (\<lambda>off. unat off + 4 \<le> unat (bss_end h) - 64) offsets"
    and "\<And>i. i < 4 * unat (num_relocations h) \<Longrightarrow> unat (bss_end h) - 64 \<le> unat (header + relocations_start h + of_nat i - A)"
  shows "bflt_load h header A regs m = Some (relocated A offsets (program_image h header A m),
    regs\<lparr>program_counter := A + entry_point h - 64, stack_pointer := A + (bss_end h - 64 + stack_size h)\<rparr>)"
proof -
  let ?table = "header + relocations_start h" and ?n = "unat (bss_end h) - 64"
  have "fold (relocate A (A + data_start h - sizeof_bflt_header) True h ?table) [0..<unat (num_relocations h)] (program_image h header A m) =
      relocated A offsets (program_image h header A m)"
    unfolding assms(6)
  proof (rule relocation_loop [OF assms(3)])
    show "unat A + ?n < 2 ^ 32" using assms(4) by simp
    show "same_outside A ?n m (program_image h header A m)"
      using assms(2) by (auto simp: same_outside_def program_image_def header_wf_def)
    fix i assume i: "i \<in> set [0..<unat (num_relocations h)]"
    then show "unat (load_word (?table + of_nat (4 * i)) m) + 4 \<le> ?n"
      using assms(6,7) by (simp add: list_all_iff)
    fix j :: nat assume "j < 4"
    with i have "4 * i + j < 4 * unat (num_relocations h)" by simp
    from assms(8) [OF this] show "?n \<le> unat (?table + of_nat (4 * i) + of_nat j - A)"
      by (simp add: add.assoc)
  qed
  then show ?thesis
    using assms(1) load_segments_flat [OF assms(1,2,4,5)]
    by (simp add: bflt_load_def Let_def bflt_allocation_size_def set_stack_pointer_def set_program_counter_def sizeof_bflt_header_def)
qed

definition demo_header :: bflt_header where
  "demo_header = \<lparr>magic = [98, 70, 76, 84], version = 4, entry_point = 64, data_start = 68, data_end = 68, bss_end = 72,
     stack_size = 256, relocations_start = 68, num_relocations = 1, bflt_flags = BFLT_FLAG_RAM\<rparr>"

theorem bflt_load_flat_witness:
  "\<exists>m'. bflt_load demo_header 4096 16384 zero_registers (\<lambda>_. 0) =
      Some (m', zero_registers\<lparr>program_counter := 16384, stack_pointer := 16648\<rparr>) \<and> load_word 16384 m' = 16384"
proof -
  have h: "\<not> gotpic demo_header" "header_wf demo_header"
    by (simp_all add: demo_header_def gotpic_def BFLT_FLAG_RAM_def BFLT_FLAG_GOTPIC_def header_wf_def)
  have z: "load_word a (\<lambda>_. 0) = 0" for a by (simp add: load_word_def bytes_word_def)
  have d: "bss_end demo_header = 72" "data_end demo_header = 68" "relocations_start demo_header = 68" "num_relocations demo_header = 1"
    "entry_point demo_header = 64" "stack_size demo_header = 256" by (simp_all add: demo_header_def)
  have tab: "unat (bss_end demo_header) - 64 \<le> unat (4096 + relocations_start demo_header + of_nat i - 16384 :: addr)"
    if "i < 4 * unat (num_relocations demo_header)" for i
  proof -
    have "i = 0 \<or> i = 1 \<or> i = 2 \<or> i = 3" using that unfolding d by auto
    then show ?thesis unfolding d by (elim disjE; hypsubst; simp)
  qed
  have o: "[0] = map (\<lambda>i. load_word (4096 + relocations_start demo_header + of_nat (4 * i)) (\<lambda>_. 0)) [0..<unat (num_relocations demo_header)]"
    unfolding z d by simp
  have "bflt_load demo_header 4096 16384 zero_registers (\<lambda>_. 0) =
      Some (relocated 16384 [0] (program_image demo_header 4096 16384 (\<lambda>_. 0)),
        zero_registers\<lparr>program_counter := 16384 + entry_point demo_header - 64, stack_pointer := 16384 + (bss_end demo_header - 64 + stack_size demo_header)\<rparr>)"
    by (rule bflt_load_flat [OF h _ _ _ o _ tab]) (simp_all add: d)
  moreover have "program_image demo_header 4096 16384 (\<lambda>_. 0) = (\<lambda>_. 0)" by (simp add: program_image_def fun_eq_iff)
  ultimately show ?thesis by (simp add: relocated_def z load_store_word d)
qed

section \<open>The global offset table\<close>

text \<open>
  Fixing up a global offset table that has an end marker returns, and it replaces exactly the
  entries in front of the marker, each by the address it stands for; no memory outside the table changes.
\<close>

lemma fix_got_translates:
  assumes "\<And>i. i < n \<Longrightarrow> load_word (got + of_nat (4 * i)) m \<noteq> - 1" and "load_word (got + of_nat (4 * n)) m = - 1"
    and "4 * n + 4 \<le> 2 ^ 32"
  shows "\<exists>m'. fix_got text data h got m = Some m'
    \<and> (\<forall>i < n. load_word (got + of_nat (4 * i)) m' = offset_to_address text data False (data_start h) (load_word (got + of_nat (4 * i)) m))
    \<and> (\<forall>a. 4 * n \<le> unat (a - got) \<longrightarrow> m' a = m a)"
  using assms
proof (induction n arbitrary: got m)
  case 0
  then show ?case by (subst fix_got.simps) simp
next
  case (Suc n)
  let ?m = "store_word got (offset_to_address text data False (data_start h) (load_word got m)) m"
  have shift: "got + 4 + of_nat (4 * i) = got + of_nat (4 * Suc i)" for i by simp
  have same: "load_word (got + 4 + of_nat (4 * i)) ?m = load_word (got + of_nat (4 * Suc i)) m" if "i \<le> n" for i
    unfolding shift using that Suc.prems(3) by (intro store_word_other) simp_all
  have "load_word got m \<noteq> - 1" using Suc.prems(1) [of 0] by simp
  then have eq: "fix_got text data h got m = fix_got text data h (got + 4) ?m" by (subst fix_got.simps) simp
  have "\<exists>m'. fix_got text data h (got + 4) ?m = Some m'
    \<and> (\<forall>i < n. load_word (got + 4 + of_nat (4 * i)) m' = offset_to_address text data False (data_start h) (load_word (got + 4 + of_nat (4 * i)) ?m))
    \<and> (\<forall>a. 4 * n \<le> unat (a - (got + 4)) \<longrightarrow> m' a = ?m a)"
  proof (rule Suc.IH)
    show "load_word (got + 4 + of_nat (4 * i)) ?m \<noteq> - 1" if "i < n" for i
      using same [of i] Suc.prems(1) [of "Suc i"] that by simp
    show "load_word (got + 4 + of_nat (4 * n)) ?m = - 1" using same [of n] Suc.prems(2) by simp
  qed (use Suc.prems(3) in simp)
  then obtain m' where m': "fix_got text data h (got + 4) ?m = Some m'"
    "\<And>i. i < n \<Longrightarrow> load_word (got + 4 + of_nat (4 * i)) m' = offset_to_address text data False (data_start h) (load_word (got + 4 + of_nat (4 * i)) ?m)"
    "\<And>a. 4 * n \<le> unat (a - (got + 4)) \<Longrightarrow> m' a = ?m a" by blast
  have apart: "4 * n \<le> unat (a - (got + 4)) \<longleftrightarrow> unat (a - got) < 4 \<or> 4 * Suc n \<le> unat (a - got)" for a
  proof -
    have "a - (got + 4) = (a - got) - of_nat 4" by simp
    moreover have "unat ((a - got) - of_nat 4) < 4 * n \<longleftrightarrow> 4 \<le> unat (a - got) \<and> unat (a - got) < 4 + 4 * n"
      using Suc.prems(3) by (intro unat_minus_lt) simp_all
    ultimately show ?thesis by (metis add.commute mult_Suc_right not_le)
  qed
  have "load_word got m' = load_word got ?m"
  proof (rule load_word_cong)
    fix i :: nat assume "i < 4"
    then have "unat (got + of_nat i - got) = i" by (simp add: unat_of_nat_32)
    then show "m' (got + of_nat i) = ?m (got + of_nat i)" using \<open>i < 4\<close> by (intro m'(3)) (simp only: apart simp_thms)
  qed
  then have first: "load_word got m' = offset_to_address text data False (data_start h) (load_word got m)"
    by (simp add: load_store_word)
  have "load_word (got + of_nat (4 * i)) m' = offset_to_address text data False (data_start h) (load_word (got + of_nat (4 * i)) m)"
    if "i < Suc n" for i
  proof (cases i)
    case (Suc k)
    with that m'(2) [of k] same [of k] show ?thesis unfolding shift by simp
  qed (use first in simp)
  moreover have "m' a = m a" if "4 * Suc n \<le> unat (a - got)" for a
    using m'(3) [of a] that by (simp add: apart store_word_apply)
  ultimately show ?case unfolding eq using m'(1) by blast
qed

lemma fix_got_translates_example:
  "\<exists>m'. fix_got 4160 16384 demo_header 16384 (store_word 16388 (- 1) (\<lambda>_. 0)) = Some m' \<and> load_word 16384 m' = 4160"
proof -
  let ?m = "store_word 16388 (- 1) (\<lambda>_. 0)"
  have z: "load_word 16384 ?m = 0"
  proof -
    have "load_word 16384 ?m = load_word 16384 (\<lambda>_. 0)"
    proof (rule load_word_cong)
      fix i :: nat assume "i < 4"
      then have "i = 0 \<or> i = 1 \<or> i = 2 \<or> i = 3" by auto
      then have "4 \<le> unat (16384 + of_nat i - 16388 :: addr)" by (elim disjE; hypsubst; simp add: unsigned_minus_1_eq_mask mask_eq_exp_minus_1)
      then show "?m (16384 + of_nat i) = (0 :: uint8_t)" unfolding store_word_apply by simp
    qed
    then show ?thesis by (simp add: load_word_def bytes_word_def)
  qed
  have "load_word 16388 ?m = - 1" by (rule load_store_word)
  with z fix_got_translates [of 1 16384 ?m 4160 16384 demo_header] show ?thesis
    by (auto simp: offset_to_address_def Let_def demo_header_def sizeof_bflt_header_def)
qed

section \<open>Binaries with a global offset table\<close>

lemma fix_got_returns:
  assumes "load_word (got + of_nat (4 * n)) m = - 1" and "4 * n + 4 \<le> 2 ^ 32"
  shows "\<exists>m'. fix_got text data h got m = Some m'"
proof -
  define k where "k = (LEAST k. load_word (got + of_nat (4 * k)) m = - 1)"
  have k: "load_word (got + of_nat (4 * k)) m = - 1" unfolding k_def by (rule LeastI [of _ n]) (rule assms(1))
  have "load_word (got + of_nat (4 * i)) m \<noteq> - 1" if "i < k" for i
    using not_less_Least [of i "\<lambda>k. load_word (got + of_nat (4 * k)) m = - 1"] that unfolding k_def by blast
  moreover have "k \<le> n" unfolding k_def by (rule Least_le) (rule assms(1))
  then have "4 * k + 4 \<le> 2 ^ 32" using assms(2) by linarith
  ultimately show ?thesis using fix_got_translates [of k got m] k by blast
qed

text \<open>
  A binary with a global offset table as the linker makes it, and memory to load it into: the segments are in order, the table at the start of
  the data has its end marker, the relocations in the data are inside it and leave the marker alone, and the memory
  neither reaches the end of the address space nor has the relocations of the file in it.
\<close>

definition relocation_ok :: "nat \<Rightarrow> nat \<Rightarrow> bflt_header \<Rightarrow> uint32_t \<Rightarrow> bool" where
  "relocation_ok n k h off \<longleftrightarrow> off < data_start h - sizeof_bflt_header
     \<or> (let r = unat (off - (data_start h - sizeof_bflt_header)) in r + 4 \<le> n \<and> (r + 4 \<le> 4 * k \<or> 4 * k + 4 \<le> r))"

definition got_marked :: "memory \<Rightarrow> bflt_header \<Rightarrow> addr \<Rightarrow> addr \<Rightarrow> nat \<Rightarrow> bool" where
  "got_marked m h header A k \<longleftrightarrow>
     (let n = unat (bss_end h) - unat (data_start h); table = header + relocations_start h in
      unat (data_start h) \<le> unat (data_end h) \<and> unat (data_end h) \<le> unat (bss_end h)
      \<and> unat A + unat (bss_end h) < 2 ^ 32 \<and> unat header + unat (data_end h) < 2 ^ 32
      \<and> 4 * k + 4 \<le> unat (data_end h) - unat (data_start h) \<and> load_word (header + data_start h + of_nat (4 * k)) m = - 1
      \<and> (\<forall>i < unat (num_relocations h). relocation_ok n k h (load_word (table + of_nat (4 * i)) m)
           \<and> (\<forall>j < 4. n \<le> unat (table + of_nat (4 * i) + of_nat j - A))))"

definition loadable :: "memory \<Rightarrow> addr \<Rightarrow> addr \<Rightarrow> bool" where
  "loadable m header A \<longleftrightarrow> (let h = bflt_header_at m header in gotpic h \<longrightarrow> (\<exists>k. got_marked m h header A k))"

text \<open>Copying the data brings the marker along.\<close>

lemma load_segments_got:
  assumes "gotpic h" and "got_marked m h header A k"
  shows "load_word (A + of_nat (4 * k)) (load_segments h header text A (A + data_end h - data_start h) m) = - 1"
    and "same_outside A (unat (bss_end h) - unat (data_start h)) m (load_segments h header text A (A + data_end h - data_start h) m)"
proof -
  let ?N = "unat (data_end h) - unat (data_start h)" and ?n = "unat (bss_end h) - unat (data_start h)"
  have w: "unat (data_start h) \<le> unat (data_end h)" "unat (data_end h) \<le> unat (bss_end h)" "unat A + unat (bss_end h) < 2 ^ 32"
    "unat header + unat (data_end h) < 2 ^ 32" "4 * k + 4 \<le> ?N" "load_word (header + data_start h + of_nat (4 * k)) m = - 1"
    using assms(2) by (simp_all add: got_marked_def Let_def)
  have N: "unat (data_end h - data_start h) = ?N" using w(1) by (intro unat_minus_no_wrap) (simp add: word_le_nat_alt)
  have B: "unat (bss_end h - data_end h) = unat (bss_end h) - unat (data_end h)"
    using w(2) by (intro unat_minus_no_wrap) (simp add: word_le_nat_alt)
  have src: "unat (header + data_start h) = unat header + unat (data_start h)" using w(1,4) by (intro unat_plus_no_wrap) simp
  have cp: "memcpy A (header + data_start h) (data_end h - data_start h) m = (copy_range A (header + data_start h) (data_end h - data_start h) m, A)"
    using w(1-4) by (intro memcpy_range; unfold N src; linarith)
  have kN: "data_end h - data_start h = of_nat ?N" using N by (metis of_nat_unat ucast_id)
  have stop: "a - (A + data_end h - data_start h) = (a - A) - of_nat ?N" for a unfolding kN [symmetric] by simp
  have bss: "unat (a - (A + data_end h - data_start h)) < unat (bss_end h) - unat (data_end h) \<longleftrightarrow> ?N \<le> unat (a - A) \<and> unat (a - A) < ?n" for a
    unfolding stop using w(1,2) unat_lt_2_32 [of "bss_end h"] by (subst unat_minus_lt) auto
  have seg: "load_segments h header text A (A + data_end h - data_start h) m a =
      (if unat (a - A) < ?N then m (a - A + (header + data_start h)) else if unat (a - A) < ?n then 0 else m a)" for a
    using assms(1) w(1,2) by (auto simp: load_segments_def cp memset_range fill_range_def copy_range_def word_less_nat_alt N B bss)
  show "same_outside A ?n m (load_segments h header text A (A + data_end h - data_start h) m)"
    using w(2) by (auto simp: same_outside_def seg)
  have bytes: "load_segments h header text A (A + data_end h - data_start h) m (A + of_nat (4 * k) + of_nat i) =
      m (header + data_start h + of_nat (4 * k) + of_nat i)" if "i < 4" for i
  proof -
    have "A + of_nat (4 * k) + of_nat i - A = (of_nat (4 * k + i) :: addr)" by simp
    moreover have "unat (of_nat (4 * k + i) :: addr) = 4 * k + i"
      using that w(5) unat_lt_2_32 [of "data_end h"] by (intro unat_of_nat_32) linarith
    ultimately show ?thesis unfolding seg using that w(5) by (simp add: ac_simps)
  qed
  from bytes [of 0] bytes [of 1] bytes [of 2] bytes [of 3] have "load_word (A + of_nat (4 * k)) (load_segments h header text A (A + data_end h - data_start h) m) =
      load_word (header + data_start h + of_nat (4 * k)) m"
    by (simp add: load_word_def)
  with w(6) show "load_word (A + of_nat (4 * k)) (load_segments h header text A (A + data_end h - data_start h) m) = - 1" by simp
qed

text \<open>Relocations keep it.\<close>

lemma store_word_apart:
  assumes "r + 4 \<le> 4 * k \<or> 4 * k + 4 \<le> r" and "r + 4 \<le> n" and "4 * k + 4 \<le> n" and "n < 2 ^ 32" and "unat x = r"
  shows "load_word (A + of_nat (4 * k)) (store_word (A + x) v m) = load_word (A + of_nat (4 * k)) m"
proof (rule load_word_cong)
  fix i :: nat assume i: "i < 4"
  have "A + of_nat (4 * k) + of_nat i - (A + x) = of_nat (4 * k + i) - of_nat r" unfolding assms(5) [symmetric] by simp
  moreover have "unat (of_nat (4 * k + i) :: addr) = 4 * k + i" using i assms(3,4) by (intro unat_of_nat_32) linarith
  ultimately have "\<not> unat (A + of_nat (4 * k) + of_nat i - (A + x)) < 4"
    using unat_minus_lt [of r 4 "of_nat (4 * k + i)"] i assms(1-4) by (simp only: ) linarith
  then show "store_word (A + x) v m (A + of_nat (4 * k) + of_nat i) = m (A + of_nat (4 * k) + of_nat i)"
    by (simp add: store_word_apply)
qed

lemma relocations_got:
  assumes "n < 2 ^ 32" and "4 * k + 4 \<le> n"
    and "\<And>i. i \<in> set is \<Longrightarrow> relocation_ok n k h (load_word (table + of_nat (4 * i)) m)"
    and "\<And>i j. i \<in> set is \<Longrightarrow> j < 4 \<Longrightarrow> n \<le> unat (table + of_nat (4 * i) + of_nat j - A)"
    and "same_outside A n m m'" and "load_word (A + of_nat (4 * k)) m' = - 1"
  shows "load_word (A + of_nat (4 * k)) (fold (relocate text_start A False h table) is m') = - 1"
  using assms(3-6)
proof (induction "is" arbitrary: m')
  case (Cons i "is")
  define off where "off = load_word (table + of_nat (4 * i)) m"
  define x where "x = off - (data_start h - sizeof_bflt_header)"
  have ld: "load_word (table + of_nat (4 * i)) m' = off"
    unfolding off_def using Cons.prems(2) [of i] Cons.prems(3) by (intro load_word_cong) (simp add: same_outside_def)
  have ok: "relocation_ok n k h off" using Cons.prems(1) by (simp add: off_def)
  define m1 where "m1 = relocate text_start A False h table i m'"
  have "m1 = m' \<or> (m1 = store_word (A + x) (offset_to_address text_start A False (data_start h) (load_word (A + x) m')) m'
      \<and> unat x + 4 \<le> n \<and> (unat x + 4 \<le> 4 * k \<or> 4 * k + 4 \<le> unat x))"
    using ok unfolding m1_def relocate_def ld by (auto simp: offset_to_address_def Let_def relocation_ok_def x_def algebra_simps)
  then have "same_outside A n m m1 \<and> load_word (A + of_nat (4 * k)) m1 = - 1"
    using Cons.prems(3,4) same_outside_store [OF Cons.prems(3), of x] store_word_apart [OF _ _ assms(2,1) refl, of x A] assms(1) by metis
  then show ?case using Cons.IH [of m1] Cons.prems by (simp add: m1_def)
qed simp

text \<open>So loading returns, for every binary and place to load it that is as described.\<close>

lemma bflt_load_returns:
  assumes "loadable m header A"
  shows "\<exists>m' r. bflt_load (bflt_header_at m header) header A regs m = Some (m', r)"
proof (cases "gotpic (bflt_header_at m header)")
  case False
  then show ?thesis by (simp add: bflt_load_def Let_def)
next
  case True
  define h where "h = bflt_header_at m header"
  obtain k where k: "got_marked m h header A k" using assms True by (auto simp: loadable_def h_def Let_def)
  let ?n = "unat (bss_end h) - unat (data_start h)"
  have n: "?n < 2 ^ 32" "4 * k + 4 \<le> ?n" using k unat_lt_2_32 [of "bss_end h"] by (auto simp: got_marked_def Let_def)
  define m2 where "m2 = fold (relocate (header + sizeof_bflt_header) A False h (header + relocations_start h)) [0..<unat (num_relocations h)]
      (load_segments h header (header + sizeof_bflt_header) A (A + data_end h - data_start h) m)"
  note seg = load_segments_got [OF True [folded h_def] k, of "header + sizeof_bflt_header"]
  have "load_word (A + of_nat (4 * k)) m2 = - 1" unfolding m2_def
    by (rule relocations_got [OF n _ _ seg(2,1)]) (use k in \<open>auto simp: got_marked_def Let_def\<close>)
  from fix_got_returns [OF this] n obtain m3 where "fix_got (header + sizeof_bflt_header) A h A m2 = Some m3" by fastforce
  then show ?thesis using True by (simp add: bflt_load_def Let_def h_def [symmetric] m2_def)
qed

end
