(* ===== verification/Process_Server.thy ===== *)
theory Process_Server
  imports Vfs_Client Jax Bflt
begin

unbundle bit_operations_syntax

text \<open>
  The process server, \<open>core/process_server/processes.c\<close> and \<open>early_init.c\<close>: the table of process ids,
  a bitmap in untyped memory; starting a program out of the initrd; and the start of the first two
  servers. It runs on the system calls of \<open>Syscalls\<close>. What it prints is left out. The initrd lies
  between two addresses the linker provides.
\<close>

section \<open>Layout of the capability space\<close>

definition PID_SET_SLOT :: size_t where "PID_SET_SLOT = 2"
definition PID_THREAD_NODE_SLOT :: size_t where "PID_THREAD_NODE_SLOT = 3"
definition PID_INFO_NODE_SLOT :: size_t where "PID_INFO_NODE_SLOT = 4"
definition PID_DATA_NODE_SLOT :: size_t where "PID_DATA_NODE_SLOT = 5"
definition ENDPOINT_SLOT :: size_t where "ENDPOINT_SLOT = 6"
definition ROOT_NODE_ADDRESS :: size_t where "ROOT_NODE_ADDRESS = 7"
definition VFS_ENDPOINT_SLOT :: size_t where "VFS_ENDPOINT_SLOT = 8"
definition ROOT_FD_SLOT :: size_t where "ROOT_FD_SLOT = 9"
definition PID_MAX :: nat where "PID_MAX = 1024"
definition PID_BITS :: size_t where "PID_BITS = 9"

abbreviation node_depth :: size_t where "node_depth \<equiv> of_nat INIT_NODE_DEPTH"

definition slot_in :: "size_t \<Rightarrow> size_t \<Rightarrow> size_t" where
  "slot_in node i = push_bit INIT_NODE_DEPTH i OR node"

definition alloc_object :: "'k os \<Rightarrow> uint8_t \<Rightarrow> size_t \<Rightarrow> size_t \<Rightarrow> size_t \<Rightarrow> 'k world \<Rightarrow> ('k world \<times> size_t) option" where
  "alloc_object os ty sz address depth =
     sys_invoke os 0 SIZE_MAX ADDRESS_SPACE_ALLOC
       (Alloc_args \<lparr>alloc_type = ty, alloc_arg_size = sz, alloc_address = address, alloc_depth = depth\<rparr>)"

definition assert_that :: "bool \<Rightarrow> unit option" where
  "assert_that b = (if b then Some () else None)"

section \<open>Process ids\<close>

definition init_process_table :: "'k os \<Rightarrow> 'k world \<Rightarrow> 'k world option" where
  "init_process_table os w = do {
     (w1, _) \<leftarrow> alloc_object os TYPE_UNTYPED (of_nat (PID_MAX div 8)) PID_SET_SLOT SIZE_MAX w;
     (w2, pointer) \<leftarrow> sys_invoke os PID_SET_SLOT SIZE_MAX UNTYPED_LOCK (Number 0) w1;
     let w3 = w2\<lparr>ram := store_word pointer 3 (fst (memset pointer 0 (of_nat (PID_MAX div 8)) (ram w2)))\<rparr>;
     (w4, _) \<leftarrow> sys_invoke os PID_SET_SLOT SIZE_MAX UNTYPED_UNLOCK (Number 0) w3;
     (w5, _) \<leftarrow> alloc_object os TYPE_NODE PID_BITS PID_THREAD_NODE_SLOT SIZE_MAX w4;
     (w6, _) \<leftarrow> alloc_object os TYPE_NODE PID_BITS PID_INFO_NODE_SLOT SIZE_MAX w5;
     (w7, _) \<leftarrow> alloc_object os TYPE_NODE PID_BITS PID_DATA_NODE_SLOT SIZE_MAX w6;
     Some w7
   }"

text \<open>The search for a free id: \<open>left\<close> words from the \<open>i\<close>-th on, at the pointer.\<close>

fun find_free_pid :: "nat \<Rightarrow> nat \<Rightarrow> addr \<Rightarrow> memory \<Rightarrow> memory \<times> uint16_t" where
  "find_free_pid 0 i pointer m = (m, 0)"
| "find_free_pid (Suc left) i pointer m =
     (let value = load_word pointer m in
      if value = 0xffffffff then find_free_pid left (Suc i) (pointer + 4) m
      else
        let bit_index = first_clear_bit value 0 32
        in (store_word pointer (value OR push_bit bit_index 1) m, of_nat (i * 32 + bit_index)))"

definition allocate_pid :: "'k os \<Rightarrow> 'k world \<Rightarrow> ('k world \<times> uint16_t) option" where
  "allocate_pid os w = do {
     (w1, pointer) \<leftarrow> sys_invoke os PID_SET_SLOT SIZE_MAX UNTYPED_LOCK (Number 0) w;
     (if pointer = NULL then Some (w1, 0)
      else do {
        let (m, pid) = find_free_pid (PID_MAX div 32) 0 pointer (ram w1);
        (w2, _) \<leftarrow> sys_invoke os PID_SET_SLOT SIZE_MAX UNTYPED_UNLOCK (Number 0) (w1\<lparr>ram := m\<rparr>);
        Some (w2, pid)
      })
   }"

definition release_pid :: "'k os \<Rightarrow> uint16_t \<Rightarrow> 'k world \<Rightarrow> 'k world option" where
  "release_pid os pid w = do {
     (w1, pointer) \<leftarrow> sys_invoke os PID_SET_SLOT SIZE_MAX UNTYPED_LOCK (Number 0) w;
     let a = pointer + 4 * ucast (pid div 32);
     let m = store_word a (load_word a (ram w1) AND NOT (push_bit (unat (pid mod 32)) 1)) (ram w1);
     (w2, _) \<leftarrow> sys_invoke os PID_SET_SLOT SIZE_MAX UNTYPED_UNLOCK (Number 0) (w1\<lparr>ram := m\<rparr>);
     Some w2
   }"

section \<open>Starting programs\<close>

definition delete_slot :: "'k os \<Rightarrow> size_t \<Rightarrow> uint16_t \<Rightarrow> 'k world \<Rightarrow> 'k world option" where
  "delete_slot os node pid w = map_option fst (sys_invoke os node node_depth NODE_DELETE (Number (ucast pid)) w)"

type_synonym 'k registers_callback = "thread_registers \<Rightarrow> 'k world \<Rightarrow> ('k world \<times> thread_registers \<times> size_t) option"

text \<open>\<open>junk_file\<close> and \<open>junk_registers\<close> are local variables before they are assigned.\<close>

definition exec_from_initrd ::
    "'k os \<Rightarrow> jax_file \<Rightarrow> thread_registers \<Rightarrow> uint16_t \<Rightarrow> jax_iterator \<Rightarrow> addr \<Rightarrow> size_t \<Rightarrow> size_t
      \<Rightarrow> 'k registers_callback option \<Rightarrow> 'k world \<Rightarrow> ('k world \<times> size_t) option" where
  "exec_from_initrd os junk_file junk_registers pid iter filename root_node_address root_node_depth registers_callback w = do {
     (_, found) \<leftarrow> jax_find (ram w) iter filename TYPE_REGULAR junk_file;
     (case found of None \<Rightarrow> Some (w, ENOENT)
      | Some (file_address, _) \<Rightarrow>
          let header = bflt_header_at (ram w) file_address;
              data_address = slot_in PID_DATA_NODE_SLOT (ucast pid);
              thread_address = slot_in PID_THREAD_NODE_SLOT (ucast pid) in
          if \<not> bflt_verify header then Some (w, ENOEXEC)
          else do {
            (w1, r1) \<leftarrow> alloc_object os TYPE_UNTYPED (bflt_allocation_size header) data_address SIZE_MAX w;
            (if r1 \<noteq> 0 then Some (w1, ENOMEM)
             else do {
               (w2, r2) \<leftarrow> alloc_object os TYPE_THREAD 0 thread_address SIZE_MAX w1;
               (if r2 \<noteq> 0 then do { w3 \<leftarrow> delete_slot os PID_DATA_NODE_SLOT pid w2; Some (w3, ENOMEM) }
                else do {
                  (w3, data) \<leftarrow> sys_invoke os data_address SIZE_MAX UNTYPED_LOCK (Number 0) w2;
                  (if data = NULL then do {
                     w4 \<leftarrow> delete_slot os PID_DATA_NODE_SLOT pid w3;
                     w5 \<leftarrow> delete_slot os PID_THREAD_NODE_SLOT pid w4;
                     Some (w5, ENOMEM)
                   }
                   else do {
                     (m, regs) \<leftarrow> bflt_load (bflt_header_at (ram w3) file_address) file_address data junk_registers (ram w3);
                     (w4, regs, callback_result) \<leftarrow> (case registers_callback of None \<Rightarrow> Some (w3\<lparr>ram := m\<rparr>, regs, 0)
                                                   | Some f \<Rightarrow> f regs (w3\<lparr>ram := m\<rparr>));
                     (if callback_result \<noteq> 0 then do {
                        w5 \<leftarrow> delete_slot os PID_DATA_NODE_SLOT pid w4;
                        w6 \<leftarrow> delete_slot os PID_THREAD_NODE_SLOT pid w5;
                        Some (w6, ENOMEM)
                      }
                      else do {
                        (w5, _) \<leftarrow> sys_invoke os thread_address SIZE_MAX THREAD_WRITE_REGISTERS
                                    (Register_args regs (of_nat sizeof_thread_registers)) w4;
                        (w6, _) \<leftarrow> sys_invoke os thread_address SIZE_MAX THREAD_SET_ROOT_NODE
                                    (Root_args \<lparr>root_address = root_node_address, root_depth = root_node_depth\<rparr>) w5;
                        (w7, _) \<leftarrow> sys_invoke os thread_address SIZE_MAX THREAD_RESUME (Number 0) w6;
                        Some (w7, 0)
                      })
                   })
                })
             })
          })
   }"

section \<open>Arguments of a new thread (core/include/sys/arch/68000.h)\<close>

definition start_arguments :: "thread_registers \<Rightarrow> size_t \<Rightarrow> size_t \<times> thread_registers" where
  "start_arguments regs arguments_size_bytes =
     (4, regs\<lparr>stack_pointer := stack_pointer regs - (arguments_size_bytes + 4)\<rparr>)"

text \<open>Copies the first bytes of the argument, the high ones; for sizes of at most four bytes.\<close>

definition add_argument :: "size_t \<Rightarrow> thread_registers \<Rightarrow> size_t \<Rightarrow> uint8_t \<Rightarrow> memory \<Rightarrow> memory \<times> size_t" where
  "add_argument increment regs argument argument_size_bytes m =
     (store_bytes (stack_pointer regs + increment) (take (unat argument_size_bytes) (word_bytes argument)) m,
      increment + ucast argument_size_bytes)"

section \<open>Early initialization\<close>

definition copy_to_root :: "'k os \<Rightarrow> size_t \<Rightarrow> size_t \<Rightarrow> size_t \<Rightarrow> 'k world \<Rightarrow> ('k world \<times> size_t) option" where
  "copy_to_root os source depth dest =
     sys_invoke os ROOT_NODE_ADDRESS node_depth NODE_COPY
       (Node_args \<lparr>source_address = source, source_depth = depth, dest_slot = dest, args_access_rights = 255,
                   args_badge = 0, should_set_badge = 0\<rparr>)"

definition start_process ::
    "'k os \<Rightarrow> addr \<times> addr \<Rightarrow> jax_file \<Rightarrow> thread_registers \<Rightarrow> addr \<Rightarrow> (uint16_t \<Rightarrow> 'k world \<Rightarrow> 'k world option)
      \<Rightarrow> 'k registers_callback option \<Rightarrow> 'k world \<Rightarrow> 'k world option" where
  "start_process os initrd junk_file junk_registers filename setup_callback registers_callback w = do {
     (w1, pid) \<leftarrow> allocate_pid os w;
     (w2, r2) \<leftarrow> alloc_object os TYPE_NODE (of_nat INIT_NODE_DEPTH) ROOT_NODE_ADDRESS node_depth w1;
     _ \<leftarrow> assert_that (r2 = 0);
     (w3, r3) \<leftarrow> copy_to_root os 0 SIZE_MAX 0 w2;
     _ \<leftarrow> assert_that (r3 = 0);
     (w4, r4) \<leftarrow> copy_to_root os 1 SIZE_MAX 1 w3;
     _ \<leftarrow> assert_that (r4 = 0);
     w5 \<leftarrow> setup_callback pid w4;
     iter \<leftarrow> open_jax (ram w5) (fst initrd) (snd initrd);
     (w6, r6) \<leftarrow> exec_from_initrd os junk_file junk_registers pid iter filename ROOT_NODE_ADDRESS node_depth registers_callback w5;
     _ \<leftarrow> assert_that (r6 = 0);
     Some w6
   }"

definition vfs_server_setup_callback :: "'k os \<Rightarrow> size_t \<times> size_t \<Rightarrow> uint16_t \<Rightarrow> 'k world \<Rightarrow> 'k world option" where
  "vfs_server_setup_callback os endpoint pid w = do {
     (w1, r) \<leftarrow> copy_to_root os (fst endpoint) (snd endpoint) 2 w;
     _ \<leftarrow> assert_that (r = 0);
     Some w1
   }"

definition initrd_fs_setup_callback :: "'k os \<Rightarrow> size_t \<times> size_t \<Rightarrow> uint16_t \<Rightarrow> 'k world \<Rightarrow> 'k world option" where
  "initrd_fs_setup_callback os endpoint pid w = do {
     (w1, r, _, _) \<leftarrow> vfs_call os VFS_ENDPOINT_SLOT (fst endpoint)
       (new_message [VFS_NEW_PROCESS, VFS_SHARE_NAMESPACE, ucast (drop_bit 8 pid), ucast (pid AND 0xff), 0, 1]
          [(fst endpoint, SIZE_MAX)] 1)
       (new_message [] [(slot_in ROOT_NODE_ADDRESS 2, SIZE_MAX)] 0) w;
     _ \<leftarrow> assert_that (r = 0);
     Some w1
   }"

definition initrd_fs_registers_callback :: "addr \<times> addr \<Rightarrow> 'k registers_callback" where
  "initrd_fs_registers_callback addresses regs w =
     (let (increment, regs1) = start_arguments regs (4 * 2);
          (m1, increment1) = add_argument increment regs1 (fst addresses) 4 (ram w);
          (m2, increment2) = add_argument increment1 regs1 (snd addresses) 4 m1
      in Some (w\<lparr>ram := m2\<rparr>, regs1, 0))"

text \<open>The addresses of the two file names are those of string literals.\<close>

definition early_init ::
    "'k os \<Rightarrow> addr \<times> addr \<Rightarrow> jax_file \<Rightarrow> thread_registers \<Rightarrow> addr \<Rightarrow> addr \<Rightarrow> 'k world \<Rightarrow> 'k world option" where
  "early_init os initrd junk_file junk_registers vfs_server_name initrd_fs_name w = do {
     (w1, r1) \<leftarrow> alloc_object os TYPE_ENDPOINT 0 ENDPOINT_SLOT SIZE_MAX w;
     _ \<leftarrow> assert_that (r1 = 0);
     let endpoint = (ENDPOINT_SLOT, SIZE_MAX);
     w2 \<leftarrow> start_process os initrd junk_file junk_registers vfs_server_name (vfs_server_setup_callback os endpoint) None w1;
     (w3, r3, _) \<leftarrow> sys_receive os (fst endpoint) (snd endpoint) (new_message [] [(VFS_ENDPOINT_SLOT, SIZE_MAX)] 0) w2;
     _ \<leftarrow> assert_that (r3 = 0);
     (w4, r4, _) \<leftarrow> sys_receive os (fst endpoint) (snd endpoint) (new_message [] [(ROOT_FD_SLOT, SIZE_MAX)] 0) w3;
     _ \<leftarrow> assert_that (r4 = 0);
     start_process os initrd junk_file junk_registers initrd_fs_name (initrd_fs_setup_callback os endpoint)
       (Some (initrd_fs_registers_callback initrd)) w4
   }"

end
