(* ===== verification/Vfs_Structures.thy ===== *)
theory Vfs_Structures
  imports Process_Server
begin

unbundle bit_operations_syntax

text \<open>
  The data of the VFS server, \<open>core/vfs_server\<close>: the layout of its capability space
  (\<open>capabilities_layout.h\<close>, \<open>ipc.h\<close>), its bitmaps of used structures (\<open>structures.c\<close>), replies
  (\<open>utils.c\<close>) and the lists of mounted file systems (\<open>mount_lists.c\<close>). Structures are untyped memory:
  their members are words at fixed offsets, with the alignment to two bytes of the 68000. A
  callback takes the world and gives it back; \<open>None\<close> is a loop that never ends or a failed assertion.
\<close>

section \<open>Layout of the capability space\<close>

definition PROCESS_DATA_NODE_SLOT :: size_t where "PROCESS_DATA_NODE_SLOT = 4"
definition MOUNT_POINTS_NODE_SLOT :: size_t where "MOUNT_POINTS_NODE_SLOT = 5"
definition USED_MOUNT_POINT_IDS_SLOT :: size_t where "USED_MOUNT_POINT_IDS_SLOT = 6"
definition MOUNTED_LIST_INFO_SLOT :: size_t where "MOUNTED_LIST_INFO_SLOT = 7"
definition MOUNTED_LIST_NODE_SLOT :: size_t where "MOUNTED_LIST_NODE_SLOT = 8"
definition USED_MOUNTED_LISTS_SLOT :: size_t where "USED_MOUNTED_LISTS_SLOT = 9"
definition NAMESPACE_NODE_SLOT :: size_t where "NAMESPACE_NODE_SLOT = 10"
definition USED_NAMESPACES_SLOT :: size_t where "USED_NAMESPACES_SLOT = 11"
definition DIRECTORY_NODE_SLOT :: size_t where "DIRECTORY_NODE_SLOT = 12"
definition DIRECTORY_INFO_SLOT :: size_t where "DIRECTORY_INFO_SLOT = 13"
definition USED_DIRECTORY_IDS_SLOT :: size_t where "USED_DIRECTORY_IDS_SLOT = 14"
definition THREAD_STORAGE_NODE_SLOT :: size_t where "THREAD_STORAGE_NODE_SLOT = 15"

definition MOUNT_POINTS_BITS :: size_t where "MOUNT_POINTS_BITS = 8"
definition MAX_MOUNT_POINTS :: size_t where "MAX_MOUNT_POINTS = 256"
definition MOUNTED_FS_BITS :: nat where "MOUNTED_FS_BITS = 8"
definition MAX_MOUNTED_FS :: size_t where "MAX_MOUNTED_FS = 256"
definition NAMESPACE_BITS :: size_t where "NAMESPACE_BITS = 8"
definition MAX_NAMESPACES :: size_t where "MAX_NAMESPACES = 256"
definition DIRECTORY_BITS :: size_t where "DIRECTORY_BITS = 8"
definition MAX_OPEN_DIRECTORIES :: size_t where "MAX_OPEN_DIRECTORIES = 256"
definition THREAD_STORAGE_BITS :: nat where "THREAD_STORAGE_BITS = 3"
definition MAX_WORKER_THREADS :: nat where "MAX_WORKER_THREADS = 8"
definition THREAD_STORAGE_NODE_BITS :: nat where "THREAD_STORAGE_NODE_BITS = 3"
definition SIZE_BITS :: nat where "SIZE_BITS = 32"
definition MOUNTED_LIST_ENTRY_BITS :: size_t where "MOUNTED_LIST_ENTRY_BITS = 5"
definition REPLY_ENDPOINT_SLOT :: size_t where "REPLY_ENDPOINT_SLOT = push_bit THREAD_STORAGE_BITS 1 - 1"

definition THREAD_STORAGE_ADDRESS :: "size_t \<Rightarrow> size_t" where
  "THREAD_STORAGE_ADDRESS worker = push_bit INIT_NODE_DEPTH worker OR THREAD_STORAGE_NODE_SLOT"

definition THREAD_STORAGE_DEPTH :: size_t where
  "THREAD_STORAGE_DEPTH = of_nat (THREAD_STORAGE_BITS + INIT_NODE_DEPTH)"

definition THREAD_STORAGE_SLOT :: "size_t \<Rightarrow> size_t \<Rightarrow> size_t" where
  "THREAD_STORAGE_SLOT worker slot =
     push_bit (THREAD_STORAGE_BITS + INIT_NODE_DEPTH) slot OR THREAD_STORAGE_ADDRESS worker"

definition THREAD_STORAGE_SLOT_DEPTH :: size_t where
  "THREAD_STORAGE_SLOT_DEPTH = of_nat THREAD_STORAGE_NODE_BITS + THREAD_STORAGE_DEPTH"

definition MOUNTED_LIST_INFO_ADDRESS :: "size_t \<Rightarrow> size_t" where
  "MOUNTED_LIST_INFO_ADDRESS index = push_bit INIT_NODE_DEPTH index OR MOUNTED_LIST_INFO_SLOT"

definition MOUNTED_LIST_NODE_ADDRESS :: "size_t \<Rightarrow> size_t" where
  "MOUNTED_LIST_NODE_ADDRESS index = push_bit INIT_NODE_DEPTH index OR MOUNTED_LIST_NODE_SLOT"

definition MOUNTED_LIST_NODE_DEPTH :: size_t where
  "MOUNTED_LIST_NODE_DEPTH = of_nat (INIT_NODE_DEPTH + MOUNTED_FS_BITS)"

definition MOUNTED_LIST_SLOT :: "size_t \<Rightarrow> size_t \<Rightarrow> size_t" where
  "MOUNTED_LIST_SLOT index slot = push_bit MOUNTED_FS_BITS slot OR MOUNTED_LIST_NODE_ADDRESS index"

definition DIRECTORY_ADDRESS :: "size_t \<Rightarrow> size_t" where
  "DIRECTORY_ADDRESS i = push_bit INIT_NODE_DEPTH i OR DIRECTORY_NODE_SLOT"

definition DIRECTORY_INFO_ADDRESS :: "size_t \<Rightarrow> size_t" where
  "DIRECTORY_INFO_ADDRESS i = push_bit INIT_NODE_DEPTH i OR DIRECTORY_INFO_SLOT"

definition IPC_FLAG_CAN_MODIFY :: size_t where "IPC_FLAG_CAN_MODIFY = 1"
definition IPC_FLAG_IS_DIRECTORY :: size_t where "IPC_FLAG_IS_DIRECTORY = 2"
definition IPC_FLAG_IS_MOUNT_POINT :: size_t where "IPC_FLAG_IS_MOUNT_POINT = 3"
definition IPC_FLAGS :: "size_t \<Rightarrow> size_t" where "IPC_FLAGS badge = badge AND 3"
definition IPC_ID :: "size_t \<Rightarrow> size_t" where "IPC_ID badge = drop_bit 2 badge"
definition IPC_BADGE :: "size_t \<Rightarrow> size_t \<Rightarrow> size_t" where "IPC_BADGE i flags = push_bit 2 i OR (flags AND 3)"

text \<open>Sizes of the structures.\<close>

definition sizeof_process_data :: size_t where "sizeof_process_data = 6"
definition sizeof_mounted_list_info :: size_t where "sizeof_mounted_list_info = 12"
definition sizeof_fs_namespace :: size_t where "sizeof_fs_namespace = 520"
definition sizeof_directory_info :: size_t where "sizeof_directory_info = 14"
definition sizeof_mount_point :: nat where "sizeof_mount_point = 24"

record vfs_state =
  worker_id :: size_t
  temp_slot :: size_t
  endpoint_address :: size_t

abbreviation lock :: "'k os \<Rightarrow> size_t \<Rightarrow> 'k world \<Rightarrow> ('k world \<times> addr) option" where
  "lock os address \<equiv> sys_invoke os address SIZE_MAX UNTYPED_LOCK (Number 0)"

abbreviation unlock :: "'k os \<Rightarrow> size_t \<Rightarrow> 'k world \<Rightarrow> ('k world \<times> size_t) option" where
  "unlock os address \<equiv> sys_invoke os address SIZE_MAX UNTYPED_UNLOCK (Number 0)"

definition put :: "addr \<Rightarrow> uint32_t \<Rightarrow> 'k world \<Rightarrow> 'k world" where
  "put a v w = w\<lparr>ram := store_word a v (ram w)\<rparr>"

section \<open>Bitmaps of used structures (structures.c)\<close>

definition clear_allocation :: "'k os \<Rightarrow> size_t \<Rightarrow> 'k world \<Rightarrow> 'k world option" where
  "clear_allocation os address w = do {
     (w1, sz) \<leftarrow> sys_invoke os address SIZE_MAX UNTYPED_SIZEOF (Number 0) w;
     (w2, pointer) \<leftarrow> lock os address w1;
     _ \<leftarrow> assert_that (pointer \<noteq> NULL);
     (w3, r) \<leftarrow> unlock os address (w2\<lparr>ram := fst (memset pointer 0 sz (ram w2))\<rparr>);
     _ \<leftarrow> assert_that (r = 0);
     Some w3
   }"

definition alloc_checked :: "'k os \<Rightarrow> uint8_t \<Rightarrow> size_t \<Rightarrow> size_t \<Rightarrow> 'k world \<Rightarrow> 'k world option" where
  "alloc_checked os ty sz address w = do {
     (w1, r) \<leftarrow> alloc_object os ty sz address SIZE_MAX w;
     _ \<leftarrow> assert_that (r = 0);
     Some w1
   }"

text \<open>The storage of one worker thread: a node, and in it an endpoint for replies.\<close>

definition init_worker :: "'k os \<Rightarrow> size_t \<Rightarrow> 'k world \<Rightarrow> 'k world option" where
  "init_worker os i w = do {
     let node_address = push_bit INIT_NODE_DEPTH i OR THREAD_STORAGE_NODE_SLOT;
     w1 \<leftarrow> alloc_checked os TYPE_NODE 3 node_address w;
     alloc_checked os TYPE_ENDPOINT 0
       (push_bit (THREAD_STORAGE_NODE_BITS + INIT_NODE_DEPTH) REPLY_ENDPOINT_SLOT OR node_address) w1
   }"

fun init_workers :: "'k os \<Rightarrow> nat \<Rightarrow> nat \<Rightarrow> 'k world \<Rightarrow> 'k world option" where
  "init_workers os 0 i w = Some w"
| "init_workers os (Suc left) i w = do { w1 \<leftarrow> init_worker os (of_nat i) w; init_workers os left (Suc i) w1 }"

definition init_vfs_structures :: "'k os \<Rightarrow> 'k world \<Rightarrow> 'k world option" where
  "init_vfs_structures os w = do {
     w1 \<leftarrow> alloc_checked os TYPE_NODE PID_BITS PROCESS_DATA_NODE_SLOT w;
     w2 \<leftarrow> alloc_checked os TYPE_NODE MOUNT_POINTS_BITS MOUNT_POINTS_NODE_SLOT w1;
     w3 \<leftarrow> alloc_checked os TYPE_UNTYPED (MAX_MOUNT_POINTS div 8) USED_MOUNT_POINT_IDS_SLOT w2;
     w4 \<leftarrow> clear_allocation os USED_MOUNT_POINT_IDS_SLOT w3;
     w5 \<leftarrow> alloc_checked os TYPE_NODE (of_nat MOUNTED_FS_BITS) MOUNTED_LIST_INFO_SLOT w4;
     w6 \<leftarrow> alloc_checked os TYPE_NODE (of_nat MOUNTED_FS_BITS) MOUNTED_LIST_NODE_SLOT w5;
     w7 \<leftarrow> alloc_checked os TYPE_UNTYPED (MAX_MOUNTED_FS div 8) USED_MOUNTED_LISTS_SLOT w6;
     w8 \<leftarrow> clear_allocation os USED_MOUNTED_LISTS_SLOT w7;
     w9 \<leftarrow> alloc_checked os TYPE_NODE NAMESPACE_BITS NAMESPACE_NODE_SLOT w8;
     w10 \<leftarrow> alloc_checked os TYPE_UNTYPED (MAX_NAMESPACES div 8) USED_NAMESPACES_SLOT w9;
     w11 \<leftarrow> clear_allocation os USED_NAMESPACES_SLOT w10;
     w12 \<leftarrow> alloc_checked os TYPE_NODE DIRECTORY_BITS DIRECTORY_NODE_SLOT w11;
     w13 \<leftarrow> alloc_checked os TYPE_NODE DIRECTORY_BITS DIRECTORY_INFO_SLOT w12;
     w14 \<leftarrow> alloc_checked os TYPE_UNTYPED (MAX_OPEN_DIRECTORIES div 8) USED_DIRECTORY_IDS_SLOT w13;
     w15 \<leftarrow> clear_allocation os USED_DIRECTORY_IDS_SLOT w14;
     w16 \<leftarrow> alloc_checked os TYPE_NODE (of_nat THREAD_STORAGE_NODE_BITS) THREAD_STORAGE_NODE_SLOT w15;
     init_workers os MAX_WORKER_THREADS 0 w16
   }"

text \<open>
  The search for a clear bit, which it sets: the memory, the id (0 when every bit is set), and where
  the pointer is left: at the word that has the bit, or behind the last word.
\<close>

fun find_free_slot :: "nat \<Rightarrow> nat \<Rightarrow> addr \<Rightarrow> memory \<Rightarrow> memory \<times> size_t \<times> addr" where
  "find_free_slot 0 i pointer m = (m, 0, pointer)"
| "find_free_slot (Suc left) i pointer m =
     (let value = load_word pointer m in
      if value = SIZE_MAX then find_free_slot left (Suc i) (pointer + 4) m
      else
        let bit_index = first_clear_bit value 0 32
        in (store_word pointer (value OR push_bit bit_index 1) m, of_nat (i * SIZE_BITS + bit_index), pointer))"

definition clear_bit_at :: "addr \<Rightarrow> size_t \<Rightarrow> memory \<Rightarrow> memory" where
  "clear_bit_at pointer slot_id m =
     (let a = pointer + 4 * (slot_id div of_nat SIZE_BITS)
      in store_word a (load_word a m AND NOT (push_bit (unat (slot_id mod of_nat SIZE_BITS)) 1)) m)"

type_synonym 'k slot_callback = "size_t \<Rightarrow> 'k world \<Rightarrow> ('k world \<times> size_t) option"

definition find_slot_for :: "'k os \<Rightarrow> size_t \<Rightarrow> size_t \<Rightarrow> 'k slot_callback \<Rightarrow> 'k world \<Rightarrow> ('k world \<times> size_t) option" where
  "find_slot_for os used_slots_address max_items fn w = do {
     (w1, pointer) \<leftarrow> lock os used_slots_address w;
     (if pointer = NULL then Some (w1, SIZE_MAX)
      else do {
        let (m, slot_id, pointer) = find_free_slot (unat max_items div SIZE_BITS) 0 pointer (ram w1);
        (w2, result) \<leftarrow> fn slot_id (w1\<lparr>ram := m\<rparr>);
        let w3 = (if result = SIZE_MAX then w2\<lparr>ram := clear_bit_at pointer slot_id (ram w2)\<rparr> else w2);
        (w4, _) \<leftarrow> unlock os used_slots_address w3;
        Some (w4, result)
      })
   }"

definition mark_slot_unused :: "'k os \<Rightarrow> size_t \<Rightarrow> size_t \<Rightarrow> size_t \<Rightarrow> 'k world \<Rightarrow> ('k world \<times> size_t) option" where
  "mark_slot_unused os used_slots_address max_items slot_number w = do {
     (w1, pointer) \<leftarrow> lock os used_slots_address w;
     (if pointer = NULL then Some (w1, ENOMEM)
      else if slot_number \<ge> max_items then do {
        (w2, unlock_result) \<leftarrow> unlock os used_slots_address w1;
        Some (w2, if unlock_result \<noteq> 0 then unlock_result else 1)
      }
      else unlock os used_slots_address (w1\<lparr>ram := clear_bit_at pointer slot_number (ram w1)\<rparr>))
   }"

definition alloc_structure_callback :: "'k os \<Rightarrow> size_t \<Rightarrow> size_t \<Rightarrow> 'k slot_callback" where
  "alloc_structure_callback os structure_size node_address slot_id w = do {
     let address = node_address OR push_bit INIT_NODE_DEPTH slot_id;
     (w1, r) \<leftarrow> alloc_object os TYPE_UNTYPED structure_size address SIZE_MAX w;
     Some (w1, if r = 0 then address else SIZE_MAX)
   }"

definition alloc_structure :: "'k os \<Rightarrow> size_t \<Rightarrow> size_t \<Rightarrow> size_t \<Rightarrow> size_t \<Rightarrow> 'k world \<Rightarrow> ('k world \<times> size_t) option" where
  "alloc_structure os used_slots_address node_address max_items structure_size =
     find_slot_for os used_slots_address max_items (alloc_structure_callback os structure_size node_address)"

definition free_structure :: "'k os \<Rightarrow> size_t \<Rightarrow> size_t \<Rightarrow> size_t \<Rightarrow> size_t \<Rightarrow> 'k world \<Rightarrow> ('k world \<times> size_t) option" where
  "free_structure os used_slots_address node_address max_items structure_address w = do {
     let slot_number = drop_bit INIT_NODE_DEPTH structure_address;
     (w1, result) \<leftarrow> sys_invoke os node_address node_depth NODE_DELETE (Number slot_number) w;
     (if result \<noteq> 0 then Some (w1, result)
      else mark_slot_unused os used_slots_address max_items slot_number w1)
   }"

section \<open>Replies (utils.c)\<close>

definition return_value :: "'k os \<Rightarrow> size_t \<Rightarrow> size_t \<Rightarrow> 'k world \<Rightarrow> 'k world option" where
  "return_value os reply_capability error_code w =
     map_option fst (sys_send os reply_capability SIZE_MAX (put_word 0 error_code (new_message [] [] 0)) w)"

definition badge_and_send :: "'k os \<Rightarrow> vfs_state \<Rightarrow> size_t \<Rightarrow> size_t \<Rightarrow> 'k world \<Rightarrow> ('k world \<times> size_t) option" where
  "badge_and_send os st badge reply_endpoint_address w = do {
     let storage = THREAD_STORAGE_ADDRESS (worker_id st);
     (w1, result) \<leftarrow> sys_invoke os storage THREAD_STORAGE_DEPTH NODE_COPY
        (Node_args \<lparr>source_address = endpoint_address st, source_depth = SIZE_MAX, dest_slot = temp_slot st,
                    args_access_rights = 255, args_badge = badge, should_set_badge = 1\<rparr>) w;
     (if result \<noteq> 0 then Some (w1, result)
      else do {
        (w2, _, _) \<leftarrow> sys_send os reply_endpoint_address SIZE_MAX
           (put_word 0 0 (new_message [] [(THREAD_STORAGE_SLOT (worker_id st) (temp_slot st), THREAD_STORAGE_SLOT_DEPTH)] 0)) w1;
        (w3, _) \<leftarrow> sys_invoke os storage THREAD_STORAGE_DEPTH NODE_DELETE (Number (temp_slot st)) w2;
        Some (w3, 0)
      })
   }"

section \<open>Lists of mounted file systems (mount_lists.c)\<close>

definition create_mounted_list_entry :: "'k os \<Rightarrow> 'k world \<Rightarrow> ('k world \<times> size_t) option" where
  "create_mounted_list_entry os w = do {
     (w1, info_address) \<leftarrow> alloc_structure os USED_MOUNTED_LISTS_SLOT MOUNTED_LIST_INFO_SLOT MAX_MOUNTED_FS sizeof_mounted_list_info w;
     (if info_address = SIZE_MAX then Some (w1, SIZE_MAX)
      else do {
        (w2, info) \<leftarrow> lock os info_address w1;
        (if info = NULL then do {
           (w3, _) \<leftarrow> free_structure os USED_MOUNTED_LISTS_SLOT MOUNTED_LIST_INFO_SLOT MAX_MOUNTED_FS info_address w2;
           Some (w3, SIZE_MAX)
         }
         else do {
           (w3, _) \<leftarrow> unlock os info_address (put (info + 8) SIZE_MAX (put (info + 4) 0 (put info 0 w2)));
           let index = drop_bit INIT_NODE_DEPTH info_address;
           (w4, r) \<leftarrow> alloc_object os TYPE_NODE MOUNTED_LIST_ENTRY_BITS (MOUNTED_LIST_NODE_ADDRESS index) SIZE_MAX w3;
           (if r \<noteq> 0 then do {
              (w5, _) \<leftarrow> free_structure os USED_MOUNTED_LISTS_SLOT MOUNTED_LIST_INFO_SLOT MAX_MOUNTED_FS info_address w4;
              Some (w5, SIZE_MAX)
            }
            else Some (w4, index))
         })
      })
   }"

text \<open>One entry of the list: moves the file descriptor into its first free slot.\<close>

definition insert_here :: "'k os \<Rightarrow> size_t \<Rightarrow> addr \<Rightarrow> size_t \<Rightarrow> uint8_t \<Rightarrow> 'k world \<Rightarrow> ('k world \<times> size_t) option" where
  "insert_here os index info directory_fd mount_flags w = do {
     let slot_index = first_clear_bit (load_word info (ram w)) 0 32;
     (w1, result) \<leftarrow> sys_invoke os (MOUNTED_LIST_NODE_ADDRESS index) MOUNTED_LIST_NODE_DEPTH NODE_MOVE
        (Node_args \<lparr>source_address = directory_fd, source_depth = SIZE_MAX, dest_slot = of_nat slot_index,
                    args_access_rights = 0, args_badge = 0, should_set_badge = 0\<rparr>) w;
     (if result \<noteq> 0 then Some (w1, result)
      else
        let w2 = put info (load_word info (ram w1) OR push_bit slot_index 1) w1
        in Some (if mount_flags AND MOUNT_CREATE \<noteq> 0
                 then put (info + 4) (load_word (info + 4) (ram w2) OR push_bit slot_index 1) w2 else w2, 0))
   }"

partial_function (option) mounted_list_insert_loop ::
    "'k os \<Rightarrow> size_t \<Rightarrow> size_t \<Rightarrow> size_t \<Rightarrow> uint8_t \<Rightarrow> 'k world \<Rightarrow> ('k world \<times> size_t) option" where
  "mounted_list_insert_loop os index result directory_fd mount_flags w =
     (if index = SIZE_MAX then Some (w, result)
      else do {
        (w1, info) \<leftarrow> lock os (MOUNTED_LIST_INFO_ADDRESS index) w;
        (if info = NULL then Some (w1, ENOMEM)
         else if load_word info (ram w1) = SIZE_MAX then
           let next_index = load_word (info + 8) (ram w1) in
           do {
             (w2, next_index, result) \<leftarrow>
               (if next_index = SIZE_MAX then do {
                  (w2, new_index) \<leftarrow> create_mounted_list_entry os w1;
                  Some (put (info + 8) new_index w2, new_index, ENOMEM)
                }
                else Some (w1, next_index, result));
             (w3, _) \<leftarrow> unlock os (MOUNTED_LIST_INFO_ADDRESS index) w2;
             mounted_list_insert_loop os next_index result directory_fd mount_flags w3
           }
         else do {
           (w2, result) \<leftarrow> insert_here os index info directory_fd mount_flags w1;
           (w3, _) \<leftarrow> unlock os (MOUNTED_LIST_INFO_ADDRESS index) w2;
           mounted_list_insert_loop os SIZE_MAX result directory_fd mount_flags w3
         })
      })"

definition mounted_list_insert :: "'k os \<Rightarrow> size_t \<Rightarrow> size_t \<Rightarrow> uint8_t \<Rightarrow> 'k world \<Rightarrow> ('k world \<times> size_t) option" where
  "mounted_list_insert os index = mounted_list_insert_loop os index EUNKNOWN"

text \<open>
  A callback over file descriptors carries its own data of type \<open>'a\<close>; it says whether to go on, and
  the value to return if not.
\<close>

type_synonym ('k, 'a) mount_callback = "size_t \<Rightarrow> bool \<Rightarrow> 'a \<Rightarrow> 'k world \<Rightarrow> ('k world \<times> 'a \<times> bool \<times> size_t) option"

fun iterate_slots ::
    "('k, 'a) mount_callback \<Rightarrow> size_t \<Rightarrow> addr \<Rightarrow> nat \<Rightarrow> nat \<Rightarrow> 'a \<Rightarrow> 'k world \<Rightarrow> ('k world \<times> 'a \<times> size_t option) option" where
  "iterate_slots fn index info 0 i d w = Some (w, d, None)"
| "iterate_slots fn index info (Suc left) i d w =
     (if load_word info (ram w) AND push_bit i 1 = 0 then iterate_slots fn index info left (Suc i) d w
      else do {
        (w1, d1, go_on, result) \<leftarrow> fn (MOUNTED_LIST_SLOT index (of_nat i)) (load_word (info + 4) (ram w) AND push_bit i 1 \<noteq> 0) d w;
        (if go_on then iterate_slots fn index info left (Suc i) d1 w1 else Some (w1, d1, Some result))
      })"

text \<open>
  The code reads a member of the structure before it checks that locking it succeeded; the value is
  not used when it did not.
\<close>

partial_function (option) iterate_over_mounted_list ::
    "'k os \<Rightarrow> size_t \<Rightarrow> 'a \<Rightarrow> ('k, 'a) mount_callback \<Rightarrow> 'k world \<Rightarrow> ('k world \<times> 'a \<times> size_t) option" where
  "iterate_over_mounted_list os index d fn w =
     (if index = SIZE_MAX then Some (w, d, ENOENT)
      else do {
        (w1, info) \<leftarrow> lock os (MOUNTED_LIST_INFO_ADDRESS index) w;
        let next_index = load_word (info + 8) (ram w1);
        (if info = NULL then Some (w1, d, ENOMEM)
         else do {
           (w2, d1, stopped) \<leftarrow> iterate_slots fn index info 32 0 d w1;
           (w3, _) \<leftarrow> unlock os (MOUNTED_LIST_INFO_ADDRESS index) w2;
           (case stopped of Some result \<Rightarrow> Some (w3, d1, result)
            | None \<Rightarrow> iterate_over_mounted_list os next_index d1 fn w3)
         })
      })"

end
