(* ===== verification/Vfs_Server.thy ===== *)
theory Vfs_Server
  imports Vfs_Structures
begin

unbundle bit_operations_syntax

text \<open>
  The operations of the VFS server (\<open>namespaces.c\<close>, \<open>directories.c\<close>, \<open>mount_points.c\<close> and \<open>main.c\<close> of
  \<open>core/vfs_server\<close>): namespaces of processes, mount points, directories that it hands out as badged
  endpoints and proxies to the file system servers, and the dispatch of messages. A pointer to a
  directory structure is a function that reads the structure from memory, so that it can also stand
  for a local variable. Debug output is left out.
\<close>

section \<open>Namespaces (namespaces.c)\<close>

definition NAMESPACE_BUCKETS :: nat where "NAMESPACE_BUCKETS = 128"

definition namespace_at :: "size_t \<Rightarrow> size_t" where
  "namespace_at i = push_bit INIT_NODE_DEPTH i OR NAMESPACE_NODE_SLOT"

fun fill_buckets :: "nat \<Rightarrow> addr \<Rightarrow> 'k world \<Rightarrow> 'k world" where
  "fill_buckets 0 a w = w"
| "fill_buckets (Suc left) a w = fill_buckets left (a + 4) (put a SIZE_MAX w)"

definition alloc_namespace :: "'k os \<Rightarrow> 'k world \<Rightarrow> ('k world \<times> size_t) option" where
  "alloc_namespace os w = do {
     (w1, address) \<leftarrow> alloc_structure os USED_NAMESPACES_SLOT NAMESPACE_NODE_SLOT MAX_NAMESPACES sizeof_fs_namespace w;
     (if address = SIZE_MAX then Some (w1, SIZE_MAX)
      else do {
        (w2, ns) \<leftarrow> lock os address w1;
        (if ns = NULL then do {
           (w3, _) \<leftarrow> free_structure os USED_NAMESPACES_SLOT NAMESPACE_NODE_SLOT MAX_NAMESPACES address w2;
           Some (w3, SIZE_MAX)
         }
         else do {
           (w3, _) \<leftarrow> unlock os address (fill_buckets NAMESPACE_BUCKETS (ns + 8) (put (ns + 4) SIZE_MAX (put ns 1 w2)));
           Some (w3, address)
         })
      })
   }"

definition free_namespace :: "'k os \<Rightarrow> size_t \<Rightarrow> 'k world \<Rightarrow> 'k world option" where
  "free_namespace os i w = do {
     let address = namespace_at i;
     (w1, ns) \<leftarrow> lock os address w;
     (if ns = NULL then Some w1
      else do {
        let references = load_word ns (ram w1);
        let should_free = (references \<le> 1);
        (w2, _) \<leftarrow> unlock os address (if should_free then w1 else put ns (references - 1) w1);
        (if should_free
         then map_option fst (free_structure os USED_NAMESPACES_SLOT NAMESPACE_NODE_SLOT MAX_NAMESPACES address w2)
         else Some w2)
      })
   }"

definition permutation_table :: "uint8_t list" where
  "permutation_table = [
    14, 132, 225, 182, 47, 210, 44, 79, 83, 145, 5, 135, 192, 162, 205, 91,
    29, 55, 48, 152, 246, 12, 117, 104, 211, 119, 49, 206, 36, 72, 24, 3,
    227, 9, 41, 239, 250, 61, 164, 200, 247, 184, 108, 161, 99, 185, 230, 126,
    96, 70, 163, 170, 77, 15, 43, 81, 76, 187, 52, 180, 178, 80, 86, 253,
    141, 105, 157, 168, 93, 196, 193, 13, 232, 125, 115, 183, 127, 51, 129, 222,
    113, 251, 121, 101, 20, 169, 94, 197, 229, 151, 218, 95, 114, 64, 124, 208,
    147, 0, 27, 103, 50, 189, 252, 238, 107, 173, 130, 235, 106, 33, 167, 30,
    156, 237, 140, 57, 214, 249, 155, 143, 78, 39, 203, 171, 2, 242, 219, 177,
    215, 216, 54, 23, 191, 34, 84, 69, 244, 176, 45, 241, 174, 158, 179, 6,
    153, 65, 149, 68, 85, 195, 112, 234, 42, 25, 58, 254, 102, 92, 100, 82,
    220, 236, 1, 110, 56, 63, 194, 136, 16, 223, 139, 209, 35, 37, 40, 87,
    148, 199, 201, 233, 217, 255, 59, 146, 207, 190, 116, 32, 7, 4, 98, 154,
    97, 134, 60, 46, 38, 138, 22, 204, 175, 172, 17, 73, 133, 142, 10, 213,
    240, 11, 228, 66, 131, 224, 118, 74, 181, 160, 19, 159, 31, 53, 248, 120,
    88, 71, 90, 137, 166, 165, 21, 212, 122, 231, 226, 18, 123, 128, 109, 221,
    144, 186, 28, 243, 75, 26, 188, 67, 8, 89, 202, 111, 150, 198, 245, 62]"

definition pearson_hash :: "size_t \<Rightarrow> uint8_t" where
  "pearson_hash value = foldl (\<lambda>result b. permutation_table ! unat (result XOR b)) 0 (word_bytes value)"

definition bucket_at :: "addr \<Rightarrow> uint32_t \<Rightarrow> addr" where
  "bucket_at ns inode = ns + 8 + of_nat (4 * (unat (pearson_hash inode) mod NAMESPACE_BUCKETS))"

text \<open>The bytes of a new mount point, in the order of its members.\<close>

record mount_point =
  mp_previous :: size_t
  mp_next :: size_t
  mp_references :: size_t
  mp_enclosing_filesystem :: size_t
  mp_inode :: uint32_t
  mp_mounted_list_index :: size_t

definition store_mount_point :: "addr \<Rightarrow> mount_point \<Rightarrow> 'k world \<Rightarrow> 'k world" where
  "store_mount_point a x w =
     put (a + 20) (mp_mounted_list_index x) (put (a + 16) (mp_inode x) (put (a + 12) (mp_enclosing_filesystem x)
       (put (a + 8) (mp_references x) (put (a + 4) (mp_next x) (put a (mp_previous x) w)))))"

definition free_mount_point :: "'k os \<Rightarrow> size_t \<Rightarrow> 'k world \<Rightarrow> 'k world option" where
  "free_mount_point os address w =
     map_option fst (free_structure os USED_MOUNT_POINT_IDS_SLOT MOUNT_POINTS_NODE_SLOT MAX_MOUNT_POINTS address w)"

text \<open>Entering the mount point at \<open>address\<close>, whose structure is at \<open>p\<close>, into its bucket.\<close>

definition add_to_bucket :: "'k os \<Rightarrow> addr \<Rightarrow> size_t \<Rightarrow> addr \<Rightarrow> 'k world \<Rightarrow> ('k world \<times> bool) option" where
  "add_to_bucket os ns address p w = do {
     let bucket = bucket_at ns (load_word (p + 16) (ram w));
     let first = load_word bucket (ram w);
     (if first = SIZE_MAX then Some (put bucket address w, True)
      else do {
        (w1, other) \<leftarrow> lock os first w;
        (if other = NULL then do { w2 \<leftarrow> free_mount_point os address w1; Some (w2, False) }
         else do {
           (w2, _) \<leftarrow> unlock os first (put other address w1);
           Some (put bucket address (put (p + 4) (load_word bucket (ram w2)) w2), True)
         })
      })
   }"

definition add_mount_point_to_namespace :: "'k os \<Rightarrow> addr \<Rightarrow> mount_point \<Rightarrow> 'k world \<Rightarrow> ('k world \<times> size_t) option" where
  "add_mount_point_to_namespace os ns mount_point w = do {
     (w1, address) \<leftarrow> alloc_structure os USED_MOUNT_POINT_IDS_SLOT MOUNT_POINTS_NODE_SLOT MAX_MOUNT_POINTS (of_nat sizeof_mount_point) w;
     (if address = SIZE_MAX then Some (w1, ENOMEM)
      else do {
        (w2, p) \<leftarrow> lock os address w1;
        (if p = NULL then do { w3 \<leftarrow> free_mount_point os address w2; Some (w3, ENOMEM) }
         else do {
           let w3 = store_mount_point p mount_point w2;
           (w4, ok) \<leftarrow> (if load_word (ns + 4) (ram w3) = SIZE_MAX then Some (put (ns + 4) address w3, True)
                        else add_to_bucket os ns address p w3);
           (if \<not> ok then Some (w4, ENOMEM)
            else do {
              (w5, _) \<leftarrow> unlock os address w4;
              Some (w5, 0)
            })
         })
      })
   }"

partial_function (option) find_mount_point_loop ::
    "'k os \<Rightarrow> uint32_t \<Rightarrow> size_t \<Rightarrow> size_t \<Rightarrow> 'k world \<Rightarrow> ('k world \<times> size_t) option" where
  "find_mount_point_loop os inode enclosing_filesystem address w =
     (if address = SIZE_MAX then Some (w, SIZE_MAX)
      else do {
        (w1, p) \<leftarrow> lock os address w;
        (if p = NULL then Some (w1, SIZE_MAX)
         else
           let found = (load_word (p + 16) (ram w1) = inode \<and> load_word (p + 12) (ram w1) = enclosing_filesystem);
               next_address = load_word (p + 4) (ram w1) in
           do {
             (w2, _) \<leftarrow> unlock os address w1;
             (if found then Some (w2, address)
              else find_mount_point_loop os inode enclosing_filesystem next_address w2)
           })
      })"

definition find_mount_point :: "'k os \<Rightarrow> size_t \<Rightarrow> uint32_t \<Rightarrow> size_t \<Rightarrow> 'k world \<Rightarrow> ('k world \<times> size_t) option" where
  "find_mount_point os namespace_id inode enclosing_filesystem w = do {
     let namespace_address = namespace_at namespace_id;
     (w1, ns) \<leftarrow> lock os namespace_address w;
     (if ns = NULL then Some (w1, SIZE_MAX)
      else do {
        (w2, result) \<leftarrow> find_mount_point_loop os inode enclosing_filesystem (load_word (bucket_at ns inode) (ram w1)) w1;
        (w3, _) \<leftarrow> unlock os namespace_address w2;
        Some (w3, result)
      })
   }"

section \<open>Directories (directories.c)\<close>

record directory_info =
  di_namespace_id :: size_t
  di_can_modify :: bool
  di_inode :: uint32_t
  di_filesystem :: size_t

text \<open>The last member is a union: the enclosing file system of a directory, or the address of a mount point.\<close>

definition load_directory_info :: "addr \<Rightarrow> memory \<Rightarrow> directory_info" where
  "load_directory_info p m =
     \<lparr>di_namespace_id = load_word p m, di_can_modify = (m (p + 4) \<noteq> 0), di_inode = load_word (p + 6) m,
      di_filesystem = load_word (p + 10) m\<rparr>"

definition put_flag :: "addr \<Rightarrow> bool \<Rightarrow> 'k world \<Rightarrow> 'k world" where
  "put_flag a b w = w\<lparr>ram := (ram w)(a := if b then 1 else 0)\<rparr>"

definition store_directory_info :: "addr \<Rightarrow> directory_info \<Rightarrow> 'k world \<Rightarrow> 'k world" where
  "store_directory_info p x w =
     put (p + 10) (di_filesystem x) (put (p + 6) (di_inode x) (put_flag (p + 4) (di_can_modify x) (put p (di_namespace_id x) w)))"

type_synonym info_pointer = "memory \<Rightarrow> directory_info"

definition reply_to :: "ipc_message \<Rightarrow> size_t" where
  "reply_to message = fst (msg_capabilities message ! 0)"

definition S_ISDIR :: "uint16_t \<Rightarrow> bool" where
  "S_ISDIR mode \<longleftrightarrow> mode AND push_bit 9 15 = push_bit 9 2"

definition open_file_callback ::
    "'k os \<Rightarrow> size_t \<Rightarrow> size_t \<Rightarrow> size_t \<Rightarrow> uint8_t \<Rightarrow> uint8_t \<Rightarrow> 'k slot_callback" where
  "open_file_callback os fd_endpoint reply_endpoint name_address flags mode slot w = do {
     let fd_address = push_bit INIT_NODE_DEPTH slot OR DIRECTORY_NODE_SLOT;
     (w1, result) \<leftarrow> fd_open os fd_endpoint reply_endpoint name_address fd_address flags mode w;
     Some (w1, if result = 0 then fd_address else SIZE_MAX)
   }"

definition open_mount_point ::
    "'k os \<Rightarrow> vfs_state \<Rightarrow> size_t \<Rightarrow> size_t \<Rightarrow> info_pointer \<Rightarrow> uint32_t \<Rightarrow> size_t \<Rightarrow> 'k world \<Rightarrow> ('k world \<times> size_t) option" where
  "open_mount_point os st opened_file_address mount_point_address info inode reply_address w = do {
     let opened_file_slot = drop_bit INIT_NODE_DEPTH opened_file_address;
     let info_address = DIRECTORY_INFO_ADDRESS opened_file_slot;
     (w1, result) \<leftarrow> alloc_object os TYPE_UNTYPED sizeof_directory_info info_address SIZE_MAX w;
     (if result \<noteq> 0 then Some (w1, result)
      else do {
        (w2, _) \<leftarrow> sys_invoke os DIRECTORY_NODE_SLOT node_depth NODE_DELETE (Number opened_file_slot) w1;
        (w3, new_info) \<leftarrow> lock os info_address w2;
        (if new_info = NULL then Some (w3, ENOMEM)
         else do {
           (w4, _) \<leftarrow> unlock os info_address (store_directory_info new_info
              \<lparr>di_namespace_id = di_namespace_id (info (ram w3)), di_can_modify = di_can_modify (info (ram w3)),
               di_inode = inode, di_filesystem = mount_point_address\<rparr> w3);
           badge_and_send os st (IPC_BADGE info_address IPC_FLAG_IS_MOUNT_POINT) reply_address w4
         })
      })
   }"

definition proxy_directory ::
    "'k os \<Rightarrow> vfs_state \<Rightarrow> size_t \<Rightarrow> info_pointer \<Rightarrow> uint32_t \<Rightarrow> size_t \<Rightarrow> 'k world \<Rightarrow> ('k world \<times> size_t) option" where
  "proxy_directory os st opened_file_address info inode reply_address w = do {
     let new_directory_id = drop_bit INIT_NODE_DEPTH opened_file_address;
     let info_address = DIRECTORY_INFO_ADDRESS new_directory_id;
     (w1, result) \<leftarrow> alloc_object os TYPE_UNTYPED sizeof_directory_info info_address SIZE_MAX w;
     (if result \<noteq> 0 then Some (w1, result)
      else do {
        (w2, new_info) \<leftarrow> lock os info_address w1;
        (if new_info = NULL then do {
           (w3, _) \<leftarrow> sys_invoke os DIRECTORY_INFO_SLOT node_depth NODE_DELETE (Number new_directory_id) w2;
           Some (w3, result)
         }
         else do {
           (w3, _) \<leftarrow> unlock os info_address (store_directory_info new_info ((info (ram w2))\<lparr>di_inode := inode\<rparr>) w2);
           (w4, result) \<leftarrow> badge_and_send os st (IPC_BADGE new_directory_id IPC_FLAG_IS_MOUNT_POINT) reply_address w3;
           (if result \<noteq> 0 then do {
              (w5, _) \<leftarrow> sys_invoke os DIRECTORY_INFO_SLOT node_depth NODE_DELETE (Number new_directory_id) w4;
              Some (w5, result)
            }
            else Some (w4, result))
         })
      })
   }"

text \<open>
  The results of \<open>open_mount_point\<close> and \<open>proxy_directory\<close> go to a variable of an inner block: the
  label the code jumps to on failure returns the outer one, which is 0.
\<close>

definition open_file ::
    "'k os \<Rightarrow> vfs_state \<Rightarrow> size_t \<Rightarrow> info_pointer \<Rightarrow> ipc_message \<Rightarrow> 'k world \<Rightarrow> ('k world \<times> size_t) option" where
  "open_file os st fd_endpoint info message w = do {
     let reply_endpoint_address = THREAD_STORAGE_SLOT (worker_id st) REPLY_ENDPOINT_SLOT;
     (w1, opened_file_address) \<leftarrow> find_slot_for os USED_DIRECTORY_IDS_SLOT MAX_OPEN_DIRECTORIES
        (open_file_callback os fd_endpoint reply_endpoint_address (fst (msg_capabilities message ! 1))
           (msg_buffer message ! 1) (msg_buffer message ! 2)) w;
     (if opened_file_address = SIZE_MAX then Some (w1, ENOMEM)
      else do {
        let give_up = (\<lambda>w result. do {
              (w', _) \<leftarrow> free_structure os USED_DIRECTORY_IDS_SLOT DIRECTORY_NODE_SLOT MAX_OPEN_DIRECTORIES opened_file_address w;
              Some (w', result :: size_t) });
        (w2, result, stat) \<leftarrow> fd_stat os opened_file_address reply_endpoint_address [] w1;
        (if result \<noteq> 0 then give_up w2 result
         else do {
           let st_ino = word_at 4 stat;
           (w3, mount_point_address) \<leftarrow> find_mount_point os (di_namespace_id (info (ram w2))) st_ino (di_filesystem (info (ram w2))) w2;
           (if mount_point_address \<noteq> SIZE_MAX then do {
              (w4, inner) \<leftarrow> open_mount_point os st opened_file_address mount_point_address info st_ino (reply_to message) w3;
              (if inner \<noteq> 0 then give_up w4 result else Some (w4, inner))
            }
            else if \<not> S_ISDIR (bytes_half (take 2 (drop 8 stat))) then do {
              (w4, _, _) \<leftarrow> sys_send os (reply_to message) SIZE_MAX
                 (put_word 0 0 (new_message [] [(opened_file_address, SIZE_MAX)] 0)) w3;
              give_up w4 result
            }
            else do {
              (w4, inner) \<leftarrow> proxy_directory os st opened_file_address info st_ino (reply_to message) w3;
              (if inner \<noteq> 0 then give_up w4 result else Some (w4, inner))
            })
         })
      })
   }"

definition pass_thru_directory_message :: "'k os \<Rightarrow> size_t \<Rightarrow> ipc_message \<Rightarrow> 'k world \<Rightarrow> ('k world \<times> ipc_message) option" where
  "pass_thru_directory_message os directory_id message w = do {
     (w1, _, sent) \<leftarrow> sys_send os (DIRECTORY_ADDRESS directory_id) SIZE_MAX (message\<lparr>msg_to_copy := 0\<rparr>) w;
     Some (w1, sent\<lparr>msg_transferred := msg_transferred sent XOR msg_transferred message\<rparr>)
   }"

definition directory_open :: "'k os \<Rightarrow> vfs_state \<Rightarrow> size_t \<Rightarrow> ipc_message \<Rightarrow> 'k world \<Rightarrow> 'k world option" where
  "directory_open os st directory_id message w = do {
     (w1, p) \<leftarrow> lock os (DIRECTORY_INFO_ADDRESS directory_id) w;
     (if p = NULL then return_value os (reply_to message) ENOMEM w1
      else do {
        (w2, result) \<leftarrow> open_file os st (DIRECTORY_ADDRESS directory_id) (load_directory_info p) message w1;
        (w3, _) \<leftarrow> unlock os (DIRECTORY_INFO_ADDRESS directory_id) w2;
        (if result \<noteq> 0 then return_value os (reply_to message) result w3 else Some w3)
      })
   }"

text \<open>The lock on the namespace is not given back on every path.\<close>

definition open_root :: "'k os \<Rightarrow> vfs_state \<Rightarrow> ipc_message \<Rightarrow> size_t \<Rightarrow> 'k world \<Rightarrow> ('k world \<times> size_t) option" where
  "open_root os st message namespace_id w = do {
     let namespace_address = namespace_at namespace_id;
     (w1, ns) \<leftarrow> lock os namespace_address w;
     (if ns = NULL then Some (w1, ENOMEM)
      else do {
        (w2, info_address) \<leftarrow> alloc_structure os USED_DIRECTORY_IDS_SLOT DIRECTORY_INFO_SLOT MAX_OPEN_DIRECTORIES sizeof_directory_info w1;
        (if info_address = SIZE_MAX then Some (w2, ENOMEM)
         else do {
           (w3, info) \<leftarrow> lock os info_address w2;
           (if info = NULL then do {
              (w4, _) \<leftarrow> free_structure os USED_DIRECTORY_IDS_SLOT DIRECTORY_INFO_SLOT MAX_OPEN_DIRECTORIES info_address w3;
              Some (w4, ENOMEM)
            }
            else do {
              (w4, _) \<leftarrow> unlock os info_address (store_directory_info info
                 \<lparr>di_namespace_id = namespace_id, di_can_modify = (IPC_FLAGS (msg_badge message) = IPC_FLAG_CAN_MODIFY),
                  di_inode = 0, di_filesystem = load_word (ns + 4) (ram w3)\<rparr> w3);
              (w5, result) \<leftarrow> badge_and_send os st (IPC_BADGE info_address IPC_FLAG_IS_MOUNT_POINT) (reply_to message) w4;
              (if result \<noteq> 0 then do {
                 (w6, _) \<leftarrow> free_structure os USED_DIRECTORY_IDS_SLOT DIRECTORY_INFO_SLOT MAX_OPEN_DIRECTORIES info_address w5;
                 Some (w6, result)
               }
               else do {
                 (w6, _) \<leftarrow> unlock os namespace_address w5;
                 Some (w6, result)
               })
            })
         })
      })
   }"

section \<open>Mounting (mount_points.c)\<close>

definition mount :: "'k os \<Rightarrow> info_pointer \<Rightarrow> size_t \<Rightarrow> uint8_t \<Rightarrow> 'k world \<Rightarrow> ('k world \<times> size_t) option" where
  "mount os info directory_fd flags w =
     (if \<not> di_can_modify (info (ram w)) then Some (w, EPERM)
      else do {
        let namespace_address = namespace_at (di_namespace_id (info (ram w)));
        (w1, ns) \<leftarrow> lock os namespace_address w;
        (if ns = NULL then Some (w1, ENOMEM)
         else do {
           (w2, index) \<leftarrow> create_mounted_list_entry os w1;
           (if index = SIZE_MAX then do { (w3, _) \<leftarrow> unlock os namespace_address w2; Some (w3, ENOMEM) }
            else do {
              (w3, result) \<leftarrow> mounted_list_insert os index directory_fd flags w2;
              (if result \<noteq> 0 then do { (w4, _) \<leftarrow> unlock os namespace_address w3; Some (w4, result) }
               else do {
                 (w4, result) \<leftarrow> add_mount_point_to_namespace os ns
                    \<lparr>mp_previous = SIZE_MAX, mp_next = SIZE_MAX, mp_references = 1,
                     mp_enclosing_filesystem = di_filesystem (info (ram w3)), mp_inode = di_inode (info (ram w3)),
                     mp_mounted_list_index = index\<rparr> w3;
                 (w5, _) \<leftarrow> unlock os namespace_address w4;
                 Some (w5, result)
               })
            })
         })
      })"

definition reply_value :: "'k os \<Rightarrow> ipc_message \<Rightarrow> 'k world \<times> size_t \<Rightarrow> 'k world option" where
  "reply_value os message x = return_value os (reply_to message) (snd x) (fst x)"

text \<open>For \<open>FD_MOUNT\<close> the code locks the id of the directory, not its address, and does not unlock it.\<close>

definition handle_directory_message :: "'k os \<Rightarrow> vfs_state \<Rightarrow> ipc_message \<Rightarrow> 'k world \<Rightarrow> ('k world \<times> ipc_message) option" where
  "handle_directory_message os st message w =
     (let directory_id = IPC_ID (msg_badge message); call = FD_CALL_NUMBER message;
          answer = (\<lambda>e. map_option (\<lambda>w'. (w', message)) (return_value os (reply_to message) e w)) in
      if call \<in> {FD_READ, FD_READ_FAST, FD_STAT, FD_LINK, FD_UNLINK} then pass_thru_directory_message os directory_id message w
      else if call = FD_OPEN then map_option (\<lambda>w'. (w', message)) (directory_open os st directory_id message w)
      else if call \<in> {FD_WRITE, FD_WRITE_FAST, FD_TRUNCATE} then answer ENOTSUP
      else if call = FD_MOUNT then do {
        (w1, p) \<leftarrow> lock os directory_id w;
        w3 \<leftarrow> (if p = NULL then return_value os (reply_to message) ENOMEM w1
              else do {
                x \<leftarrow> mount os (load_directory_info p) (fst (msg_capabilities message ! 1)) (msg_buffer message ! 1) w1;
                reply_value os message x
              });
        Some (w3, message)
      }
      else if call = FD_UNMOUNT then answer ENOSYS
      else answer EBADMSG)"

section \<open>Mount points (mount_points.c)\<close>

definition iterate_over_mount_point ::
    "'k os \<Rightarrow> size_t \<Rightarrow> 'a \<Rightarrow> ('k, 'a) mount_callback \<Rightarrow> 'k world \<Rightarrow> ('k world \<times> 'a \<times> size_t) option" where
  "iterate_over_mount_point os mount_point_address d fn w = do {
     (w1, p) \<leftarrow> lock os mount_point_address w;
     (if p = NULL then Some (w1, d, ENOMEM)
      else do {
        (w2, d1, result) \<leftarrow> iterate_over_mounted_list os (load_word (p + 20) (ram w1)) d fn w1;
        (w3, _) \<leftarrow> unlock os mount_point_address w2;
        Some (w3, d1, result)
      })
   }"

text \<open>All fields but the device are zero.\<close>

definition mount_point_stat :: "'k os \<Rightarrow> info_pointer \<Rightarrow> ipc_message \<Rightarrow> 'k world \<Rightarrow> 'k world option" where
  "mount_point_stat os info message w =
     map_option fst (sys_send os (reply_to message) SIZE_MAX
       (put_bytes 4 (word_bytes (di_filesystem (info (ram w))) @ replicate 50 0) (put_word 0 0 (new_message [] [] 0))) w)"

text \<open>The data of the callback are the message to send and whether only flagged directories count.\<close>

definition link_callback :: "'k os \<Rightarrow> ('k, ipc_message \<times> bool) mount_callback" where
  "link_callback os directory_address is_create_flagged d w =
     (let (to_send, requires_create_flag) = d in
      if \<not> is_create_flagged \<and> requires_create_flag then Some (w, d, True, 0)
      else do {
        (w1, result, sent, _) \<leftarrow> vfs_call os directory_address (reply_to to_send) to_send (new_message [] [] 0) w;
        Some (w1, (sent, requires_create_flag), result \<noteq> 0, 0)
      })"

definition mount_point_link :: "'k os \<Rightarrow> size_t \<Rightarrow> info_pointer \<Rightarrow> ipc_message \<Rightarrow> 'k world \<Rightarrow> 'k world option" where
  "mount_point_link os worker info message w = do {
     (w1, _, result) \<leftarrow> iterate_over_mount_point os (di_filesystem (info (ram w)))
        (new_message [FD_LINK] [(THREAD_STORAGE_SLOT worker 7, SIZE_MAX), msg_capabilities message ! 1, msg_capabilities message ! 2] 7, True)
        (link_callback os) w;
     return_value os (reply_to message) result w1
   }"

definition mount_point_unlink :: "'k os \<Rightarrow> size_t \<Rightarrow> info_pointer \<Rightarrow> ipc_message \<Rightarrow> 'k world \<Rightarrow> 'k world option" where
  "mount_point_unlink os worker info message w = do {
     (w1, _, result) \<leftarrow> iterate_over_mount_point os (di_filesystem (info (ram w)))
        (new_message [FD_UNLINK] [(THREAD_STORAGE_SLOT worker 7, SIZE_MAX), msg_capabilities message ! 1] 3, False)
        (link_callback os) w;
     return_value os (reply_to message) result w1
   }"

definition open_callback ::
    "'k os \<Rightarrow> vfs_state \<Rightarrow> directory_info \<Rightarrow> ipc_message \<Rightarrow> bool \<Rightarrow> ('k, unit) mount_callback" where
  "open_callback os st info message allow_create directory_address is_create_flagged d w =
     (if is_create_flagged \<and> \<not> allow_create then Some (w, d, True, 0)
      else do {
        (w1, result) \<leftarrow> open_file os st directory_address (\<lambda>_. info) message w;
        Some (w1, d, result \<noteq> 0, 0)
      })"

definition with_open_flags :: "uint8_t \<Rightarrow> ipc_message \<Rightarrow> ipc_message" where
  "with_open_flags flags message = message\<lparr>msg_buffer := (msg_buffer message)[1 := flags]\<rparr>"

text \<open>When locking the mount point fails the code replies, and goes on to read from address 0.\<close>

definition mount_point_open :: "'k os \<Rightarrow> vfs_state \<Rightarrow> info_pointer \<Rightarrow> ipc_message \<Rightarrow> 'k world \<Rightarrow> 'k world option" where
  "mount_point_open os st info message w = do {
     let address = (\<lambda>w. di_filesystem (info (ram w)));
     (w1, p) \<leftarrow> lock os (address w) w;
     w2 \<leftarrow> (if p = NULL then return_value os (reply_to message) ENOMEM w1 else Some w1);
     let args_info = (info (ram w2))\<lparr>di_filesystem := load_word (p + 12) (ram w2)\<rparr>;
     let flags = msg_buffer message ! 1;
     (w5, result) \<leftarrow>
       (if flags AND (OPEN_CREATE OR OPEN_EXCLUSIVE) = OPEN_CREATE OR OPEN_EXCLUSIVE then do {
          (w3, _, result) \<leftarrow> iterate_over_mount_point os (address w2) () (open_callback os st args_info message True) w2;
          Some (w3, result)
        }
        else do {
          let quiet = with_open_flags (flags AND NOT OPEN_CREATE) message;
          (w3, _) \<leftarrow> unlock os (address w2) w2;
          (w4, _, result) \<leftarrow> iterate_over_mount_point os (address w3) () (open_callback os st args_info quiet False) w3;
          (if result \<noteq> 0 \<and> flags AND OPEN_CREATE \<noteq> 0 then do {
             (w5, _, result) \<leftarrow> iterate_over_mount_point os (address w4) ()
                (open_callback os st args_info (with_open_flags ((flags AND NOT OPEN_CREATE) OR OPEN_CREATE) message) True) w4;
             Some (w5, result)
           }
           else Some (w4, result))
        });
     (if result \<noteq> 0 then return_value os (reply_to message) result w5 else Some w5)
   }"

text \<open>A descriptor made before its namespace had a root gets the root as soon as there is one.\<close>

definition adopt_root :: "'k os \<Rightarrow> addr \<Rightarrow> 'k world \<Rightarrow> 'k world option" where
  "adopt_root os p w =
     (if di_filesystem (load_directory_info p (ram w)) \<noteq> SIZE_MAX then Some w
      else do {
        let namespace_address = namespace_at (di_namespace_id (load_directory_info p (ram w)));
        (w1, ns) \<leftarrow> lock os namespace_address w;
        (if ns = NULL then Some w1
         else do {
           let root = load_word (ns + 4) (ram w1);
           (w2, _) \<leftarrow> unlock os namespace_address (if root \<noteq> SIZE_MAX then put (p + 10) root w1 else w1);
           Some w2
         })
      })"

definition handle_mount_point_message :: "'k os \<Rightarrow> vfs_state \<Rightarrow> ipc_message \<Rightarrow> 'k world \<Rightarrow> 'k world option" where
  "handle_mount_point_message os st message w = do {
     let info_address = IPC_ID (msg_badge message);
     (w1, p) \<leftarrow> lock os info_address w;
     (if p = NULL then return_value os (reply_to message) ENOMEM w1
      else do {
        w2 \<leftarrow> adopt_root os p w1;
        let info = load_directory_info p;
        let call = FD_CALL_NUMBER message;
        w3 \<leftarrow>
          (if call \<in> {FD_READ, FD_READ_FAST} then return_value os (reply_to message) ENOSYS w2
           else if call = FD_STAT then mount_point_stat os info message w2
           else if call = FD_LINK then mount_point_link os (worker_id st) info message w2
           else if call = FD_UNLINK then mount_point_unlink os (worker_id st) info message w2
           else if call = FD_OPEN then mount_point_open os st info message w2
           else if call \<in> {FD_WRITE, FD_WRITE_FAST, FD_TRUNCATE} then return_value os (reply_to message) ENOTSUP w2
           else if call = FD_MOUNT then do {
             x \<leftarrow> mount os info (fst (msg_capabilities message ! 1)) (msg_buffer message ! 1) w2;
             reply_value os message x
           }
           else if call = FD_UNMOUNT then return_value os (reply_to message) ENOSYS w2
           else return_value os (reply_to message) EBADMSG w2);
        (w4, _) \<leftarrow> unlock os info_address w3;
        Some w4
      })
   }"

section \<open>Processes (namespaces.c, main.c)\<close>

text \<open>The namespace a new process gets, and whether its creator may not modify it; or an error.\<close>

definition choose_namespace ::
    "'k os \<Rightarrow> uint16_t \<Rightarrow> uint8_t \<Rightarrow> 'k world \<Rightarrow> ('k world \<times> (size_t \<times> bool) option) option" where
  "choose_namespace os creator_pid flags w =
     (if flags AND VFS_SHARE_NAMESPACE \<noteq> 0 then do {
        let creator = push_bit INIT_NODE_DEPTH (ucast creator_pid) OR PROCESS_DATA_NODE_SLOT;
        (w1, p) \<leftarrow> lock os creator w;
        (if p = NULL then Some (w1, None)
         else do {
           let fs_namespace = load_word p (ram w1);
           let forced = (ram w1 (p + 4) = 0);
           (w2, _) \<leftarrow> unlock os creator w1;
           (w3, ns) \<leftarrow> lock os (namespace_at fs_namespace) w2;
           (if ns = NULL then Some (w3, None)
            else do {
              (w4, _) \<leftarrow> unlock os (namespace_at fs_namespace) (put ns (load_word ns (ram w3) + 1) w3);
              Some (w4, Some (fs_namespace, forced))
            })
         })
      }
      else do {
        (w1, address) \<leftarrow> alloc_namespace os w;
        Some (w1, if address = SIZE_MAX then None else Some (drop_bit INIT_NODE_DEPTH address, False))
      })"

definition set_up_filesystem_for_process ::
    "'k os \<Rightarrow> vfs_state \<Rightarrow> uint16_t \<Rightarrow> uint16_t \<Rightarrow> uint8_t \<Rightarrow> size_t \<Rightarrow> 'k world \<Rightarrow> ('k world \<times> size_t) option" where
  "set_up_filesystem_for_process os st creator_pid new_pid flags reply_address w = do {
     (w1, chosen) \<leftarrow> choose_namespace os creator_pid flags w;
     (case chosen of None \<Rightarrow> Some (w1, ENOMEM)
      | Some (fs_namespace, force_disable) \<Rightarrow> do {
          let address = push_bit INIT_NODE_DEPTH (ucast new_pid) OR PROCESS_DATA_NODE_SLOT;
          let forget = (\<lambda>w. map_option fst (sys_invoke os PROCESS_DATA_NODE_SLOT node_depth NODE_DELETE (Number (ucast new_pid)) w));
          (w2, r) \<leftarrow> alloc_object os TYPE_UNTYPED sizeof_process_data address SIZE_MAX w1;
          (if r \<noteq> 0 then do { w3 \<leftarrow> free_namespace os fs_namespace w2; Some (w3, ENOMEM) }
           else do {
             (w3, p) \<leftarrow> lock os address w2;
             (if p = NULL then do {
                w4 \<leftarrow> free_namespace os fs_namespace w3;
                w5 \<leftarrow> forget w4;
                Some (w5, ENOMEM)
              }
              else do {
                let can_modify = (\<not> force_disable \<and> flags AND VFS_READ_ONLY_NAMESPACE = 0);
                let badge = IPC_BADGE fs_namespace (if can_modify then IPC_FLAG_CAN_MODIFY else 0);
                (w4, _) \<leftarrow> unlock os address (put_flag (p + 4) can_modify (put p fs_namespace w3));
                (w5, result) \<leftarrow> open_root os st ((new_message [] [(reply_address, SIZE_MAX)] 0)\<lparr>msg_badge := badge\<rparr>) fs_namespace w4;
                (if result \<noteq> 0 then do {
                   w6 \<leftarrow> free_namespace os fs_namespace w5;
                   w7 \<leftarrow> forget w6;
                   Some (w7, result)
                 }
                 else Some (w5, result))
              })
           })
        })
   }"

definition handle_vfs_message :: "'k os \<Rightarrow> vfs_state \<Rightarrow> ipc_message \<Rightarrow> 'k world \<Rightarrow> 'k world option" where
  "handle_vfs_message os st message w =
     (let b = msg_buffer message in
      if FD_CALL_NUMBER message = VFS_NEW_PROCESS then do {
        let new_pid = push_bit 8 (ucast (b ! 2)) OR ucast (b ! 3);
        let creator_pid = push_bit 8 (ucast (b ! 4)) OR ucast (b ! 5);
        (w1, result) \<leftarrow> set_up_filesystem_for_process os st creator_pid new_pid (b ! 1) (reply_to message) w;
        (if result \<noteq> 0 then return_value os (reply_to message) result w1 else Some w1)
      }
      else return_value os (reply_to message) EBADMSG w)"

text \<open>
  One round of the main loop: receive, dispatch on the badge, delete what was transferred and not
  passed on. The message is kept for the next round, which overwrites its buffer; that \<open>FD_OPEN\<close>
  on a mount point changes the flags in the buffer is therefore not passed on.
\<close>

fun delete_transferred :: "'k os \<Rightarrow> vfs_state \<Rightarrow> uint8_t \<Rightarrow> nat \<Rightarrow> nat \<Rightarrow> 'k world \<Rightarrow> 'k world option" where
  "delete_transferred os st transferred 0 i w = Some w"
| "delete_transferred os st transferred (Suc left) i w = do {
     w1 \<leftarrow> (if transferred AND push_bit i 1 \<noteq> 0
           then map_option fst (sys_invoke os (THREAD_STORAGE_ADDRESS (worker_id st)) THREAD_STORAGE_DEPTH NODE_DELETE (Number (of_nat i)) w)
           else Some w);
     delete_transferred os st transferred left (Suc i) w1
   }"

definition handle_message :: "'k os \<Rightarrow> vfs_state \<Rightarrow> ipc_message \<Rightarrow> 'k world \<Rightarrow> ('k world \<times> ipc_message) option" where
  "handle_message os st received w = do {
     let flags = IPC_FLAGS (msg_badge received);
     (w1, received) \<leftarrow>
       (if flags = IPC_FLAG_IS_DIRECTORY then handle_directory_message os st received w
        else if flags = IPC_FLAG_IS_MOUNT_POINT then map_option (\<lambda>w'. (w', received)) (handle_mount_point_message os st received w)
        else map_option (\<lambda>w'. (w', received)) (handle_vfs_message os st received w));
     w2 \<leftarrow> delete_transferred os st (msg_transferred received) IPC_CAPABILITY_SLOTS 0 w1;
     Some (w2, received)
   }"

definition receive_slots :: "vfs_state \<Rightarrow> ipc_message \<Rightarrow> ipc_message" where
  "receive_slots st received = received\<lparr>msg_capabilities :=
     map (\<lambda>i. (THREAD_STORAGE_SLOT (worker_id st) (of_nat i), THREAD_STORAGE_SLOT_DEPTH)) [0..<IPC_CAPABILITY_SLOTS]\<rparr>"

definition main_round :: "'k os \<Rightarrow> vfs_state \<Rightarrow> ipc_message \<Rightarrow> 'k world \<Rightarrow> ('k world \<times> ipc_message) option" where
  "main_round os st received w = do {
     (w1, result, got) \<leftarrow> sys_receive os (endpoint_address st) SIZE_MAX received w;
     (if result \<noteq> 0 then Some (w1, got)
      else handle_message os st got w1)
   }"

definition vfs_start :: "'k os \<Rightarrow> 'k world \<Rightarrow> ('k world \<times> vfs_state) option" where
  "vfs_start os w = do {
     _ \<leftarrow> assert_that (sizeof_stat \<le> IPC_BUFFER_SIZE - 4);
     w1 \<leftarrow> init_vfs_structures os w;
     w2 \<leftarrow> alloc_checked os TYPE_ENDPOINT 0 3 w1;
     let st = \<lparr>worker_id = 0, temp_slot = of_nat IPC_CAPABILITY_SLOTS + 1, endpoint_address = 3\<rparr>;
     (w3, r3) \<leftarrow> badge_and_send os st (IPC_BADGE 0 0) 2 w2;
     _ \<leftarrow> assert_that (r3 = 0);
     (w4, r4) \<leftarrow> set_up_filesystem_for_process os st 1 1 0 2 w3;
     _ \<leftarrow> assert_that (r4 = 0);
     Some (w4, st)
   }"

end
