(* ===== verification/Process_Properties.thy ===== *)
theory Process_Properties
  imports Process_Server Thread_Ids
begin

unbundle bit_operations_syntax

text \<open>
  Properties of the process server: its table of process ids, kept in memory that it locks and
  unlocks through the kernel, is an allocator of ids like the kernel's own; starting a program
  leaves nothing behind when it fails; and the nodes that hold the objects of the processes are too
  small for the ids it hands out.
\<close>

section \<open>Bitmaps in memory\<close>

definition words_at :: "nat \<Rightarrow> addr \<Rightarrow> memory \<Rightarrow> size_t list" where
  "words_at n p m = map (\<lambda>i. load_word (p + of_nat (4 * i)) m) [0..<n]"

lemma length_words_at [simp]: "length (words_at n p m) = n"
  by (simp add: words_at_def)

lemma nth_words_at: "i < n \<Longrightarrow> words_at n p m ! i = load_word (p + of_nat (4 * i)) m"
  by (simp add: words_at_def)

lemma words_at_Suc: "words_at (Suc n) p m = load_word p m # words_at n (p + 4) m"
  by (simp add: words_at_def upt_conv_Cons map_Suc_upt [symmetric] comp_def ac_simps del: upt_Suc)

text \<open>Storing the \<open>k\<close>-th word of an array.\<close>

lemma load_word_store_word_apart:
  assumes "unat (b - a) \<ge> 4" and "unat (b - a) \<le> 2 ^ 32 - 4"
  shows "load_word b (store_word a v m) = load_word b m"
proof -
  have "b = a + of_nat (unat (b - a))" by simp
  with store_word_other [of "unat (b - a)" a v m] assms show ?thesis by simp
qed

lemma words_at_store:
  assumes "4 * n \<le> 2 ^ 32" and "k < n"
  shows "words_at n p (store_word (p + of_nat (4 * k)) v m) = (words_at n p m)[k := v]"
proof (rule nth_equalityI)
  fix i assume "i < length (words_at n p (store_word (p + of_nat (4 * k)) v m))"
  then have i: "i < n" by simp
  show "words_at n p (store_word (p + of_nat (4 * k)) v m) ! i = (words_at n p m)[k := v] ! i"
  proof (cases "i = k")
    case True
    with i show ?thesis by (simp add: nth_words_at load_store_word)
  next
    case False
    define x y :: addr where "x = of_nat (4 * i)" and "y = of_nat (4 * k)"
    have u: "unat x = 4 * i" "unat y = 4 * k" using assms i unfolding x_def y_def by (intro unat_of_nat_32; simp)+
    have "unat (x - y) = (if 4 * k \<le> 4 * i then 4 * i - 4 * k else 4 * i + 2 ^ 32 - 4 * k)"
      by (simp add: unat_sub_if' u)
    then have "4 \<le> unat (x - y) \<and> unat (x - y) \<le> 2 ^ 32 - 4" using False i assms by auto
    moreover have "x - y = p + of_nat (4 * i) - (p + of_nat (4 * k))" by (simp add: x_def y_def)
    ultimately have "4 \<le> unat (p + of_nat (4 * i) - (p + of_nat (4 * k)) :: addr)
      \<and> unat (p + of_nat (4 * i) - (p + of_nat (4 * k)) :: addr) \<le> 2 ^ 32 - 4" by (simp only:)
    then show ?thesis using False i by (simp add: nth_words_at load_word_store_word_apart del: of_nat_mult)
  qed
qed simp

lemma store_word_outside:
  assumes "4 * n \<le> 2 ^ 32" and "k < n" and "4 * n \<le> unat (a - p)"
  shows "store_word (p + of_nat (4 * k)) v m a = m a"
proof -
  have eq: "a - (p + of_nat (4 * k)) = (a - p) - of_nat (4 * k)" by simp
  have "unat ((a - p) - of_nat (4 * k)) < 4 \<longleftrightarrow> 4 * k \<le> unat (a - p) \<and> unat (a - p) < 4 * k + 4"
    using assms(1,2) by (intro unat_minus_lt) simp_all
  then have "\<not> unat (a - (p + of_nat (4 * k))) < 4" unfolding eq using assms(2,3) by simp
  then show ?thesis unfolding store_word_apply by simp
qed

text \<open>The search through the words in memory is the search through the list of words.\<close>

lemma take_free_id_position:
  assumes "take_free_id ws i = Some (us, tid)"
  shows "\<exists>k < length ws. ws ! k \<noteq> SIZE_MAX \<and> (\<forall>j < k. ws ! j = SIZE_MAX) \<and> us = ws[k := ws ! k OR push_bit (first_clear_bit (ws ! k) 0 32) 1]
    \<and> tid = of_nat ((i + k) * 32 + first_clear_bit (ws ! k) 0 32)"
  using assms
proof (induction ws i arbitrary: us rule: take_free_id.induct)
  case (2 w ws i)
  show ?case
  proof (cases "w = SIZE_MAX")
    case True
    with 2(2) obtain vs where r: "take_free_id ws (Suc i) = Some (vs, tid)" "us = w # vs" by auto
    from 2(1) [OF True r(1)] obtain k where
      k: "k < length ws" "ws ! k \<noteq> SIZE_MAX" "\<forall>j < k. ws ! j = SIZE_MAX" "vs = ws[k := ws ! k OR push_bit (first_clear_bit (ws ! k) 0 32) 1]"
      "tid = of_nat ((Suc i + k) * 32 + first_clear_bit (ws ! k) 0 32)" by blast
    have "\<forall>j < Suc k. (w # ws) ! j = SIZE_MAX" using k(3) True by (simp add: nth_Cons split: nat.split)
    with k r(2) show ?thesis by (intro exI [of _ "Suc k"]) simp
  next
    case False
    with 2(2) show ?thesis by (intro exI [of _ 0]) (auto simp: Let_def PTR_BITS_def)
  qed
qed simp

lemma size_max_eq: "(0xffffffff :: size_t) = SIZE_MAX"
  by (simp add: SIZE_MAX_def word_unat_eq_iff unsigned_minus_1_eq_mask mask_eq_exp_minus_1)

lemma find_free_pid_Suc:
  "find_free_pid (Suc n) i p m =
     (if load_word p m = SIZE_MAX then find_free_pid n (Suc i) (p + 4) m
      else (store_word p (load_word p m OR push_bit (first_clear_bit (load_word p m) 0 32) 1) m,
        of_nat (i * 32 + first_clear_bit (load_word p m) 0 32)))"
  unfolding find_free_pid.simps Let_def size_max_eq ..

lemma find_free_pid_search:
  "(\<forall>j < k. load_word (p + of_nat (4 * j)) m = SIZE_MAX) \<Longrightarrow>
   find_free_pid (k + n) i p m = find_free_pid n (i + k) (p + of_nat (4 * k)) m"
proof (induction k arbitrary: i p)
  case (Suc k)
  have "\<forall>j < k. load_word (p + 4 + of_nat (4 * j)) m = SIZE_MAX"
  proof (intro allI impI)
    fix j assume "j < k"
    with Suc.prems have "load_word (p + of_nat (4 * Suc j)) m = SIZE_MAX" by blast
    then show "load_word (p + 4 + of_nat (4 * j)) m = SIZE_MAX" by (simp add: ac_simps)
  qed
  from Suc.IH [OF this, of "Suc i"] Suc.prems [rule_format, of 0] show ?case
    by (simp add: find_free_pid_Suc ac_simps del: find_free_pid.simps(2))
qed simp

lemma find_free_pid_refines:
  assumes "4 * n \<le> 2 ^ 32"
  shows "case take_free_id (words_at n p m) i of None \<Rightarrow> find_free_pid n i p m = (m, 0)
    | Some (us, tid) \<Rightarrow> \<exists>m'. find_free_pid n i p m = (m', tid) \<and> words_at n p m' = us
        \<and> (\<forall>a. 4 * n \<le> unat (a - p) \<longrightarrow> m' a = m a)"
proof (cases "take_free_id (words_at n p m) i")
  case None
  then have "\<forall>j < n. load_word (p + of_nat (4 * j)) m = SIZE_MAX"
    using take_free_id_none [of "words_at n p m" i] by (auto simp: words_at_def)
  from find_free_pid_search [OF this, of 0 i] None show ?thesis by simp
next
  case (Some x)
  obtain us tid where x: "x = (us, tid)" by fastforce
  define ws where "ws = words_at n p m"
  from take_free_id_position [OF Some [unfolded x]] obtain k where
    k: "k < n" "ws ! k \<noteq> SIZE_MAX" "\<forall>j < k. ws ! j = SIZE_MAX" "us = ws[k := ws ! k OR push_bit (first_clear_bit (ws ! k) 0 32) 1]"
    "tid = of_nat ((i + k) * 32 + first_clear_bit (ws ! k) 0 32)" by (auto simp: ws_def)
  let ?v = "ws ! k OR push_bit (first_clear_bit (ws ! k) 0 32) 1" and ?a = "p + of_nat (4 * k)"
  have v: "load_word ?a m = ws ! k" using k(1) by (simp add: ws_def nth_words_at)
  have "\<forall>j < k. load_word (p + of_nat (4 * j)) m = SIZE_MAX"
    using k(1,3) by (auto simp: ws_def nth_words_at)
  from find_free_pid_search [OF this, of "n - k" i] k(1)
  have "find_free_pid n i p m = find_free_pid (Suc (n - k - 1)) (i + k) ?a m" by (simp add: Suc_diff_Suc del: find_free_pid.simps(2))
  also have "\<dots> = (store_word ?a ?v m, tid)"
    using k(2,5) unfolding find_free_pid_Suc v by simp
  finally have "find_free_pid n i p m = (store_word ?a ?v m, tid)" .
  moreover have "words_at n p (store_word ?a ?v m) = us"
    using words_at_store [OF assms k(1)] k(4) by (simp add: ws_def)
  ultimately show ?thesis using Some x store_word_outside [OF assms k(1)] by auto
qed

section \<open>Process ids\<close>

text \<open>What a server in which locking works does to the memory.\<close>

context untyped_slot
begin

lemma allocate_pid_runs:
  assumes "sys_invoke os = sys" and "slot = PID_SET_SLOT" and "good w"
  shows "\<exists>w'. allocate_pid os w = Some (w', snd (find_free_pid 32 0 pointer (ram w)))
    \<and> ram w' = fst (find_free_pid 32 0 pointer (ram w)) \<and> good w'"
proof -
  from lock [OF assms(3)] obtain w1 where w1: "sys slot SIZE_MAX UNTYPED_LOCK (Number 0) w = Some (w1, pointer)"
    "ram w1 = ram w" "good w1" by blast
  obtain m pid where f: "find_free_pid 32 0 pointer (ram w) = (m, pid)" by fastforce
  from unlock [OF keep [OF w1(3), of m]] obtain w2 where
    "sys slot SIZE_MAX UNTYPED_UNLOCK (Number 0) (w1\<lparr>ram := m\<rparr>) = Some (w2, 0)" "ram w2 = m" "good w2" by auto
  with w1 f assms(1,2) pointer [OF assms(3)] show ?thesis
    by (simp add: allocate_pid_def PID_MAX_def del: find_free_pid.simps)
qed

lemma release_pid_runs:
  assumes "sys_invoke os = sys" and "slot = PID_SET_SLOT" and "good w"
  shows "\<exists>w'. release_pid os pid w = Some w' \<and> good w' \<and> ram w' =
    store_word (pointer + 4 * ucast (pid div 32))
      (load_word (pointer + 4 * ucast (pid div 32)) (ram w) AND NOT (push_bit (unat (pid mod 32)) 1)) (ram w)"
  using locked_work [OF assms(3), of "\<lambda>p m. store_word (p + 4 * ucast (pid div 32))
      (load_word (p + 4 * ucast (pid div 32)) m AND NOT (push_bit (unat (pid mod 32)) 1)) m"] assms(1,2)
  by (auto simp: release_pid_def Let_def split: Option.bind_splits)

end

lemma release_word:
  assumes "unat pid < 1024"
  shows "words_at 32 p (store_word (p + 4 * ucast (pid div 32))
      (load_word (p + 4 * ucast (pid div 32)) m AND NOT (push_bit (unat (pid mod 32)) 1)) m) = release_id pid (words_at 32 p m)"
proof -
  let ?k = "unat pid div 32"
  have k: "?k < 32" using assms by simp
  have a: "4 * ucast (pid div 32) = (of_nat (4 * ?k) :: addr)"
  proof -
    have "unat (pid div 32) = ?k" by (simp add: unat_div)
    moreover have "ucast (pid div 32) = (of_nat (unat (pid div 32)) :: addr)" by simp
    ultimately show ?thesis by simp
  qed
  show ?thesis unfolding a using words_at_store [of 32 ?k p] k
    by (simp add: release_id_def PTR_BITS_def Let_def nth_words_at unat_mod)
qed

text \<open>
  C22: the process server's table of process ids, in memory that it locks through the kernel, hands out
  an id whenever one of the 1024 is free: it is not zero, it was free, and it is the only one that
  becomes used. When all are in use it returns 0 and changes nothing. Releasing the id gives the set
  of used ids from before, and no memory outside the table's 128 bytes is ever written.
\<close>

theorem allocate_pid_fresh:
  assumes "sys_invoke os = kernel_invoke frame" and "untyped_at path PID_SET_SLOT p w"
    and "id_used (words_at 32 p (ram w)) 0"
  shows "\<exists>w' pid. allocate_pid os w = Some (w', pid) \<and> untyped_at path PID_SET_SLOT p w'
    \<and> (\<forall>a. 128 \<le> unat (a - p) \<longrightarrow> ram w' a = ram w a)
    \<and> (if \<forall>k < 1024. id_used (words_at 32 p (ram w)) k then pid = 0 \<and> ram w' = ram w
       else pid \<noteq> 0 \<and> unat pid < 1024 \<and> \<not> id_used (words_at 32 p (ram w)) (unat pid)
         \<and> (\<forall>k. id_used (words_at 32 p (ram w')) k \<longleftrightarrow> k = unat pid \<or> id_used (words_at 32 p (ram w)) k)
         \<and> (\<exists>w''. release_pid os pid w' = Some w''
              \<and> (\<forall>k. id_used (words_at 32 p (ram w'')) k \<longleftrightarrow> id_used (words_at 32 p (ram w)) k)))"
proof -
  define ws where "ws = words_at 32 p (ram w)"
  from kernel_slot.allocate_pid_runs [OF assms(1) refl assms(2)] obtain w' where
    w': "allocate_pid os w = Some (w', snd (find_free_pid 32 0 p (ram w)))"
    "ram w' = fst (find_free_pid 32 0 p (ram w))" "untyped_at path PID_SET_SLOT p w'" by blast
  have full: "take_free_id ws 0 = None \<longleftrightarrow> (\<forall>k < 1024. id_used ws k)"
    using take_free_id_none [of ws 0] id_used_full [of ws] by (simp add: ws_def)
  show ?thesis
  proof (cases "take_free_id ws 0")
    case None
    with find_free_pid_refines [where n = 32 and p = p and m = "ram w" and i = 0] have "find_free_pid 32 0 p (ram w) = (ram w, 0)" by (simp add: ws_def)
    with w' full None show ?thesis by (simp add: ws_def)
  next
    case (Some x)
    obtain us tid where x: "x = (us, tid)" by fastforce
    with Some find_free_pid_refines [where n = 32 and p = p and m = "ram w" and i = 0] obtain m where
      m: "find_free_pid 32 0 p (ram w) = (m, tid)" "words_at 32 p m = us" "\<forall>a. 128 \<le> unat (a - p) \<longrightarrow> m a = ram w a"
      by (auto simp: ws_def)
    from take_free_id_spec [OF Some [unfolded x]] have
      t: "unat tid < 1024" "\<not> id_used ws (unat tid)" "length us = 32" "\<forall>k. id_used us k \<longleftrightarrow> k = unat tid \<or> id_used ws k"
      by (auto simp: ws_def)
    have "tid \<noteq> 0" using t(2) assms(3) by (auto simp: ws_def)
    from kernel_slot.release_pid_runs [OF assms(1) refl w'(3), of tid] obtain w'' where
      w'': "release_pid os tid w' = Some w''" "words_at 32 p (ram w'') = release_id tid us"
      using release_word [OF t(1), of p m] m(1,2) w'(2) by auto
    have "\<forall>k. id_used (words_at 32 p (ram w'')) k \<longleftrightarrow> id_used ws k"
      using id_used_release [of tid us] t w''(2) by auto
    moreover have "\<not> (\<forall>k < 1024. id_used ws k)" using full Some by simp
    ultimately show ?thesis using w' m t \<open>tid \<noteq> 0\<close> w''(1)
      by (intro exI [of _ w'] exI [of _ tid]) (simp add: ws_def [symmetric])
  qed
qed

text \<open>A running thread whose root node of 16 slots has untyped memory at 8192 in one of them.\<close>

definition demo_world :: "size_t \<Rightarrow> memory \<Rightarrow> kstate world" where
  "demo_world slot m = \<lparr>ram = m, kern = zero_kstate\<lparr>current_thread := 512,
     caps := (\<lambda>_. zero_capability)(512 := zero_capability\<lparr>cap_handlers := Node_handlers, cap_resource := 1024\<rparr>,
       slot_address 1024 slot := zero_capability\<lparr>cap_handlers := Untyped_handlers, cap_resource := 8192\<rparr>),
     nodes := (\<lambda>_. \<lparr>slot_bits = 4, nested_nodes = 1\<rparr>)\<rparr>\<rparr>"

definition kernel_os :: "addr \<Rightarrow> kstate transfer \<Rightarrow> kstate transfer \<Rightarrow> kstate os" where
  "kernel_os frame s r = \<lparr>sys_invoke = kernel_invoke frame, sys_send = s, sys_receive = r\<rparr>"

lemma demo_world_untyped:
  assumes "slot < 16"
  shows "untyped_at [slot] slot 8192 (demo_world slot m)"
proof -
  have "unat slot < 16" using assms by (simp add: word_less_nat_alt)
  moreover have "slot_address 1024 slot \<noteq> 512"
  proof
    assume "slot_address 1024 slot = 512"
    then have "unat (slot_address 1024 slot) = 512" by simp
    moreover have "unat (1026 + slot * 72) = 1026 + unat slot * 72"
      using \<open>unat slot < 16\<close> by (simp add: unat_word_ariths)
    ultimately show False by (simp add: slot_address_def kernel_consts add.commute mult.commute)
  qed
  moreover have "take_bit 4 slot = slot" using \<open>unat slot < 16\<close> by (intro take_bit_small) simp
  ultimately show ?thesis by (simp add: untyped_at_def demo_world_def Let_def)
qed

theorem allocate_pid_fresh_witness:
  "\<exists>w' pid. allocate_pid (kernel_os 0 (\<lambda>_ _ _ _. None) (\<lambda>_ _ _ _. None)) (demo_world PID_SET_SLOT (store_word 8192 3 (\<lambda>_. 0))) = Some (w', pid)
    \<and> pid \<noteq> 0 \<and> unat pid < 1024"
proof -
  let ?m = "store_word 8192 3 (\<lambda>_. 0)" and ?os = "kernel_os 0 (\<lambda>_ _ _ _. None) (\<lambda>_ _ _ _. None)"
  have w: "words_at 32 8192 ?m ! 0 = 3" by (simp add: nth_words_at load_store_word)
  have bits: "bit (3 :: size_t) 0" "\<not> bit (3 :: size_t) 2" by (simp_all add: bit_numeral_rec)
  have u: "id_used (words_at 32 8192 (ram (demo_world PID_SET_SLOT ?m))) 0"
    using w bits by (simp add: id_used_def demo_world_def)
  have "\<not> id_used (words_at 32 8192 ?m) 2" using w bits by (simp add: id_used_def)
  then have nf: "\<not> (\<forall>k < 1024. id_used (words_at 32 8192 (ram (demo_world PID_SET_SLOT ?m))) k)"
    by (auto simp: demo_world_def intro!: exI [of _ 2])
  have "PID_SET_SLOT < 16" "sys_invoke ?os = kernel_invoke 0" by (simp_all add: PID_SET_SLOT_def kernel_os_def)
  from allocate_pid_fresh [OF this(2) demo_world_untyped [OF this(1)] u, unfolded if_not_P [OF nf]] show ?thesis by blast
qed

section \<open>Starting a program\<close>

text \<open>
  Any kernel, as far as the caller can tell: the answer to an invocation may depend on everything
  that was asked before, and every request is recorded with its answer.
\<close>

type_synonym request = "size_t \<times> size_t \<times> size_t \<times> argument"
type_synonym trace = "(request \<times> size_t) list"

definition recording :: "(trace \<Rightarrow> request \<Rightarrow> size_t) \<Rightarrow> trace os" where
  "recording answer = \<lparr>sys_invoke = (\<lambda>a d n x w. let v = answer (kern w) (a, d, n, x)
       in Some (w\<lparr>kern := kern w @ [((a, d, n, x), v)]\<rparr>, v)),
     sys_send = (\<lambda>_ _ _ _. None), sys_receive = (\<lambda>_ _ _ _. None)\<rparr>"

text \<open>The slots that hold an object after a sequence of requests: allocated, and not deleted since.\<close>

fun live_step :: "request \<times> size_t \<Rightarrow> size_t set \<Rightarrow> size_t set" where
  "live_step ((a, d, n, Alloc_args x), v) S = (if n = ADDRESS_SPACE_ALLOC \<and> v = 0 then insert (alloc_address x) S else S)"
| "live_step ((a, d, n, Number i), v) S = (if n = NODE_DELETE \<and> d = node_depth then S - {slot_in a i} else S)"
| "live_step _ S = S"

definition live :: "trace \<Rightarrow> size_t set" where
  "live t = fold live_step t {}"

lemma live_append [simp]: "live (t @ [c]) = live_step c (live t)" "live [] = {}"
  by (simp_all add: live_def)

lemma data_slot_thread_slot: "slot_in PID_DATA_NODE_SLOT i \<noteq> slot_in PID_THREAD_NODE_SLOT j"
proof
  assume "slot_in PID_DATA_NODE_SLOT i = slot_in PID_THREAD_NODE_SLOT j"
  then have "bit (slot_in PID_DATA_NODE_SLOT i) 1 = bit (slot_in PID_THREAD_NODE_SLOT j) 1" by simp
  then show False
    by (simp add: slot_in_def PID_DATA_NODE_SLOT_def PID_THREAD_NODE_SLOT_def INIT_NODE_DEPTH_def bit_or_iff
        bit_push_bit_iff bit_numeral_rec)
qed

lemma recording_simps [simp]:
  "sys_invoke (recording answer) a d n x w =
     Some (w\<lparr>kern := kern w @ [((a, d, n, x), answer (kern w) (a, d, n, x))]\<rparr>, answer (kern w) (a, d, n, x))"
  by (simp add: recording_def Let_def)

lemma node_depth_not_max: "node_depth \<noteq> SIZE_MAX" "SIZE_MAX \<noteq> node_depth"
proof -
  have "node_depth = 4" by (simp add: INIT_NODE_DEPTH_def)
  moreover have "SIZE_MAX \<noteq> 4" unfolding size_max_eq [symmetric] by simp
  ultimately show "node_depth \<noteq> SIZE_MAX" "SIZE_MAX \<noteq> node_depth" by simp_all
qed

text \<open>The first three requests for a valid binary, and what they do to the objects that are left.\<close>

definition memory_request :: "size_t \<Rightarrow> size_t \<Rightarrow> request" where
  "memory_request n slot = (0, SIZE_MAX, ADDRESS_SPACE_ALLOC, Alloc_args \<lparr>alloc_type = TYPE_UNTYPED, alloc_arg_size = n,
     alloc_address = slot, alloc_depth = SIZE_MAX\<rparr>)"

definition thread_request :: "size_t \<Rightarrow> request" where
  "thread_request slot = (0, SIZE_MAX, ADDRESS_SPACE_ALLOC, Alloc_args \<lparr>alloc_type = TYPE_THREAD, alloc_arg_size = 0,
     alloc_address = slot, alloc_depth = SIZE_MAX\<rparr>)"

definition lock_request :: "size_t \<Rightarrow> request" where
  "lock_request slot = (slot, SIZE_MAX, UNTYPED_LOCK, Number 0)"

lemma live_requests:
  "live_step (memory_request n slot, v) S = (if v = 0 then insert slot S else S)"
  "live_step (thread_request slot, v) S = (if v = 0 then insert slot S else S)" "live_step (lock_request slot, v) S = S"
  using node_depth_not_max by (simp_all add: memory_request_def thread_request_def lock_request_def)

text \<open>What is left when starting a program has come to an end.\<close>

definition started_or_clean :: "uint16_t \<Rightarrow> size_t \<Rightarrow> size_t \<Rightarrow> trace \<Rightarrow> size_t \<Rightarrow> bool" where
  "started_or_clean pid root depth tr r \<longleftrightarrow> (r \<noteq> 0 \<longrightarrow> r \<in> {ENOENT, ENOEXEC, ENOMEM} \<and> live tr = {})
    \<and> (r = 0 \<longrightarrow> live tr = {slot_in PID_DATA_NODE_SLOT (ucast pid), slot_in PID_THREAD_NODE_SLOT (ucast pid)}
        \<and> (\<exists>t regs' v1 v2 v3. tr = t @
            [((slot_in PID_THREAD_NODE_SLOT (ucast pid), SIZE_MAX, THREAD_WRITE_REGISTERS, Register_args regs' 70), v1),
             ((slot_in PID_THREAD_NODE_SLOT (ucast pid), SIZE_MAX, THREAD_SET_ROOT_NODE, Root_args \<lparr>root_address = root, root_depth = depth\<rparr>), v2),
             ((slot_in PID_THREAD_NODE_SLOT (ucast pid), SIZE_MAX, THREAD_RESUME, Number 0), v3)]))"

lemma exec_valid_binary:
  assumes f: "jax_find (ram w) iter filename TYPE_REGULAR junk = Some (it, Some (a, n))" and k: "kern w = []"
    and v: "bflt_verify (bflt_header_at (ram w) a)" 
    and g: "\<And>t. answer t (lock_request (slot_in PID_DATA_NODE_SLOT (ucast pid))) \<noteq> NULL \<Longrightarrow>
      loadable (ram w) a (answer t (lock_request (slot_in PID_DATA_NODE_SLOT (ucast pid))))"
    and cb: "\<And>f r v. callback = Some f \<Longrightarrow> \<exists>m r' x. f r v = Some (v\<lparr>ram := m\<rparr>, r', x)"
  shows "\<exists>w' r. exec_from_initrd (recording answer) junk regs pid iter filename root depth callback w = Some (w', r)
    \<and> started_or_clean pid root depth (kern w') r"
proof -
  define h where "h = bflt_header_at (ram w) a"
  define D T where "D = slot_in PID_DATA_NODE_SLOT (ucast pid)" and "T = slot_in PID_THREAD_NODE_SLOT (ucast pid)"
  have DT: "D \<noteq> T" "T \<noteq> D" unfolding D_def T_def using data_slot_thread_slot [of "ucast pid" "ucast pid"] by simp_all
  define q1 q2 q3 where "q1 = memory_request (bflt_allocation_size h) D" and "q2 = thread_request T" and "q3 = lock_request D"
  note q = q1_def [unfolded memory_request_def, symmetric] q2_def [unfolded thread_request_def, symmetric] q3_def [unfolded lock_request_def, symmetric]
  have l: "live_step (q1, v) S = (if v = 0 then insert D S else S)" "live_step (q2, v) S = (if v = 0 then insert T S else S)"
    "live_step (q3, v) S = S" for v S by (simp_all add: q1_def q2_def q3_def live_requests)
  note e = exec_from_initrd_def alloc_object_def delete_slot_def h_def [symmetric] D_def [symmetric] T_def [symmetric] q f k v [folded h_def] started_or_clean_def
  note lv = live_def l DT D_def [symmetric] T_def [symmetric]
  consider "answer [] q1 \<noteq> 0" | "answer [] q1 = 0" "answer [(q1, 0)] q2 \<noteq> 0"
    | "answer [] q1 = 0" "answer [(q1, 0)] q2 = 0" "answer [(q1, 0), (q2, 0)] q3 = NULL"
    | "answer [] q1 = 0" "answer [(q1, 0)] q2 = 0" "answer [(q1, 0), (q2, 0)] q3 \<noteq> NULL" by blast
  then show ?thesis
  proof cases
    case 4
    let ?d = "answer [(q1, 0), (q2, 0)] q3"
    obtain m r1 where ld: "bflt_load h a ?d regs (ram w) = Some (m, r1)" 
      using bflt_load_returns [OF g [folded D_def q3_def, OF 4(3)], of regs] by (auto simp: h_def)
    let ?w3 = "w\<lparr>kern := [(q1, 0), (q2, 0), (q3, ?d)], ram := m\<rparr>"
    obtain m2 r2 y where c: "(case callback of None \<Rightarrow> Some (?w3, r1, 0) | Some f \<Rightarrow> f r1 ?w3) = Some (?w3\<lparr>ram := m2\<rparr>, r2, y)"
      using cb [of _ r1 ?w3] by (cases callback) auto
    show ?thesis
    proof (cases "y = 0")
      case False
      with 4 ld c show ?thesis by (simp add: e lv) (auto simp: errno_defs)
    next
      case True
      with 4 ld c show ?thesis by (simp add: e lv node_depth_not_max) (auto simp: sizeof_thread_registers_def)
    qed
  qed (simp add: e lv, auto simp: errno_defs)+
qed


text \<open>An archive with one file, a position independent binary whose data is the end marker of its global offset table.\<close>

definition demo_program_bytes :: "uint8_t list" where
  "demo_program_bytes = [98, 70, 76, 84] @ concat (map word_bytes [4, 64, 64, 68, 68, 256, 68, 0, BFLT_FLAG_GOTPIC]) @ replicate 24 0 @ word_bytes (- 1)"

definition demo_binary :: jax_record where
  "demo_binary = record_of (demo_visit\<lparr>contents := demo_program_bytes\<rparr>)"

lemma demo_program_length: "length demo_program_bytes = 68"
  by (simp add: demo_program_bytes_def word_bytes_def)

lemma holds_word: "holds m a bs \<Longrightarrow> i + 4 \<le> length bs \<Longrightarrow> take 4 (drop i bs) = word_bytes x \<Longrightarrow> load_word (a + of_nat i) m = x"
proof -
  assume h: "holds m a bs" and i: "i + 4 \<le> length bs" and x: "take 4 (drop i bs) = word_bytes x"
  have "bs ! (i + j) = word_bytes x ! j" if "j < 4" for j using that i by (simp flip: x)
  moreover have "m (a + of_nat i + of_nat j) = bs ! (i + j)" if "j < 4" for j
    using h i that unfolding holds_iff_nth by (simp add: add.assoc flip: of_nat_add)
  ultimately have "m (a + of_nat i + of_nat j) = word_bytes x ! j" if "j < 4" for j using that by simp
  from this [of 0] this [of 1] this [of 2] this [of 3] have
    "[m (a + of_nat i), m (a + of_nat i + 1), m (a + of_nat i + 2), m (a + of_nat i + 3)] = word_bytes x"
    by (simp add: word_bytes_def)
  then show "load_word (a + of_nat i) m = x" by (simp add: load_word_def)
qed

lemma demo_binary_found:
  "\<exists>m it. jax_find m \<lparr>iter_start = 4096, iter_end = 4194\<rparr> 4194 TYPE_REGULAR (file_at 0 demo_binary) = Some (it, Some (4126, 68))
    \<and> gotpic (bflt_header_at m 4126) \<and> loadable m 4126 65536"
proof -
  let ?r = demo_binary and ?m = "memory_with 4096 (record_bytes demo_binary @ [97, 0])"
  have l: "length (record_bytes ?r) = 98" by (simp add: demo_binary_def length_record_bytes record_of_def demo_visit_def demo_program_length)
  have h: "holds ?m 4096 (record_bytes ?r @ [97, 0])" by (rule holds_memory_with) (simp add: l)
  then have a: "holds ?m 4096 (archive_bytes [?r])" "holds ?m 4194 ([97] @ [0])" by (simp_all add: holds_append l)
  have r: "record_wf ?r" "rec_data ?r = demo_program_bytes" "file_data (file_at 4096 ?r) = 4126"
    "length (rec_data ?r) = 68" "first_record (searched TYPE_REGULAR [97]) 4096 [?r] = Some (4096, ?r)"
    by (simp_all add: demo_binary_def record_wf_def record_of_def demo_visit_def file_at_def Let_def searched_def TYPE_REGULAR_def demo_program_length)
  then have "archive_at ?m 4096 [?r] 4194" using a(1) by (auto simp: archive_at_def l)
  from find_loop_first [OF this a(2), of TYPE_REGULAR "file_at 0 demo_binary"] r a(2)
  have found: "\<exists>it. jax_find ?m \<lparr>iter_start = 4096, iter_end = 4194\<rparr> 4194 TYPE_REGULAR (file_at 0 demo_binary) = Some (it, Some (4126, 68))"
    by (simp add: jax_find_def)
  have bytes: "holds ?m 4126 demo_program_bytes"
    using a(1) r(2,4) by (simp add: record_bytes_def holds_append demo_binary_def record_of_def demo_visit_def)
  have word: "load_word (4126 + of_nat i) ?m = x" if "i + 4 \<le> 68" "take 4 (drop i demo_program_bytes) = word_bytes x" for i x
    using holds_word [OF bytes, of i x] that by (simp add: demo_program_length)
  note d = demo_program_bytes_def word_bytes_def
  have w: "load_word (4126 + 12) ?m = 64" "load_word (4126 + 16) ?m = 68" "load_word (4126 + 20) ?m = 68" "load_word (4126 + 28) ?m = 68"
    "load_word (4126 + 32) ?m = 0" "load_word (4126 + 36) ?m = BFLT_FLAG_GOTPIC" "load_word (4126 + 64) ?m = - 1"
    using word [of 12 64] word [of 16 68] word [of 20 68] word [of 28 68] word [of 32 0] word [of 36 BFLT_FLAG_GOTPIC] word [of 64 "- 1"]
    by (simp_all add: d)
  have g: "gotpic (bflt_header_at ?m 4126)" using w by (simp add: gotpic_def bflt_header_at_def BFLT_FLAG_GOTPIC_def)
  moreover have "got_marked ?m (bflt_header_at ?m 4126) 4126 65536 0"
    using w by (simp add: got_marked_def bflt_header_at_def Let_def)
  ultimately show ?thesis using found by (auto simp: loadable_def Let_def)
qed


section \<open>More process ids than slots\<close>

text \<open>
  The nodes for the objects of the processes have 9 bits, but there are 1024 process ids: the
  slot that the process server computes for the id \<open>512 + k\<close> is, for the kernel, the slot of the id \<open>k\<close>
  as soon as that one holds an object.
\<close>

lemma pid_slots_alias:
  assumes "t = current_thread s" and "t \<noteq> NULL" and "cap_handlers (caps s t) = Node_handlers" and "n = cap_resource (caps s t)"
    and "slot_bits (nodes s n) = of_nat INIT_NODE_DEPTH" and "node < 16" and "cap_handlers (caps s (slot_address n node)) = Node_handlers"
    and "n' = cap_resource (caps s (slot_address n node))" and "slot_bits (nodes s n') = ucast PID_BITS"
    and "k < 512" and "cap_handlers (caps s (slot_address n' (of_nat k))) \<noteq> Node_handlers" and "pid = k \<or> pid = 512 + k"
  shows "\<exists>s' r. look_up_capability_relative (slot_in node (of_nat pid)) SIZE_MAX s = Some (s', Some r)
    \<and> lr_slot r = slot_address n' (of_nat k) \<and> unlock_looked_up_capability r s' = s"
proof -
  let ?p = "[node, of_nat k :: size_t]"
  have sb: "slot_bits (nodes s n) = 4" "slot_bits (nodes s n') = 9"
    using assms(5,9) by (simp_all add: INIT_NODE_DEPTH_def PID_BITS_def)
  have uk: "unat (of_nat k :: size_t) = k" using assms(10) by (intro unat_of_nat_32) simp
  have un: "unat node < 16" using assms(6) by (simp add: word_less_nat_alt)
  have path: "valid_path s n ?p" "path_depth s n ?p = 13" "path_address s n ?p = node OR push_bit 4 (of_nat k)"
    "path_slot s n ?p = slot_address n' (of_nat k)"
    using assms(7-10) sb uk un by simp_all
  have tn: "take_bit 13 node = node" using un by (intro take_bit_small) simp
  have tk: "take_bit 9 (of_nat pid :: size_t) = of_nat k"
  proof (rule word_unat_eq_iff [THEN iffD2])
    have "unat (of_nat pid :: size_t) = pid" using assms(10,12) by (intro unat_of_nat_32) auto
    then show "unat (take_bit 9 (of_nat pid :: size_t)) = unat (of_nat k :: size_t)"
      unfolding uk using assms(10,12) by (auto simp: unsigned_take_bit_eq) (simp_all add: take_bit_eq_mod)
  qed
  have "take_bit 13 (slot_in node (of_nat pid)) = push_bit 4 (take_bit 9 (of_nat pid)) OR node"
    using tn by (simp add: slot_in_def INIT_NODE_DEPTH_def take_bit_push_bit take_bit_or)
  then have "take_bit (path_depth s n ?p) (slot_in node (of_nat pid)) = path_address s n ?p"
    unfolding path(2,3) tk by (simp add: or.commute)
  from look_up_first_non_node [OF assms(1-4) path(1) _ this] assms(11) path(2,4) show ?thesis by auto
qed

definition demo_pids :: kstate where
  "demo_pids = zero_kstate\<lparr>current_thread := 512,
     caps := (\<lambda>_. zero_capability)(512 := zero_capability\<lparr>cap_handlers := Node_handlers, cap_resource := 1024\<rparr>,
       1386 := zero_capability\<lparr>cap_handlers := Node_handlers, cap_resource := 4096\<rparr>),
     nodes := (\<lambda>_. \<lparr>slot_bits = 4, nested_nodes = 1\<rparr>)(4096 := \<lparr>slot_bits = 9, nested_nodes = 1\<rparr>)\<rparr>"

lemma pid_slots_alias_example:
  "\<exists>s' r. look_up_capability_relative (slot_in PID_DATA_NODE_SLOT (of_nat 519)) SIZE_MAX demo_pids = Some (s', Some r)
    \<and> lr_slot r = slot_address 4096 (of_nat 7) \<and> unlock_looked_up_capability r s' = demo_pids"
proof (rule pid_slots_alias [OF refl _ _ refl _ _ _ _ _ _ _ disjI2])
  have a: "slot_address 1024 PID_DATA_NODE_SLOT = 1386" "slot_address 4096 7 = 4602"
    by (simp_all add: slot_address_def kernel_consts PID_DATA_NODE_SLOT_def)
  note d = demo_pids_def INIT_NODE_DEPTH_def PID_BITS_def
  show "current_thread demo_pids \<noteq> NULL" "cap_handlers (caps demo_pids (current_thread demo_pids)) = Node_handlers"
    "slot_bits (nodes demo_pids (cap_resource (caps demo_pids (current_thread demo_pids)))) = word_of_nat INIT_NODE_DEPTH"
    by (simp_all add: d)
  show "PID_DATA_NODE_SLOT < 16" "7 < (512 :: nat)" "519 = 512 + (7 :: nat)" by (simp_all add: PID_DATA_NODE_SLOT_def)
  have n: "cap_resource (caps demo_pids (current_thread demo_pids)) = 1024" by (simp add: d)
  show "cap_handlers (caps demo_pids (slot_address (cap_resource (caps demo_pids (current_thread demo_pids))) PID_DATA_NODE_SLOT)) = Node_handlers"
    unfolding n a by (simp add: d)
  show "4096 = cap_resource (caps demo_pids (slot_address (cap_resource (caps demo_pids (current_thread demo_pids))) PID_DATA_NODE_SLOT))"
    unfolding n a by (simp add: d)
  show "slot_bits (nodes demo_pids 4096) = ucast PID_BITS" by (simp add: d)
  show "cap_handlers (caps demo_pids (slot_address 4096 (word_of_nat 7))) \<noteq> Node_handlers"
    using a(2) by (simp add: d zero_capability_def)
qed

end
