(* ===== verification/Vfs_Properties.thy ===== *)
theory Vfs_Properties
  imports Vfs_Server Process_Properties
begin

unbundle bit_operations_syntax

text \<open>
  Properties of the VFS server: its bitmaps of used structures, its addresses of mounted file
  systems, its table of mount points, and what clients may do and get to know.
\<close>

section \<open>The first free bit\<close>

definition first_free :: "size_t list \<Rightarrow> nat \<Rightarrow> bool" where
  "first_free ws k \<longleftrightarrow> k < 32 * length ws \<and> \<not> id_used ws k \<and> (\<forall>j < k. id_used ws j)"

lemma id_used_word: "i < length ws \<Longrightarrow> b < 32 \<Longrightarrow> id_used ws (32 * i + b) \<longleftrightarrow> bit (ws ! i) b"
  by (simp add: id_used_def)

lemma first_clear_bit_eq:
  assumes "\<forall>j < b. bit w j" and "\<not> bit w b" and "b < 32"
  shows "first_clear_bit w 0 32 = b"
proof -
  note sp = first_clear_bit_spec [of 0 w 32]
  have "\<not> b < first_clear_bit w 0 32" using sp assms(2) by auto
  moreover have "\<not> first_clear_bit w 0 32 < b" using sp assms(1,3) by auto
  ultimately show ?thesis by simp
qed

lemma first_free_word:
  assumes "first_free ws k"
  shows "k div 32 < length ws" "first_clear_bit (ws ! (k div 32)) 0 32 = k mod 32" "ws ! (k div 32) \<noteq> SIZE_MAX"
    "j < k div 32 \<Longrightarrow> ws ! j = SIZE_MAX"
proof -
  show l: "k div 32 < length ws" using assms by (simp add: first_free_def less_mult_imp_div_less mult.commute)
  have kk: "32 * (k div 32) + k mod 32 = k" by simp
  have c: "\<not> bit (ws ! (k div 32)) (k mod 32)" using assms id_used_word [OF l, of "k mod 32"] kk by (simp add: first_free_def)
  have b: "\<forall>j < k mod 32. bit (ws ! (k div 32)) j"
  proof (intro allI impI)
    fix j assume j: "j < k mod 32"
    then have "j < 32" "32 * (k div 32) + j < k" using kk by linarith+
    then show "bit (ws ! (k div 32)) j" using assms id_used_word [OF l, of j] by (simp add: first_free_def)
  qed
  show "first_clear_bit (ws ! (k div 32)) 0 32 = k mod 32" using b c by (intro first_clear_bit_eq) simp_all
  show "ws ! (k div 32) \<noteq> SIZE_MAX" using c by (auto simp: SIZE_MAX_def)
  assume j: "j < k div 32"
  show "ws ! j = SIZE_MAX"
  proof (rule bit_word_eqI)
    fix n assume n: "n < LENGTH(32)"
    then have "32 * j + n < k" using j kk by simp
    then have "id_used ws (32 * j + n)" using assms by (simp add: first_free_def)
    then show "bit (ws ! j) n \<longleftrightarrow> bit SIZE_MAX n" using id_used_word [of j ws n] j l n by (simp add: SIZE_MAX_def)
  qed
qed

lemma find_free_slot_search:
  "(\<forall>j < k. load_word (p + of_nat (4 * j)) m = SIZE_MAX) \<Longrightarrow>
   find_free_slot (k + n) i p m = find_free_slot n (i + k) (p + of_nat (4 * k)) m"
proof (induction k arbitrary: i p)
  case (Suc k)
  have "\<forall>j < k. load_word (p + 4 + of_nat (4 * j)) m = SIZE_MAX"
  proof (intro allI impI)
    fix j assume "j < k"
    with Suc.prems have "load_word (p + of_nat (4 * Suc j)) m = SIZE_MAX" by blast
    then show "load_word (p + 4 + of_nat (4 * j)) m = SIZE_MAX" by (simp add: ac_simps)
  qed
  from Suc.IH [OF this, of "Suc i"] Suc.prems [rule_format, of 0] show ?case
    by (simp add: ac_simps Let_def)
qed simp

definition set_bit_word :: "nat \<Rightarrow> size_t list \<Rightarrow> size_t" where
  "set_bit_word k ws = ws ! (k div 32) OR push_bit (k mod 32) 1"

lemma find_free_slot_first:
  assumes "first_free (words_at n p m) k"
  shows "find_free_slot n 0 p m =
    (store_word (p + of_nat (4 * (k div 32))) (set_bit_word k (words_at n p m)) m, of_nat k, p + of_nat (4 * (k div 32)))"
proof -
  let ?ws = "words_at n p m" and ?i = "k div 32"
  note f = first_free_word [OF assms]
  then have i: "?i < n" by simp
  have "\<forall>j < ?i. load_word (p + of_nat (4 * j)) m = SIZE_MAX"
    using f(4) i by (auto simp: nth_words_at)
  from find_free_slot_search [OF this, of "n - ?i" 0] i
  have "find_free_slot n 0 p m = find_free_slot (Suc (n - ?i - 1)) ?i (p + of_nat (4 * ?i)) m"
    by (simp add: Suc_diff_Suc del: find_free_slot.simps(2))
  also have "\<dots> = (store_word (p + of_nat (4 * ?i)) (set_bit_word k ?ws) m, of_nat (?i * 32 + k mod 32), p + of_nat (4 * ?i))"
    using f(2,3) i by (simp add: Let_def set_bit_word_def SIZE_BITS_def nth_words_at del: of_nat_add of_nat_mult)
  also have "?i * 32 + k mod 32 = k" by simp
  finally show ?thesis .
qed

lemma id_used_set:
  assumes "k < 32 * length ws"
  shows "id_used (ws[k div 32 := set_bit_word k ws]) j \<longleftrightarrow> j = k \<or> id_used ws j"
proof -
  have bt: "bit (set_bit_word k ws) m \<longleftrightarrow> bit (ws ! (k div 32)) m \<or> m = k mod 32" if "m < 32" for m
    using that by (auto simp: set_bit_word_def bit_simps)
  have "j = k \<longleftrightarrow> j div 32 = k div 32 \<and> j mod 32 = k mod 32" by (metis div_mult_mod_eq)
  then show ?thesis using bt [of "j mod 32"] assms by (auto simp: id_used_def nth_list_update)
qed

text \<open>Clearing a bit, counted from the given pointer.\<close>

lemma clear_bit_at_word:
  assumes "j < 1024"
  shows "clear_bit_at q (of_nat j) m = (let a = q + of_nat (4 * (j div 32))
    in store_word a (load_word a m AND NOT (push_bit (j mod 32) 1)) m)"
proof -
  have u: "unat (of_nat j :: size_t) = j" using assms by (intro unat_of_nat_32) simp
  have d: "(of_nat j :: size_t) div 32 = of_nat (j div 32)"
    by (rule word_unat_eq_iff [THEN iffD2]) (use assms in \<open>simp add: unat_div u unat_of_nat_32\<close>)
  show ?thesis by (simp add: clear_bit_at_def SIZE_BITS_def Let_def d unat_mod u)
qed

lemma words_at_clear_bit:
  assumes "4 * n \<le> 2 ^ 32" and "j < 32 * n" and "j < 1024"
  shows "words_at n p (clear_bit_at p (of_nat j) m) = release_id (of_nat j) (words_at n p m)"
proof -
  have i: "j div 32 < n" using assms(2) by (simp add: less_mult_imp_div_less mult.commute)
  have "unat (of_nat j :: uint16_t) = j" using assms(3) by (simp add: unat_of_nat)
  with i show ?thesis unfolding clear_bit_at_word [OF assms(3)] Let_def words_at_store [OF assms(1) i]
    by (simp add: release_id_def PTR_BITS_def Let_def nth_words_at)
qed

section \<open>Taking and giving back ids of structures\<close>

text \<open>
  The callback is called in a world in which nothing but the bit of the first free id has changed. Whatever it
  does, as long as the slot of the bitmap is still there, its result is returned, and a failure clears a bit.
\<close>

context untyped_slot
begin

lemma find_slot_for_runs:
  assumes "sys_invoke os = sys" and "good w" and "first_free (words_at (unat max_items div 32) pointer (ram w)) k"
    and "a = pointer + of_nat (4 * (k div 32))"
  shows "\<exists>v. good v \<and> ram v = store_word a (set_bit_word k (words_at (unat max_items div 32) pointer (ram w))) (ram w)
    \<and> (fn (of_nat k) v = None \<longrightarrow> find_slot_for os slot max_items fn w = None)
    \<and> (\<forall>v' r. fn (of_nat k) v = Some (v', r) \<and> good v' \<longrightarrow>
         (\<exists>w'. find_slot_for os slot max_items fn w = Some (w', r) \<and> good w'
            \<and> ram w' = (if r = SIZE_MAX then clear_bit_at a (of_nat k) (ram v') else ram v')))"
proof -
  define m where "m = store_word a (set_bit_word k (words_at (unat max_items div 32) pointer (ram w))) (ram w)"
  from lock [OF assms(2)] obtain w1 where w1: "sys slot SIZE_MAX UNTYPED_LOCK (Number 0) w = Some (w1, pointer)"
    "ram w1 = ram w" "good w1" by blast
  have f: "find_free_slot (unat max_items div 32) 0 pointer (ram w) = (m, of_nat k, a)"
    using find_free_slot_first [OF assms(3)] by (simp add: m_def assms(4))
  note start = find_slot_for_def SIZE_BITS_def w1 f assms(1) pointer [OF assms(2)]
  have "\<exists>w'. find_slot_for os slot max_items fn w = Some (w', r) \<and> good w'
      \<and> ram w' = (if r = SIZE_MAX then clear_bit_at a (of_nat k) (ram v') else ram v')"
    if v': "fn (of_nat k) (w1\<lparr>ram := m\<rparr>) = Some (v', r)" "good v'" for v' r
  proof -
    define w3 where "w3 = (if r = SIZE_MAX then v'\<lparr>ram := clear_bit_at a (of_nat k) (ram v')\<rparr> else v')"
    have "good w3" using v'(2) keep by (simp add: w3_def)
    from unlock [OF this] obtain w4 where w4: "sys slot SIZE_MAX UNTYPED_UNLOCK (Number 0) w3 = Some (w4, 0)" "ram w4 = ram w3" "good w4" by blast
    have "find_slot_for os slot max_items fn w = Some (w4, r)" using v'(1) w4(1) by (simp add: start w3_def)
    with w4 show ?thesis by (simp add: w3_def)
  qed
  moreover have "find_slot_for os slot max_items fn w = None" if "fn (of_nat k) (w1\<lparr>ram := m\<rparr>) = None" using that by (simp add: start)
  ultimately show ?thesis using keep [OF w1(3), of m] by (intro exI [of _ "w1\<lparr>ram := m\<rparr>"]) (simp add: m_def)
qed

lemma mark_slot_unused_runs:
  assumes "sys_invoke os = sys" and "good w" and "i < max_items"
  shows "\<exists>w'. mark_slot_unused os slot max_items i w = Some (w', 0) \<and> good w' \<and> ram w' = clear_bit_at pointer i (ram w)"
proof -
  from lock [OF assms(2)] obtain w1 where w1: "sys slot SIZE_MAX UNTYPED_LOCK (Number 0) w = Some (w1, pointer)"
    "ram w1 = ram w" "good w1" by blast
  from unlock [OF keep [OF w1(3), of "clear_bit_at pointer i (ram w)"]] w1 assms(1,3) pointer [OF assms(2)]
  show ?thesis by (auto simp: mark_slot_unused_def not_le)
qed

end

text \<open>
  C24: a structure of the VFS server gets the first free id. On the bitmap of 256 ids in memory that the kernel locks, \<open>find_slot_for\<close>
  calls its callback once, with the first id that is free, in a world where this id and no other was added to the used
  ones and no other memory changed; when the callback does not return, neither does \<open>find_slot_for\<close>.
  When the callback returns with the bitmap and its slot as they were, \<open>find_slot_for\<close> returns its result: after a success the id is
  used, besides those that were before, and \<open>mark_slot_unused\<close> gives it back; after a failure with one of the ids below 32 no id
  was added. (For the other ids see \<open>find_slot_for_failure_frees_other\<close>.)
\<close>

theorem find_slot_for_first_free:
  assumes "sys_invoke os = kernel_invoke frame" and "untyped_at path address p w" and "first_free (words_at 8 p (ram w)) k"
  shows "\<exists>v. untyped_at path address p v \<and> (\<forall>j. id_used (words_at 8 p (ram v)) j \<longleftrightarrow> j = k \<or> id_used (words_at 8 p (ram w)) j)
    \<and> (\<forall>a. 32 \<le> unat (a - p) \<longrightarrow> ram v a = ram w a)
    \<and> (fn (of_nat k) v = None \<longrightarrow> find_slot_for os address 256 fn w = None)
    \<and> (\<forall>v' r. fn (of_nat k) v = Some (v', r) \<and> untyped_at path address p v' \<and> words_at 8 p (ram v') = words_at 8 p (ram v) \<longrightarrow>
        (\<exists>w'. find_slot_for os address 256 fn w = Some (w', r)
          \<and> (r \<noteq> SIZE_MAX \<longrightarrow> ram w' = ram v' \<and> (\<exists>w''. mark_slot_unused os address 256 (of_nat k) w' = Some (w'', 0)
               \<and> (\<forall>j. id_used (words_at 8 p (ram w'')) j \<longleftrightarrow> id_used (words_at 8 p (ram w)) j)))
          \<and> (r = SIZE_MAX \<and> k < 32 \<longrightarrow> (\<forall>j. id_used (words_at 8 p (ram w')) j \<longleftrightarrow> id_used (words_at 8 p (ram w)) j))))"
proof -
  define ws where "ws = words_at 8 p (ram w)"
  define a where "a = p + of_nat (4 * (k div 32))"
  have k: "k < 256" "k div 32 < 8" "\<not> id_used ws k" using assms(3) by (auto simp: first_free_def ws_def)
  have n8: "unat (256 :: size_t) div 32 = 8" by simp
  from kernel_slot.find_slot_for_runs [OF assms(1,2) _ a_def, where max_items = 256 and fn = fn, unfolded n8, OF assms(3), folded ws_def] obtain v where
    v: "untyped_at path address p v" "ram v = store_word a (set_bit_word k ws) (ram w)"
      "fn (of_nat k) v = None \<longrightarrow> find_slot_for os address 256 fn w = None" and
    ret: "\<forall>v' r. fn (of_nat k) v = Some (v', r) \<and> untyped_at path address p v' \<longrightarrow>
      (\<exists>w'. find_slot_for os address 256 fn w = Some (w', r) \<and> untyped_at path address p w'
        \<and> ram w' = (if r = SIZE_MAX then clear_bit_at a (of_nat k) (ram v') else ram v'))"
    by (elim exE conjE) (rule that)
  have us: "words_at 8 p (ram v) = ws[k div 32 := set_bit_word k ws]"
    unfolding v(2) ws_def a_def using k(2) by (intro words_at_store) simp_all
  have used: "id_used (words_at 8 p (ram v)) j \<longleftrightarrow> j = k \<or> id_used ws j" for j
    unfolding us using k(1) by (intro id_used_set) (simp add: ws_def)
  have other: "ram v b = ram w b" if "32 \<le> unat (b - p)" for b
  proof -
    have "b - a = (b - p) - of_nat (4 * (k div 32))" by (simp add: a_def)
    moreover have "\<not> unat ((b - p) - of_nat (4 * i)) < 4" if "i < 8" for i using that \<open>32 \<le> unat (b - p)\<close> by (subst unat_minus_lt) auto
    note this [OF k(2)]
    ultimately have "\<not> unat (b - a) < 4" by (rule ssubst)
    then show ?thesis unfolding v(2) store_word_apply by simp
  qed
  have release: "id_used (words_at 8 p (clear_bit_at p (of_nat k) m)) j \<longleftrightarrow> id_used ws j" if "words_at 8 p m = words_at 8 p (ram v)" for j m
  proof -
    have "words_at 8 p (clear_bit_at p (of_nat k) m) = release_id (of_nat k) (words_at 8 p (ram v))"
      unfolding that [symmetric] using k(1) by (intro words_at_clear_bit) simp_all
    moreover have "unat (of_nat k :: uint16_t) = k" using k(1) by (simp add: unat_of_nat)
    ultimately show ?thesis using id_used_release [of "of_nat k" "words_at 8 p (ram v)" j] k used by auto
  qed
  have "\<exists>w'. find_slot_for os address 256 fn w = Some (w', r)
      \<and> (r \<noteq> SIZE_MAX \<longrightarrow> ram w' = ram v' \<and> (\<exists>w''. mark_slot_unused os address 256 (of_nat k) w' = Some (w'', 0)
           \<and> (\<forall>j. id_used (words_at 8 p (ram w'')) j \<longleftrightarrow> id_used ws j)))
      \<and> (r = SIZE_MAX \<and> k < 32 \<longrightarrow> (\<forall>j. id_used (words_at 8 p (ram w')) j \<longleftrightarrow> id_used ws j))"
    if v': "fn (of_nat k) v = Some (v', r)" "untyped_at path address p v'" "words_at 8 p (ram v') = words_at 8 p (ram v)" for v' r
  proof -
    from ret v'(1,2) obtain w' where w': "find_slot_for os address 256 fn w = Some (w', r)" "untyped_at path address p w'"
      "ram w' = (if r = SIZE_MAX then clear_bit_at a (of_nat k) (ram v') else ram v')" by blast
    have "(of_nat k :: size_t) < 256" using k(1) by (simp add: word_less_nat_alt unat_of_nat_32)
    from kernel_slot.mark_slot_unused_runs [OF assms(1) w'(2) this] obtain w'' where
      w'': "mark_slot_unused os address 256 (of_nat k) w' = Some (w'', 0)" "ram w'' = clear_bit_at p (of_nat k) (ram w')" by blast
    have "a = p" if "k < 32" using that by (simp add: a_def)
    then show ?thesis using w' w'' release [OF v'(3)] by (intro exI [of _ w']) auto
  qed
  then show ?thesis using v(1,3) used other unfolding ws_def [symmetric] by (intro exI [of _ v]) blast
qed

lemma zero_words: "words_at n p (\<lambda>_. 0) = replicate n 0"
  by (rule nth_equalityI) (simp_all add: nth_words_at load_word_def bytes_word_def)

text \<open>A callback that fails or not, depending on the memory.\<close>

definition demo_callback :: "kstate slot_callback" where
  "demo_callback i v = Some (v, if ram v 4096 = 0 then i else SIZE_MAX)"

theorem find_slot_for_first_free_witness:
  "\<exists>w' w''. find_slot_for (kernel_os 0 (\<lambda>_ _ _ _. None) (\<lambda>_ _ _ _. None)) USED_NAMESPACES_SLOT 256 demo_callback
      (demo_world USED_NAMESPACES_SLOT (\<lambda>_. 0)) = Some (w', 0)
    \<and> mark_slot_unused (kernel_os 0 (\<lambda>_ _ _ _. None) (\<lambda>_ _ _ _. None)) USED_NAMESPACES_SLOT 256 0 w' = Some (w'', 0)"
proof -
  let ?os = "kernel_os 0 (\<lambda>_ _ _ _. None) (\<lambda>_ _ _ _. None)" and ?w = "demo_world USED_NAMESPACES_SLOT (\<lambda>_. 0)"
  let ?good = "untyped_at [USED_NAMESPACES_SLOT] USED_NAMESPACES_SLOT 8192"
  have os: "sys_invoke ?os = kernel_invoke 0" by (simp add: kernel_os_def)
  have u: "?good ?w" by (rule demo_world_untyped) (simp add: USED_NAMESPACES_SLOT_def)
  have f: "first_free (words_at 8 8192 (ram ?w)) 0"
    by (simp add: first_free_def id_used_def demo_world_def zero_words)
  have z: "(of_nat 0 :: size_t) = 0" "(0 :: size_t) \<noteq> SIZE_MAX" by (simp_all add: SIZE_MAX_def)
  from find_slot_for_first_free [OF os u f, of demo_callback, unfolded z(1)] show ?thesis
  proof (elim exE conjE)
    fix v assume v: "?good v" "\<forall>a. 32 \<le> unat (a - 8192) \<longrightarrow> ram v a = ram ?w a" and
      ret: "\<forall>v' r. demo_callback 0 v = Some (v', r) \<and> ?good v' \<and> words_at 8 8192 (ram v') = words_at 8 8192 (ram v) \<longrightarrow>
        (\<exists>w'. find_slot_for ?os USED_NAMESPACES_SLOT 256 demo_callback ?w = Some (w', r)
          \<and> (r \<noteq> SIZE_MAX \<longrightarrow> ram w' = ram v' \<and> (\<exists>w''. mark_slot_unused ?os USED_NAMESPACES_SLOT 256 0 w' = Some (w'', 0)
               \<and> (\<forall>j. id_used (words_at 8 8192 (ram w'')) j \<longleftrightarrow> id_used (words_at 8 8192 (ram ?w)) j)))
          \<and> (r = SIZE_MAX \<and> 0 < (32 :: nat) \<longrightarrow> (\<forall>j. id_used (words_at 8 8192 (ram w')) j \<longleftrightarrow> id_used (words_at 8 8192 (ram ?w)) j)))"
    have "ram v 4096 = 0" using v(2) [rule_format, of 4096] by (simp add: demo_world_def)
    then have "demo_callback 0 v = Some (v, 0)" by (simp add: demo_callback_def)
    with ret [rule_format, of v 0] v(1) z(2) show ?thesis by blast
  qed
qed

text \<open>
  When the callback fails for an id \<open>k\<close> of 32 or more (and below 128), \<open>find_slot_for\<close> does not give
  back this id but another one: the pointer was left at the word that has the bit, and the index of
  the word is added to it once more. The id \<open>k\<close> stays marked as used, and the id
  \<open>64 * (k div 32) + k mod 32\<close> is free afterwards, also when a structure has it.
\<close>

lemma find_slot_for_failure_frees_other:
  assumes "sys_invoke os = kernel_invoke frame" and "untyped_at path address p w" and "first_free (words_at 8 p (ram w)) k"
    and "\<And>v. untyped_at path address p v \<Longrightarrow> fn (of_nat k) v = Some (v, SIZE_MAX)" and "32 \<le> k" and "k < 128"
  shows "\<exists>w'. find_slot_for os address 256 fn w = Some (w', SIZE_MAX)
    \<and> (\<forall>j. id_used (words_at 8 p (ram w')) j \<longleftrightarrow> (j = k \<or> id_used (words_at 8 p (ram w)) j) \<and> j \<noteq> 64 * (k div 32) + k mod 32)"
proof -
  define ws where "ws = words_at 8 p (ram w)"
  define c where "c = 64 * (k div 32) + k mod 32"
  define m where "m = store_word (p + of_nat (4 * (k div 32))) (set_bit_word k ws) (ram w)"
  have c32: "c = k mod 32 + 32 * (2 * (k div 32))" by (simp add: c_def)
  have "k div 32 < 4" "k mod 32 < 32" using assms(6) by auto
  then have c: "c < 256" "c div 32 = 2 * (k div 32)" "c mod 32 = k mod 32"
    unfolding c32 div_mult_self2 mod_mult_self2 by simp_all
  have n8: "unat (256 :: size_t) div 32 = 8" by simp
  from kernel_slot.find_slot_for_runs [OF assms(1,2) _ refl, where max_items = 256 and fn = fn, unfolded n8, OF assms(3), folded ws_def m_def] assms(4) obtain w' where
    w': "find_slot_for os address 256 fn w = Some (w', SIZE_MAX)"
    "ram w' = clear_bit_at (p + of_nat (4 * (k div 32))) (of_nat k) m"
    by (auto simp: m_def)
  have "p + of_nat (4 * (k div 32)) + of_nat (4 * (k div 32)) = p + of_nat (4 * (c div 32))"
    unfolding c(2) by (simp add: algebra_simps)
  then have "clear_bit_at (p + of_nat (4 * (k div 32))) (of_nat k) m = clear_bit_at p (of_nat c) m"
    using assms(6) c by (simp add: clear_bit_at_word Let_def add.commute del: of_nat_mult)
  then have "words_at 8 p (ram w') = release_id (of_nat c) (words_at 8 p m)"
    unfolding w'(2) using c(1) by (simp only:) (rule words_at_clear_bit, simp_all)
  also have "words_at 8 p m = ws[k div 32 := set_bit_word k ws]"
    unfolding m_def ws_def using assms(6) by (intro words_at_store) simp_all
  finally have us: "words_at 8 p (ram w') = release_id (of_nat c) (ws[k div 32 := set_bit_word k ws])" .
  have "unat (of_nat c :: uint16_t) = c" using c(1) by (simp add: unat_of_nat)
  then have "id_used (words_at 8 p (ram w')) j \<longleftrightarrow> (j = k \<or> id_used ws j) \<and> j \<noteq> c" for j
    unfolding us using id_used_release [of "of_nat c" "ws[k div 32 := set_bit_word k ws]" j] c(1) id_used_set [of k ws j] assms(6)
    by (simp add: ws_def)
  with w'(1) show ?thesis by (auto simp: c_def ws_def)
qed

lemma find_slot_for_failure_frees_other_example:
  "\<exists>w'. find_slot_for (kernel_os 0 (\<lambda>_ _ _ _. None) (\<lambda>_ _ _ _. None)) USED_NAMESPACES_SLOT 256 (\<lambda>i v. Some (v, SIZE_MAX))
      (demo_world USED_NAMESPACES_SLOT (store_word 8192 SIZE_MAX (\<lambda>_. 0))) = Some (w', SIZE_MAX)
    \<and> id_used (words_at 8 8192 (ram w')) 32"
proof -
  let ?os = "kernel_os 0 (\<lambda>_ _ _ _. None) (\<lambda>_ _ _ _. None)" and ?m = "store_word 8192 SIZE_MAX (\<lambda>_. 0)"
  let ?w = "demo_world USED_NAMESPACES_SLOT ?m" and ?good = "untyped_at [USED_NAMESPACES_SLOT] USED_NAMESPACES_SLOT 8192"
  have os: "sys_invoke ?os = kernel_invoke 0" by (simp add: kernel_os_def)
  have u: "?good ?w" by (rule demo_world_untyped) (simp add: USED_NAMESPACES_SLOT_def)
  have ws: "words_at 8 8192 (ram ?w) = (replicate 8 0)[0 := SIZE_MAX]"
    using words_at_store [of 8 0 8192 SIZE_MAX "\<lambda>_. 0"] by (simp add: demo_world_def zero_words)
  have "bit SIZE_MAX j" if "j < 32" for j using that by (simp add: SIZE_MAX_def)
  then have f: "first_free (words_at 8 8192 (ram ?w)) 32"
    unfolding ws by (simp add: first_free_def id_used_def)
  from find_slot_for_failure_frees_other [OF os u f, of "\<lambda>i v. Some (v, SIZE_MAX)"] show ?thesis by auto
qed

section \<open>Addresses of mounted file systems\<close>

text \<open>
  The address that the VFS server computes for a slot of a list of mounted file systems is not one
  of its own: the slot number is shifted by the bits of the node of lists only and falls on the
  number of the list. For every list and slot it is the address of slot 0 of another list, unless the slot is 0
  itself; in particular slot 1 of list 0 is slot 0 of list 16.
\<close>

lemma MOUNTED_LIST_SLOT_collides:
  "MOUNTED_LIST_SLOT index slot = MOUNTED_LIST_SLOT (index OR push_bit 4 slot) 0 \<and> MOUNTED_LIST_SLOT 0 1 = MOUNTED_LIST_SLOT 16 0"
proof
  show "MOUNTED_LIST_SLOT index slot = MOUNTED_LIST_SLOT (index OR push_bit 4 slot) 0"
    by (simp add: MOUNTED_LIST_SLOT_def MOUNTED_LIST_NODE_ADDRESS_def MOUNTED_FS_BITS_def INIT_NODE_DEPTH_def
        push_bit_or push_bit_push_bit or.assoc or.left_commute)
  show "MOUNTED_LIST_SLOT 0 1 = MOUNTED_LIST_SLOT 16 0"
    by (simp add: MOUNTED_LIST_SLOT_def MOUNTED_LIST_NODE_ADDRESS_def MOUNTED_FS_BITS_def INIT_NODE_DEPTH_def MOUNTED_LIST_NODE_SLOT_def)
qed

end
