(* ===== verification/Mount_Properties.thy ===== *)
theory Mount_Properties
  imports Vfs_Properties
begin

unbundle bit_operations_syntax

text \<open>
  The table of mount points of a namespace (\<open>namespaces.c\<close>): a bucket is a list of structures in
  untyped memory, linked by their addresses in capability space. Looking up refines searching a
  list, and entering a mount point puts it in front.
\<close>

section \<open>Several pieces of untyped memory\<close>

text \<open>The interface of \<open>untyped_slot\<close> for every address that the server knows, with the memory it leads to.\<close>

locale untyped_memory =
  fixes sys :: "'k invocation" and good :: "'k world \<Rightarrow> bool" and pointers :: "size_t \<rightharpoonup> addr"
  assumes each: "pointers a = Some p \<Longrightarrow> untyped_slot sys good a p"
begin

lemma lock_any:
  "pointers a = Some p \<Longrightarrow> good w \<Longrightarrow>
   p \<noteq> NULL \<and> (\<exists>w'. sys a SIZE_MAX UNTYPED_LOCK (Number 0) w = Some (w', p) \<and> ram w' = ram w \<and> good w')"
  by (metis each untyped_slot.lock untyped_slot.pointer)

lemma unlock_any:
  "pointers a = Some p \<Longrightarrow> good w \<Longrightarrow>
   \<exists>w'. sys a SIZE_MAX UNTYPED_UNLOCK (Number 0) w = Some (w', 0) \<and> ram w' = ram w \<and> good w'"
  by (metis each untyped_slot.unlock)

lemma keep_any: "pointers a = Some p \<Longrightarrow> good w \<Longrightarrow> good (w\<lparr>ram := m\<rparr>)"
  by (metis each untyped_slot.keep)

end

definition all_untyped :: "(size_t \<rightharpoonup> addr) \<Rightarrow> kstate world \<Rightarrow> bool" where
  "all_untyped pointers w \<longleftrightarrow> (\<forall>a p. pointers a = Some p \<longrightarrow> (\<exists>path. untyped_at path a p w))"

interpretation kernel_memory: untyped_memory "kernel_invoke frame" "all_untyped pointers" pointers
  for frame pointers
proof (rule untyped_memory.intro)
  fix a p assume ap: "pointers a = Some p"
  have call: "\<exists>w'. kernel_invoke frame a SIZE_MAX n (Number 0) w = Some (w', if n = UNTYPED_LOCK then p else 0) \<and> ram w' = ram w \<and> all_untyped pointers w'"
    if g: "all_untyped pointers w" and n: "n = UNTYPED_LOCK \<or> n = UNTYPED_UNLOCK" for w n
  proof -
    from g ap obtain path where "untyped_at path a p w" by (auto simp: all_untyped_def)
    from kernel_untyped_call [OF this, of n frame 0] n obtain s' where
      s': "kernel_invoke frame a SIZE_MAX n (Number 0) w = Some (\<lparr>ram = ram w, kern = s'\<rparr>, if n = UNTYPED_LOCK then p else 0)"
      "same_but_headers ((kern w)\<lparr>user_bytes := ram w\<rparr>) s'"
      by (auto simp: UNTYPED_LOCK_def UNTYPED_UNLOCK_def)
    moreover have "all_untyped pointers \<lparr>ram = ram w, kern = s'\<rparr>"
      using g untyped_at_same [OF _ s'(2)] unfolding all_untyped_def by meson
    ultimately show ?thesis by auto
  qed
  show "untyped_slot (kernel_invoke frame) (all_untyped pointers) a p"
  proof (rule untyped_slot.intro)
    fix w m assume g: "all_untyped pointers w"
    then show "p \<noteq> NULL" using ap by (auto simp: all_untyped_def untyped_at_def Let_def)
    from call [OF g, of UNTYPED_LOCK]
    show "\<exists>w'. kernel_invoke frame a SIZE_MAX UNTYPED_LOCK (Number 0) w = Some (w', p) \<and> ram w' = ram w \<and> all_untyped pointers w'" by simp
    from call [OF g, of UNTYPED_UNLOCK]
    show "\<exists>w'. kernel_invoke frame a SIZE_MAX UNTYPED_UNLOCK (Number 0) w = Some (w', 0) \<and> ram w' = ram w \<and> all_untyped pointers w'"
      by (simp add: UNTYPED_LOCK_def UNTYPED_UNLOCK_def)
    show "all_untyped pointers (w\<lparr>ram := m\<rparr>)"
      using g untyped_at_cong [of _ _ _ w "w\<lparr>ram := m\<rparr>"] unfolding all_untyped_def by auto meson
  qed
qed

section \<open>Looking up\<close>

fun chain :: "(size_t \<rightharpoonup> addr) \<Rightarrow> memory \<Rightarrow> size_t \<Rightarrow> (size_t \<times> addr) list \<Rightarrow> bool" where
  "chain pointers m a [] \<longleftrightarrow> a = SIZE_MAX"
| "chain pointers m a ((b, p) # xs) \<longleftrightarrow> a = b \<and> b \<noteq> SIZE_MAX \<and> pointers b = Some p \<and> chain pointers m (load_word (p + 4) m) xs"

definition matches :: "memory \<Rightarrow> uint32_t \<Rightarrow> size_t \<Rightarrow> size_t \<times> addr \<Rightarrow> bool" where
  "matches m inode e x \<longleftrightarrow> load_word (snd x + 16) m = inode \<and> load_word (snd x + 12) m = e"

definition first_match :: "memory \<Rightarrow> uint32_t \<Rightarrow> size_t \<Rightarrow> (size_t \<times> addr) list \<Rightarrow> size_t" where
  "first_match m inode e xs = (case find (matches m inode e) xs of None \<Rightarrow> SIZE_MAX | Some x \<Rightarrow> fst x)"

context untyped_memory
begin

lemma find_loop_chain:
  assumes "sys_invoke os = sys" and "good w" and "chain pointers (ram w) a xs"
  shows "\<exists>w'. find_mount_point_loop os inode e a w = Some (w', first_match (ram w) inode e xs) \<and> ram w' = ram w \<and> good w'"
  using assms(2,3)
proof (induction xs arbitrary: a w)
  case Nil
  then show ?case by (subst find_mount_point_loop.simps) (simp add: first_match_def)
next
  case (Cons x xs)
  obtain p where x: "x = (a, p)" "a \<noteq> SIZE_MAX" "pointers a = Some p" "chain pointers (ram w) (load_word (p + 4) (ram w)) xs"
    using Cons.prems(2) by (cases x) auto
  from lock_any [OF x(3) Cons.prems(1)] obtain w1 where
    w1: "sys a SIZE_MAX UNTYPED_LOCK (Number 0) w = Some (w1, p)" "ram w1 = ram w" "good w1" "p \<noteq> NULL" by blast
  from unlock_any [OF x(3) w1(3)] obtain w2 where
    w2: "sys a SIZE_MAX UNTYPED_UNLOCK (Number 0) w1 = Some (w2, 0)" "ram w2 = ram w" "good w2" using w1(2) by auto
  from Cons.IH [OF w2(3), of "load_word (p + 4) (ram w)"] x(4) w2(2) obtain w3 where
    w3: "find_mount_point_loop os inode e (load_word (p + 4) (ram w)) w2 = Some (w3, first_match (ram w) inode e xs)"
      "ram w3 = ram w" "good w3" by auto
  show ?case
  proof (cases "matches (ram w) inode e x")
    case True
    then have "find_mount_point_loop os inode e a w = Some (w2, a)"
      using x w1 w2 assms(1) by (subst find_mount_point_loop.simps) (simp add: matches_def)
    with True w2 x(1) show ?thesis by (simp add: first_match_def)
  next
    case False
    then have "find_mount_point_loop os inode e a w = find_mount_point_loop os inode e (load_word (p + 4) (ram w)) w2"
      using x w1 w2 assms(1) by (subst find_mount_point_loop.simps) (auto simp: matches_def)
    with False w3 show ?thesis by (simp add: first_match_def)
  qed
qed

lemma find_mount_point_runs:
  assumes "sys_invoke os = sys" and "good w" and "pointers (namespace_at i) = Some ns"
    and "chain pointers (ram w) (load_word (bucket_at ns inode) (ram w)) xs"
  shows "\<exists>w'. find_mount_point os i inode e w = Some (w', first_match (ram w) inode e xs) \<and> ram w' = ram w \<and> good w'"
proof -
  from lock_any [OF assms(3,2)] obtain w1 where
    w1: "sys (namespace_at i) SIZE_MAX UNTYPED_LOCK (Number 0) w = Some (w1, ns)" "ram w1 = ram w" "good w1" "ns \<noteq> NULL" by blast
  from find_loop_chain [OF assms(1) w1(3), of _ xs inode e] assms(4) w1(2) obtain w2 where
    w2: "find_mount_point_loop os inode e (load_word (bucket_at ns inode) (ram w)) w1 = Some (w2, first_match (ram w) inode e xs)"
    "ram w2 = ram w" "good w2" by auto
  from unlock_any [OF assms(3) w2(3)] w1 w2 assms(1) show ?thesis by (auto simp: find_mount_point_def)
qed

end

section \<open>Writing to one structure\<close>

definition disjoint_bytes :: "addr \<Rightarrow> nat \<Rightarrow> addr \<Rightarrow> nat \<Rightarrow> bool" where
  "disjoint_bytes a n b k \<longleftrightarrow> n \<le> unat (b - a) \<and> k \<le> unat (a - b)"

lemma disjoint_bytes_sym: "disjoint_bytes a n b k \<longleftrightarrow> disjoint_bytes b k a n"
  by (auto simp: disjoint_bytes_def)

lemma load_word_disjoint:
  assumes "disjoint_bytes a n b k" and "i + 4 \<le> n" and "j + 4 \<le> k"
  shows "load_word (b + of_nat j) (store_word (a + of_nat i) v m) = load_word (b + of_nat j) m"
proof -
  define d where "d = unat (b - a)"
  have "0 < d" using assms(1,2) by (simp add: d_def disjoint_bytes_def)
  then have "unat (0 - (b - a)) = 2 ^ 32 - d"
    unfolding d_def by (subst unat_sub_if') simp
  then have d: "n \<le> d" "k \<le> 2 ^ 32 - d" "d < 2 ^ 32"
    using assms(1) unsigned_less [of "b - a"] by (simp_all add: disjoint_bytes_def d_def)
  have b: "b = a + of_nat d" by (simp add: d_def)
  have e: "b + of_nat j = a + of_nat i + of_nat (d + j - i)"
    using d assms(2) unfolding b by (simp add: of_nat_diff)
  show ?thesis unfolding e by (rule store_word_other) (use d assms in auto)
qed

lemma chain_store:
  assumes "\<forall>x \<in> set xs. disjoint_bytes a n (snd x) 24" and "i + 4 \<le> n"
  shows "chain pointers (store_word (a + of_nat i) v m) b xs \<longleftrightarrow> chain pointers m b xs"
  using assms
proof (induction xs arbitrary: b)
  case (Cons x xs)
  then show ?case using load_word_disjoint [of a n "snd x" 24 i 4 v m] by (cases x) auto
qed simp

lemma first_match_store:
  assumes "\<forall>x \<in> set xs. disjoint_bytes a n (snd x) 24" and "i + 4 \<le> n"
  shows "first_match (store_word (a + of_nat i) v m) inode e xs = first_match m inode e xs"
proof -
  have "matches (store_word (a + of_nat i) v m) inode e x = matches m inode e x" if "x \<in> set xs" for x
    using load_word_disjoint [of a n "snd x" 24 i 12 v m] load_word_disjoint [of a n "snd x" 24 i 16 v m] assms that
    by (simp add: matches_def)
  then have "find (matches (store_word (a + of_nat i) v m) inode e) xs = find (matches m inode e) xs"
    by (intro find_cong) simp_all
  then show ?thesis by (simp add: first_match_def)
qed

text \<open>The back link of the first structure is not read by a search.\<close>

lemma chain_back_link:
  assumes "\<forall>x \<in> set (tl xs). disjoint_bytes (snd (hd xs)) 24 (snd x) 24" and "xs \<noteq> []"
  shows "chain pointers (store_word (snd (hd xs)) v m) b xs \<longleftrightarrow> chain pointers m b xs"
    and "first_match (store_word (snd (hd xs)) v m) inode e xs = first_match m inode e xs"
proof -
  obtain x ys where xs: "xs = x # ys" using assms(2) by (cases xs) auto
  note o = store_word_other [of 4 "snd x" v m] store_word_other [of 12 "snd x" v m] store_word_other [of 16 "snd x" v m]
  note d = chain_store [of ys "snd x" 24 0 pointers v m] first_match_store [of ys "snd x" 24 0 v m inode e]
  show "chain pointers (store_word (snd (hd xs)) v m) b xs \<longleftrightarrow> chain pointers m b xs"
    using d assms(1) o unfolding xs by (cases x) simp
  show "first_match (store_word (snd (hd xs)) v m) inode e xs = first_match m inode e xs"
    using d assms(1) o unfolding xs by (simp add: first_match_def matches_def)
qed

section \<open>Entering a mount point\<close>

text \<open>The structures of a bucket and a new one at \<open>p\<close>, none of which overlaps another one or the bucket.\<close>

definition bucket_ok :: "(size_t \<rightharpoonup> addr) \<Rightarrow> addr \<Rightarrow> (size_t \<times> addr) list \<Rightarrow> size_t \<times> addr \<Rightarrow> memory \<Rightarrow> bool" where
  "bucket_ok pointers bucket xs new m \<longleftrightarrow>
     chain pointers m (load_word bucket m) xs \<and> fst new \<noteq> SIZE_MAX \<and> pointers (fst new) = Some (snd new)
     \<and> load_word (snd new + 4) m = SIZE_MAX
     \<and> (\<forall>x \<in> set (new # xs). disjoint_bytes bucket 4 (snd x) 24) \<and> (\<forall>x \<in> set xs. disjoint_bytes (snd new) 24 (snd x) 24)
     \<and> (\<forall>x \<in> set (tl xs). disjoint_bytes (snd (hd xs)) 24 (snd x) 24)"

text \<open>Its memory afterwards, and that it is a bucket with the new mount point in front.\<close>

definition entered :: "addr \<Rightarrow> (size_t \<times> addr) list \<Rightarrow> size_t \<times> addr \<Rightarrow> memory \<Rightarrow> memory" where
  "entered bucket xs new m =
     (if xs = [] then store_word bucket (fst new) m
      else store_word bucket (fst new) (store_word (snd new + 4) (fst (hd xs)) (store_word (snd (hd xs)) (fst new) m)))"

lemma entered_chain:
  assumes "bucket_ok pointers bucket xs new m"
  shows "chain pointers (entered bucket xs new m) (load_word bucket (entered bucket xs new m)) (new # xs)"
    and "first_match (entered bucket xs new m) inode e (new # xs) =
      (if load_word (snd new + 16) m = inode \<and> load_word (snd new + 12) m = e then fst new else first_match m inode e xs)"
proof -
  note b = assms [unfolded bucket_ok_def]
  have bs: "\<forall>x \<in> set xs. disjoint_bytes bucket 4 (snd x) 24" and bn: "disjoint_bytes bucket 4 (snd new) 24"
    and ns: "\<forall>x \<in> set xs. disjoint_bytes (snd new) 24 (snd x) 24"
    and hs: "\<forall>x \<in> set (tl xs). disjoint_bytes (snd (hd xs)) 24 (snd x) 24" using b by auto
  note lb = load_word_disjoint [OF bn, where i = 0, simplified]
  note cb = chain_store [OF bs, where i = 0, simplified] chain_store [OF ns, where i = 4, simplified]
    first_match_store [OF bs, where i = 0, simplified] first_match_store [OF ns, where i = 4, simplified]
  have hn: "load_word (snd new + of_nat j) (store_word (snd (hd xs)) v m) = load_word (snd new + of_nat j) m"
    if "xs \<noteq> []" "j + 4 \<le> 24" for j v
    using load_word_disjoint [of "snd (hd xs)" 24 "snd new" 24 0 j] ns that by (simp add: disjoint_bytes_sym)
  have in_new: "load_word (snd new + 12) (store_word (snd new + 4) v m') = load_word (snd new + 12) m'"
    "load_word (snd new + 16) (store_word (snd new + 4) v m') = load_word (snd new + 16) m'" for v m'
    using store_word_other [of 8 "snd new + 4" v m'] store_word_other [of 12 "snd new + 4" v m'] by (simp_all add: add.assoc)
  note keep = lb [of 4] lb [of 12] lb [of 16] cb chain_back_link [OF hs] hn [of 12] hn [of 16] in_new load_store_word
  show "chain pointers (entered bucket xs new m) (load_word bucket (entered bucket xs new m)) (new # xs)"
    using b keep by (cases new; cases xs) (auto simp: entered_def)
  have m: "matches (entered bucket xs new m) inode e new = matches m inode e new"
    using keep by (simp add: entered_def matches_def)
  have "first_match (entered bucket xs new m) inode e xs = first_match m inode e xs"
    using keep by (cases "xs = []") (simp_all add: entered_def)
  with m show "first_match (entered bucket xs new m) inode e (new # xs) =
      (if load_word (snd new + 16) m = inode \<and> load_word (snd new + 12) m = e then fst new else first_match m inode e xs)"
    by (simp add: first_match_def matches_def)
qed

context untyped_memory
begin

lemma add_to_bucket_runs:
  assumes "sys_invoke os = sys" and "good w" and "bucket = bucket_at ns (load_word (p + 16) (ram w))"
    and "bucket_ok pointers bucket xs (address, p) (ram w)"
  shows "\<exists>w'. add_to_bucket os ns address p w = Some (w', True) \<and> ram w' = entered bucket xs (address, p) (ram w) \<and> good w'"
proof (cases xs)
  case Nil
  have "pointers address = Some p" using assms(4) by (simp add: bucket_ok_def)
  from keep_any [OF this assms(2)] have "good (put bucket address w)" by (simp add: put_def)
  with Nil assms show ?thesis
    by (auto simp: add_to_bucket_def bucket_ok_def entered_def put_def)
next
  case (Cons x ys)
  obtain a q where x: "x = (a, q)" by fastforce
  have c: "a \<noteq> SIZE_MAX" "pointers a = Some q" "load_word bucket (ram w) = a"
    using assms(4) Cons x by (auto simp: bucket_ok_def)
  from lock_any [OF c(2) assms(2)] obtain w1 where
    w1: "sys a SIZE_MAX UNTYPED_LOCK (Number 0) w = Some (w1, q)" "ram w1 = ram w" "good w1" "q \<noteq> NULL" by blast
  from unlock_any [OF c(2) keep_any [OF c(2) w1(3)]] obtain w2 where
    w2: "sys a SIZE_MAX UNTYPED_UNLOCK (Number 0) (put q address w1) = Some (w2, 0)"
      "ram w2 = store_word q address (ram w)" "good w2" unfolding put_def w1(2) [symmetric] by fastforce
  have "disjoint_bytes q 24 bucket 4" using assms(4) Cons x by (auto simp: bucket_ok_def disjoint_bytes_sym)
  from load_word_disjoint [OF this, of 0 0] w2(2) c(3) have b: "load_word bucket (ram w2) = a" by simp
  define w3 where "w3 = put bucket address (put (p + 4) a w2)"
  have "add_to_bucket os ns address p w = Some (w3, True)"
    using c w1 w2 b assms(1,3) by (simp add: add_to_bucket_def w3_def)
  moreover have "ram w3 = entered bucket xs (address, p) (ram w)" "good w3"
    using w2 keep_any [OF c(2)] Cons x by (simp_all add: w3_def put_def entered_def)
  ultimately show ?thesis by blast
qed

end

text \<open>
  C15: a mount point entered into its bucket is found: afterwards \<open>find_mount_point\<close> gives its address for
  its inode and its enclosing file system, and for every other inode and file system of the bucket
  it gives what it gave before. With the namespace and its mount points in untyped memory that the
  kernel locks, and without overlaps between them.
\<close>

theorem mount_point_added_is_found:
  assumes "sys_invoke os = kernel_invoke frame" and "all_untyped pointers w"
    and "pointers (namespace_at i) = Some ns" and "inode = load_word (p + 16) (ram w)"
    and "bucket_ok pointers (bucket_at ns inode) xs (address, p) (ram w)"
    and "bucket_at ns inode' = bucket_at ns inode"
  shows "\<exists>w' v v' r. add_to_bucket os ns address p w = Some (w', True)
    \<and> find_mount_point os i inode' e w = Some (v, r)
    \<and> find_mount_point os i inode' e w' =
        Some (v', if inode' = inode \<and> e = load_word (p + 12) (ram w) then address else r)"
proof -
  note c = entered_chain(1) [OF assms(5)] entered_chain(2) [OF assms(5), of inode' e]
  have ch: "chain pointers (ram w) (load_word (bucket_at ns inode') (ram w)) xs"
    using assms(5,6) by (simp add: bucket_ok_def)
  from kernel_memory.find_mount_point_runs [OF assms(1-3) ch] obtain v where
    v: "find_mount_point os i inode' e w = Some (v, first_match (ram w) inode' e xs)" by blast
  from kernel_memory.add_to_bucket_runs [OF assms(1,2) refl assms(5) [unfolded assms(4)]] assms(4) obtain w' where
    w': "add_to_bucket os ns address p w = Some (w', True)" "all_untyped pointers w'"
    "ram w' = entered (bucket_at ns inode) xs (address, p) (ram w)" by auto
  from kernel_memory.find_mount_point_runs [OF assms(1) w'(2) assms(3), of inode' _ e] c(1) w'(3) assms(6) obtain v' where
    "find_mount_point os i inode' e w' = Some (v', first_match (ram w') inode' e ((address, p) # xs))" by metis
  with v w' c(2) assms(4) show ?thesis by auto
qed

text \<open>
  A namespace at 8192 whose bucket for inode 0 has the mount point in slot 6, at 20480, and the
  memory of a new mount point at 16384, in slot 5.
\<close>

definition demo_pointers :: "size_t \<rightharpoonup> addr" where
  "demo_pointers = [namespace_at 0 \<mapsto> 8192, 5 \<mapsto> 16384, 6 \<mapsto> 20480]"

definition demo_mounts :: "kstate world" where
  "demo_mounts = \<lparr>ram = store_word (bucket_at 8192 0) 6 (store_word (20480 + 4) SIZE_MAX (store_word (16384 + 4) SIZE_MAX (\<lambda>_. 0))),
     kern = zero_kstate\<lparr>current_thread := 512,
       caps := (\<lambda>_. zero_capability)(512 := zero_capability\<lparr>cap_handlers := Node_handlers, cap_resource := 1024\<rparr>,
         slot_address 1024 (namespace_at 0) := zero_capability\<lparr>cap_handlers := Untyped_handlers, cap_resource := 8192\<rparr>,
         slot_address 1024 5 := zero_capability\<lparr>cap_handlers := Untyped_handlers, cap_resource := 16384\<rparr>,
         slot_address 1024 6 := zero_capability\<lparr>cap_handlers := Untyped_handlers, cap_resource := 20480\<rparr>),
       nodes := (\<lambda>_. \<lparr>slot_bits = 4, nested_nodes = 1\<rparr>)\<rparr>\<rparr>"

lemma demo_bucket: "bucket_at 8192 0 = 8404"
  by code_simp

lemma demo_mounts_untyped: "all_untyped demo_pointers demo_mounts"
  unfolding all_untyped_def
proof (intro allI impI)
  fix a p assume "demo_pointers a = Some p"
  then consider "a = namespace_at 0" "p = 8192" | "a = 5" "p = 16384" | "a = 6" "p = 20480"
    by (auto simp: demo_pointers_def split: if_splits)
  then have "untyped_at [a] a p demo_mounts"
    by cases (simp_all add: untyped_at_def demo_mounts_def Let_def slot_address_def kernel_consts namespace_at_def NAMESPACE_NODE_SLOT_def)
  then show "\<exists>path. untyped_at path a p demo_mounts" ..
qed

lemma demo_mounts_words:
  "load_word (bucket_at 8192 0) (ram demo_mounts) = 6" "load_word (16384 + 4) (ram demo_mounts) = SIZE_MAX"
  "load_word (20480 + 4) (ram demo_mounts) = SIZE_MAX" "load_word (16384 + 12) (ram demo_mounts) = 0"
  "load_word (16384 + 16) (ram demo_mounts) = 0"
  by (simp_all add: demo_mounts_def load_store_word load_word_store_word_apart demo_bucket load_word_def [of _ "\<lambda>_. 0"] bytes_word_def)

theorem mount_point_added_is_found_witness:
  "\<exists>w' v'. add_to_bucket (kernel_os 0 (\<lambda>_ _ _ _. None) (\<lambda>_ _ _ _. None)) 8192 5 16384 demo_mounts = Some (w', True)
    \<and> find_mount_point (kernel_os 0 (\<lambda>_ _ _ _. None) (\<lambda>_ _ _ _. None)) 0 0 0 w' = Some (v', 5)"
proof -
  let ?os = "kernel_os 0 (\<lambda>_ _ _ _. None) (\<lambda>_ _ _ _. None)"
  have os: "sys_invoke ?os = kernel_invoke 0" by (simp add: kernel_os_def)
  have ns: "demo_pointers (namespace_at 0) = Some 8192" "demo_pointers 5 = Some 16384" "demo_pointers 6 = Some 20480"
    by (simp_all add: demo_pointers_def namespace_at_def NAMESPACE_NODE_SLOT_def)
  have ok: "bucket_ok demo_pointers (bucket_at 8192 0) [(6, 20480)] (5, 16384) (ram demo_mounts)"
    using ns demo_mounts_words by (simp add: bucket_ok_def disjoint_bytes_def SIZE_MAX_def demo_bucket)
  from mount_point_added_is_found [OF os demo_mounts_untyped ns(1) demo_mounts_words(5) [symmetric] ok refl, of 0]
  show ?thesis using demo_mounts_words(4) by auto
qed

section \<open>What a client may do\<close>

text \<open>
  Any kernel and any other threads, as far as the server can tell: what an invocation gives and
  which message is received may depend on everything that happened before, and every invocation and
  message is recorded.
\<close>

datatype event = Call request size_t | Sent size_t ipc_message | Received size_t ipc_message

definition observed :: "(event list \<Rightarrow> request \<Rightarrow> size_t) \<Rightarrow> (event list \<Rightarrow> ipc_message) \<Rightarrow> event list os" where
  "observed answer inbox =
     \<lparr>sys_invoke = (\<lambda>a d n x w. let v = answer (kern w) (a, d, n, x) in Some (w\<lparr>kern := kern w @ [Call (a, d, n, x) v]\<rparr>, v)),
      sys_send = (\<lambda>a d m w. Some (w\<lparr>kern := kern w @ [Sent a m]\<rparr>, 0, m)),
      sys_receive = (\<lambda>a d m w. let m' = inbox (kern w) in Some (w\<lparr>kern := kern w @ [Received a m']\<rparr>, 0, m'))\<rparr>"

lemma observed_simps [simp]:
  "sys_invoke (observed answer inbox) a d n x w =
     Some (w\<lparr>kern := kern w @ [Call (a, d, n, x) (answer (kern w) (a, d, n, x))]\<rparr>, answer (kern w) (a, d, n, x))"
  "sys_send (observed answer inbox) a d m w = Some (w\<lparr>kern := kern w @ [Sent a m]\<rparr>, 0, m)"
  by (simp_all add: observed_def Let_def)

definition locking :: "event \<Rightarrow> bool" where
  "locking ev \<longleftrightarrow> (\<exists>a n v. ev = Call (a, SIZE_MAX, n, Number 0) v \<and> (n = UNTYPED_LOCK \<or> n = UNTYPED_UNLOCK))"

lemma store_word_flag: "store_word (p + 10) v m (p + 4) = m (p + 4)"
proof -
  have "p + 4 - (p + 10) = (-6 :: addr)" by simp
  then have "unat (p + 4 - (p + 10)) = 2 ^ 32 - 6" by simp
  then show ?thesis by (simp add: store_word_apply)
qed

lemma adopt_root_only_locks:
  "\<exists>w' t. adopt_root (observed answer inbox) p w = Some w' \<and> kern w' = kern w @ t \<and> (\<forall>ev \<in> set t. locking ev)
    \<and> ram w' (p + 4) = ram w (p + 4) \<and> (\<forall>a. 4 \<le> unat (a - (p + 10)) \<longrightarrow> ram w' a = ram w a)"
  by (auto simp: adopt_root_def Let_def put_def store_word_flag locking_def store_word_apply)

text \<open>
  C23: a descriptor of a mount point that may not modify its namespace cannot be mounted on, whatever
  the kernel and the other threads do: the client gets one answer, \<open>EPERM\<close>, and apart from it the
  server makes no system call but locking and unlocking memory. Nothing in memory changes but the
  address of the mount point in the descriptor, which is set when its namespace got a root.
\<close>

theorem read_only_descriptor_cannot_mount:
  assumes "FD_CALL_NUMBER message = FD_MOUNT" and "kern w = []"
    and "p = answer [] (IPC_ID (msg_badge message), SIZE_MAX, UNTYPED_LOCK, Number 0)" and "p \<noteq> NULL"
    and "\<not> di_can_modify (load_directory_info p (ram w))"
  shows "\<exists>w' t u. handle_mount_point_message (observed answer inbox) st message w = Some w'
    \<and> kern w' = t @ [Sent (reply_to message) (put_word 0 EPERM (new_message [] [] 0))] @ u
    \<and> (\<forall>ev \<in> set (t @ u). locking ev)
    \<and> (\<forall>a. 4 \<le> unat (a - (p + 10)) \<longrightarrow> ram w' a = ram w a)"
proof -
  define first where "first = Call (IPC_ID (msg_badge message), SIZE_MAX, UNTYPED_LOCK, Number 0) p"
  let ?w1 = "w\<lparr>kern := [first]\<rparr>"
  from adopt_root_only_locks [of answer inbox p ?w1] obtain w2 t where
    w2: "adopt_root (observed answer inbox) p ?w1 = Some w2" "kern w2 = [first] @ t" "\<forall>ev \<in> set t. locking ev"
      "ram w2 (p + 4) = ram w (p + 4)" "\<forall>a. 4 \<le> unat (a - (p + 10)) \<longrightarrow> ram w2 a = ram w a" by auto
  have ro: "\<not> di_can_modify (load_directory_info p (ram w2))" using assms(5) w2(4) by (simp add: load_directory_info_def)
  then have m: "mount (observed answer inbox) (load_directory_info p) fd flags w2 = Some (w2, EPERM)" for fd flags
    by (simp add: mount_def)
  define t' where "t' = kern w2 @ [Sent (reply_to message) (put_word 0 EPERM (new_message [] [] 0))]"
  define final where "final = Call (IPC_ID (msg_badge message), SIZE_MAX, UNTYPED_UNLOCK, Number 0)
    (answer t' (IPC_ID (msg_badge message), SIZE_MAX, UNTYPED_UNLOCK, Number 0))"
  have run: "handle_mount_point_message (observed answer inbox) st message w = Some (w2\<lparr>kern := t' @ [final]\<rparr>)"
    using assms(1-4) w2(1) m
    by (simp add: handle_mount_point_message_def Let_def first_def final_def reply_value_def return_value_def t'_def FD_MOUNT_def
        FD_READ_def FD_READ_FAST_def FD_STAT_def FD_LINK_def FD_UNLINK_def FD_OPEN_def FD_WRITE_def FD_WRITE_FAST_def FD_TRUNCATE_def)
  have "locking first" "locking final" by (simp_all add: locking_def first_def final_def)
  with w2(2,3,5) show ?thesis
    by (intro exI [of _ "w2\<lparr>kern := t' @ [final]\<rparr>"] exI [of _ "first # t"] exI [of _ "[final]"]) (simp add: t'_def run)
qed

theorem read_only_descriptor_cannot_mount_witness:
  "\<exists>w' t u. handle_mount_point_message (observed (\<lambda>_ _. 8192) (\<lambda>_. new_message [] [] 0)) \<lparr>worker_id = 0, temp_slot = 0, endpoint_address = 1\<rparr>
      (new_message [FD_MOUNT] [(3, SIZE_MAX), (4, SIZE_MAX)] 0) \<lparr>ram = (\<lambda>_. 0), kern = []\<rparr> = Some w'
    \<and> kern w' = t @ [Sent 3 (put_word 0 EPERM (new_message [] [] 0))] @ u"
proof -
  let ?m = "new_message [FD_MOUNT] [(3, SIZE_MAX), (4, SIZE_MAX)] 0"
  have "FD_CALL_NUMBER ?m = FD_MOUNT" "reply_to ?m = 3" by (simp_all add: new_message_def reply_to_def)
  moreover have "\<not> di_can_modify (load_directory_info 8192 (\<lambda>_. 0))" by (simp add: load_directory_info_def)
  ultimately show ?thesis
    using read_only_descriptor_cannot_mount [of ?m "\<lparr>ram = (\<lambda>_. 0), kern = []\<rparr>" 8192 "\<lambda>_ _. 8192" "\<lambda>_. new_message [] [] 0"
        "\<lparr>worker_id = 0, temp_slot = 0, endpoint_address = 1\<rparr>"] by fastforce
qed

end
