(* ===== verification/Initrd_Server.thy ===== *)
theory Initrd_Server
  imports Client_Server Mount_Properties
begin

unbundle bit_operations_syntax

text \<open>
  The rest of the initrd file system server, \<open>core/initrd_fs/main.c\<close>: how it starts, mounts itself as
  the root, and answers one message after the other; and that a round of its loop answers once and
  leaves nothing locked. The server yields for ever when its archive is invalid; that, like a failed
  assertion, is \<open>None\<close>.
\<close>

section \<open>Starting and answering\<close>

definition MOUNT_REPLACE :: uint8_t where "MOUNT_REPLACE = 1"
definition VFS_ENDPOINT_ADDRESS :: size_t where "VFS_ENDPOINT_ADDRESS = 2"

definition initrd_slots :: "fs_state \<Rightarrow> ipc_message" where
  "initrd_slots st = new_message [] (map (\<lambda>i. (push_bit INIT_NODE_DEPTH i OR fst (fs_node st), SIZE_MAX)) [0, 1, 2, 3]) 0"

fun delete_slots :: "'k os \<Rightarrow> fs_state \<Rightarrow> nat \<Rightarrow> nat \<Rightarrow> 'k world \<Rightarrow> 'k world option" where
  "delete_slots os st 0 i w = Some w"
| "delete_slots os st (Suc n) i w = do {
     (w1, _) \<leftarrow> sys_invoke os (fst (fs_node st)) (snd (fs_node st)) NODE_DELETE (Number (of_nat i)) w;
     delete_slots os st n (Suc i) w1
   }"

text \<open>The reply as it is sent: its buffer is the memory at \<open>reply\<close>.\<close>

definition reply_message :: "addr \<Rightarrow> (size_t \<times> size_t) option \<Rightarrow> memory \<Rightarrow> ipc_message" where
  "reply_message reply fd m =
     new_message (map (\<lambda>i. m (reply + of_nat i)) [0..<IPC_BUFFER_SIZE]) (case fd of None \<Rightarrow> [] | Some c \<Rightarrow> [c]) 0"

text \<open>
  One round of \<open>main_loop\<close>; \<open>invoke\<close> and \<open>copy_to\<close> are the system calls of the handlers, as in
  \<open>handle_ipc_message\<close>. The message received stays in the variable for the next round.
\<close>

definition initrd_round ::
    "'k os \<Rightarrow> 'k invoke \<Rightarrow> 'k copy_to \<Rightarrow> addr \<Rightarrow> jax_file \<Rightarrow> fs_state \<Rightarrow> addr \<Rightarrow> ipc_message \<Rightarrow> 'k world \<Rightarrow> ('k world \<times> ipc_message) option" where
  "initrd_round os invoke copy_to empty_string junk st reply received w = do {
     (w1, result, got) \<leftarrow> sys_receive os (fst (fs_endpoint st)) SIZE_MAX (received\<lparr>msg_badge := 0\<rparr>) w;
     (if result \<noteq> 0 then Some (w1, got)
      else do {
        let w2 = w1\<lparr>ram := store_bytes reply (replicate IPC_BUFFER_SIZE 0) (ram w1)\<rparr>;
        (w3, fd) \<leftarrow> handle_ipc_message invoke copy_to empty_string junk st got reply w2;
        (w4, _, _) \<leftarrow> sys_send os (reply_to got) SIZE_MAX (reply_message reply fd (ram w3)) w3;
        w5 \<leftarrow> delete_slots os st (IPC_CAPABILITY_SLOTS + 1) 0 w4;
        Some (w5, got)
      })
   }"

definition mount_to_root :: "'k os \<Rightarrow> fs_state \<Rightarrow> 'k world \<Rightarrow> 'k world option" where
  "mount_to_root os st w = do {
     (w1, r1) \<leftarrow> alloc_object os TYPE_ENDPOINT 0 5 SIZE_MAX w;
     _ \<leftarrow> assert_that (r1 = 0);
     let dest = of_nat IPC_CAPABILITY_SLOTS + 1;
     (w2, r2) \<leftarrow> sys_invoke os (fst (fs_node st)) (snd (fs_node st)) NODE_COPY
        (Node_args \<lparr>source_address = fst (fs_endpoint st), source_depth = snd (fs_endpoint st), dest_slot = dest,
                    args_access_rights = 255, args_badge = 0, should_set_badge = 1\<rparr>) w1;
     _ \<leftarrow> assert_that (r2 = 0);
     (w3, r3) \<leftarrow> fd_mount os VFS_ENDPOINT_ADDRESS 5 (push_bit INIT_NODE_DEPTH dest OR fst (fs_node st)) MOUNT_REPLACE w2;
     _ \<leftarrow> assert_that (r3 = 0);
     Some w3
   }"

definition initrd_fs_start :: "'k os \<Rightarrow> addr \<Rightarrow> addr \<Rightarrow> 'k world \<Rightarrow> ('k world \<times> fs_state) option" where
  "initrd_fs_start os start stop w = do {
     iter \<leftarrow> open_jax (ram w) start stop;
     (w1, r1) \<leftarrow> alloc_object os TYPE_NODE 3 3 node_depth w;
     _ \<leftarrow> assert_that (r1 = 0);
     (w2, r2) \<leftarrow> alloc_object os TYPE_ENDPOINT 0 4 SIZE_MAX w1;
     _ \<leftarrow> assert_that (r2 = 0);
     let st = \<lparr>initrd_start = start, initrd_end = stop, iterator = iter, fs_endpoint = (4, SIZE_MAX), fs_node = (3, node_depth)\<rparr>;
     w3 \<leftarrow> mount_to_root os st w2;
     Some (w3, st)
   }"

section \<open>What a round does\<close>

definition observed_invoke :: "(event list \<Rightarrow> request \<Rightarrow> size_t) \<Rightarrow> event list invoke" where
  "observed_invoke answer a d n x w =
     (let v = answer (kern w) (a, d, n, Number x) in (w\<lparr>kern := kern w @ [Call (a, d, n, Number x) v]\<rparr>, v))"

definition observed_copy :: "(event list \<Rightarrow> request \<Rightarrow> size_t) \<Rightarrow> event list copy_to" where
  "observed_copy answer a d x w =
     (let v = answer (kern w) (a, d, NODE_COPY, Node_args x) in (w\<lparr>kern := kern w @ [Call (a, d, NODE_COPY, Node_args x) v]\<rparr>, v))"

text \<open>How often memory was locked, less how often it was unlocked.\<close>

fun lock_count :: "size_t \<Rightarrow> size_t \<Rightarrow> event \<Rightarrow> int" where
  "lock_count a d (Call (a', d', n, Number x) v) =
     (if (a', d') \<noteq> (a, d) then 0 else if n = UNTYPED_LOCK \<and> v \<noteq> NULL then 1 else if n = UNTYPED_UNLOCK then - 1 else 0)"
| "lock_count a d ev = 0"

definition balanced :: "event list \<Rightarrow> bool" where
  "balanced t \<longleftrightarrow> (\<forall>a d. sum_list (map (lock_count a d) t) = 0)"

text \<open>System calls only, and none that deletes a capability.\<close>

definition quiet :: "event list \<Rightarrow> bool" where
  "quiet t \<longleftrightarrow> (\<forall>ev \<in> set t. \<exists>a d n x v. ev = Call (a, d, n, x) v \<and> n \<noteq> NODE_DELETE)"

lemma balanced_quiet_append:
  "balanced s \<Longrightarrow> balanced t \<Longrightarrow> balanced (s @ t)" "quiet s \<Longrightarrow> quiet t \<Longrightarrow> quiet (s @ t)" "balanced []" "quiet []"
  by (auto simp: balanced_def quiet_def)

text \<open>A handler returns its memory and calls that answer nobody and leave nothing locked.\<close>

definition behaves :: "event list world \<Rightarrow> (event list world \<times> 'a) option \<Rightarrow> bool" where
  "behaves w r \<longleftrightarrow> (\<forall>w' x. r = Some (w', x) \<longrightarrow> (\<exists>t. kern w' = kern w @ t \<and> balanced t \<and> quiet t))"

lemma behaves_some: "kern w' = kern w @ t \<Longrightarrow> balanced t \<Longrightarrow> quiet t \<Longrightarrow> behaves w (Some (w', x))"
  by (auto simp: behaves_def)

lemma behaves_same: "kern w' = kern w \<Longrightarrow> behaves w (Some (w', x))" "behaves w None"
  by (auto simp: behaves_def balanced_def quiet_def)

abbreviation locked :: "size_t \<times> size_t \<Rightarrow> addr \<Rightarrow> event" where
  "locked c p \<equiv> Call (fst c, snd c, UNTYPED_LOCK, Number 0) p"

abbreviation unlocked :: "size_t \<times> size_t \<Rightarrow> size_t \<Rightarrow> event" where
  "unlocked c v \<equiv> Call (fst c, snd c, UNTYPED_UNLOCK, Number 0) v"

lemma lock_section:
  "balanced [locked c NULL]" "quiet [locked c p]"
  "p \<noteq> NULL \<Longrightarrow> balanced t \<Longrightarrow> balanced (locked c p # t @ [unlocked c v])"
  "quiet t \<Longrightarrow> quiet (locked c p # t @ [unlocked c v])"
  by (auto simp: balanced_def quiet_def UNTYPED_LOCK_def UNTYPED_UNLOCK_def NODE_DELETE_def)

lemma behaves_section:
  "\<exists>w' x v. r = Some (w', x) \<and> kern w' = kern w @ locked c p # t @ [unlocked c v] \<Longrightarrow>
   p \<noteq> NULL \<Longrightarrow> balanced t \<Longrightarrow> quiet t \<Longrightarrow> behaves w r"
  using lock_section(3,4) by (fastforce intro: behaves_some)

lemma single_calls:
  "balanced [Call (a, d, UNTYPED_SIZEOF, Number x) v]" "n \<noteq> NODE_DELETE \<Longrightarrow> quiet [Call (a, d, n, z) v]" "balanced [Call (a, d, n, Node_args y) v]"
  by (auto simp: balanced_def quiet_def UNTYPED_SIZEOF_def UNTYPED_LOCK_def UNTYPED_UNLOCK_def)

lemma not_deleting: "NODE_COPY \<noteq> NODE_DELETE" "UNTYPED_SIZEOF \<noteq> NODE_DELETE"
  by (simp_all add: NODE_COPY_def NODE_DELETE_def UNTYPED_SIZEOF_def)

lemma observed_invoke_simp:
  "observed_invoke answer a d n x w = (w\<lparr>kern := kern w @ [Call (a, d, n, Number x) (answer (kern w) (a, d, n, Number x))]\<rparr>,
     answer (kern w) (a, d, n, Number x))"
  "observed_copy answer a d y w = (w\<lparr>kern := kern w @ [Call (a, d, NODE_COPY, Node_args y) (answer (kern w) (a, d, NODE_COPY, Node_args y))]\<rparr>,
     answer (kern w) (a, d, NODE_COPY, Node_args y))"
  by (simp_all add: observed_invoke_def observed_copy_def Let_def)

lemma handle_open_behaves:
  "behaves w (handle_open (observed_invoke answer) (observed_copy answer) st junk received reply file next_address w)"
proof -
  define c where "c = msg_capabilities received ! Suc 0"
  define p where "p = answer (kern w) (fst c, snd c, UNTYPED_LOCK, Number 0)"
  define w1 where "w1 = w\<lparr>kern := kern w @ [locked c p]\<rparr>"
  note simps = handle_open_def observed_invoke_simp Let_def c_def [symmetric] p_def [symmetric] w1_def [symmetric]
  show ?thesis
  proof (cases "file_type file \<noteq> TYPE_DIRECTORY \<or> msg_buffer received ! Suc 0 AND OPEN_EXCLUSIVE \<noteq> 0
      \<or> msg_buffer received ! 2 AND (MODE_WRITE OR MODE_APPEND) \<noteq> 0")
    case True
    then show ?thesis by (auto simp: simps intro!: behaves_same)
  next
    case ok: False
    show ?thesis
    proof (cases "p = NULL")
      case True
      with ok show ?thesis
        by (auto simp: simps intro!: behaves_some [where t = "[locked c NULL]"] lock_section)
    next
      case False
      show ?thesis
      proof (cases "open_loop (ram w1) st file p next_address junk")
        case None
        with ok False show ?thesis by (simp add: simps behaves_same)
      next
        case (Some found)
        show ?thesis
        proof (cases found)
          case None
          with Some ok False show ?thesis
            by (intro behaves_section [OF _ False balanced_quiet_append(3,4)]) (simp add: simps, simp add: w1_def)
        next
          case found: (Some a)
          with Some ok False show ?thesis
            by (intro behaves_section [OF _ False single_calls(3) single_calls(2) [OF not_deleting(1)]]) (simp add: simps, simp add: w1_def)
        qed
      qed
    qed
  qed
qed

lemma handle_fd_message_behaves:
  "behaves w (handle_fd_message (observed_invoke answer) (observed_copy answer) st junk received reply file next_address w)"
proof -
  define c where "c = msg_capabilities received ! Suc 0"
  define p where "p = answer (kern w) (fst c, snd c, UNTYPED_LOCK, Number 0)"
  define w1 where "w1 = w\<lparr>kern := kern w @ [locked c p]\<rparr>"
  define size where "size = answer (kern w1) (fst c, snd c, UNTYPED_SIZEOF, Number 0)"
  define w2 where "w2 = w1\<lparr>kern := kern w1 @ [Call (fst c, snd c, UNTYPED_SIZEOF, Number 0) size]\<rparr>"
  note simps = handle_fd_message_def observed_invoke_simp Let_def c_def [symmetric] p_def [symmetric] w1_def [symmetric]
    size_def [symmetric] w2_def [symmetric]
  consider "FD_CALL_NUMBER received = FD_READ" "p = NULL" | "FD_CALL_NUMBER received = FD_READ" "p \<noteq> NULL"
    | "FD_CALL_NUMBER received = FD_OPEN" | "FD_CALL_NUMBER received \<noteq> FD_READ" "FD_CALL_NUMBER received \<noteq> FD_OPEN" by blast
  then show ?thesis
  proof cases
    case 1
    then show ?thesis
      by (auto simp: simps w1_def intro!: behaves_some [where t = "[locked c NULL]"] lock_section)
  next
    case 2
    let ?wanted = "word_at 4 (msg_buffer received)"
    show ?thesis
    proof (cases "handle_read st junk (msg_badge received) reply file (word_at 8 (msg_buffer received))
        (if ?wanted > size then size else ?wanted) p (ram w2)")
      case None
      with 2 show ?thesis by (simp add: simps behaves_same)
    next
      case (Some x)
      with 2 show ?thesis
        by (intro behaves_section [OF _ 2(2) single_calls(1) single_calls(2) [OF not_deleting(2)]]) (cases x, simp add: simps, simp add: w1_def w2_def)
    qed
  next
    case 3
    then show ?thesis using handle_open_behaves
      by (simp add: handle_fd_message_def FD_OPEN_def FD_READ_def FD_READ_FAST_def FD_STAT_def Let_def)
  next
    case 4
    then show ?thesis
      by (auto simp: handle_fd_message_def Let_def behaves_same Option.bind_eq_Some_conv split: Option.bind_splits intro!: behaves_same)
  qed
qed

lemma handle_ipc_message_behaves:
  "behaves w (handle_ipc_message (observed_invoke answer) (observed_copy answer) empty_string junk st received reply w)"
  using handle_fd_message_behaves by (simp add: handle_ipc_message_def split: prod.split)

lemma delete_slots_observed:
  "\<exists>w' t. delete_slots (observed answer inbox) st n i w = Some w' \<and> kern w' = kern w @ t \<and> ram w' = ram w \<and> length t = n
    \<and> (\<forall>j < n. \<exists>v. t ! j = Call (fst (fs_node st), snd (fs_node st), NODE_DELETE, Number (of_nat (i + j))) v)"
proof (induction n arbitrary: i w)
  case (Suc n)
  let ?q = "(fst (fs_node st), snd (fs_node st), NODE_DELETE, Number (of_nat i))"
  let ?w1 = "w\<lparr>kern := kern w @ [Call ?q (answer (kern w) ?q)]\<rparr>"
  from Suc [of "Suc i" ?w1] obtain w' t where
    t: "delete_slots (observed answer inbox) st n (Suc i) ?w1 = Some w'" "kern w' = kern ?w1 @ t" "ram w' = ram w" "length t = n"
      "\<forall>j < n. \<exists>v. t ! j = Call (fst (fs_node st), snd (fs_node st), NODE_DELETE, Number (of_nat (Suc i + j))) v" by auto
  then show ?case
    by (intro exI [of _ w'] exI [of _ "Call ?q (answer (kern w) ?q) # t"]) (auto simp: less_Suc_eq_0_disj)
qed simp

text \<open>
  The capability that \<open>handle_open\<close> makes for the client is in slot 5, which the loop behind the answer does not reach: when the client
  does not take it, it stays there, and the next copy into the slot fails.
\<close>

lemma open_fails_when_slot_5_used:
  assumes "file_type file = TYPE_DIRECTORY" and "msg_buffer received ! 1 AND OPEN_EXCLUSIVE = 0"
    and "msg_buffer received ! 2 AND (MODE_WRITE OR MODE_APPEND) = 0" and "snd (invoke (fst (msg_capabilities received ! 1)) (snd (msg_capabilities received ! 1)) UNTYPED_LOCK 0 w) \<noteq> NULL"
    and "open_loop (ram (fst (invoke (fst (msg_capabilities received ! 1)) (snd (msg_capabilities received ! 1)) UNTYPED_LOCK 0 w))) st file
        (snd (invoke (fst (msg_capabilities received ! 1)) (snd (msg_capabilities received ! 1)) UNTYPED_LOCK 0 w)) next_address junk = Some (Some a)"
    and "\<And>x v. dest_slot x = 5 \<Longrightarrow> snd (copy_to (fst (fs_node st)) (snd (fs_node st)) x v) = ECAPEXISTS"
  shows "\<exists>w'. handle_open invoke copy_to st junk received reply file next_address w = Some (w', None)"
  using assms by (auto simp: handle_open_def Let_def split_beta IPC_CAPABILITY_SLOTS_def errno_defs)

lemma node_copy_into_used_slot:
  assumes "dest_slot (copy_args s argument) < num_slots (nodes s (cap_resource (caps s slot)))"
    and "cap_handlers (caps s (slot_address (cap_resource (caps s slot)) (dest_slot (copy_args s argument)))) \<noteq> No_handlers"
  shows "node_copy address depth slot argument s = Some (s, ECAPEXISTS)"
  using assms by (simp add: node_copy_def Let_def not_le [symmetric])

text \<open>
  C18: whatever the kernel answers and the clients send, a round of the server that ends has answered the
  message it received exactly once, on the endpoint that came with it; before the answer it makes system calls only, none of which
  deletes a capability, and every piece of memory it locked is unlocked again; after the answer it deletes the slots 0 to 4 of its node.
  The slot 5, into which opening a file puts the capability for the client (lemma \<open>open_fails_when_slot_5_used\<close>), is not deleted in the round.
\<close>

theorem initrd_round_answers_once:
  assumes "initrd_round (observed answer inbox) (observed_invoke answer) (observed_copy answer) empty_string junk st reply received w = Some (w', got)"
  shows "got = inbox (kern w) \<and> (\<exists>t m u. kern w' = kern w @ [Received (fst (fs_endpoint st)) got] @ t @ [Sent (reply_to got) m] @ u
    \<and> quiet t \<and> balanced t \<and> length u = 5
    \<and> (\<forall>j < 5. \<exists>v. u ! j = Call (fst (fs_node st), snd (fs_node st), NODE_DELETE, Number (of_nat j)) v))"
proof -
  define w1 where "w1 = w\<lparr>kern := kern w @ [Received (fst (fs_endpoint st)) (inbox (kern w))]\<rparr>"
  define w2 where "w2 = w1\<lparr>ram := store_bytes reply (replicate IPC_BUFFER_SIZE 0) (ram w1)\<rparr>"
  have "sys_receive (observed answer inbox) (fst (fs_endpoint st)) SIZE_MAX x w = Some (w1, 0, inbox (kern w))" for x
    by (simp add: observed_def w1_def Let_def)
  with assms obtain w3 fd where
    w3: "handle_ipc_message (observed_invoke answer) (observed_copy answer) empty_string junk st (inbox (kern w)) reply w2 = Some (w3, fd)"
    and d: "delete_slots (observed answer inbox) st 5 0 (w3\<lparr>kern := kern w3 @ [Sent (reply_to got) (reply_message reply fd (ram w3))]\<rparr>) = Some w'"
    and got: "got = inbox (kern w)"
    by (auto simp: initrd_round_def w2_def [symmetric] IPC_CAPABILITY_SLOTS_def Option.bind_eq_Some_conv Let_def)
  from handle_ipc_message_behaves [of w2] w3 obtain t where
    t: "kern w3 = kern w2 @ t" "balanced t" "quiet t" unfolding behaves_def by blast
  from delete_slots_observed [of answer inbox st 5 0 "w3\<lparr>kern := kern w3 @ [Sent (reply_to got) (reply_message reply fd (ram w3))]\<rparr>"] d
  obtain u where u: "kern w' = kern w3 @ [Sent (reply_to got) (reply_message reply fd (ram w3))] @ u" "length u = 5"
    "\<forall>j < 5. \<exists>v. u ! j = Call (fst (fs_node st), snd (fs_node st), NODE_DELETE, Number (of_nat j)) v" by auto
  then show ?thesis using t got by (auto simp: w2_def w1_def)
qed

lemma stat_round_returns:
  assumes "FD_CALL_NUMBER (inbox (kern w)) = FD_STAT" and "msg_badge (inbox (kern w)) = 0"
  shows "\<exists>w' got. initrd_round (observed answer inbox) invoke copy_to empty_string junk st reply received w = Some (w', got)"
proof -
  define w1 where "w1 = w\<lparr>kern := kern w @ [Received (fst (fs_endpoint st)) (inbox (kern w))]\<rparr>"
  have r: "sys_receive (observed answer inbox) (fst (fs_endpoint st)) SIZE_MAX x w = Some (w1, 0, inbox (kern w))" for x
    by (simp add: observed_def w1_def Let_def)
  have "\<exists>v fd. handle_ipc_message invoke copy_to empty_string junk st (inbox (kern w)) reply v' = Some (v, fd)" for v'
    using assms by (simp add: handle_ipc_message_def handle_fd_message_def FD_STAT_def FD_READ_def FD_READ_FAST_def)
  then obtain v fd where h: "handle_ipc_message invoke copy_to empty_string junk st (inbox (kern w)) reply
      (w1\<lparr>ram := store_bytes reply (replicate IPC_BUFFER_SIZE 0) (ram w1)\<rparr>) = Some (v, fd)" by blast
  obtain v2 where "delete_slots (observed answer inbox) st (IPC_CAPABILITY_SLOTS + 1) 0
      (v\<lparr>kern := kern v @ [Sent (reply_to (inbox (kern w))) (reply_message reply fd (ram v))]\<rparr>) = Some v2"
    using delete_slots_observed by blast
  with r h show ?thesis by (simp add: initrd_round_def)
qed

theorem initrd_round_answers_once_witness:
  "\<exists>w' got t m u. initrd_round (observed (\<lambda>_ _. 0) (\<lambda>_. new_message [FD_STAT] [(7, SIZE_MAX)] 0)) (observed_invoke (\<lambda>_ _. 0)) (observed_copy (\<lambda>_ _. 0))
      0 (root_file 0) \<lparr>initrd_start = 4092, initrd_end = 4096, iterator = \<lparr>iter_start = 4096, iter_end = 4096\<rparr>, fs_endpoint = (4, 0), fs_node = (3, 0)\<rparr>
      8192 (new_message [] [] 0) \<lparr>ram = (\<lambda>_. 0), kern = []\<rparr> = Some (w', got)
    \<and> kern w' = [Received 4 got] @ t @ [Sent 7 m] @ u \<and> balanced t"
proof -
  let ?m = "new_message [FD_STAT] [(7, SIZE_MAX)] 0" and ?f = "\<lambda>_ _. 0 :: size_t"
  define st where "st = \<lparr>initrd_start = 4092, initrd_end = 4096, iterator = \<lparr>iter_start = 4096, iter_end = 4096\<rparr>, fs_endpoint = (4 :: size_t, 0 :: size_t), fs_node = (3 :: size_t, 0 :: size_t)\<rparr>"
  have m: "FD_CALL_NUMBER ?m = FD_STAT" "msg_badge ?m = 0" "reply_to ?m = 7" by (simp_all add: new_message_def reply_to_def)
  obtain w' got where run: "initrd_round (observed ?f (\<lambda>_. ?m)) (observed_invoke ?f) (observed_copy ?f) 0 (root_file 0) st 8192
      (new_message [] [] 0) \<lparr>ram = (\<lambda>_. 0), kern = []\<rparr> = Some (w', got)"
    using stat_round_returns [of "\<lambda>_. ?m" "\<lparr>ram = (\<lambda>_. 0), kern = []\<rparr>"] m by blast
  from initrd_round_answers_once [OF run] have "got = ?m" by simp
  with initrd_round_answers_once [OF run] run m(3) show ?thesis
    unfolding st_def [symmetric] by (fastforce simp: st_def)
qed

end
