(* ===== verification/Jax_Tool.thy ===== *)
theory Jax_Tool
  imports Jax
begin

unbundle bit_operations_syntax

text \<open>
  The archive tool, \<open>utils/jax\<close>: listing and extracting archives (\<open>list.c\<close>, \<open>extract.c\<close>), creating and
  appending to them (\<open>create.c\<close>, whose function for one file is in \<open>Jax\<close>), and the command line
  (\<open>main.c\<close>). A file is its bytes and a position in them. What the tool asks of the operating system is
  a list of actions. Parameters stand for what the C library and the machine decide: \<open>BUFSIZ\<close>, \<open>LONG_MAX\<close>,
  whether memory can be allocated, whether the operating system does what it is asked, and what
  becomes of an \<open>int\<close> that is shifted by more than its width. Standard output can always be written to.
\<close>

section \<open>Streams (stdio, endianness.c)\<close>

type_synonym text_bytes = "uint8_t list"

record stream =
  stream_bytes :: text_bytes
  stream_pos :: nat

record tool = host +
  long_max :: int
  shift_int :: "uint8_t \<Rightarrow> nat \<Rightarrow> 64 word"
  date_string :: "64 word \<Rightarrow> text_bytes"

text \<open>\<open>fread\<close> of one item, which fails for an item of no bytes. After a failure the position is never used again.\<close>

definition fread :: "nat \<Rightarrow> stream \<Rightarrow> (text_bytes \<times> stream) option" where
  "fread n f =
     (let rest = drop (stream_pos f) (stream_bytes f) in
      if n = 0 \<or> length rest < n then None else Some (take n rest, f\<lparr>stream_pos := stream_pos f + n\<rparr>))"

text \<open>\<open>fseek\<close> from the current position; it does nothing when the new position cannot be represented.\<close>

definition fseek_cur :: "tool \<Rightarrow> int \<Rightarrow> stream \<Rightarrow> stream" where
  "fseek_cur env n f =
     (let p = int (stream_pos f) + n in if p < 0 \<or> p > long_max env then f else f\<lparr>stream_pos := nat p\<rparr>)"

definition read_u16 :: "stream \<Rightarrow> (uint16_t \<times> stream) option" where
  "read_u16 f = map_option (\<lambda>(b, f'). (ucast (b ! 0) OR push_bit 8 (ucast (b ! 1)), f')) (fread 2 f)"

definition bytes_i64 :: "tool \<Rightarrow> text_bytes \<Rightarrow> 64 word" where
  "bytes_i64 env b = foldl (\<lambda>result i. result OR shift_int env (b ! i) (i * 8)) 0 [0..<8]"

definition read_i64 :: "tool \<Rightarrow> stream \<Rightarrow> (64 word \<times> stream) option" where
  "read_i64 env f = map_option (\<lambda>(b, f'). (bytes_i64 env b, f')) (fread 8 f)"

definition bytes_u16 :: "text_bytes \<Rightarrow> uint16_t" where
  "bytes_u16 b = ucast (b ! 0) OR push_bit 8 (ucast (b ! 1))"

text \<open>The loop that seeks past the contents of a file, in steps of \<open>LONG_MAX\<close>.\<close>

function skip_contents :: "tool \<Rightarrow> int \<Rightarrow> stream \<Rightarrow> stream" where
  "skip_contents env left f =
     (if long_max env \<le> 0 \<or> left < 0 then f
      else skip_contents env (left - long_max env) (fseek_cur env (if left > long_max env then long_max env else left) f))"
  by auto

termination skip_contents
  by (relation "measure (\<lambda>(e, l, f). nat (l + 1))") auto

declare skip_contents.simps [simp del]

definition magic_ok :: "stream \<Rightarrow> stream option" where
  "magic_ok f = (case fread 4 f of None \<Rightarrow> None | Some (b, f') \<Rightarrow> if b = [94, 106, 97, 120] then Some f' else None)"

text \<open>Reading and seeking only ever go forward.\<close>

definition later :: "stream \<Rightarrow> stream \<Rightarrow> bool" where
  "later f f' \<longleftrightarrow> stream_bytes f' = stream_bytes f \<and> stream_pos f \<le> stream_pos f'"

lemma later_refl [simp]: "later f f"
  by (simp add: later_def)

lemma later_trans: "later f g \<Longrightarrow> later g h \<Longrightarrow> later f h"
  by (simp add: later_def)

lemma later_move [simp]: "later f (f\<lparr>stream_pos := stream_pos f + n\<rparr>)"
  by (simp add: later_def)

lemma fread_later: "fread n f = Some (b, f') \<Longrightarrow> later f f' \<and> stream_pos f' = stream_pos f + n \<and> stream_pos f' \<le> length (stream_bytes f) \<and> length b = n"
  by (auto simp: fread_def Let_def later_def split: if_splits)

lemma read_u16_later: "read_u16 f = Some (x, f') \<Longrightarrow> later f f'"
  by (auto simp: read_u16_def dest: fread_later)

lemma read_i64_later: "read_i64 env f = Some (x, f') \<Longrightarrow> later f f'"
  by (auto simp: read_i64_def dest: fread_later)

lemma fseek_cur_later: "0 \<le> n \<Longrightarrow> later f (fseek_cur env n f)"
  by (auto simp: fseek_cur_def Let_def later_def)

lemma skip_contents_later: "later f (skip_contents env left f)"
proof (induction env left f rule: skip_contents.induct)
  case (1 env left f)
  show ?case
  proof (cases "long_max env \<le> 0 \<or> left < 0")
    case False
    let ?f = "fseek_cur env (if left > long_max env then long_max env else left) f"
    have "skip_contents env left f = skip_contents env (left - long_max env) ?f"
      using False by (subst skip_contents.simps) simp
    moreover have "later f ?f" using False by (intro fseek_cur_later) auto
    ultimately show ?thesis using later_trans [of f ?f] 1 [OF False] by metis
  qed (subst skip_contents.simps, simp)
qed

lemmas stream_later = read_u16_later read_i64_later fseek_cur_later skip_contents_later

section \<open>Listing (list.c)\<close>

text \<open>What is printed for one record after its type was read, and the stream behind it unless the record is malformed.\<close>

definition list_record :: "tool \<Rightarrow> uint8_t \<Rightarrow> stream \<Rightarrow> text_bytes \<times> stream option" where
  "list_record env record_type f =
     (case read_u16 f of None \<Rightarrow> ([], None)
      | Some (nlen, f1) \<Rightarrow>
          let n = unat nlen; name = take n (drop (stream_pos f1) (stream_bytes f1)) in
          if length name < n then (name, None)
          else
            let printed = name @ (if record_type = TYPE_DIRECTORY then [47] else []) @ [10];
                f2 = f1\<lparr>stream_pos := stream_pos f1 + n\<rparr> in
            case read_u16 f2 of None \<Rightarrow> (printed, None)
            | Some (dlen, f3) \<Rightarrow>
                (case read_i64 env (fseek_cur env (uint dlen + 14) f3) of None \<Rightarrow> (printed, None)
                 | Some (fsize, f4) \<Rightarrow> (printed, Some (skip_contents env (sint fsize) f4))))"

lemma list_record_later:
  assumes "list_record env ty f = (out, Some f')"
  shows "later f f'"
proof -
  from assms obtain nlen f1 dlen f3 fsize f4 where
    u: "read_u16 f = Some (nlen, f1)" "read_u16 (f1\<lparr>stream_pos := stream_pos f1 + unat nlen\<rparr>) = Some (dlen, f3)"
      "read_i64 env (fseek_cur env (uint dlen + 14) f3) = Some (fsize, f4)" "f' = skip_contents env (sint fsize) f4"
    by (auto simp: list_record_def Let_def split: option.splits if_splits)
  then show ?thesis
    using stream_later(1) [OF u(1)] stream_later(1) [OF u(2)] stream_later(2) [OF u(3)]
      fseek_cur_later [of "uint dlen + 14" f3 env] skip_contents_later [of f4 env "sint fsize"] later_move [of f1 "unat nlen"]
    by (auto simp: later_def)
qed

text \<open>The loop over the records: the code the tool returns, and what it has printed.\<close>

function list_loop :: "tool \<Rightarrow> stream \<Rightarrow> text_bytes \<Rightarrow> nat \<times> text_bytes" where
  "list_loop env f out =
     (case fread 1 f of None \<Rightarrow> (0, out)
      | Some (b, f1) \<Rightarrow>
          (case list_record env (b ! 0) f1 of
             (printed, None) \<Rightarrow> (1, out @ printed)
           | (printed, Some f2) \<Rightarrow> list_loop env f2 (out @ printed)))"
  by pat_completeness auto

lemma fread_less: "fread (Suc n) f = Some (b, f1) \<Longrightarrow> later f1 f2 \<Longrightarrow> length (stream_bytes f2) - stream_pos f2 < length (stream_bytes f) - stream_pos f"
  by (auto simp: later_def dest!: fread_later)

termination list_loop
  by (relation "measure (\<lambda>(e, f, out). length (stream_bytes f) - stream_pos f)")
    (auto dest!: sym [THEN list_record_later] intro: fread_less [of 0, simplified])

declare list_loop.simps [simp del]

definition list :: "tool \<Rightarrow> stream \<Rightarrow> nat \<times> text_bytes" where
  "list env f = (case magic_ok f of None \<Rightarrow> (1, []) | Some f1 \<Rightarrow> list_loop env f1 [])"

section \<open>Listing with details (list.c)\<close>

definition num_digits :: "int \<Rightarrow> int" where
  "num_digits number =
     (let offset = (if number < 0 then 1 else 0); n = \<bar>number\<bar> in
      offset + (if n < 10 then 1 else if n < 100 then 2 else if n < 1000 then 3 else if n < 10000 then 4
                else if n < 100000 then 5 else if n < 1000000 then 6 else if n < 10000000 then 7 else 8))"

text \<open>The characters of a decimal number, as \<open>printf\<close> writes it.\<close>

fun digits :: "nat \<Rightarrow> text_bytes" where
  "digits n = (if n < 10 then [48 + of_nat n] else digits (n div 10) @ [48 + of_nat (n mod 10)])"

declare digits.simps [simp del]

definition decimal :: "int \<Rightarrow> text_bytes" where
  "decimal n = (if n < 0 then 45 # digits (nat (- n)) else digits (nat n))"

text \<open>A string that starts with the terminating character is empty, so an unknown type hides the permissions.\<close>

definition mode_string :: "uint8_t \<Rightarrow> uint16_t \<Rightarrow> text_bytes" where
  "mode_string record_type mode =
     (let kind = (if record_type = TYPE_DIRECTORY then [100] else if record_type = TYPE_LINK then [108]
                  else if record_type = TYPE_REGULAR then [45] else []);
          triplet = (\<lambda>i. [if bit mode (3 * i + 2) then 114 else 45, if bit mode (3 * i + 1) then 119 else 45, if bit mode (3 * i) then 120 else 45])
      in if kind = [] then [] else kind @ triplet 2 @ triplet 1 @ triplet 0)"

record other_fields =
  of_timestamp :: "64 word"
  of_mode :: uint16_t
  of_owner :: uint16_t
  of_group :: uint16_t
  of_size :: "64 word"

definition read_other_fields :: "tool \<Rightarrow> stream \<Rightarrow> (other_fields \<times> stream) option" where
  "read_other_fields env f = map_option (\<lambda>(b, f').
     (\<lparr>of_timestamp = bytes_i64 env (take 8 b), of_mode = bytes_u16 (drop 8 b), of_owner = bytes_u16 (drop 10 b),
       of_group = bytes_u16 (drop 12 b), of_size = bytes_i64 env (drop 14 b)\<rparr>, f')) (fread 22 f)"

text \<open>A size that is passed as an \<open>int\<close> loses its upper half.\<close>

definition details :: "tool \<Rightarrow> uint8_t \<Rightarrow> other_fields \<Rightarrow> text_bytes" where
  "details env record_type x =
     (let u = uint (of_owner x); g = uint (of_group x);
          padding = 17 - num_digits u - num_digits g - num_digits (sint (ucast (of_size x) :: 32 word))
      in mode_string record_type (of_mode x) @ [32] @ decimal u @ [47] @ decimal g @ [32]
         @ replicate (nat padding) 32 @ decimal (sint (of_size x)) @ [32] @ date_string env (of_timestamp x) @ [32])"

definition list_verbose_record :: "tool \<Rightarrow> uint8_t \<Rightarrow> stream \<Rightarrow> text_bytes \<times> stream option" where
  "list_verbose_record env record_type f =
     (case read_u16 f of None \<Rightarrow> ([], None)
      | Some (nlen, f1) \<Rightarrow>
          (case read_u16 (fseek_cur env (uint nlen) f1) of None \<Rightarrow> ([], None)
           | Some (dlen, f2) \<Rightarrow>
               (case read_other_fields env (fseek_cur env (uint dlen) f2) of None \<Rightarrow> ([], None)
                | Some (x, f3) \<Rightarrow>
                    let n = unat nlen; name = take n (drop (stream_pos f1) (stream_bytes f1)) in
                    if length name < n then (details env record_type x @ name, None)
                    else (details env record_type x @ name @ (if record_type = TYPE_DIRECTORY then [47] else []) @ [10],
                          Some (skip_contents env (sint (of_size x)) f3)))))"

lemma list_verbose_record_later:
  assumes "list_verbose_record env ty f = (out, Some f')"
  shows "later f f'"
proof -
  from assms obtain nlen f1 dlen f2 x f3 where
    u: "read_u16 f = Some (nlen, f1)" "read_u16 (fseek_cur env (uint nlen) f1) = Some (dlen, f2)"
      "read_other_fields env (fseek_cur env (uint dlen) f2) = Some (x, f3)" "f' = skip_contents env (sint (of_size x)) f3"
    by (auto simp: list_verbose_record_def Let_def split: option.splits if_splits)
  have "later (fseek_cur env (uint dlen) f2) f3" using u(3) by (auto simp: read_other_fields_def dest: fread_later)
  then show ?thesis
    using u(4) stream_later(1) [OF u(1)] stream_later(1) [OF u(2)] skip_contents_later [of f3 env "sint (of_size x)"]
      fseek_cur_later [of "uint nlen" f1 env] fseek_cur_later [of "uint dlen" f2 env]
    by (auto simp: later_def)
qed

function list_verbose_loop :: "tool \<Rightarrow> stream \<Rightarrow> text_bytes \<Rightarrow> nat \<times> text_bytes" where
  "list_verbose_loop env f out =
     (case fread 1 f of None \<Rightarrow> (0, out)
      | Some (b, f1) \<Rightarrow>
          (case list_verbose_record env (b ! 0) f1 of
             (printed, None) \<Rightarrow> (1, out @ printed)
           | (printed, Some f2) \<Rightarrow> list_verbose_loop env f2 (out @ printed)))"
  by pat_completeness auto

termination list_verbose_loop
  by (relation "measure (\<lambda>(e, f, out). length (stream_bytes f) - stream_pos f)")
    (auto dest!: sym [THEN list_verbose_record_later] intro: fread_less [of 0, simplified])

declare list_verbose_loop.simps [simp del]

definition list_verbose :: "tool \<Rightarrow> stream \<Rightarrow> nat \<times> text_bytes" where
  "list_verbose env f = (case magic_ok f of None \<Rightarrow> (1, []) | Some f1 \<Rightarrow> list_verbose_loop env f1 [])"

section \<open>Extracting (extract.c)\<close>

text \<open>
  What the tool asks of the operating system and the standard output. Names are strings of C: they end
  at the first character 0.
\<close>

datatype action =
    Print text_bytes
  | Report_type uint8_t
  | Open_file text_bytes
  | Write_file text_bytes
  | Close_file
  | Make_link text_bytes text_bytes
  | Make_directory text_bytes uint16_t
  | Set_times text_bytes "64 word"
  | Set_mode text_bytes uint16_t
  | Set_owner text_bytes uint16_t uint16_t

type_synonym permission = "action list \<Rightarrow> action \<Rightarrow> bool"

definition c_string :: "text_bytes \<Rightarrow> text_bytes" where
  "c_string s = takeWhile (\<lambda>c. c \<noteq> 0) s"

text \<open>The loop that copies the contents of a regular file; it says whether it came to the end.\<close>

function extract_contents :: "tool \<Rightarrow> permission \<Rightarrow> int \<Rightarrow> stream \<Rightarrow> action list \<Rightarrow> (stream \<times> bool) \<times> action list" where
  "extract_contents env ok left f t =
     (if bufsiz env = 0 \<or> left < 0 then ((f, True), t)
      else
        let rw_size = (if left > int (bufsiz env) then bufsiz env else nat left) in
        case fread rw_size f of None \<Rightarrow> ((f, False), t)
        | Some (b, f') \<Rightarrow> if \<not> ok t (Write_file b) then ((f', False), t)
            else extract_contents env ok (left - int (bufsiz env)) f' (t @ [Write_file b]))"
  by pat_completeness auto

termination extract_contents
  by (relation "measure (\<lambda>(e, p, l, f, t). nat (l + 1))") auto

declare extract_contents.simps [simp del]

text \<open>
  Making the file, link or directory: the stream behind the contents, or the code that the tool
  returns. The machine has 64 bits.
\<close>

definition extract_object ::
    "tool \<Rightarrow> permission \<Rightarrow> uint8_t \<Rightarrow> text_bytes \<Rightarrow> uint16_t \<Rightarrow> int \<Rightarrow> stream \<Rightarrow> action list \<Rightarrow> stream option \<times> action list" where
  "extract_object env ok record_type name mode fsize f t =
     (if record_type = TYPE_REGULAR then
        (if \<not> ok t (Open_file name) then (None, t)
         else case extract_contents env ok fsize f (t @ [Open_file name]) of
           ((f1, done), t1) \<Rightarrow> if done then (Some f1, t1 @ [Close_file]) else (None, t1))
      else if record_type = TYPE_LINK then
        (if \<not> malloc_works env (nat fsize + 1) then (None, t)
         else case fread (nat fsize) f of None \<Rightarrow> (None, t)
           | Some (b, f1) \<Rightarrow>
               if ok t (Make_link (c_string b) name) then (Some f1, t @ [Make_link (c_string b) name]) else (None, t))
      else if record_type = TYPE_DIRECTORY then
        (if ok t (Make_directory name mode) then (Some (skip_contents env fsize f), t @ [Make_directory name mode]) else (None, t))
      else (None, t @ [Report_type record_type]))"

text \<open>Setting the attributes; what the operating system refuses is only reported.\<close>

definition attempt :: "permission \<Rightarrow> action \<Rightarrow> action list \<Rightarrow> action list" where
  "attempt ok a t = (if ok t a then t @ [a] else t)"

definition extract_attributes :: "permission \<Rightarrow> uint8_t \<Rightarrow> text_bytes \<Rightarrow> other_fields \<Rightarrow> action list \<Rightarrow> action list" where
  "extract_attributes ok record_type name x t =
     (let t1 = attempt ok (Set_times name (of_timestamp x)) t;
          t2 = (if record_type \<noteq> TYPE_DIRECTORY then attempt ok (Set_mode name (of_mode x)) t1 else t1)
      in attempt ok (Set_owner name (of_owner x) (of_group x)) t2)"

definition extract_record ::
    "tool \<Rightarrow> permission \<Rightarrow> bool \<Rightarrow> text_bytes list \<Rightarrow> uint8_t \<Rightarrow> stream \<Rightarrow> action list \<Rightarrow> stream option \<times> action list" where
  "extract_record env ok verbose wanted record_type f t =
     (case read_u16 f of None \<Rightarrow> (None, t)
      | Some (nlen, f1) \<Rightarrow>
          if \<not> malloc_works env (unat nlen + 1) then (None, t)
          else case fread (unat nlen) f1 of None \<Rightarrow> (None, t)
          | Some (nm, f2) \<Rightarrow>
              (case read_u16 f2 of None \<Rightarrow> (None, t)
               | Some (dlen, f3) \<Rightarrow>
                   let f4 = fseek_cur env (uint dlen) f3; name = c_string nm in
                   if wanted \<noteq> [] \<and> name \<notin> set wanted then
                     (case read_i64 env (fseek_cur env 14 f4) of None \<Rightarrow> (None, t)
                      | Some (fsize, f5) \<Rightarrow> (Some (skip_contents env (sint fsize) f5), t))
                   else
                     let t1 = (if verbose then t @ [Print (name @ [10])] else t) in
                     case read_other_fields env f4 of None \<Rightarrow> (None, t1)
                     | Some (x, f5) \<Rightarrow>
                         (case extract_object env ok record_type name (of_mode x) (if sint (of_size x) < 0 then 0 else sint (of_size x)) f5 t1 of
                            (None, t2) \<Rightarrow> (None, t2)
                          | (Some f6, t2) \<Rightarrow> (Some f6, extract_attributes ok record_type name x t2))))"

lemma extract_contents_later: "extract_contents env ok left f t = ((f', d), t') \<Longrightarrow> later f f'"
proof (induction env ok left f t arbitrary: f' d t' rule: extract_contents.induct)
  case (1 env ok left f t)
  show ?case
  proof (cases "bufsiz env = 0 \<or> left < 0")
    case True
    with 1(2) show ?thesis by (subst (asm) extract_contents.simps) auto
  next
    case False
    let ?n = "if left > int (bufsiz env) then bufsiz env else nat left"
    show ?thesis
    proof (cases "fread ?n f")
      case None
      with 1(2) False show ?thesis by (subst (asm) extract_contents.simps) (auto simp: Let_def)
    next
      case (Some x)
      obtain b f1 where x: "x = (b, f1)" by fastforce
      then have l: "later f f1" using Some fread_later by blast
      show ?thesis
      proof (cases "ok t (Write_file b)")
        case True
        with 1(2) False Some x have "extract_contents env ok (left - int (bufsiz env)) f1 (t @ [Write_file b]) = ((f', d), t')"
          by (subst (asm) extract_contents.simps) (simp add: Let_def)
        with 1(1) [OF False refl Some, of b f1] x True l later_trans show ?thesis by blast
      next
        case no: False
        with 1(2) False Some x l show ?thesis by (subst (asm) extract_contents.simps) (auto simp: Let_def)
      qed
    qed
  qed
qed

lemma extract_object_later:
  assumes "extract_object env ok ty name mode fsize f t = (Some f', t')"
  shows "later f f'"
  using assms fread_later skip_contents_later extract_contents_later
  by (auto simp: extract_object_def split: if_splits prod.splits option.splits)

lemma read_other_fields_later: "read_other_fields env f = Some (x, f') \<Longrightarrow> later f f'"
  by (auto simp: read_other_fields_def dest: fread_later)

lemma extract_record_later:
  assumes "extract_record env ok verbose wanted ty f t = (Some f', t')"
  shows "later f f'"
proof -
  from assms obtain nlen f1 nm f2 dlen f3 where
    u: "read_u16 f = Some (nlen, f1)" "fread (unat nlen) f1 = Some (nm, f2)" "read_u16 f2 = Some (dlen, f3)"
    by (auto simp: extract_record_def split: option.splits if_splits)
  define f4 where "f4 = fseek_cur env (uint dlen) f3"
  have l: "later f f4"
    using stream_later(1) [OF u(1)] fread_later [OF u(2)] stream_later(1) [OF u(3)] fseek_cur_later [of "uint dlen" f3 env]
    by (auto simp: later_def f4_def)
  consider fsize f5 where "read_i64 env (fseek_cur env 14 f4) = Some (fsize, f5)" "f' = skip_contents env (sint fsize) f5"
    | x f5 fsize t1 t2 where "read_other_fields env f4 = Some (x, f5)" "extract_object env ok ty (c_string nm) (of_mode x) fsize f5 t1 = (Some f', t2)"
    using assms u
    by (auto simp: extract_record_def f4_def [symmetric] Let_def split: option.splits if_splits prod.splits)
  then show ?thesis
  proof cases
    case 1
    then show ?thesis using l fseek_cur_later [of 14 f4 env] read_i64_later skip_contents_later later_trans by (metis zero_le_numeral)
  next
    case 2
    then show ?thesis using l read_other_fields_later extract_object_later later_trans by metis
  qed
qed

function extract_loop :: "tool \<Rightarrow> permission \<Rightarrow> bool \<Rightarrow> text_bytes list \<Rightarrow> stream \<Rightarrow> action list \<Rightarrow> nat \<times> action list" where
  "extract_loop env ok verbose wanted f t =
     (case fread 1 f of None \<Rightarrow> (0, t)
      | Some (b, f1) \<Rightarrow>
          (case extract_record env ok verbose wanted (b ! 0) f1 t of
             (None, t1) \<Rightarrow> (1, t1)
           | (Some f2, t1) \<Rightarrow> extract_loop env ok verbose wanted f2 t1))"
  by pat_completeness auto

termination extract_loop
  by (relation "measure (\<lambda>(e, p, v, w, f, t). length (stream_bytes f) - stream_pos f)")
    (auto dest!: sym [THEN extract_record_later] intro: fread_less [of 0, simplified])

declare extract_loop.simps [simp del]

definition extract_archive :: "tool \<Rightarrow> permission \<Rightarrow> bool \<Rightarrow> text_bytes list \<Rightarrow> stream \<Rightarrow> nat \<times> action list" where
  "extract_archive env ok verbose wanted f =
     (case magic_ok f of None \<Rightarrow> (1, [])
      | Some f1 \<Rightarrow> if malloc_works env (bufsiz env) then extract_loop env ok verbose wanted f1 [] else (1, []))"

section \<open>Creating (create.c)\<close>

text \<open>
  What \<open>nftw\<close> comes to on its walk, and whether the walk fails after that, is a parameter. When the archive is
  the standard output the names that are printed go into it.
\<close>

datatype walk_event = Visit visit | Unreadable text_bytes

record written_output =
  archive_bytes_of :: text_bytes
  printed_bytes :: text_bytes

definition say :: "bool \<Rightarrow> text_bytes \<Rightarrow> written_output \<Rightarrow> written_output" where
  "say shared line x =
     (if shared then x\<lparr>archive_bytes_of := archive_bytes_of x @ line\<rparr> else x\<lparr>printed_bytes := printed_bytes x @ line\<rparr>)"

text \<open>
  A file that cannot be added to the archive ends the walk; how much of it the archive has by then is
  not said, so the archive is not either.
\<close>

fun walk_visits :: "tool \<Rightarrow> bool \<Rightarrow> bool \<Rightarrow> walk_event list \<Rightarrow> written_output \<Rightarrow> written_output option" where
  "walk_visits env shared verbose [] x = Some x"
| "walk_visits env shared verbose (Unreadable name # es) x = walk_visits env shared verbose es x"
| "walk_visits env shared verbose (Visit v # es) x = do {
     let x1 = (if verbose then say shared (visit_name v @ [10]) x else x);
     a \<leftarrow> nftw_visit env v (archive_bytes_of x1);
     walk_visits env shared verbose es (x1\<lparr>archive_bytes_of := a\<rparr>)
   }"

type_synonym walk = "text_bytes \<Rightarrow> walk_event list \<times> bool"

fun create_append :: "tool \<Rightarrow> walk \<Rightarrow> bool \<Rightarrow> bool \<Rightarrow> text_bytes list \<Rightarrow> written_output \<Rightarrow> written_output option" where
  "create_append env nftw shared verbose [] x = Some x"
| "create_append env nftw shared verbose (path # paths) x = do {
     x1 \<leftarrow> walk_visits env shared verbose (fst (nftw path)) x;
     (if \<not> snd (nftw path) then None else create_append env nftw shared verbose paths x1)
   }"

definition create :: "tool \<Rightarrow> walk \<Rightarrow> bool \<Rightarrow> bool \<Rightarrow> text_bytes list \<Rightarrow> text_bytes \<Rightarrow> written_output option" where
  "create env nftw shared verbose paths archive =
     (if \<not> malloc_works env (bufsiz env) then None
      else create_append env nftw shared verbose paths \<lparr>archive_bytes_of = archive @ [94, 106, 97, 120], printed_bytes = []\<rparr>)"

text \<open>The archive that is appended to has to be readable and writable.\<close>

definition append_archive :: "tool \<Rightarrow> walk \<Rightarrow> bool \<Rightarrow> bool \<Rightarrow> text_bytes list \<Rightarrow> stream \<Rightarrow> written_output option" where
  "append_archive env nftw shared verbose paths f =
     (case magic_ok f of None \<Rightarrow> None
      | Some f1 \<Rightarrow>
          if \<not> malloc_works env (bufsiz env) then None
          else create_append env nftw shared verbose paths \<lparr>archive_bytes_of = stream_bytes f1, printed_bytes = []\<rparr>)"

section \<open>The command line (main.c)\<close>

datatype jax_mode = No_mode | Mode_create | Mode_append | Mode_list | Mode_extract

text \<open>What \<open>getopt\<close> returns one after the other; the argument of \<open>-f\<close> comes with it.\<close>

datatype option_given = Opt_f text_bytes | Opt_c | Opt_r | Opt_t | Opt_v | Opt_x | Opt_unknown

record settings =
  archive_file :: "text_bytes option"
  has_error :: bool
  is_verbose :: bool
  tool_mode :: jax_mode

definition choose_mode :: "jax_mode \<Rightarrow> settings \<Rightarrow> settings" where
  "choose_mode m x = (if tool_mode x = No_mode then x\<lparr>tool_mode := m\<rparr> else x\<lparr>has_error := True\<rparr>)"

fun take_option :: "option_given \<Rightarrow> settings \<Rightarrow> settings" where
  "take_option (Opt_f name) x = (if archive_file x = None then x\<lparr>archive_file := Some name\<rparr> else x\<lparr>has_error := True\<rparr>)"
| "take_option Opt_c x = choose_mode Mode_create x"
| "take_option Opt_r x = choose_mode Mode_append x"
| "take_option Opt_t x = choose_mode Mode_list x"
| "take_option Opt_x x = choose_mode Mode_extract x"
| "take_option Opt_v x = x\<lparr>is_verbose := True\<rparr>"
| "take_option Opt_unknown x = x\<lparr>has_error := True\<rparr>"

definition settings_of :: "option_given list \<Rightarrow> settings" where
  "settings_of opts =
     (let x = fold take_option opts \<lparr>archive_file = None, has_error = False, is_verbose = False, tool_mode = No_mode\<rparr>
      in if tool_mode x = No_mode then x\<lparr>has_error := True\<rparr> else x)"

text \<open>
  The outcome: the code returned, the actions, and the archive afterwards unless a failure left an
  unknown part of it. Opening a file for writing empties it, and what was opened for writing, or is
  the standard output, has nothing to be read.
\<close>

record outcome =
  exit_code :: nat
  actions :: "action list"
  archive_after :: "text_bytes option"

definition written :: "written_output option \<Rightarrow> outcome" where
  "written r =
     (case r of None \<Rightarrow> \<lparr>exit_code = 1, actions = [], archive_after = None\<rparr>
      | Some x \<Rightarrow> \<lparr>exit_code = 0, actions = [Print (printed_bytes x)], archive_after = Some (archive_bytes_of x)\<rparr>)"

definition jax_main ::
    "tool \<Rightarrow> permission \<Rightarrow> walk \<Rightarrow> (text_bytes \<rightharpoonup> text_bytes) \<Rightarrow> (text_bytes \<Rightarrow> bool) \<Rightarrow> text_bytes \<Rightarrow> option_given list \<Rightarrow> text_bytes list \<Rightarrow> outcome" where
  "jax_main env ok nftw files writable stdin_bytes opts paths =
     (let x = settings_of opts; shared = (archive_file x = None);
          input = (case archive_file x of None \<Rightarrow> Some stdin_bytes | Some name \<Rightarrow> files name);
          can_write = (case archive_file x of None \<Rightarrow> True | Some name \<Rightarrow> writable name);
          untouched = (\<lambda>code. \<lparr>exit_code = code, actions = [], archive_after = input\<rparr>) in
      if has_error x then untouched 1
      else case tool_mode x of
        Mode_create \<Rightarrow> if \<not> can_write then untouched 1 else written (create env nftw shared (is_verbose x) paths [])
      | Mode_append \<Rightarrow> if \<not> can_write then untouched 1
          else (case append_archive env nftw shared (is_verbose x) paths \<lparr>stream_bytes = [], stream_pos = 0\<rparr> of
                  None \<Rightarrow> \<lparr>exit_code = 1, actions = [], archive_after = Some []\<rparr>
                | Some y \<Rightarrow> written (Some y))
      | Mode_list \<Rightarrow>
          (case input of None \<Rightarrow> untouched 1
           | Some b \<Rightarrow>
               (case (if is_verbose x then list_verbose else list) env \<lparr>stream_bytes = b, stream_pos = 0\<rparr> of
                  (code, out) \<Rightarrow> \<lparr>exit_code = code, actions = [Print out], archive_after = input\<rparr>))
      | Mode_extract \<Rightarrow>
          (case input of None \<Rightarrow> untouched 1
           | Some b \<Rightarrow>
               (case extract_archive env ok (is_verbose x) paths \<lparr>stream_bytes = b, stream_pos = 0\<rparr> of
                  (code, t) \<Rightarrow> \<lparr>exit_code = code, actions = t, archive_after = input\<rparr>))
      | No_mode \<Rightarrow> untouched 0)"

end
