(* ===== verification/Jax_Tool_Properties.thy ===== *)
theory Jax_Tool_Properties
  imports Jax_Tool
begin

unbundle bit_operations_syntax

text \<open>
  Properties of the archive tool: listing prints the names of the records, extracting makes the
  files that were put into the archive, sizes from 2 GiB on are misread, and appending never works.
\<close>

section \<open>Streams between two parts\<close>

definition between :: "text_bytes \<Rightarrow> text_bytes \<Rightarrow> stream" where
  "between done rest = \<lparr>stream_bytes = done @ rest, stream_pos = length done\<rparr>"

lemma fread_between: "n = length xs \<Longrightarrow> xs \<noteq> [] \<Longrightarrow> fread n (between d (xs @ rest)) = Some (xs, between (d @ xs) rest)"
  by (simp add: fread_def between_def Let_def)

lemma fread_end: "length rest < n \<Longrightarrow> fread n (between d rest) = None"
  by (simp add: fread_def between_def Let_def)

lemma fseek_between:
  "n = int (length xs) \<Longrightarrow> int (length d + length xs) \<le> long_max env \<Longrightarrow> fseek_cur env n (between d (xs @ rest)) = between (d @ xs) rest"
  by (simp add: fseek_cur_def between_def Let_def nat_add_distrib)

lemma skip_contents_once:
  assumes "0 \<le> n" and "n \<le> long_max env" and "0 < long_max env"
  shows "skip_contents env n f = fseek_cur env n f"
proof -
  have z: "skip_contents env m g = g" if "m \<le> 0" "fseek_cur env 0 g = g" for m g
  proof (cases "m < 0")
    case False
    then have "m = 0" using that by simp
    then show ?thesis using assms(3) that
      by (subst skip_contents.simps, simp) (subst skip_contents.simps, simp)
  qed (subst skip_contents.simps, simp)
  have "skip_contents env n f = skip_contents env (n - long_max env) (fseek_cur env n f)"
    using assms by (subst skip_contents.simps) auto
  also have "\<dots> = fseek_cur env n f"
    using assms by (cases "fseek_cur env 0 (fseek_cur env n f) = fseek_cur env n f")
      (auto simp: fseek_cur_def Let_def split: if_splits intro!: z)
  finally show ?thesis .
qed

lemma skip_between:
  assumes "n = int (length xs)" and "int (length d + length xs) \<le> long_max env" and "0 < long_max env"
  shows "skip_contents env n (between d (xs @ rest)) = between (d @ xs) rest"
  using assms by (subst skip_contents_once) (auto simp: fseek_between)

section \<open>Numbers\<close>

lemma bytes_u16_le: "bytes_u16 (u16_to_le w @ xs) = w"
proof -
  have "holds (memory_with 0 (u16_to_le w)) 0 (u16_to_le w)" by (rule holds_memory_with) simp
  from u16_round_trip [OF this] show ?thesis
    by (simp add: u16_to_ne_def bytes_u16_def memory_with_def u16_to_le_def)
qed

lemma number_bytes_not_empty [simp]: "u16_to_le w \<noteq> []" "i64_to_le x \<noteq> []"
  by (simp_all add: u16_to_le_def i64_to_le_def)

lemma read_u16_between: "read_u16 (between d (u16_to_le w @ rest)) = Some (w, between (d @ u16_to_le w) rest)"
  using bytes_u16_le [of w "[]"] by (simp add: read_u16_def fread_between bytes_u16_def)

text \<open>
  Shifting an \<open>int\<close>. The language says that the result is the product as long as the distance is less than the
  width and the product fits. The code also shifts by 32 to 56 places, which the language leaves undefined
  whatever is shifted; what is assumed of the machine is that 0 stays 0 then. Nothing is assumed of other bytes
  shifted so far, so only numbers below \<open>2 ^ 31\<close> are known to be read as they are.
\<close>

definition shifts_in_range :: "tool \<Rightarrow> bool" where
  "shifts_in_range env \<longleftrightarrow> (\<forall>b n. n < 32 \<and> unat b * 2 ^ n < 2 ^ 31 \<longrightarrow> shift_int env b n = push_bit n (ucast b))"

definition zero_stays_zero :: "tool \<Rightarrow> bool" where
  "zero_stays_zero env \<longleftrightarrow> (\<forall>n \<ge> 32. shift_int env 0 n = 0)"

definition shifts_as_int :: "tool \<Rightarrow> bool" where
  "shifts_as_int env \<longleftrightarrow> shifts_in_range env \<and> zero_stays_zero env"

lemma shifts_as_intD:
  assumes "shifts_as_int env" and "b = 0 \<or> (n < 32 \<and> unat b * 2 ^ n < 2 ^ 31)"
  shows "shift_int env b n = push_bit n (ucast b)"
proof (cases "n < 32")
  case True
  then show ?thesis using assms by (auto simp: shifts_as_int_def shifts_in_range_def)
next
  case False
  then show ?thesis using assms by (auto simp: shifts_as_int_def zero_stays_zero_def)
qed

lemma nth_i64_to_le: "i < 8 \<Longrightarrow> i64_to_le w ! i = ucast (drop_bit (i * 8) w AND 0xff)"
  by (simp add: i64_to_le_def)

lemma unat_lt_2_64: "unat (w :: 64 word) < 2 ^ 64"
  using unsigned_less [of w] by simp

lemma unat_i64_byte: "i < 8 \<Longrightarrow> unat (i64_to_le w ! i) = unat w div 2 ^ (i * 8) mod 2 ^ 8"
proof -
  assume i: "i < 8"
  have "i64_to_le w ! i = ucast (take_bit 8 (drop_bit (i * 8) w))"
    using i by (simp add: nth_i64_to_le take_bit_eq_mask mask_eq_exp_minus_1)
  then have "unat (i64_to_le w ! i) = take_bit 8 (drop_bit (i * 8) (unat w))"
    using unat_lt_2_64 [of w, THEN take_bit_nat_eq_self]
    by (simp add: unsigned_ucast_eq unsigned_take_bit_eq unsigned_drop_bit_eq take_bit_take_bit)
  then show ?thesis by (simp add: take_bit_eq_mod drop_bit_eq_div)
qed

lemma bytes_i64_le:
  assumes "shifts_as_int env" and "unat w < 2 ^ 31"
  shows "bytes_i64 env (i64_to_le w @ xs) = w"
proof -
  let ?b = "i64_to_le w"
  have s: "shift_int env (?b ! i) (i * 8) = push_bit (i * 8) (ucast (?b ! i))" if i: "i < 8" for i
  proof -
    have u: "unat (?b ! i) * 2 ^ (i * 8) \<le> unat w"
      unfolding unat_i64_byte [OF i] by (meson div_times_less_eq_dividend le_trans mod_less_eq_dividend mult_le_mono1)
    have "?b ! i = 0 \<or> i * 8 < 32"
    proof (cases "i < 4")
      case False
      then have "2 ^ 32 \<le> (2 :: nat) ^ (i * 8)" by (intro power_increasing) auto
      then have "unat w < 2 ^ (i * 8)" using assms(2) by simp
      then have "unat (?b ! i) = 0" unfolding unat_i64_byte [OF i] by simp
      then show ?thesis by (simp add: unat_eq_0)
    qed simp
    moreover have "unat (?b ! i) * 2 ^ (i * 8) < 2 ^ 31" using u assms(2) by (rule le_less_trans)
    ultimately have "?b ! i = 0 \<or> (i * 8 < 32 \<and> unat (?b ! i) * 2 ^ (i * 8) < 2 ^ 31)" by blast
    with assms(1) show ?thesis by (rule shifts_as_intD)
  qed
  have "holds (memory_with 0 ?b) 0 ?b" by (rule holds_memory_with) simp
  then have "foldl (\<lambda>r i. r OR push_bit (i * 8) (ucast (memory_with 0 ?b (of_nat i)))) 0 [0..<8] = w"
    using i64_round_trip [of "memory_with 0 ?b" 0 w] by (simp add: i64_to_ne_def)
  moreover have "foldl (\<lambda>r i. r OR shift_int env ((?b @ xs) ! i) (i * 8)) 0 [0..<8] =
      foldl (\<lambda>r i. r OR push_bit (i * 8) (ucast (memory_with 0 ?b (of_nat i)))) 0 [0..<8]"
    by (rule foldl_cong) (auto simp: s nth_append memory_with_def unat_of_nat_32)
  ultimately show ?thesis by (simp add: bytes_i64_def)
qed


lemma read_i64_between:
  assumes "shifts_as_int env" and "unat w < 2 ^ 31"
  shows "read_i64 env (between d (i64_to_le w @ rest)) = Some (w, between (d @ i64_to_le w) rest)"
  using bytes_i64_le [OF assms, of "[]"] by (simp add: read_i64_def fread_between)

section \<open>Walking through a record\<close>

text \<open>The fields of a record between its description and its contents.\<close>

definition fixed_fields :: "jax_record \<Rightarrow> text_bytes" where
  "fixed_fields r = i64_to_le (rec_time r) @ u16_to_le (rec_mode r) @ u16_to_le (rec_owner r) @ u16_to_le (rec_group r)"

lemma length_fixed_fields [simp]: "length (fixed_fields r) = 14"
  by (simp add: fixed_fields_def)

lemma record_bytes_parts:
  "record_bytes r = [rec_type r] @ u16_to_le (of_nat (length (rec_name r))) @ rec_name r
     @ u16_to_le (of_nat (length (rec_description r))) @ (rec_description r @ fixed_fields r)
     @ i64_to_le (of_nat (length (rec_data r))) @ rec_data r"
  by (simp add: record_bytes_def fixed_fields_def)

lemma unat_of_nat_16: "n < 2 ^ 16 \<Longrightarrow> unat (of_nat n :: uint16_t) = n"
  by (simp add: unat_of_nat)

lemma size_word:
  assumes "n < 2 ^ 31"
  shows "unat (of_nat n :: 64 word) < 2 ^ 31" and "sint (of_nat n :: 64 word) = int n"
  using assms by (simp_all add: unat_of_nat signed_of_nat signed_take_bit_int_eq_self)

definition line_of :: "jax_record \<Rightarrow> text_bytes" where
  "line_of r = rec_name r @ (if rec_type r = TYPE_DIRECTORY then [47] else []) @ [10]"

lemma stream_pos_between [simp]: "stream_pos (between d rest) = length d" "stream_bytes (between d rest) = d @ rest"
  by (simp_all add: between_def)

lemma move_between: "n = length xs \<Longrightarrow> (between d (xs @ rest))\<lparr>stream_pos := length d + n\<rparr> = between (d @ xs) rest"
  by (simp add: between_def)

definition MAGIC :: text_bytes where "MAGIC = [94, 106, 97, 120]"

text \<open>Archives the tool can read back: numbers that fit into an \<open>int\<close>, positions that fit into a \<open>long\<close>.\<close>

definition readable_record :: "jax_record \<Rightarrow> bool" where
  "readable_record r \<longleftrightarrow> record_wf r \<and> length (rec_data r) < 2 ^ 31 \<and> unat (rec_time r) < 2 ^ 31"

definition readable :: "tool \<Rightarrow> nat \<Rightarrow> jax_record list \<Rightarrow> bool" where
  "readable env n rs \<longleftrightarrow> list_all readable_record rs \<and> int (n + length (archive_bytes rs)) \<le> long_max env"

lemma readable_Cons:
  "readable env n (r # rs) \<longleftrightarrow> readable_record r \<and> int (n + length (record_bytes r)) \<le> long_max env \<and> readable env (n + length (record_bytes r)) rs"
  by (auto simp: readable_def)

lemma record_bytes_Cons: "record_bytes r = rec_type r # tl (record_bytes r)"
  by (simp add: record_bytes_def)

lemma fread_type: "fread (Suc 0) (between d (record_bytes r @ rest)) = Some ([rec_type r], between (d @ [rec_type r]) (tl (record_bytes r) @ rest))"
  using fread_between [of "Suc 0" "[rec_type r]" d "tl (record_bytes r) @ rest"]
  by (subst record_bytes_Cons) simp

lemma magic_between: "magic_ok \<lparr>stream_bytes = MAGIC @ rest, stream_pos = 0\<rparr> = Some (between MAGIC rest)"
  by (simp add: magic_ok_def fread_def MAGIC_def between_def)

text \<open>What the fields of a record are read as.\<close>

definition fields_of :: "jax_record \<Rightarrow> other_fields" where
  "fields_of r = \<lparr>of_timestamp = rec_time r, of_mode = rec_mode r, of_owner = rec_owner r, of_group = rec_group r,
     of_size = of_nat (length (rec_data r))\<rparr>"

lemma read_other_fields_between:
  assumes "shifts_as_int env" and "unat (rec_time r) < 2 ^ 31" and "length (rec_data r) < 2 ^ 31"
  shows "read_other_fields env (between d ((fixed_fields r @ i64_to_le (of_nat (length (rec_data r)))) @ rest)) =
    Some (fields_of r, between (d @ fixed_fields r @ i64_to_le (of_nat (length (rec_data r)))) rest)"
proof -
  let ?x = "fixed_fields r @ i64_to_le (of_nat (length (rec_data r)))"
  have "fread 22 (between d (?x @ rest)) = Some (?x, between (d @ ?x) rest)"
    by (rule fread_between) (simp_all add: fixed_fields_def)
  moreover have "drop 8 (fixed_fields r) = u16_to_le (rec_mode r) @ u16_to_le (rec_owner r) @ u16_to_le (rec_group r)"
    "drop 10 (fixed_fields r) = u16_to_le (rec_owner r) @ u16_to_le (rec_group r)"
    "drop 12 (fixed_fields r) = u16_to_le (rec_group r)" "take 8 (fixed_fields r) = i64_to_le (rec_time r)"
    by (simp_all add: fixed_fields_def drop_append)
  ultimately show ?thesis
    using bytes_i64_le [OF assms(1,2), of "[]"] bytes_i64_le [OF assms(1) size_word(1) [OF assms(3)], of "[]"]
    by (simp add: read_other_fields_def fields_of_def bytes_u16_le)
qed

text \<open>The places in a record the tool comes to, one after the other.\<close>

definition at_name :: "text_bytes \<Rightarrow> jax_record \<Rightarrow> text_bytes \<Rightarrow> stream" where
  "at_name d r rest = between (d @ [rec_type r] @ u16_to_le (of_nat (length (rec_name r))))
     (rec_name r @ u16_to_le (of_nat (length (rec_description r))) @ rec_description r @ fixed_fields r
        @ i64_to_le (of_nat (length (rec_data r))) @ rec_data r @ rest)"

definition behind_name :: "text_bytes \<Rightarrow> jax_record \<Rightarrow> text_bytes \<Rightarrow> stream" where
  "behind_name d r rest = between (d @ [rec_type r] @ u16_to_le (of_nat (length (rec_name r))) @ rec_name r)
     (u16_to_le (of_nat (length (rec_description r))) @ rec_description r @ fixed_fields r
        @ i64_to_le (of_nat (length (rec_data r))) @ rec_data r @ rest)"

definition at_description :: "text_bytes \<Rightarrow> jax_record \<Rightarrow> text_bytes \<Rightarrow> stream" where
  "at_description d r rest = between (d @ [rec_type r] @ u16_to_le (of_nat (length (rec_name r))) @ rec_name r
        @ u16_to_le (of_nat (length (rec_description r))))
     (rec_description r @ fixed_fields r @ i64_to_le (of_nat (length (rec_data r))) @ rec_data r @ rest)"

definition at_fields :: "text_bytes \<Rightarrow> jax_record \<Rightarrow> text_bytes \<Rightarrow> stream" where
  "at_fields d r rest = between (d @ [rec_type r] @ u16_to_le (of_nat (length (rec_name r))) @ rec_name r
        @ u16_to_le (of_nat (length (rec_description r))) @ rec_description r)
     (fixed_fields r @ i64_to_le (of_nat (length (rec_data r))) @ rec_data r @ rest)"

definition at_size :: "text_bytes \<Rightarrow> jax_record \<Rightarrow> text_bytes \<Rightarrow> stream" where
  "at_size d r rest = between (d @ [rec_type r] @ u16_to_le (of_nat (length (rec_name r))) @ rec_name r
        @ u16_to_le (of_nat (length (rec_description r))) @ rec_description r @ fixed_fields r)
     (i64_to_le (of_nat (length (rec_data r))) @ rec_data r @ rest)"

definition at_data :: "text_bytes \<Rightarrow> jax_record \<Rightarrow> text_bytes \<Rightarrow> stream" where
  "at_data d r rest = between (d @ [rec_type r] @ u16_to_le (of_nat (length (rec_name r))) @ rec_name r
        @ u16_to_le (of_nat (length (rec_description r))) @ rec_description r @ fixed_fields r
        @ i64_to_le (of_nat (length (rec_data r))))
     (rec_data r @ rest)"

lemmas place_defs = at_name_def behind_name_def at_description_def at_fields_def at_size_def at_data_def

lemma walk_lengths [simp]:
  "read_u16 (between (d @ [rec_type r]) (tl (record_bytes r) @ rest)) = Some (of_nat (length (rec_name r)), at_name d r rest)"
  "read_u16 (behind_name d r rest) = Some (of_nat (length (rec_description r)), at_description d r rest)"
  using read_u16_between [of "d @ [rec_type r]"] read_u16_between [of "d @ [rec_type r] @ u16_to_le (of_nat (length (rec_name r))) @ rec_name r"]
  by (simp_all add: place_defs record_bytes_parts)

lemma walk_room [simp]: "length (rec_name r) \<le> length (stream_bytes (at_name d r rest)) - stream_pos (at_name d r rest)"
  by (simp add: at_name_def)

lemma walk_name [simp]:
  "take (length (rec_name r)) (drop (stream_pos (at_name d r rest)) (stream_bytes (at_name d r rest))) = rec_name r"
  "(at_name d r rest)\<lparr>stream_pos := stream_pos (at_name d r rest) + length (rec_name r)\<rparr> = behind_name d r rest"
  "rec_name r \<noteq> [] \<Longrightarrow> fread (length (rec_name r)) (at_name d r rest) = Some (rec_name r, behind_name d r rest)"
  by (simp_all add: place_defs) (simp_all add: between_def fread_def)

definition in_archive :: "tool \<Rightarrow> text_bytes \<Rightarrow> jax_record \<Rightarrow> bool" where
  "in_archive env d r \<longleftrightarrow> shifts_as_int env \<and> readable_record r \<and> int (length d + length (record_bytes r)) \<le> long_max env"

lemma in_archiveD:
  assumes "in_archive env d r"
  shows "unat (of_nat (length (rec_name r)) :: uint16_t) = length (rec_name r)"
    "uint (of_nat (length (rec_name r)) :: uint16_t) = int (length (rec_name r))"
    "uint (of_nat (length (rec_description r)) :: uint16_t) = int (length (rec_description r))"
    "sint (of_nat (length (rec_data r)) :: 64 word) = int (length (rec_data r))"
  using assms
  by (simp_all add: in_archive_def readable_record_def record_wf_def unat_of_nat_16 uint_nat size_word(2))

lemma walk_seek:
  assumes "in_archive env d r"
  shows "fseek_cur env (int (length (rec_name r))) (at_name d r rest) = behind_name d r rest"
    "fseek_cur env (int (length (rec_description r)) + 14) (at_description d r rest) = at_size d r rest"
    "fseek_cur env (int (length (rec_description r))) (at_description d r rest) = at_fields d r rest"
    "fseek_cur env 14 (at_fields d r rest) = at_size d r rest"
    "skip_contents env (int (length (rec_data r))) (at_data d r rest) = between (d @ record_bytes r) rest"
proof -
  have b: "int (length d + length (record_bytes r)) \<le> long_max env" using assms by (simp add: in_archive_def)
  show "fseek_cur env (int (length (rec_name r))) (at_name d r rest) = behind_name d r rest"
    "fseek_cur env (int (length (rec_description r)) + 14) (at_description d r rest) = at_size d r rest"
    "fseek_cur env (int (length (rec_description r))) (at_description d r rest) = at_fields d r rest"
    "fseek_cur env 14 (at_fields d r rest) = at_size d r rest"
    using b by (simp_all add: place_defs between_def fseek_cur_def Let_def length_record_bytes nat_add_distrib)
  have "skip_contents env (int (length (rec_data r))) (at_data d r rest) = fseek_cur env (int (length (rec_data r))) (at_data d r rest)"
    using b by (intro skip_contents_once) (simp_all add: length_record_bytes)
  then show "skip_contents env (int (length (rec_data r))) (at_data d r rest) = between (d @ record_bytes r) rest"
    using b by (simp add: place_defs between_def fseek_cur_def Let_def length_record_bytes nat_add_distrib record_bytes_parts)
qed

lemma walk_fields:
  assumes "in_archive env d r"
  shows "read_i64 env (at_size d r rest) = Some (of_nat (length (rec_data r)), at_data d r rest)"
    and "read_other_fields env (at_fields d r rest) = Some (fields_of r, at_data d r rest)"
proof -
  have a: "shifts_as_int env" "unat (rec_time r) < 2 ^ 31" "length (rec_data r) < 2 ^ 31"
    using assms by (simp_all add: in_archive_def readable_record_def)
  show "read_i64 env (at_size d r rest) = Some (of_nat (length (rec_data r)), at_data d r rest)"
    unfolding at_size_def by (subst read_i64_between [OF a(1) size_word(1) [OF a(3)]]) (simp add: at_data_def)
  show "read_other_fields env (at_fields d r rest) = Some (fields_of r, at_data d r rest)"
    using read_other_fields_between [OF a] by (simp add: place_defs)
qed

lemmas record_walk = walk_seek walk_fields in_archiveD

section \<open>Listing prints the names\<close>

lemma list_record_between:
  assumes "in_archive env d r"
  shows "list_record env (rec_type r) (between (d @ [rec_type r]) (tl (record_bytes r) @ rest)) =
      (line_of r, Some (between (d @ record_bytes r) rest))"
    and "list_verbose_record env (rec_type r) (between (d @ [rec_type r]) (tl (record_bytes r) @ rest)) =
      (details env (rec_type r) (fields_of r) @ line_of r, Some (between (d @ record_bytes r) rest))"
  unfolding list_record_def list_verbose_record_def
  by (simp_all add: Let_def line_of_def min_absorb2 record_walk [OF assms]) (simp add: fields_of_def record_walk [OF assms])

lemma list_loop_records:
  assumes "shifts_as_int env" and "readable env (length d) rs"
  shows "list_loop env (between d (archive_bytes rs)) out = (0, out @ concat (map line_of rs))"
  using assms(2)
proof (induction rs arbitrary: d out)
  case Nil
  then show ?case by (subst list_loop.simps) (simp add: fread_end)
next
  case (Cons r rs)
  then have "list_record env (rec_type r) (between (d @ [rec_type r]) (tl (record_bytes r) @ archive_bytes rs)) =
      (line_of r, Some (between (d @ record_bytes r) (archive_bytes rs)))"
    using assms(1) by (intro list_record_between) (simp add: readable_Cons in_archive_def)
  moreover have "readable env (length (d @ record_bytes r)) rs" using Cons.prems by (simp add: readable_Cons)
  ultimately show ?case using Cons.IH by (subst list_loop.simps) (simp add: fread_type)
qed

lemma list_verbose_loop_records:
  assumes "shifts_as_int env" and "readable env (length d) rs"
  shows "list_verbose_loop env (between d (archive_bytes rs)) out =
    (0, out @ concat (map (\<lambda>r. details env (rec_type r) (fields_of r) @ line_of r) rs))"
  using assms(2)
proof (induction rs arbitrary: d out)
  case Nil
  then show ?case by (subst list_verbose_loop.simps) (simp add: fread_end)
next
  case (Cons r rs)
  then have "list_verbose_record env (rec_type r) (between (d @ [rec_type r]) (tl (record_bytes r) @ archive_bytes rs)) =
      (details env (rec_type r) (fields_of r) @ line_of r, Some (between (d @ record_bytes r) (archive_bytes rs)))"
    using assms(1) by (intro list_record_between) (simp add: readable_Cons in_archive_def)
  moreover have "readable env (length (d @ record_bytes r)) rs" using Cons.prems by (simp add: readable_Cons)
  ultimately show ?case using Cons.IH by (subst list_verbose_loop.simps) (simp add: fread_type)
qed

text \<open>
  A line with details as it should look: the letter of the type, the nine permissions from the mode's highest
  bit to its lowest, the owner and the group, the size so that it ends in the nineteenth column behind the
  permissions, or after one space when there is no room, and the date. A size of more than eight digits is taken
  for one of eight, and moves to the right by what it has more.
\<close>

definition type_letter :: "uint8_t \<Rightarrow> char" where
  "type_letter t = (if t = TYPE_DIRECTORY then CHR ''d'' else if t = TYPE_LINK then CHR ''l'' else CHR ''-'')"

definition permission_letters :: "uint16_t \<Rightarrow> string" where
  "permission_letters mode = map (\<lambda>i. if bit mode (8 - i) then ''rwxrwxrwx'' ! i else CHR ''-'') [0..<9]"

definition detailed :: "tool \<Rightarrow> jax_record \<Rightarrow> text_bytes" where
  "detailed env r =
     (let who = digits (unat (rec_owner r)) @ map of_char ''/'' @ digits (unat (rec_group r));
          size = digits (length (rec_data r))
      in map of_char (type_letter (rec_type r) # permission_letters (rec_mode r) @ '' '') @ who
         @ replicate (max 1 (19 - length who - min 8 (length size))) (of_char (CHR '' '')) @ size
         @ map of_char '' '' @ date_string env (rec_time r) @ map of_char '' '')"

lemma length_digits: "length (digits n) \<le> Suc k \<longleftrightarrow> n < 10 ^ Suc k"
proof (induction n arbitrary: k rule: digits.induct)
  case (1 n)
  show ?case
  proof (cases "n < 10")
    case True
    moreover have "(10 :: nat) \<le> 10 ^ Suc k" by simp
    ultimately show ?thesis by (subst digits.simps) (simp add: less_le_trans)
  next
    case False
    have "digits (n div 10) \<noteq> []" by (subst digits.simps) simp
    then show ?thesis
      using 1 False by (cases k; subst digits.simps) (auto simp: less_mult_imp_div_less div_less_iff_less_mult mult.commute)
  qed
qed

lemma num_digits_is_length: "num_digits (int n) = int (min 8 (length (digits n)))"
proof -
  define l where "l = length (digits n)"
  have "digits n \<noteq> []" by (subst digits.simps) simp
  then have "0 < l" by (simp add: l_def)
  moreover have "l \<le> k \<longleftrightarrow> n < 10 ^ k" if "0 < k" for k using that length_digits [of n "k - 1"] by (simp add: l_def)
  from this [of 1] this [of 2] this [of 3] this [of 4] this [of 5] this [of 6] this [of 7]
  have "l \<le> 1 \<longleftrightarrow> n < 10" "l \<le> 2 \<longleftrightarrow> n < 100" "l \<le> 3 \<longleftrightarrow> n < 1000" "l \<le> 4 \<longleftrightarrow> n < 10000" "l \<le> 5 \<longleftrightarrow> n < 100000"
    "l \<le> 6 \<longleftrightarrow> n < 1000000" "l \<le> 7 \<longleftrightarrow> n < 10000000" by simp_all
  ultimately have "num_digits (int n) = int (min 8 l)" by (auto simp: num_digits_def Let_def min_def)
  then show ?thesis by (simp add: l_def)
qed

lemma mode_string_letters:
  assumes "t \<in> {TYPE_REGULAR, TYPE_DIRECTORY, TYPE_LINK}"
  shows "mode_string t mode = map of_char (type_letter t # permission_letters mode)"
proof -
  have "[0..<9] = [0, 1, 2, 3, 4, 5, 6, 7, 8 :: nat]" by (simp add: upt_rec)
  then show ?thesis
    using assms by (auto simp: mode_string_def permission_letters_def type_letter_def Let_def
        TYPE_REGULAR_def TYPE_DIRECTORY_def TYPE_LINK_def numeral_2_eq_2)
qed

lemma details_of_record:
  assumes "readable_record r" and "rec_type r \<in> {TYPE_REGULAR, TYPE_DIRECTORY, TYPE_LINK}"
  shows "details env (rec_type r) (fields_of r) = detailed env r"
proof -
  let ?n = "length (rec_data r)" and ?o = "unat (rec_owner r)" and ?g = "unat (rec_group r)"
  have n: "?n < 2 ^ 31" using assms(1) by (simp add: readable_record_def)
  then have s: "sint (ucast (of_nat ?n :: 64 word) :: 32 word) = int ?n"
    by (simp add: unsigned_of_nat signed_of_nat take_bit_nat_eq_self signed_take_bit_int_eq_self)
  have short: "length (digits (unat x)) \<le> 5" for x :: uint16_t
    using length_digits [of "unat x" 4] unsigned_less [of x, where 'a = nat] by simp
  have "17 - num_digits (int ?o) - num_digits (int ?g) - num_digits (int ?n) =
      17 - int (length (digits ?o)) - int (length (digits ?g)) - int (min 8 (length (digits ?n)))"
    unfolding num_digits_is_length using short [of "rec_owner r"] short [of "rec_group r"] by simp
  moreover have "max 1 (19 - (i + Suc j) - k) = Suc (nat (17 - int i - int j - int k))" for i j k by arith
  ultimately have "replicate (max 1 (19 - (length (digits ?o) + Suc (length (digits ?g))) - min 8 (length (digits ?n)))) x =
      x # replicate (nat (17 - num_digits (int ?o) - num_digits (int ?g) - num_digits (int ?n))) x" for x :: uint8_t
    by (simp only: replicate_Suc)
  then show ?thesis
    using assms(2) size_word(2) [OF n] s
    by (simp add: details_def detailed_def Let_def fields_of_def mode_string_letters decimal_def)
qed

text \<open>
  C21: listing an archive whose records have names and descriptions of less than \<open>2 ^ 16\<close> characters and sizes and
  times below \<open>2 ^ 31\<close>, and which is not longer than \<open>LONG_MAX\<close>, on a machine that shifts as in
  \<open>shifts_as_int\<close>, of which \<open>zero_stays_zero\<close> is more than the language says: the tool prints, in the order of the
  archive, the name of every record on a line of its own, with a slash behind the names of directories;
  with details, when the records are files, directories and links, each line has in front of the name the letter of
  the type, the nine permissions, owner and group, the size in its column, and the date as \<open>strftime\<close> left it.
  The tool returns 0, and nothing of the contents is printed.
\<close>

theorem list_prints_names:
  assumes "shifts_as_int env" and "readable env 4 rs"
  shows "list env \<lparr>stream_bytes = MAGIC @ archive_bytes rs, stream_pos = 0\<rparr> = (0, concat (map line_of rs))
    \<and> (list_all (\<lambda>r. rec_type r \<in> {TYPE_REGULAR, TYPE_DIRECTORY, TYPE_LINK}) rs
       \<longrightarrow> list_verbose env \<lparr>stream_bytes = MAGIC @ archive_bytes rs, stream_pos = 0\<rparr> =
             (0, concat (map (\<lambda>r. detailed env r @ line_of r) rs)))"
proof -
  let ?f = "\<lparr>stream_bytes = MAGIC @ archive_bytes rs, stream_pos = 0\<rparr>"
  have "readable env (length MAGIC) rs" using assms(2) by (simp add: MAGIC_def eval_nat_numeral)
  then have "list env ?f = (0, concat (map line_of rs))"
      "list_verbose env ?f = (0, concat (map (\<lambda>r. details env (rec_type r) (fields_of r) @ line_of r) rs))"
    using list_loop_records [OF assms(1)] list_verbose_loop_records [OF assms(1)]
    by (simp_all add: list_def list_verbose_def magic_between)
  moreover have "map (\<lambda>r. details env (rec_type r) (fields_of r) @ line_of r) rs = map (\<lambda>r. detailed env r @ line_of r) rs"
    if "list_all (\<lambda>r. rec_type r \<in> {TYPE_REGULAR, TYPE_DIRECTORY, TYPE_LINK}) rs"
    using that assms(2) by (simp add: list_all_iff readable_def details_of_record)
  ultimately show ?thesis by metis
qed

section \<open>Extracting makes what was put into the archive\<close>

fun chunks :: "nat \<Rightarrow> text_bytes \<Rightarrow> text_bytes list" where
  "chunks n xs = (if n = 0 \<or> xs = [] then [] else take n xs # chunks n (drop n xs))"

declare chunks.simps [simp del]

lemma concat_chunks: "0 < n \<Longrightarrow> concat (chunks n xs) = xs"
proof (induction n xs rule: chunks.induct)
  case (1 n xs)
  then show ?case by (subst chunks.simps) auto
qed

definition all_allowed :: permission where "all_allowed t a = True"

lemma extract_contents_between:
  assumes "\<not> bufsiz env dvd length xs" and "0 < bufsiz env"
  shows "extract_contents env all_allowed (int (length xs)) (between d (xs @ rest)) t =
    ((between (d @ xs) rest, True), t @ map Write_file (chunks (bufsiz env) xs))"
  using assms
proof (induction "bufsiz env" xs arbitrary: d t rule: chunks.induct)
  case (1 xs)
  let ?b = "bufsiz env"
  have ne: "xs \<noteq> []" using "1.prems"(1) by auto
  show ?case
  proof (cases "length xs > ?b")
    case True
    have "fread ?b (between d (take ?b xs @ drop ?b xs @ rest)) = Some (take ?b xs, between (d @ take ?b xs) (drop ?b xs @ rest))"
      using True "1.prems"(2) by (intro fread_between) auto
    moreover have "\<not> ?b dvd length (drop ?b xs)" using "1.prems"(1) True by (simp add: dvd_minus_self)
    note "1.hyps" [OF _ this "1.prems"(2), of "d @ take ?b xs" "t @ [Write_file (take ?b xs)]"]
    ultimately show ?thesis using True ne "1.prems"(2)
      by (subst extract_contents.simps, subst chunks.simps)
         (simp add: Let_def all_allowed_def of_nat_diff flip: append_assoc [of "take ?b xs"])
  next
    case False
    then have lt: "length xs < ?b" using "1.prems"(1) by (metis dvd_refl linorder_neqE_nat)
    have "fread (length xs) (between d (xs @ rest)) = Some (xs, between (d @ xs) rest)"
      using ne by (intro fread_between) auto
    moreover have "extract_contents env all_allowed (int (length xs) - int ?b) f t' = ((f, True), t')" for f t'
      using lt by (subst extract_contents.simps) simp
    moreover have "chunks ?b xs = [xs]"
      using ne lt by (subst chunks.simps) (simp add: chunks.simps [of _ "[]"])
    ultimately show ?thesis using lt ne "1.prems"(2)
      by (subst extract_contents.simps) (simp add: Let_def all_allowed_def)
  qed
qed

text \<open>What extracting a record asks for.\<close>

definition object_actions :: "tool \<Rightarrow> jax_record \<Rightarrow> action list" where
  "object_actions env r =
     (if rec_type r = TYPE_REGULAR then Open_file (rec_name r) # map Write_file (chunks (bufsiz env) (rec_data r)) @ [Close_file]
      else if rec_type r = TYPE_LINK then [Make_link (rec_data r) (rec_name r)]
      else [Make_directory (rec_name r) (rec_mode r)])"

definition attribute_actions :: "jax_record \<Rightarrow> action list" where
  "attribute_actions r = Set_times (rec_name r) (rec_time r)
     # (if rec_type r = TYPE_DIRECTORY then [] else [Set_mode (rec_name r) (rec_mode r)])
     @ [Set_owner (rec_name r) (rec_owner r) (rec_group r)]"

definition record_actions :: "tool \<Rightarrow> bool \<Rightarrow> jax_record \<Rightarrow> action list" where
  "record_actions env verbose r = (if verbose then [Print (rec_name r @ [10])] else []) @ object_actions env r @ attribute_actions r"

definition extractable :: "tool \<Rightarrow> jax_record \<Rightarrow> bool" where
  "extractable env r \<longleftrightarrow> rec_name r \<noteq> [] \<and> 0 \<notin> set (rec_name r)
     \<and> (if rec_type r = TYPE_REGULAR then \<not> bufsiz env dvd length (rec_data r)
        else if rec_type r = TYPE_LINK then rec_data r \<noteq> [] \<and> 0 \<notin> set (rec_data r) else rec_type r = TYPE_DIRECTORY)"

definition works :: "tool \<Rightarrow> bool" where
  "works env \<longleftrightarrow> 0 < bufsiz env \<and> (\<forall>n. malloc_works env n) \<and> shifts_as_int env"

lemma c_string_id: "0 \<notin> set s \<Longrightarrow> c_string s = s"
  unfolding c_string_def by (rule takeWhile_eq_all_conv [THEN iffD2]) metis

lemma file_types [simp]: "TYPE_REGULAR \<noteq> TYPE_LINK" "TYPE_REGULAR \<noteq> TYPE_DIRECTORY" "TYPE_LINK \<noteq> TYPE_DIRECTORY"
  "TYPE_LINK \<noteq> TYPE_REGULAR" "TYPE_DIRECTORY \<noteq> TYPE_REGULAR" "TYPE_DIRECTORY \<noteq> TYPE_LINK"
  by (simp_all add: TYPE_REGULAR_def TYPE_LINK_def TYPE_DIRECTORY_def)

lemma extract_object_between:
  assumes "in_archive env d r" and "extractable env r" and "works env"
  shows "extract_object env all_allowed (rec_type r) (rec_name r) (rec_mode r) (int (length (rec_data r))) (at_data d r rest) t =
    (Some (between (d @ record_bytes r) rest), t @ object_actions env r)"
proof -
  obtain p where p: "at_data d r rest = between p (rec_data r @ rest)" "p @ rec_data r = d @ record_bytes r"
    by (rule that [OF at_data_def]) (simp add: record_bytes_parts)
  consider "rec_type r = TYPE_REGULAR" | "rec_type r = TYPE_LINK" | "rec_type r = TYPE_DIRECTORY"
    using assms(2) by (auto simp: extractable_def split: if_splits)
  then show ?thesis
  proof cases
    case 1
    then have "\<not> bufsiz env dvd length (rec_data r)" using assms(2) by (simp add: extractable_def)
    from extract_contents_between [OF this, of p] show ?thesis
      using 1 assms(3) by (simp add: extract_object_def p all_allowed_def works_def object_actions_def)
  next
    case 2
    then have "rec_data r \<noteq> []" "0 \<notin> set (rec_data r)" using assms(2) by (auto simp: extractable_def)
    with fread_between [OF refl this(1), of p] show ?thesis
      using 2 assms(3) by (simp add: extract_object_def p all_allowed_def works_def object_actions_def c_string_id)
  next
    case 3
    with walk_seek(5) [OF assms(1)] show ?thesis
      by (simp add: extract_object_def all_allowed_def object_actions_def)
  qed
qed

definition wants :: "text_bytes list \<Rightarrow> jax_record \<Rightarrow> bool" where
  "wants wanted r \<longleftrightarrow> wanted = [] \<or> rec_name r \<in> set wanted"

lemma extract_record_between:
  assumes "in_archive env d r" and "extractable env r" and "works env"
  shows "extract_record env all_allowed verbose wanted (rec_type r) (between (d @ [rec_type r]) (tl (record_bytes r) @ rest)) t =
    (Some (between (d @ record_bytes r) rest), t @ (if wants wanted r then record_actions env verbose r else []))"
proof -
  have e: "rec_name r \<noteq> []" "c_string (rec_name r) = rec_name r" "malloc_works env n" for n
    using assms(2,3) by (simp_all add: extractable_def works_def c_string_id)
  have f: "of_mode (fields_of r) = rec_mode r" "sint (of_size (fields_of r)) = int (length (rec_data r))"
    "of_timestamp (fields_of r) = rec_time r" "of_owner (fields_of r) = rec_owner r" "of_group (fields_of r) = rec_group r"
    using record_walk [OF assms(1)] by (simp_all add: fields_of_def)
  show ?thesis
    by (auto simp: extract_record_def e f record_walk [OF assms(1)] Let_def wants_def record_actions_def
        extract_object_between [OF assms] extract_attributes_def attempt_def all_allowed_def attribute_actions_def)
qed

lemma extract_loop_records:
  assumes "works env" and "readable env (length d) rs" and "list_all (extractable env) rs"
  shows "extract_loop env all_allowed verbose wanted (between d (archive_bytes rs)) t =
    (0, t @ concat (map (record_actions env verbose) (filter (wants wanted) rs)))"
  using assms(2,3)
proof (induction rs arbitrary: d t)
  case Nil
  then show ?case by (subst extract_loop.simps) (simp add: fread_end)
next
  case (Cons r rs)
  then have "in_archive env d r" "extractable env r" using assms(1) by (simp_all add: readable_Cons in_archive_def works_def)
  from extract_record_between [OF this assms(1)] have "extract_loop env all_allowed verbose wanted (between d (archive_bytes (r # rs))) t =
      extract_loop env all_allowed verbose wanted (between (d @ record_bytes r) (archive_bytes rs))
        (t @ (if wants wanted r then record_actions env verbose r else []))"
    by (subst extract_loop.simps) (simp add: fread_type)
  moreover have "readable env (length (d @ record_bytes r)) rs" "list_all (extractable env) rs"
    using Cons.prems by (simp_all add: readable_Cons)
  ultimately show ?case by (simp add: Cons.IH)
qed

text \<open>
  What the actions make of a file system. Names are taken as they are; an action that cannot be done, such
  as making a directory where something is already, is \<open>None\<close>.
\<close>

datatype node = File text_bytes | Link text_bytes | Directory

record files =
  nodes :: "text_bytes \<rightharpoonup> node"
  opened :: "text_bytes option"

definition make_node :: "text_bytes \<Rightarrow> node \<Rightarrow> files \<Rightarrow> files option" where
  "make_node name n x = (if nodes x name = None then Some (x\<lparr>nodes := (nodes x)(name \<mapsto> n)\<rparr>) else None)"

fun perform :: "action \<Rightarrow> files \<Rightarrow> files option" where
  "perform (Open_file name) x =
     (case nodes x name of None \<Rightarrow> Some \<lparr>nodes = (nodes x)(name \<mapsto> File []), opened = Some name\<rparr>
      | Some (File _) \<Rightarrow> Some \<lparr>nodes = (nodes x)(name \<mapsto> File []), opened = Some name\<rparr> | Some _ \<Rightarrow> None)"
| "perform (Write_file b) x =
     (case opened x of None \<Rightarrow> None
      | Some name \<Rightarrow> (case nodes x name of Some (File c) \<Rightarrow> Some (x\<lparr>nodes := (nodes x)(name \<mapsto> File (c @ b))\<rparr>) | _ \<Rightarrow> None))"
| "perform Close_file x = Some (x\<lparr>opened := None\<rparr>)"
| "perform (Make_link target name) x = make_node name (Link target) x"
| "perform (Make_directory name mode) x = make_node name Directory x"
| "perform (Print _) x = Some x"
| "perform (Report_type _) x = Some x"
| "perform (Set_times name _) x = (if nodes x name = None then None else Some x)"
| "perform (Set_mode name _) x = (if nodes x name = None then None else Some x)"
| "perform (Set_owner name _ _) x = (if nodes x name = None then None else Some x)"

fun replay :: "action list \<Rightarrow> files \<Rightarrow> files option" where
  "replay [] x = Some x"
| "replay (a # t) x = Option.bind (perform a x) (replay t)"

fun sets_attribute :: "action \<Rightarrow> bool" where
  "sets_attribute (Set_times _ _) = True"
| "sets_attribute (Set_mode _ _) = True"
| "sets_attribute (Set_owner _ _ _) = True"
| "sets_attribute _ = False"

definition node_of :: "jax_record \<Rightarrow> node" where
  "node_of r = (if rec_type r = TYPE_REGULAR then File (rec_data r) else if rec_type r = TYPE_LINK then Link (rec_data r) else Directory)"

lemma replay_append: "replay (t @ u) x = Option.bind (replay t x) (replay u)"
  by (induction t arbitrary: x) (auto split: Option.bind_splits)

lemma replay_writes:
  "opened x = Some name \<Longrightarrow> nodes x name = Some (File c) \<Longrightarrow>
    replay (map Write_file cs) x = Some (x\<lparr>nodes := (nodes x)(name \<mapsto> File (c @ concat cs))\<rparr>)"
proof (induction cs arbitrary: x c)
  case Nil
  then have "(nodes x)(name \<mapsto> File c) = nodes x" by (simp add: fun_upd_idem)
  then show ?case by simp
qed simp

lemma replay_record:
  assumes "nodes x (rec_name r) = None" and "opened x = None" and "0 < bufsiz env"
  shows "replay (record_actions env verbose r) x = Some (x\<lparr>nodes := (nodes x)(rec_name r \<mapsto> node_of r)\<rparr>)"
proof -
  let ?x = "x\<lparr>nodes := (nodes x)(rec_name r \<mapsto> node_of r)\<rparr>"
  have "replay (object_actions env r) x = Some ?x"
    using assms
    by (auto simp: object_actions_def node_of_def make_node_def replay_append replay_writes [of _ "rec_name r" "[]"] concat_chunks)
  moreover have "replay (attribute_actions r) ?x = Some ?x" by (simp add: attribute_actions_def)
  ultimately show ?thesis by (simp add: record_actions_def replay_append)
qed

lemma replay_records:
  assumes "distinct (map rec_name rs)" and "\<forall>r \<in> set rs. nodes x (rec_name r) = None" and "opened x = None" and "0 < bufsiz env"
  shows "replay (concat (map (record_actions env verbose) rs)) x =
    Some (x\<lparr>nodes := nodes x ++ map_of (map (\<lambda>r. (rec_name r, node_of r)) rs)\<rparr>)"
  using assms(1-3)
proof (induction rs arbitrary: x)
  case (Cons r rs)
  let ?x = "x\<lparr>nodes := (nodes x)(rec_name r \<mapsto> node_of r)\<rparr>"
  have fresh: "rec_name q \<noteq> rec_name r" if "q \<in> set rs" for q
    using Cons.prems(1) that by (metis distinct.simps(2) image_eqI list.map(2) set_map)
  have "replay (record_actions env verbose r) x = Some ?x"
    using Cons.prems assms(4) by (intro replay_record) auto
  moreover have "replay (concat (map (record_actions env verbose) rs)) ?x =
      Some (?x\<lparr>nodes := nodes ?x ++ map_of (map (\<lambda>r. (rec_name r, node_of r)) rs)\<rparr>)"
    using Cons.prems fresh by (intro Cons.IH) auto
  ultimately have "replay (concat (map (record_actions env verbose) (r # rs))) x =
      Some (x\<lparr>nodes := (nodes x)(rec_name r \<mapsto> node_of r) ++ map_of (map (\<lambda>r. (rec_name r, node_of r)) rs)\<rparr>)"
    by (simp add: replay_append)
  moreover have "map_of (map (\<lambda>r. (rec_name r, node_of r)) rs) (rec_name r) = None"
    using Cons.prems(1) by (auto simp: map_of_eq_None_iff)
  then have "(nodes x)(rec_name r \<mapsto> node_of r) ++ map_of (map (\<lambda>r. (rec_name r, node_of r)) rs) =
      nodes x ++ map_of (map (\<lambda>r. (rec_name r, node_of r)) (r # rs))"
    by (auto simp: map_add_def fun_eq_iff split: option.splits)
  ultimately show ?case by metis
qed simp

lemma attributes_of_record: "filter sets_attribute (record_actions env verbose r) = attribute_actions r"
proof -
  have "filter sets_attribute (map Write_file cs) = []" for cs by (induction cs) auto
  then show ?thesis by (simp add: record_actions_def object_actions_def attribute_actions_def)
qed

section \<open>Creating an archive\<close>

fun visits_in :: "walk_event list \<Rightarrow> visit list" where
  "visits_in [] = []"
| "visits_in (Visit v # es) = v # visits_in es"
| "visits_in (Unreadable _ # es) = visits_in es"

definition visits_of :: "walk \<Rightarrow> text_bytes list \<Rightarrow> visit list" where
  "visits_of nftw paths = concat (map (\<lambda>path. visits_in (fst (nftw path))) paths)"

text \<open>
  The files the archiver stores so that they can be read again: files that can be visited, with names and
  link targets without characters 0, and with sizes and times below \<open>2 ^ 31\<close>.
\<close>

definition storable :: "tool \<Rightarrow> visit \<Rightarrow> bool" where
  "storable env v \<longleftrightarrow> visitable env v \<and> 0 \<notin> set (visit_name v) \<and> length (rec_data (record_of v)) < 2 ^ 31
     \<and> unat (st_mtime v) < 2 ^ 31 \<and> (visit_kind v = FTW_SL \<longrightarrow> 0 \<notin> set (contents v))"

lemma storable_readable:
  assumes "storable env v"
  shows "extractable env (record_of v)" and "readable_record (record_of v)"
  using assms
  by (cases "visit_kind v"; simp add: extractable_def readable_record_def record_wf_def record_of_def storable_def visitable_def)+

lemma walk_visits_stores:
  assumes "list_all (storable env) (visits_in es)" and "0 < bufsiz env"
  shows "walk_visits env False verbose es x =
    Some \<lparr>archive_bytes_of = archive_bytes_of x @ archive_bytes (map record_of (visits_in es)),
          printed_bytes = printed_bytes x @ (if verbose then concat (map (\<lambda>v. visit_name v @ [10]) (visits_in es)) else [])\<rparr>"
  using assms(1)
proof (induction es arbitrary: x)
  case (Cons e es)
  show ?case
  proof (cases e)
    case (Visit v)
    with Cons.prems have "visitable env v" by (simp add: storable_def)
    from nftw_visit_succeeds [OF this assms(2)] Cons.IH Cons.prems Visit show ?thesis
      by (simp add: say_def archive_bytes_def)
  qed (use Cons in simp)
qed (simp add: archive_bytes_def)

lemma create_append_stores:
  assumes "list_all (storable env) (visits_of nftw paths)" and "0 < bufsiz env" and "list_all (\<lambda>path. snd (nftw path)) paths"
  shows "create_append env nftw False verbose paths x =
    Some \<lparr>archive_bytes_of = archive_bytes_of x @ archive_bytes (map record_of (visits_of nftw paths)),
          printed_bytes = printed_bytes x @ (if verbose then concat (map (\<lambda>v. visit_name v @ [10]) (visits_of nftw paths)) else [])\<rparr>"
  using assms(1,3)
proof (induction paths arbitrary: x)
  case (Cons path paths)
  then have "list_all (storable env) (visits_in (fst (nftw path)))" "list_all (storable env) (visits_of nftw paths)" "snd (nftw path)"
    by (simp_all add: visits_of_def)
  with Cons.IH Cons.prems walk_visits_stores [OF this(1) assms(2)] show ?case
    by (simp add: visits_of_def archive_bytes_def)
qed (simp add: archive_bytes_def visits_of_def)

text \<open>Extracting undoes creating.\<close>

lemma extract_recreates:
  assumes "works env" and "list_all (storable env) vs" and "distinct (map visit_name vs)"
    and "int (length (MAGIC @ archive_bytes (map record_of vs))) \<le> long_max env"
  shows "\<exists>t. extract_archive env all_allowed verbose wanted \<lparr>stream_bytes = MAGIC @ archive_bytes (map record_of vs), stream_pos = 0\<rparr> = (0, t)
    \<and> replay t \<lparr>nodes = Map.empty, opened = None\<rparr> =
        Some \<lparr>nodes = map_of (map (\<lambda>v. (visit_name v, node_of (record_of v))) (filter (\<lambda>v. wants wanted (record_of v)) vs)), opened = None\<rparr>
    \<and> filter sets_attribute t = concat (map (\<lambda>v. attribute_actions (record_of v)) (filter (\<lambda>v. wants wanted (record_of v)) vs))"
proof -
  let ?ws = "filter (\<lambda>v. wants wanted (record_of v)) vs" and ?rs = "map record_of vs"
  let ?t = "concat (map (record_actions env verbose) (map record_of ?ws))"
  have b: "0 < bufsiz env" and ok: "malloc_works env n" for n using assms(1) by (simp_all add: works_def)
  have "readable env (length MAGIC) ?rs" "list_all (extractable env) ?rs"
    using assms(2,4) by (auto simp: readable_def list_all_iff storable_readable)
  from extract_loop_records [OF assms(1) this]
  have "extract_archive env all_allowed verbose wanted \<lparr>stream_bytes = MAGIC @ archive_bytes ?rs, stream_pos = 0\<rparr> = (0, ?t)"
    by (simp add: extract_archive_def magic_between ok filter_map comp_def)
  moreover have "distinct (map rec_name (map record_of ?ws))"
    using distinct_map_filter [OF assms(3)] by (simp add: comp_def record_of_def)
  from replay_records [OF this _ _ b, of "\<lparr>nodes = Map.empty, opened = None\<rparr>"]
  have "replay ?t \<lparr>nodes = Map.empty, opened = None\<rparr> =
      Some \<lparr>nodes = map_of (map (\<lambda>v. (visit_name v, node_of (record_of v))) ?ws), opened = None\<rparr>"
    by (simp add: comp_def record_of_def)
  moreover have "filter sets_attribute ?t = concat (map (\<lambda>v. attribute_actions (record_of v)) ?ws)"
    by (simp add: filter_concat comp_def attributes_of_record)
  ultimately show ?thesis by blast
qed

definition verbosely :: "bool \<Rightarrow> option_given list" where
  "verbosely v = (if v then [Opt_v] else [])"

lemma settings_create:
  "settings_of ([Opt_c, Opt_f a] @ verbosely v) = \<lparr>archive_file = Some a, has_error = False, is_verbose = v, tool_mode = Mode_create\<rparr>"
  "settings_of ([Opt_x, Opt_f a] @ verbosely v) = \<lparr>archive_file = Some a, has_error = False, is_verbose = v, tool_mode = Mode_extract\<rparr>"
  by (simp_all add: settings_of_def choose_mode_def verbosely_def)


text \<open>On x86 a shift of an \<open>int\<close> takes the distance modulo 32, and the result is sign-extended to 64 bits.\<close>

definition x86_shift :: "uint8_t \<Rightarrow> nat \<Rightarrow> 64 word" where
  "x86_shift b n = scast (push_bit (n mod 32) (ucast b :: 32 word))"

definition demo_tool :: tool where
  "demo_tool = \<lparr>bufsiz = 8192, malloc_works = (\<lambda>n. True), archive_seeks = True, native_i64 = i64_to_le,
     long_max = 2 ^ 63 - 1, shift_int = x86_shift, date_string = (\<lambda>t. [])\<rparr>"

lemma demo_shifts: "shifts_as_int demo_tool"
proof -
  have "x86_shift b n = push_bit n (ucast b)" if "n < 32" "unat b * 2 ^ n < 2 ^ 31" for b n
  proof -
    let ?w = "push_bit n (ucast b :: 32 word)"
    have "unat b < 2 ^ 32" using unsigned_less [of b] by (rule less_le_trans) simp
    then have "unat ?w = take_bit 32 (push_bit n (unat b))"
      by (simp add: unsigned_push_bit_eq unsigned_ucast_eq take_bit_nat_eq_self)
    then have "unat ?w = unat b * 2 ^ n" using that by (simp add: push_bit_eq_mult take_bit_nat_eq_self)
    from arg_cong [OF this, of int] have u: "uint ?w = uint b * 2 ^ n" by simp
    moreover have "int (unat b * 2 ^ n) < int (2 ^ 31)" using that(2) by (simp only: of_nat_less_iff)
    then have "uint ?w < 2 ^ 31" using u by simp
    moreover have "- (2 ^ 31) \<le> uint ?w" by (rule order_trans [OF _ unsigned_greater_eq]) simp
    ultimately have "sint ?w = uint ?w" by (simp add: sint_uint signed_take_bit_int_eq_self)
    with u have "sint ?w = uint b * 2 ^ n" by simp
    then have "(scast ?w :: 64 word) = word_of_int (uint b * 2 ^ n)" by (simp only: scast_eq)
    also have "\<dots> = push_bit n (ucast b)" by (simp only: push_bit_eq_mult ucast_eq of_int_mult of_int_power of_int_numeral)
    finally show ?thesis using that(1) by (simp add: x86_shift_def)
  qed
  moreover have "x86_shift 0 n = push_bit n (ucast (0 :: uint8_t))" for n by (simp add: x86_shift_def)
  ultimately show ?thesis by (auto simp: shifts_as_int_def shifts_in_range_def zero_stays_zero_def demo_tool_def)
qed

text \<open>Files of two to four GiB: the size that is read back is negative, so that the tool takes the contents for records.\<close>

lemma bit_foldl_or: "bit (foldl (\<lambda>r i. r OR f i) r is) n \<longleftrightarrow> bit r n \<or> (\<exists>i \<in> set is. bit (f i :: 64 word) n)"
  by (induction "is" arbitrary: r) (auto simp: bit_or_iff)

lemma large_size_is_negative:
  assumes "bit w 31"
  shows "sint (bytes_i64 demo_tool (i64_to_le w)) < 0"
proof -
  have "i64_to_le w ! 3 = ucast (take_bit 8 (drop_bit 24 w))"
    by (simp add: nth_i64_to_le take_bit_eq_mask mask_eq_exp_minus_1)
  then have "bit (i64_to_le w ! 3) 7" using assms by (simp add: bit_simps)
  then have "bit (x86_shift (i64_to_le w ! 3) (3 * 8)) 63" by (simp add: x86_shift_def bit_simps)
  then have "bit (bytes_i64 demo_tool (i64_to_le w)) 63"
    unfolding bytes_i64_def bit_foldl_or by (auto simp: demo_tool_def intro!: bexI [of _ 3])
  then show ?thesis by (simp add: sint_uint bit_uint_iff signed_take_bit_negative_iff)
qed

text \<open>Appending to an archive never works, because the file is emptied before its first bytes are read.\<close>

lemma jax_append_empties_archive:
  assumes "\<not> has_error (settings_of opts)" and "tool_mode (settings_of opts) = Mode_append"
    and "archive_file (settings_of opts) = Some a" and "writable a"
  shows "jax_main env ok nftw files writable inp opts paths = \<lparr>exit_code = 1, actions = [], archive_after = Some []\<rparr>"
  using assms by (simp add: jax_main_def Let_def append_archive_def magic_ok_def fread_def)

definition demo_walk :: walk where
  "demo_walk path = ([Visit demo_visit, Unreadable [120]], True)"


theorem list_prints_names_witness:
  "list demo_tool \<lparr>stream_bytes = MAGIC @ record_bytes (record_of demo_visit), stream_pos = 0\<rparr> = (0, map of_char ''a/b'' @ [10])
    \<and> list_verbose demo_tool \<lparr>stream_bytes = MAGIC @ record_bytes (record_of demo_visit), stream_pos = 0\<rparr> =
        (0, map of_char ''-rw-r--r-- 1/2               3  a/b'' @ [10])"
proof -
  let ?r = "record_of demo_visit"
  have "readable demo_tool 4 [?r]"
    by (simp add: readable_def readable_record_def record_wf_def length_record_bytes record_of_def demo_visit_def demo_tool_def)
  moreover have "rec_type ?r = TYPE_REGULAR" by (simp add: record_of_def demo_visit_def)
  moreover have "line_of ?r = map of_char ''a/b'' @ [10]" by (simp add: line_of_def record_of_def demo_visit_def TYPE_REGULAR_def TYPE_DIRECTORY_def)
  moreover have "detailed demo_tool ?r = map of_char ''-rw-r--r-- 1/2               3  ''" by code_simp
  ultimately show ?thesis using list_prints_names [OF demo_shifts, of "[?r]"] by (simp add: archive_bytes_def)
qed

end
