(* ===== verification/Console.thy ===== *)
theory Console
  imports Byte_Memory
begin

unbundle bit_operations_syntax

text \<open>
  The console of the Macintosh, \<open>kernel/platform/mac-68000/console.c\<close> with its font in \<open>font.h\<close>: six
  functions that draw a character, for screens of 1 to 32 bits per pixel, scrolling, and the call that prints
  a character. Drawing reads the font and the address of the screen from memory and changes the memory of
  the screen. The font lies at an address that the linker chooses. What is printed only in builds for
  debugging is left out.
\<close>

section \<open>The font (font.h)\<close>

definition FONT_WIDTH :: int where "FONT_WIDTH = 6"
definition FONT_HEIGHT :: int where "FONT_HEIGHT = 11"

definition font :: "uint8_t list" where
  "font = concat
    [[0, 0, 0, 0, 0, 0, 0, 0, 0, 0, 0, 0, 0, 32, 32, 32],
     [32, 32, 0, 32, 0, 0, 0, 80, 80, 80, 0, 0, 0, 0, 0, 0],
     [0, 0, 0, 80, 248, 80, 248, 80, 0, 0, 0, 0, 0, 32, 112, 168],
     [160, 112, 40, 168, 112, 32, 0, 0, 0, 120, 168, 176, 80, 104, 168, 144],
     [0, 0, 0, 0, 96, 144, 160, 64, 168, 144, 104, 0, 0, 0, 32, 32],
     [32, 0, 0, 0, 0, 0, 0, 0, 0, 16, 32, 64, 64, 64, 64, 64],
     [32, 16, 0, 0, 64, 32, 16, 16, 16, 16, 16, 32, 64, 0, 0, 0],
     [32, 168, 112, 168, 32, 0, 0, 0, 0, 0, 0, 0, 32, 32, 248, 32],
     [32, 0, 0, 0, 0, 0, 0, 0, 0, 0, 0, 96, 96, 32, 64, 0],
     [0, 0, 0, 0, 112, 0, 0, 0, 0, 0, 0, 0, 0, 0, 0, 0],
     [0, 48, 48, 0, 0, 0, 8, 8, 16, 16, 32, 32, 64, 64, 128, 128],
     [0, 0, 112, 136, 152, 168, 200, 136, 112, 0, 0, 0, 0, 32, 224, 32],
     [32, 32, 32, 248, 0, 0, 0, 0, 112, 136, 8, 16, 32, 64, 248, 0],
     [0, 0, 0, 112, 136, 8, 48, 8, 136, 112, 0, 0, 0, 0, 16, 48],
     [80, 144, 248, 16, 56, 0, 0, 0, 0, 248, 128, 240, 8, 8, 136, 112],
     [0, 0, 0, 0, 112, 128, 240, 136, 136, 136, 112, 0, 0, 0, 0, 248],
     [8, 8, 16, 32, 32, 32, 0, 0, 0, 0, 112, 136, 136, 112, 136, 136],
     [112, 0, 0, 0, 0, 112, 136, 136, 136, 120, 8, 112, 0, 0, 0, 0],
     [0, 0, 48, 48, 0, 48, 48, 0, 0, 0, 0, 0, 0, 96, 96, 0],
     [96, 96, 32, 64, 0, 0, 8, 16, 32, 64, 32, 16, 8, 0, 0, 0],
     [0, 0, 0, 248, 0, 248, 0, 0, 0, 0, 0, 0, 64, 32, 16, 8],
     [16, 32, 64, 0, 0, 0, 0, 112, 136, 8, 16, 32, 0, 32, 0, 0],
     [0, 0, 112, 136, 184, 168, 184, 128, 120, 0, 0, 0, 0, 32, 80, 80],
     [136, 248, 136, 136, 0, 0, 0, 0, 240, 136, 136, 240, 136, 136, 240, 0],
     [0, 0, 0, 112, 136, 128, 128, 128, 136, 112, 0, 0, 0, 0, 240, 136],
     [136, 136, 136, 136, 240, 0, 0, 0, 0, 248, 128, 128, 240, 128, 128, 248],
     [0, 0, 0, 0, 248, 128, 128, 240, 128, 128, 128, 0, 0, 0, 0, 112],
     [136, 128, 152, 136, 136, 112, 0, 0, 0, 0, 136, 136, 136, 248, 136, 136],
     [136, 0, 0, 0, 0, 248, 32, 32, 32, 32, 32, 248, 0, 0, 0, 0],
     [8, 8, 8, 8, 136, 136, 112, 0, 0, 0, 0, 136, 144, 160, 192, 160],
     [144, 136, 0, 0, 0, 0, 128, 128, 128, 128, 128, 128, 248, 0, 0, 0],
     [0, 136, 216, 168, 168, 136, 136, 136, 0, 0, 0, 0, 136, 200, 168, 152],
     [136, 136, 136, 0, 0, 0, 0, 112, 136, 136, 136, 136, 136, 112, 0, 0],
     [0, 0, 240, 136, 136, 240, 128, 128, 128, 0, 0, 0, 0, 112, 136, 136],
     [136, 136, 168, 112, 8, 0, 0, 0, 240, 136, 136, 240, 136, 136, 136, 0],
     [0, 0, 0, 112, 136, 128, 112, 8, 136, 112, 0, 0, 0, 0, 248, 32],
     [32, 32, 32, 32, 32, 0, 0, 0, 0, 136, 136, 136, 136, 136, 136, 112],
     [0, 0, 0, 0, 136, 136, 136, 80, 80, 32, 32, 0, 0, 0, 0, 136],
     [136, 136, 168, 168, 216, 136, 0, 0, 0, 0, 136, 136, 80, 32, 80, 136],
     [136, 0, 0, 0, 0, 136, 136, 136, 80, 32, 32, 32, 0, 0, 0, 0],
     [248, 8, 16, 32, 64, 128, 248, 0, 0, 0, 48, 32, 32, 32, 32, 32],
     [32, 32, 48, 0, 0, 64, 64, 32, 32, 16, 16, 8, 8, 4, 4, 0],
     [96, 32, 32, 32, 32, 32, 32, 32, 96, 0, 0, 0, 32, 80, 136, 0],
     [0, 0, 0, 0, 0, 0, 0, 0, 0, 0, 0, 0, 0, 0, 0, 252],
     [0, 64, 32, 0, 0, 0, 0, 0, 0, 0, 0, 0, 0, 0, 0, 120],
     [136, 136, 152, 104, 0, 0, 0, 0, 128, 128, 240, 136, 136, 136, 240, 0],
     [0, 0, 0, 0, 0, 112, 136, 128, 128, 120, 0, 0, 0, 0, 8, 8],
     [120, 136, 136, 136, 120, 0, 0, 0, 0, 0, 0, 112, 136, 248, 128, 120],
     [0, 0, 0, 0, 24, 32, 112, 32, 32, 32, 32, 0, 0, 0, 0, 0],
     [0, 120, 136, 136, 136, 120, 8, 112, 0, 0, 128, 128, 240, 136, 136, 136],
     [136, 0, 0, 0, 0, 32, 0, 96, 32, 32, 32, 112, 0, 0, 0, 0],
     [32, 0, 96, 32, 32, 32, 32, 32, 192, 0, 0, 128, 128, 144, 160, 224],
     [144, 136, 0, 0, 0, 0, 96, 32, 32, 32, 32, 32, 112, 0, 0, 0],
     [0, 0, 0, 240, 168, 168, 168, 168, 0, 0, 0, 0, 0, 0, 176, 200],
     [136, 136, 136, 0, 0, 0, 0, 0, 0, 112, 136, 136, 136, 112, 0, 0],
     [0, 0, 0, 0, 240, 136, 136, 136, 240, 128, 128, 0, 0, 0, 0, 120],
     [136, 136, 136, 120, 8, 8, 0, 0, 0, 0, 176, 200, 128, 128, 128, 0],
     [0, 0, 0, 0, 0, 120, 128, 112, 8, 240, 0, 0, 0, 0, 32, 32],
     [112, 32, 32, 32, 24, 0, 0, 0, 0, 0, 0, 136, 136, 136, 152, 104],
     [0, 0, 0, 0, 0, 0, 136, 136, 80, 80, 32, 0, 0, 0, 0, 0],
     [0, 168, 168, 168, 168, 80, 0, 0, 0, 0, 0, 0, 136, 80, 32, 80],
     [136, 0, 0, 0, 0, 0, 0, 136, 136, 136, 136, 120, 8, 112, 0, 0],
     [0, 0, 248, 16, 32, 64, 248, 0, 0, 16, 32, 32, 32, 32, 64, 32],
     [32, 32, 32, 16, 0, 32, 32, 32, 32, 32, 32, 32, 32, 32, 0, 64],
     [32, 32, 32, 32, 16, 32, 32, 32, 32, 64, 0, 0, 0, 0, 104, 176],
     [0, 0, 0, 0, 0]]"

section \<open>State\<close>

datatype putchar_function = Mono | Color_2bpp | Color_4bpp | Color_8bpp | Color_16bpp | Color_32bpp

record console =
  console_x :: int
  console_y :: int
  screen_width :: uint16_t
  screen_height :: uint16_t
  console_height :: uint16_t
  row_bytes :: uint16_t
  video_memory_length :: uint32_t
  bits_per_pixel :: uint16_t
  putchar_fn :: "putchar_function option"

definition initial_console :: console where
  "initial_console = \<lparr>console_x = 0, console_y = 0, screen_width = 0, screen_height = 0, console_height = 0, row_bytes = 0,
     video_memory_length = 0, bits_per_pixel = 0, putchar_fn = None\<rparr>"

definition SCRN_BASE :: "memory \<Rightarrow> addr" where "SCRN_BASE m = load_word 0x824 m"
definition SCREEN_ROW :: "memory \<Rightarrow> uint16_t" where "SCREEN_ROW m = bytes_half [m 0x106, m 0x107]"

section \<open>Drawing a character\<close>

text \<open>The loop over the rows of a character; the given function draws one row, whose pattern it gets.\<close>

fun glyph_rows :: "(uint8_t \<Rightarrow> addr \<Rightarrow> memory \<Rightarrow> memory) \<Rightarrow> nat \<Rightarrow> addr \<Rightarrow> addr \<Rightarrow> addr \<Rightarrow> memory \<Rightarrow> memory" where
  "glyph_rows draw 0 bytes_per_row dest char_data m = m"
| "glyph_rows draw (Suc n) bytes_per_row dest char_data m =
     glyph_rows draw n bytes_per_row (dest + bytes_per_row) (char_data + 1) (draw (m char_data) dest m)"

definition char_data :: "addr \<Rightarrow> uint8_t \<Rightarrow> addr" where
  "char_data font_address c = font_address + of_int ((sint c - 32) * FONT_HEIGHT)"

definition mono_row :: "int \<Rightarrow> uint8_t \<Rightarrow> addr \<Rightarrow> memory \<Rightarrow> memory" where
  "mono_row column_offset pattern dest m =
     (let data = NOT pattern in
      if column_offset = 0 then m(dest := (m dest AND 0b00000011) OR (data AND 0b11111100))
      else if column_offset = 1 then
        let m1 = m(dest := (m dest AND 0b11111100) OR drop_bit 6 data)
        in m1(dest + 1 := (m1 (dest + 1) AND 0b00001111) OR (push_bit 2 data AND 0b11110000))
      else if column_offset = 2 then
        let m1 = m(dest + 1 := (m (dest + 1) AND 0b11110000) OR drop_bit 4 data)
        in m1(dest + 2 := (m1 (dest + 2) AND 0b00111111) OR (push_bit 4 data AND 0b11000000))
      else if column_offset = 3 then m(dest + 2 := (m (dest + 2) AND 0b11000000) OR drop_bit 2 data)
      else m)"

definition mono_putchar :: "addr \<Rightarrow> console \<Rightarrow> uint8_t \<Rightarrow> memory \<Rightarrow> memory" where
  "mono_putchar font_address x c m =
     glyph_rows (mono_row (console_x x mod 4)) (nat FONT_HEIGHT) (ucast (row_bytes x))
       (SCRN_BASE m + of_int (console_y x * FONT_HEIGHT * uint (row_bytes x) + console_x x div 4 * 3)) (char_data font_address c) m"

definition color_row_2bpp :: "int \<Rightarrow> uint8_t \<Rightarrow> addr \<Rightarrow> memory \<Rightarrow> memory" where
  "color_row_2bpp column_offset pattern dest m =
     (let data = NOT pattern in
      if column_offset = 0 then
        let m1 = m(dest :=
               (data AND 0b10000000) OR (drop_bit 1 data AND 0b01000000)
               OR (drop_bit 1 data AND 0b00100000) OR (drop_bit 2 data AND 0b00010000)
               OR (drop_bit 2 data AND 0b00001000) OR (drop_bit 3 data AND 0b00000100)
               OR (drop_bit 3 data AND 0b00000010) OR (drop_bit 4 data AND 0b00000001))
        in m1(dest + 1 :=
               (m1 (dest + 1) AND 0x0f)
               OR (push_bit 4 data AND 0b10000000) OR (push_bit 3 data AND 0b01000000)
               OR (push_bit 3 data AND 0b00100000) OR (push_bit 2 data AND 0b00010000))
      else if column_offset = 1 then
        let m1 = m(dest + 1 :=
               (m (dest + 1) AND 0xf0)
               OR (drop_bit 4 data AND 0b00001000) OR (drop_bit 5 data AND 0b00000100)
               OR (drop_bit 5 data AND 0b00000010) OR (drop_bit 6 data AND 0b00000001))
        in m1(dest + 2 :=
               (push_bit 2 data AND 0b10000000) OR (push_bit 1 data AND 0b01000000)
               OR (push_bit 1 data AND 0b00100000) OR (data AND 0b00010000)
               OR (data AND 0b00001000) OR (drop_bit 1 data AND 0b00000100)
               OR (drop_bit 1 data AND 0b00000010) OR (drop_bit 2 data AND 0b00000001))
      else m)"

definition color_putchar_2bpp :: "addr \<Rightarrow> console \<Rightarrow> uint8_t \<Rightarrow> memory \<Rightarrow> memory" where
  "color_putchar_2bpp font_address x c m =
     glyph_rows (color_row_2bpp (console_x x mod 2)) (nat FONT_HEIGHT) (ucast (row_bytes x))
       (SCRN_BASE m + of_int (console_y x * FONT_HEIGHT * uint (row_bytes x) + console_x x div 2 * 3)) (char_data font_address c) m"

text \<open>The inner loops over the columns of a row, from column 7 of the pattern down to column 2.\<close>

definition color_row_4bpp :: "uint8_t \<Rightarrow> addr \<Rightarrow> memory \<Rightarrow> memory" where
  "color_row_4bpp data dest m =
     snd (foldl (\<lambda>(pixel, m) col. (pixel + 1, m(pixel := (if bit data col then 0x00 else 0xf0) OR (if bit data (col - 1) then 0x00 else 0x0f))))
       (dest, m) [7, 5, 3])"

definition color_putchar_4bpp :: "addr \<Rightarrow> console \<Rightarrow> uint8_t \<Rightarrow> memory \<Rightarrow> memory" where
  "color_putchar_4bpp font_address x c m =
     glyph_rows color_row_4bpp (nat FONT_HEIGHT) (ucast (row_bytes x))
       (SCRN_BASE m + of_int (console_y x * FONT_HEIGHT * uint (row_bytes x) + console_x x * FONT_WIDTH div 2)) (char_data font_address c) m"

definition color_row_8bpp :: "uint8_t \<Rightarrow> addr \<Rightarrow> memory \<Rightarrow> memory" where
  "color_row_8bpp data dest m =
     snd (foldl (\<lambda>(pixel, m) col. (pixel + 1, m(pixel := if bit data col then 0x00 else 0xff))) (dest, m) [7, 6, 5, 4, 3, 2])"

definition color_putchar_8bpp :: "addr \<Rightarrow> console \<Rightarrow> uint8_t \<Rightarrow> memory \<Rightarrow> memory" where
  "color_putchar_8bpp font_address x c m =
     glyph_rows color_row_8bpp (nat FONT_HEIGHT) (ucast (row_bytes x))
       (SCRN_BASE m + of_int (console_y x * FONT_HEIGHT * uint (row_bytes x) + console_x x * FONT_WIDTH)) (char_data font_address c) m"

definition color_row_16bpp :: "uint8_t \<Rightarrow> addr \<Rightarrow> memory \<Rightarrow> memory" where
  "color_row_16bpp data dest m =
     snd (foldl (\<lambda>(pixel, m) col. (pixel + 2, store_half pixel (if bit data col then 0x0000 else 0xffff) m)) (dest, m) [7, 6, 5, 4, 3, 2])"

definition color_putchar_16bpp :: "addr \<Rightarrow> console \<Rightarrow> uint8_t \<Rightarrow> memory \<Rightarrow> memory" where
  "color_putchar_16bpp font_address x c m =
     glyph_rows color_row_16bpp (nat FONT_HEIGHT) (ucast (row_bytes x) div 2 * 2)
       (SCRN_BASE m + of_int (console_y x * FONT_HEIGHT * uint (row_bytes x) + console_x x * FONT_WIDTH * 2)) (char_data font_address c) m"

definition color_row_32bpp :: "uint8_t \<Rightarrow> addr \<Rightarrow> memory \<Rightarrow> memory" where
  "color_row_32bpp data dest m =
     snd (foldl (\<lambda>(pixel, m) col. (pixel + 4, store_word pixel (if bit data col then 0x00000000 else 0xffffffff) m)) (dest, m) [7, 6, 5, 4, 3, 2])"

definition color_putchar_32bpp :: "addr \<Rightarrow> console \<Rightarrow> uint8_t \<Rightarrow> memory \<Rightarrow> memory" where
  "color_putchar_32bpp font_address x c m =
     glyph_rows color_row_32bpp (nat FONT_HEIGHT) (ucast (row_bytes x) div 4 * 4)
       (SCRN_BASE m + of_int (console_y x * FONT_HEIGHT * uint (row_bytes x) + console_x x * FONT_WIDTH * 4)) (char_data font_address c) m"

fun call_putchar :: "putchar_function \<Rightarrow> addr \<Rightarrow> console \<Rightarrow> uint8_t \<Rightarrow> memory \<Rightarrow> memory" where
  "call_putchar Mono = mono_putchar"
| "call_putchar Color_2bpp = color_putchar_2bpp"
| "call_putchar Color_4bpp = color_putchar_4bpp"
| "call_putchar Color_8bpp = color_putchar_8bpp"
| "call_putchar Color_16bpp = color_putchar_16bpp"
| "call_putchar Color_32bpp = color_putchar_32bpp"

section \<open>The console\<close>

text \<open>\<open>None\<close> is the division by a width of 0, which the processor does not do.\<close>

definition init_console :: "uint16_t \<Rightarrow> uint16_t \<Rightarrow> memory \<Rightarrow> console \<Rightarrow> console option" where
  "init_console width height m x =
     (let rb = (if SCREEN_ROW m = 0xffff then width div 8 else SCREEN_ROW m);
          bpp = (of_int (uint rb * 8 div uint width) :: uint16_t);
          f = (if bpp = 1 then Some Mono else if bpp = 2 then Some Color_2bpp else if bpp = 4 then Some Color_4bpp
               else if bpp = 8 then Some Color_8bpp else if bpp = 16 then Some Color_16bpp
               else if bpp = 32 then Some Color_32bpp else putchar_fn x)
      in if width = 0 then None
         else Some (x\<lparr>screen_width := width, screen_height := height, console_height := of_int (uint height div FONT_HEIGHT * FONT_HEIGHT),
           row_bytes := rb, bits_per_pixel := bpp, video_memory_length := of_int (uint rb * uint height), putchar_fn := f\<rparr>))"

definition newline :: "console \<Rightarrow> memory \<Rightarrow> console \<times> memory" where
  "newline x m =
     (let x1 = x\<lparr>console_x := 0, console_y := console_y x + 1\<rparr>; rows = uint (console_height x) div FONT_HEIGHT in
      if console_y x1 \<ge> rows then
        let move_distance = (of_int (uint (row_bytes x) * FONT_HEIGHT) :: size_t);
            m1 = fst (memmove (SCRN_BASE m) (SCRN_BASE m + move_distance) (video_memory_length x - move_distance) m);
            m2 = fst (memset (SCRN_BASE m1 + video_memory_length x - move_distance) 0xff move_distance m1)
        in (x1\<lparr>console_y := rows - 1\<rparr>, m2)
      else (x1, m))"

definition putchar :: "addr \<Rightarrow> uint8_t \<Rightarrow> console \<Rightarrow> memory \<Rightarrow> console \<times> memory" where
  "putchar font_address c x m =
     (if c = 10 then newline x m
      else
        let m1 = (case putchar_fn x of None \<Rightarrow> m | Some f \<Rightarrow> call_putchar f font_address x c m);
            x1 = x\<lparr>console_x := console_x x + 1\<rparr>
        in if console_x x1 \<ge> uint (screen_width x) div FONT_WIDTH then newline x1 m1 else (x1, m1))"

text \<open>
  The handler of the debug capability (\<open>kernel/debug.c\<close>): every character of a string up to the character 0.
  \<open>None\<close> is a string that does not end.
\<close>

partial_function (option) debug_print_loop :: "addr \<Rightarrow> addr \<Rightarrow> console \<Rightarrow> memory \<Rightarrow> (console \<times> memory) option" where
  "debug_print_loop font_address c x m =
     (if m c = 0 then Some (x, m)
      else case putchar font_address (m c) x m of (x', m') \<Rightarrow> debug_print_loop font_address (c + 1) x' m')"

definition debug_print :: "addr \<Rightarrow> addr \<Rightarrow> console \<Rightarrow> memory \<Rightarrow> (size_t \<times> console \<times> memory) option" where
  "debug_print font_address argument x m = map_option (\<lambda>r. (0, r)) (debug_print_loop font_address argument x m)"

end
