(* ===== verification/Console_Call.thy ===== *)
theory Console_Call
  imports Console Invocation
begin

unbundle bit_operations_syntax

text \<open>
  The kernel and its console as one machine. \<open>Invocation\<close> has the kernel's state without the console, where
  the debug capability does nothing; here its handler (\<open>kernel/debug.c\<close>) prints from the memory of the caller.
\<close>

type_synonym 's syscall = "size_t \<Rightarrow> size_t \<Rightarrow> size_t \<Rightarrow> size_t \<Rightarrow> 's \<Rightarrow> ('s \<times> size_t) option"

section \<open>System calls\<close>

text \<open>
  Calling a handler (the debug handlers print, all others leave the console alone), \<open>invoke_capability\<close>
  and the trap handler, as in \<open>capabilities.c\<close> and \<open>interrupts.c\<close>.
\<close>

definition console_handler ::
    "addr \<Rightarrow> handlers \<Rightarrow> size_t \<Rightarrow> size_t \<Rightarrow> size_t \<Rightarrow> addr \<Rightarrow> size_t \<Rightarrow> console \<times> kstate \<Rightarrow> ((console \<times> kstate) \<times> size_t) option" where
  "console_handler fa h n address depth slot argument s =
     (case s of (x, k) \<Rightarrow>
        if h = Debug_handlers
        then map_option (\<lambda>(r, x', m). ((x', k\<lparr>user_bytes := m\<rparr>), r)) (debug_print fa argument x (user_bytes k))
        else map_option (\<lambda>(k', r). ((x, k'), r)) (call_handler h n address depth slot argument k))"

definition console_invoke :: "addr \<Rightarrow> (console \<times> kstate) syscall" where
  "console_invoke fa address depth handler_number argument s =
     (case s of (x, k) \<Rightarrow> do {
        (k1, result) \<leftarrow> look_up_capability_relative address depth k;
        (case result of None \<Rightarrow> Some ((x, k1), ENOCAPABILITY)
         | Some r \<Rightarrow>
             let h = cap_handlers (caps k1 (lr_slot r)) in
             if h = No_handlers \<or> handler_number \<ge> num_handlers h
             then Some ((x, unlock_looked_up_capability r k1), ECAPINVAL)
             else do {
               ((x2, k2), v) \<leftarrow> console_handler fa h handler_number address depth (lr_slot r) argument (x, k1);
               Some ((x2, unlock_looked_up_capability r k2), v)
             })
      })"

definition console_trap ::
    "addr \<Rightarrow> uint32_t \<Rightarrow> thread_registers \<Rightarrow> console \<times> kstate \<Rightarrow> ((console \<times> kstate) \<times> thread_registers) option" where
  "console_trap fa idle_thread regs s =
     (if data_registers regs ! 0 = SYSCALL_YIELD then
        (case try_context_switch idle_thread regs (yield_thread (snd s)) of (k1, regs') \<Rightarrow> Some ((fst s, k1), regs'))
      else if data_registers regs ! 0 = SYSCALL_INVOKE then do {
        ((x1, k1), v) \<leftarrow> console_invoke fa (data_registers regs ! 1) (data_registers regs ! 2) (data_registers regs ! 3)
                          (address_registers regs ! 0) s;
        (case try_context_switch idle_thread (regs\<lparr>data_registers := (data_registers regs)[0 := v]\<rparr>) k1 of
           (k2, regs') \<Rightarrow> Some ((x1, k2), regs'))
      }
      else (case try_context_switch idle_thread regs (snd s) of (k1, regs') \<Rightarrow> Some ((fst s, k1), regs')))"

text \<open>Without a debug capability in the slot this is the trap of \<open>Invocation\<close>.\<close>

lemma console_invoke_other:
  assumes "\<And>k1 r. look_up_capability_relative address depth k = Some (k1, Some r) \<Longrightarrow> cap_handlers (caps k1 (lr_slot r)) \<noteq> Debug_handlers"
  shows "console_invoke fa address depth n argument (x, k) =
    map_option (\<lambda>(k', v). ((x, k'), v)) (invoke_capability address depth n argument k)"
  using assms
  by (cases "look_up_capability_relative address depth k")
    (auto simp: console_invoke_def invoke_capability_def console_handler_def Let_def Option.bind_map_option Option.map_option_bind
      split: option.splits intro!: Option.bind_cong)

lemma console_trap_other:
  assumes "data_registers regs ! 0 = SYSCALL_INVOKE \<Longrightarrow>
      (\<And>k1 r. look_up_capability_relative (data_registers regs ! 1) (data_registers regs ! 2) k = Some (k1, Some r) \<Longrightarrow>
         cap_handlers (caps k1 (lr_slot r)) \<noteq> Debug_handlers)"
  shows "console_trap fa idle regs (x, k) = map_option (\<lambda>(k', regs'). ((x, k'), regs')) (trap_handler idle regs k)"
proof (cases "data_registers regs ! 0 = SYSCALL_INVOKE")
  case True
  note eq = console_invoke_other [of "data_registers regs ! 1" "data_registers regs ! 2" k fa "data_registers regs ! 3" "address_registers regs ! 0" x]
  show ?thesis using eq assms [OF True] True
    by (cases "invoke_capability (data_registers regs ! 1) (data_registers regs ! 2) (data_registers regs ! 3) (address_registers regs ! 0) k")
      (auto simp: console_trap_def trap_handler_def SYSCALL_INVOKE_def SYSCALL_YIELD_def split: prod.splits)
next
  case False
  then show ?thesis by (auto simp: console_trap_def trap_handler_def split: prod.splits)
qed

end
