(* ===== verification/Boot.thy ===== *)
theory Boot
  imports Console_Call Thread_Table Bflt
begin

unbundle bit_operations_syntax

text \<open>
  Start-up and exceptions: the exception vectors and their handlers (\<open>kernel/arch/68000/interrupts.c\<close>), loading
  and starting the process server (\<open>kernel/main.c\<close>), entering user mode
  (\<open>kernel/arch/68000/user_mode_entry.c\<close>) and the entry point of the Macintosh
  (\<open>kernel/platform/mac-68000/main.c\<close>). The bytes of the kernel state are the memory that the
  console, the vectors and the loader work on. Addresses that the linker chooses, and the contents of
  variables before they are assigned, are parameters.
\<close>

section \<open>Exceptions (interrupts.c)\<close>

text \<open>The entry points of the trampoline, one for every handler.\<close>

datatype entry =
    Bad_interrupt | Bus_error | Address_error | Illegal_instruction | Division_by_zero | Chk_out_of_bounds
  | Trapv_overflow | Privilege_violation | Trace | Unimplemented_instruction_a | Unimplemented_instruction_f | Trap

definition set_vector :: "(entry \<Rightarrow> addr) \<Rightarrow> nat \<Rightarrow> entry \<Rightarrow> memory \<Rightarrow> memory" where
  "set_vector entry_address i e m = store_word (of_nat (4 * i)) (entry_address e) m"

definition init_vector_table :: "(entry \<Rightarrow> addr) \<Rightarrow> memory \<Rightarrow> memory" where
  "init_vector_table entry_address m =
     (let set = set_vector entry_address;
          m1 = fold (\<lambda>i. set i Bad_interrupt) [2..<64] m
      in set 32 Trap (set 11 Unimplemented_instruction_f (set 10 Unimplemented_instruction_a (set 9 Trace
           (set 8 Privilege_violation (set 7 Trapv_overflow (set 6 Chk_out_of_bounds (set 5 Division_by_zero
             (set 4 Illegal_instruction (set 3 Address_error (set 2 Bus_error m1)))))))))))"

text \<open>
  What becomes of the machine when an exception or interrupt was handled: the processor continues with some registers, or it
  stays in a loop for ever, with what the screen shows by then.
\<close>

datatype trap_outcome =
    Continues "console \<times> kstate" thread_registers
  | Halts "console \<times> kstate"

definition characters :: "string \<Rightarrow> uint8_t list" where
  "characters = map (\<lambda>c. of_nat (of_char c))"

definition puts :: "addr \<Rightarrow> string \<Rightarrow> console \<times> kstate \<Rightarrow> console \<times> kstate" where
  "puts font_address str = fold (\<lambda>c (x, s). case putchar font_address c x (user_bytes s) of (x', m) \<Rightarrow> (x', s\<lparr>user_bytes := m\<rparr>)) (characters str)"

definition handle_exception :: "addr \<Rightarrow> uint32_t \<Rightarrow> thread_registers \<Rightarrow> string \<Rightarrow> console \<times> kstate \<Rightarrow> trap_outcome" where
  "handle_exception font_address idle_thread regs cause xs =
     (if status_register regs AND push_bit 13 1 = 0
      then case handle_thread_exception idle_thread regs (snd xs) of (s', regs') \<Rightarrow> Continues (fst xs, s') regs'
      else
        let xs1 = puts font_address (''PANIC: unhandled exception '' @ [CHR 0x22]) xs;
            xs2 = puts font_address cause xs1;
            xs3 = puts font_address [CHR 0x22, CHR 0x0A] xs2
        in Halts xs3)"

text \<open>The handlers; \<open>None\<close> is a system call that does not return.\<close>

fun handler :: "addr \<Rightarrow> entry \<Rightarrow> uint32_t \<Rightarrow> thread_registers \<Rightarrow> console \<times> kstate \<Rightarrow> trap_outcome option" where
  "handler fa Bad_interrupt idle regs xs = Some (handle_exception fa idle regs ''bad interrupt'' xs)"
| "handler fa Bus_error idle regs xs = Some (handle_exception fa idle regs ''bus error'' xs)"
| "handler fa Address_error idle regs xs = Some (handle_exception fa idle regs ''address error'' xs)"
| "handler fa Illegal_instruction idle regs xs = Some (handle_exception fa idle regs ''illegal instruction'' xs)"
| "handler fa Division_by_zero idle regs xs = Some (handle_exception fa idle regs ''division by zero'' xs)"
| "handler fa Chk_out_of_bounds idle regs xs = Some (handle_exception fa idle regs ''CHK out of bounds'' xs)"
| "handler fa Trapv_overflow idle regs xs = Some (handle_exception fa idle regs ''TRAPV with overflow flag set'' xs)"
| "handler fa Privilege_violation idle regs xs = Some (handle_exception fa idle regs ''privilege violation'' xs)"
| "handler fa Trace idle regs xs = Some (handle_exception fa idle regs ''trace'' xs)"
| "handler fa Unimplemented_instruction_a idle regs xs =
     Some (handle_exception fa idle regs ''unimplemented instruction (line A)'' xs)"
| "handler fa Unimplemented_instruction_f idle regs xs =
     Some (handle_exception fa idle regs ''unimplemented instruction (line F)'' xs)"
| "handler fa Trap idle regs xs = map_option (\<lambda>(xs', regs'). Continues xs' regs') (console_trap fa idle regs xs)"

section \<open>The first thread (main.c)\<close>

record boot_environment =
  the_heap :: addr
  process_server :: addr
  unset_registers :: thread_registers
  idle_thread_address :: uint32_t

text \<open>From the thread that was allocated for the process server to the thread that is about to run, or a failure.\<close>

definition start_process_server :: "boot_environment \<Rightarrow> thread_registers \<Rightarrow> addr \<Rightarrow> kstate \<Rightarrow> (kstate \<times> bool) option" where
  "start_process_server env regs t s = do {
     let s1 = upd_thread t (\<lambda>x. x\<lparr>registers := regs\<rparr>) s;
     let s2 = resume_thread t EXEC_MODE_SUSPENDED s1;
     let s3 = heap_set_update_function t On_thread_moved s2;
     let s4 = s3\<lparr>caps := (caps s3)(t := zero_capability), res_links := (res_links s3)(t := zero_nc_link),
                 der_links := (der_links s3)(t := zero_nc_link)\<rparr>;
     let s5 = upd_cap t (\<lambda>c. c\<lparr>cap_handlers := Node_handlers\<rparr>) s4;
     (s6, node) \<leftarrow> alloc_node ROOT_CAP_SLOT_BITS s5;
     let s7 = upd_cap t (\<lambda>c. c\<lparr>cap_resource := node\<rparr>) s6;
     (if node = NULL then Some (s7, False)
      else
        let s8 = (upd_cap t (\<lambda>c. c\<lparr>cap_flags := CAP_FLAG_IS_HEAP_MANAGED OR CAP_FLAG_ORIGINAL, cap_access_rights := 255,
                     cap_heap := the_heap env,
                     cap_address := (cap_address c)\<lparr>aca_thread_id := thread_id (threads s7 t), aca_bucket_number := bucket_number (threads s7 t)\<rparr>\<rparr>) s7)
                   \<lparr>res_links := LIST_INIT_NO_CONTAINER (res_links s7) t\<rparr>;
            s9 = heap_unlock node (heap_set_update_capability node (cap_address (caps s8 t)) s8);
            s10 = (upd_thread t (\<lambda>x. x\<lparr>thread_flags := thread_flags x OR THREAD_CURRENTLY_RUNNING\<rparr>) s9)\<lparr>current_thread := t\<rparr>
        in Some (heap_unlock t s10, True))
   }"

text \<open>The capabilities the process server starts with. The address of the allocation is not checked.\<close>

definition give_first_capabilities :: "boot_environment \<Rightarrow> kstate \<Rightarrow> kstate option" where
  "give_first_capabilities env s = do {
     (s1, r) \<leftarrow> heap_alloc kernel_hooks s sizeof_address_space_capability;
     let s2 = s1\<lparr>heap_pointers := (heap_pointers s1)(r := the_heap env)\<rparr>;
     (s3, _) \<leftarrow> populate_capability_slot (the_heap env) 0 ROOT_CAP_SLOT_BITS r Address_space_handlers CAP_FLAG_IS_HEAP_MANAGED s2;
     (s4, _) \<leftarrow> populate_capability_slot (the_heap env) 1 ROOT_CAP_SLOT_BITS NULL Debug_handlers 0 s3;
     let s5 = upd_thread (current_thread s4) (\<lambda>x. x\<lparr>thread_flags := thread_flags x AND NOT THREAD_CURRENTLY_RUNNING\<rparr>) s4;
     Some (s5\<lparr>current_thread := NULL\<rparr>)
   }"

definition load_process_server :: "boot_environment \<Rightarrow> kstate \<Rightarrow> (kstate \<times> bool) option" where
  "load_process_server env s =
     (let s1 = init_scheduler (init_threads s); header = bflt_header_at (user_bytes s1) (process_server env) in
      if \<not> bflt_verify header then Some (s1, False)
      else do {
        (s2, allocation) \<leftarrow> heap_alloc kernel_hooks s1 (bflt_allocation_size header);
        (if allocation = NULL then Some (s2, False)
         else do {
           (m, regs) \<leftarrow> bflt_load (bflt_header_at (user_bytes s2) (process_server env)) (process_server env) allocation
                          (unset_registers env) (user_bytes s2);
           (s3, t) \<leftarrow> alloc_thread (s2\<lparr>user_bytes := m\<rparr>);
           (if t = NULL then Some (s3, False) else start_process_server env regs t s3)
         })
      })"

definition main_init :: "boot_environment \<Rightarrow> kstate \<Rightarrow> kstate option" where
  "main_init env s = do {
     (s1, started) \<leftarrow> load_process_server env s;
     (if started then give_first_capabilities env s1 else Some s1)
   }"

section \<open>User mode (user_mode_entry.c)\<close>

text \<open>The registers the processor returns from the kernel with; the upper half of the status register is clear.\<close>

definition enter_user_mode :: "boot_environment \<Rightarrow> kstate \<Rightarrow> kstate \<times> thread_registers" where
  "enter_user_mode env s =
     (case try_context_switch (idle_thread_address env) (unset_registers env) (s\<lparr>pending_context_switch := True\<rparr>) of
        (s1, regs) \<Rightarrow> (s1, regs\<lparr>status_register := status_register regs AND 0x00ff\<rparr>))"

section \<open>The Macintosh (mac-68000/main.c, hw.h)\<close>

definition MAC_VIA_BASE :: "memory \<Rightarrow> addr" where "MAC_VIA_BASE m = load_word 0x01d4 m"
definition MAC_SCC_WR_BASE :: "memory \<Rightarrow> addr" where "MAC_SCC_WR_BASE m = load_word 0x01dc m"
definition SOUND_BASE :: "memory \<Rightarrow> addr" where "SOUND_BASE m = load_word 0x0266 m"
definition MEM_TOP :: "memory \<Rightarrow> addr" where "MEM_TOP m = load_word 0x0108 m"
definition SOUND_LEN :: addr where "SOUND_LEN = 370"
definition STACK_SIZE :: addr where "STACK_SIZE = 4096"

text \<open>The writes to device registers that turn off interrupts, in their order.\<close>

definition quiet_devices :: "memory \<Rightarrow> (addr \<times> uint8_t) list" where
  "quiet_devices m =
     [(MAC_VIA_BASE m + 512 * 14, 0x7f), (MAC_VIA_BASE m + 512 * 13, 0xff),
      (MAC_SCC_WR_BASE m + 0, 9), (MAC_SCC_WR_BASE m + 0, 0xc0)]"

definition lock_video_memory :: "console \<Rightarrow> kstate \<Rightarrow> kstate option" where
  "lock_video_memory x s =
     heap_lock_existing_region (SCRN_BASE (user_bytes s)) (SCRN_BASE (user_bytes s) + video_memory_length x) s"

definition after_sp_set :: "boot_environment \<Rightarrow> console \<Rightarrow> kstate \<Rightarrow> (kstate \<times> thread_registers) option" where
  "after_sp_set env x s = do {
     s1 \<leftarrow> lock_video_memory x s;
     let sound = SOUND_BASE (user_bytes s1);
     s2 \<leftarrow> heap_lock_existing_region sound (sound + SOUND_LEN) s1;
     let offset = 0xfd00 - 0xa100;
     s3 \<leftarrow> (if sound AND 0xffff = 0xfd00 then heap_lock_existing_region (sound - offset) (sound - offset + SOUND_LEN) s2
            else if sound AND 0xffff = 0xa100 then heap_lock_existing_region (sound + offset) (sound + offset + SOUND_LEN) s2
            else Some s2);
     s4 \<leftarrow> main_init env s3;
     Some (enter_user_mode env s4)
   }"

text \<open>
  The entry point, with the state before it: the device writes it does and the processor state in which the
  first thread starts. The new stack is only an address.
\<close>

definition start ::
    "boot_environment \<Rightarrow> (entry \<Rightarrow> addr) \<Rightarrow> addr \<Rightarrow> uint16_t \<Rightarrow> uint16_t \<Rightarrow> kstate
      \<Rightarrow> ((addr \<times> uint8_t) list \<times> console \<times> addr \<times> kstate \<times> thread_registers) option" where
  "start env entry_address kernel_stop width height s = do {
     x \<leftarrow> init_console width height (user_bytes s) initial_console;
     let s1 = s\<lparr>user_bytes := init_vector_table entry_address (user_bytes s)\<rparr>;
     let writes = quiet_devices (user_bytes s1);
     s2 \<leftarrow> heap_init \<lparr>kernel_start = 0, kernel_end = kernel_stop, memory_start = 0, memory_end = MEM_TOP (user_bytes s1)\<rparr> s1;
     (s3, stack_region) \<leftarrow> heap_alloc kernel_hooks s2 STACK_SIZE;
     (s4, regs) \<leftarrow> after_sp_set env x s3;
     Some (writes, x, stack_region + STACK_SIZE, s4, regs)
   }"

end
