(* ===== verification/Console_Properties.thy ===== *)
theory Console_Properties
  imports Console
begin

unbundle bit_operations_syntax

text \<open>
  Properties of the console: the six drawing functions change exactly the pixels of one character cell, whatever
  the depth of the screen, and printing characters on the screen is what an abstract terminal does with
  a grid of characters, scrolling included.
\<close>

section \<open>One row of a character\<close>

text \<open>
  Bits are counted from the left end of a row. A function draws column \<open>q\<close> of characters when it changes
  the bits of that column, and no other bit of the memory, to the inverse of the pattern, each of whose first six
  bits is spread over the \<open>b\<close> bits of a pixel.
\<close>

definition bit_number :: "addr \<Rightarrow> nat \<Rightarrow> nat" where
  "bit_number offset j = 8 * unat offset + (7 - j)"

definition pattern_bit :: "nat \<Rightarrow> uint8_t \<Rightarrow> nat \<Rightarrow> bool" where
  "pattern_bit b pattern n \<longleftrightarrow> \<not> bit pattern (7 - n mod (6 * b) div b)"

definition draws :: "nat \<Rightarrow> nat \<Rightarrow> nat \<Rightarrow> (uint8_t \<Rightarrow> addr \<Rightarrow> memory \<Rightarrow> memory) \<Rightarrow> bool" where
  "draws b q start draw \<longleftrightarrow> (\<forall>g r m a j. j < 8 \<longrightarrow>
     bit (draw g (r + of_nat start) m a) j =
       (if bit_number (a - r) j div (6 * b) = q then pattern_bit b g (bit_number (a - r) j) else bit (m a) j))"

lemma less_8: "j < 8 \<Longrightarrow> P 0 \<Longrightarrow> P (Suc 0) \<Longrightarrow> P 2 \<Longrightarrow> P 3 \<Longrightarrow> P 4 \<Longrightarrow> P 5 \<Longrightarrow> P 6 \<Longrightarrow> P 7 \<Longrightarrow> P j" for j :: nat
proof -
  assume "j < 8"
  then have "j = 0 \<or> j = Suc 0 \<or> j = 2 \<or> j = 3 \<or> j = 4 \<or> j = 5 \<or> j = 6 \<or> j = 7" by arith
  then show "P 0 \<Longrightarrow> P (Suc 0) \<Longrightarrow> P 2 \<Longrightarrow> P 3 \<Longrightarrow> P 4 \<Longrightarrow> P 5 \<Longrightarrow> P 6 \<Longrightarrow> P 7 \<Longrightarrow> P j" by auto
qed

lemmas mask_bits = bit_or_iff bit_and_iff bit_not_iff bit_drop_bit_eq bit_push_bit_iff

lemma mono_bits:
  fixes v g :: uint8_t
  assumes "j < 8"
  shows "bit ((v AND 3) OR (NOT g AND 252)) j \<longleftrightarrow> (if 2 \<le> j then \<not> bit g j else bit v j)"
    "bit ((v AND 252) OR drop_bit 6 (NOT g)) j \<longleftrightarrow> (if j < 2 then \<not> bit g (j + 6) else bit v j)"
    "bit ((v AND 15) OR (push_bit 2 (NOT g) AND 240)) j \<longleftrightarrow> (if 4 \<le> j then \<not> bit g (j - 2) else bit v j)"
    "bit ((v AND 240) OR drop_bit 4 (NOT g)) j \<longleftrightarrow> (if j < 4 then \<not> bit g (j + 4) else bit v j)"
    "bit ((v AND 63) OR (push_bit 4 (NOT g) AND 192)) j \<longleftrightarrow> (if 6 \<le> j then \<not> bit g (j - 4) else bit v j)"
    "bit ((v AND 192) OR drop_bit 2 (NOT g)) j \<longleftrightarrow> (if j < 6 then \<not> bit g (j + 2) else bit v j)"
  subgoal by (rule less_8 [OF assms]) (simp_all add: mask_bits numeral_2_eq_2 [symmetric] del: push_bit_Suc)
  subgoal by (rule less_8 [OF assms]) (simp_all add: mask_bits numeral_2_eq_2 [symmetric] del: push_bit_Suc)
  subgoal by (rule less_8 [OF assms]) (simp_all add: mask_bits numeral_2_eq_2 [symmetric] del: push_bit_Suc)
  subgoal by (rule less_8 [OF assms]) (simp_all add: mask_bits numeral_2_eq_2 [symmetric] del: push_bit_Suc)
  subgoal by (rule less_8 [OF assms]) (simp_all add: mask_bits numeral_2_eq_2 [symmetric] del: push_bit_Suc)
  subgoal by (rule less_8 [OF assms]) (simp_all add: mask_bits numeral_2_eq_2 [symmetric] del: push_bit_Suc)
  done

lemma bits_2bpp:
  fixes v data :: uint8_t
  assumes "j < 8"
  shows "bit ((data AND 0b10000000) OR (drop_bit 1 data AND 0b01000000)
               OR (drop_bit 1 data AND 0b00100000) OR (drop_bit 2 data AND 0b00010000)
               OR (drop_bit 2 data AND 0b00001000) OR (drop_bit 3 data AND 0b00000100)
               OR (drop_bit 3 data AND 0b00000010) OR (drop_bit 4 data AND 0b00000001)) j \<longleftrightarrow> bit data (4 + j div 2)"
  "bit ((v AND 0x0f)
               OR (push_bit 4 data AND 0b10000000) OR (push_bit 3 data AND 0b01000000)
               OR (push_bit 3 data AND 0b00100000) OR (push_bit 2 data AND 0b00010000)) j \<longleftrightarrow> (if 4 \<le> j then bit data (j div 2) else bit v j)"
  "bit ((v AND 0xf0)
               OR (drop_bit 4 data AND 0b00001000) OR (drop_bit 5 data AND 0b00000100)
               OR (drop_bit 5 data AND 0b00000010) OR (drop_bit 6 data AND 0b00000001)) j \<longleftrightarrow> (if j < 4 then bit data (6 + j div 2) else bit v j)"
  "bit ((push_bit 2 data AND 0b10000000) OR (push_bit 1 data AND 0b01000000)
               OR (push_bit 1 data AND 0b00100000) OR (data AND 0b00010000)
               OR (data AND 0b00001000) OR (drop_bit 1 data AND 0b00000100)
               OR (drop_bit 1 data AND 0b00000010) OR (drop_bit 2 data AND 0b00000001)) j \<longleftrightarrow> bit data (2 + j div 2)"
  subgoal by (rule less_8 [OF assms]) (simp_all add: mask_bits numeral_2_eq_2 [symmetric] del: push_bit_Suc)
  subgoal by (rule less_8 [OF assms]) (simp_all add: mask_bits numeral_2_eq_2 [symmetric] del: push_bit_Suc)
  subgoal by (rule less_8 [OF assms]) (simp_all add: mask_bits numeral_2_eq_2 [symmetric] del: push_bit_Suc)
  subgoal by (rule less_8 [OF assms]) (simp_all add: mask_bits numeral_2_eq_2 [symmetric] del: push_bit_Suc)
  done
text \<open>The bytes of a group of characters, by their distance from the start of the row.\<close>

lemma at_offset:
  fixes a r :: addr
  assumes "s + i < 2 ^ 32"
  shows "a = r + of_nat s + of_nat i \<longleftrightarrow> unat (a - r) = s + i"
proof -
  have "a = r + of_nat s + of_nat i \<longleftrightarrow> a - r = of_nat (s + i)" by (auto simp: algebra_simps)
  also have "\<dots> \<longleftrightarrow> unat (a - r) = s + i" using assms by (simp add: word_unat_eq_iff unat_of_nat_32 del: of_nat_add)
  finally show ?thesis .
qed

lemma at_offsets:
  fixes a r :: addr
  assumes "s + 3 \<le> 2 ^ 32"
  shows "a = r + of_nat s \<longleftrightarrow> unat (a - r) = s" "a = r + of_nat s + 1 \<longleftrightarrow> unat (a - r) = s + 1"
    "a = r + of_nat s + 2 \<longleftrightarrow> unat (a - r) = s + 2"
  using at_offset [of s 0 a r] at_offset [of s 1 a r] at_offset [of s 2 a r] assms by simp_all

text \<open>Three bytes hold four, two or one characters; which of them a byte is decides which bits of it change.\<close>

lemma three_bytes:
  fixes a r :: addr
  assumes "3 * p + 3 \<le> 2 ^ 32"
  obtains (inside) i where "i < 3" "unat (a - r) = 3 * p + i" "a = r + of_nat (3 * p) + of_nat i"
  | (outside) "unat (a - r) < 3 * p \<or> 3 * p + 2 < unat (a - r)" "a \<noteq> r + of_nat (3 * p)" "a \<noteq> r + of_nat (3 * p) + 1" "a \<noteq> r + of_nat (3 * p) + 2"
proof (cases "unat (a - r) < 3 * p \<or> 3 * p + 2 < unat (a - r)")
  case True
  then show ?thesis using at_offsets [OF assms, of a r] outside by auto
next
  case False
  define i where "i = unat (a - r) - 3 * p"
  have i: "i < 3" "unat (a - r) = 3 * p + i" using False unfolding i_def by arith+
  then have "a = r + of_nat (3 * p) + of_nat i" using at_offset [of "3 * p" i a r] assms by simp
  with i show ?thesis by (rule inside)
qed

lemma byte_cases: "i < 3 \<Longrightarrow> c < 4 \<Longrightarrow> (i = 0 \<or> i = Suc 0 \<or> i = 2) \<and> (c = 0 \<or> c = Suc 0 \<or> c = 2 \<or> c = 3)" for i c :: nat
  by arith

lemma mono_byte:
  assumes "i < 3" and "c < 4"
  shows "mono_row (int c) g d m (d + of_nat i) = (let v = m (d + of_nat i) in
     if c = 0 \<and> i = 0 then (v AND 3) OR (NOT g AND 252)
     else if c = 1 \<and> i = 0 then (v AND 252) OR drop_bit 6 (NOT g)
     else if c = 1 \<and> i = 1 then (v AND 15) OR (push_bit 2 (NOT g) AND 240)
     else if c = 2 \<and> i = 1 then (v AND 240) OR drop_bit 4 (NOT g)
     else if c = 2 \<and> i = 2 then (v AND 63) OR (push_bit 4 (NOT g) AND 192)
     else if c = 3 \<and> i = 2 then (v AND 192) OR drop_bit 2 (NOT g) else v)"
  using byte_cases [OF assms] by (elim conjE disjE; hypsubst; simp add: mono_row_def Let_def)

lemma draws_bytes:
  assumes "3 * p + 3 \<le> 2 ^ 32" and "6 * b * per = 24" and "c < per"
    and byte: "\<And>g d m i j. i < 3 \<Longrightarrow> j < 8 \<Longrightarrow> bit (draw g d m (d + of_nat i)) j =
      (if (8 * i + (7 - j)) div (6 * b) = c then \<not> bit g (7 - (8 * i + (7 - j)) mod (6 * b) div b) else bit (m (d + of_nat i)) j)"
    and other: "\<And>g d m a. a \<noteq> d \<Longrightarrow> a \<noteq> d + 1 \<Longrightarrow> a \<noteq> d + 2 \<Longrightarrow> draw g d m a = m a"
  shows "draws b (per * p + c) (3 * p) draw"
  unfolding draws_def
proof (intro allI impI)
  fix g :: uint8_t and r a :: addr and m :: memory and j :: nat assume j: "j < 8"
  let ?d = "r + of_nat (3 * p)" and ?n = "bit_number (a - r) j"
  show "bit (draw g ?d m a) j = (if ?n div (6 * b) = per * p + c then pattern_bit b g ?n else bit (m a) j)"
  proof (rule three_bytes [OF assms(1), of a r])
    fix i assume i: "i < 3" "unat (a - r) = 3 * p + i" "a = ?d + of_nat i"
    have "6 * b * (per * p) = 24 * p" using assms(2) by (metis mult.assoc)
    then have n: "?n = (8 * i + (7 - j)) + 6 * b * (per * p)" by (simp add: bit_number_def i(2))
    have b: "6 * b \<noteq> 0" using assms(2) by (cases b) auto
    then have "?n div (6 * b) = per * p + (8 * i + (7 - j)) div (6 * b)" "?n mod (6 * b) = (8 * i + (7 - j)) mod (6 * b)"
      unfolding n by (simp_all only: div_mult_self2 mod_mult_self2 not_False_eq_True)
    then show ?thesis using byte [OF i(1) j, of g ?d m, folded i(3)] by (simp add: pattern_bit_def del: of_nat_mult)
  next
    assume o: "unat (a - r) < 3 * p \<or> 3 * p + 2 < unat (a - r)" "a \<noteq> ?d" "a \<noteq> ?d + 1" "a \<noteq> ?d + 2"
    have "?n div (6 * b) \<noteq> per * p + c"
    proof
      assume e: "?n div (6 * b) = per * p + c"
      have b: "0 < 6 * b" using assms(2) by (metis mult_0 neq0_conv zero_neq_numeral)
      have e1: "6 * b * (per * p + c) \<le> ?n" using times_div_less_eq_dividend [of "6 * b" ?n] by (simp only: e)
      have e2: "?n < 6 * b + 6 * b * (per * p + c)" using dividend_less_times_div [OF b, of ?n] by (simp only: e)
      have e3: "6 * b * (per * p + c) = 24 * p + 6 * b * c" using assms(2) by (metis distrib_left mult.assoc)
      have "6 * b * (c + 1) \<le> 6 * b * per" using assms(3) by (intro mult_le_mono2) simp
      then have "6 * b * c + 6 * b \<le> 24" using assms(2) by simp
      then have "24 * p \<le> ?n" "?n < 24 * p + 24" using e1 e2 unfolding e3 by linarith+
      then show False using o(1) j unfolding bit_number_def by arith
    qed
    then show ?thesis using other [OF o(2-4)] by simp
  qed
qed

lemma mono_draws:
  assumes "3 * p + 3 \<le> 2 ^ 32" and "c < 4"
  shows "draws 1 (4 * p + c) (3 * p) (mono_row (int c))"
proof (rule draws_bytes [OF assms(1)])
  fix g :: uint8_t and d :: addr and m :: memory and i j :: nat assume i: "i < 3" and j: "j < 8"
  show "bit (mono_row (int c) g d m (d + of_nat i)) j =
      (if (8 * i + (7 - j)) div (6 * 1) = c then \<not> bit g (7 - (8 * i + (7 - j)) mod (6 * 1) div 1) else bit (m (d + of_nat i)) j)"
    unfolding mono_byte [OF i assms(2)]
    by (insert byte_cases [OF i assms(2)], elim conjE disjE; hypsubst; rule less_8 [OF j];
        simp add: mono_bits Let_def numeral_2_eq_2 [symmetric] del: bit_0)
qed (use assms in \<open>simp_all add: mono_row_def Let_def\<close>)

lemma byte_2bpp:
  assumes "i < 3" and "c < 2"
  shows "color_row_2bpp (int c) g d m (d + of_nat i) = (let v = m (d + of_nat i); data = NOT g in
     if c = 0 \<and> i = 0 then (data AND 0b10000000) OR (drop_bit 1 data AND 0b01000000)
               OR (drop_bit 1 data AND 0b00100000) OR (drop_bit 2 data AND 0b00010000)
               OR (drop_bit 2 data AND 0b00001000) OR (drop_bit 3 data AND 0b00000100)
               OR (drop_bit 3 data AND 0b00000010) OR (drop_bit 4 data AND 0b00000001)
     else if c = 0 \<and> i = 1 then (v AND 0x0f)
               OR (push_bit 4 data AND 0b10000000) OR (push_bit 3 data AND 0b01000000)
               OR (push_bit 3 data AND 0b00100000) OR (push_bit 2 data AND 0b00010000)
     else if c = 1 \<and> i = 1 then (v AND 0xf0)
               OR (drop_bit 4 data AND 0b00001000) OR (drop_bit 5 data AND 0b00000100)
               OR (drop_bit 5 data AND 0b00000010) OR (drop_bit 6 data AND 0b00000001)
     else if c = 1 \<and> i = 2 then (push_bit 2 data AND 0b10000000) OR (push_bit 1 data AND 0b01000000)
               OR (push_bit 1 data AND 0b00100000) OR (data AND 0b00010000)
               OR (data AND 0b00001000) OR (drop_bit 1 data AND 0b00000100)
               OR (drop_bit 1 data AND 0b00000010) OR (drop_bit 2 data AND 0b00000001)
     else v)"
proof -
  have "(i = 0 \<or> i = Suc 0 \<or> i = 2) \<and> (c = 0 \<or> c = Suc 0)" using assms by arith
  then show ?thesis by (elim conjE disjE; hypsubst; simp add: color_row_2bpp_def Let_def)
qed

lemma draws_2bpp:
  assumes "3 * p + 3 \<le> 2 ^ 32" and "c < 2"
  shows "draws 2 (2 * p + c) (3 * p) (color_row_2bpp (int c))"
proof (rule draws_bytes [OF assms(1)])
  fix g :: uint8_t and d :: addr and m :: memory and i j :: nat assume i: "i < 3" and j: "j < 8"
  have cases: "(i = 0 \<or> i = Suc 0 \<or> i = 2) \<and> (c = 0 \<or> c = Suc 0)" using i assms(2) by arith
  have d: "bit (NOT g) k \<longleftrightarrow> \<not> bit g k" if "k < 8" for k using that by (simp add: bit_not_iff)
  show "bit (color_row_2bpp (int c) g d m (d + of_nat i)) j =
      (if (8 * i + (7 - j)) div (6 * 2) = c then \<not> bit g (7 - (8 * i + (7 - j)) mod (6 * 2) div 2) else bit (m (d + of_nat i)) j)"
    unfolding byte_2bpp [OF i assms(2)] Let_def if_distrib [where f = "\<lambda>x. bit x j"] bits_2bpp [OF j]
    by (insert cases, elim conjE disjE; hypsubst; rule less_8 [OF j]; simp add: d numeral_2_eq_2 [symmetric] del: bit_0)
qed (use assms in \<open>simp_all add: color_row_2bpp_def Let_def\<close>)

lemma draws_4bpp:
  assumes "3 * p + 3 \<le> 2 ^ 32"
  shows "draws 4 p (3 * p) color_row_4bpp"
proof -
  have "draws 4 (1 * p + 0) (3 * p) color_row_4bpp"
  proof (rule draws_bytes [OF assms])
    fix g :: uint8_t and d :: addr and m :: memory and i j :: nat assume i: "i < 3" and j: "j < 8"
    have cases: "i = 0 \<or> i = Suc 0 \<or> i = 2" using i by arith
    then have "color_row_4bpp g d m (d + of_nat i) = (if bit g (7 - 2 * i) then 0 else 0xf0) OR (if bit g (6 - 2 * i) then 0 else 0x0f)"
      by (elim disjE; hypsubst; simp add: color_row_4bpp_def)
    then show "bit (color_row_4bpp g d m (d + of_nat i)) j =
      (if (8 * i + (7 - j)) div (6 * 4) = 0 then \<not> bit g (7 - (8 * i + (7 - j)) mod (6 * 4) div 4) else bit (m (d + of_nat i)) j)"
      using cases by (elim disjE; hypsubst; insert j; elim less_8; simp add: bit_or_iff numeral_2_eq_2 [symmetric] del: bit_0)
  qed (simp_all add: color_row_4bpp_def add.commute)
  then show ?thesis by simp
qed

section \<open>Pixels of whole bytes\<close>

definition fill :: "nat \<Rightarrow> uint8_t \<Rightarrow> addr \<Rightarrow> memory \<Rightarrow> memory" where
  "fill s v p m = (\<lambda>a. if unat (a - p) < s then v else m a)"

lemma foldl_fill:
  assumes "0 < s" and "s * length cols \<le> 2 ^ 32"
  shows "snd (foldl (\<lambda>(pixel, m) col. (pixel + of_nat s, fill s (v col) pixel m)) (d, m) cols) a =
    (if unat (a - d) < s * length cols then v (cols ! (unat (a - d) div s)) else m a)"
  using assms(2)
proof (induction cols arbitrary: d m)
  case (Cons c cols)
  let ?k = "unat (a - d)" and ?k' = "unat (a - (d + of_nat s))"
  have IH: "snd (foldl (\<lambda>(pixel, m) col. (pixel + of_nat s, fill s (v col) pixel m)) (d, m) (c # cols)) a =
      (if ?k' < s * length cols then v (cols ! (?k' div s)) else fill s (v c) d m a)"
    using Cons by simp
  have e: "a - (d + of_nat s) = (a - d) - of_nat s" by (simp add: algebra_simps)
  have s: "s \<le> 2 ^ 32" "s * length cols + s \<le> 2 ^ 32" using Cons.prems by simp_all
  show ?case
  proof (cases "?k < s")
    case True
    have "\<not> ?k' < s * length cols"
    proof (cases "length cols = 0")
      case False
      then have "s < 2 ^ 32" using s(2) assms(1) by (cases "length cols") auto
      then show ?thesis using unat_minus_lt [of s "s * length cols" "a - d"] s(2) True unfolding e by simp
    qed simp
    then show ?thesis using True unfolding IH by (simp add: fill_def)
  next
    case False
    have "s < 2 ^ 32" using False unat_lt_2_32 [of "a - d"] by simp
    then have k: "?k' = ?k - s" unfolding e using False
      by (subst unat_minus_no_wrap) (simp_all add: word_le_nat_alt unat_of_nat_32)
    have "?k div s = Suc (?k' div s)" using False assms(1) unfolding k by (simp add: le_div_geq)
    then show ?thesis using False k unfolding IH by (auto simp: fill_def)
  qed
qed simp

lemma column_pattern: "i < 6 \<Longrightarrow> [7, 6, 5, 4, 3, 2] ! i = 7 - i" for i :: nat
proof -
  assume "i < 6"
  then have "i = 0 \<or> i = 1 \<or> i = 2 \<or> i = 3 \<or> i = 4 \<or> i = 5" by arith
  then show ?thesis by (elim disjE; hypsubst; simp)
qed

lemma mod_div_8: "n mod (8 * x) div 8 = n div 8 mod x" for n x :: nat
  by (simp add: mod_mult2_eq)

lemma draws_wide:
  assumes "6 * s * q + 6 * s \<le> 2 ^ 32" and "0 < s"
    and draw: "\<And>g d m. draw g d m = snd (foldl (\<lambda>(pixel, m) col. (pixel + of_nat s, fill s (if bit g col then 0 else 0xff) pixel m)) (d, m) [7, 6, 5, 4, 3, 2])"
  shows "draws (8 * s) q (6 * s * q) draw"
  unfolding draws_def
proof (intro allI impI)
  fix g :: uint8_t and r a :: addr and m :: memory and j :: nat assume j: "j < 8"
  let ?d = "r + of_nat (6 * s * q)" and ?n = "bit_number (a - r) j" and ?k = "unat (a - r)"
  have e: "a - ?d = (a - r) - of_nat (6 * s * q)" by (simp add: algebra_simps)
  have lt: "6 * s * q < 2 ^ 32" using assms(1,2) by linarith
  have in_cell: "unat (a - ?d) < 6 * s \<longleftrightarrow> ?k div (6 * s) = q"
    using unat_minus_lt [of "6 * s * q" "6 * s" "a - r"] assms(1,2) lt unfolding e
    by (metis add.commute div_nat_eqI div_less_iff_less_mult dividend_less_times_div le_refl mult.commute mult_Suc_right nat_0_less_mult_iff times_div_less_eq_dividend zero_less_numeral)
  have n: "?n div (6 * (8 * s)) = ?k div (6 * s)" "?n mod (6 * (8 * s)) div (8 * s) = ?k mod (6 * s) div s"
  proof -
    have e8: "6 * (8 * s) = 8 * (6 * s)" "?n div 8 = ?k" by (simp_all add: bit_number_def)
    then show "?n div (6 * (8 * s)) = ?k div (6 * s)" using div_mult2_eq [of ?n 8 "6 * s"] by simp
    have "?n mod (8 * (6 * s)) div (8 * s) = ?n mod (8 * (6 * s)) div 8 div s" by (rule div_mult2_eq)
    then show "?n mod (6 * (8 * s)) div (8 * s) = ?k mod (6 * s) div s" unfolding e8 mod_div_8 .
  qed
  have "s * length [7, 6, 5, 4, 3, 2 :: nat] \<le> 2 ^ 32" using assms(1) by simp
  from foldl_fill [OF assms(2) this, of "\<lambda>c. if bit g c then 0 else 0xff" ?d m a]
  have row: "draw g ?d m a = (if unat (a - ?d) < 6 * s then (if bit g ([7, 6, 5, 4, 3, 2] ! (unat (a - ?d) div s)) then 0 else 0xff) else m a)"
    unfolding draw [symmetric] by (simp only: list.size) (simp add: algebra_simps del: of_nat_mult of_nat_add)
  have "draw g ?d m a = (if ?k div (6 * s) = q then (if bit g (7 - ?k mod (6 * s) div s) then 0 else 0xff) else m a)"
  proof (cases "?k div (6 * s) = q")
    case True
    then have le: "6 * s * q \<le> ?k" by (metis times_div_less_eq_dividend)
    have "unat (a - ?d) = ?k - 6 * s * q" unfolding e using le lt
      by (subst unat_minus_no_wrap) (simp_all add: word_le_nat_alt unat_of_nat_32 del: of_nat_mult)
    also have "\<dots> = ?k mod (6 * s)" using True by (metis minus_mult_div_eq_mod)
    finally have u: "unat (a - ?d) = ?k mod (6 * s)" .
    have "?k mod (6 * s) div s < 6" using assms(2) by (simp add: div_less_iff_less_mult)
    moreover have "?k mod (6 * s) < 6 * s" using assms(2) by simp
    ultimately show ?thesis unfolding row u using True column_pattern by simp
  next
    case False
    then show ?thesis unfolding row in_cell by simp
  qed
  moreover have "bit (0xff :: uint8_t) j" using j by (rule less_8) simp_all
  ultimately show "bit (draw g ?d m a) j = (if ?n div (6 * (8 * s)) = q then pattern_bit (8 * s) g ?n else bit (m a) j)"
    unfolding pattern_bit_def n by simp
qed

lemma fill_stores:
  "m(p := v) = fill 1 v p m"
  "store_half p (if c then 0x0000 else 0xffff) m = fill 2 (if c then 0 else 0xff) p m"
  "store_word p (if c then 0x00000000 else 0xffffffff) m = fill 4 (if c then 0 else 0xff) p m"
proof -
  show "m(p := v) = fill 1 v p m" by (auto simp: fill_def fun_eq_iff unat_eq_0)
  have two: "unat x < 2 \<longleftrightarrow> x = 0 \<or> x = 1" for x :: addr by (auto simp: word_unat_eq_iff)
  have "half_bytes (if c then 0x0000 else 0xffff) ! 0 = (if c then 0 else 0xff)" "half_bytes (if c then 0x0000 else 0xffff) ! 1 = (if c then 0 else 0xff)"
    by (simp_all add: half_bytes_def)
  moreover have "a - p = 1 \<longleftrightarrow> a = p + 1" for a by (auto simp: algebra_simps)
  ultimately show "store_half p (if c then 0x0000 else 0xffff) m = fill 2 (if c then 0 else 0xff) p m"
    unfolding fill_def store_half_def two fun_eq_iff by simp
  have w: "word_bytes (if c then 0x00000000 else 0xffffffff) ! k = (if c then 0 else 0xff)" if "k < 4" for k
  proof -
    have "k = 0 \<or> k = 1 \<or> k = 2 \<or> k = 3" using that by arith
    then show ?thesis by (elim disjE; hypsubst; simp add: word_bytes_def)
  qed
  show "store_word p (if c then 0x00000000 else 0xffffffff) m = fill 4 (if c then 0 else 0xff) p m"
    unfolding fill_def store_word_apply by (simp only: w cong: if_cong)
qed

lemma draws_8bpp: "6 * q + 6 \<le> 2 ^ 32 \<Longrightarrow> draws 8 q (6 * q) color_row_8bpp"
  using draws_wide [of 1 q color_row_8bpp] by (simp add: color_row_8bpp_def fill_stores(1))

lemma draws_16bpp: "12 * q + 12 \<le> 2 ^ 32 \<Longrightarrow> draws 16 q (12 * q) color_row_16bpp"
  using draws_wide [of 2 q color_row_16bpp] unfolding color_row_16bpp_def fill_stores(2) by simp

lemma draws_32bpp: "24 * q + 24 \<le> 2 ^ 32 \<Longrightarrow> draws 32 q (24 * q) color_row_32bpp"
  using draws_wide [of 4 q color_row_32bpp] unfolding color_row_32bpp_def fill_stores(3) by simp

section \<open>All rows of a character\<close>

lemma draws_outside:
  assumes "draws b q start draw" and "0 < b" and "6 * b * (q + 1) \<le> 8 * rb" and "rb \<le> unat (a - r)"
  shows "draw g (r + of_nat start) m a = m a"
proof (rule bit_word_eqI)
  fix j assume "j < LENGTH(8)"
  then have j: "j < 8" by simp
  have "6 * b * (q + 1) \<le> bit_number (a - r) j" using assms(3,4) unfolding bit_number_def by linarith
  then have "q + 1 \<le> bit_number (a - r) j div (6 * b)" using assms(2) by (simp add: less_eq_div_iff_mult_less_eq mult.commute)
  then show "bit (draw g (r + of_nat start) m a) j = bit (m a) j" using assms(1) j unfolding draws_def by simp
qed

lemma next_row:
  fixes a r :: addr
  assumes "rb < 2 ^ 32" and "rb + n * rb \<le> 2 ^ 32"
  shows "unat (a - (r + of_nat rb)) < n * rb \<longleftrightarrow> rb \<le> unat (a - r) \<and> unat (a - r) < Suc n * rb"
    and "rb \<le> unat (a - r) \<Longrightarrow> unat (a - (r + of_nat rb)) = unat (a - r) - rb"
proof -
  have e: "a - (r + of_nat rb) = (a - r) - of_nat rb" by (simp add: algebra_simps)
  show "unat (a - (r + of_nat rb)) < n * rb \<longleftrightarrow> rb \<le> unat (a - r) \<and> unat (a - r) < Suc n * rb"
    unfolding e using unat_minus_lt [of rb "n * rb" "a - r"] assms by simp
  show "rb \<le> unat (a - r) \<Longrightarrow> unat (a - (r + of_nat rb)) = unat (a - r) - rb"
    unfolding e using assms(1) by (subst unat_minus_no_wrap) (simp_all add: word_le_nat_alt unat_of_nat_32)
qed

lemma glyph_rows_bits:
  assumes "draws b q start draw" and "0 < b" and "6 * b * (q + 1) \<le> 8 * rb" and "0 < rb" and "rb < 2 ^ 32"
    and "n * rb \<le> 2 ^ 32" and "\<And>i. i < n \<Longrightarrow> n * rb \<le> unat (src + of_nat i - r)" and "j < 8"
  shows "bit (glyph_rows draw n (of_nat rb) (r + of_nat start) src m a) j =
    (let k = unat (a - r); i = 8 * (k mod rb) + (7 - j) in
     if k < n * rb \<and> i div (6 * b) = q then pattern_bit b (m (src + of_nat (k div rb))) i else bit (m a) j)"
  using assms(6,7)
proof (induction n arbitrary: r src m)
  case (Suc n)
  let ?m = "draw (m src) (r + of_nat start) m" and ?k = "unat (a - r)" and ?k' = "unat (a - (r + of_nat rb))"
  have le: "rb + n * rb \<le> 2 ^ 32" using Suc.prems(1) by simp
  have far: "n * rb \<le> unat (src + 1 + of_nat i - (r + of_nat rb))" if "i < n" for i
  proof -
    have "Suc n * rb \<le> unat (src + of_nat (Suc i) - r)" using Suc.prems(2) [of "Suc i"] that by simp
    with next_row(1) [OF assms(5) le, of "src + of_nat (Suc i)" r] show ?thesis by (simp add: add.assoc)
  qed
  have same: "?m (src + 1 + of_nat i) = m (src + of_nat (Suc i))" if "i < n" for i
  proof -
    have "rb \<le> unat (src + of_nat (Suc i) - r)" using Suc.prems(2) [of "Suc i"] that by simp
    from draws_outside [OF assms(1-3) this] show ?thesis by (simp add: add.assoc)
  qed
  have e: "r + of_nat start + of_nat rb = r + of_nat rb + of_nat start" by (simp add: algebra_simps)
  have "bit (glyph_rows draw (Suc n) (of_nat rb) (r + of_nat start) src m a) j =
      (let i = 8 * (?k' mod rb) + (7 - j) in
       if ?k' < n * rb \<and> i div (6 * b) = q then pattern_bit b (?m (src + 1 + of_nat (?k' div rb))) i else bit (?m a) j)"
    unfolding glyph_rows.simps e using le far by (subst Suc.IH) (simp_all add: Let_def)
  also have "\<dots> = (let i = 8 * (?k mod rb) + (7 - j) in
       if ?k < Suc n * rb \<and> i div (6 * b) = q then pattern_bit b (m (src + of_nat (?k div rb))) i else bit (m a) j)"
  proof (cases "rb \<le> ?k")
    case True
    note k' = next_row(2) [OF assms(5) le True]
    have "?k div rb = Suc (?k' div rb)" "?k mod rb = ?k' mod rb" using True assms(4) unfolding k' by (simp_all add: le_div_geq le_mod_geq)
    moreover have "?k' div rb < n" if "?k' < n * rb" using that by (simp add: less_mult_imp_div_less)
    moreover have "?k' < n * rb \<longleftrightarrow> ?k < Suc n * rb" using next_row(1) [OF assms(5) le, of a r] True by simp
    ultimately show ?thesis using draws_outside [OF assms(1-3) True] same by (auto simp: Let_def)
  next
    case False
    then have "\<not> ?k' < n * rb" "?k < Suc n * rb" "?k mod rb = ?k" "?k div rb = 0" using next_row(1) [OF assms(5) le, of a r] by auto
    then show ?thesis using assms(1,8) unfolding draws_def bit_number_def by (simp add: Let_def)
  qed
  finally show ?case by (simp add: Let_def)
qed simp

section \<open>The six functions draw one cell\<close>

fun bpp_of :: "putchar_function \<Rightarrow> nat" where
  "bpp_of Mono = 1" | "bpp_of Color_2bpp = 2" | "bpp_of Color_4bpp = 4" | "bpp_of Color_8bpp = 8"
| "bpp_of Color_16bpp = 16" | "bpp_of Color_32bpp = 32"

text \<open>Rows of screens with pixels of several bytes are a whole number of pixels long.\<close>

fun rows_aligned :: "putchar_function \<Rightarrow> nat \<Rightarrow> bool" where
  "rows_aligned Color_16bpp rb \<longleftrightarrow> 2 dvd rb"
| "rows_aligned Color_32bpp rb \<longleftrightarrow> 4 dvd rb"
| "rows_aligned _ rb \<longleftrightarrow> True"

definition row_length :: "console \<Rightarrow> nat" where "row_length x = unat (row_bytes x)"

lemma row_bytes_word: "(ucast (row_bytes x) :: addr) = of_nat (row_length x)" "uint (row_bytes x) = int (row_length x)"
  and row_length_less: "row_length x < 2 ^ 16"
  using unsigned_less [of "row_bytes x"] by (simp_all add: row_length_def word_unat_eq_iff unsigned_ucast_eq unat_of_nat take_bit_eq_mod)

lemma row_bytes_aligned:
  assumes "n dvd row_length x" and "0 < n" and "n < 2 ^ 32"
  shows "(ucast (row_bytes x) :: addr) div of_nat n * of_nat n = of_nat (row_length x)"
proof -
  have "row_length x < 2 ^ 32" using row_length_less [of x] by simp
  then have "(of_nat (row_length x) :: addr) div of_nat n = of_nat (row_length x div n)"
    using assms by (simp add: word_arith_nat_div unat_of_nat_32)
  then show ?thesis unfolding row_bytes_word using assms(1) by (metis dvd_div_mult_self of_nat_mult)
qed

lemma call_putchar_rows:
  assumes "console_x x = int X" and "console_y x = int Y" and "rows_aligned f (row_length x)" and "3 * (X + 1) * bpp_of f \<le> 2 ^ 31"
  obtains start draw where "draws (bpp_of f) X start draw"
    "call_putchar f font_address x c m = glyph_rows draw 11 (of_nat (row_length x))
       (SCRN_BASE m + of_nat (Y * 11 * row_length x) + of_nat start) (char_data font_address c) m"
proof -
  have e4: "4 * (X div 4) + X mod 4 = X" and e2: "2 * (X div 2) + X mod 2 = X" by simp_all
  have b: "3 * (X div 4) + 3 \<le> 2 ^ 32" "3 * (X div 2) + 3 \<le> 2 ^ 32" if "3 * (X + 1) \<le> 2 ^ 31" using that by simp_all
  have w: "word_of_int (int X div 4) = (of_nat (X div 4) :: addr)" "word_of_int (int X div 2) = (of_nat (X div 2) :: addr)"
    by (metis of_int_of_nat_eq of_nat_numeral zdiv_int)+
  note defs = mono_putchar_def color_putchar_2bpp_def color_putchar_4bpp_def color_putchar_8bpp_def
    color_putchar_16bpp_def color_putchar_32bpp_def FONT_HEIGHT_def FONT_WIDTH_def assms(1,2) row_bytes_word
  show ?thesis
  proof (cases f)
    case Mono
    with mono_draws [OF b(1), of "X mod 4"] assms(4) show ?thesis
      by (intro that [of "3 * (X div 4)" "mono_row (int (X mod 4))"]) (simp_all add: defs e4 w zmod_int algebra_simps)
  next
    case Color_2bpp
    with draws_2bpp [OF b(2), of "X mod 2"] assms(4) show ?thesis
      by (intro that [of "3 * (X div 2)" "color_row_2bpp (int (X mod 2))"]) (simp_all add: defs e2 w zmod_int algebra_simps)
  next
    case Color_4bpp
    with draws_4bpp [of X] assms(4) show ?thesis
      by (intro that [of "3 * X" color_row_4bpp]) (simp_all add: defs algebra_simps)
  next
    case Color_8bpp
    with draws_8bpp [of X] assms(4) show ?thesis
      by (intro that [of "6 * X" color_row_8bpp]) (simp_all add: defs algebra_simps)
  next
    case Color_16bpp
    with draws_16bpp [of X] assms(3,4) row_bytes_aligned [of 2 x] show ?thesis
      by (intro that [of "12 * X" color_row_16bpp]) (simp_all add: defs algebra_simps)
  next
    case Color_32bpp
    with draws_32bpp [of X] assms(3,4) row_bytes_aligned [of 4 x] show ?thesis
      by (intro that [of "24 * X" color_row_32bpp]) (simp_all add: defs algebra_simps)
  qed
qed

definition columns :: "console \<Rightarrow> nat" where "columns x = unat (screen_width x) div 6"
definition lines :: "console \<Rightarrow> nat" where "lines x = unat (screen_height x) div 11"

definition printable :: "uint8_t \<Rightarrow> bool" where
  "printable c \<longleftrightarrow> 32 \<le> c \<and> c \<le> 126"

definition glyph :: "uint8_t \<Rightarrow> nat \<Rightarrow> uint8_t" where
  "glyph c i = font ! ((unat c - 32) * 11 + i)"

text \<open>A screen as \<open>init_console\<close> sets it up, with room for at least one character.\<close>

definition geometry :: "console \<Rightarrow> bool" where
  "geometry x \<longleftrightarrow> (case putchar_fn x of None \<Rightarrow> False
      | Some f \<Rightarrow> unat (screen_width x) * bpp_of f \<le> 8 * row_length x \<and> rows_aligned f (row_length x))
     \<and> 6 \<le> unat (screen_width x) \<and> 11 \<le> unat (screen_height x)
     \<and> unat (console_height x) = lines x * 11 \<and> unat (video_memory_length x) = row_length x * unat (screen_height x)"

text \<open>The memory of the screen holds neither the font nor the variable with its address.\<close>

definition display :: "addr \<Rightarrow> console \<Rightarrow> memory \<Rightarrow> bool" where
  "display fa x m \<longleftrightarrow> geometry x \<and> unat (SCRN_BASE m) + row_length x * unat (screen_height x) < 2 ^ 32
     \<and> (\<forall>i < 1045. m (fa + of_nat i) = font ! i \<and> row_length x * unat (screen_height x) \<le> unat (fa + of_nat i - SCRN_BASE m))
     \<and> (\<forall>i < 4. row_length x * unat (screen_height x) \<le> unat (0x824 + of_nat i - SCRN_BASE m))"

lemma below_div: "i < n div k \<Longrightarrow> (i + 1) * k \<le> n" for i n k :: nat
  by (metis Suc_eq_plus1 Suc_leI div_times_less_eq_dividend le_trans mult_le_mono1)

lemma cell_fits:
  assumes "geometry x" and "putchar_fn x = Some f" and "X < columns x"
  shows "6 * bpp_of f * (X + 1) \<le> 8 * row_length x" and "0 < bpp_of f" and "0 < row_length x"
    and "3 * (X + 1) * bpp_of f \<le> 2 ^ 31"
proof -
  have w: "unat (screen_width x) * bpp_of f \<le> 8 * row_length x" using assms(1,2) by (simp add: geometry_def)
  have "(X + 1) * 6 \<le> unat (screen_width x)" using assms(3) unfolding columns_def by (rule below_div)
  then have "6 * (X + 1) \<le> unat (screen_width x)" by (simp only: mult.commute)
  then have "6 * (X + 1) * bpp_of f \<le> unat (screen_width x) * bpp_of f" by (rule mult_le_mono1)
  then have "6 * (X + 1) * bpp_of f \<le> 8 * row_length x" using w by (rule order_trans)
  then show a: "6 * bpp_of f * (X + 1) \<le> 8 * row_length x" by (simp only: ac_simps)
  show b: "0 < bpp_of f" by (cases f) simp_all
  then show "0 < row_length x" using a by (cases "row_length x") auto
  have "3 * (X + 1) * bpp_of f \<le> 6 * bpp_of f * (X + 1)" by (simp add: algebra_simps)
  also have "\<dots> \<le> 2 ^ 31" using a row_length_less [of x] by simp
  finally show "3 * (X + 1) * bpp_of f \<le> 2 ^ 31" .
qed

lemma char_data_printable:
  assumes "printable c" and "i < 11"
  shows "char_data fa c + of_nat i = fa + of_nat ((unat c - 32) * 11 + i)" and "(unat c - 32) * 11 + i < 1045"
proof -
  have c: "32 \<le> unat c" "unat c \<le> 126" using assms(1) by (simp_all add: printable_def word_le_nat_alt)
  have u: "uint c = int (unat c)" by simp
  then have "uint c \<le> 126" using c(2) by linarith
  moreover have "- 128 \<le> uint c" by (rule order_trans [OF _ unsigned_greater_eq]) simp
  ultimately have "signed_take_bit 7 (uint c) = uint c" by (intro signed_take_bit_int_eq_self) simp_all
  moreover have "sint c = signed_take_bit 7 (uint c)" by (simp add: sint_uint)
  ultimately have "sint c = int (unat c)" using u by (simp only:)
  then have "(sint c - 32) * 11 = int ((unat c - 32) * 11)" using c(1) by (simp add: of_nat_diff)
  then show "char_data fa c + of_nat i = fa + of_nat ((unat c - 32) * 11 + i)"
    unfolding char_data_def FONT_HEIGHT_def by (simp only: of_int_of_nat_eq of_nat_add add.assoc)
  show "(unat c - 32) * 11 + i < 1045" using c assms(2) by linarith
qed

lemma in_line:
  assumes "0 < rb"
  shows "Y * 11 * rb \<le> k \<and> k < Y * 11 * rb + 11 * rb \<longleftrightarrow> k div rb div 11 = (Y :: nat)"
proof -
  have e: "k div rb div 11 = k div (rb * 11)" by (simp add: div_mult2_eq)
  have r: "0 < rb * 11" using assms by simp
  have "k div (rb * 11) = Y" if "Y * 11 * rb \<le> k" "k < Y * 11 * rb + 11 * rb"
    using that by (intro div_nat_eqI) (simp_all add: algebra_simps)
  moreover have "Y * 11 * rb \<le> k \<and> k < Y * 11 * rb + 11 * rb" if "k div (rb * 11) = Y"
    using times_div_less_eq_dividend [of "rb * 11" k] dividend_less_times_div [OF r, of k] unfolding that by (simp add: algebra_simps)
  ultimately show ?thesis unfolding e by blast
qed

lemma call_putchar_cell:
  assumes "display fa x m" and "putchar_fn x = Some f" and "console_x x = int X" and "console_y x = int Y"
    and "X < columns x" and "Y < lines x" and "printable c" and "j < 8"
  shows "bit (call_putchar f fa x c m a) j =
    (let k = unat (a - SCRN_BASE m); y = k div row_length x; n = 8 * (k mod row_length x) + (7 - j) in
     if y div 11 = Y \<and> n div (6 * bpp_of f) = X then pattern_bit (bpp_of f) (glyph c (y mod 11)) n else bit (m a) j)"
proof -
  let ?rb = "row_length x" and ?base = "SCRN_BASE m" and ?h = "unat (screen_height x)"
  define r where "r = ?base + of_nat (Y * 11 * ?rb)"
  have g: "geometry x" "rows_aligned f ?rb" and d: "unat ?base + ?rb * ?h < 2 ^ 32"
    "\<And>i. i < 1045 \<Longrightarrow> m (fa + of_nat i) = font ! i \<and> ?rb * ?h \<le> unat (fa + of_nat i - ?base)"
    using assms(1,2) by (auto simp: display_def geometry_def)
  note fits = cell_fits [OF g(1) assms(2,5)]
  have "(Y + 1) * 11 \<le> ?h" using assms(6) unfolding lines_def by (rule below_div)
  then have "(Y + 1) * 11 * ?rb \<le> ?h * ?rb" by (rule mult_le_mono1)
  moreover have "(Y + 1) * 11 * ?rb = Y * 11 * ?rb + 11 * ?rb" "?h * ?rb = ?rb * ?h" by (simp_all add: algebra_simps)
  ultimately have le: "Y * 11 * ?rb + 11 * ?rb \<le> ?rb * ?h" by (simp only:)
  then have lt: "Y * 11 * ?rb + 11 * ?rb \<le> 2 ^ 32" by (rule order_trans) (use d(1) in simp)
  then have lt': "Y * 11 * ?rb < 2 ^ 32" by (rule less_le_trans [rotated]) (use fits(3) in simp)
  have inside: "unat (b - r) < 11 * ?rb \<longleftrightarrow> Y * 11 * ?rb \<le> unat (b - ?base) \<and> unat (b - ?base) < Y * 11 * ?rb + 11 * ?rb" for b
    using unat_minus_lt [OF lt lt', of "b - ?base"] by (simp add: r_def diff_diff_eq)
  obtain start draw where draw: "draws (bpp_of f) X start draw"
    "call_putchar f fa x c m = glyph_rows draw 11 (of_nat ?rb) (r + of_nat start) (char_data fa c) m"
    by (rule call_putchar_rows [OF assms(3,4) g(2) fits(4), of fa c m]) (simp add: r_def)
  have far: "11 * ?rb \<le> unat (char_data fa c + of_nat i - r)" if "i < 11" for i
    using inside [of "char_data fa c + of_nat i"] le d(2) [OF char_data_printable(2) [OF assms(7) that]]
    unfolding char_data_printable(1) [OF assms(7) that] by linarith
  have g': "m (char_data fa c + of_nat i) = glyph c i" if "i < 11" for i
    unfolding char_data_printable(1) [OF assms(7) that] glyph_def using d(2) [OF char_data_printable(2) [OF assms(7) that]] by blast
  let ?k = "unat (a - ?base)" and ?K = "unat (a - r)"
  have "bit (call_putchar f fa x c m a) j = (let i = 8 * (?K mod ?rb) + (7 - j) in
     if ?K < 11 * ?rb \<and> i div (6 * bpp_of f) = X then pattern_bit (bpp_of f) (m (char_data fa c + of_nat (?K div ?rb))) i else bit (m a) j)"
    unfolding draw(2) using glyph_rows_bits [OF draw(1) fits(2,1,3) _ _ far assms(8), of m a] row_length_less [of x] by (simp add: Let_def)
  moreover have "?K < 11 * ?rb \<longleftrightarrow> ?k div ?rb div 11 = Y" unfolding inside by (rule in_line [OF fits(3)])
  moreover have "?K mod ?rb = ?k mod ?rb \<and> ?K div ?rb = ?k div ?rb mod 11" if "?K < 11 * ?rb"
  proof -
    have le: "Y * 11 * ?rb \<le> ?k" using that inside by blast
    have "?K = ?k - Y * 11 * ?rb" unfolding r_def diff_diff_eq [symmetric] using le lt'
      by (subst unat_minus_no_wrap) (simp_all add: word_le_nat_alt unat_of_nat_32 del: of_nat_mult)
    then have k: "?k = ?K + Y * 11 * ?rb" using le by simp
    have "?K div ?rb < 11" using that by (simp add: less_mult_imp_div_less)
    then show ?thesis unfolding k using fits(3) by simp
  qed
  moreover have "?k div ?rb mod 11 < 11" by simp
  ultimately show ?thesis using g' by (cases "?K < 11 * ?rb") (simp_all add: Let_def)
qed

section \<open>Bits of the screen\<close>

definition screen_bit :: "console \<Rightarrow> addr \<Rightarrow> memory \<Rightarrow> nat \<Rightarrow> nat \<Rightarrow> bool" where
  "screen_bit x base m y n \<longleftrightarrow> bit (m (base + of_nat (y * row_length x + n div 8))) (7 - n mod 8)"

definition on_screen :: "console \<Rightarrow> nat \<Rightarrow> nat \<Rightarrow> bool" where
  "on_screen x y n \<longleftrightarrow> y < unat (screen_height x) \<and> n < 8 * row_length x"

text \<open>The part of the memory that is not the screen.\<close>

definition off_screen :: "console \<Rightarrow> addr \<Rightarrow> addr \<Rightarrow> bool" where
  "off_screen x base a \<longleftrightarrow> row_length x * unat (screen_height x) \<le> unat (a - base)"

lemma screen_offset:
  assumes "on_screen x y n"
  shows "y * row_length x + n div 8 < row_length x * unat (screen_height x)"
    and "(y * row_length x + n div 8) div row_length x = y" and "(y * row_length x + n div 8) mod row_length x = n div 8"
proof -
  have n: "n div 8 < row_length x" and y: "y < unat (screen_height x)" using assms by (auto simp: on_screen_def)
  have "y * row_length x + n div 8 < (y + 1) * row_length x" using n by simp
  also have "\<dots> \<le> unat (screen_height x) * row_length x" using y by (intro mult_le_mono1) simp
  finally show "y * row_length x + n div 8 < row_length x * unat (screen_height x)" by (simp only: mult.commute)
  show "(y * row_length x + n div 8) div row_length x = y" "(y * row_length x + n div 8) mod row_length x = n div 8"
    using n by simp_all
qed

lemma displayD:
  assumes "display fa x m"
  shows "geometry x" and "unat (SCRN_BASE m) + row_length x * unat (screen_height x) < 2 ^ 32"
  using assms by (simp_all add: display_def)

lemma unat_screen_offset:
  assumes "display fa x m" and "on_screen x y n"
  shows "unat (SCRN_BASE m + of_nat (y * row_length x + n div 8) - SCRN_BASE m) = y * row_length x + n div 8"
proof -
  have "y * row_length x + n div 8 < 2 ^ 32" using screen_offset(1) [OF assms(2)] displayD(2) [OF assms(1)] by linarith
  then show ?thesis by (simp add: unat_of_nat_32 del: of_nat_add of_nat_mult)
qed

text \<open>What is off the screen decides where the screen is and what the characters look like.\<close>

lemma display_keeps:
  assumes "display fa x m" and "\<And>a. off_screen x (SCRN_BASE m) a \<Longrightarrow> m' a = m a"
    and "x' = x\<lparr>console_x := cx, console_y := cy\<rparr>"
  shows "SCRN_BASE m' = SCRN_BASE m" and "display fa x' m'"
proof -
  show base: "SCRN_BASE m' = SCRN_BASE m"
    unfolding SCRN_BASE_def using assms(1) by (intro load_word_cong assms(2)) (simp add: off_screen_def display_def)
  have "geometry x'" using displayD(1) [OF assms(1)] unfolding assms(3)
    by (simp add: geometry_def row_length_def lines_def cong: option.case_cong)
  moreover have "m' (fa + of_nat i) = m (fa + of_nat i)" if "i < 1045" for i
    using assms(1) that by (intro assms(2)) (simp add: off_screen_def display_def)
  ultimately show "display fa x' m'" using assms(1) unfolding display_def base by (simp add: assms(3) row_length_def)
qed

lemma call_putchar_screen:
  assumes "display fa x m" and "putchar_fn x = Some f" and "console_x x = int X" and "console_y x = int Y"
    and "X < columns x" and "Y < lines x" and "printable c"
  shows "on_screen x y n \<Longrightarrow> screen_bit x (SCRN_BASE m) (call_putchar f fa x c m) y n =
      (if y div 11 = Y \<and> n div (6 * bpp_of f) = X then pattern_bit (bpp_of f) (glyph c (y mod 11)) n
       else screen_bit x (SCRN_BASE m) m y n)"
    and "off_screen x (SCRN_BASE m) a \<Longrightarrow> call_putchar f fa x c m a = m a"
proof -
  assume on: "on_screen x y n"
  have n: "8 * (n div 8) + (7 - (7 - n mod 8)) = n" "7 - n mod 8 < 8" by simp_all
  show "screen_bit x (SCRN_BASE m) (call_putchar f fa x c m) y n =
      (if y div 11 = Y \<and> n div (6 * bpp_of f) = X then pattern_bit (bpp_of f) (glyph c (y mod 11)) n
       else screen_bit x (SCRN_BASE m) m y n)"
    using call_putchar_cell [OF assms n(2), of "SCRN_BASE m + of_nat (y * row_length x + n div 8)"]
    unfolding screen_bit_def Let_def unat_screen_offset [OF assms(1) on] screen_offset(2,3) [OF on] n(1) .
next
  assume off: "off_screen x (SCRN_BASE m) a"
  show "call_putchar f fa x c m a = m a"
  proof (rule bit_word_eqI)
    fix j assume "j < LENGTH(8)"
    then have j: "j < 8" by simp
    have "\<not> unat (a - SCRN_BASE m) div row_length x div 11 = Y"
    proof
      assume "unat (a - SCRN_BASE m) div row_length x div 11 = Y"
      then have "unat (a - SCRN_BASE m) < Y * 11 * row_length x + 11 * row_length x"
        using in_line [OF cell_fits(3) [OF displayD(1) [OF assms(1)] assms(2,5)]] by blast
      also have "\<dots> = (Y + 1) * 11 * row_length x" by (simp add: algebra_simps)
      also have "\<dots> \<le> unat (screen_height x) * row_length x"
        using assms(6) unfolding lines_def by (intro mult_le_mono1 below_div)
      finally show False using off unfolding off_screen_def by (simp add: mult.commute)
    qed
    then show "bit (call_putchar f fa x c m a) j = bit (m a) j"
      using call_putchar_cell [OF assms j] by (simp add: Let_def)
  qed
qed

section \<open>Scrolling\<close>

definition scrolled :: "console \<Rightarrow> memory \<Rightarrow> memory" where
  "scrolled x m =
     (let d = of_int (uint (row_bytes x) * FONT_HEIGHT);
          m1 = fst (memmove (SCRN_BASE m) (SCRN_BASE m + d) (video_memory_length x - d) m)
      in fst (memset (SCRN_BASE m1 + video_memory_length x - d) 0xff d m1))"

lemma newline_cases:
  assumes "geometry x" and "console_y x = int Y"
  shows "newline x m = (if Y + 1 < lines x then (x\<lparr>console_x := 0, console_y := int (Y + 1)\<rparr>, m)
    else (x\<lparr>console_x := 0, console_y := int (lines x - 1)\<rparr>, scrolled x m))"
proof -
  have "unat (console_height x) = lines x * 11" and l: "1 \<le> lines x" using assms(1) by (auto simp: geometry_def lines_def)
  then have "uint (console_height x) = int (lines x * 11)" by (simp only: uint_nat)
  then have "uint (console_height x) div 11 = int (lines x)" by simp
  then show ?thesis using l by (auto simp: newline_def Let_def FONT_HEIGHT_def scrolled_def assms(2) of_nat_diff)
qed

lemma scrolled_bytes:
  assumes "display fa x m"
  defines "v \<equiv> row_length x * unat (screen_height x)" and "d \<equiv> 11 * row_length x"
  shows "scrolled x m a = (if unat (a - SCRN_BASE m) + d < v then m (a + of_nat d) else if unat (a - SCRN_BASE m) < v then 0xff else m a)"
proof -
  let ?base = "SCRN_BASE m" and ?k = "unat (a - SCRN_BASE m)"
  have g: "unat (video_memory_length x) = v" "11 \<le> unat (screen_height x)" and b: "unat ?base + v < 2 ^ 32"
    using assms(1) by (simp_all add: display_def geometry_def v_def)
  have dv: "d \<le> v" unfolding d_def v_def using g(2) by (simp add: mult.commute)
  have vl: "video_memory_length x = of_nat v" using g(1) by (metis unat_of_nat_32 word_unat_eq_iff unat_lt_2_32)
  have ud: "unat (of_nat d :: addr) = d" "unat (of_nat v :: addr) = v" "unat (of_nat (v - d) :: addr) = v - d"
    by (rule unat_of_nat_32, use b dv in linarith)+
  have mvd: "of_int (uint (row_bytes x) * FONT_HEIGHT) = (of_nat d :: addr)"
    by (simp add: FONT_HEIGHT_def row_bytes_word d_def mult.commute)
  have len: "video_memory_length x - of_nat d = of_nat (v - d)" using dv by (simp add: vl of_nat_diff del: of_nat_mult)
  define m1 where "m1 = copy_range ?base (?base + of_nat d) (of_nat (v - d)) m"
  have u: "unat (?base + of_nat d) = unat ?base + d" using b dv by (intro unat_plus_of_nat) linarith
  have mv: "fst (memmove ?base (?base + of_nat d) (of_nat (v - d)) m) = m1"
    using memcpy_range [of ?base "of_nat (v - d)" "?base + of_nat d" m] b dv unfolding memmove_def m1_def u ud by simp
  have m1: "m1 b = (if unat (b - ?base) + d < v then m (b + of_nat d) else m b)" for b
    unfolding m1_def copy_range_def word_less_nat_alt ud using dv by (simp add: add.commute add.left_commute less_diff_conv)
  have same: "SCRN_BASE m1 = ?base" unfolding SCRN_BASE_def
  proof (rule load_word_cong)
    fix i :: nat assume "i < 4"
    then have "v \<le> unat (0x824 + of_nat i - ?base)" using assms(1) by (simp add: display_def v_def)
    then show "m1 (0x824 + of_nat i) = m (0x824 + of_nat i)" unfolding m1 by simp
  qed
  have e: "?base + video_memory_length x - of_nat d = ?base + of_nat (v - d)" using len by (metis add_diff_eq)
  have inr: "a - (?base + of_nat (v - d)) < of_nat d \<longleftrightarrow> v - d \<le> ?k \<and> ?k < v"
    using unat_minus_lt [of "v - d" d "a - ?base"] b dv unfolding word_less_nat_alt ud diff_diff_eq [symmetric] by simp
  have "scrolled x m a = (if v - d \<le> ?k \<and> ?k < v then 0xff else m1 a)"
    unfolding scrolled_def Let_def mvd len mv same e memset_range fill_range_def fst_conv inr by simp
  then show ?thesis using dv unfolding m1 by auto
qed

lemma scrolled_screen:
  assumes "display fa x m"
  shows "on_screen x y n \<Longrightarrow> screen_bit x (SCRN_BASE m) (scrolled x m) y n \<longleftrightarrow>
      (y + 11 < unat (screen_height x) \<longrightarrow> screen_bit x (SCRN_BASE m) m (y + 11) n)"
    and "off_screen x (SCRN_BASE m) a \<Longrightarrow> scrolled x m a = m a"
proof -
  let ?rb = "row_length x" and ?h = "unat (screen_height x)"
  assume on: "on_screen x y n"
  let ?k = "y * ?rb + n div 8"
  have n: "n div 8 < ?rb" "7 - n mod 8 < 8" using on by (auto simp: on_screen_def)
  have "y + 11 < ?h \<longleftrightarrow> ?k + 11 * ?rb < ?rb * ?h"
  proof
    assume "y + 11 < ?h"
    then have "(y + 12) * ?rb \<le> ?h * ?rb" by (intro mult_le_mono1) simp
    then show "?k + 11 * ?rb < ?rb * ?h" using n(1) by (simp add: algebra_simps)
  next
    assume "?k + 11 * ?rb < ?rb * ?h"
    then have "(y + 11) * ?rb < ?h * ?rb" by (simp add: algebra_simps)
    then show "y + 11 < ?h" by simp
  qed
  moreover have e: "SCRN_BASE m + of_nat ?k + of_nat (11 * ?rb) = SCRN_BASE m + of_nat ((y + 11) * ?rb + n div 8)"
    by (simp add: algebra_simps)
  moreover have "bit (0xff :: uint8_t) (7 - n mod 8)" using n(2) by (rule less_8) simp_all
  ultimately show "screen_bit x (SCRN_BASE m) (scrolled x m) y n \<longleftrightarrow>
      (y + 11 < ?h \<longrightarrow> screen_bit x (SCRN_BASE m) m (y + 11) n)"
    using screen_offset(1) [OF on] unfolding screen_bit_def scrolled_bytes [OF assms] unat_screen_offset [OF assms on] e
    by (simp del: of_nat_add of_nat_mult)
next
  assume "off_screen x (SCRN_BASE m) a"
  then show "scrolled x m a = m a" unfolding scrolled_bytes [OF assms] off_screen_def by simp
qed

section \<open>The console is a terminal\<close>

text \<open>The abstract terminal: a character in every cell, and the cell the next one goes to.\<close>

record terminal =
  cells :: "nat \<Rightarrow> nat \<Rightarrow> uint8_t"
  term_x :: nat
  term_y :: nat

definition term_newline :: "nat \<Rightarrow> terminal \<Rightarrow> terminal" where
  "term_newline l t =
     (if term_y t + 1 < l then t\<lparr>term_x := 0, term_y := term_y t + 1\<rparr>
      else t\<lparr>cells := (\<lambda>r. if r + 1 < l then cells t (r + 1) else (\<lambda>q. 32)), term_x := 0, term_y := l - 1\<rparr>)"

definition type_char :: "nat \<Rightarrow> nat \<Rightarrow> uint8_t \<Rightarrow> terminal \<Rightarrow> terminal" where
  "type_char c l ch t =
     (if ch = 10 then term_newline l t
      else
        let t' = t\<lparr>cells := (cells t)(term_y t := (cells t (term_y t))(term_x t := ch)), term_x := term_x t + 1\<rparr>
        in if term_x t' \<ge> c then term_newline l t' else t')"

text \<open>
  What is on the screen: the characters of the terminal, and below the last line, where less than a line is
  left, the background.
\<close>

definition picture :: "console \<Rightarrow> addr \<Rightarrow> memory \<Rightarrow> terminal \<Rightarrow> bool" where
  "picture x base m t \<longleftrightarrow> (case putchar_fn x of None \<Rightarrow> False | Some f \<Rightarrow>
     (\<forall>y n. on_screen x y n \<and> n div (6 * bpp_of f) < columns x \<longrightarrow>
        screen_bit x base m y n =
          (y div 11 < lines x \<longrightarrow> pattern_bit (bpp_of f) (glyph (cells t (y div 11) (n div (6 * bpp_of f))) (y mod 11)) n)))"

definition cursor :: "console \<Rightarrow> terminal \<Rightarrow> bool" where
  "cursor x t \<longleftrightarrow> console_x x = int (term_x t) \<and> console_y x = int (term_y t) \<and> term_x t < columns x \<and> term_y t < lines x"

lemma glyph_space:
  assumes "i < 11"
  shows "glyph 32 i = 0"
proof -
  have "take 11 font = replicate 11 0" by code_simp
  then have "take 11 font ! i = 0" using assms by simp
  then show ?thesis using assms by (simp add: glyph_def)
qed

lemma picture_cursor [simp]: "picture x base m (t\<lparr>term_x := a\<rparr>) = picture x base m t" "picture x base m (t\<lparr>term_y := a\<rparr>) = picture x base m t"
  by (simp_all add: picture_def split: option.split)

lemma same_screen:
  assumes "x' = x\<lparr>console_x := cx, console_y := cy\<rparr>"
  shows "columns x' = columns x" "lines x' = lines x" "on_screen x' = on_screen x" "screen_bit x' = screen_bit x"
    "off_screen x' = off_screen x" "putchar_fn x' = putchar_fn x" "picture x' = picture x"
  by (simp_all add: assms columns_def lines_def on_screen_def screen_bit_def off_screen_def picture_def row_length_def fun_eq_iff
      cong: option.case_cong)

lemma picture_scrolled:
  assumes "display fa x m" and "picture x (SCRN_BASE m) m t" and "\<not> term_y t + 1 < lines x"
  shows "picture x (SCRN_BASE m) (scrolled x m) (term_newline (lines x) t)"
proof -
  let ?h = "unat (screen_height x)" and ?l = "lines x"
  obtain f where f: "putchar_fn x = Some f" using assms(2) by (auto simp: picture_def split: option.splits)
  have h: "?l * 11 \<le> ?h" "?h < ?l * 11 + 11" unfolding lines_def
    using div_times_less_eq_dividend [of ?h 11] dividend_less_div_times [of 11 ?h] by simp_all
  have old: "screen_bit x (SCRN_BASE m) m y n =
      (y div 11 < ?l \<longrightarrow> pattern_bit (bpp_of f) (glyph (cells t (y div 11) (n div (6 * bpp_of f))) (y mod 11)) n)"
    if "on_screen x y n" "n div (6 * bpp_of f) < columns x" for y n
    using assms(2) that by (simp add: picture_def f)
  have blank: "pattern_bit b (glyph 32 (y mod 11)) n" for b y n by (simp add: glyph_space pattern_bit_def)
  have "screen_bit x (SCRN_BASE m) (scrolled x m) y n =
      (y div 11 < ?l \<longrightarrow> pattern_bit (bpp_of f) (glyph (cells (term_newline ?l t) (y div 11) (n div (6 * bpp_of f))) (y mod 11)) n)"
    if on: "on_screen x y n" "n div (6 * bpp_of f) < columns x" for y n
  proof (cases "y + 11 < ?h")
    case True
    then have on': "on_screen x (y + 11) n" using on(1) by (simp add: on_screen_def)
    have e: "(y + 11) div 11 = y div 11 + 1" "(y + 11) mod 11 = y mod 11" by simp_all
    have "y < ?l * 11" using True h(2) by linarith
    then have "y div 11 < ?l" by (simp add: less_mult_imp_div_less)
    then show ?thesis using scrolled_screen(1) [OF assms(1) on(1)] True old [OF on' on(2)] assms(3) blank unfolding e
      by (auto simp: term_newline_def)
  next
    case False
    have "y div 11 + 1 < ?l \<Longrightarrow> False"
    proof -
      assume "y div 11 + 1 < ?l"
      then have "(y + 11) div 11 < ?l" by simp
      then have "y + 11 < ?l * 11" by (simp add: div_less_iff_less_mult)
      then show False using False h(1) by simp
    qed
    then show ?thesis using scrolled_screen(1) [OF assms(1) on(1)] False assms(3) blank by (auto simp: term_newline_def)
  qed
  then show ?thesis by (simp add: picture_def f)
qed

lemma newline_refines:
  assumes "display fa x m" and "picture x (SCRN_BASE m) m t" and "console_y x = int (term_y t)" and "term_y t < lines x"
    and "newline x m = (x', m')"
  shows "display fa x' m' \<and> SCRN_BASE m' = SCRN_BASE m \<and> picture x' (SCRN_BASE m) m' (term_newline (lines x) t) \<and> cursor x' (term_newline (lines x) t)
    \<and> (\<exists>cx cy. x' = x\<lparr>console_x := cx, console_y := cy\<rparr>) \<and> (\<forall>a. off_screen x (SCRN_BASE m) a \<longrightarrow> m' a = m a)"
proof -
  have g: "geometry x" using displayD(1) [OF assms(1)] .
  have c: "0 < columns x" using g unfolding geometry_def columns_def by (simp add: div_greater_zero_iff)
  show ?thesis
  proof (cases "term_y t + 1 < lines x")
    case True
    then have x': "x' = x\<lparr>console_x := 0, console_y := int (term_y t + 1)\<rparr>" "m' = m"
      using assms(5) unfolding newline_cases [OF g assms(3)] by simp_all
    show ?thesis using display_keeps(2) [OF assms(1) _ x'(1), of m] assms(2) True c same_screen [OF x'(1)] x'
      by (auto simp: term_newline_def cursor_def)
  next
    case False
    then have x': "x' = x\<lparr>console_x := 0, console_y := int (lines x - 1)\<rparr>" "m' = scrolled x m"
      using assms(5) unfolding newline_cases [OF g assms(3)] by simp_all
    note keep = display_keeps [OF assms(1) scrolled_screen(2) [OF assms(1)] x'(1)]
    show ?thesis using keep picture_scrolled [OF assms(1,2) False] scrolled_screen(2) [OF assms(1)] False c assms(4) same_screen [OF x'(1)] x'
      by (auto simp: term_newline_def cursor_def)
  qed
qed

lemma picture_typed:
  assumes "display fa x m" and "picture x (SCRN_BASE m) m t" and "cursor x t" and "printable c" and "putchar_fn x = Some f"
  shows "picture x (SCRN_BASE m) (call_putchar f fa x c m) (t\<lparr>cells := (cells t)(term_y t := (cells t (term_y t))(term_x t := c))\<rparr>)"
proof -
  have c: "console_x x = int (term_x t)" "console_y x = int (term_y t)" "term_x t < columns x" "term_y t < lines x"
    using assms(3) by (simp_all add: cursor_def)
  note draw = call_putchar_screen(1) [OF assms(1,5) c assms(4)]
  show ?thesis unfolding picture_def assms(5) option.case
  proof (intro allI impI)
    fix y n assume on: "on_screen x y n \<and> n div (6 * bpp_of f) < columns x"
    then have "screen_bit x (SCRN_BASE m) m y n =
        (y div 11 < lines x \<longrightarrow> pattern_bit (bpp_of f) (glyph (cells t (y div 11) (n div (6 * bpp_of f))) (y mod 11)) n)"
      using assms(2) by (simp add: picture_def assms(5))
    with draw on c(4) show "screen_bit x (SCRN_BASE m) (call_putchar f fa x c m) y n =
        (y div 11 < lines x \<longrightarrow> pattern_bit (bpp_of f)
          (glyph (cells (t\<lparr>cells := (cells t)(term_y t := (cells t (term_y t))(term_x t := c))\<rparr>) (y div 11) (n div (6 * bpp_of f))) (y mod 11)) n)"
      by auto
  qed
qed

lemma putchar_refines:
  assumes "display fa x m" and "picture x (SCRN_BASE m) m t" and "cursor x t" and "c = 10 \<or> printable c"
    and "putchar fa c x m = (x', m')"
  shows "display fa x' m' \<and> SCRN_BASE m' = SCRN_BASE m \<and> picture x' (SCRN_BASE m) m' (type_char (columns x) (lines x) c t)
    \<and> cursor x' (type_char (columns x) (lines x) c t)
    \<and> (\<exists>cx cy. x' = x\<lparr>console_x := cx, console_y := cy\<rparr>) \<and> (\<forall>a. off_screen x (SCRN_BASE m) a \<longrightarrow> m' a = m a)"
proof (cases "c = 10")
  case True
  then show ?thesis using newline_refines [OF assms(1,2), of x' m'] assms(3,5)
    by (simp add: putchar_def type_char_def cursor_def)
next
  case False
  then have p: "printable c" using assms(4) by simp
  obtain f where f: "putchar_fn x = Some f" using displayD(1) [OF assms(1)] by (auto simp: geometry_def split: option.splits)
  have c: "console_x x = int (term_x t)" "console_y x = int (term_y t)" "term_x t < columns x" "term_y t < lines x"
    using assms(3) by (simp_all add: cursor_def)
  define m1 where "m1 = call_putchar f fa x c m"
  define x1 where "x1 = x\<lparr>console_x := int (term_x t + 1), console_y := console_y x\<rparr>"
  define t1 where "t1 = t\<lparr>cells := (cells t)(term_y t := (cells t (term_y t))(term_x t := c)), term_x := term_x t + 1\<rparr>"
  have keep: "m1 a = m a" if "off_screen x (SCRN_BASE m) a" for a
    unfolding m1_def using that by (rule call_putchar_screen(2) [OF assms(1) f c p])
  have d: "SCRN_BASE m1 = SCRN_BASE m" "display fa x1 m1"
    by (rule display_keeps [OF assms(1) _ x1_def]; rule keep; assumption)+
  note s = same_screen [OF x1_def]
  have "picture x (SCRN_BASE m) m1 t1" using picture_typed [OF assms(1-3) p f] by (simp add: t1_def m1_def)
  then have pic: "picture x1 (SCRN_BASE m1) m1 t1" unfolding s(7) d(1) .
  have w: "uint (screen_width x) div FONT_WIDTH = int (columns x)"
    by (simp add: columns_def FONT_WIDTH_def zdiv_int)
  have step: "putchar fa c x m = (if term_x t + 1 \<ge> columns x then newline x1 m1 else (x1, m1))"
  proof -
    have x1: "x\<lparr>console_x := console_x x + 1\<rparr> = x1" by (simp add: x1_def c(1))
    have "console_x x1 = int (term_x t + 1)" by (simp add: x1_def)
    then have "console_x x1 \<ge> int (columns x) \<longleftrightarrow> term_x t + 1 \<ge> columns x" by (simp only: of_nat_le_iff)
    then show ?thesis using False by (simp add: putchar_def f m1_def [symmetric] Let_def w x1)
  qed
  have t: "type_char (columns x) (lines x) c t = (if term_x t + 1 \<ge> columns x then term_newline (lines x) t1 else t1)"
    using False by (simp add: type_char_def t1_def)
  show ?thesis
  proof (cases "term_x t + 1 \<ge> columns x")
    case True
    have "console_y x1 = int (term_y t1)" "term_y t1 < lines x1" using c by (simp_all add: x1_def t1_def lines_def)
    from newline_refines [OF d(2) pic this, of x' m'] True assms(5) step t d(1) s keep show ?thesis
      by (auto simp: x1_def)
  next
    case no: False
    then have "x' = x1" "m' = m1" using assms(5) step by simp_all
    moreover have "cursor x1 t1" using no c s by (simp add: cursor_def x1_def t1_def)
    moreover have "\<exists>cx cy. x1 = x\<lparr>console_x := cx, console_y := cy\<rparr>" unfolding x1_def by blast
    ultimately show ?thesis using no t d pic keep by simp
  qed
qed

text \<open>
  C19: the six functions that draw a character do the same at every depth of the screen: in the cell
  that the cursor is at, each of the six times eleven pixels gets the inverse of its bit in the font, in all of
  the 1 to 32 bits it has; every other bit of the screen and all other memory stays as it was.
\<close>

theorem putchar_functions_draw_cell:
  assumes "display fa x m" and "putchar_fn x = Some f" and "console_x x = int X" and "console_y x = int Y"
    and "X < columns x" and "Y < lines x" and "printable c"
  shows "(on_screen x y n \<longrightarrow> screen_bit x (SCRN_BASE m) (call_putchar f fa x c m) y n =
      (if y div 11 = Y \<and> n div (6 * bpp_of f) = X then pattern_bit (bpp_of f) (glyph c (y mod 11)) n
       else screen_bit x (SCRN_BASE m) m y n))
    \<and> (off_screen x (SCRN_BASE m) a \<longrightarrow> call_putchar f fa x c m a = m a)"
  using call_putchar_screen [OF assms] by blast

text \<open>Strings off the screen.\<close>

definition text_at :: "memory \<Rightarrow> addr \<Rightarrow> uint8_t list \<Rightarrow> bool" where
  "text_at m a s \<longleftrightarrow> (\<forall>i < length s. m (a + of_nat i) = s ! i \<and> s ! i \<noteq> 0) \<and> m (a + of_nat (length s)) = 0"

definition safe_text :: "console \<Rightarrow> addr \<Rightarrow> addr \<Rightarrow> uint8_t list \<Rightarrow> bool" where
  "safe_text x base a s \<longleftrightarrow> (\<forall>i \<le> length s. off_screen x base (a + of_nat i)) \<and> list_all (\<lambda>c. c = 10 \<or> printable c) s"

lemma text_at_Cons: "text_at m a (c # s) \<longleftrightarrow> m a = c \<and> c \<noteq> 0 \<and> text_at m (a + 1) s"
  unfolding text_at_def by (auto simp: All_less_Suc2 add.assoc)

lemma safe_text_Cons: "safe_text x base a (c # s) \<longleftrightarrow> off_screen x base a \<and> (c = 10 \<or> printable c) \<and> safe_text x base (a + 1) s"
proof -
  have "(\<forall>i \<le> Suc n. P i) \<longleftrightarrow> P 0 \<and> (\<forall>i \<le> n. P (Suc i))" for P and n :: nat
    by (metis Suc_le_mono le0 not0_implies_Suc)
  then show ?thesis by (auto simp: safe_text_def add.assoc)
qed

lemma debug_print_loop_refines:
  assumes "display fa x m" and "picture x (SCRN_BASE m) m t" and "cursor x t"
    and "text_at m a s" and "safe_text x (SCRN_BASE m) a s"
  shows "\<exists>x' m'. debug_print_loop fa a x m = Some (x', m') \<and> display fa x' m' \<and> (\<exists>cx cy. x' = x\<lparr>console_x := cx, console_y := cy\<rparr>)
    \<and> picture x' (SCRN_BASE m) m' (fold (type_char (columns x) (lines x)) s t) \<and> cursor x' (fold (type_char (columns x) (lines x)) s t)
    \<and> (\<forall>b. off_screen x (SCRN_BASE m) b \<longrightarrow> m' b = m b)"
  using assms
proof (induction s arbitrary: a x m t)
  case Nil
  then have "m a = 0" by (simp add: text_at_def)
  moreover have "\<exists>cx cy. x = x\<lparr>console_x := cx, console_y := cy\<rparr>" by (intro exI [of _ "console_x x"] exI [of _ "console_y x"]) simp
  ultimately show ?case using Nil by (subst debug_print_loop.simps) auto
next
  case (Cons c s)
  let ?t = "type_char (columns x) (lines x) c t"
  have c: "m a = c" "c \<noteq> 0" "text_at m (a + 1) s" "c = 10 \<or> printable c" "safe_text x (SCRN_BASE m) (a + 1) s"
    using Cons.prems(4,5) by (auto simp: text_at_Cons safe_text_Cons)
  obtain x1 m1 where p: "putchar fa c x m = (x1, m1)" by fastforce
  from putchar_refines [OF Cons.prems(1-3) c(4) p] obtain cx cy where
    r: "display fa x1 m1" "SCRN_BASE m1 = SCRN_BASE m" "picture x1 (SCRN_BASE m1) m1 ?t" "cursor x1 ?t"
      "x1 = x\<lparr>console_x := cx, console_y := cy\<rparr>" and keep: "\<And>b. off_screen x (SCRN_BASE m) b \<Longrightarrow> m1 b = m b"
    by auto
  note s = same_screen [OF r(5)]
  have "text_at m1 (a + 1) s" "safe_text x1 (SCRN_BASE m1) (a + 1) s"
    using c(3,5) keep r(2) by (auto simp: text_at_def safe_text_def s)
  from Cons.IH [OF r(1,3,4) this] obtain x' m' dx dy where
    "debug_print_loop fa (a + 1) x1 m1 = Some (x', m')" "display fa x' m'" "x' = x1\<lparr>console_x := dx, console_y := dy\<rparr>"
    "picture x' (SCRN_BASE m1) m' (fold (type_char (columns x1) (lines x1)) s ?t)" "cursor x' (fold (type_char (columns x1) (lines x1)) s ?t)"
    "\<forall>b. off_screen x1 (SCRN_BASE m1) b \<longrightarrow> m' b = m1 b" by blast
  moreover from this(3) have "\<exists>cx cy. x' = x\<lparr>console_x := cx, console_y := cy\<rparr>" by (auto simp: r(5))
  ultimately show ?case using c(1,2) p r(2) keep
    by (subst debug_print_loop.simps) (auto simp: s)
qed

text \<open>
  C8: printing a string through the debug capability shows it on the screen. For a screen of any depth
  that shows the characters of a terminal, and a string of printable characters and line ends that is not
  on the screen itself, \<open>debug_print\<close> comes to an end and returns 0; then the screen shows what the
  terminal shows after it got the string, with lines that wrap and scroll, the cursor is where the
  terminal's is, within the screen, and memory off the screen is as before.
\<close>

theorem debug_print_shows_text:
  assumes "display fa x m" and "picture x (SCRN_BASE m) m t" and "cursor x t"
    and "text_at m a s" and "safe_text x (SCRN_BASE m) a s"
  shows "\<exists>x' m'. debug_print fa a x m = Some (0, x', m') \<and> display fa x' m'
    \<and> picture x' (SCRN_BASE m) m' (fold (type_char (columns x) (lines x)) s t) \<and> cursor x' (fold (type_char (columns x) (lines x)) s t)
    \<and> (\<forall>b. off_screen x (SCRN_BASE m) b \<longrightarrow> m' b = m b)"
  using debug_print_loop_refines [OF assms] by (fastforce simp: debug_print_def)

section \<open>Setting up\<close>

text \<open>\<open>init_console\<close> sets up a screen as the other functions need it, whenever it finds a function for its depth.\<close>

lemma init_console_geometry:
  assumes "init_console w h m x0 = Some x" and "putchar_fn x0 = None" and "putchar_fn x = Some f"
    and "rows_aligned f (row_length x)" and "6 \<le> unat w" and "11 \<le> unat h"
  shows "geometry x \<and> columns x = unat w div 6 \<and> lines x = unat h div 11"
proof -
  define rb where "rb = (if SCREEN_ROW m = 0xffff then w div 8 else SCREEN_ROW m)"
  define bpp where "bpp = (of_int (uint rb * 8 div uint w) :: uint16_t)"
  have x: "screen_width x = w" "screen_height x = h" "row_bytes x = rb" "console_height x = of_int (uint h div 11 * 11)"
    "video_memory_length x = of_int (uint rb * uint h)"
    and f: "bpp = of_nat (bpp_of f)"
    using assms(1-3) unfolding init_console_def Let_def rb_def [symmetric] bpp_def [symmetric] FONT_HEIGHT_def
    by (auto split: if_splits)
  have i: "uint rb * 8 div uint w = int (unat rb * 8 div unat w)" "uint h div 11 * 11 = int (unat h div 11 * 11)"
    "uint rb * uint h = int (unat rb * unat h)"
    by (simp_all add: zdiv_int)
  have "unat bpp = (unat rb * 8 div unat w) mod 2 ^ 16"
    unfolding bpp_def i by (simp only: of_int_of_nat_eq unat_of_nat) simp
  moreover have "unat bpp = bpp_of f" unfolding f by (cases f) simp_all
  ultimately have "bpp_of f \<le> unat rb * 8 div unat w" by (metis mod_less_eq_dividend)
  then have "bpp_of f * unat w \<le> unat rb * 8" by (metis div_times_less_eq_dividend le_trans mult_le_mono1)
  moreover have "unat h < 2 ^ 16" "unat rb < 2 ^ 16" using unsigned_less [of h] unsigned_less [of rb] by simp_all
  then have "unat (console_height x) = unat h div 11 * 11"
    unfolding x i of_int_of_nat_eq unat_of_nat using div_times_less_eq_dividend [of "unat h" 11]
    by (intro mod_less) simp
  moreover have "unat rb * unat h \<le> (2 ^ 16 - 1) * (2 ^ 16 - 1)"
    using \<open>unat h < 2 ^ 16\<close> \<open>unat rb < 2 ^ 16\<close> by (intro mult_le_mono) simp_all
  then have "unat (video_memory_length x) = unat rb * unat h"
    unfolding x i of_int_of_nat_eq by (intro unat_of_nat_32) simp
  ultimately show ?thesis using assms(3-6)
    by (simp add: geometry_def row_length_def lines_def columns_def x mult.commute)
qed

section \<open>A small screen\<close>

definition demo_console :: console where
  "demo_console = \<lparr>console_x = 0, console_y = 0, screen_width = 16, screen_height = 23, console_height = 22, row_bytes = 2,
     video_memory_length = 46, bits_per_pixel = 1, putchar_fn = Some Mono\<rparr>"

definition demo_text :: "uint8_t list" where "demo_text = [72, 10]"

definition demo_memory :: memory where
  "demo_memory = (\<lambda>a. if unat (a - 0x1000) < 1045 then font ! unat (a - 0x1000)
     else if unat (a - 0x824) < 4 then [0, 1, 0, 0] ! unat (a - 0x824)
     else if unat (a - 0x5000) < 3 then [72, 10, 0] ! unat (a - 0x5000) else 0xff)"

definition demo_terminal :: terminal where
  "demo_terminal = \<lparr>cells = (\<lambda>r q. 32), term_x = 0, term_y = 0\<rparr>"

lemma demo_base: "SCRN_BASE demo_memory = 0x10000"
  by (simp add: SCRN_BASE_def load_word_def demo_memory_def bytes_word_def)

lemma demo_screen:
  "row_length demo_console = 2" "unat (screen_height demo_console) = 23" "columns demo_console = 2" "lines demo_console = 2"
  "geometry demo_console"
  by (simp_all add: geometry_def row_length_def columns_def lines_def demo_console_def)

lemma far_from_screen: "k < 0x8000 \<Longrightarrow> 46 \<le> unat (of_nat k - 0x10000 :: addr)"
  using unat_minus_lt [of "0x10000" 46 "of_nat k"] by (simp add: unat_of_nat_32)

lemma demo_display: "display 0x1000 demo_console demo_memory"
proof -
  have f: "demo_memory (0x1000 + of_nat i) = font ! i" if "i < 1045" for i
    using that by (simp add: demo_memory_def unat_of_nat_32)
  have "46 \<le> unat (0x1000 + of_nat i - 0x10000 :: addr)" if "i < 1045" for i
    using far_from_screen [of "0x1000 + i"] that by simp
  moreover have "46 \<le> unat (0x824 + of_nat i - 0x10000 :: addr)" if "i < 4" for i
    using far_from_screen [of "0x824 + i"] that by simp
  ultimately show ?thesis unfolding display_def demo_screen(1,2) demo_base using f demo_screen(5) by simp
qed

lemma demo_picture: "picture demo_console (SCRN_BASE demo_memory) demo_memory demo_terminal"
proof -
  have "demo_memory (0x10000 + of_nat k) = 0xff" if "k < 46" for k
  proof -
    have "\<not> unat (0x10000 + of_nat k - of_nat b :: addr) < c" if "b + c \<le> 0x8000" for b c
      using that \<open>k < 46\<close> unat_minus_lt [of b c "of_nat (0x10000 + k)"] by (simp add: unat_of_nat_32 del: of_nat_add) simp
    from this [of "0x1000" 1045] this [of "0x824" 4] this [of "0x5000" 3] show ?thesis by (simp add: demo_memory_def)
  qed
  moreover have "bit (0xff :: uint8_t) (7 - n mod 8)" for n by (rule less_8 [of "7 - n mod 8"]) simp_all
  ultimately have "screen_bit demo_console 0x10000 demo_memory y n" if "on_screen demo_console y n" for y n
    using screen_offset(1) [OF that] unfolding screen_bit_def demo_screen by (simp del: of_nat_add of_nat_mult)
  then show ?thesis unfolding demo_base picture_def
    by (auto simp: demo_console_def demo_terminal_def glyph_space pattern_bit_def)
qed

theorem putchar_functions_draw_cell_witness:
  "screen_bit demo_console 0x10000 (call_putchar Mono 0x1000 demo_console 72 demo_memory) 2 0 \<longleftrightarrow> pattern_bit 1 (glyph 72 2) 0"
proof -
  have d: "putchar_fn demo_console = Some Mono" "console_x demo_console = int 0" "console_y demo_console = int 0"
    "0 < columns demo_console" "0 < lines demo_console" "printable 72" "on_screen demo_console 2 0"
    by (simp_all add: demo_screen on_screen_def printable_def) (simp_all add: demo_console_def)
  from putchar_functions_draw_cell [OF demo_display d(1-6), of 2 0 0] d(7) show ?thesis by (simp add: demo_base)
qed

theorem debug_print_shows_text_witness:
  "\<exists>x' m'. debug_print 0x1000 0x5000 demo_console demo_memory = Some (0, x', m') \<and> console_x x' = 0 \<and> console_y x' = 1"
proof -
  have "cursor demo_console demo_terminal" unfolding cursor_def demo_screen by (simp add: demo_console_def demo_terminal_def)
  moreover have "text_at demo_memory 0x5000 demo_text"
    by (simp add: text_at_Cons demo_text_def) (simp add: text_at_def demo_memory_def)
  moreover have "safe_text demo_console (SCRN_BASE demo_memory) 0x5000 demo_text"
    using far_from_screen [of "0x5000"] far_from_screen [of "0x5001"] far_from_screen [of "0x5002"]
    by (simp add: safe_text_Cons demo_text_def) (simp add: safe_text_def demo_base off_screen_def demo_screen printable_def)
  moreover have "fold (type_char 2 2) demo_text demo_terminal = \<lparr>cells = (\<lambda>r q. 32)(0 := (\<lambda>q. 32)(0 := 72)), term_x = 0, term_y = 1\<rparr>"
    by (simp add: demo_text_def demo_terminal_def type_char_def term_newline_def)
  ultimately show ?thesis using debug_print_shows_text [OF demo_display demo_picture]
    unfolding demo_screen by (fastforce simp: cursor_def)
qed

end
