(* ===== verification/Boot_Properties.thy ===== *)
theory Boot_Properties
  imports Boot Console_Properties
begin

unbundle bit_operations_syntax

text \<open>
  Properties of start-up and exceptions: every vector leads to its handler, the panic message appears
  on the screen, the process server is loaded and made the only thread that can run, and without it the
  kernel idles.
\<close>

section \<open>Vectors\<close>

definition vector_entry :: "nat \<Rightarrow> entry" where
  "vector_entry i =
     (if i = 2 then Bus_error else if i = 3 then Address_error else if i = 4 then Illegal_instruction
      else if i = 5 then Division_by_zero else if i = 6 then Chk_out_of_bounds else if i = 7 then Trapv_overflow
      else if i = 8 then Privilege_violation else if i = 9 then Trace else if i = 10 then Unimplemented_instruction_a
      else if i = 11 then Unimplemented_instruction_f else if i = 32 then Trap else Bad_interrupt)"

lemma load_set_vector:
  assumes "i < 64" and "j < 64"
  shows "load_word (of_nat (4 * i)) (set_vector ea j e m) = (if i = j then ea e else load_word (of_nat (4 * i)) m)"
proof (cases "i = j")
  case True
  then show ?thesis by (simp add: set_vector_def load_store_word)
next
  case False
  have "load_word (of_nat (4 * i)) (set_vector ea j e m) = load_word (of_nat (4 * i)) m"
  proof (rule load_word_cong)
    fix k :: nat assume k: "k < 4"
    have "of_nat (4 * i) + of_nat k - of_nat (4 * j) = (of_nat (4 * i + k) - of_nat (4 * j) :: addr)" by simp
    moreover have "unat (of_nat (4 * i + k) :: addr) = 4 * i + k" using assms k by (intro unat_of_nat_32) simp
    ultimately have "\<not> unat (of_nat (4 * i) + of_nat k - of_nat (4 * j) :: addr) < 4"
      using unat_minus_lt [of "4 * j" 4 "of_nat (4 * i + k)"] assms False k by (simp del: of_nat_add of_nat_mult)
    then show "set_vector ea j e m (of_nat (4 * i) + of_nat k) = m (of_nat (4 * i) + of_nat k)"
      unfolding set_vector_def store_word_apply by simp
  qed
  then show ?thesis using False by simp
qed

lemma load_bad_vectors:
  assumes "i < 64" and "\<And>j. j \<in> set js \<Longrightarrow> j < 64"
  shows "load_word (of_nat (4 * i)) (fold (\<lambda>j. set_vector ea j Bad_interrupt) js m) =
    (if i \<in> set js then ea Bad_interrupt else load_word (of_nat (4 * i)) m)"
  using assms(2)
proof (induction js arbitrary: m)
  case (Cons j js)
  then show ?case by (simp add: load_set_vector assms(1) del: of_nat_mult)
qed simp

lemma init_vector_table_entries:
  assumes "i < 64"
  shows "load_word (of_nat (4 * i)) (init_vector_table ea m) = (if 2 \<le> i then ea (vector_entry i) else load_word (of_nat (4 * i)) m)"
proof -
  define m1 where "m1 = fold (\<lambda>j. set_vector ea j Bad_interrupt) [2..<64] m"
  have "load_word (of_nat (4 * i)) m1 = (if 2 \<le> i then ea Bad_interrupt else load_word (of_nat (4 * i)) m)"
    unfolding m1_def using load_bad_vectors [OF assms, of "[2..<64]" ea m] assms by (simp only: set_upt atLeastLessThan_iff) simp
  then show ?thesis
    unfolding init_vector_table_def Let_def m1_def [symmetric] by (auto simp: load_set_vector assms vector_entry_def simp del: of_nat_mult)
qed

section \<open>Panic\<close>

text \<open>The screen of the machine shows a terminal.\<close>

definition shows_terminal :: "addr \<Rightarrow> addr \<Rightarrow> console \<times> kstate \<Rightarrow> terminal \<Rightarrow> bool" where
  "shows_terminal fa base xs t \<longleftrightarrow> (case xs of (x, s) \<Rightarrow>
     display fa x (user_bytes s) \<and> SCRN_BASE (user_bytes s) = base \<and> picture x base (user_bytes s) t \<and> cursor x t)"

text \<open>Printing a string, as the terminal sees it; nothing of the kernel's state changes but the memory.\<close>

lemma puts_refines:
  assumes "shows_terminal fa base (x, s) t" and "list_all (\<lambda>c. c = 10 \<or> printable c) (characters str)"
  shows "\<exists>x' m'. puts fa str (x, s) = (x', s\<lparr>user_bytes := m'\<rparr>)
    \<and> shows_terminal fa base (x', s\<lparr>user_bytes := m'\<rparr>) (fold (type_char (columns x) (lines x)) (characters str) t)
    \<and> columns x' = columns x \<and> lines x' = lines x"
  using assms
proof (induction str arbitrary: x s t)
  case Nil
  then show ?case by (intro exI [of _ x] exI [of _ "user_bytes s"]) (simp add: puts_def characters_def)
next
  case (Cons c cs)
  let ?c = "of_nat (of_char c) :: uint8_t"
  obtain x1 m1 where p: "putchar fa ?c x (user_bytes s) = (x1, m1)" by fastforce
  have d: "display fa x (user_bytes s)" "picture x (SCRN_BASE (user_bytes s)) (user_bytes s) t" "cursor x t"
    "SCRN_BASE (user_bytes s) = base" "?c = 10 \<or> printable ?c"
    using Cons.prems by (auto simp: shows_terminal_def characters_def)
  from putchar_refines [OF d(1-3,5) p] obtain cx cy where
    r: "display fa x1 m1" "SCRN_BASE m1 = base" "picture x1 base m1 (type_char (columns x) (lines x) ?c t)"
      "cursor x1 (type_char (columns x) (lines x) ?c t)" "x1 = x\<lparr>console_x := cx, console_y := cy\<rparr>"
    using d(4) by auto
  note same = same_screen [OF r(5)]
  have "puts fa (c # cs) (x, s) = puts fa cs (x1, s\<lparr>user_bytes := m1\<rparr>)" using p by (simp add: puts_def characters_def)
  moreover have "shows_terminal fa base (x1, s\<lparr>user_bytes := m1\<rparr>) (type_char (columns x) (lines x) ?c t)" using r(1-4) by (simp add: shows_terminal_def)
  moreover have "list_all (\<lambda>c. c = 10 \<or> printable c) (characters cs)" using Cons.prems(2) by (simp add: characters_def)
  moreover have "characters (c # cs) = ?c # characters cs" by (simp add: characters_def)
  ultimately show ?case using Cons.IH [of x1 "s\<lparr>user_bytes := m1\<rparr>"] same(1,2) by fastforce
qed

definition panic_message :: "string \<Rightarrow> string" where
  "panic_message cause = ''PANIC: unhandled exception '' @ [CHR 0x22] @ cause @ [CHR 0x22, CHR 0x0A]"

text \<open>In the kernel an exception halts the machine, with the message on the screen.\<close>

lemma handle_exception_halts:
  assumes "shows_terminal fa base (x, s) t" and "status_register regs AND push_bit 13 1 \<noteq> 0"
    and "list_all (\<lambda>c. c = 10 \<or> printable c) (characters cause)"
  shows "\<exists>x' m'. handle_exception fa idle regs cause (x, s) = Halts (x', s\<lparr>user_bytes := m'\<rparr>)
    \<and> shows_terminal fa base (x', s\<lparr>user_bytes := m'\<rparr>) (fold (type_char (columns x) (lines x)) (characters (panic_message cause)) t)"
proof -
  have app: "characters (a @ b) = characters a @ characters b" for a b by (simp add: characters_def)
  have "handle_exception fa idle regs cause (x, s) = Halts (puts fa (panic_message cause) (x, s))"
    using assms(2) by (simp add: handle_exception_def panic_message_def puts_def app [of "a # b" for a b] Let_def)
      (simp add: characters_def)
  moreover have "list_all (\<lambda>c. c = 10 \<or> printable c) (characters (panic_message cause))"
    using assms(3) by (simp add: panic_message_def characters_def printable_def)
  ultimately show ?thesis using puts_refines [OF assms(1), of "panic_message cause"] by auto
qed

section \<open>Exceptions of threads\<close>

text \<open>
  An exception in user mode suspends the thread that was running: its registers are saved, it is in no run queue, and the processor continues
  with the first thread of the highest priority, or in the idle loop when there is none.
\<close>

definition suspended_and_switched :: "addr \<Rightarrow> uint32_t \<Rightarrow> thread_registers \<Rightarrow> (nat \<Rightarrow> addr list) \<Rightarrow> kstate \<Rightarrow> kstate \<Rightarrow> thread_registers \<Rightarrow> bool" where
  "suspended_and_switched c idle regs q s s' regs' \<longleftrightarrow>
     exec_mode (threads s' c) = exec_mode (threads s c) OR EXEC_MODE_SUSPENDED
     \<and> registers (threads s' c) = regs \<and> runqueue (threads s' c) = None
     \<and> ((\<forall>j < 64. q j = []) \<longrightarrow> current_thread s' = NULL \<and> regs' = regs\<lparr>program_counter := idle\<rparr> \<and> sched_wf s' q)
     \<and> (\<forall>i u us. i < 64 \<and> q i = u # us \<and> (\<forall>j. i < j \<and> j < 64 \<longrightarrow> q j = []) \<longrightarrow>
          current_thread s' = u \<and> regs' = registers (threads s u) \<and> sched_wf s' (q(i := us)))"

lemma highest_queue:
  fixes q :: "nat \<Rightarrow> 'a list"
  assumes "\<not> (\<forall>j < 64. q j = [])"
  shows "\<exists>i u us. i < 64 \<and> q i = u # us \<and> (\<forall>j. i < j \<and> j < 64 \<longrightarrow> q j = [])"
proof -
  let ?A = "{j. j < 64 \<and> q j \<noteq> []}"
  have "finite ?A" "?A \<noteq> {}" using assms by auto
  then have m: "Max ?A \<in> ?A" "\<And>j. j \<in> ?A \<Longrightarrow> j \<le> Max ?A" using Max_in Max_ge by blast+
  then obtain u us where "q (Max ?A) = u # us" by (auto simp: neq_Nil_conv)
  moreover have "\<forall>j. Max ?A < j \<and> j < 64 \<longrightarrow> q j = []" using m(2) by (metis (mono_tags, lifting) leD mem_Collect_eq)
  ultimately show ?thesis using m(1) by blast
qed

lemma switchedI:
  assumes "exec_mode (threads s' c) = exec_mode (threads s c) OR EXEC_MODE_SUSPENDED" "registers (threads s' c) = regs"
    and "runqueue (threads s' c) = None" and i: "i < 64" "q i = u # us" "\<forall>j. i < j \<and> j < 64 \<longrightarrow> q j = []"
    and next_thread: "current_thread s' = u" "regs' = registers (threads s u)" "sched_wf s' (q(i := us))"
  shows "suspended_and_switched c idle regs q s s' regs'"
proof -
  have "k = i \<and> v = u \<and> vs = us" if "k < 64" "q k = v # vs" "\<forall>j. k < j \<and> j < 64 \<longrightarrow> q j = []" for k v vs
  proof -
    have "k = i" using that i by (cases k i rule: linorder_cases) auto
    with that(2) i(2) show ?thesis by simp
  qed
  moreover have "\<not> (\<forall>j < 64. q j = [])" using i(1,2) by auto
  ultimately show ?thesis using assms(1-3) next_thread unfolding suspended_and_switched_def by metis
qed

lemma suspended_and_switchedD:
  assumes "suspended_and_switched c idle regs q s s' regs'"
  shows "exec_mode (threads s' c) = exec_mode (threads s c) OR EXEC_MODE_SUSPENDED"
    and "i < 64 \<Longrightarrow> q i = u # us \<Longrightarrow> (\<And>j. i < j \<Longrightarrow> j < 64 \<Longrightarrow> q j = []) \<Longrightarrow> current_thread s' = u"
  using assms unfolding suspended_and_switched_def by blast+

lemma thread_exception_switches:
  assumes "sched_wf s q" and "current_thread s = c" and "c \<noteq> NULL" and "runqueue (threads s c) = None"
    and "handle_thread_exception idle regs s = (s', regs')"
  shows "suspended_and_switched c idle regs q s s' regs'"
proof -
  define s1 where "s1 = upd_thread c (\<lambda>x. x\<lparr>exec_mode := exec_mode x OR EXEC_MODE_SUSPENDED\<rparr>) s"
  have sus: "suspend_thread c EXEC_MODE_SUSPENDED s = s1\<lparr>pending_context_switch := True\<rparr>"
    using assms(2,4) by (simp add: suspend_thread_def s1_def upd_thread_def Let_def)
  have mode: "exec_mode (threads s c) OR EXEC_MODE_SUSPENDED \<noteq> EXEC_MODE_RUNNING"
  proof
    assume "exec_mode (threads s c) OR EXEC_MODE_SUSPENDED = EXEC_MODE_RUNNING"
    then have "(exec_mode (threads s c) OR EXEC_MODE_SUSPENDED) AND EXEC_MODE_SUSPENDED = 0" by (simp add: kernel_consts)
    then show False by (simp add: kernel_consts)
  qed
  let ?s = "s1\<lparr>pending_context_switch := False\<rparr>"
  have wf: "sched_wf ?s q" using assms(1) by (rule sched_wf_cong) (simp_all add: s1_def)
  have run: "try_context_switch idle regs (s1\<lparr>pending_context_switch := True\<rparr>) = (s', regs')"
    using assms(2,5) by (simp add: handle_thread_exception_def sus)
  show ?thesis
  proof (cases "\<forall>j < 64. q j = []")
    case True
    then have "pop_next_thread NUM_PRIORITIES ?s = (?s, NULL)"
      by (intro pop_next_thread_none [OF wf]) (simp add: NUM_PRIORITIES_def)
    with run assms(2,3) mode have eq: "s' = (upd_thread c (\<lambda>x. x\<lparr>registers := regs,
        thread_flags := thread_flags x AND NOT THREAD_CURRENTLY_RUNNING\<rparr>) ?s)\<lparr>current_thread := NULL\<rparr>"
      "regs' = regs\<lparr>program_counter := idle\<rparr>"
      by (auto simp: try_context_switch_def save_current_thread_def Let_def s1_def)
    have "sched_wf s' q" using wf by (rule sched_wf_cong) (simp_all add: eq)
    with True show ?thesis using assms(4) by (auto simp: suspended_and_switched_def eq s1_def)
  next
    case False
    from highest_queue [OF this] obtain i u us where i: "i < 64" "q i = u # us" and above: "\<forall>j. i < j \<and> j < 64 \<longrightarrow> q j = []" by blast
    obtain s2 n where s2: "pop_next_thread 64 ?s = (s2, n)" by fastforce
    note pop = pop_next_thread_wf [OF wf i, unfolded s2 fst_conv snd_conv]
    have pop': "n = u" "sched_wf s2 (q(i := us))" "threads s2 = (threads ?s)(u := (threads ?s u)\<lparr>runqueue := None\<rparr>)" "current_thread s2 = c"
      using pop above assms(2) by (simp_all add: s1_def)
    have "u \<in> set (q i)" using i(2) by simp
    then have u: "u \<noteq> NULL" "runqueue (threads s u) = Some i" using assms(1) by (auto simp: sched_wf_def)
    have cu: "c \<noteq> u" using u assms(4) by auto
    have eq: "s' = upd_thread u (\<lambda>x. x\<lparr>thread_flags := thread_flags x OR THREAD_CURRENTLY_RUNNING\<rparr>)
        ((upd_thread c (\<lambda>x. x\<lparr>registers := regs, thread_flags := thread_flags x AND NOT THREAD_CURRENTLY_RUNNING\<rparr>) s2)\<lparr>current_thread := u\<rparr>)"
      "regs' = registers (threads s u)"
    proof -
      have "exec_mode (threads s2 c) \<noteq> EXEC_MODE_RUNNING" "registers (threads s2 u) = registers (threads s u)"
        using mode cu by (simp_all add: pop' s1_def)
      then have "(s', regs') = (upd_thread u (\<lambda>x. x\<lparr>thread_flags := thread_flags x OR THREAD_CURRENTLY_RUNNING\<rparr>)
        ((upd_thread c (\<lambda>x. x\<lparr>registers := regs, thread_flags := thread_flags x AND NOT THREAD_CURRENTLY_RUNNING\<rparr>) s2)\<lparr>current_thread := u\<rparr>),
          registers (threads s u))"
        using run u(1) assms(3) cu by (simp add: try_context_switch_def save_current_thread_def NUM_PRIORITIES_def s2 pop'(1,4) Let_def)
      then show "s' = upd_thread u (\<lambda>x. x\<lparr>thread_flags := thread_flags x OR THREAD_CURRENTLY_RUNNING\<rparr>)
        ((upd_thread c (\<lambda>x. x\<lparr>registers := regs, thread_flags := thread_flags x AND NOT THREAD_CURRENTLY_RUNNING\<rparr>) s2)\<lparr>current_thread := u\<rparr>)"
        "regs' = registers (threads s u)" by simp_all
    qed
    have "sched_wf s' (q(i := us))" using pop'(2) by (rule sched_wf_cong) (simp_all add: eq)
    from switchedI [OF _ _ _ i above _ _ this] show ?thesis using assms(4) cu
      by (simp add: eq pop' s1_def)
  qed
qed

text \<open>The causes of the exceptions, by the numbers of their vectors.\<close>

definition vector_cause :: "nat \<Rightarrow> string" where
  "vector_cause i =
     (if i = 2 then ''bus error'' else if i = 3 then ''address error'' else if i = 4 then ''illegal instruction''
      else if i = 5 then ''division by zero'' else if i = 6 then ''CHK out of bounds'' else if i = 7 then ''TRAPV with overflow flag set''
      else if i = 8 then ''privilege violation'' else if i = 9 then ''trace'' else if i = 10 then ''unimplemented instruction (line A)''
      else if i = 11 then ''unimplemented instruction (line F)'' else ''bad interrupt'')"

lemma handler_cause: "i \<noteq> 32 \<Longrightarrow> handler fa (vector_entry i) idle regs xs = Some (handle_exception fa idle regs (vector_cause i) xs)"
  by (simp add: vector_entry_def vector_cause_def)

lemma cause_printable: "list_all (\<lambda>c. c = 10 \<or> printable c) (characters (vector_cause i))"
  by (simp add: vector_cause_def characters_def printable_def)

text \<open>
  C20: every exception vector but that of the system call (32) leads to a handler that, for an exception in the kernel itself, prints
  the panic message with the cause that belongs to the number of the vector on the screen, at every depth, and then
  loops for ever with nothing else changed; for an exception in user mode it suspends the thread that was running,
  with its registers saved, and continues with the first thread of the highest priority or in the idle loop.
\<close>

theorem exception_panics_or_suspends:
  assumes "2 \<le> i" and "i < 64" and "i \<noteq> 32"
  shows "load_word (of_nat (4 * i)) (init_vector_table ea mem) = ea (vector_entry i)
    \<and> (status_register regs AND push_bit 13 1 \<noteq> 0 \<and> shows_terminal fa base (x, s) t \<longrightarrow>
        (\<exists>x' m'. handler fa (vector_entry i) idle regs (x, s) = Some (Halts (x', s\<lparr>user_bytes := m'\<rparr>))
          \<and> shows_terminal fa base (x', s\<lparr>user_bytes := m'\<rparr>) (fold (type_char (columns x) (lines x))
              (characters (''PANIC: unhandled exception '' @ [CHR 0x22] @ vector_cause i @ [CHR 0x22, CHR 0x0A])) t)))
    \<and> (status_register regs AND push_bit 13 1 = 0 \<and> sched_wf s q \<and> current_thread s = c \<and> c \<noteq> NULL \<and> runqueue (threads s c) = None \<longrightarrow>
        (\<exists>s' regs'. handler fa (vector_entry i) idle regs (x, s) = Some (Continues (x, s') regs')
          \<and> suspended_and_switched c idle regs q s s' regs'))"
proof (intro conjI impI)
  show "load_word (of_nat (4 * i)) (init_vector_table ea mem) = ea (vector_entry i)"
    using init_vector_table_entries [OF assms(2)] assms(1) by simp
  assume "status_register regs AND push_bit 13 1 \<noteq> 0 \<and> shows_terminal fa base (x, s) t"
  with handle_exception_halts [OF _ _ cause_printable]
  show "\<exists>x' m'. handler fa (vector_entry i) idle regs (x, s) = Some (Halts (x', s\<lparr>user_bytes := m'\<rparr>))
          \<and> shows_terminal fa base (x', s\<lparr>user_bytes := m'\<rparr>) (fold (type_char (columns x) (lines x))
              (characters (''PANIC: unhandled exception '' @ [CHR 0x22] @ vector_cause i @ [CHR 0x22, CHR 0x0A])) t)"
    unfolding handler_cause [OF assms(3)] panic_message_def by fastforce
next
  assume u: "status_register regs AND push_bit 13 1 = 0 \<and> sched_wf s q \<and> current_thread s = c \<and> c \<noteq> NULL \<and> runqueue (threads s c) = None"
  obtain s' regs' where r: "handle_thread_exception idle regs s = (s', regs')" by fastforce
  from u thread_exception_switches [OF _ _ _ _ r]
  show "\<exists>s' regs'. handler fa (vector_entry i) idle regs (x, s) = Some (Continues (x, s') regs')
          \<and> suspended_and_switched c idle regs q s s' regs'"
    unfolding handler_cause [OF assms(3)] by (simp add: handle_exception_def r)
qed

theorem exception_panics_or_suspends_witness:
  "(\<exists>x' m'. handler 0x1000 Division_by_zero 0 (zero_registers\<lparr>status_register := 0x2000\<rparr>) (demo_console, zero_kstate\<lparr>user_bytes := demo_memory\<rparr>) =
        Some (Halts (x', zero_kstate\<lparr>user_bytes := m'\<rparr>))
      \<and> shows_terminal 0x1000 0x10000 (x', zero_kstate\<lparr>user_bytes := m'\<rparr>) (fold (type_char 2 2)
          (characters (''PANIC: unhandled exception '' @ [CHR 0x22] @ ''division by zero'' @ [CHR 0x22, CHR 0x0A])) demo_terminal))
   \<and> (\<exists>s' regs'. handler 0x1000 Division_by_zero 0 zero_registers (demo_console, (queue_thread 256 zero_kstate)\<lparr>current_thread := 512\<rparr>) =
        Some (Continues (demo_console, s') regs') \<and> current_thread s' = 256 \<and> exec_mode (threads s' 512) = EXEC_MODE_SUSPENDED)"
proof
  have e: "vector_entry 5 = Division_by_zero" "vector_cause 5 = ''division by zero''" by (simp_all add: vector_entry_def vector_cause_def)
  have "cursor demo_console demo_terminal" unfolding cursor_def demo_screen by (simp add: demo_console_def demo_terminal_def)
  then have "shows_terminal 0x1000 0x10000 (demo_console, zero_kstate\<lparr>user_bytes := demo_memory\<rparr>) demo_terminal"
    using demo_display demo_picture unfolding demo_base by (simp add: shows_terminal_def demo_base)
  moreover have "status_register (zero_registers\<lparr>status_register := 0x2000\<rparr>) AND push_bit 13 1 \<noteq> 0" by simp
  ultimately have "\<exists>x' m'. handler 0x1000 (vector_entry 5) 0 (zero_registers\<lparr>status_register := 0x2000\<rparr>) (demo_console, zero_kstate\<lparr>user_bytes := demo_memory\<rparr>) =
        Some (Halts (x', zero_kstate\<lparr>user_bytes := demo_memory\<rparr>\<lparr>user_bytes := m'\<rparr>))
      \<and> shows_terminal 0x1000 0x10000 (x', zero_kstate\<lparr>user_bytes := demo_memory\<rparr>\<lparr>user_bytes := m'\<rparr>) (fold (type_char (columns demo_console) (lines demo_console))
          (characters (''PANIC: unhandled exception '' @ [CHR 0x22] @ vector_cause 5 @ [CHR 0x22, CHR 0x0A])) demo_terminal)"
    by (intro conjunct1 [OF conjunct2 [OF exception_panics_or_suspends], rule_format] conjI) simp_all
  then show "\<exists>x' m'. handler 0x1000 Division_by_zero 0 (zero_registers\<lparr>status_register := 0x2000\<rparr>) (demo_console, zero_kstate\<lparr>user_bytes := demo_memory\<rparr>) =
        Some (Halts (x', zero_kstate\<lparr>user_bytes := m'\<rparr>))
      \<and> shows_terminal 0x1000 0x10000 (x', zero_kstate\<lparr>user_bytes := m'\<rparr>) (fold (type_char 2 2)
          (characters (''PANIC: unhandled exception '' @ [CHR 0x22] @ ''division by zero'' @ [CHR 0x22, CHR 0x0A])) demo_terminal)"
    unfolding e demo_screen by simp
next
  let ?s = "(queue_thread 256 zero_kstate)\<lparr>current_thread := 512\<rparr>"
  have wf: "sched_wf ?s ((\<lambda>_. [])(63 := [256]))" by (rule sched_wf_cong [OF demo_queue(1)]) simp_all
  have t: "runqueue (threads ?s 512) = None" "exec_mode (threads ?s 512) = 0" using demo_queue(2) [of 512] by (simp_all add: zero_thread_def)
  have "\<exists>s' regs'. handler 0x1000 (vector_entry 5) 0 zero_registers (demo_console, ?s) = Some (Continues (demo_console, s') regs')
      \<and> suspended_and_switched 512 0 zero_registers ((\<lambda>_. [])(63 := [256])) ?s s' regs'"
    by (rule conjunct2 [OF conjunct2 [OF exception_panics_or_suspends], rule_format]) (use wf t in \<open>simp_all add: zero_registers_def\<close>)
  then obtain s' regs' where r: "handler 0x1000 (vector_entry 5) 0 zero_registers (demo_console, ?s) = Some (Continues (demo_console, s') regs')"
    "suspended_and_switched 512 0 zero_registers ((\<lambda>_. [])(63 := [256])) ?s s' regs'" by blast
  have "current_thread s' = 256" by (rule suspended_and_switchedD(2) [OF r(2), of 63 256 "[]"]) simp_all
  moreover have "exec_mode (threads s' 512) = EXEC_MODE_SUSPENDED" using suspended_and_switchedD(1) [OF r(2)] t(2) by simp
  moreover have "vector_entry 5 = Division_by_zero" by (simp add: vector_entry_def)
  ultimately show "\<exists>s' regs'. handler 0x1000 Division_by_zero 0 zero_registers (demo_console, ?s) =
        Some (Continues (demo_console, s') regs') \<and> current_thread s' = 256 \<and> exec_mode (threads s' 512) = EXEC_MODE_SUSPENDED"
    using r(1) by (intro exI [of _ s'] exI [of _ regs']) simp
qed

section \<open>Room on the heap\<close>

text \<open>
  A heap without movable blocks on which one available block has at least so many bytes, and on which the
  given objects are allocated.
\<close>

definition heap_with :: "'x heap_state_scheme \<Rightarrow> addr list \<Rightarrow> addr set \<Rightarrow> nat \<Rightarrow> bool" where
  "heap_with s hs objects n \<longleftrightarrow> heap_wf s hs \<and> (\<forall>k \<in> set hs. pinned s k)
     \<and> (\<exists>a \<in> set hs. available s a \<and> n \<le> bsize s a)
     \<and> (\<forall>q \<in> objects. header_of q \<in> set hs \<and> \<not> available s (header_of q))"

definition room :: "'x heap_state_scheme \<Rightarrow> addr set \<Rightarrow> nat \<Rightarrow> bool" where
  "room s objects n \<longleftrightarrow> (\<exists>hs. heap_with s hs objects n)"

lemma room_cong: "hdrs s' = hdrs s \<Longrightarrow> hp s' = hp s \<Longrightarrow> room s' objects n = room s objects n"
  unfolding room_def heap_with_def using heap_wf_cong [of s' s] by (simp add: bsize_def)

text \<open>An object of the given size that overlaps none of the others.\<close>

definition apart :: "addr \<Rightarrow> size_t \<Rightarrow> addr set \<Rightarrow> bool" where
  "apart p n objects \<longleftrightarrow> unat p + unat n < 2 ^ 32 \<and> (\<forall>q \<in> objects. \<not> (unat p \<le> unat q \<and> unat q < unat p + unat n) \<and> q \<noteq> p)"

lemma alloc_room:
  assumes "room s objects (unat (alloc_size n) + k)" and n: "unat n + 29 < 2 ^ 32" and "27 \<le> k"
  shows "\<exists>s' p. heap_alloc hk s n = Some (s', p) \<and> p \<noteq> NULL \<and> room s' (insert p objects) k \<and> heap_frame s s' \<and> apart p n objects"
proof -
  obtain hs a where wf: "heap_wf s hs" and pin: "\<And>k. k \<in> set hs \<Longrightarrow> pinned s k"
    and a: "a \<in> set hs" "available s a" "unat (alloc_size n) + k \<le> bsize s a"
    and obj: "\<And>q. q \<in> objects \<Longrightarrow> header_of q \<in> set hs \<and> \<not> available s (header_of q)"
    using assms(1) unfolding room_def heap_with_def by blast
  obtain us vs where "hs = us @ [a] @ vs" using a(1) by (metis append_Cons append_Nil split_list)
  then obtain r where r: "find_run s (unat (alloc_size n)) [] hs = Some r"
    using find_run_complete [of s "unat (alloc_size n)" "[]" hs us "[a]" vs] a alloc_size_bounds(4) [OF n]
    by (cases "find_run s (unat (alloc_size n)) [] hs") auto
  let ?st = "hd_or NULL r" and ?rest = "if unat (alloc_size n) + 26 < bytes s r then [hd_or NULL r + alloc_size n] else []"
  from heap_alloc_some [OF wf pin n r, of hk] obtain s' ys zs where
    hs: "hs = ys @ r @ zs" "r \<noteq> []" "list_all (available s) r" and ret: "heap_alloc hk s n = Some (s', ?st + sizeof_heap_header)"
    and c: "claimed s s' ys ?st ?rest zs (bytes s r)" and wf': "heap_wf s' (ys @ [?st] @ ?rest @ zs)"
    and big: "unat (alloc_size n) \<le> bytes s r" .
  let ?hs = "ys @ [?st] @ ?rest @ zs"
  have pin': "\<forall>k \<in> set ?hs. pinned s' k"
    using c pin hs(1) by (fastforce simp: claimed_def pinned_def same_block_def available_def list_all_iff)
  have "\<exists>a' \<in> set ?hs. available s' a' \<and> k \<le> bsize s' a'"
  proof (cases "a \<in> set r")
    case True
    then have "bsize s a \<le> bytes s r" by (simp add: bytes_def member_le_sum_list)
    then have big: "unat (alloc_size n) + k \<le> bytes s r" "unat (alloc_size n) + 26 < bytes s r" using a(3) assms(3) by linarith+
    then have "bsize s' ?st = unat (alloc_size n)" using c claimed_rest [of s s' ys ?st "alloc_size n" zs] by simp
    then have "k \<le> bsize s' (?st + alloc_size n)" "available s' (?st + alloc_size n)" using c big by (auto simp: claimed_def)
    then show ?thesis using big(2) by auto
  next
    case False
    then have "a \<in> set ys \<union> set zs" using a(1) hs(1) by auto
    then have "same_block s s' a" using c by (simp add: claimed_def)
    then show ?thesis using a \<open>a \<in> set ys \<union> set zs\<close> by (auto simp: same_block_def available_def)
  qed
  moreover have "unat (alloc_size n) \<le> bsize s' ?st"
    using c big claimed_rest [of s s' ys ?st "alloc_size n" zs "bytes s r"]
    by (cases "unat (alloc_size n) + 26 < bytes s r") (auto simp: claimed_def)
  then have sz: "unat n + 26 \<le> bsize s' ?st" using alloc_size_bounds(1) [OF n] by linarith
  note bp = block_pointer [OF wf' _ sz]
  have "header_of q \<in> set ys \<union> set zs \<and> \<not> available s' (header_of q)" if "q \<in> objects" for q
  proof -
    have "header_of q \<in> set ys \<union> set zs" using obj [OF that] hs by (auto simp: list_all_iff)
    then have "same_block s s' (header_of q)" using c by (simp add: claimed_def)
    with \<open>header_of q \<in> set ys \<union> set zs\<close> obj [OF that] show ?thesis by (auto simp: same_block_def available_def)
  qed
  note objs = this
  have "\<not> available s' ?st" using c by (simp add: claimed_def available_def heap_consts)
  with objs bp have "\<forall>q \<in> insert (?st + sizeof_heap_header) objects. header_of q \<in> set ?hs \<and> \<not> available s' (header_of q)" by auto
  ultimately have "heap_with s' ?hs (insert (?st + sizeof_heap_header) objects) k" using wf' pin' unfolding heap_with_def by blast
  moreover have "apart (?st + sizeof_heap_header) n objects" unfolding apart_def
  proof (intro conjI ballI)
    have e: "unat ?st + bsize s' ?st < 2 ^ 32" using heap_wf_end [OF wf'] by simp
    then have p: "unat (?st + sizeof_heap_header) = unat ?st + 26" using sz by (simp add: heap_consts unat_plus_no_wrap)
    then show "unat (?st + sizeof_heap_header) + unat n < 2 ^ 32" using e sz by linarith
    fix q assume q: "q \<in> objects"
    let ?h = "header_of q"
    have hq: "?h \<in> set ?hs" "?h \<noteq> ?st" using objs [OF q] \<open>\<not> available s' ?st\<close> obj [OF q] hs hd_or_in_set [of r NULL]
      by (auto simp: list_all_iff)
    then show "q \<noteq> ?st + sizeof_heap_header" using bp(2) by auto
    have "unat ?h + 26 < 2 ^ 32" using heap_wf_end [OF wf' hq(1)] heap_wf_bsize [OF wf' hq(1)] by linarith
    then have "unat (?h + sizeof_heap_header) = unat ?h + 26" by (simp add: heap_consts unat_plus_no_wrap)
    then have uq: "unat q = unat ?h + 26" by (simp add: header_of_def)
    obtain lo hi where bl: "blocks s' lo (ys @ ?st # ?rest @ zs) hi" using wf' by (auto simp: heap_wf_def heap_linked_def)
    have "unat ?h \<noteq> unat ?st" using hq(2) by (simp add: word_unat_eq_iff)
    moreover have "\<not> (unat ?st < unat ?h \<and> unat ?h < unat ?st + bsize s' ?st)"
      using blocks_no_inner [OF bl, of ?h "unat ?h"] hq(1) by auto
    ultimately show "\<not> (unat (?st + sizeof_heap_header) \<le> unat q \<and> unat q < unat (?st + sizeof_heap_header) + unat n)"
      using uq p sz by linarith
  qed
  ultimately show ?thesis using ret bp(1) heap_alloc_pinned_frame [OF wf pin n ret] unfolding room_def by auto
qed

text \<open>Marking the block of an object as owned by a function changes nothing in the layout of the heap.\<close>

lemma mark_kind: "((x AND - 17) OR 32) AND 3 = (x AND 3 :: uint8_t)"
proof -
  have "((x AND - 17) OR 32) AND 3 = (x AND (- 17 AND 3)) OR (32 AND 3)" by (simp only: and.assoc bit.conj_disj_distrib2)
  then show ?thesis by simp
qed

lemma mark_cong:
  assumes s'_def: "s' = heap_set_update_function p f s"
  shows "heap_wf s' hs = heap_wf s hs" "available s' = available s" "pinned s' = pinned s" "bsize s' = bsize s"
    "find_run s' n run hs = find_run s n run hs"
proof -
  have k: "GET_KIND (hdrs s' a) = GET_KIND (hdrs s a)" for a
    by (simp add: s'_def heap_set_update_function_def upd_hdr_def GET_KIND_def heap_consts mark_kind)
  have l: "prev_of s' = prev_of s" "next_of s' = next_of s" "hp s' = hp s"
    by (simp_all add: s'_def heap_set_update_function_def upd_hdr_def fun_eq_iff)
  show b: "bsize s' = bsize s" by (simp add: s'_def heap_set_update_function_def upd_hdr_def bsize_def fun_eq_iff)
  show a: "available s' = available s" "pinned s' = pinned s" by (simp_all add: available_def pinned_def k fun_eq_iff)
  have bl: "blocks s' lo hs hi = blocks s lo hs hi" for lo hi by (rule blocks_cong) (simp add: b)
  have by': "bytes s' = bytes s" by (simp add: bytes_def fun_eq_iff b)
  then have "free_bytes s' = free_bytes s" by (simp add: free_bytes_def fun_eq_iff a)
  then show "heap_wf s' hs = heap_wf s hs" by (simp add: heap_wf_def heap_linked_def l by' bl)
  show "find_run s' n run hs = find_run s n run hs" by (induction hs arbitrary: run) (simp_all add: a by')
qed

lemma room_mark: "room (heap_set_update_function p f s) objects n = room s objects n"
  unfolding room_def heap_with_def by (simp add: mark_cong [OF refl])

section \<open>The objects of the first thread\<close>

text \<open>The state of the scheduler and of memory that allocations leave alone.\<close>

definition same_run :: "kstate \<Rightarrow> kstate \<Rightarrow> bool" where
  "same_run s s' \<longleftrightarrow> priority_queues s' = priority_queues s \<and> current_thread s' = current_thread s
     \<and> user_bytes s' = user_bytes s \<and> pending_context_switch s' = pending_context_switch s"

lemma first_id: "take_free_id ((replicate USED_THREAD_IDS_SIZE 0)[0 := 1]) 0 = Some ((replicate USED_THREAD_IDS_SIZE 0)[0 := 3], 1)"
  by (simp add: kernel_consts SIZE_MAX_def Let_def eval_nat_numeral)

text \<open>After \<open>init_threads\<close> the first thread gets the id 1; it is suspended and everything else in it is zero.\<close>

lemma alloc_first_thread:
  assumes "room s objects (unat (alloc_size sizeof_thread_capability) + k)" and "27 \<le> k"
    and "used_thread_ids s = (replicate USED_THREAD_IDS_SIZE 0)[0 := 1]"
  shows "\<exists>s' t. alloc_thread s = Some (s', t) \<and> t \<noteq> NULL \<and> room s' (insert t objects) k \<and> same_run s s'
    \<and> threads s' = (threads s)(t := zero_thread\<lparr>exec_mode := EXEC_MODE_SUSPENDED, thread_id := 1, bucket_number := bucket_of 1\<rparr>)"
proof -
  let ?s0 = "s\<lparr>used_thread_ids := (replicate USED_THREAD_IDS_SIZE 0)[0 := 3]\<rparr>"
  have "room ?s0 objects (unat (alloc_size sizeof_thread_capability) + k)" using assms(1) room_cong [of ?s0 s] by simp
  from alloc_room [OF this _ assms(2), of kernel_hooks] obtain s1 t where
    al: "heap_alloc kernel_hooks ?s0 sizeof_thread_capability = Some (s1, t)" "t \<noteq> NULL" "room s1 (insert t objects) k" "heap_frame ?s0 s1"
    by (auto simp: kernel_consts)
  let ?s2 = "upd_thread t (\<lambda>x. x\<lparr>exec_mode := EXEC_MODE_SUSPENDED, thread_id := 1, bucket_number := bucket_of 1\<rparr>) (zero_thread_at t s1)"
  obtain c m where l: "LIST_APPEND (thread_hash_table s1 (bucket_of 1)) ((table_entry s1)(t := zero_link)) t = (c, m)" by fastforce
  define u where "u = append_to_table t ?s2"
  have e: "u = ?s2\<lparr>thread_hash_table := (thread_hash_table s1)(bucket_of 1 := c), table_entry := m\<rparr>"
    by (simp add: u_def append_to_table_def Let_def l)
  have "alloc_thread s = Some (u, t)" using al(1,2) by (simp add: alloc_thread_def assms(3) first_id u_def)
  moreover have "room u (insert t objects) k" using al(3) room_cong [of u s1] by (simp add: e upd_thread_def zero_thread_at_def)
  moreover obtain H P where "s1 = ?s0\<lparr>hdrs := H, hp := P\<rparr>" using al(4) unfolding heap_frame_def by blast
  then have "same_run s u" "threads u =
      (threads s)(t := zero_thread\<lparr>exec_mode := EXEC_MODE_SUSPENDED, thread_id := 1, bucket_number := bucket_of 1\<rparr>)"
    by (simp_all add: same_run_def e upd_thread_def zero_thread_at_def)
  ultimately show ?thesis using al(2) by blast
qed

text \<open>A new node: all its slots are empty, and the capabilities of objects that were allocated before are untouched.\<close>

lemma alloc_root_node:
  assumes "room s objects (unat (alloc_size (node_alloc_size 16)) + k)" and "27 \<le> k"
  shows "\<exists>s' node H P. alloc_node ROOT_CAP_SLOT_BITS s = Some (s', node) \<and> node \<noteq> NULL \<and> node \<notin> objects
    \<and> s' = s\<lparr>hdrs := H, hp := P, nodes := (nodes s)(node := \<lparr>slot_bits = 4, nested_nodes = 1\<rparr>), caps := caps s'\<rparr>
    \<and> room s' (insert node objects) k
    \<and> (\<forall>i < 16. cap_handlers (caps s' (slot_address node (of_nat i))) = No_handlers)
    \<and> (\<forall>q \<in> objects. caps s' q = caps s q)"
proof -
  have big: "node_alloc_size 16 = 1154" by (simp add: node_alloc_size_def kernel_consts)
  from alloc_room [OF assms(1) _ assms(2), of kernel_hooks] obtain s1 node where
    al: "heap_alloc kernel_hooks s (node_alloc_size 16) = Some (s1, node)" "node \<noteq> NULL" "room s1 (insert node objects) k"
      "heap_frame s s1" "apart node (node_alloc_size 16) objects" by (auto simp: big)
  let ?s2 = "upd_node node (\<lambda>_. \<lparr>slot_bits = 4, nested_nodes = 1\<rparr>) s1"
  let ?s' = "clear_slots node 16 ?s2"
  have "alloc_node ROOT_CAP_SLOT_BITS s = Some (?s', node)" using al(1,2) by (simp add: alloc_node_def kernel_consts shl_def)
  moreover obtain H P where s1: "s1 = s\<lparr>hdrs := H, hp := P\<rparr>" using al(4) unfolding heap_frame_def by blast
  moreover have "?s' = s\<lparr>hdrs := H, hp := P, nodes := (nodes s)(node := \<lparr>slot_bits = 4, nested_nodes = 1\<rparr>), caps := caps ?s'\<rparr>"
    by (simp add: clear_slots_caps upd_node_def s1)
  moreover have "room ?s' (insert node objects) k" using al(3) room_cong [of ?s' s1] by (simp add: clear_slots_caps upd_node_def)
  moreover have "node \<notin> objects" using al(5) by (auto simp: apart_def)
  moreover have "caps ?s' q = caps s q" if q: "q \<in> objects" for q
  proof -
    have "q \<noteq> slot_address node (of_nat i)" if i: "i < 16" for i
    proof -
      have lt: "unat node + 1154 < 2 ^ 32" using al(5) by (simp add: apart_def big)
      have "unat (of_nat (2 + i * 72) :: addr) = 2 + i * 72" using i by (intro unat_of_nat_32) simp
      then have "unat (node + of_nat (2 + i * 72)) = unat node + (2 + i * 72)" using lt i unat_plus_no_wrap [of node "of_nat (2 + i * 72)"] by simp
      moreover have "slot_address node (of_nat i) = node + of_nat (2 + i * 72)" by (simp add: slot_address_def kernel_consts)
      ultimately have "unat node \<le> unat (slot_address node (of_nat i))" "unat (slot_address node (of_nat i)) < unat node + 1154"
        using i by simp_all
      then show ?thesis using al(5) q by (auto simp: apart_def big)
    qed
    then show ?thesis by (auto simp: clear_slots_caps upd_node_def s1)
  qed
  moreover have "\<forall>i < 16. cap_handlers (caps ?s' (slot_address node (of_nat i))) = No_handlers" by (auto simp: clear_slots_caps)
  ultimately show ?thesis using al(2) by blast
qed

section \<open>Starting\<close>

text \<open>The only entry of the queue of new threads.\<close>

definition only_in_queue :: "addr \<Rightarrow> kstate \<Rightarrow> bool" where
  "only_in_queue t s \<longleftrightarrow> priority_queues s 63 = \<lparr>lc_start = t, lc_end = t\<rparr> \<and> runqueue_entry s t = zero_link
     \<and> (\<forall>i < 63. priority_queues s i = LIST_INIT)"

lemma link_links: "l\<lparr>lnk_prev := a, lnk_next := b\<rparr> = \<lparr>lnk_prev = a, lnk_next = b\<rparr>"
  by (cases l) simp

lemma resume_first_thread:
  assumes "priority_queues s 63 = LIST_INIT" and "exec_mode (threads s t) = EXEC_MODE_SUSPENDED"
    and "runqueue (threads s t) = None" and "current_thread s = NULL"
  shows "resume_thread t EXEC_MODE_SUSPENDED s =
    s\<lparr>threads := (threads s)(t := (threads s t)\<lparr>exec_mode := EXEC_MODE_RUNNING, runqueue := Some 63\<rparr>),
      priority_queues := (priority_queues s)(63 := \<lparr>lc_start = t, lc_end = t\<rparr>),
      runqueue_entry := (runqueue_entry s)(t := zero_link), pending_context_switch := True\<rparr>"
  using assms
  by (simp add: resume_thread_def Let_def queue_thread_def append_to_queue_def LIST_APPEND_def LIST_INIT_def upd_thread_def
      kernel_consts zero_link_def link_links)

lemma enter_user_mode_only:
  assumes "only_in_queue t s" and "t \<noteq> NULL" and "current_thread s = NULL"
  shows "\<exists>s'. enter_user_mode env s =
      (s', (registers (threads s t))\<lparr>status_register := status_register (registers (threads s t)) AND 0x00ff\<rparr>)
    \<and> current_thread s' = t \<and> caps s' = caps s \<and> user_bytes s' = user_bytes s"
proof -
  let ?s1 = "s\<lparr>pending_context_switch := False\<rparr>"
  have q: "priority_queues s 63 = \<lparr>lc_start = t, lc_end = t\<rparr>" "runqueue_entry s t = zero_link"
    using assms(1) by (simp_all add: only_in_queue_def)
  have "pop_next_thread (Suc 63) ?s1 =
      (upd_thread t (\<lambda>x. x\<lparr>runqueue := None\<rparr>) (?s1\<lparr>priority_queues := (priority_queues s)(63 := LIST_INIT),
         runqueue_entry := (runqueue_entry s)(t := zero_link)\<rparr>), t)"
    unfolding pop_next_thread.simps(2) using assms(2) by (simp add: q LIST_POP_FROM_START_def Let_def zero_link_def LIST_INIT_def)
  then have "pop_next_thread NUM_PRIORITIES ?s1 =
      (upd_thread t (\<lambda>x. x\<lparr>runqueue := None\<rparr>) (?s1\<lparr>priority_queues := (priority_queues s)(63 := LIST_INIT),
         runqueue_entry := (runqueue_entry s)(t := zero_link)\<rparr>), t)"
    by (simp add: kernel_consts)
  then show ?thesis using assms(2,3)
    by (simp add: enter_user_mode_def try_context_switch_def save_current_thread_def Let_def upd_thread_def del: pop_next_thread.simps)
qed

lemma pop_nothing: "\<forall>i < n. priority_queues s i = LIST_INIT \<Longrightarrow> pop_next_thread n s = (s, NULL)"
  by (induction n) (simp_all add: LIST_INIT_def)

lemma enter_user_mode_idles:
  assumes "\<forall>i < 64. priority_queues s i = LIST_INIT" and "current_thread s = NULL"
  shows "enter_user_mode env s = (s\<lparr>pending_context_switch := False\<rparr>, (unset_registers env)\<lparr>program_counter := idle_thread_address env,
    status_register := status_register (unset_registers env) AND 0x00ff\<rparr>)"
  using assms pop_nothing [of 64 "s\<lparr>pending_context_switch := False\<rparr>"]
  by (simp add: enter_user_mode_def try_context_switch_def save_current_thread_def Let_def kernel_consts)

text \<open>The capability in the root slot of the first thread, and a node all of whose slots are empty.\<close>

definition root_capability_of :: "boot_environment \<Rightarrow> thread_capability \<Rightarrow> addr \<Rightarrow> capability" where
  "root_capability_of env x node = zero_capability\<lparr>cap_handlers := Node_handlers, cap_resource := node,
     cap_flags := CAP_FLAG_IS_HEAP_MANAGED OR CAP_FLAG_ORIGINAL, cap_access_rights := 255, cap_heap := the_heap env,
     cap_address := zero_address\<lparr>aca_thread_id := thread_id x, aca_bucket_number := bucket_number x\<rparr>\<rparr>"

definition empty_root_node :: "kstate \<Rightarrow> addr \<Rightarrow> bool" where
  "empty_root_node s node \<longleftrightarrow> node \<noteq> NULL \<and> nodes s node = \<lparr>slot_bits = 4, nested_nodes = 1\<rparr>
     \<and> (\<forall>i < 16. cap_handlers (caps s (slot_address node (of_nat i))) = No_handlers)"

definition new_thread :: thread_capability where
  "new_thread = zero_thread\<lparr>exec_mode := EXEC_MODE_SUSPENDED, thread_id := 1, bucket_number := bucket_of 1\<rparr>"

text \<open>The state in which \<open>start_process_server\<close> asks for the root node.\<close>

definition before_root_node :: "thread_registers \<Rightarrow> addr \<Rightarrow> kstate \<Rightarrow> kstate" where
  "before_root_node regs t s =
     (heap_set_update_function t On_thread_moved s)
       \<lparr>threads := (threads s)(t := (threads s t)\<lparr>registers := regs, exec_mode := EXEC_MODE_RUNNING, runqueue := Some 63\<rparr>),
        priority_queues := (priority_queues s)(63 := \<lparr>lc_start = t, lc_end = t\<rparr>),
        runqueue_entry := (runqueue_entry s)(t := zero_link), pending_context_switch := True,
        caps := (caps s)(t := zero_capability\<lparr>cap_handlers := Node_handlers\<rparr>),
        res_links := (res_links s)(t := zero_nc_link), der_links := (der_links s)(t := zero_nc_link)\<rparr>"

lemma start_process_server_steps:
  assumes "threads s t = new_thread" and "\<forall>i < 64. priority_queues s i = LIST_INIT" and "current_thread s = NULL"
    and "alloc_node ROOT_CAP_SLOT_BITS (before_root_node regs t s) = Some (s6, node)"
  shows "start_process_server env regs t s =
    (let s7 = upd_cap t (\<lambda>c. c\<lparr>cap_resource := node\<rparr>) s6
     in if node = NULL then Some (s7, False)
      else
        let s8 = (upd_cap t (\<lambda>c. c\<lparr>cap_flags := CAP_FLAG_IS_HEAP_MANAGED OR CAP_FLAG_ORIGINAL, cap_access_rights := 255,
                     cap_heap := the_heap env,
                     cap_address := (cap_address c)\<lparr>aca_thread_id := thread_id (threads s7 t), aca_bucket_number := bucket_number (threads s7 t)\<rparr>\<rparr>) s7)
                   \<lparr>res_links := LIST_INIT_NO_CONTAINER (res_links s7) t\<rparr>;
            s9 = heap_unlock node (heap_set_update_capability node (cap_address (caps s8 t)) s8);
            s10 = (upd_thread t (\<lambda>x. x\<lparr>thread_flags := thread_flags x OR THREAD_CURRENTLY_RUNNING\<rparr>) s9)\<lparr>current_thread := t\<rparr>
        in Some (heap_unlock t s10, True))"
proof -
  let ?s1 = "upd_thread t (\<lambda>x. x\<lparr>registers := regs\<rparr>) s"
  have "resume_thread t EXEC_MODE_SUSPENDED ?s1 =
      s\<lparr>threads := (threads s)(t := (threads s t)\<lparr>registers := regs, exec_mode := EXEC_MODE_RUNNING, runqueue := Some 63\<rparr>),
        priority_queues := (priority_queues s)(63 := \<lparr>lc_start = t, lc_end = t\<rparr>),
        runqueue_entry := (runqueue_entry s)(t := zero_link), pending_context_switch := True\<rparr>"
    using resume_first_thread [of ?s1 t] assms(1-3) by (simp add: upd_thread_def new_thread_def zero_thread_def)
  then have "(let s3 = heap_set_update_function t On_thread_moved (resume_thread t EXEC_MODE_SUSPENDED ?s1)
      in upd_cap t (\<lambda>c. c\<lparr>cap_handlers := Node_handlers\<rparr>)
          (s3\<lparr>caps := (caps s3)(t := zero_capability), res_links := (res_links s3)(t := zero_nc_link),
              der_links := (der_links s3)(t := zero_nc_link)\<rparr>)) = before_root_node regs t s"
    by (simp add: before_root_node_def Let_def upd_cap_def heap_set_update_function_def upd_hdr_def)
  then show ?thesis using assms(4) by (simp only: start_process_server_def Let_def bind.bind_lunit prod.case)
qed

lemma before_root_node_cong:
  "hdrs (before_root_node regs t s) = hdrs (heap_set_update_function t On_thread_moved s)"
  "hp (before_root_node regs t s) = hp (heap_set_update_function t On_thread_moved s)"
  by (simp_all add: before_root_node_def)

lemma start_process_server_runs:
  assumes "room s objects (unat (alloc_size (node_alloc_size 16)) + 27)" and "t \<in> objects"
    and th: "threads s t = new_thread" and q: "\<forall>i < 64. priority_queues s i = LIST_INIT" and c: "current_thread s = NULL"
  shows "\<exists>s' node. start_process_server env regs t s = Some (s', True) \<and> current_thread s' = t \<and> user_bytes s' = user_bytes s
    \<and> only_in_queue t s' \<and> registers (threads s' t) = regs \<and> exec_mode (threads s' t) = EXEC_MODE_RUNNING \<and> thread_id (threads s' t) = 1
    \<and> caps s' t = root_capability_of env (threads s' t) node \<and> empty_root_node s' node"
proof -
  let ?s5 = "before_root_node regs t s"
  have "room ?s5 objects (unat (alloc_size (node_alloc_size 16)) + 27)"
    using assms(1) room_cong [OF before_root_node_cong] by (simp add: room_mark)
  from alloc_root_node [OF this] obtain s6 node H P where
    n: "alloc_node ROOT_CAP_SLOT_BITS ?s5 = Some (s6, node)" "node \<noteq> NULL" "node \<notin> objects"
    and s6: "s6 = ?s5\<lparr>hdrs := H, hp := P, nodes := (nodes ?s5)(node := \<lparr>slot_bits = 4, nested_nodes = 1\<rparr>), caps := caps s6\<rparr>"
    and slots: "\<And>i. i < 16 \<Longrightarrow> cap_handlers (caps s6 (slot_address node (of_nat i))) = No_handlers"
    and t6: "caps s6 t = zero_capability\<lparr>cap_handlers := Node_handlers\<rparr>"
    using assms(2) by (auto simp: before_root_node_def)
  have nt: "slot_address node (of_nat i) \<noteq> t" if "i < 16" for i using slots [OF that] t6 by auto
  obtain C where s6': "s6 = ?s5\<lparr>hdrs := H, hp := P, nodes := (nodes ?s5)(node := \<lparr>slot_bits = 4, nested_nodes = 1\<rparr>), caps := C\<rparr>"
    and C: "caps s6 = C" using s6 by blast
  note run = start_process_server_steps [OF th q c n(1), of env]
  show ?thesis
    unfolding run using n(2) slots nt t6 q th
    by (simp add: Let_def s6' C upd_cap_def upd_thread_def heap_unlock_def heap_set_update_capability_def upd_hdr_def before_root_node_def
        heap_set_update_function_def only_in_queue_def empty_root_node_def root_capability_of_def new_thread_def zero_capability_def)
qed

text \<open>
  C11: with room for its three objects, a valid binary of the process server becomes the first thread: it has the id 1, runs
  with the registers its loader set, is the only thread in the run queues, and its root capability is a node with 16
  empty slots that it owns with all rights. Once the kernel has handed over the current thread, entering user mode continues
  in the process server, with the supervisor bit clear.
\<close>

theorem process_server_is_first_thread:
  assumes "h = bflt_header_at (user_bytes s) (process_server env)" and "bflt_verify h"
    and "unat (bflt_allocation_size h) + 29 < 2 ^ 32"
    and "room s {} (unat (alloc_size (bflt_allocation_size h)) + (unat (alloc_size sizeof_thread_capability)
           + (unat (alloc_size (node_alloc_size 16)) + 27)))"
    and "heap_alloc kernel_hooks (init_scheduler (init_threads s)) (bflt_allocation_size h) = Some (s2, allocation)"
    and "bflt_load h (process_server env) allocation (unset_registers env) (user_bytes s) = Some (m, regs)"
  shows "\<exists>s' t node. load_process_server env s = Some (s', True) \<and> t \<noteq> NULL \<and> current_thread s' = t \<and> user_bytes s' = m
    \<and> only_in_queue t s' \<and> registers (threads s' t) = regs \<and> exec_mode (threads s' t) = EXEC_MODE_RUNNING \<and> thread_id (threads s' t) = 1
    \<and> caps s' t = root_capability_of env (threads s' t) node \<and> empty_root_node s' node
    \<and> (\<exists>s''. enter_user_mode env (s'\<lparr>current_thread := NULL\<rparr>) = (s'', regs\<lparr>status_register := status_register regs AND 0x00ff\<rparr>)
         \<and> current_thread s'' = t)"
proof -
  let ?s1 = "init_scheduler (init_threads s)"
  have "room ?s1 {} (unat (alloc_size (bflt_allocation_size h)) + (unat (alloc_size sizeof_thread_capability)
           + (unat (alloc_size (node_alloc_size 16)) + 27)))"
    using assms(4) room_cong [of ?s1 s] by (simp add: init_scheduler_def init_threads_def)
  from alloc_room [OF this assms(3), of kernel_hooks] assms(5) have
    a: "allocation \<noteq> NULL" "room s2 {allocation} (unat (alloc_size sizeof_thread_capability) + (unat (alloc_size (node_alloc_size 16)) + 27))"
      "heap_frame ?s1 s2" by auto
  obtain H P where s2: "s2 = ?s1\<lparr>hdrs := H, hp := P\<rparr>" using a(3) unfolding heap_frame_def by blast
  let ?s2 = "s2\<lparr>user_bytes := m\<rparr>"
  have "room ?s2 {allocation} (unat (alloc_size sizeof_thread_capability) + (unat (alloc_size (node_alloc_size 16)) + 27))"
    using a(2) room_cong [of ?s2 s2] by simp
  from alloc_first_thread [OF this] obtain s3 t where
    t: "alloc_thread ?s2 = Some (s3, t)" "t \<noteq> NULL" "room s3 {t, allocation} (unat (alloc_size (node_alloc_size 16)) + 27)"
      "same_run ?s2 s3" "threads s3 t = new_thread"
    by (auto simp: s2 init_scheduler_def init_threads_def new_thread_def)
  have q: "\<forall>i < 64. priority_queues s3 i = LIST_INIT" "current_thread s3 = NULL" "user_bytes s3 = m"
    using t(4) by (simp_all add: same_run_def s2 init_scheduler_def kernel_consts)
  from start_process_server_runs [OF t(3) _ t(5) q(1,2), of env regs] q(3) obtain s' node where
    r: "start_process_server env regs t s3 = Some (s', True)" "current_thread s' = t" "user_bytes s' = m"
      "only_in_queue t s'" "registers (threads s' t) = regs" "exec_mode (threads s' t) = EXEC_MODE_RUNNING" "thread_id (threads s' t) = 1"
      "caps s' t = root_capability_of env (threads s' t) node" "empty_root_node s' node" by auto
  have u: "user_bytes ?s1 = user_bytes s" "user_bytes s2 = user_bytes s" by (simp_all add: s2 init_scheduler_def init_threads_def)
  have "load_process_server env s = Some (s', True)"
    using assms(2,5,6) a(1) t(1,2) r(1) by (simp add: load_process_server_def Let_def u assms(1) [symmetric])
  moreover have "only_in_queue t (s'\<lparr>current_thread := NULL\<rparr>)" using r(4) by (simp add: only_in_queue_def)
  from enter_user_mode_only [OF this t(2), of env] r(5) have "\<exists>s''. enter_user_mode env (s'\<lparr>current_thread := NULL\<rparr>) =
      (s'', regs\<lparr>status_register := status_register regs AND 0x00ff\<rparr>) \<and> current_thread s'' = t" by auto
  ultimately show ?thesis using r t(2) by blast
qed

text \<open>A heap of one free block, and a binary of the process server without code at address 65536.\<close>

definition demo_image :: memory where
  "demo_image = (\<lambda>_. 0)(65536 := 98, 65537 := 70, 65538 := 76, 65539 := 84, 65543 := 4, 65547 := 64, 65551 := 64, 65555 := 64,
     65559 := 64, 65562 := 1, 65575 := 1)"

definition demo_boot :: boot_environment where
  "demo_boot = \<lparr>the_heap = 2048, process_server = 65536, unset_registers = zero_registers, idle_thread_address = 1024\<rparr>"

lemma demo_image_header: "bflt_header_at demo_image 65536 =
    \<lparr>magic = [98, 70, 76, 84], version = 4, entry_point = 64, data_start = 64, data_end = 64, bss_end = 64, stack_size = 256,
     relocations_start = 0, num_relocations = 0, bflt_flags = 1\<rparr>"
  by (simp add: bflt_header_at_def demo_image_def load_word_def bytes_word_def)

lemma room_demo: "n \<le> 4000 \<Longrightarrow> room ((demo_kernel 4000)\<lparr>user_bytes := m\<rparr>) {} n"
proof -
  assume n: "n \<le> 4000"
  have d: "26 \<le> (4000 :: size_t)" "unat (4000 :: size_t) < 2 ^ 31" by simp_all
  have "heap_with (demo_kernel 4000) [4096] {} n" using demo_kernel_wf [OF d] n by (simp add: heap_with_def)
  then have "room (demo_kernel 4000) {} n" unfolding room_def by blast
  then show ?thesis using room_cong [of "(demo_kernel 4000)\<lparr>user_bytes := m\<rparr>" "demo_kernel 4000"] by simp
qed

theorem process_server_is_first_thread_witness:
  "\<exists>s' s'' regs. load_process_server demo_boot ((demo_kernel 4000)\<lparr>user_bytes := demo_image\<rparr>) = Some (s', True)
    \<and> enter_user_mode demo_boot (s'\<lparr>current_thread := NULL\<rparr>) = (s'', regs) \<and> thread_id (threads s' (current_thread s'')) = 1"
proof -
  let ?s = "(demo_kernel 4000)\<lparr>user_bytes := demo_image\<rparr>" and ?h = "bflt_header_at demo_image 65536"
  let ?s1 = "init_scheduler (init_threads ?s)"
  have env: "process_server demo_boot = 65536" "unset_registers demo_boot = zero_registers" by (simp_all add: demo_boot_def)
  have h: "bflt_verify ?h" "bflt_allocation_size ?h = 256" "\<not> gotpic ?h"
    by (simp_all add: demo_image_header bflt_verify_def bflt_allocation_size_def gotpic_def BFLT_FLAG_GZIP_def BFLT_FLAG_GOTPIC_def
        sizeof_bflt_header_def)
  have sz: "unat (alloc_size 256) + (unat (alloc_size sizeof_thread_capability) + (unat (alloc_size (node_alloc_size 16)) + 27)) \<le> 4000"
    by (simp add: alloc_size_def node_alloc_size_def kernel_consts heap_consts)
  have "room ?s1 {} (unat (alloc_size 256) + 27)"
    using room_demo [of "unat (alloc_size 256) + 27" demo_image] sz room_cong [of ?s1 ?s] by (simp add: init_scheduler_def init_threads_def)
  from alloc_room [OF this, of kernel_hooks] obtain s2 a where a: "heap_alloc kernel_hooks ?s1 256 = Some (s2, a)" by auto
  obtain m regs where l: "bflt_load ?h 65536 a zero_registers demo_image = Some (m, regs)" using h(3) by (simp add: bflt_load_def Let_def)
  from process_server_is_first_thread [of ?h ?s demo_boot s2 a m regs] h room_demo [OF sz] a l env show ?thesis by fastforce
qed

text \<open>Without a valid binary, or without room for it, the kernel starts no thread and goes to the idle loop.\<close>

lemma no_process_server_idles:
  assumes "heap_wf s hs" and "\<forall>k \<in> set hs. pinned s k" and "h = bflt_header_at (user_bytes s) (process_server env)"
    and "\<not> bflt_verify h \<or> unat (bflt_allocation_size h) + 29 < 2 ^ 32 \<and> find_run s (unat (alloc_size (bflt_allocation_size h))) [] hs = None"
  shows "\<exists>s' s''. main_init env s = Some s' \<and> current_thread s'' = NULL \<and> enter_user_mode env s' = (s'', (unset_registers env)
    \<lparr>program_counter := idle_thread_address env, status_register := status_register (unset_registers env) AND 0x00ff\<rparr>)"
proof -
  let ?s1 = "init_scheduler (init_threads s)"
  have hd: "hdrs ?s1 = hdrs s" "hp ?s1 = hp s" "user_bytes ?s1 = user_bytes s" by (simp_all add: init_scheduler_def init_threads_def)
  have wf: "heap_wf ?s1 hs" "\<And>k. k \<in> set hs \<Longrightarrow> pinned ?s1 k" using assms(1,2) heap_wf_cong [OF hd(1,2)] by auto
  have "heap_alloc kernel_hooks ?s1 (bflt_allocation_size h) = Some (?s1, NULL)" if "bflt_verify h"
    using that assms(4) heap_alloc_pinned [OF wf, of "bflt_allocation_size h" kernel_hooks] heap_wf_cong(5) [OF hd(1,2)] by simp
  then have "main_init env s = Some ?s1"
    by (cases "bflt_verify h") (simp_all add: main_init_def load_process_server_def Let_def hd(3) assms(3) [symmetric])
  moreover have "\<forall>i < 64. priority_queues ?s1 i = LIST_INIT" "current_thread ?s1 = NULL" by (simp_all add: init_scheduler_def kernel_consts)
  from enter_user_mode_idles [OF this, of env] this(2) have "\<exists>s''. current_thread s'' = NULL \<and> enter_user_mode env ?s1 = (s'', (unset_registers env)
    \<lparr>program_counter := idle_thread_address env, status_register := status_register (unset_registers env) AND 0x00ff\<rparr>)" by simp
  ultimately show ?thesis by blast
qed

text \<open>
  The process server is made ready before its root node is allocated. When that allocation fails, start-up reports that
  it cannot continue, but the thread stays in its queue: entering user mode runs the process server all the same, with a node
  capability whose resource is NULL.
\<close>

lemma failed_root_node_still_runs:
  assumes "heap_wf s hs" and "\<forall>k \<in> set hs. pinned s k" and "find_run s (unat (alloc_size (node_alloc_size 16))) [] hs = None"
    and "threads s t = new_thread" and "t \<noteq> NULL" and "\<forall>i < 64. priority_queues s i = LIST_INIT" and "current_thread s = NULL"
  shows "\<exists>s' s''. start_process_server env regs t s = Some (s', False)
    \<and> enter_user_mode env s' = (s'', regs\<lparr>status_register := status_register regs AND 0x00ff\<rparr>) \<and> current_thread s'' = t
    \<and> cap_handlers (caps s'' t) = Node_handlers \<and> cap_resource (caps s'' t) = NULL"
proof -
  let ?s5 = "before_root_node regs t s"
  note mk = mark_cong [OF refl, of t On_thread_moved s] and cg = heap_wf_cong [OF before_root_node_cong, of regs t s]
  have wf: "heap_wf ?s5 hs" "\<And>k. k \<in> set hs \<Longrightarrow> pinned ?s5 k" "find_run ?s5 (unat (alloc_size (node_alloc_size 16))) [] hs = None"
    using assms(1-3) mk cg by auto
  have "unat (node_alloc_size 16) + 29 < 2 ^ 32" by (simp add: node_alloc_size_def kernel_consts)
  from heap_alloc_pinned [OF wf(1,2) this, of kernel_hooks] wf(3)
  have "alloc_node ROOT_CAP_SLOT_BITS ?s5 = Some (?s5, NULL)" by (simp add: alloc_node_def kernel_consts shl_def)
  from start_process_server_steps [OF assms(4,6,7) this, of env] obtain s' where
    s': "start_process_server env regs t s = Some (s', False)" "s' = upd_cap t (\<lambda>c. c\<lparr>cap_resource := NULL\<rparr>) ?s5" by auto
  have "only_in_queue t s'" "current_thread s' = NULL" "registers (threads s' t) = regs"
    "cap_handlers (caps s' t) = Node_handlers" "cap_resource (caps s' t) = NULL"
    using assms(6,7) by (simp_all add: s'(2) only_in_queue_def upd_cap_def before_root_node_def heap_set_update_function_def upd_hdr_def)
  with enter_user_mode_only [of t s' env] assms(5) s'(1) show ?thesis by auto
qed

lemma failed_root_node_still_runs_example:
  "\<exists>s' s'' regs. start_process_server demo_boot zero_registers 256 ((demo_kernel 1000)\<lparr>threads := (\<lambda>_. new_thread)\<rparr>) = Some (s', False)
    \<and> enter_user_mode demo_boot s' = (s'', regs) \<and> current_thread s'' = 256 \<and> cap_resource (caps s'' 256) = NULL"
proof -
  let ?s = "(demo_kernel 1000)\<lparr>threads := (\<lambda>_. new_thread)\<rparr>"
  have d: "26 \<le> (1000 :: size_t)" "unat (1000 :: size_t) < 2 ^ 31" by simp_all
  have hd: "hdrs ?s = hdrs (demo_kernel 1000)" "hp ?s = hp (demo_kernel 1000)" by simp_all
  have sz: "unat (alloc_size (node_alloc_size 16)) = 1180" by (simp add: alloc_size_def node_alloc_size_def kernel_consts heap_consts)
  have wf: "heap_wf ?s [4096]" "\<forall>k \<in> set [4096]. pinned ?s k" "find_run ?s (unat (alloc_size (node_alloc_size 16))) [] [4096] = None"
    using demo_kernel_wf [OF d] heap_wf_cong [OF hd] sz by simp_all
  from failed_root_node_still_runs [OF wf, of 256 demo_boot zero_registers] show ?thesis
    by (fastforce simp: demo_kernel_def zero_kstate_def)
qed

end
