(* ===== verification/Moving_Blocks.thy ===== *)
theory Moving_Blocks
  imports Heap_Free "HOL-Library.Multiset"
begin

unbundle bit_operations_syntax

text \<open>
  Allocation on heaps with movable blocks. \<open>heap_alloc\<close> may choose a series of blocks that are in use but
  movable; it then allocates room for each of them with a nested call, copies it and tells its owner, before it
  takes the series. Whenever the call returns, with a block or without, the heap is well formed, the
  blocks that must not move are where they were, and every movable block still exists and has the same owner.
\<close>

section \<open>The bits of the flags\<close>

text \<open>Setting one of the two kinds in the flags keeps the other, and the bits that say who owns the block.\<close>

definition owner_bits :: "heap_header \<Rightarrow> uint8_t" where
  "owner_bits x = hh_flags x AND (FLAG_CAPABILITY_RESOURCE OR FLAG_UPDATE_FUNCTION)"

definition a_kind :: "uint8_t \<Rightarrow> bool" where
  "a_kind k \<longleftrightarrow> k = KIND_AVAILABLE \<or> k = KIND_IMMOVABLE \<or> k = KIND_MOVABLE"

lemma set_kind_bits:
  assumes "a_kind k"
  shows "GET_KIND (SET_KIND x k) = k" "GET_OLD_KIND (SET_KIND x k) = GET_OLD_KIND x" "owner_bits (SET_KIND x k) = owner_bits x"
    "GET_OLD_KIND (SET_OLD_KIND x k) = k" "GET_KIND (SET_OLD_KIND x k) = GET_KIND x" "owner_bits (SET_OLD_KIND x k) = owner_bits x"
  using assms unfolding a_kind_def
  by (auto simp: GET_KIND_def SET_KIND_def GET_OLD_KIND_def SET_OLD_KIND_def owner_bits_def heap_consts
      bit.conj_disj_distrib2 and.assoc drop_bit_and drop_bit_or)

lemma set_kind_fields [simp]:
  "hh_size (SET_KIND x k) = hh_size x" "hh_next (SET_KIND x k) = hh_next x" "hh_prev (SET_KIND x k) = hh_prev x"
  "hh_update_ref (SET_KIND x k) = hh_update_ref x" "hh_size (SET_OLD_KIND x k) = hh_size x"
  "hh_next (SET_OLD_KIND x k) = hh_next x" "hh_prev (SET_OLD_KIND x k) = hh_prev x"
  "hh_update_ref (SET_OLD_KIND x k) = hh_update_ref x"
  by (simp_all add: SET_KIND_def SET_OLD_KIND_def)

section \<open>Heaps with movable blocks\<close>

text \<open>Blocks that must stay where they are, and blocks that may move.\<close>

definition stays :: "'x heap_state_scheme \<Rightarrow> addr \<Rightarrow> bool" where
  "stays s h \<longleftrightarrow> GET_KIND (hdrs s h) = KIND_IMMOVABLE"

definition moves :: "'x heap_state_scheme \<Rightarrow> addr \<Rightarrow> bool" where
  "moves s h \<longleftrightarrow> GET_KIND (hdrs s h) = KIND_MOVABLE"

definition held :: "'x heap_state_scheme \<Rightarrow> addr \<Rightarrow> bool" where
  "held s h \<longleftrightarrow> GET_OLD_KIND (hdrs s h) = KIND_MOVABLE"

text \<open>The bits in the flags name the member of the union that is in use.\<close>

definition owner_ok :: "heap_header \<Rightarrow> bool" where
  "owner_ok x \<longleftrightarrow> owner_bits x = (case hh_update_ref x of Update_capability a \<Rightarrow> FLAG_CAPABILITY_RESOURCE
     | Update_function f \<Rightarrow> FLAG_UPDATE_FUNCTION | Absolute_ptr p \<Rightarrow> 0)"

definition owners :: "'x heap_state_scheme \<Rightarrow> addr list \<Rightarrow> update_ref multiset" where
  "owners s hs = image_mset (\<lambda>h. hh_update_ref (hdrs s h)) (mset hs)"

definition heap_inv :: "'x heap_state_scheme \<Rightarrow> addr list \<Rightarrow> bool" where
  "heap_inv s hs \<longleftrightarrow> heap_wf s hs \<and> bytes s hs + 3 < 2 ^ 32
     \<and> (\<forall>h \<in> set hs. a_kind (GET_KIND (hdrs s h)) \<and> (moves s h \<longrightarrow> owner_ok (hdrs s h)))"

lemma heap_inv_distinct: "heap_inv s hs \<Longrightarrow> distinct hs"
  unfolding heap_inv_def using heap_wf_distinct by blast

text \<open>A header that is the same but for its links.\<close>

definition same_header :: "'x heap_state_scheme \<Rightarrow> 'x heap_state_scheme \<Rightarrow> addr \<Rightarrow> bool" where
  "same_header s s' h \<longleftrightarrow> hh_size (hdrs s' h) = hh_size (hdrs s h) \<and> hh_flags (hdrs s' h) = hh_flags (hdrs s h)
     \<and> hh_update_ref (hdrs s' h) = hh_update_ref (hdrs s h)"

lemma same_headerD:
  assumes "same_header s s' h"
  shows "bsize s' h = bsize s h" "GET_KIND (hdrs s' h) = GET_KIND (hdrs s h)" "stays s' h = stays s h" "moves s' h = moves s h"
    "held s' h = held s h" "available s' h = available s h" "owner_ok (hdrs s' h) = owner_ok (hdrs s h)"
    "hh_update_ref (hdrs s' h) = hh_update_ref (hdrs s h)"
  using assms
  by (simp_all add: same_header_def bsize_def GET_KIND_def stays_def moves_def held_def GET_OLD_KIND_def available_def owner_ok_def owner_bits_def)

lemma same_header_refl [simp]: "same_header s s h"
  by (simp add: same_header_def)

lemma same_header_trans: "same_header s t h \<Longrightarrow> same_header t u h \<Longrightarrow> same_header s u h"
  by (simp add: same_header_def)

lemma owners_simps [simp]: "owners s [] = {#}" "owners s (h # hs) = add_mset (hh_update_ref (hdrs s h)) (owners s hs)"
  "owners s (hs @ ks) = owners s hs + owners s ks"
  by (simp_all add: owners_def)

lemma owners_cong: "(\<And>h. h \<in> set hs \<Longrightarrow> hh_update_ref (hdrs s' h) = hh_update_ref (hdrs s h)) \<Longrightarrow> owners s' hs = owners s hs"
  by (induction hs) auto

lemma owners_mset: "mset hs = mset ks \<Longrightarrow> owners s hs = owners s ks"
  by (simp add: owners_def)

lemma filter_same_header:
  assumes "\<And>h. h \<in> set hs \<Longrightarrow> same_header s s' h"
  shows "filter (moves s') hs = filter (moves s) hs" "filter (held s') hs = filter (held s) hs" "owners s' hs = owners s hs"
  using same_headerD [OF assms] by (auto intro: filter_cong owners_cong)

section \<open>Marking and reverting a series\<close>

definition mark :: "heap_header \<Rightarrow> heap_header" where
  "mark x = SET_KIND (SET_OLD_KIND x (GET_KIND x)) KIND_IMMOVABLE"

definition unmark :: "heap_header \<Rightarrow> heap_header" where
  "unmark x = SET_KIND x (GET_OLD_KIND x)"

lemma mark_fields [simp]:
  "hh_size (mark x) = hh_size x" "hh_next (mark x) = hh_next x" "hh_prev (mark x) = hh_prev x" "hh_update_ref (mark x) = hh_update_ref x"
  "hh_size (unmark x) = hh_size x" "hh_next (unmark x) = hh_next x" "hh_prev (unmark x) = hh_prev x" "hh_update_ref (unmark x) = hh_update_ref x"
  by (simp_all add: mark_def unmark_def)

definition change_hdrs :: "(heap_header \<Rightarrow> heap_header) \<Rightarrow> addr list \<Rightarrow> 'x heap_state_scheme \<Rightarrow> 'x heap_state_scheme" where
  "change_hdrs f r s = s\<lparr>hdrs := (\<lambda>a. if a \<in> set r then f (hdrs s a) else hdrs s a)\<rparr>"

lemma change_hdrs_simps [simp]:
  "hdrs (change_hdrs f r s) a = (if a \<in> set r then f (hdrs s a) else hdrs s a)" "hp (change_hdrs f r s) = hp s"
  by (simp_all add: change_hdrs_def)

lemma change_hdrs_Cons: "h \<notin> set r \<Longrightarrow> change_hdrs f r (upd_hdr h f s) = change_hdrs f (h # r) s"
  by (auto simp: change_hdrs_def upd_hdr_def fun_eq_iff intro!: arg_cong [of _ _ "\<lambda>g. s\<lparr>hdrs := g\<rparr>"])

lemma change_hdrs_upd_used: "change_hdrs f r (upd_used g s) = upd_used g (change_hdrs f r s)"
  by (simp add: change_hdrs_def upd_used_def cong: if_cong)

lemma change_hdrs_Nil [simp]: "change_hdrs f [] s = s"
  by (simp add: change_hdrs_def)

lemma upd_used_upd_used: "upd_used f (upd_used g s) = upd_used (\<lambda>u. f (g u)) s"
  by (simp add: upd_used_def)

lemma mark_blocks_run:
  assumes "distinct r" and "r \<noteq> []" and "dseg pv (next_of s) p r q"
  shows "mark_blocks (hd_or NULL r) (last_or NULL r) s = Some (upd_used (\<lambda>u. u + of_nat (free_bytes s r)) (change_hdrs mark r s))"
  using assms
proof (induction r arbitrary: s p)
  case (Cons h r)
  define s2 where "s2 = (if available s h then upd_used (\<lambda>u. u + hh_size (hdrs s h)) (upd_hdr h mark s) else upd_hdr h mark s)"
  have e: "mark_blocks h (last_or NULL (h # r)) s =
      (if h = last_or NULL (h # r) then Some s2 else mark_blocks (hh_next (hdrs s h)) (last_or NULL (h # r)) s2)"
    unfolding s2_def
    by (subst mark_blocks.simps) (auto simp: Let_def mark_def available_def upd_hdr_def upd_used_def SET_KIND_def SET_OLD_KIND_def GET_KIND_def)
  have c: "change_hdrs mark r s2 = (if available s h then upd_used (\<lambda>u. u + hh_size (hdrs s h)) (change_hdrs mark (h # r) s)
      else change_hdrs mark (h # r) s)"
    using Cons.prems(1) by (simp add: s2_def change_hdrs_upd_used change_hdrs_Cons)
  show ?case
  proof (cases "r = []")
    case True
    then show ?thesis using e c by (simp add: upd_used_def)
  next
    case False
    have nx: "hh_next (hdrs s h) = hd_or NULL r" using Cons.prems(3) False by (cases r) auto
    have ne: "h \<noteq> last_or NULL r" using Cons.prems(1) last_or_in_set [OF False, of NULL] by auto
    have last: "last_or NULL (h # r) = last_or NULL r" using False by (simp add: last_or_def)
    have s2: "hdrs s2 a = hdrs s a" if "a \<in> set r" for a using that Cons.prems(1) by (auto simp: s2_def)
    have "dseg pv (next_of s2) h r q" using Cons.prems(3) by (subst dseg_cong [of r pv pv _ "next_of s"]) (auto simp: s2)
    from Cons.IH [OF _ False this] Cons.prems(1) have
      "mark_blocks (hd_or NULL r) (last_or NULL r) s2 = Some (upd_used (\<lambda>u. u + of_nat (free_bytes s2 r)) (change_hdrs mark r s2))" by simp
    moreover have "free_bytes s2 r = free_bytes s r" by (intro free_bytes_cong) (auto simp: bsize_def available_def s2)
    ultimately show ?thesis using e nx ne last
      by (simp add: c upd_used_upd_used add.commute add.left_commute)
  qed
qed simp

definition was_free :: "'x heap_state_scheme \<Rightarrow> addr \<Rightarrow> bool" where
  "was_free s h \<longleftrightarrow> GET_OLD_KIND (hdrs s h) = KIND_AVAILABLE"

lemma revert_blocks_run:
  assumes "distinct r" and "r \<noteq> []" and "dseg pv (next_of s) p r q"
  shows "revert_blocks (hd_or NULL r) (last_or NULL r) s =
    Some (upd_used (\<lambda>u. u - of_nat (bytes s (filter (was_free s) r))) (change_hdrs unmark r s))"
  using assms
proof (induction r arbitrary: s p)
  case (Cons h r)
  define s2 where "s2 = (if was_free s h then upd_used (\<lambda>u. u - hh_size (hdrs s h)) (upd_hdr h unmark s) else upd_hdr h unmark s)"
  have e: "revert_blocks h (last_or NULL (h # r)) s =
      (if h = last_or NULL (h # r) then Some s2 else revert_blocks (hh_next (hdrs s h)) (last_or NULL (h # r)) s2)"
    unfolding s2_def
    by (subst revert_blocks.simps) (auto simp: Let_def unmark_def was_free_def upd_hdr_def upd_used_def SET_KIND_def)
  have c: "change_hdrs unmark r s2 = (if was_free s h then upd_used (\<lambda>u. u - hh_size (hdrs s h)) (change_hdrs unmark (h # r) s)
      else change_hdrs unmark (h # r) s)"
    using Cons.prems(1) by (simp add: s2_def change_hdrs_upd_used change_hdrs_Cons)
  show ?case
  proof (cases "r = []")
    case True
    then show ?thesis using e c by (simp add: upd_used_def)
  next
    case False
    have nx: "hh_next (hdrs s h) = hd_or NULL r" using Cons.prems(3) False by (cases r) auto
    have ne: "h \<noteq> last_or NULL r" using Cons.prems(1) last_or_in_set [OF False, of NULL] by auto
    have last: "last_or NULL (h # r) = last_or NULL r" using False by (simp add: last_or_def)
    have s2: "hdrs s2 a = hdrs s a" if "a \<in> set r" for a using that Cons.prems(1) by (auto simp: s2_def)
    have "dseg pv (next_of s2) h r q" using Cons.prems(3) by (subst dseg_cong [of r pv pv _ "next_of s"]) (auto simp: s2)
    from Cons.IH [OF _ False this] Cons.prems(1) have
      "revert_blocks (hd_or NULL r) (last_or NULL r) s2 =
        Some (upd_used (\<lambda>u. u - of_nat (bytes s2 (filter (was_free s2) r))) (change_hdrs unmark r s2))" by simp
    moreover have "filter (was_free s2) r = filter (was_free s) r" by (rule filter_cong) (auto simp: was_free_def s2)
    moreover have "bytes s2 (filter (was_free s) r) = bytes s (filter (was_free s) r)" by (rule bytes_cong) (auto simp: bsize_def s2)
    ultimately show ?thesis using e nx ne last by (simp add: c upd_used_upd_used diff_diff_eq)
  qed
qed simp

text \<open>Changing the kinds in a series keeps the layout.\<close>

lemma change_hdrs_layout:
  assumes "\<And>x. hh_size (f x) = hh_size x" "\<And>x. hh_next (f x) = hh_next x" "\<And>x. hh_prev (f x) = hh_prev x"
  shows "bsize (change_hdrs f r s) = bsize s" "bytes (change_hdrs f r s) = bytes s"
    "heap_linked (change_hdrs f r s) hs = heap_linked s hs"
proof -
  show b: "bsize (change_hdrs f r s) = bsize s" by (simp add: bsize_def fun_eq_iff assms)
  show "bytes (change_hdrs f r s) = bytes s" by (rule ext) (simp add: bytes_def b)
  have "prev_of (change_hdrs f r s) = prev_of s" "next_of (change_hdrs f r s) = next_of s" by (simp_all add: fun_eq_iff assms)
  moreover have "blocks (change_hdrs f r s) lo hs hi = blocks s lo hs hi" for lo hi by (rule blocks_cong) (simp add: b)
  ultimately show "heap_linked (change_hdrs f r s) hs = heap_linked s hs" unfolding heap_linked_def by simp
qed

lemmas mark_layout = change_hdrs_layout [of mark, simplified] change_hdrs_layout [of unmark, simplified]

section \<open>A series that is being cleared\<close>

text \<open>
  The blocks of the series are adjacent and must not move; each was available, or was movable and
  its owner is known.
\<close>

definition series :: "'x heap_state_scheme \<Rightarrow> addr list \<Rightarrow> addr list \<Rightarrow> bool" where
  "series s hs r \<longleftrightarrow> heap_inv s hs \<and> r \<noteq> [] \<and> (\<exists>ys zs. hs = ys @ r @ zs)
     \<and> (\<forall>h \<in> set r. stays s h \<and> (held s h \<or> was_free s h) \<and> (held s h \<longrightarrow> owner_ok (hdrs s h)))"

text \<open>The owners of everything that can move, in the series or elsewhere.\<close>

definition all_owners :: "'x heap_state_scheme \<Rightarrow> addr list \<Rightarrow> addr list \<Rightarrow> update_ref multiset" where
  "all_owners s hs r = owners s (filter (moves s) hs) + owners s (filter (held s) r)"

lemma mark_kinds:
  assumes "a_kind (GET_KIND x)"
  shows "GET_KIND (mark x) = KIND_IMMOVABLE" "GET_OLD_KIND (mark x) = GET_KIND x" "owner_ok (mark x) = owner_ok x"
proof -
  have "a_kind KIND_IMMOVABLE" by (simp add: a_kind_def)
  note b = set_kind_bits [OF this] set_kind_bits [OF assms]
  show "GET_KIND (mark x) = KIND_IMMOVABLE" "GET_OLD_KIND (mark x) = GET_KIND x" by (simp_all add: mark_def b)
  show "owner_ok (mark x) = owner_ok x" by (simp add: owner_ok_def) (simp add: mark_def b)
qed

lemma heap_wf_next: "heap_wf s (ys @ r @ zs) \<Longrightarrow> \<exists>p q. dseg (prev_of s) (next_of s) p r q"
  by (auto simp: heap_wf_def heap_linked_def)

lemma mark_series:
  assumes inv: "heap_inv s (ys @ r @ zs)" and r: "r \<noteq> []" "\<And>h. h \<in> set r \<Longrightarrow> \<not> stays s h"
  shows "\<exists>s'. mark_blocks (hd_or NULL r) (last_or NULL r) s = Some s' \<and> series s' (ys @ r @ zs) r \<and> bytes s' = bytes s \<and> bsize s' = bsize s
    \<and> heap_base (hp s') = heap_base (hp s) \<and> total_memory (hp s') = total_memory (hp s)
    \<and> (\<forall>h \<in> set (ys @ zs). same_header s s' h) \<and> all_owners s' (ys @ r @ zs) r = owners s (filter (moves s) (ys @ r @ zs))"
proof -
  let ?hs = "ys @ r @ zs"
  have wf: "heap_wf s ?hs" and k: "\<And>h. h \<in> set ?hs \<Longrightarrow> a_kind (GET_KIND (hdrs s h))"
    and ok: "\<And>h. h \<in> set ?hs \<Longrightarrow> moves s h \<Longrightarrow> owner_ok (hdrs s h)" using inv by (auto simp: heap_inv_def)
  have dis: "distinct ?hs" using heap_wf_distinct [OF wf] .
  then have dr: "distinct r" and dj: "h \<notin> set r" if "h \<in> set (ys @ zs)" for h using that by auto
  define s' where "s' = upd_used (\<lambda>u. u + of_nat (free_bytes s r)) (change_hdrs mark r s)"
  have run: "mark_blocks (hd_or NULL r) (last_or NULL r) s = Some s'"
    using mark_blocks_run [OF _ r(1)] heap_wf_next [OF wf] dis unfolding s'_def by fastforce
  have lay: "bsize s' = bsize s" "bytes s' = bytes s" "heap_linked s' ?hs = heap_linked s ?hs"
    by (simp_all add: s'_def mark_layout)
  have out: "same_header s s' h" "hdrs s' h = hdrs s h" if "h \<in> set (ys @ zs)" for h using dj [OF that] by (simp_all add: same_header_def s'_def)
  have ins: "hdrs s' h = mark (hdrs s h)" if "h \<in> set r" for h using that by (simp add: s'_def)
  have kinds: "stays s' h" "held s' h = moves s h" "was_free s' h = available s h" "owner_ok (hdrs s' h) = owner_ok (hdrs s h)"
    if "h \<in> set r" for h
    using mark_kinds [OF k, of h] that by (simp_all add: stays_def held_def was_free_def moves_def available_def ins)
  have "unat (used_memory (hp s)) + free_bytes s r \<le> unat (total_memory (hp s))" using wf by (simp add: heap_wf_def)
  then have small: "unat (used_memory (hp s)) + free_bytes s r < 2 ^ 32" using unat_lt_2_32 [of "total_memory (hp s)"] by linarith
  then have "unat (of_nat (free_bytes s r) :: size_t) = free_bytes s r" by (simp add: unat_of_nat)
  then have used: "unat (used_memory (hp s')) = unat (used_memory (hp s)) + free_bytes s r"
    using small by (simp add: s'_def unat_plus_no_wrap)
  have fr: "free_bytes s' ys = free_bytes s ys" "free_bytes s' zs = free_bytes s zs"
    by (rule free_bytes_cong; use same_headerD [OF out(1)] in auto)+
  have "free_bytes s' r = 0" using kinds(1) by (auto simp: free_bytes_def filter_empty_conv stays_def available_def)
  with fr used wf lay have wf': "heap_wf s' ?hs" by (simp add: heap_wf_def) (simp add: s'_def)
  have inv': "heap_inv s' ?hs" unfolding heap_inv_def
  proof (intro conjI ballI)
    show "bytes s' ?hs + 3 < 2 ^ 32" using inv lay by (simp add: heap_inv_def)
    fix h assume h: "h \<in> set ?hs"
    show "a_kind (GET_KIND (hdrs s' h))"
      using h k [OF h] out(2) [of h] kinds(1) [of h] by (auto simp: stays_def a_kind_def)
    show "moves s' h \<longrightarrow> owner_ok (hdrs s' h)"
      using h ok [OF h] out(2) [of h] kinds(1) [of h] by (auto simp: stays_def moves_def)
  qed (rule wf')
  have "held s' h \<or> was_free s' h" "held s' h \<longrightarrow> owner_ok (hdrs s' h)" if "h \<in> set r" for h
    using kinds [OF that] k [of h] r(2) [OF that] ok [of h] that by (auto simp: a_kind_def moves_def available_def stays_def)
  then have "series s' ?hs r" using inv' r(1) kinds(1) by (auto simp: series_def)
  moreover have "all_owners s' ?hs r = owners s (filter (moves s) ?hs)"
  proof -
    have "filter (moves s') r = []" using kinds(1) by (auto simp: filter_empty_conv stays_def moves_def)
    moreover have "filter (held s') r = filter (moves s) r" using kinds(2) by (auto intro: filter_cong)
    moreover have "owners s' (filter (moves s) r) = owners s (filter (moves s) r)" by (rule owners_cong) (simp add: ins)
    moreover have "owners s' (filter (moves s') ys) = owners s (filter (moves s) ys)" "owners s' (filter (moves s') zs) = owners s (filter (moves s) zs)"
      using filter_same_header(1) [of ys s s'] filter_same_header(1) [of zs s s'] out by (auto intro!: owners_cong simp: same_headerD)
    ultimately show ?thesis by (simp add: all_owners_def)
  qed
  ultimately show ?thesis using run lay out by (auto simp: s'_def)
qed

lemma unmark_kinds:
  assumes "a_kind (GET_OLD_KIND x)"
  shows "GET_KIND (unmark x) = GET_OLD_KIND x" "owner_ok (unmark x) = owner_ok x"
proof -
  note b = set_kind_bits [OF assms]
  show "GET_KIND (unmark x) = GET_OLD_KIND x" by (simp add: unmark_def b)
  show "owner_ok (unmark x) = owner_ok x" by (simp add: owner_ok_def) (simp add: unmark_def b)
qed

lemma series_bytes_used:
  assumes "heap_wf s (ys @ r @ zs)" and "\<And>h. h \<in> set r \<Longrightarrow> stays s h"
  shows "bytes s r \<le> unat (used_memory (hp s))" and "free_bytes s r = 0"
proof -
  show "free_bytes s r = 0" using assms(2) by (auto simp: free_bytes_def filter_empty_conv stays_def available_def)
  with assms(1) free_bytes_le [of s ys] free_bytes_le [of s zs] show "bytes s r \<le> unat (used_memory (hp s))" by (simp add: heap_wf_def)
qed

lemma revert_series:
  assumes ser: "series s (ys @ r @ zs) r"
  shows "\<exists>s'. revert_blocks (hd_or NULL r) (last_or NULL r) s = Some s' \<and> heap_inv s' (ys @ r @ zs) \<and> bytes s' = bytes s
    \<and> heap_base (hp s') = heap_base (hp s) \<and> total_memory (hp s') = total_memory (hp s)
    \<and> (\<forall>h \<in> set (ys @ zs). same_header s s' h) \<and> (\<forall>h \<in> set r. \<not> stays s' h)
    \<and> owners s' (filter (moves s') (ys @ r @ zs)) = all_owners s (ys @ r @ zs) r"
proof -
  let ?hs = "ys @ r @ zs"
  have inv: "heap_inv s ?hs" and r: "r \<noteq> []" and st: "\<And>h. h \<in> set r \<Longrightarrow> stays s h"
    and old: "\<And>h. h \<in> set r \<Longrightarrow> held s h \<or> was_free s h" and ok: "\<And>h. h \<in> set r \<Longrightarrow> held s h \<Longrightarrow> owner_ok (hdrs s h)"
    using ser by (auto simp: series_def)
  have wf: "heap_wf s ?hs" using inv by (simp add: heap_inv_def)
  have dis: "distinct ?hs" using heap_wf_distinct [OF wf] .
  then have dj: "h \<notin> set r" if "h \<in> set (ys @ zs)" for h using that by auto
  define s' where "s' = upd_used (\<lambda>u. u - of_nat (bytes s (filter (was_free s) r))) (change_hdrs unmark r s)"
  have run: "revert_blocks (hd_or NULL r) (last_or NULL r) s = Some s'"
    using revert_blocks_run [OF _ r] heap_wf_next [OF wf] dis unfolding s'_def by fastforce
  have lay: "bsize s' = bsize s" "bytes s' = bytes s" "heap_linked s' ?hs = heap_linked s ?hs"
    by (simp_all add: s'_def mark_layout)
  have out: "same_header s s' h" "hdrs s' h = hdrs s h" if "h \<in> set (ys @ zs)" for h using dj [OF that] by (simp_all add: same_header_def s'_def)
  have ins: "hdrs s' h = unmark (hdrs s h)" if "h \<in> set r" for h using that by (simp add: s'_def)
  have ak: "a_kind (GET_OLD_KIND (hdrs s h))" if "h \<in> set r" for h
    using old [OF that] by (auto simp: held_def was_free_def a_kind_def)
  have kinds: "moves s' h = held s h" "available s' h = was_free s h" "owner_ok (hdrs s' h) = owner_ok (hdrs s h)" "a_kind (GET_KIND (hdrs s' h))" "\<not> stays s' h"
    if "h \<in> set r" for h
    using unmark_kinds [OF ak [OF that]] ak [OF that] old [OF that] that
    by (auto simp: stays_def held_def was_free_def moves_def available_def ins)
  note ub = series_bytes_used [OF wf st]
  have fle: "bytes s (filter (was_free s) r) \<le> unat (used_memory (hp s))" using bytes_filter_le [of s "was_free s" r] ub(1) by linarith
  then have "bytes s (filter (was_free s) r) < 2 ^ 32" using unat_lt_2_32 [of "used_memory (hp s)"] by linarith
  then have "unat (of_nat (bytes s (filter (was_free s) r)) :: size_t) = bytes s (filter (was_free s) r)" by (simp add: unat_of_nat)
  then have used: "unat (used_memory (hp s')) + bytes s (filter (was_free s) r) = unat (used_memory (hp s))"
    using fle by (simp add: s'_def unat_sub word_le_nat_alt)
  have fr: "free_bytes s' ys = free_bytes s ys" "free_bytes s' zs = free_bytes s zs"
    by (rule free_bytes_cong; use same_headerD [OF out(1)] in auto)+
  have "filter (available s') r = filter (was_free s) r" using kinds(2) by (auto intro: filter_cong)
  then have "free_bytes s' r = bytes s (filter (was_free s) r)" by (simp add: free_bytes_def lay)
  with fr used wf lay ub(2) have wf': "heap_wf s' ?hs" by (simp add: heap_wf_def) (simp add: s'_def)
  have inv': "heap_inv s' ?hs" unfolding heap_inv_def
  proof (intro conjI ballI)
    show "bytes s' ?hs + 3 < 2 ^ 32" using inv lay by (simp add: heap_inv_def)
    fix h assume h: "h \<in> set ?hs"
    then show "a_kind (GET_KIND (hdrs s' h))" using inv out(2) [of h] kinds(4) [of h] by (auto simp: heap_inv_def)
    show "moves s' h \<longrightarrow> owner_ok (hdrs s' h)"
      using h inv out(2) [of h] kinds(1,3) [of h] ok [of h] by (auto simp: heap_inv_def moves_def)
  qed (rule wf')
  have "owners s' (filter (moves s') ?hs) = all_owners s ?hs r"
  proof -
    have "filter (moves s) r = []" using st by (auto simp: filter_empty_conv stays_def moves_def)
    moreover have "filter (moves s') r = filter (held s) r" using kinds(1) by (auto intro: filter_cong)
    moreover have "owners s' (filter (held s) r) = owners s (filter (held s) r)" by (rule owners_cong) (simp add: ins)
    moreover have "owners s' (filter (moves s') ys) = owners s (filter (moves s) ys)" "owners s' (filter (moves s') zs) = owners s (filter (moves s) zs)"
      using filter_same_header(1) [of ys s s'] filter_same_header(1) [of zs s s'] out by (auto intro!: owners_cong simp: same_headerD)
    ultimately show ?thesis by (simp add: all_owners_def)
  qed
  then show ?thesis using run inv' lay out kinds(5) by (auto simp: s'_def)
qed

section \<open>Taking a series\<close>

text \<open>What \<open>claim_blocks\<close> leaves of a series: one block in use, and perhaps an available one behind it.\<close>

definition taken ::
    "'x heap_state_scheme \<Rightarrow> 'x heap_state_scheme \<Rightarrow> addr list \<Rightarrow> addr list \<Rightarrow> addr list \<Rightarrow> addr list \<Rightarrow> size_t \<Rightarrow> bool" where
  "taken s s' ys r rest zs sz \<longleftrightarrow>
     (let st = hd_or NULL r in
      heap_linked s' (ys @ [st] @ rest @ zs) \<and> bsize s' st + bytes s' rest = bytes s r \<and> unat sz \<le> bsize s' st
      \<and> hh_flags (hdrs s' st) = KIND_IMMOVABLE \<and> hh_update_ref (hdrs s' st) = Absolute_ptr NULL
      \<and> (\<forall>h \<in> set rest. available s' h) \<and> (\<forall>h \<in> set ys \<union> set zs. same_header s s' h)
      \<and> heap_base (hp s') = heap_base (hp s) \<and> total_memory (hp s') = total_memory (hp s))"

lemma split_header_same:
  assumes "heap_linked s (ys @ h # zs)" and "26 < unat at" "unat at + 26 < bsize s h" and "k \<in> set ys \<union> set zs"
  shows "same_header s (fst (split_header h at s)) k"
proof -
  obtain lo hi where b: "blocks s lo (ys @ h # zs) hi" "hi < 2 ^ 32" using assms(1) by (auto simp: heap_linked_def)
  have "unat h + bsize s h < 2 ^ 32" using blocks_bounds [OF b(1), of h] b(2) by simp
  then have "unat (h + at) = unat h + unat at" using assms(3) by (intro unat_inner) auto
  then have "k \<noteq> h + at" using blocks_no_inner [OF b(1), of k "unat (h + at)"] assms(2-4) by auto
  moreover have "k \<noteq> h" using blocks_distinct [OF b(1)] assms(4) by auto
  ultimately show ?thesis by (auto simp: same_header_def split_header_hdrs(3) [OF assms(1-3)])
qed

lemma claim_series:
  assumes lk: "heap_linked s (ys @ r @ zs)" and r: "r \<noteq> []" and sz: "26 < unat sz" "unat sz \<le> bytes s r"
  shows "\<exists>rest. taken s (claim_blocks sz (hd_or NULL r) (last_or NULL r) tm s) ys r rest zs sz
    \<and> used_memory (hp (claim_blocks sz (hd_or NULL r) (last_or NULL r) tm s)) =
        used_memory (hp s) + (if tm = 0 then of_nat (bytes s r) else 0)
          - of_nat (bytes (claim_blocks sz (hd_or NULL r) (last_or NULL r) tm s) rest)"
proof -
  let ?st = "hd_or NULL r" and ?en = "last_or NULL r"
  define s1 where "s1 = merge_blocks ?st ?en s"
  define s2 where "s2 = (if tm = 0 then upd_used (\<lambda>u. u + hh_size (hdrs s1 ?st)) s1 else s1)"
  note m = merge_blocks_linked [OF lk r refl refl, folded s1_def] and mh = merge_blocks_hdrs [OF lk r refl refl, folded s1_def]
  have st: "?st \<in> set r" using r by (rule hd_or_in_set)
  have dis: "distinct (ys @ r @ zs)" using lk unfolding heap_linked_def using blocks_distinct by blast
  have h2: "hdrs s2 = hdrs s1" by (simp add: s2_def)
  have same1: "same_header s s2 k" if "k \<in> set ys \<union> set zs" for k
    using that dis st by (auto simp: same_header_def h2 mh(2))
  have lk2: "heap_linked s2 (ys @ ?st # zs)" using m(1) by (simp add: s2_def)
  have b2: "bsize s2 ?st = bytes s r" using m(2) by (simp add: s2_def)
  have f2: "hh_flags (hdrs s2 ?st) = KIND_IMMOVABLE" "hh_update_ref (hdrs s2 ?st) = Absolute_ptr NULL" by (simp_all add: h2 mh(2))
  have u2: "used_memory (hp s2) = used_memory (hp s) + (if tm = 0 then of_nat (bytes s r) else 0)" "heap_base (hp s2) = heap_base (hp s)"
    "total_memory (hp s2) = total_memory (hp s)"
    using of_nat_bsize [of s1 ?st] m(2) by (simp_all add: s2_def mh(1))
  have claim: "claim_blocks sz ?st ?en tm s = (case split_header ?st sz s2 of (s3, d) \<Rightarrow> if d then upd_used (\<lambda>u. u - hh_size (hdrs s3 (?st + sz))) s3 else s3)"
    by (simp add: claim_blocks_def Let_def s1_def s2_def)
  show ?thesis
  proof (cases "unat sz + 26 < bytes s r")
    case False
    then have "split_header ?st sz s2 = (s2, False)" using b2 sz by (intro split_header_refuse) auto
    then have e: "claim_blocks sz ?st ?en tm s = s2" by (simp add: claim)
    have "taken s s2 ys r [] zs sz" using lk2 b2 sz f2 same1 u2 by (simp add: taken_def Let_def)
    then show ?thesis unfolding e using u2 by (intro exI [of _ "[]"]) simp
  next
    case True
    then have big: "unat sz + 26 < bsize s2 ?st" using b2 by simp
    define s3 where "s3 = fst (split_header ?st sz s2)"
    note sp = split_header_linked [OF lk2 sz(1) big, folded s3_def] and sh = split_header_hdrs [OF lk2 sz(1) big, folded s3_def]
    define s4 where "s4 = upd_used (\<lambda>u. u - hh_size (hdrs s3 (?st + sz))) s3"
    have e: "claim_blocks sz ?st ?en tm s = s4" using sh(1) by (simp add: claim s3_def s4_def split_beta)
    have "same_header s s4 k" if "k \<in> set ys \<union> set zs" for k
    proof -
      have "same_header s2 s3 k" unfolding s3_def by (rule split_header_same [OF lk2 sz(1) big that])
      then show ?thesis using same_header_trans [OF same1 [OF that]] by (simp add: same_header_def s4_def)
    qed
    moreover have "hh_flags (hdrs s3 ?st) = KIND_IMMOVABLE" "hh_update_ref (hdrs s3 ?st) = Absolute_ptr NULL" using f2 by (simp_all add: sh(3))
    moreover have "heap_linked s4 (ys @ [?st] @ [?st + sz] @ zs)" using sp(1) by (simp add: s4_def)
    moreover have "bsize s4 ?st = unat sz" "bsize s4 (?st + sz) = bytes s r - unat sz" "available s4 (?st + sz)"
      using sp(2-4) b2 by (simp_all add: s4_def)
    moreover have "hdrs s4 = hdrs s3" "heap_base (hp s4) = heap_base (hp s)" "total_memory (hp s4) = total_memory (hp s)"
      using u2(2,3) by (simp_all add: s4_def sh(2))
    ultimately have "taken s s4 ys r [?st + sz] zs sz" using True unfolding taken_def Let_def
      by (intro conjI ballI) simp_all
    moreover have "used_memory (hp s4) = used_memory (hp s2) - of_nat (bytes s4 [?st + sz])"
      unfolding s4_def by (simp add: sh(2) del: of_nat_add)
    ultimately show ?thesis unfolding e u2(1) [symmetric] by (intro exI [of _ "[?st + sz]"] conjI)
  qed
qed

lemma taken_inv:
  assumes inv: "heap_inv s (ys @ r @ zs)" and t: "taken s s' ys r rest zs sz"
    and used: "used_memory (hp s') = used_memory (hp s) + (if tm = 0 then of_nat (bytes s r) else 0) - of_nat (bytes s' rest)"
    and r: "if tm = 0 then \<forall>h \<in> set r. available s h else \<forall>h \<in> set r. stays s h"
  shows "heap_inv s' (ys @ [hd_or NULL r] @ rest @ zs)" "bytes s' (ys @ [hd_or NULL r] @ rest @ zs) = bytes s (ys @ r @ zs)"
    "owners s' (filter (moves s') (ys @ [hd_or NULL r] @ rest @ zs)) = owners s (filter (moves s) (ys @ zs))"
    "{h \<in> set (ys @ [hd_or NULL r] @ rest @ zs). stays s' h} = insert (hd_or NULL r) {h \<in> set (ys @ zs). stays s h}"
proof -
  let ?st = "hd_or NULL r" and ?hs = "ys @ r @ zs" and ?hs' = "ys @ [hd_or NULL r] @ rest @ zs"
  have wf: "heap_wf s ?hs" using inv by (simp add: heap_inv_def)
  have lk': "heap_linked s' ?hs'" and sum: "bsize s' ?st + bytes s' rest = bytes s r" and st: "hh_flags (hdrs s' ?st) = KIND_IMMOVABLE"
    and av: "\<And>h. h \<in> set rest \<Longrightarrow> available s' h" and same: "\<And>h. h \<in> set ys \<union> set zs \<Longrightarrow> same_header s s' h"
    and tot: "total_memory (hp s') = total_memory (hp s)"
    using t unfolding taken_def Let_def by blast+
  have stk: "stays s' ?st" "\<not> available s' ?st" "\<not> moves s' ?st" using st by (simp_all add: stays_def available_def moves_def)
  have rest: "\<not> stays s' h" "\<not> moves s' h" if "h \<in> set rest" for h using av [OF that] by (simp_all add: stays_def available_def moves_def)
  have by': "bytes s' ys = bytes s ys" "bytes s' zs = bytes s zs" "free_bytes s' ys = free_bytes s ys" "free_bytes s' zs = free_bytes s zs"
    by (auto intro!: bytes_cong free_bytes_cong simp: same_headerD [OF same])
  have fr: "free_bytes s' rest = bytes s' rest" using av by (rule free_bytes_all)
  show bytes: "bytes s' ?hs' = bytes s ?hs" using by' sum by simp
  have small: "bytes s' rest < 2 ^ 32" "bytes s r < 2 ^ 32" using inv sum by (auto simp: heap_inv_def)
  then have un: "unat (of_nat (bytes s' rest) :: size_t) = bytes s' rest" "unat (of_nat (bytes s r) :: size_t) = bytes s r"
    by (simp_all add: unat_of_nat)
  have "unat (used_memory (hp s')) + bytes s' rest = unat (used_memory (hp s)) + free_bytes s r"
  proof (cases "tm = 0")
    case True
    then have "\<And>h. h \<in> set r \<Longrightarrow> available s h" using r by simp
    then have f: "free_bytes s r = bytes s r" by (rule free_bytes_all)
    then have "unat (used_memory (hp s)) + bytes s r \<le> unat (total_memory (hp s))" using wf by (simp add: heap_wf_def)
    then have "unat (used_memory (hp s)) + bytes s r < 2 ^ 32" using unat_lt_2_32 [of "total_memory (hp s)"] by linarith
    then have "unat (used_memory (hp s) + of_nat (bytes s r)) = unat (used_memory (hp s)) + bytes s r" using un by (simp add: unat_plus_no_wrap)
    then show ?thesis using True used f un(1) sum by (simp add: unat_sub word_le_nat_alt)
  next
    case False
    then have "\<And>h. h \<in> set r \<Longrightarrow> stays s h" using r by simp
    note ub = series_bytes_used [OF wf this]
    then show ?thesis using False used un(1) sum by (simp add: unat_sub word_le_nat_alt)
  qed
  then have wf': "heap_wf s' ?hs'" using wf lk' by' fr bytes stk(2) tot by (simp add: heap_wf_def)
  show "heap_inv s' ?hs'" unfolding heap_inv_def
  proof (intro conjI ballI)
    show "bytes s' ?hs' + 3 < 2 ^ 32" using inv bytes by (simp add: heap_inv_def)
    fix h assume h: "h \<in> set ?hs'"
    then consider "h = ?st" | "h \<in> set rest" | "h \<in> set ys \<union> set zs" by auto
    then show "a_kind (GET_KIND (hdrs s' h))" "moves s' h \<longrightarrow> owner_ok (hdrs s' h)"
      using stk rest [of h] av [of h] same_headerD [OF same, of h] inv
      by (cases; auto simp: heap_inv_def a_kind_def stays_def available_def)+
  qed (rule wf')
  have "filter (moves s') rest = []" using rest(2) by (auto simp: filter_empty_conv)
  moreover have "owners s' (filter (moves s') ys) = owners s (filter (moves s) ys)" "owners s' (filter (moves s') zs) = owners s (filter (moves s) zs)"
    using filter_same_header(1) [of ys s s'] filter_same_header(1) [of zs s s'] same by (auto intro!: owners_cong simp: same_headerD)
  ultimately show "owners s' (filter (moves s') ?hs') = owners s (filter (moves s) (ys @ zs))" using stk(3) by simp
  have "{h \<in> set ys \<union> set zs. stays s' h} = {h \<in> set ys \<union> set zs. stays s h}" by (auto simp: same_headerD [OF same])
  then show "{h \<in> set ?hs'. stays s' h} = insert ?st {h \<in> set (ys @ zs). stays s h}" using stk(1) rest(1) by auto
qed

section \<open>Results of an allocation\<close>

lemma run_survives:
  assumes "blocks s lo (ys @ r @ zs) hi" and b': "blocks s' lo' hs' hi'" and "r \<noteq> []"
    and "\<And>h. h \<in> set r \<Longrightarrow> h \<in> set hs' \<and> bsize s' h = bsize s h"
  shows "\<exists>ys' zs'. hs' = ys' @ r @ zs'"
  using assms(1,3,4)
proof (induction r arbitrary: ys)
  case (Cons h r)
  show ?case
  proof (cases r)
    case Nil
    then show ?thesis using Cons.prems(3) [of h] by (auto dest: split_list)
  next
    case (Cons k r')
    have "blocks s lo ((ys @ [h]) @ r @ zs) hi" using Cons.prems(1) by simp
    from Cons.IH [OF this] Cons Cons.prems(3) obtain ys' zs' where hs': "hs' = ys' @ r @ zs'" by auto
    have hk: "unat k = unat h + bsize s' h" "26 \<le> bsize s' h" using Cons.prems(1,3) Cons by auto
    have b: "blocks s' lo' ys' (unat k)" "blocks s' (unat k) (r @ zs') hi'" using b' hs' Cons by auto
    have "h \<notin> set (r @ zs')" using blocks_bounds [OF b(2), of h] hk by auto
    then have hy: "h \<in> set ys'" using Cons.prems(3) [of h] hs' by auto
    then obtain ys'' x where ys: "ys' = ys'' @ [x]" by (cases ys' rule: rev_cases) auto
    then have x: "unat x + bsize s' x = unat k" "26 \<le> bsize s' x" "blocks s' lo' ys'' (unat x)" using b(1) by auto
    have "h = x"
    proof (rule ccontr)
      assume "h \<noteq> x"
      then have "h \<in> set ys''" using hy ys by auto
      then show False using blocks_bounds [OF x(3)] x hk by fastforce
    qed
    then show ?thesis using hs' ys by auto
  qed
qed simp

text \<open>
  What an allocation of \<open>n\<close> bytes leaves: the blocks that must not move are those of before and the one that was
  allocated, and the owners of movable blocks are the same.
\<close>

definition same_stays :: "'x heap_state_scheme \<Rightarrow> addr list \<Rightarrow> 'x heap_state_scheme \<Rightarrow> addr list \<Rightarrow> bool" where
  "same_stays s hs s' hs' \<longleftrightarrow> (\<forall>h \<in> set hs. stays s h \<longrightarrow> h \<in> set hs' \<and> same_header s s' h)"

definition new_block :: "'x heap_state_scheme \<Rightarrow> 'x heap_state_scheme \<Rightarrow> addr list \<Rightarrow> size_t \<Rightarrow> addr \<Rightarrow> bool" where
  "new_block s s' hs' n p \<longleftrightarrow> (let h = header_of p in h \<in> set hs' \<and> \<not> stays s h \<and> unat n + 26 \<le> bsize s' h
     \<and> hh_flags (hdrs s' h) = KIND_IMMOVABLE \<and> hh_update_ref (hdrs s' h) = Absolute_ptr NULL)"

definition alloc_result ::
    "'x heap_state_scheme \<Rightarrow> addr list \<Rightarrow> size_t \<Rightarrow> 'x heap_state_scheme \<Rightarrow> addr list \<Rightarrow> addr \<Rightarrow> bool" where
  "alloc_result s hs n s' hs' p \<longleftrightarrow> heap_inv s' hs' \<and> bytes s' hs' = bytes s hs
     \<and> heap_base (hp s') = heap_base (hp s) \<and> total_memory (hp s') = total_memory (hp s)
     \<and> same_stays s hs s' hs' \<and> owners s' (filter (moves s') hs') = owners s (filter (moves s) hs)
     \<and> {h \<in> set hs'. stays s' h} = {h \<in> set hs. stays s h} \<union> (if p = NULL then {} else {header_of p})
     \<and> (p \<noteq> NULL \<longrightarrow> new_block s s' hs' n p)"

lemma same_stays_trans:
  "same_stays s hs s' hs' \<Longrightarrow> same_stays s' hs' s'' hs'' \<Longrightarrow> same_stays s hs s'' hs''"
  unfolding same_stays_def using same_headerD(3) same_header_trans by blast

section \<open>What the heap relies on when it moves a block\<close>

text \<open>Copying a block and telling its owner leave the headers and the counters of the heap alone.\<close>

locale moving_hooks =
  fixes hk :: "'x heap_state_scheme heap_hooks"
  assumes copy_frame: "hdrs (hk_memcpy hk d a n s) = hdrs s" "hp (hk_memcpy hk d a n s) = hp s"
    and capability_frame: "hk_update_capability hk c d s = Some s' \<Longrightarrow> hdrs s' = hdrs s \<and> hp s' = hp s"
    and function_frame: "hk_function hk f d s = Some s' \<Longrightarrow> hdrs s' = hdrs s \<and> hp s' = hp s"
    and pointer_frame: "hdrs (hk_store_pointer hk p d s) = hdrs s" "hp (hk_store_pointer hk p d s) = hp s"
begin

lemma move_block_hdrs:
  assumes mv: "move_block hk h dest s = Some s'" and d: "hh_flags (hdrs s (header_of dest)) = KIND_IMMOVABLE"
    "hh_update_ref (hdrs s (header_of dest)) = Absolute_ptr NULL" and ok: "owner_ok (hdrs s h)" and ne: "h \<noteq> header_of dest"
  shows "hp s' = hp s" "hdrs s' h = SET_OLD_KIND (hdrs s h) KIND_AVAILABLE" "\<And>a. a \<noteq> h \<Longrightarrow> a \<noteq> header_of dest \<Longrightarrow> hdrs s' a = hdrs s a"
    "moves s' (header_of dest)" "owner_ok (hdrs s' (header_of dest))"
    "hh_update_ref (hdrs s' (header_of dest)) = hh_update_ref (hdrs s h)" "hh_size (hdrs s' (header_of dest)) = hh_size (hdrs s (header_of dest))"
    "hh_next (hdrs s' (header_of dest)) = hh_next (hdrs s (header_of dest))" "hh_prev (hdrs s' (header_of dest)) = hh_prev (hdrs s (header_of dest))"
proof -
  let ?d = "header_of dest" and ?n = "hh_size (hdrs s h) - sizeof_heap_header"
  define s2 where "s2 = upd_hdr h (\<lambda>x. SET_OLD_KIND x KIND_AVAILABLE) (hk_memcpy hk dest (h + sizeof_heap_header) ?n s)"
  have s2: "hdrs s2 a = (if a = h then SET_OLD_KIND (hdrs s h) KIND_AVAILABLE else hdrs s a)" "hp s2 = hp s" for a
    by (simp_all add: s2_def copy_frame)
  have "a_kind KIND_AVAILABLE" by (simp add: a_kind_def)
  then have bits: "owner_bits (hdrs s2 h) = owner_bits (hdrs s h)" by (simp add: s2 set_kind_bits)
  have fl: "hh_flags (hdrs s2 h) AND FLAG_CAPABILITY_RESOURCE = owner_bits (hdrs s h) AND FLAG_CAPABILITY_RESOURCE"
    "hh_flags (hdrs s2 h) AND FLAG_UPDATE_FUNCTION = owner_bits (hdrs s h) AND FLAG_UPDATE_FUNCTION"
    unfolding bits [symmetric] by (simp_all add: owner_bits_def heap_consts and.assoc)
  have flags: "FLAG_CAPABILITY_RESOURCE \<noteq> 0" "FLAG_UPDATE_FUNCTION \<noteq> 0" "FLAG_UPDATE_FUNCTION AND FLAG_CAPABILITY_RESOURCE = 0"
    by (simp_all add: heap_consts)
  note mv' = mv [unfolded move_block_def Let_def, folded s2_def]
  have ref: "hh_update_ref (hdrs s2 h) = hh_update_ref (hdrs s h)" by (simp add: s2)
  obtain s3 where s3: "s' = heap_unlock dest s3"
    "\<And>a. a \<noteq> ?d \<Longrightarrow> hdrs s3 a = hdrs s2 a" "hp s3 = hp s2" "hh_update_ref (hdrs s3 ?d) = hh_update_ref (hdrs s h)"
    "hh_size (hdrs s3 ?d) = hh_size (hdrs s ?d)" "hh_next (hdrs s3 ?d) = hh_next (hdrs s ?d)" "hh_prev (hdrs s3 ?d) = hh_prev (hdrs s ?d)"
    "owner_ok (hdrs s3 ?d)"
  proof (cases "hh_update_ref (hdrs s h)")
    case (Update_capability c)
    then have "owner_bits (hdrs s h) = FLAG_CAPABILITY_RESOURCE" using ok by (simp add: owner_ok_def)
    with mv' Update_capability obtain u where u: "hk_update_capability hk c dest s2 = Some u"
      "s' = heap_unlock dest (heap_set_update_capability dest c u)"
      by (auto simp: fl ref flags bind_eq_Some_conv split: if_splits)
    with capability_frame [OF u(1)] show ?thesis
      by (intro that [of "heap_set_update_capability dest c u"])
        (use Update_capability s2 ne d in \<open>auto simp: heap_set_update_capability_def owner_ok_def owner_bits_def heap_consts\<close>)
  next
    case (Update_function f)
    then have "owner_bits (hdrs s h) = FLAG_UPDATE_FUNCTION" using ok by (simp add: owner_ok_def)
    with mv' Update_function obtain u where u: "hk_function hk f dest s2 = Some u"
      "s' = heap_unlock dest (heap_set_update_function dest f u)"
      by (auto simp: fl ref flags bind_eq_Some_conv split: if_splits)
    with function_frame [OF u(1)] show ?thesis
      by (intro that [of "heap_set_update_function dest f u"])
        (use Update_function s2 ne d in \<open>auto simp: heap_set_update_function_def owner_ok_def owner_bits_def heap_consts\<close>)
  next
    case (Absolute_ptr p)
    then have "owner_bits (hdrs s h) = 0" using ok by (simp add: owner_ok_def)
    with mv' Absolute_ptr have u: "s' = heap_unlock dest (if p \<noteq> NULL then heap_set_update_absolute dest p (hk_store_pointer hk p dest s2) else s2)"
      by (auto simp: fl ref flags bind_eq_Some_conv split: if_splits)
    show ?thesis
      by (rule that [OF u])
        (use Absolute_ptr s2 ne d in \<open>auto simp: heap_set_update_absolute_def owner_ok_def owner_bits_def heap_consts pointer_frame\<close>)
  qed
  have k: "a_kind KIND_MOVABLE" by (simp add: a_kind_def)
  show "hp s' = hp s" "hdrs s' h = SET_OLD_KIND (hdrs s h) KIND_AVAILABLE" "\<And>a. a \<noteq> h \<Longrightarrow> a \<noteq> ?d \<Longrightarrow> hdrs s' a = hdrs s a"
    using s3(1-3) s2 ne by (simp_all add: heap_unlock_def)
  show "moves s' ?d" using s3(1) set_kind_bits(1) [OF k] by (simp add: heap_unlock_def moves_def)
  show "owner_ok (hdrs s' ?d)" using s3(1,8) set_kind_bits(3) [OF k] by (simp add: heap_unlock_def owner_ok_def)
  show "hh_update_ref (hdrs s' ?d) = hh_update_ref (hdrs s h)" "hh_size (hdrs s' ?d) = hh_size (hdrs s ?d)"
    "hh_next (hdrs s' ?d) = hh_next (hdrs s ?d)" "hh_prev (hdrs s' ?d) = hh_prev (hdrs s ?d)"
    using s3 by (simp_all add: heap_unlock_def)
qed

end

section \<open>Clearing a series\<close>

text \<open>How far the blocks of a series have been moved away, compared with the state when it was marked.\<close>

definition progress :: "'x heap_state_scheme \<Rightarrow> addr list \<Rightarrow> 'x heap_state_scheme \<Rightarrow> addr list \<Rightarrow> addr list \<Rightarrow> bool" where
  "progress s hs c hc r \<longleftrightarrow> series c hc r \<and> bytes c hc = bytes s hs \<and> (\<forall>k \<in> set r. bsize c k = bsize s k)
     \<and> heap_base (hp c) = heap_base (hp s) \<and> total_memory (hp c) = total_memory (hp s)
     \<and> (\<forall>h \<in> set hs - set r. stays s h \<longrightarrow> h \<in> set hc \<and> same_header s c h)
     \<and> {h \<in> set hc. stays c h} = {h \<in> set hs. stays s h} \<and> all_owners c hc r = all_owners s hs r"

lemma progress_refl: "series s hs r \<Longrightarrow> progress s hs s hs r"
  by (simp add: progress_def)

lemma progress_trans:
  assumes "progress s hs c hc r" and "progress c hc e he r"
  shows "progress s hs e he r"
proof -
  have "h \<in> set he \<and> same_header s e h" if "h \<in> set hs - set r" "stays s h" for h
  proof -
    have c: "h \<in> set hc" "same_header s c h" using assms(1) that by (auto simp: progress_def)
    then have "h \<in> set he" "same_header c e h" using assms(2) that same_headerD(3) [OF c(2)] by (auto simp: progress_def)
    then show ?thesis using c same_header_trans by blast
  qed
  then show ?thesis using assms unfolding progress_def by auto
qed

lemma mset_filter_insert:
  assumes "distinct hs" "d \<in> set hs" "\<not> P d" "Q d" "\<And>x. x \<in> set hs \<Longrightarrow> x \<noteq> d \<Longrightarrow> Q x = P x"
  shows "mset (filter Q hs) = add_mset d (mset (filter P hs))"
proof -
  obtain us vs where hs: "hs = us @ d # vs" using assms(2) by (meson split_list)
  then have "filter Q us = filter P us" "filter Q vs = filter P vs" using assms by (auto intro!: filter_cong)
  then show ?thesis using assms(3,4) hs by simp
qed

lemma owners_insert:
  assumes "mset hs = add_mset d (mset ks)"
  shows "owners s hs = add_mset (hh_update_ref (hdrs s d)) (owners s ks)"
  using assms by (simp add: owners_def)

lemma series_old:
  assumes "series s hs r" and "h \<in> set r"
  shows "stays s h" "held s h \<Longrightarrow> owner_ok (hdrs s h)" "held s h \<or> was_free s h" "h \<in> set hs" "h \<in> set hs"
  using assms by (auto simp: series_def)

lemma heap_wf_same_layout:
  assumes "heap_wf s hs" and "\<And>a. hh_size (hdrs s' a) = hh_size (hdrs s a)" "\<And>a. hh_next (hdrs s' a) = hh_next (hdrs s a)"
    "\<And>a. hh_prev (hdrs s' a) = hh_prev (hdrs s a)" and "hp s' = hp s" and "\<And>h. h \<in> set hs \<Longrightarrow> available s' h = available s h"
  shows "heap_wf s' hs" "bytes s' hs = bytes s hs"
proof -
  have b: "bsize s' = bsize s" by (simp add: bsize_def fun_eq_iff assms)
  have "blocks s' lo hs hi = blocks s lo hs hi" for lo hi by (rule blocks_cong) (simp add: b)
  moreover show by': "bytes s' hs = bytes s hs" by (simp add: bytes_def b)
  moreover have "prev_of s' = prev_of s" "next_of s' = next_of s" by (simp_all add: fun_eq_iff assms)
  moreover have "free_bytes s' hs = free_bytes s hs" using assms(6) b by (intro free_bytes_cong) auto
  ultimately show "heap_wf s' hs" using assms(1) unfolding heap_wf_def heap_linked_def assms(5) by simp
qed

lemma alloc_result_series:
  assumes ser: "series s hs r" and res: "alloc_result s hs n s1 hs1 p"
  shows "\<And>k. k \<in> set r \<Longrightarrow> k \<in> set hs1 \<and> same_header s s1 k" "\<exists>ys zs. hs1 = ys @ r @ zs"
    "\<And>k. k \<in> set r \<Longrightarrow> stays s1 k \<and> (held s1 k \<or> was_free s1 k) \<and> (held s1 k \<longrightarrow> owner_ok (hdrs s1 k))"
    "filter (held s1) r = filter (held s) r" "owners s1 (filter (held s) r) = owners s (filter (held s) r)"
proof -
  show keep: "k \<in> set hs1 \<and> same_header s s1 k" if "k \<in> set r" for k
    using res series_old [OF ser that] by (auto simp: alloc_result_def same_stays_def)
  show "\<exists>ys zs. hs1 = ys @ r @ zs"
  proof -
    obtain ys zs where hs: "hs = ys @ r @ zs" "r \<noteq> []" using ser by (auto simp: series_def)
    moreover have "heap_linked s hs" "heap_linked s1 hs1" using ser res by (auto simp: series_def alloc_result_def heap_inv_def heap_wf_def)
    then obtain lo hi lo' hi' where "blocks s lo hs hi" "blocks s1 lo' hs1 hi'" unfolding heap_linked_def by blast
    ultimately show ?thesis using run_survives [of s lo ys r zs hi s1 lo' hs1 hi'] keep same_headerD(1) by blast
  qed
  show "stays s1 k \<and> (held s1 k \<or> was_free s1 k) \<and> (held s1 k \<longrightarrow> owner_ok (hdrs s1 k))" if "k \<in> set r" for k
    using same_headerD [of s s1 k] keep [OF that] series_old [OF ser that]
    by (auto simp: was_free_def GET_OLD_KIND_def same_header_def)
  show "filter (held s1) r = filter (held s) r" using keep same_headerD(5) by (intro filter_cong) auto
  show "owners s1 (filter (held s) r) = owners s (filter (held s) r)" using keep same_headerD(8) by (intro owners_cong) auto
qed

context moving_hooks
begin

lemma move_step:
  assumes ser: "series s hs r" and h: "h \<in> set r" "held s h" and res: "alloc_result s hs n s1 hs1 dest" and dest: "dest \<noteq> NULL"
    and mv: "move_block hk h dest s1 = Some s2"
  shows "progress s hs s2 hs1 r" "\<not> held s2 h" "\<And>k. k \<in> set r \<Longrightarrow> k \<noteq> h \<Longrightarrow> same_header s s2 k"
proof -
  let ?d = "header_of dest"
  note ar = alloc_result_series [OF ser res]
  have inv1: "heap_inv s1 hs1" and wf1: "heap_wf s1 hs1" and nb: "new_block s s1 hs1 n dest"
    and st1: "{k \<in> set hs1. stays s1 k} = insert ?d {k \<in> set hs. stays s k}"
    and ow1: "owners s1 (filter (moves s1) hs1) = owners s (filter (moves s) hs)"
    using res dest by (auto simp: alloc_result_def heap_inv_def)
  have d: "?d \<in> set hs1" "\<not> stays s ?d" "hh_flags (hdrs s1 ?d) = KIND_IMMOVABLE" "hh_update_ref (hdrs s1 ?d) = Absolute_ptr NULL"
    using nb by (auto simp: new_block_def Let_def)
  have dr: "?d \<notin> set r" using d(2) series_old(1) [OF ser] by blast
  then have ne: "h \<noteq> ?d" using h(1) by auto
  have sh: "same_header s s1 h" using ar(1) [OF h(1)] by simp
  have ok: "owner_ok (hdrs s1 h)" using ar(3) [OF h(1)] same_headerD(5) [OF sh] h(2) by simp
  note m = move_block_hdrs [OF mv d(3,4) ok ne]
  have kav: "a_kind KIND_AVAILABLE" by (simp add: a_kind_def)
  have sh_h: "GET_KIND (hdrs s2 h) = GET_KIND (hdrs s1 h)" "GET_OLD_KIND (hdrs s2 h) = KIND_AVAILABLE" "owner_bits (hdrs s2 h) = owner_bits (hdrs s1 h)"
    by (simp_all add: m(2) set_kind_bits [OF kav])
  then have h2: "stays s2 h" "\<not> held s2 h" "was_free s2 h" "\<not> moves s2 h" "\<not> available s2 h"
    using ar(3) [OF h(1)] by (auto simp: stays_def held_def was_free_def moves_def available_def)
  show "\<not> held s2 h" by (rule h2(2))
  have oth: "hdrs s2 a = hdrs s1 a" if "a \<noteq> h" "a \<noteq> ?d" for a using m(3) that by blast
  show oth_r: "same_header s s2 k" if "k \<in> set r" "k \<noteq> h" for k
  proof -
    have "hdrs s2 k = hdrs s1 k" using oth [OF that(2)] dr that(1) by blast
    then show ?thesis using ar(1) [OF that(1)] by (simp add: same_header_def)
  qed
  have d1: "stays s1 ?d" "\<not> moves s1 ?d" "\<not> available s1 ?d" using d(3) by (simp_all add: stays_def moves_def available_def)
  have d2: "\<not> stays s2 ?d" "\<not> available s2 ?d" using m(4) by (simp_all add: stays_def moves_def available_def)
  have size: "hh_size (hdrs s2 a) = hh_size (hdrs s1 a)" "hh_next (hdrs s2 a) = hh_next (hdrs s1 a)" "hh_prev (hdrs s2 a) = hh_prev (hdrs s1 a)" for a
    by (cases "a = h"; cases "a = ?d"; simp add: m oth)+
  have av: "available s2 k = available s1 k" for k
    using d1 d2 h2 ar(3) [OF h(1)] oth [of k] by (cases "k = h"; cases "k = ?d") (auto simp: available_def stays_def)
  note lay = heap_wf_same_layout [OF wf1 size m(1) av]
  have inv2: "heap_inv s2 hs1" unfolding heap_inv_def
  proof (intro conjI ballI)
    show "bytes s2 hs1 + 3 < 2 ^ 32" using inv1 lay(2) by (simp add: heap_inv_def)
    fix k assume k: "k \<in> set hs1"
    show "a_kind (GET_KIND (hdrs s2 k))"
      using inv1 k m(4) h2(1) oth [of k] by (cases "k = h"; cases "k = ?d") (auto simp: heap_inv_def moves_def stays_def a_kind_def)
    show "moves s2 k \<longrightarrow> owner_ok (hdrs s2 k)"
      using inv1 k m(5) h2(4) oth [of k] by (cases "k = h"; cases "k = ?d") (auto simp: heap_inv_def moves_def)
  qed (rule lay(1))
  have ser2: "series s2 hs1 r" unfolding series_def
  proof (intro conjI ballI)
    fix k assume k: "k \<in> set r"
    have "hdrs s2 k = hdrs s1 k" if "k \<noteq> h" using oth [OF that] dr k by blast
    then show "stays s2 k" "held s2 k \<or> was_free s2 k" "held s2 k \<longrightarrow> owner_ok (hdrs s2 k)"
      using ar(3) [OF k] h2 by (cases "k = h"; auto simp: stays_def held_def was_free_def)+
  qed (use inv2 ser ar(2) in \<open>auto simp: series_def\<close>)
  have hr: "h \<in> set hs1" using ar(1) [OF h(1)] by simp
  have stays2: "stays s2 k = (k \<noteq> ?d \<and> stays s1 k)" for k
    using d2(1) h2(1) ar(3) [OF h(1)] oth [of k] by (cases "k = h"; cases "k = ?d") (auto simp: stays_def)
  have st2: "{k \<in> set hs1. stays s2 k} = {k \<in> set hs. stays s k}"
    using st1 d(2) stays2 by auto
  have dis: "distinct hs1" "distinct r" using heap_wf_distinct [OF wf1] ar(2) by auto
  have mv2: "moves s2 k = (k = ?d \<or> moves s1 k)" for k
    using m(4) h2(4) ar(3) [OF h(1)] oth [of k] by (cases "k = h"; cases "k = ?d") (auto simp: moves_def stays_def)
  have hd2: "held s2 k = (k \<noteq> h \<and> held s1 k)" if "k \<in> set r" for k
  proof -
    have "k \<noteq> ?d" using dr that by auto
    then show ?thesis using h2(2) oth [of k] by (cases "k = h") (auto simp: held_def)
  qed
  have refs: "hh_update_ref (hdrs s2 k) = hh_update_ref (hdrs s1 k)" if "k \<noteq> ?d" for k using m(2) oth [of k] that by (cases "k = h") auto
  have "mset (filter (moves s2) hs1) = add_mset ?d (mset (filter (moves s1) hs1))"
    by (rule mset_filter_insert [OF dis(1) d(1)]) (use d1(2) m(4) mv2 in auto)
  from owners_insert [OF this, of s2] have o1: "owners s2 (filter (moves s2) hs1) = add_mset (hh_update_ref (hdrs s1 h)) (owners s2 (filter (moves s1) hs1))"
    by (simp add: m(6))
  have o2: "owners s2 (filter (moves s1) hs1) = owners s1 (filter (moves s1) hs1)" using d1(2) by (intro owners_cong refs) auto
  have "mset (filter (held s1) r) = add_mset h (mset (filter (held s2) r))"
    by (rule mset_filter_insert [OF dis(2) h(1)]) (use h2(2) hd2 same_headerD(5) [OF sh] h(2) in auto)
  from owners_insert [OF this, of s1] have o3: "owners s1 (filter (held s1) r) = add_mset (hh_update_ref (hdrs s1 h)) (owners s1 (filter (held s2) r))" .
  have o4: "owners s2 (filter (held s2) r) = owners s1 (filter (held s2) r)" using dr by (intro owners_cong refs) auto
  have own: "all_owners s2 hs1 r = all_owners s hs r"
    using o1 o2 o3 o4 ow1 ar(4,5) by (simp add: all_owners_def)
  have bs: "bsize s2 k = bsize s k" if "k \<in> set r" for k using ar(1) [OF that] size(1) same_headerD(1) by (auto simp: bsize_def same_header_def)
  have keep: "k \<in> set hs1 \<and> same_header s s2 k" if "k \<in> set hs - set r" "stays s k" for k
  proof -
    have k: "k \<in> set hs1" "same_header s s1 k" using res that by (auto simp: alloc_result_def same_stays_def)
    moreover have "hdrs s2 k = hdrs s1 k" using oth [of k] that d(2) h(1) by blast
    ultimately show ?thesis by (simp add: same_header_def)
  qed
  show "progress s hs s2 hs1 r" unfolding progress_def
    using ser2 lay(2) bs m(1) keep st2 own res by (auto simp: alloc_result_def)
qed

end

lemma series_next:
  assumes "series c hc (ds @ h # ts)"
  shows "ts \<noteq> [] \<Longrightarrow> hh_next (hdrs c h) = hd_or NULL ts" "h = last_or NULL (ds @ h # ts) \<longleftrightarrow> ts = []"
    "unat (hh_size (hdrs c h) - sizeof_heap_header) + 29 < 2 ^ 32"
proof -
  obtain ys zs where hc: "hc = ys @ (ds @ h # ts) @ zs" and wf: "heap_wf c hc" and b: "bytes c hc + 3 < 2 ^ 32"
    using assms by (auto simp: series_def heap_inv_def)
  obtain p q where "dseg (prev_of c) (next_of c) p (ds @ h # ts) q" using heap_wf_next wf hc by blast
  then show "ts \<noteq> [] \<Longrightarrow> hh_next (hdrs c h) = hd_or NULL ts" by (cases ts) auto
  have "distinct (ds @ h # ts)" using heap_wf_distinct [OF wf] hc by auto
  then show "h = last_or NULL (ds @ h # ts) \<longleftrightarrow> ts = []" by (auto simp: last_or_def)
  have "26 \<le> bsize c h" using heap_wf_bsize [OF wf] hc by simp
  moreover from this have "unat (hh_size (hdrs c h) - sizeof_heap_header) = bsize c h - 26"
    by (simp add: unat_sub word_le_nat_alt bsize_def heap_consts)
  moreover have "bsize c h \<le> bytes c hc" using bsize_le_bytes [of h hc c] hc by simp
  ultimately show "unat (hh_size (hdrs c h) - sizeof_heap_header) + 29 < 2 ^ 32" using b by linarith
qed

text \<open>The state after the blocks of a series could not all be moved: what could not be moved is movable again.\<close>

definition given_up :: "'x heap_state_scheme \<Rightarrow> addr list \<Rightarrow> 'x heap_state_scheme \<Rightarrow> addr list \<Rightarrow> addr list \<Rightarrow> bool" where
  "given_up s hs s' hs' r \<longleftrightarrow> heap_inv s' hs' \<and> bytes s' hs' = bytes s hs
     \<and> heap_base (hp s') = heap_base (hp s) \<and> total_memory (hp s') = total_memory (hp s)
     \<and> (\<forall>h \<in> set hs - set r. stays s h \<longrightarrow> h \<in> set hs' \<and> same_header s s' h)
     \<and> {h \<in> set hs'. stays s' h} = {h \<in> set hs. stays s h} - set r \<and> owners s' (filter (moves s') hs') = all_owners s hs r"

lemma progress_given_up:
  assumes "progress s hs c hc r" and "given_up c hc e he r"
  shows "given_up s hs e he r"
proof -
  have "h \<in> set he \<and> same_header s e h" if "h \<in> set hs - set r" "stays s h" for h
  proof -
    have c: "h \<in> set hc" "same_header s c h" using assms(1) that by (auto simp: progress_def)
    then have "h \<in> set he" "same_header c e h" using assms(2) that same_headerD(3) [OF c(2)] by (auto simp: given_up_def)
    then show ?thesis using c same_header_trans by blast
  qed
  then show ?thesis using assms unfolding progress_def given_up_def by auto
qed

lemma failed_step:
  assumes ser: "series s hs r" and res: "alloc_result s hs n s1 hs1 NULL"
  shows "\<exists>s'. revert_blocks (hd_or NULL r) (last_or NULL r) s1 = Some s' \<and> given_up s hs s' hs1 r"
proof -
  note ar = alloc_result_series [OF ser res]
  obtain ys zs where hs1: "hs1 = ys @ r @ zs" using ar(2) by blast
  have "series s1 hs1 r" using ser ar(2,3) res by (auto simp: series_def alloc_result_def)
  then have ser1: "series s1 (ys @ r @ zs) r" by (simp add: hs1)
  from revert_series [OF ser1] obtain s' where
    rv: "revert_blocks (hd_or NULL r) (last_or NULL r) s1 = Some s'" "heap_inv s' hs1" "bytes s' = bytes s1" "heap_base (hp s') = heap_base (hp s1)"
      "total_memory (hp s') = total_memory (hp s1)" "\<And>h. h \<in> set (ys @ zs) \<Longrightarrow> same_header s1 s' h" "\<And>h. h \<in> set r \<Longrightarrow> \<not> stays s' h"
      "owners s' (filter (moves s') hs1) = all_owners s1 hs1 r" unfolding hs1 by blast
  have "h \<in> set hs1 \<and> same_header s s' h" if "h \<in> set hs - set r" "stays s h" for h
  proof -
    have h: "h \<in> set hs1" "same_header s s1 h" using res that by (auto simp: alloc_result_def same_stays_def)
    then have "h \<in> set (ys @ zs)" using that hs1 by auto
    then show ?thesis using h rv(6) same_header_trans by blast
  qed
  moreover have "{h \<in> set hs1. stays s' h} = {h \<in> set hs1. stays s1 h} - set r"
  proof -
    have "set r \<inter> set (ys @ zs) = {}" using heap_wf_distinct [of s1 hs1] res hs1 by (auto simp: alloc_result_def heap_inv_def)
    then show ?thesis using rv(7) same_headerD(3) [OF rv(6)] hs1 by auto
  qed
  moreover have "all_owners s1 hs1 r = all_owners s hs r" using ar(4,5) res by (simp add: all_owners_def alloc_result_def)
  ultimately show ?thesis using rv(1-5,8) res by (auto simp: given_up_def alloc_result_def)
qed

context moving_hooks
begin

definition allocates :: "('x heap_state_scheme \<Rightarrow> size_t \<Rightarrow> ('x heap_state_scheme \<times> addr) option) \<Rightarrow> bool" where
  "allocates al \<longleftrightarrow> (\<forall>s n s' p hs. al s n = Some (s', p) \<longrightarrow> heap_inv s hs \<longrightarrow> unat n + 29 < 2 ^ 32 \<longrightarrow>
     (\<exists>hs'. alloc_result s hs n s' hs' p))"

lemma move_blocks_series:
  assumes al: "allocates al" and ret: "move_blocks al hk st en h c = Some (s', fin)"
    and ser: "series c hc (ds @ h # ts)" "st = hd_or NULL (ds @ h # ts)" "en = last_or NULL (ds @ h # ts)" "\<forall>k \<in> set ds. \<not> held c k"
  shows "\<exists>hs'. if fin then progress c hc s' hs' (ds @ h # ts) \<and> (\<forall>k \<in> set (ds @ h # ts). \<not> held s' k)
    else given_up c hc s' hs' (ds @ h # ts)"
proof -
  let ?Q = "\<lambda>st en h c (s', fin). \<forall>hc ds ts. series c hc (ds @ h # ts) \<and> st = hd_or NULL (ds @ h # ts) \<and> en = last_or NULL (ds @ h # ts)
      \<and> (\<forall>k \<in> set ds. \<not> held c k) \<longrightarrow>
      (\<exists>hs'. if fin then progress c hc s' hs' (ds @ h # ts) \<and> (\<forall>k \<in> set (ds @ h # ts). \<not> held s' k) else given_up c hc s' hs' (ds @ h # ts))"
  have "al = al \<and> hk = hk \<longrightarrow> ?Q st en h c (s', fin)"
  proof (rule move_blocks.raw_induct [where P = "\<lambda>a k st en h c z. a = al \<and> k = hk \<longrightarrow> ?Q st en h c z", OF _ ret])
    fix f a k st en h c z
    assume IH: "\<And>a k st en h c z. f a k st en h c = Some z \<Longrightarrow> a = al \<and> k = hk \<longrightarrow> ?Q st en h c z"
      and eq: "(if GET_OLD_KIND (hdrs c h) \<noteq> KIND_MOVABLE then
          if h = en then Some (c, True) else f a k st en (hh_next (hdrs c h)) c
        else do {
          (s1, dest) \<leftarrow> a c (hh_size (hdrs c h) - sizeof_heap_header);
          if dest = NULL then map_option (\<lambda>s2. (s2, False)) (revert_blocks st en s1)
          else do {
            s2 \<leftarrow> move_block k h dest s1;
            if h = en then Some (s2, True) else f a k st en (hh_next (hdrs s2 h)) s2
          }
        }) = Some z"
    show "a = al \<and> k = hk \<longrightarrow> ?Q st en h c z"
    proof (intro impI)
      assume ak: "a = al \<and> k = hk"
      have cont: "\<exists>hs'. if fin then progress x hx s' hs' (ds @ h # ts) \<and> (\<forall>k \<in> set (ds @ h # ts). \<not> held s' k) else given_up x hx s' hs' (ds @ h # ts)"
        if step: "(if h = en then Some (x, True) else f a k st en (hh_next (hdrs x h)) x) = Some (s', fin)"
          and x: "series x hx (ds @ h # ts)" "st = hd_or NULL (ds @ h # ts)" "en = last_or NULL (ds @ h # ts)"
            "\<forall>k \<in> set (ds @ [h]). \<not> held x k" for s' fin x hx ds ts
      proof (cases "ts = []")
        case True
        then have "s' = x" "fin" using step series_next(2) [OF x(1)] x(3) by auto
        then show ?thesis using progress_refl [OF x(1)] x(4) True by auto
      next
        case False
        then obtain t ts' where ts: "ts = t # ts'" by (cases ts) auto
        then have "f a k st en t x = Some (s', fin)"
          using step series_next(1,2) [OF x(1)] x(3) False by auto
        from IH [OF this] ak have q: "?Q st en t x (s', fin)" by blast
        have "ds @ h # ts = (ds @ [h]) @ t # ts'" using ts by simp
        then show ?thesis using q x by (simp only: split_conv)
      qed
      show "?Q st en h c z"
      proof (cases z)
        case (Pair s' fin)
        show ?thesis unfolding Pair split_conv
        proof (intro allI impI, elim conjE)
          fix hc ds ts
          assume ser: "series c hc (ds @ h # ts)" and st: "st = hd_or NULL (ds @ h # ts)" and en: "en = last_or NULL (ds @ h # ts)"
            and old: "\<forall>k \<in> set ds. \<not> held c k"
          let ?r = "ds @ h # ts"
          show "\<exists>hs'. if fin then progress c hc s' hs' ?r \<and> (\<forall>k \<in> set ?r. \<not> held s' k) else given_up c hc s' hs' ?r"
          proof (cases "held c h")
            case False
            then have "(if h = en then Some (c, True) else f a k st en (hh_next (hdrs c h)) c) = Some (s', fin)"
              using eq Pair by (simp add: held_def)
            from cont [OF this ser st en] old False show ?thesis by auto
          next
            case True
            let ?n = "hh_size (hdrs c h) - sizeof_heap_header"
            from eq True Pair ak obtain s1 dest where a1: "al c ?n = Some (s1, dest)"
              and rest: "(if dest = NULL then map_option (\<lambda>s2. (s2, False)) (revert_blocks st en s1)
                else do { s2 \<leftarrow> move_block hk h dest s1; if h = en then Some (s2, True) else f a k st en (hh_next (hdrs s2 h)) s2 }) = Some (s', fin)"
              by (auto simp: held_def bind_eq_Some_conv)
            have "heap_inv c hc" using ser by (simp add: series_def)
            with al a1 series_next(3) [OF ser] obtain hs1 where res: "alloc_result c hc ?n s1 hs1 dest" unfolding allocates_def by blast
            show ?thesis
            proof (cases "dest = NULL")
              case True
              with failed_step [OF ser] res rest st en show ?thesis by fastforce
            next
              case False
              with rest obtain s2 where mv: "move_block hk h dest s1 = Some s2"
                "(if h = en then Some (s2, True) else f a k st en (hh_next (hdrs s2 h)) s2) = Some (s', fin)"
                by (auto simp: bind_eq_Some_conv)
              note ms = move_step [OF ser _ True res False mv(1)]
              have dis: "distinct ?r" using ser heap_wf_distinct [of c hc] by (auto simp: series_def heap_inv_def)
              have "\<forall>k \<in> set (ds @ [h]). \<not> held s2 k" using ms(2) ms(3) old dis same_headerD(5) by fastforce
              moreover have "series s2 hs1 ?r" using ms(1) by (simp add: progress_def)
              ultimately obtain hs' where
                "if fin then progress s2 hs1 s' hs' ?r \<and> (\<forall>k \<in> set ?r. \<not> held s' k) else given_up s2 hs1 s' hs' ?r"
                using cont [OF mv(2) _ st en] by blast
              then show ?thesis using ms(1) progress_trans progress_given_up by (cases fin) fastforce+
            qed
          qed
        qed
      qed
    qed
  qed
  then show ?thesis using ser by simp
qed

end

section \<open>The search\<close>

text \<open>What the search may find: adjacent blocks that are available or movable, and no more of them than it needs.\<close>

definition found :: "'x heap_state_scheme \<Rightarrow> size_t \<Rightarrow> addr list \<Rightarrow> search_result \<Rightarrow> bool" where
  "found s sz hs res \<longleftrightarrow> (case res of Not_found \<Rightarrow> True
     | Found st en tot tm \<Rightarrow> \<exists>ys r zs. hs = ys @ r @ zs \<and> r \<noteq> [] \<and> st = hd_or NULL r \<and> en = last_or NULL r
         \<and> tot = of_nat (bytes s r) \<and> tm = of_nat (bytes s (filter (moves s) r)) \<and> (\<forall>k \<in> set r. \<not> stays s k)
         \<and> bytes s (butlast r) < unat sz \<and> unat sz \<le> bytes s r)"

definition searching :: "'x heap_state_scheme \<Rightarrow> size_t \<Rightarrow> addr list \<Rightarrow> addr \<Rightarrow> addr \<Rightarrow> size_t \<Rightarrow> size_t \<Rightarrow> bool" where
  "searching s sz hs st en tot tm \<longleftrightarrow> 0 < unat sz \<and> heap_linked s hs \<and> (\<exists>ys run zs. hs = ys @ run @ en # zs \<and> st = hd_or en run
     \<and> tot = of_nat (bytes s (run @ [en])) \<and> tm = of_nat (bytes s (filter (moves s) run)) \<and> (\<forall>k \<in> set run. \<not> stays s k)
     \<and> bytes s run < unat sz)"

lemma searching_restart:
  assumes "searching s sz hs st en tot tm"
  shows "searching s sz hs en en (hh_size (hdrs s en)) 0"
proof -
  from assms obtain ys run zs where "hs = ys @ run @ en # zs" "0 < unat sz" "heap_linked s hs" by (auto simp: searching_def)
  then show ?thesis unfolding searching_def
    by (intro conjI exI [of _ "ys @ run"] exI [of _ "[]"] exI [of _ zs]) auto
qed

lemma searching_next:
  assumes "searching s sz hs st en tot tm" and "hh_next (hdrs s en) \<noteq> NULL"
  shows "searching s sz hs (hh_next (hdrs s en)) (hh_next (hdrs s en)) (hh_size (hdrs s (hh_next (hdrs s en)))) 0"
    and "\<not> stays s en \<Longrightarrow> tot < sz \<Longrightarrow> searching s sz hs st (hh_next (hdrs s en)) (tot + hh_size (hdrs s (hh_next (hdrs s en))))
      (if GET_KIND (hdrs s en) = KIND_MOVABLE then tm + hh_size (hdrs s en) else tm)"
proof -
  from assms(1) obtain ys run zs where hs: "hs = ys @ run @ en # zs" and st: "st = hd_or en run" and tot: "tot = of_nat (bytes s (run @ [en]))"
    and tm: "tm = of_nat (bytes s (filter (moves s) run))" and run: "\<forall>k \<in> set run. \<not> stays s k" and sz: "0 < unat sz" and lk: "heap_linked s hs"
    by (auto simp: searching_def)
  have lk': "heap_linked s (ys @ run @ en # zs)" using lk hs by simp
  note mid = heap_linked_mid [OF lk']
  then obtain k zs' where zs: "zs = k # zs'" "hh_next (hdrs s en) = k" using assms(2) by (cases zs) auto
  show "searching s sz hs (hh_next (hdrs s en)) (hh_next (hdrs s en)) (hh_size (hdrs s (hh_next (hdrs s en)))) 0"
    unfolding searching_def zs(2) using sz lk hs zs(1)
    by (intro conjI exI [of _ "ys @ run @ [en]"] exI [of _ "[]"] exI [of _ zs']) auto
  assume en: "\<not> stays s en" and small: "tot < sz"
  have "bytes s (run @ [en]) < unat sz" using small mid(3) by (simp add: tot word_less_nat_alt del: of_nat_add)
  then show "searching s sz hs st (hh_next (hdrs s en)) (tot + hh_size (hdrs s (hh_next (hdrs s en))))
      (if GET_KIND (hdrs s en) = KIND_MOVABLE then tm + hh_size (hdrs s en) else tm)"
    unfolding searching_def zs(2) using sz lk hs zs(1) run en st
    by (intro conjI exI [of _ ys] exI [of _ "run @ [en]"] exI [of _ zs']) (auto simp: tot tm moves_def add.commute add.left_commute)
qed

lemma searching_found:
  assumes "searching s sz hs st en tot tm" and "\<not> stays s en" and "sz \<le> tot"
  shows "found s sz hs (Found st en tot (if GET_KIND (hdrs s en) = KIND_MOVABLE then tm + hh_size (hdrs s en) else tm))"
proof -
  from assms(1) obtain ys run zs where hs: "hs = ys @ run @ en # zs" and st: "st = hd_or en run" and tot: "tot = of_nat (bytes s (run @ [en]))"
    and tm: "tm = of_nat (bytes s (filter (moves s) run))" and run: "\<forall>k \<in> set run. \<not> stays s k" "bytes s run < unat sz" and lk: "heap_linked s hs"
    by (auto simp: searching_def)
  have lk': "heap_linked s (ys @ run @ en # zs)" using lk hs by simp
  have "unat sz \<le> bytes s (run @ [en])" using assms(3) heap_linked_mid(3) [OF lk'] by (simp add: tot word_le_nat_alt del: of_nat_add)
  moreover have "st = hd_or NULL (run @ [en])" using st by (cases run) auto
  ultimately show ?thesis unfolding found_def search_result.case
    by (intro exI [of _ ys] exI [of _ "run @ [en]"] exI [of _ zs]) (use hs run assms(2) in \<open>auto simp: tot tm moves_def\<close>)
qed

lemma heap_search_found:
  assumes "heap_search s sz st en tot tm av = Some res" and "searching s sz hs st en tot tm"
  shows "found s sz hs res"
proof -
  have "searching s sz hs st en tot tm \<longrightarrow> found s sz hs res"
  proof (rule heap_search.raw_induct [where P = "\<lambda>s sz st en tot tm av res. searching s sz hs st en tot tm \<longrightarrow> found s sz hs res", OF _ assms(1)])
    fix f s sz st en tot tm av res
    assume IH: "\<And>s sz st en tot tm av res. f s sz st en tot tm av = Some res \<Longrightarrow> searching s sz hs st en tot tm \<longrightarrow> found s sz hs res"
      and eq: "(let hdr = hdrs s en; avl = total_memory (hp s) - used_memory (hp s) in
      if GET_KIND hdr = KIND_IMMOVABLE then
        if hh_next hdr = NULL then Some Not_found
        else f s sz (hh_next hdr) (hh_next hdr) (hh_size (hdrs s (hh_next hdr))) 0 avl
      else
        let avail' = (if GET_KIND hdr = KIND_AVAILABLE then av - hh_size hdr else av);
            to_move' = (if GET_KIND hdr = KIND_MOVABLE then tm + hh_size hdr else tm)
        in if sz \<le> tot then
             if to_move' \<le> avail' then Some (Found st en tot to_move')
             else f s sz en en (hh_size hdr) 0 avl
           else if hh_next hdr = NULL then Some Not_found
           else f s sz st (hh_next hdr) (tot + hh_size (hdrs s (hh_next hdr))) to_move' avail') = Some res"
    show "searching s sz hs st en tot tm \<longrightarrow> found s sz hs res"
    proof
      assume se: "searching s sz hs st en tot tm"
      note nx = searching_next [OF se] and re = searching_restart [OF se] and fd = searching_found [OF se]
      have nf: "found s sz hs Not_found" by (simp add: found_def)
      show "found s sz hs res"
        using eq IH nx re fd nf unfolding Let_def stays_def by (auto split: if_split_asm simp: not_le)
    qed
  qed
  then show ?thesis using assms(2) by simp
qed

text \<open>Splitting the last block of what was found changes nothing but the size of that block.\<close>

definition split_off :: "'x heap_state_scheme \<Rightarrow> 'x heap_state_scheme \<Rightarrow> addr list \<Rightarrow> addr list \<Rightarrow> addr list \<Rightarrow> addr list \<Rightarrow> size_t \<Rightarrow> bool" where
  "split_off s s' ys r zs zs' sz \<longleftrightarrow> heap_inv s' (ys @ r @ zs') \<and> unat sz \<le> bytes s' r \<and> hp s' = hp s
     \<and> bytes s' (ys @ r @ zs') = bytes s (ys @ r @ zs) \<and> set zs \<subseteq> set zs' \<and> (\<forall>k \<in> set zs' - set zs. available s' k)
     \<and> (\<forall>k \<in> set ys \<union> set zs. same_header s s' k)
     \<and> (\<forall>k \<in> set r. hh_flags (hdrs s' k) = hh_flags (hdrs s k) \<and> hh_update_ref (hdrs s' k) = hh_update_ref (hdrs s k))
     \<and> owners s' (filter (moves s') (ys @ r @ zs')) = owners s (filter (moves s) (ys @ r @ zs))"

lemma split_end_off:
  assumes inv: "heap_inv s (ys @ r @ zs)" and r: "r \<noteq> []" "bytes s (butlast r) < unat sz" "unat sz \<le> bytes s r"
  shows "\<exists>zs'. split_off s (split_end sz (last_or NULL r) (of_nat (bytes s r)) s) ys r zs zs' sz"
proof -
  obtain r' en where r': "r = r' @ [en]" using r(1) by (cases r rule: rev_cases) auto
  then have en: "last_or NULL r = en" by simp
  have wf: "heap_wf s (ys @ r @ zs)" and lk: "heap_linked s (ys @ r' @ [en] @ zs)" using inv r' by (auto simp: heap_inv_def heap_wf_def)
  define pos where "pos = sz - of_nat (bytes s r')"
  define s1 where "s1 = split_end sz en (of_nat (bytes s (r' @ [en]))) s"
  have e: "split_end sz (last_or NULL r) (of_nat (bytes s r)) s = s1" unfolding s1_def en by (simp only: r')
  consider (same) "s1 = s" | (split) "available s en" "26 < unat pos" "unat pos + 26 < bsize s en" "s1 = fst (split_header en pos s)"
    "unat pos = unat sz - bytes s r'"
  proof (cases "available s en")
    case True
    have "bytes s r' < unat sz" "unat sz \<le> bytes s (r' @ [en])" using r r' by simp_all
    from split_end_cases [OF lk True this, folded pos_def s1_def] that True show thesis by (auto split: if_splits)
  next
    case False
    then show thesis using that(1) by (simp add: s1_def split_end_def available_def Let_def)
  qed
  then show ?thesis
  proof cases
    case same
    then show ?thesis using inv r(3) unfolding e by (intro exI [of _ zs]) (simp add: split_off_def)
  next
    case split
    let ?zs = "(en + pos) # zs"
    have lk1: "heap_linked s ((ys @ r') @ en # zs)" using lk by simp
    note sp = split_header_linked [OF lk1 split(2,3), folded split(4)] and sh = split_header_hdrs [OF lk1 split(2,3), folded split(4)]
    have same: "same_header s s1 k" if "k \<in> set (ys @ r') \<union> set zs" for k using split_header_same [OF lk1 split(2,3) that] by (simp add: split(4))
    have hen: "hh_flags (hdrs s1 en) = hh_flags (hdrs s en)" "hh_update_ref (hdrs s1 en) = hh_update_ref (hdrs s en)" by (simp_all add: sh(3))
    then have ken: "available s1 en" "\<not> moves s1 en" "\<not> moves s en" using split(1) by (auto simp: available_def moves_def GET_KIND_def)
    have new: "\<not> moves s1 (en + pos)" "a_kind (GET_KIND (hdrs s1 (en + pos)))" using sp(4) by (auto simp: available_def moves_def a_kind_def)
    have by': "bytes s1 ys = bytes s ys" "bytes s1 zs = bytes s zs" "bytes s1 r' = bytes s r'"
      "free_bytes s1 ys = free_bytes s ys" "free_bytes s1 zs = free_bytes s zs" "free_bytes s1 r' = free_bytes s r'"
      by (auto intro!: bytes_cong free_bytes_cong simp: same_headerD [OF same])
    have bytes: "bytes s1 (ys @ r @ ?zs) = bytes s (ys @ r @ zs)" using by' sp(2,3) split(3) by (simp add: r')
    have "free_bytes s1 (ys @ r @ ?zs) = free_bytes s (ys @ r @ zs)" using by' sp(2-4) split(1,3) ken(1) by (simp add: r')
    then have wf1: "heap_wf s1 (ys @ r @ ?zs)" using wf bytes sp(1) sh(2) by (simp add: heap_wf_def r')
    have inv1: "heap_inv s1 (ys @ r @ ?zs)" unfolding heap_inv_def
    proof (intro conjI ballI)
      show "bytes s1 (ys @ r @ ?zs) + 3 < 2 ^ 32" using inv bytes by (simp add: heap_inv_def)
      fix k assume "k \<in> set (ys @ r @ ?zs)"
      then consider "k = en" | "k = en + pos" | "k \<in> set (ys @ r') \<union> set zs" by (auto simp: r')
      then show "a_kind (GET_KIND (hdrs s1 k))" "moves s1 k \<longrightarrow> owner_ok (hdrs s1 k)"
        using inv ken new same_headerD [OF same, of k] by (cases; auto simp: heap_inv_def r' available_def a_kind_def)+
    qed (rule wf1)
    have "owners s1 (filter (moves s1) (ys @ r @ ?zs)) = owners s (filter (moves s) (ys @ r @ zs))"
    proof -
      have f: "filter (moves s1) ks = filter (moves s) ks \<and> owners s1 (filter (moves s) ks) = owners s (filter (moves s) ks)"
        if "set ks \<subseteq> set (ys @ r') \<union> set zs" for ks
        using that same_headerD [OF same] by (auto intro!: filter_cong owners_cong)
      have "set ys \<subseteq> set (ys @ r') \<union> set zs" "set r' \<subseteq> set (ys @ r') \<union> set zs" "set zs \<subseteq> set (ys @ r') \<union> set zs" by auto
      from f [OF this(1)] f [OF this(2)] f [OF this(3)] show ?thesis using ken(2,3) new(1) by (simp add: r')
    qed
    moreover have "bytes s1 r = unat sz" using by'(3) sp(2) split(5) r(2) r' by simp
    ultimately have "split_off s s1 ys r zs ?zs sz"
      using inv1 bytes sh(2) sp(4) same hen by (auto simp: split_off_def r' same_header_def)
    then show ?thesis unfolding e by blast
  qed
qed

section \<open>Allocating\<close>

text \<open>A series that has been cleared of movable blocks becomes the new block.\<close>

lemma claim_result:
  assumes inv: "heap_inv c (ys @ r @ zs)" and r: "r \<noteq> []" "if tm = 0 then \<forall>h \<in> set r. available c h else \<forall>h \<in> set r. stays c h"
    and sz: "26 < unat sz" "unat n + 26 \<le> unat sz" "unat sz \<le> bytes c r" and free: "\<forall>h \<in> set r. \<not> stays s h"
    and same: "bytes c (ys @ r @ zs) = bytes s hs" "heap_base (hp c) = heap_base (hp s)" "total_memory (hp c) = total_memory (hp s)"
    and keep: "\<forall>h \<in> set hs. stays s h \<longrightarrow> h \<in> set (ys @ zs) \<and> same_header s c h"
      "{h \<in> set (ys @ zs). stays c h} = {h \<in> set hs. stays s h}" "owners c (filter (moves c) (ys @ zs)) = owners s (filter (moves s) hs)"
  shows "\<exists>hs'. alloc_result s hs n (claim_blocks sz (hd_or NULL r) (last_or NULL r) tm c) hs' (hd_or NULL r + sizeof_heap_header)"
proof -
  let ?st = "hd_or NULL r"
  define s' where "s' = claim_blocks sz ?st (last_or NULL r) tm c"
  have "heap_linked c (ys @ r @ zs)" using inv by (simp add: heap_inv_def heap_wf_def)
  from claim_series [OF this r(1) sz(1,3), of tm, folded s'_def] obtain rest where t: "taken c s' ys r rest zs sz"
    and u: "used_memory (hp s') = used_memory (hp c) + (if tm = 0 then of_nat (bytes c r) else 0) - of_nat (bytes s' rest)" by blast
  let ?hs = "ys @ [?st] @ rest @ zs"
  note ti = taken_inv [OF inv t u r(2)]
  have st: "unat n + 26 \<le> bsize s' ?st" "hh_flags (hdrs s' ?st) = KIND_IMMOVABLE" "hh_update_ref (hdrs s' ?st) = Absolute_ptr NULL"
    and hp: "heap_base (hp s') = heap_base (hp s)" "total_memory (hp s') = total_memory (hp s)"
    and oth: "\<forall>h \<in> set ys \<union> set zs. same_header c s' h"
    using t sz(2) same(2,3) by (auto simp: taken_def Let_def)
  have "heap_wf s' ?hs" "?st \<in> set ?hs" using ti(1) by (simp_all add: heap_inv_def)
  note p = block_pointer [OF this st(1)]
  have "new_block s s' ?hs n (?st + sizeof_heap_header)" using st free hd_or_in_set [OF r(1)] by (simp add: new_block_def Let_def p(2))
  moreover have "same_stays s hs s' ?hs" unfolding same_stays_def using keep(1) oth same_header_trans by fastforce
  ultimately have "alloc_result s hs n s' ?hs (?st + sizeof_heap_header)"
    unfolding alloc_result_def using ti hp same(1) keep(2,3) p(1) by (simp add: p(2))
  then show ?thesis unfolding s'_def by blast
qed

text \<open>The result for the state after the split is one for the state before it.\<close>

lemma split_off_result:
  assumes sp: "split_off s s1 ys r zs zs' sz" and res: "alloc_result s1 (ys @ r @ zs') n s' hs' p" and p: "p \<noteq> NULL \<longrightarrow> header_of p \<in> set r"
    and free: "\<forall>h \<in> set r. \<not> stays s h"
  shows "alloc_result s (ys @ r @ zs) n s' hs' p"
proof -
  have fl: "\<forall>k \<in> set r. stays s1 k = stays s k" "\<forall>k \<in> set zs' - set zs. \<not> stays s1 k" "set zs \<subseteq> set zs'"
    and same: "\<forall>k \<in> set ys \<union> set zs. same_header s s1 k"
    using sp by (auto simp: split_off_def stays_def available_def GET_KIND_def)
  have "same_stays s (ys @ r @ zs) s1 (ys @ r @ zs')" using same free fl(3) by (auto simp: same_stays_def)
  moreover have "same_stays s1 (ys @ r @ zs') s' hs'" using res by (simp only: alloc_result_def)
  ultimately have "same_stays s (ys @ r @ zs) s' hs'" by (rule same_stays_trans)
  moreover have "{h \<in> set (ys @ r @ zs'). stays s1 h} = {h \<in> set (ys @ r @ zs). stays s h}"
    using fl same same_headerD(3) [of s s1] by fastforce
  moreover have "new_block s s' hs' n p" if "p \<noteq> NULL" using res that p free by (auto simp: alloc_result_def new_block_def Let_def)
  ultimately show ?thesis using res sp by (auto simp: alloc_result_def split_off_def)
qed

text \<open>Nothing has to be moved exactly when every block that was found is available.\<close>

lemma to_move_zero:
  assumes "heap_linked s (ys @ r @ zs)"
  shows "(of_nat (bytes s (filter (moves s) r)) :: size_t) = 0 \<longleftrightarrow> (\<forall>h \<in> set r. \<not> moves s h)"
proof -
  obtain hi where b: "blocks s (unat (hd_or NULL (ys @ r @ zs))) (ys @ r @ zs) hi" "hi < 2 ^ 32" using assms unfolding heap_linked_def by blast
  then have "bytes s (ys @ r @ zs) < 2 ^ 32" using blocks_end [OF b(1)] by simp
  then have "bytes s (filter (moves s) r) < 2 ^ 32" using bytes_filter_le [of s "moves s" r] by simp
  then have un: "unat (of_nat (bytes s (filter (moves s) r)) :: size_t) = bytes s (filter (moves s) r)" by (simp add: unat_of_nat)
  show ?thesis
  proof
    assume "(of_nat (bytes s (filter (moves s) r)) :: size_t) = 0"
    then have "bytes s (filter (moves s) r) = 0" using un by simp
    then have "bsize s h = 0" if "h \<in> set r" "moves s h" for h using bsize_le_bytes [of h "filter (moves s) r" s] that by simp
    then show "\<forall>h \<in> set r. \<not> moves s h" using blocks_bounds [OF b(1)] by fastforce
  next
    assume "\<forall>h \<in> set r. \<not> moves s h"
    then have "filter (moves s) r = []" by (simp add: filter_empty_conv)
    then show "(of_nat (bytes s (filter (moves s) r)) :: size_t) = 0" by simp
  qed
qed

context moving_hooks
begin

lemma alloc_moving:
  assumes al: "allocates al" and inv: "heap_inv s (ys @ r @ zs)" and r: "r \<noteq> []" "\<forall>h \<in> set r. \<not> stays s h"
    and sz: "26 < unat sz" "unat n + 26 \<le> unat sz" "unat sz \<le> bytes s r" and tm: "tm \<noteq> 0"
    and mark: "mark_blocks (hd_or NULL r) (last_or NULL r) s = Some s2"
    and mv: "move_blocks al hk (hd_or NULL r) (last_or NULL r) (hd_or NULL r) s2 = Some (s3, fin)"
  shows "\<exists>hs'. if fin then alloc_result s (ys @ r @ zs) n (claim_blocks sz (hd_or NULL r) (last_or NULL r) tm s3) hs' (hd_or NULL r + sizeof_heap_header)
    else alloc_result s (ys @ r @ zs) n s3 hs' NULL"
proof -
  let ?hs = "ys @ r @ zs"
  have dis: "distinct ?hs" using inv by (rule heap_inv_distinct)
  from mark_series [OF inv r(1)] r(2) mark have ser: "series s2 ?hs r" and by2: "bytes s2 = bytes s" "bsize s2 = bsize s"
    and hp2: "heap_base (hp s2) = heap_base (hp s)" "total_memory (hp s2) = total_memory (hp s)"
    and out2: "\<forall>h \<in> set (ys @ zs). same_header s s2 h" and own2: "all_owners s2 ?hs r = owners s (filter (moves s) ?hs)" by auto
  have st2: "{h \<in> set ?hs. stays s2 h} - set r = {h \<in> set ?hs. stays s h}"
    using r(2) out2 same_headerD(3) [of s s2] dis by fastforce
  have nr: "h \<in> set ?hs - set r" "h \<in> set (ys @ zs)" if "h \<in> set ?hs" "stays s h" for h using that r(2) by auto
  then have keep2: "stays s2 h \<and> same_header s s2 h" if "h \<in> set ?hs" "stays s h" for h using that out2 same_headerD(3) by blast
  obtain h ts where rh: "[] @ h # ts = r" using r(1) by (cases r) auto
  then have "hd_or NULL r = h" by auto
  from move_blocks_series [OF al mv [unfolded this], of ?hs "[]" ts, unfolded rh, OF ser] this obtain hc where
    res: "if fin then progress s2 ?hs s3 hc r \<and> (\<forall>k \<in> set r. \<not> held s3 k) else given_up s2 ?hs s3 hc r" by auto
  show ?thesis
  proof (cases fin)
    case True
    with res have pr: "progress s2 ?hs s3 hc r" and nh: "\<forall>k \<in> set r. \<not> held s3 k" by auto
    then have "series s3 hc r" by (simp add: progress_def)
    then obtain us vs where hc: "hc = us @ r @ vs" and inv3: "heap_inv s3 (us @ r @ vs)" and st3: "\<forall>h \<in> set r. stays s3 h"
      by (auto simp: series_def)
    have dis3: "distinct (us @ r @ vs)" using inv3 by (rule heap_inv_distinct)
    have "bytes s3 r = bytes s r" using pr by2 by (intro bytes_cong) (auto simp: progress_def)
    moreover have "{k \<in> set (us @ vs). stays s3 k} = {k \<in> set hc. stays s3 k} - set r" using dis3 hc by auto
    then have "{k \<in> set (us @ vs). stays s3 k} = {k \<in> set ?hs. stays s k}" using pr st2 by (simp add: progress_def)
    moreover have "owners s3 (filter (moves s3) (us @ vs)) = owners s (filter (moves s) ?hs)"
    proof -
      have "filter (moves s3) r = []" "filter (held s3) r = []" using st3 nh by (auto simp: filter_empty_conv moves_def stays_def)
      then show ?thesis using pr own2 by (simp add: progress_def all_owners_def hc)
    qed
    moreover have "\<forall>k \<in> set ?hs. stays s k \<longrightarrow> k \<in> set (us @ vs) \<and> same_header s s3 k"
    proof (intro ballI impI)
      fix k assume k: "k \<in> set ?hs" "stays s k"
      have k2: "stays s2 k" "same_header s s2 k" "k \<in> set ?hs - set r" using keep2 [OF k] nr(1) [OF k] by blast+
      then have k3: "k \<in> set hc" "same_header s2 s3 k" using pr unfolding progress_def by blast+
      then show "k \<in> set (us @ vs) \<and> same_header s s3 k" using same_header_trans [OF k2(2) k3(2)] k2(3) hc by auto
    qed
    ultimately show ?thesis
      using claim_result [OF inv3 r(1), of tm sz n s ?hs] True tm st3 sz r(2) pr by2(1) hp2 by (simp add: progress_def hc)
  next
    case False
    with res have g: "given_up s2 ?hs s3 hc r" by simp
    have "same_stays s ?hs s3 hc" unfolding same_stays_def
      using g nr(1) keep2 same_header_trans unfolding given_up_def by blast
    then have "alloc_result s ?hs n s3 hc NULL" using g by2(1) hp2 st2 own2 by (simp add: given_up_def alloc_result_def)
    then show ?thesis using False by auto
  qed
qed

end


lemma no_alloc_result: "heap_inv s hs \<Longrightarrow> alloc_result s hs n s hs NULL"
  by (simp add: alloc_result_def same_stays_def)

lemma search_start:
  assumes "heap_linked s hs" and "0 < unat sz"
  shows "searching s sz hs (heap_base (hp s)) (heap_base (hp s)) (hh_size (hdrs s (heap_base (hp s)))) 0"
proof -
  obtain h hs' where hs: "hs = h # hs'" "heap_base (hp s) = h" using assms(1) by (cases hs) (auto simp: heap_linked_def)
  show ?thesis unfolding searching_def hs(2) using assms hs(1)
    by (intro conjI exI [of _ "[]"] exI [of _ hs']) auto
qed

context moving_hooks
begin

lemma alloc_from_found:
  assumes al: "allocates al" and inv: "heap_inv s hs" and n: "unat n + 29 < 2 ^ 32"
    and fd: "found s (alloc_size n) hs (Found st en tot tm)" and s1: "s1 = split_end (alloc_size n) en tot s"
    and ret: "(if tm > 0 then do {
        s2 \<leftarrow> mark_blocks st en s1;
        (s3, moved) \<leftarrow> move_blocks al hk st en st s2;
        if moved then Some (claim_blocks (alloc_size n) st en tm s3, st + sizeof_heap_header) else Some (s3, NULL)
      } else Some (claim_blocks (alloc_size n) st en tm s1, st + sizeof_heap_header)) = Some (s', p)"
  shows "\<exists>hs'. alloc_result s hs n s' hs' p"
proof -
  let ?sz = "alloc_size n"
  obtain ys r zs where hs: "hs = ys @ r @ zs" and r: "r \<noteq> []" "st = hd_or NULL r" "en = last_or NULL r"
    and tot: "tot = of_nat (bytes s r)" and tm: "tm = of_nat (bytes s (filter (moves s) r))" and free: "\<forall>k \<in> set r. \<not> stays s k"
    and sz: "bytes s (butlast r) < unat ?sz" "unat ?sz \<le> bytes s r"
    using fd by (auto simp: found_def)
  have inv': "heap_inv s (ys @ r @ zs)" using inv hs by simp
  obtain zs' where sp: "split_off s s1 ys r zs zs' ?sz"
    using split_end_off [OF inv' r(1) sz] unfolding s1 r tot by blast
  then have inv1: "heap_inv s1 (ys @ r @ zs')" and sz1: "unat ?sz \<le> bytes s1 r"
    and fl: "\<And>k. k \<in> set r \<Longrightarrow> GET_KIND (hdrs s1 k) = GET_KIND (hdrs s k)" by (auto simp: split_off_def GET_KIND_def)
  have free1: "\<forall>k \<in> set r. \<not> stays s1 k" using free fl by (auto simp: stays_def)
  note n' = alloc_size_bounds [OF n]
  then have big: "26 < unat ?sz" by simp
  have "\<exists>hs'. alloc_result s1 (ys @ r @ zs') n s' hs' p \<and> (p \<noteq> NULL \<longrightarrow> header_of p \<in> set r)"
  proof (cases "tm = 0")
    case True
    then have p: "s' = claim_blocks ?sz st en tm s1" "p = st + sizeof_heap_header" using ret by simp_all
    have "heap_linked s (ys @ r @ zs)" using inv' by (simp add: heap_inv_def heap_wf_def)
    from to_move_zero [OF this] True tm have "\<forall>k \<in> set r. \<not> moves s k" by simp
    then have av: "\<forall>k \<in> set r. available s1 k" using free inv' fl by (auto simp: heap_inv_def a_kind_def moves_def stays_def available_def)
    then have "filter (moves s1) r = []" "set r \<inter> {k. stays s1 k} = {}" by (auto simp: filter_empty_conv available_def moves_def stays_def)
    then have "\<exists>hs'. alloc_result s1 (ys @ r @ zs') n s' hs' p"
      using claim_result [OF inv1 r(1), of tm ?sz n s1 "ys @ r @ zs'"] True av big n'(1) sz1 free1 unfolding p r by auto
    then show ?thesis using hd_or_in_set [OF r(1)] p(2) r(2) by (auto simp: header_of_def)
  next
    case False
    with ret obtain s2 s3 fin where mk: "mark_blocks st en s1 = Some s2" and mv: "move_blocks al hk st en st s2 = Some (s3, fin)"
      and p: "(s', p) = (if fin then (claim_blocks ?sz st en tm s3, st + sizeof_heap_header) else (s3, NULL))"
      by (auto simp: word_gt_0 bind_eq_Some_conv split: if_splits prod.splits)
    from alloc_moving [OF al inv1 r(1) free1 big n'(1) sz1 False mk [unfolded r] mv [unfolded r]]
    show ?thesis using p r(2,3) hd_or_in_set [OF r(1)] by (cases fin) (auto simp: header_of_def)
  qed
  then show ?thesis using split_off_result [OF sp _ _ free] unfolding hs by blast
qed

lemma heap_alloc_allocates: "allocates (heap_alloc hk)"
proof -
  have "k = hk \<longrightarrow> (\<forall>hs. heap_inv s hs \<and> unat n + 29 < 2 ^ 32 \<longrightarrow> (\<exists>hs'. alloc_result s hs n (fst z) hs' (snd z)))"
    if "heap_alloc k s n = Some z" for k s n z
  proof (rule heap_alloc.raw_induct [where P = "\<lambda>k s n z. k = hk \<longrightarrow>
      (\<forall>hs. heap_inv s hs \<and> unat n + 29 < 2 ^ 32 \<longrightarrow> (\<exists>hs'. alloc_result s hs n (fst z) hs' (snd z)))", OF _ that], intro impI allI, elim conjE)
    fix f k s n z hs
    assume IH: "\<And>k s n z. f k s n = Some z \<Longrightarrow> k = hk \<longrightarrow>
        (\<forall>hs. heap_inv s hs \<and> unat n + 29 < 2 ^ 32 \<longrightarrow> (\<exists>hs'. alloc_result s hs n (fst z) hs' (snd z)))"
      and eq: "(let sz = alloc_size n; avail = total_memory (hp s) - used_memory (hp s); base = heap_base (hp s) in
        if sz > avail then Some (s, NULL)
        else do {
          found \<leftarrow> heap_search s sz base base (hh_size (hdrs s base)) 0 avail;
          case found of
            Not_found \<Rightarrow> Some (s, NULL)
          | Found st en tot to_move \<Rightarrow>
              let s1 = split_end sz en tot s in
              if to_move > 0 then do {
                s2 \<leftarrow> mark_blocks st en s1;
                (s3, moved) \<leftarrow> move_blocks (f k) k st en st s2;
                if moved then Some (claim_blocks sz st en to_move s3, st + sizeof_heap_header)
                else Some (s3, NULL)
              }
              else Some (claim_blocks sz st en to_move s1, st + sizeof_heap_header)
        }) = Some z"
      and k: "k = hk" and inv: "heap_inv s hs" and n: "unat n + 29 < 2 ^ 32"
    have al: "allocates (f hk)" unfolding allocates_def using IH by fastforce
    have "heap_linked s hs" "0 < unat (alloc_size n)" using inv alloc_size_bounds [OF n] by (auto simp: heap_inv_def heap_wf_def)
    note start = search_start [OF this]
    show "\<exists>hs'. alloc_result s hs n (fst z) hs' (snd z)"
    proof (cases "z = (s, NULL)")
      case True
      then show ?thesis using no_alloc_result [OF inv] by auto
    next
      case False
      let ?b = "heap_base (hp s)" and ?av = "total_memory (hp s) - used_memory (hp s)"
      have av: "\<not> ?av < alloc_size n" using eq False by (auto simp: Let_def)
      then obtain fd where se: "heap_search s (alloc_size n) ?b ?b (hh_size (hdrs s ?b)) 0 ?av = Some fd"
        using eq by (cases "heap_search s (alloc_size n) ?b ?b (hh_size (hdrs s ?b)) 0 ?av") (simp_all add: Let_def)
      have "fd \<noteq> Not_found" using eq av se False by (auto simp: Let_def)
      then obtain st en tot tm where fd: "fd = Found st en tot tm" by (cases fd) auto
      have eq': "(if tm > 0 then do {
            s2 \<leftarrow> mark_blocks st en (split_end (alloc_size n) en tot s);
            (s3, moved) \<leftarrow> move_blocks (f hk) hk st en st s2;
            if moved then Some (claim_blocks (alloc_size n) st en tm s3, st + sizeof_heap_header) else Some (s3, NULL)
          } else Some (claim_blocks (alloc_size n) st en tm (split_end (alloc_size n) en tot s), st + sizeof_heap_header)) = Some (fst z, snd z)"
        using eq av unfolding Let_def k se fd by simp
      show ?thesis by (rule alloc_from_found [OF al inv n heap_search_found [OF se [unfolded fd] start] refl eq'])
    qed
  qed
  then show ?thesis unfolding allocates_def by fastforce
qed

end

end
