(* ===== verification/Heap_Search.thy ===== *)
theory Heap_Search
  imports Moving_Blocks
begin

text \<open>
  When the search of \<open>heap_alloc\<close> ends. It starts over at the block it has reached when more would have
  to be moved than there is memory available; it gets past that block unless the block alone is large enough and
  movable but does not fit in the available memory. Then it examines the same block for ever.
\<close>

section \<open>Searches that end\<close>

abbreviation free_memory :: "'x heap_state_scheme \<Rightarrow> size_t" where
  "free_memory s \<equiv> total_memory (hp s) - used_memory (hp s)"

text \<open>Every movable block is too small for the allocation or fits in the available memory.\<close>

definition movable_fit :: "'x heap_state_scheme \<Rightarrow> size_t \<Rightarrow> addr list \<Rightarrow> bool" where
  "movable_fit s sz hs \<longleftrightarrow> (\<forall>h \<in> set hs. moves s h \<longrightarrow> hh_size (hdrs s h) < sz \<or> hh_size (hdrs s h) \<le> free_memory s)"

lemma heap_search_advances:
  assumes fit: "moves s en \<longrightarrow> hh_size (hdrs s en) < sz \<or> hh_size (hdrs s en) \<le> free_memory s"
    and nx: "\<And>st tot tm av. hh_next (hdrs s en) \<noteq> NULL \<Longrightarrow> \<exists>res. heap_search s sz st (hh_next (hdrs s en)) tot tm av = Some res"
  shows "\<exists>res. heap_search s sz st en tot tm av = Some res"
proof -
  have fresh: "\<exists>res. heap_search s sz en en (hh_size (hdrs s en)) 0 (free_memory s) = Some res"
    using fit nx by (subst heap_search.simps) (auto simp: Let_def moves_def not_le)
  show ?thesis using fresh nx by (subst heap_search.simps) (auto simp: Let_def)
qed

lemma heap_search_ends:
  assumes "heap_linked s (ys @ en # zs)" and "movable_fit s sz (ys @ en # zs)"
  shows "\<exists>res. heap_search s sz st en tot tm av = Some res"
  using assms
proof (induction zs arbitrary: ys en st tot tm av)
  case Nil
  then have nx: "hh_next (hdrs s en) = NULL" using heap_linked_mid(1) [of s ys "[]" en "[]"] by simp
  have "moves s en \<longrightarrow> hh_size (hdrs s en) < sz \<or> hh_size (hdrs s en) \<le> free_memory s" using Nil.prems(2) by (simp add: movable_fit_def)
  then show ?case by (rule heap_search_advances) (simp add: nx)
next
  case (Cons k zs)
  have nx: "hh_next (hdrs s en) = k" using heap_linked_mid(1) [of s ys "[]" en "k # zs"] Cons.prems(1) by simp
  have "heap_linked s ((ys @ [en]) @ k # zs)" "movable_fit s sz ((ys @ [en]) @ k # zs)" using Cons.prems by simp_all
  note ih = Cons.IH [OF this]
  have "moves s en \<longrightarrow> hh_size (hdrs s en) < sz \<or> hh_size (hdrs s en) \<le> free_memory s" using Cons.prems(2) by (simp add: movable_fit_def)
  then show ?case by (rule heap_search_advances) (simp only: nx ih)
qed

section \<open>Searches that do not end\<close>

text \<open>A movable block that is large enough and larger than the available memory holds the search up.\<close>

lemma heap_search_stuck:
  assumes "moves s h" and "sz \<le> hh_size (hdrs s h)" and "free_memory s < hh_size (hdrs s h)"
  shows "heap_search s sz h h (hh_size (hdrs s h)) 0 (free_memory s) = None"
proof (rule ccontr)
  let ?here = "\<lambda>t n st en tot tm av. t = s \<and> n = sz \<and> st = h \<and> en = h \<and> tot = hh_size (hdrs s h) \<and> tm = (0 :: size_t) \<and> av = free_memory s"
  assume "\<not> ?thesis"
  then obtain res where res: "heap_search s sz h h (hh_size (hdrs s h)) 0 (free_memory s) = Some res" by blast
  have "\<not> ?here s sz h h (hh_size (hdrs s h)) 0 (free_memory s)"
  proof (rule heap_search.raw_induct [where P = "\<lambda>t n st en tot tm av r. \<not> ?here t n st en tot tm av", OF _ res])
    fix f t n st en tot tm av r
    assume ih: "\<And>t n st en tot tm av r. f t n st en tot tm av = Some r \<Longrightarrow> \<not> ?here t n st en tot tm av"
      and eq: "(let hdr = hdrs t en; avl = free_memory t in
      if GET_KIND hdr = KIND_IMMOVABLE then
        if hh_next hdr = NULL then Some Not_found
        else f t n (hh_next hdr) (hh_next hdr) (hh_size (hdrs t (hh_next hdr))) 0 avl
      else
        let avail' = (if GET_KIND hdr = KIND_AVAILABLE then av - hh_size hdr else av);
            to_move' = (if GET_KIND hdr = KIND_MOVABLE then tm + hh_size hdr else tm)
        in if n \<le> tot then
             if to_move' \<le> avail' then Some (Found st en tot to_move')
             else f t n en en (hh_size hdr) 0 avl
           else if hh_next hdr = NULL then Some Not_found
           else f t n st (hh_next hdr) (tot + hh_size (hdrs t (hh_next hdr))) to_move' avail') = Some r"
    show "\<not> ?here t n st en tot tm av"
    proof
      assume h: "?here t n st en tot tm av"
      then have "f s sz h h (hh_size (hdrs s h)) 0 (free_memory s) = Some r"
        using eq assms by (simp add: Let_def moves_def not_le [symmetric])
      from ih [OF this] show False by simp
    qed
  qed
  then show False by simp
qed

text \<open>Blocks that must not move are passed one by one.\<close>

lemma heap_search_passes:
  assumes "heap_linked s (ys @ xs @ h # zs)" and "\<forall>k \<in> set xs. stays s k"
  shows "heap_search s sz (hd_or h xs) (hd_or h xs) (hh_size (hdrs s (hd_or h xs))) 0 (free_memory s) =
    heap_search s sz h h (hh_size (hdrs s h)) 0 (free_memory s)"
  using assms
proof (induction xs arbitrary: ys)
  case (Cons k xs)
  have nx: "hh_next (hdrs s k) = hd_or h xs" "hd_or h xs \<noteq> NULL"
    using heap_linked_mid(1,2) [of s ys "[]" k "xs @ h # zs"] Cons.prems(1) by (cases xs; simp)+
  have "heap_linked s ((ys @ [k]) @ xs @ h # zs)" using Cons.prems(1) by simp
  from Cons.IH [OF this] Cons.prems(2) nx show ?case
    by (simp add: heap_search.simps [of s sz k k] stays_def Let_def)
qed simp

section \<open>What follows for allocation\<close>

text \<open>
  C36: when every movable block is smaller than the allocation or fits in the available memory, the search of
  an allocation returns, whatever the order of the blocks. What it finds are adjacent blocks of the heap, none of them
  immovable, that are large enough together and not without the last one, with their total size and the size of what has to be moved.
\<close>

theorem heap_search_returns:
  assumes "heap_linked s hs" and "movable_fit s sz hs" and "0 < sz"
  shows "\<exists>res. heap_search s sz (heap_base (hp s)) (heap_base (hp s)) (hh_size (hdrs s (heap_base (hp s)))) 0 (free_memory s) = Some res
    \<and> found s sz hs res"
proof -
  have "0 < unat sz" using assms(3) by (simp add: unat_gt_0 word_gt_0)
  note start = search_start [OF assms(1) this]
  obtain h hs' where hs: "hs = [] @ h # hs'" "heap_base (hp s) = h" using assms(1) by (cases hs) (auto simp: heap_linked_def)
  from heap_search_ends [of s "[]" h hs' sz] assms(1,2) hs heap_search_found [OF _ start] show ?thesis by (metis append_Nil)
qed

definition demo_movable :: "size_t \<Rightarrow> heap_state" where
  "demo_movable n = demo_heap2\<lparr>
     hdrs := (\<lambda>_. \<lparr>hh_size = 0, hh_flags = 0, hh_update_ref = Absolute_ptr NULL, hh_next = NULL, hh_prev = NULL\<rparr>)
        (4096 := \<lparr>hh_size = 100, hh_flags = KIND_IMMOVABLE, hh_update_ref = Absolute_ptr NULL, hh_next = 4196, hh_prev = NULL\<rparr>,
         4196 := \<lparr>hh_size = n, hh_flags = KIND_MOVABLE, hh_update_ref = Absolute_ptr NULL, hh_next = 4196 + n, hh_prev = 4096\<rparr>,
         4196 + n := \<lparr>hh_size = 120, hh_flags = KIND_AVAILABLE, hh_update_ref = Absolute_ptr NULL, hh_next = NULL, hh_prev = 4196\<rparr>),
     hp := \<lparr>heap_base = 4096, total_memory = 220 + n, used_memory = 100 + n\<rparr>\<rparr>"

lemma demo_movable_wf:
  "heap_wf (demo_movable 64) [4096, 4196, 4260]" "heap_wf (demo_movable 200) [4096, 4196, 4396]"
  by (simp_all add: heap_wf_def heap_linked_def demo_movable_def bsize_def available_def GET_KIND_def heap_consts)

theorem heap_search_returns_witness:
  "\<exists>res. heap_search (demo_movable 64) 100 4096 4096 100 0 120 = Some res \<and> found (demo_movable 64) 100 [4096, 4196, 4260] res"
  using heap_search_returns [of "demo_movable 64" "[4096, 4196, 4260]" 100] demo_movable_wf(1)
  by (simp add: heap_wf_def movable_fit_def demo_movable_def)

text \<open>
  C37: an allocation for which there is enough memory available never returns when the first block that may be given up,
  after any number of immovable ones, is movable and larger than the available memory: the search restarts at the block it is at.
  It does not matter whether an available block behind it would have been large enough.
\<close>

theorem heap_alloc_never_returns:
  assumes "heap_linked s (xs @ h # zs)" and "\<forall>k \<in> set xs. stays s k" and "moves s h"
    and "alloc_size n \<le> free_memory s" and "free_memory s < hh_size (hdrs s h)"
  shows "heap_alloc hk s n = None"
proof -
  have base: "heap_base (hp s) = hd_or h xs" using assms(1) by (cases xs) (auto simp: heap_linked_def)
  have "heap_search s (alloc_size n) h h (hh_size (hdrs s h)) 0 (free_memory s) = None"
    using assms(3-5) by (intro heap_search_stuck) auto
  with heap_search_passes [of s "[]" xs h zs "alloc_size n"] assms(1,2) base show ?thesis
    using assms(4) by (subst heap_alloc.simps) (simp add: Let_def not_less)
qed

theorem heap_alloc_never_returns_witness:
  "heap_wf (demo_movable 200) [4096, 4196, 4396] \<and> available (demo_movable 200) 4396 \<and> unat (alloc_size 10) \<le> bsize (demo_movable 200) 4396
    \<and> heap_alloc demo_hooks (demo_movable 200) 10 = None"
  using heap_alloc_never_returns [of "demo_movable 200" "[4096]" 4196 "[4396]" 10 demo_hooks] demo_movable_wf(2)
  by (simp add: heap_wf_def demo_movable_def stays_def moves_def available_def bsize_def alloc_size_def GET_KIND_def heap_consts)

end
