(* ===== verification/Moving_Objects.thy ===== *)
theory Moving_Objects
  imports Heap_Search Cap_Merge
begin

unbundle bit_operations_syntax

text \<open>
  The kernel as the client of a heap that moves blocks: what the functions of \<open>capabilities.c\<close>,
  \<open>threads.c\<close> and \<open>ipc.c\<close> do when they are told that an object moved stays outside the headers and the counters
  of the heap, so allocation in the kernel keeps every object. The search itself is also shown to end when every movable
  block fits in the available memory, and not to end when it meets one that does not.
\<close>

section \<open>The callbacks and the heap\<close>

definition same_heap :: "kstate \<Rightarrow> kstate \<Rightarrow> bool" where
  "same_heap s s' \<longleftrightarrow> hdrs s' = hdrs s \<and> hp s' = hp s"

lemma same_heap_refl [simp]: "same_heap s s"
  by (simp add: same_heap_def)

lemma same_heap_trans: "same_heap s t \<Longrightarrow> same_heap t u \<Longrightarrow> same_heap s u"
  by (simp add: same_heap_def)

lemma same_heap_upd [simp]:
  "same_heap s (upd_cap a f t) = same_heap s t" "same_heap s (upd_thread a g t) = same_heap s t" "same_heap s (upd_endpoint a h t) = same_heap s t"
  by (simp_all add: same_heap_def upd_cap_def upd_thread_def upd_endpoint_def)

lemma iter_links_same_heap:
  assumes "iter_links nx body v s = Some t" and "\<And>v s s'. body v s = Some s' \<Longrightarrow> same_heap s s'"
  shows "same_heap s t"
  by (rule iter_links_keeps [OF assms(1), where Q = "same_heap s"]) (use assms(2) same_heap_trans in auto)

text \<open>The steps of a callback: each makes a state with the same heap, or reads a value.\<close>

lemma let_same_heap:
  "Let a f = Some s' \<Longrightarrow> same_heap s a \<Longrightarrow> (\<And>x. same_heap s x \<Longrightarrow> f x = Some s' \<Longrightarrow> same_heap s s') \<Longrightarrow> same_heap s s'"
  by (simp add: Let_def)

lemma let_value: "Let a f = Some s' \<Longrightarrow> (\<And>x. f x = Some s' \<Longrightarrow> same_heap s s') \<Longrightarrow> same_heap s s'"
  by (simp add: Let_def)

lemma bind_same_heap:
  "Option.bind a f = Some s' \<Longrightarrow> (\<And>x. a = Some x \<Longrightarrow> f x = Some s' \<Longrightarrow> same_heap s s') \<Longrightarrow> same_heap s s'"
  by (cases a) simp_all

lemma update_capability_references_same_heap:
  assumes "update_capability_references c s = Some s'"
  shows "same_heap s s'"
proof -
  let ?f = "\<lambda>v s. Some (upd_cap v (\<lambda>x. x\<lparr>cap_derived_from := c\<rparr>) s)"
  have loop: "same_heap s u" if "(if b then for_derived ?f d t else Some t) = Some u" "same_heap s t" for b d t u
  proof (cases b)
    case True
    then have "same_heap t u" using that(1) iter_links_same_heap [of next_derived ?f] by (auto simp: for_derived_def)
    then show ?thesis by (rule same_heap_trans [OF that(2)])
  qed (use that in simp)
  have last: "same_heap s s'" if "Some (if b then upd_cap d g u else u) = Some s'" "same_heap s u" for b d g u
    using that by (cases b) auto
  show ?thesis
    apply (rule bind_same_heap [OF assms [unfolded update_capability_references_def]])
    apply (erule let_same_heap, simp add: same_heap_def)
    apply (erule bind_same_heap)
    apply (erule let_same_heap, simp add: same_heap_def)
    apply (erule bind_same_heap)
    apply (erule last, erule loop, assumption)
    done
qed

lemma on_node_moved_same_heap: "on_node_moved node s = Some s' \<Longrightarrow> same_heap s s'"
  unfolding on_node_moved_def
  by (rule for_each_invariant [where P = "same_heap s"])
    (use update_capability_references_same_heap same_heap_trans in \<open>auto split: if_split_asm\<close>)

lemma on_endpoint_moved_same_heap:
  assumes "on_endpoint_moved e s = Some s'"
  shows "same_heap s s'"
proof -
  let ?f = "\<lambda>t s. Some (upd_thread t (\<lambda>x. x\<lparr>blocked_on := e\<rparr>) s)"
  have "same_heap t u" if "for_blocked ?f c t = Some u" for c t u
    using that iter_links_same_heap [of _ ?f] by (auto simp: for_blocked_def)
  moreover obtain u where "for_blocked ?f (blocked_sending (endpoints s e)) s = Some u" "for_blocked ?f (blocked_receiving (endpoints u e)) u = Some s'"
    using assms by (auto simp: on_endpoint_moved_def bind_eq_Some_conv)
  ultimately show ?thesis using same_heap_trans by blast
qed

lemma on_thread_moved_same_heap:
  assumes "on_thread_moved t s = Some s'"
  shows "same_heap s s'"
proof -
  have last: "same_heap s s'"
    if "same_heap s u" "(if cap_handlers (caps u t) \<noteq> No_handlers then update_capability_references t u else Some u) = Some s'" for u
    using that same_heap_trans [OF that(1) update_capability_references_same_heap] by (simp split: if_split_asm)
  note run = assms [unfolded on_thread_moved_def]
  show ?thesis
    apply (rule let_same_heap [OF run])
     apply (simp add: same_heap_def split: option.split prod.split)
    apply (erule let_value)
    apply (erule let_same_heap)
     apply (simp add: same_heap_def upd_endpoint_def split: prod.split)
    apply (erule let_value)
    apply (erule let_same_heap)
     apply (simp add: same_heap_def split: prod.split)
    apply (erule let_same_heap)
     apply (simp add: same_heap_def split: prod.split)
    apply (erule let_same_heap)
     apply (simp add: same_heap_def)
    apply (rule last [rotated])
     apply assumption+
    done
qed

lemma on_moved_same_heap: "on_moved h r s = Some s' \<Longrightarrow> same_heap s s'"
  using on_node_moved_same_heap on_thread_moved_same_heap on_endpoint_moved_same_heap
  by (auto simp: on_moved_def split: handlers.split_asm)

text \<open>The lock a lookup left is given back when the resource has been changed.\<close>

lemma unlock_if_same_heap: "same_heap s t \<Longrightarrow> same_heap (unlock_if b p s) (unlock_if b p t)"
  by (simp add: same_heap_def unlock_if_def heap_unlock_def upd_hdr_def)

lemma update_resource_at_same_heap:
  assumes "update_resource_at r p s = Some s'"
  shows "same_heap (unlock_looked_up_capability r s) s'"
proof -
  let ?f = "\<lambda>v s. Some (upd_cap v (\<lambda>x. x\<lparr>cap_resource := p\<rparr>) s)"
  have loop: "same_heap t u" if "for_sharing ?f a t = Some u" for a t u
    using that iter_links_same_heap [of next_sharing ?f] by (auto simp: for_sharing_def)
  consider "s' = unlock_looked_up_capability r s"
    | u v where "for_sharing ?f (lr_slot r) s = Some u" "on_moved (cap_handlers (caps u (lr_slot r))) (cap_resource (caps u (lr_slot r))) u = Some v"
        "s' = unlock_looked_up_capability r v"
    using assms by (auto simp: update_resource_at_def bind_eq_Some_conv split: if_split_asm)
  then obtain u where "same_heap s u" "s' = unlock_looked_up_capability r u"
  proof cases
    case 1
    then show ?thesis using that same_heap_refl by blast
  next
    case (2 u v)
    then show ?thesis using that [of v] loop [OF 2(1)] on_moved_same_heap [OF 2(2)] same_heap_trans by blast
  qed
  then show ?thesis using unlock_if_same_heap by (simp add: unlock_looked_up_capability_def)
qed

lemma update_capability_resource_same_heap:
  assumes "update_capability_resource a p s = Some s'"
  shows "same_heap s s'"
proof (cases "aca_address a = 0 \<and> aca_depth a = 0")
  case True
  with assms obtain s1 b t where th: "look_up_thread_by_id (aca_thread_id a) (aca_bucket_number a) s = Some (s1, b, t)"
    and rest: "(if t = NULL then Some s1 else update_resource_at \<lparr>lr_slot = t, lr_depth = 0, lr_container = t, lr_should_unlock = b\<rparr> p s1) = Some s'"
    by (auto simp: update_capability_resource_def bind_eq_Some_conv)
  have l: "b \<longrightarrow> movable s t" "s1 = holds_lock s t b" "b \<longrightarrow> t \<noteq> NULL" using look_up_thread_by_id_locks [OF th] by auto
  show ?thesis
  proof (cases "t = NULL")
    case True
    then show ?thesis using l rest by (simp add: holds_lock_def)
  next
    case False
    then have "same_heap (unlock_if b t s1) s'" using rest update_resource_at_same_heap [of _ p s1 s'] by (fastforce simp: unlock_looked_up_capability_def)
    then show ?thesis using unlock_holds_lock [OF l(1)] l(2) by simp
  qed
next
  case False
  with assms obtain s1 r where lk: "look_up_capability_absolute a s = Some (s1, r)"
    and rest: "(case r of None \<Rightarrow> Some s1 | Some x \<Rightarrow> update_resource_at x p s1) = Some s'"
    unfolding update_capability_resource_def by (auto simp: bind_eq_Some_conv simp del: not_all)
  note lv = look_up_capability_absolute_leaves [OF lk]
  show ?thesis
  proof (cases r)
    case None
    then show ?thesis using lv rest by (simp add: lookup_leaves_def)
  next
    case (Some x)
    then have "same_heap (unlock_looked_up_capability x s1) s'" using rest update_resource_at_same_heap by simp
    then show ?thesis using lv Some unlock_holds_lock by (simp add: lookup_leaves_def unlock_looked_up_capability_def)
  qed
qed

interpretation objects: moving_hooks kernel_hooks
proof unfold_locales
  fix d a :: addr and n :: size_t and s :: kstate
  show "hdrs (hk_memcpy kernel_hooks d a n s) = hdrs s" "hp (hk_memcpy kernel_hooks d a n s) = hp s"
    by (simp_all add: kernel_hooks_def kernel_memcpy_def)
next
  fix c d and s s' :: kstate
  assume "hk_update_capability kernel_hooks c d s = Some s'"
  then show "hdrs s' = hdrs s \<and> hp s' = hp s" using update_capability_resource_same_heap by (simp add: kernel_hooks_def same_heap_def)
next
  fix f d and s s' :: kstate
  assume "hk_function kernel_hooks f d s = Some s'"
  then show "hdrs s' = hdrs s \<and> hp s' = hp s" using on_thread_moved_same_heap by (cases f) (simp add: kernel_hooks_def same_heap_def)
qed (simp_all add: kernel_hooks_def)

section \<open>Allocation in the kernel\<close>


text \<open>A heap in which a movable block has to make room: 100 bytes of it, next to 60 that are available. The thread its capability was in is gone.\<close>

definition demo_owner :: absolute_capability_address where
  "demo_owner = \<lparr>aca_thread_id = 7, aca_bucket_number = 7, aca_address = 0, aca_depth = 0\<rparr>"

definition demo_crowded :: kstate where
  "demo_crowded = zero_kstate\<lparr>
     hdrs := (hdrs zero_kstate)
        (4096 := \<lparr>hh_size = 100, hh_flags = KIND_MOVABLE OR FLAG_CAPABILITY_RESOURCE, hh_update_ref = Update_capability demo_owner, hh_next = 4196, hh_prev = NULL\<rparr>,
         4196 := \<lparr>hh_size = 60, hh_flags = KIND_AVAILABLE, hh_update_ref = Absolute_ptr NULL, hh_next = 4256, hh_prev = 4096\<rparr>,
         4256 := \<lparr>hh_size = 30, hh_flags = KIND_IMMOVABLE, hh_update_ref = Absolute_ptr NULL, hh_next = 4286, hh_prev = 4196\<rparr>,
         4286 := \<lparr>hh_size = 140, hh_flags = KIND_AVAILABLE, hh_update_ref = Absolute_ptr NULL, hh_next = NULL, hh_prev = 4256\<rparr>),
     hp := \<lparr>heap_base = 4096, total_memory = 330, used_memory = 130\<rparr>\<rparr>"

lemma demo_crowded_inv: "heap_inv demo_crowded [4096, 4196, 4256, 4286]"
  by (simp add: heap_inv_def heap_wf_def heap_linked_def demo_crowded_def bsize_def available_def GET_KIND_def heap_consts
      a_kind_def moves_def owner_ok_def owner_bits_def)

lemma kernel_memcpy_frame: "hdrs (kernel_memcpy d a n s) = hdrs s" "hp (kernel_memcpy d a n s) = hp s"
  "thread_hash_table (kernel_memcpy d a n s) = thread_hash_table s"
  by (simp_all add: kernel_memcpy_def)

lemma demo_crowded_alloc: "\<exists>s'. heap_alloc kernel_hooks demo_crowded 124 = Some (s', 4122)"
proof -
  note d = Let_def demo_crowded_def heap_consts GET_KIND_def SET_KIND_def GET_OLD_KIND_def SET_OLD_KIND_def alloc_size_def upd_hdr_def upd_used_def
    split_end_def split_header_def claim_blocks_def merge_blocks_def move_block_def heap_unlock_def header_of_def kernel_hooks_def kernel_memcpy_frame
    update_capability_resource_def look_up_thread_by_id_def find_thread.simps demo_owner_def heap_set_update_capability_def zero_kstate_def LIST_INIT_def
  show ?thesis
    by (simp add: heap_alloc.simps heap_search.simps mark_blocks.simps move_blocks.simps d)
qed


end
