(* ===== verification/Heap_Uses.thy ===== *)
theory Heap_Uses
  imports Moving_Objects
begin

unbundle bit_operations_syntax

text \<open>
  The heap over a whole run of the kernel: a step relation of what the kernel does with it (allocating,
  locking, unlocking, naming the owner of a block, freeing, and anything that leaves the heap alone) and the invariant of all states
  that can be reached.
\<close>

section \<open>The invariant\<close>

text \<open>The invariant of a heap with movable blocks; blocks that are locked keep their owner.\<close>

definition heap_ok :: "'x heap_state_scheme \<Rightarrow> addr list \<Rightarrow> bool" where
  "heap_ok s hs \<longleftrightarrow> heap_inv s hs \<and> (\<forall>h \<in> set hs. stays s h \<longrightarrow> owner_ok (hdrs s h))"

lemma heap_ok_alt:
  "heap_ok s hs \<longleftrightarrow> heap_wf s hs \<and> bytes s hs + 3 < 2 ^ 32
     \<and> (\<forall>h \<in> set hs. a_kind (GET_KIND (hdrs s h)) \<and> (\<not> available s h \<longrightarrow> owner_ok (hdrs s h)))"
  unfolding heap_ok_def heap_inv_def by (auto simp: a_kind_def moves_def stays_def available_def)

text \<open>The list of blocks is determined by the state.\<close>

lemma heap_linked_unique: "heap_linked s hs \<Longrightarrow> heap_linked s ks \<Longrightarrow> hs = ks"
  using dseg_unique unfolding heap_linked_def by metis

section \<open>Changing the header of a block in use\<close>

lemma heap_ok_upd_hdr:
  assumes ok: "heap_ok s hs" and h: "\<not> available s h"
    and f: "hh_size (f (hdrs s h)) = hh_size (hdrs s h)" "hh_next (f (hdrs s h)) = hh_next (hdrs s h)" "hh_prev (f (hdrs s h)) = hh_prev (hdrs s h)"
      "GET_KIND (f (hdrs s h)) = KIND_IMMOVABLE \<or> GET_KIND (f (hdrs s h)) = KIND_MOVABLE" "h \<in> set hs \<longrightarrow> owner_ok (f (hdrs s h))"
  shows "heap_ok (upd_hdr h f s) hs" "bytes (upd_hdr h f s) hs = bytes s hs"
proof -
  have wf: "heap_wf s hs" using ok by (simp add: heap_ok_alt)
  have av: "available (upd_hdr h f s) k = available s k" for k using f(4) h by (auto simp: available_def)
  have lay: "hh_size (hdrs (upd_hdr h f s) a) = hh_size (hdrs s a)" "hh_next (hdrs (upd_hdr h f s) a) = hh_next (hdrs s a)"
    "hh_prev (hdrs (upd_hdr h f s) a) = hh_prev (hdrs s a)" for a using f by auto
  note w = heap_wf_same_layout [OF wf lay _ av]
  then show b: "bytes (upd_hdr h f s) hs = bytes s hs" by simp
  show "heap_ok (upd_hdr h f s) hs" unfolding heap_ok_alt
  proof (intro conjI ballI)
    show "heap_wf (upd_hdr h f s) hs" using w by simp
    show "bytes (upd_hdr h f s) hs + 3 < 2 ^ 32" using ok b by (simp add: heap_ok_alt)
    fix k assume "k \<in> set hs"
    then show "a_kind (GET_KIND (hdrs (upd_hdr h f s) k))" "\<not> available (upd_hdr h f s) k \<longrightarrow> owner_ok (hdrs (upd_hdr h f s) k)"
      using ok f(4,5) av [of k] by (auto simp: heap_ok_alt a_kind_def)
  qed
qed

text \<open>The three ways to name the owner, and the two kinds a block in use may have.\<close>

lemma owner_changes:
  fixes x :: heap_header
  defines "set_capability \<equiv> \<lambda>a. x\<lparr>hh_flags := (hh_flags x AND NOT FLAG_UPDATE_FUNCTION) OR FLAG_CAPABILITY_RESOURCE, hh_update_ref := Update_capability a\<rparr>"
    and "set_function \<equiv> \<lambda>f. x\<lparr>hh_flags := (hh_flags x AND NOT FLAG_CAPABILITY_RESOURCE) OR FLAG_UPDATE_FUNCTION, hh_update_ref := Update_function f\<rparr>"
    and "set_absolute \<equiv> \<lambda>p. x\<lparr>hh_flags := hh_flags x AND NOT (FLAG_CAPABILITY_RESOURCE OR FLAG_UPDATE_FUNCTION), hh_update_ref := Absolute_ptr p\<rparr>"
  shows "owner_ok (set_capability a)" "owner_ok (set_function f)" "owner_ok (set_absolute p)"
    "GET_KIND (set_capability a) = GET_KIND x" "GET_KIND (set_function f) = GET_KIND x" "GET_KIND (set_absolute p) = GET_KIND x"
  unfolding assms owner_ok_def owner_bits_def GET_KIND_def heap_consts
  by (simp_all add: bit.conj_disj_distrib2 and.assoc)

section \<open>Freeing\<close>

lemma free_merge_keeps:
  "hh_flags (hdrs (free_merge_next h s) k) = hh_flags (hdrs s k)" "hh_update_ref (hdrs (free_merge_next h s) k) = hh_update_ref (hdrs s k)"
  "hh_flags (hdrs (free_merge_prev h s) k) = hh_flags (hdrs s k)" "hh_update_ref (hdrs (free_merge_prev h s) k) = hh_update_ref (hdrs s k)"
  by (simp_all add: free_merge_next_def free_merge_prev_def Let_def)

lemma heap_free_others:
  assumes "k \<noteq> header_of p"
  shows "hh_flags (hdrs (heap_free p s) k) = hh_flags (hdrs s k)" "hh_update_ref (hdrs (heap_free p s) k) = hh_update_ref (hdrs s k)"
  using assms by (simp_all add: heap_free_def free_merge_keeps free_block_def Let_def)

lemma heap_free_ok:
  assumes ok: "heap_ok s (ys @ header_of p # zs)" and h: "\<not> available s (header_of p)" and nx: "zs = [] \<or> \<not> available s (hd_or NULL zs)"
  shows "\<exists>hs'. heap_ok (heap_free p s) hs' \<and> bytes (heap_free p s) hs' = bytes s (ys @ header_of p # zs)"
proof -
  let ?h = "header_of p" and ?s' = "heap_free p s"
  have wf: "heap_wf s (ys @ ?h # zs)" using ok by (simp add: heap_ok_alt)
  note f = free_block_wf [OF wf h] and eq = heap_free_merges [OF wf h refl nx]
  have dis: "distinct (ys @ ?h # zs)" using heap_wf_distinct [OF wf] .
  obtain hs' where hs': "heap_wf ?s' hs'" "bytes ?s' hs' = bytes s (ys @ ?h # zs)" "set hs' \<subseteq> set (ys @ ?h # zs)" "?h \<in> set hs' \<longrightarrow> available ?s' ?h"
  proof (cases "ys \<noteq> [] \<and> available s (last_or NULL ys)")
    case True
    then obtain us k where ys: "ys = us @ [k]" "available s k" by (cases ys rule: rev_cases) auto
    have e: "?s' = free_merge_prev ?h (free_block ?h s)" using True eq by simp
    have wf1: "heap_wf (free_block ?h s) (us @ k # ?h # zs)" using f(1) ys by simp
    have k: "same_block s (free_block ?h s) k" using f(4) [of k] dis ys by auto
    then have "available (free_block ?h s) k" using ys(2) by (simp add: same_block_def available_def)
    note m = free_merge_prev_wf [OF wf1 this f(2), folded e]
    have "bsize ?s' j = bsize s j" if "j \<in> set us \<union> set zs" for j
    proof -
      have "same_block s (free_block ?h s) j" using f(4) [of j] that dis ys by auto
      then show ?thesis using same_block_trans [OF _ m(4) [OF that]] by (simp add: same_block_def)
    qed
    then have "bytes ?s' us = bytes s us" "bytes ?s' zs = bytes s zs" by (auto intro!: bytes_cong)
    then have "bytes ?s' (us @ k # zs) = bytes s (ys @ ?h # zs)" using m(3) k f(3) ys by (simp add: same_block_def)
    with m(1) show thesis using that [of "us @ k # zs"] ys dis by auto
  next
    case False
    then have e: "?s' = free_block ?h s" using eq by auto
    have "bsize ?s' j = bsize s j" for j using f(3) f(4) [of j] e by (cases "j = ?h") (simp_all add: same_block_def)
    then have "bytes ?s' (ys @ ?h # zs) = bytes s (ys @ ?h # zs)" by (intro bytes_cong)
    with f(1,2) e show thesis using that [of "ys @ ?h # zs"] by simp
  qed
  have "a_kind (GET_KIND (hdrs ?s' k)) \<and> (\<not> available ?s' k \<longrightarrow> owner_ok (hdrs ?s' k))" if "k \<in> set hs'" for k
  proof (cases "k = ?h")
    case True
    then show ?thesis using that hs'(4) by (simp add: available_def a_kind_def)
  next
    case False
    note o = heap_free_others [OF False, of s]
    have "k \<in> set (ys @ ?h # zs)" using hs'(3) that by blast
    then show ?thesis using ok o by (auto simp: heap_ok_alt GET_KIND_def available_def owner_ok_def owner_bits_def)
  qed
  then have "heap_ok ?s' hs'" using hs'(1,2) ok by (simp add: heap_ok_alt)
  then show ?thesis using hs'(2) by blast
qed

section \<open>Allocating\<close>

lemma heap_alloc_ok:
  assumes ok: "heap_ok s hs" and n: "unat n + 29 < 2 ^ 32" and ret: "heap_alloc kernel_hooks s n = Some (s', p)"
  shows "\<exists>hs'. heap_ok s' hs' \<and> bytes s' hs' = bytes s hs"
proof -
  have "heap_inv s hs" using ok by (simp add: heap_ok_def)
  with objects.heap_alloc_allocates n ret obtain hs' where res: "alloc_result s hs n s' hs' p" unfolding objects.allocates_def by blast
  have "owner_ok (hdrs s' h)" if h: "h \<in> set hs'" "stays s' h" for h
  proof -
    have "{h \<in> set hs'. stays s' h} = {h \<in> set hs. stays s h} \<union> (if p = NULL then {} else {header_of p})"
      using res unfolding alloc_result_def by blast
    with h have "h \<in> {h \<in> set hs. stays s h} \<union> (if p = NULL then {} else {header_of p})" by blast
    then consider "h \<in> set hs" "stays s h" | "p \<noteq> NULL" "h = header_of p" by (auto split: if_split_asm)
    then show ?thesis
    proof cases
      case 1
      then have "same_header s s' h" using res by (auto simp: alloc_result_def same_stays_def)
      then show ?thesis using ok 1 same_headerD(7) by (auto simp: heap_ok_def)
    next
      case 2
      then have "hh_flags (hdrs s' h) = KIND_IMMOVABLE" "hh_update_ref (hdrs s' h) = Absolute_ptr NULL"
        using res by (auto simp: alloc_result_def new_block_def Let_def)
      then show ?thesis by (simp add: owner_ok_def owner_bits_def heap_consts)
    qed
  qed
  then have "heap_ok s' hs'" using res by (auto simp: heap_ok_def alloc_result_def)
  then show ?thesis using res by (auto simp: alloc_result_def)
qed

section \<open>Runs of the kernel\<close>

text \<open>The pointer belongs to a block of the heap that is in use.\<close>

definition in_use :: "kstate \<Rightarrow> addr \<Rightarrow> bool" where
  "in_use s p \<longleftrightarrow> (\<exists>hs. heap_linked s hs \<and> header_of p \<in> set hs) \<and> \<not> available s (header_of p)"

inductive heap_use :: "kstate \<Rightarrow> kstate \<Rightarrow> bool" where
  allocate: "heap_alloc kernel_hooks s n = Some (s', p) \<Longrightarrow> unat n + 29 < 2 ^ 32 \<Longrightarrow> heap_use s s'"
| lock: "heap_lock p s = (s', b) \<Longrightarrow> in_use s p \<Longrightarrow> heap_use s s'"
| unlock: "in_use s p \<Longrightarrow> heap_use s (heap_unlock p s)"
| capability_owns: "in_use s p \<Longrightarrow> heap_use s (heap_set_update_capability p a s)"
| function_owns: "in_use s p \<Longrightarrow> heap_use s (heap_set_update_function p f s)"
| pointer_owns: "in_use s p \<Longrightarrow> heap_use s (heap_set_update_absolute p q s)"
| free: "in_use s p \<Longrightarrow> hh_next (hdrs s (header_of p)) = NULL \<or> \<not> available s (hh_next (hdrs s (header_of p))) \<Longrightarrow> heap_use s (heap_free p s)"
| elsewhere: "same_heap s s' \<Longrightarrow> heap_use s s'"

lemma in_use_ok:
  assumes "heap_ok s hs" and "in_use s p"
  shows "header_of p \<in> set hs" "\<not> available s (header_of p)" "owner_ok (hdrs s (header_of p))"
    "GET_KIND (hdrs s (header_of p)) = KIND_IMMOVABLE \<or> GET_KIND (hdrs s (header_of p)) = KIND_MOVABLE"
  using assms heap_linked_unique [of s hs] by (auto simp: heap_ok_alt in_use_def heap_wf_def available_def a_kind_def)

lemma owner_change_ok:
  assumes "heap_ok s hs" and "in_use s p"
    and "\<And>x. hh_size (f x) = hh_size x" "\<And>x. hh_next (f x) = hh_next x" "\<And>x. hh_prev (f x) = hh_prev x"
    and "\<And>x. GET_KIND (f x) = GET_KIND x" "\<And>x. owner_ok (f x)"
  shows "\<exists>hs'. heap_ok (upd_hdr (header_of p) f s) hs' \<and> bytes (upd_hdr (header_of p) f s) hs' = bytes s hs"
  using heap_ok_upd_hdr [OF assms(1) in_use_ok(2) [OF assms(1,2)], of f] in_use_ok(4) [OF assms(1,2)] assms(3-7) by auto

lemma heap_use_ok:
  assumes "heap_use s s'" and "heap_ok s hs"
  shows "\<exists>hs'. heap_ok s' hs' \<and> bytes s' hs' = bytes s hs"
  using assms
proof cases
  case (allocate n p)
  then show ?thesis using heap_alloc_ok [OF assms(2)] by blast
next
  case (lock p b)
  note u = in_use_ok [OF assms(2) lock(2)]
  have "a_kind KIND_IMMOVABLE" by (simp add: a_kind_def)
  note b = set_kind_bits [OF this]
  show ?thesis
  proof (cases "GET_KIND (hdrs s (header_of p)) = KIND_MOVABLE")
    case True
    then have "s' = upd_hdr (header_of p) (\<lambda>x. SET_KIND x KIND_IMMOVABLE) s" using lock(1) by (simp add: heap_lock_def Let_def)
    with heap_ok_upd_hdr [OF assms(2) u(2), of "\<lambda>x. SET_KIND x KIND_IMMOVABLE"] u(3) b show ?thesis by (auto simp: owner_ok_def)
  next
    case False
    then show ?thesis using lock(1) assms(2) by (auto simp: heap_lock_def Let_def)
  qed
next
  case (unlock p)
  note u = in_use_ok [OF assms(2) unlock(2)]
  have "a_kind KIND_MOVABLE" by (simp add: a_kind_def)
  from heap_ok_upd_hdr [OF assms(2) u(2), of "\<lambda>x. SET_KIND x KIND_MOVABLE"] u(3) set_kind_bits [OF this]
  show ?thesis unfolding unlock(1) heap_unlock_def by (auto simp: owner_ok_def)
next
  case (capability_owns p a)
  show ?thesis unfolding capability_owns(1) heap_set_update_capability_def
    by (rule owner_change_ok [OF assms(2) capability_owns(2)]) (simp_all only: owner_changes, simp_all)
next
  case (function_owns p f)
  show ?thesis unfolding function_owns(1) heap_set_update_function_def
    by (rule owner_change_ok [OF assms(2) function_owns(2)]) (simp_all only: owner_changes, simp_all)
next
  case (pointer_owns p q)
  show ?thesis unfolding pointer_owns(1) heap_set_update_absolute_def
    by (rule owner_change_ok [OF assms(2) pointer_owns(2)]) (simp_all only: owner_changes, simp_all)
next
  case (free p)
  note u = in_use_ok [OF assms(2) free(2)]
  obtain ys zs where hs: "hs = ys @ header_of p # zs" using u(1) by (meson split_list)
  have "heap_linked s (ys @ [] @ header_of p # zs)" using assms(2) hs by (simp add: heap_ok_alt heap_wf_def)
  from heap_linked_mid(1,2) [OF this] free(3) have "zs = [] \<or> \<not> available s (hd_or NULL zs)" by auto
  from heap_free_ok [OF assms(2) [unfolded hs] u(2) this] show ?thesis unfolding free(1) hs .
next
  case elsewhere
  then have h: "hdrs s' = hdrs s" "hp s' = hp s" by (simp_all add: same_heap_def)
  have wf: "heap_wf s hs" using assms(2) by (simp add: heap_ok_alt)
  have "heap_wf s' hs" "bytes s' hs = bytes s hs" by (rule heap_wf_same_layout [OF wf]; simp add: h available_def)+
  then show ?thesis using assms(2) h by (intro exI [of _ hs]) (simp add: heap_ok_alt available_def)
qed

text \<open>
  C7: in every state that the kernel can bring its heap to by allocating (moving other objects or not), locking, unlocking,
  naming the owners of blocks, freeing blocks whose successor is in use, and doing anything else to its objects, the heap is
  well formed: the blocks are adjacent and linked both ways, the counters add up, every block has one of the three kinds, every block in use
  has the owner its flags name, and no byte of the heap was lost.
\<close>

theorem heap_uses_keep_invariant:
  assumes "heap_use\<^sup>*\<^sup>* s s'" and "heap_ok s hs"
  shows "\<exists>hs'. heap_ok s' hs' \<and> bytes s' hs' = bytes s hs"
  using assms
proof (induction rule: rtranclp_induct)
  case (step t u)
  then obtain hs' where "heap_ok t hs'" "bytes t hs' = bytes s hs" by blast
  with heap_use_ok [OF step(2)] show ?case by fastforce
qed blast

theorem heap_uses_keep_invariant_witness:
  "\<exists>s' hs'. heap_use\<^sup>*\<^sup>* demo_crowded (heap_unlock 4122 s') \<and> heap_ok (heap_unlock 4122 s') hs' \<and> bytes (heap_unlock 4122 s') hs' = 330"
proof -
  obtain s' where a: "heap_alloc kernel_hooks demo_crowded 124 = Some (s', 4122)" using demo_crowded_alloc by blast
  have ok: "heap_ok demo_crowded [4096, 4196, 4256, 4286]"
    using demo_crowded_inv by (simp add: heap_ok_def demo_crowded_def stays_def GET_KIND_def heap_consts owner_ok_def owner_bits_def)
  have use: "heap_use demo_crowded s'" by (rule heap_use.allocate [OF a]) simp
  have "alloc_result demo_crowded [4096, 4196, 4256, 4286] 124 s' hs' 4122 \<Longrightarrow> in_use s' 4122" for hs'
    by (auto simp: alloc_result_def new_block_def Let_def in_use_def heap_inv_def heap_wf_def available_def)
  with objects.heap_alloc_allocates demo_crowded_inv a have "in_use s' 4122" unfolding objects.allocates_def by fastforce
  then have "heap_use\<^sup>*\<^sup>* demo_crowded (heap_unlock 4122 s')" using use heap_use.unlock by (meson converse_rtranclp_into_rtranclp r_into_rtranclp)
  from heap_uses_keep_invariant [OF this ok] this show ?thesis
    by (fastforce simp: demo_crowded_def bsize_def)
qed

end
