(* ===== verification/Kernel_Listing.thy ===== *)
theory Kernel_Listing
  imports Heap_Uses
begin

unbundle bit_operations_syntax

text \<open>
  What debugging builds of the kernel list: the blocks of the heap (\<open>heap_list_blocks\<close> of \<open>heap.c\<close>), the lists a capability is in and
  the names of capability types (\<open>capabilities.c\<close>), and the registers (\<open>interrupts.c\<close>). A listing is the sequence of calls of \<open>printk\<close>
  with their format and arguments; the library that formats them is not part of the repository.
\<close>

section \<open>Calls of printk\<close>

datatype printk_argument = Num_arg size_t | Str_arg string

type_synonym printk_call = "string \<times> printk_argument list"

text \<open>Pointers have the size of an \<open>int\<close>, so their formats need no prefix.\<close>

definition PRIxPTR :: string where "PRIxPTR = ''x''"

section \<open>The blocks of the heap\<close>

definition kind_names :: "string list" where
  "kind_names = [''available'', ''immovable'', ''movable'']"

text \<open>
  The second call for a block. A member of the union is read only if it is the one that was written; the
  address of a function is given by the linker.
\<close>

definition owner_line :: "(update_function \<Rightarrow> addr) \<Rightarrow> heap_header \<Rightarrow> printk_call option" where
  "owner_line address_of x =
     (if GET_KIND x = KIND_AVAILABLE then Some (''\<newline>'', [])
      else if hh_flags x AND FLAG_CAPABILITY_RESOURCE \<noteq> 0 then
        (case hh_update_ref x of
           Update_capability a \<Rightarrow> Some ('', 0x%x:0x%x (%d bits)\<newline>'', [Num_arg (ucast (aca_thread_id a)), Num_arg (aca_address a), Num_arg (aca_depth a)])
         | _ \<Rightarrow> None)
      else if hh_flags x AND FLAG_UPDATE_FUNCTION \<noteq> 0 then
        (case hh_update_ref x of Update_function f \<Rightarrow> Some ('', function 0x%x\<newline>'', [Num_arg (address_of f)]) | _ \<Rightarrow> None)
      else
        (case hh_update_ref x of
           Absolute_ptr p \<Rightarrow> Some (if p \<noteq> NULL then ('', 0x%x\<newline>'', [Num_arg p]) else ('', no updates\<newline>'', []))
         | _ \<Rightarrow> None))"

definition block_line :: "addr \<Rightarrow> heap_header \<Rightarrow> printk_call option" where
  "block_line h x =
     (if unat (GET_KIND x) < length kind_names
      then Some (''0x%08x - 0x%08x (size %d (0x%x)): %s'',
        [Num_arg h, Num_arg (h + hh_size x), Num_arg (hh_size x), Num_arg (hh_size x), Str_arg (kind_names ! unat (GET_KIND x))])
      else None)"

partial_function (option) heap_list_loop ::
    "(update_function \<Rightarrow> addr) \<Rightarrow> 'x heap_state_scheme \<Rightarrow> addr \<Rightarrow> printk_call list option" where
  "heap_list_loop address_of s h = do {
     l1 \<leftarrow> block_line h (hdrs s h);
     l2 \<leftarrow> owner_line address_of (hdrs s h);
     (if hh_next (hdrs s h) \<noteq> NULL
      then do { rest \<leftarrow> heap_list_loop address_of s (hh_next (hdrs s h)); Some (l1 # l2 # rest) }
      else Some [l1, l2])
   }"

definition heap_list_blocks :: "(update_function \<Rightarrow> addr) \<Rightarrow> 'x heap_state_scheme \<Rightarrow> printk_call list option" where
  "heap_list_blocks address_of s = heap_list_loop address_of s (heap_base (hp s))"

section \<open>The lists of a capability\<close>

partial_function (option) list_items :: "(addr \<Rightarrow> nc_link) \<Rightarrow> addr \<Rightarrow> printk_call list option" where
  "list_items links c =
     (if c = NULL then Some []
      else do {
        rest \<leftarrow> list_items links (nc_next (links c));
        Some (('' - 0x%'' @ PRIxPTR @ '' (start 0x%'' @ PRIxPTR @ '', end 0x%'' @ PRIxPTR @ '')\<newline>'',
          [Num_arg c, Num_arg (nc_start (links c)), Num_arg (nc_end (links c))]) # rest)
      })"

definition print_capability_lists :: "addr \<Rightarrow> kstate \<Rightarrow> printk_call list option" where
  "print_capability_lists c s = do {
     r \<leftarrow> list_items (res_links s) (nc_start (res_links s c));
     d \<leftarrow> list_items (der_links s) (nc_start (der_links s c));
     Some ([(''this capability: 0x%'' @ PRIxPTR @ ''\<newline>'', [Num_arg c]),
            (''resource start: 0x%'' @ PRIxPTR @ '', end: 0x%'' @ PRIxPTR @ ''\<newline>'',
              [Num_arg (nc_start (res_links s c)), Num_arg (nc_end (res_links s c))])] @ r
        @ [(''derivation start: 0x%'' @ PRIxPTR @ '', end: 0x%'' @ PRIxPTR @ ''\<newline>'',
              [Num_arg (nc_start (der_links s c)), Num_arg (nc_end (der_links s c))])] @ d)
   }"

fun handlers_to_name :: "handlers \<Rightarrow> string" where
  "handlers_to_name Debug_handlers = ''debug''"
| "handlers_to_name Endpoint_handlers = ''endpoint''"
| "handlers_to_name Thread_handlers = ''thread''"
| "handlers_to_name Node_handlers = ''node''"
| "handlers_to_name Untyped_handlers = ''untyped''"
| "handlers_to_name Address_space_handlers = ''address space''"
| "handlers_to_name No_handlers = ''nothing''"

section \<open>Registers\<close>

definition log_registers :: "thread_registers \<Rightarrow> printk_call list" where
  "log_registers r =
     (let d = (\<lambda>i. Num_arg (data_registers r ! i)); a = (\<lambda>i. Num_arg (address_registers r ! i)) in
      [(''d0: 0x%08x, d1: 0x%08x, d2: 0x%08x, d3: 0x%08x\<newline>'', [d 0, d 1, d 2, d 3]),
       (''d4: 0x%08x, d5: 0x%08x, d6: 0x%08x, d7: 0x%08x\<newline>'', [d 4, d 5, d 6, d 7]),
       (''a0: 0x%08x, a1: 0x%08x, a2: 0x%08x, a3: 0x%08x\<newline>'', [a 0, a 1, a 2, a 3]),
       (''a4: 0x%08x, a5: 0x%08x, a6: 0x%08x, a7: 0x%08x\<newline>'', [a 4, a 5, a 6, Num_arg (stack_pointer r)]),
       (''status register: 0x%04x, program counter: 0x%08x\<newline>'', [Num_arg (ucast (status_register r)), Num_arg (program_counter r)])])"

section \<open>Listings of well-formed state\<close>

lemma block_lines_exist:
  assumes "a_kind (GET_KIND x)" and "GET_KIND x \<noteq> KIND_AVAILABLE \<longrightarrow> owner_ok x"
  shows "\<exists>l. block_line h x = Some l" "\<exists>l. owner_line f x = Some l"
proof -
  show "\<exists>l. block_line h x = Some l" using assms(1) by (auto simp: block_line_def kind_names_def a_kind_def heap_consts)
  have fl: "hh_flags x AND FLAG_CAPABILITY_RESOURCE = owner_bits x AND FLAG_CAPABILITY_RESOURCE"
    "hh_flags x AND FLAG_UPDATE_FUNCTION = owner_bits x AND FLAG_UPDATE_FUNCTION"
    by (simp_all add: owner_bits_def heap_consts and.assoc)
  show "\<exists>l. owner_line f x = Some l"
  proof (cases "GET_KIND x = KIND_AVAILABLE")
    case False
    then have "owner_bits x = (case hh_update_ref x of Update_capability a \<Rightarrow> FLAG_CAPABILITY_RESOURCE
       | Update_function f \<Rightarrow> FLAG_UPDATE_FUNCTION | Absolute_ptr p \<Rightarrow> 0)" using assms(2) by (simp add: owner_ok_def)
    then show ?thesis using False unfolding owner_line_def fl by (cases "hh_update_ref x") (simp_all add: heap_consts)
  qed (simp add: owner_line_def)
qed

lemma nth_pairs: "i < length xs \<Longrightarrow> concat (map (\<lambda>x. [f x, g x]) xs) ! (2 * i) = f (xs ! i) \<and> concat (map (\<lambda>x. [f x, g x]) xs) ! (2 * i + 1) = g (xs ! i)"
proof (induction xs arbitrary: i)
  case (Cons x xs)
  then show ?case by (cases i) auto
qed simp

text \<open>
  Listing the blocks of a well-formed heap comes to an end and lists every block once, in the order of their addresses, with its kind
  and then its owner.
\<close>

lemma heap_list_blocks_lists_all:
  assumes "heap_ok s hs"
  shows "\<exists>calls. heap_list_blocks f s = Some calls \<and> length calls = 2 * length hs
    \<and> (\<forall>i < length hs. block_line (hs ! i) (hdrs s (hs ! i)) = Some (calls ! (2 * i)) \<and> owner_line f (hdrs s (hs ! i)) = Some (calls ! (2 * i + 1)))"
proof -
  define b where "b = (\<lambda>h. the (block_line h (hdrs s h)))"
  define w where "w = (\<lambda>h. the (owner_line f (hdrs s h)))"
  have wf: "heap_linked s hs" using assms by (simp add: heap_ok_alt heap_wf_def)
  have ex: "block_line h (hdrs s h) = Some (b h)" "owner_line f (hdrs s h) = Some (w h)" if "h \<in> set hs" for h
    using block_lines_exist [of "hdrs s h"] assms that by (auto simp: heap_ok_alt available_def b_def w_def)
  have loop: "heap_list_loop f s h = Some (concat (map (\<lambda>h. [b h, w h]) (h # ks)))"
    if "dseg (prev_of s) (next_of s) p (h # ks) NULL" "set (h # ks) \<subseteq> set hs" for p h ks
    using that
  proof (induction ks arbitrary: p h)
    case Nil
    then show ?case by (subst heap_list_loop.simps) (simp add: ex)
  next
    case (Cons k ks)
    then have "hh_next (hdrs s h) = k" "k \<noteq> NULL" by auto
    moreover have "heap_list_loop f s k = Some (concat (map (\<lambda>h. [b h, w h]) (k # ks)))" using Cons by auto
    ultimately show ?case using Cons.prems by (subst heap_list_loop.simps) (simp add: ex)
  qed
  obtain h ks where hs: "hs = h # ks" "heap_base (hp s) = h" using wf by (cases hs) (auto simp: heap_linked_def)
  have "heap_list_blocks f s = Some (concat (map (\<lambda>h. [b h, w h]) hs))"
    using loop [of NULL h ks] wf unfolding heap_list_blocks_def hs(2) by (simp add: hs(1) heap_linked_def)
  moreover have "length (concat (map (\<lambda>h. [b h, w h]) hs)) = 2 * length hs" by (induction hs) auto
  ultimately show ?thesis using nth_pairs [of _ hs b w] ex by fastforce
qed

text \<open>Listing a list of capabilities comes to an end when the list does, with a line for each.\<close>

lemma list_items_lists_all:
  assumes "dseg (\<lambda>v. nc_prev (links v)) (\<lambda>v. nc_next (links v)) p cs NULL"
  shows "\<exists>calls. list_items links (hd_or NULL cs) = Some calls \<and> map (\<lambda>(fmt, args). hd args) calls = map Num_arg cs"
  using assms
proof (induction cs arbitrary: p)
  case (Cons c cs)
  then obtain calls where "list_items links (nc_next (links c)) = Some calls" "map (\<lambda>(fmt, args). hd args) calls = map Num_arg cs" by auto
  with Cons.prems show ?case by (subst list_items.simps) simp
qed (subst list_items.simps, simp)

lemma handlers_to_name_inj: "inj handlers_to_name"
proof (rule injI)
  fix h k assume "handlers_to_name h = handlers_to_name k"
  then show "h = k" by (cases h; cases k) simp_all
qed

end
