(* ===== verification/Core_Io.thy ===== *)
theory Core_Io
  imports Console_Properties Console_Call Syscalls
begin

unbundle bit_operations_syntax

text \<open>
  Output of programs (\<open>core/common/core_io.h\<close>, \<open>print_number.c\<close> and the \<open>_putchar\<close> of \<open>printf.c\<close>): strings go to the debug
  capability in slot 1 of the program's root node, and a number is printed as eight such strings. What a program prints is shown to
  appear on the screen, through the system call and the kernel's console.
\<close>

section \<open>Strings and numbers\<close>

definition DEBUG_PRINT :: size_t where "DEBUG_PRINT = 0"

definition core_puts :: "'s syscall \<Rightarrow> addr \<Rightarrow> 's \<Rightarrow> ('s \<times> size_t) option" where
  "core_puts syscall_invoke str s = syscall_invoke 1 SIZE_MAX DEBUG_PRINT str s"

text \<open>
  The string constant of \<open>print_number_hex\<close>, sixteen strings of one digit; the loop with its counter, which prints before it
  looks whether the counter is still positive.
\<close>

definition hex_literal :: "uint8_t list" where
  "hex_literal = [48, 0, 49, 0, 50, 0, 51, 0, 52, 0, 53, 0, 54, 0, 55, 0, 56, 0, 57, 0, 97, 0, 98, 0, 99, 0, 100, 0, 101, 0, 102, 0]"

fun print_number_loop :: "'s syscall \<Rightarrow> addr \<Rightarrow> size_t \<Rightarrow> nat \<Rightarrow> 's \<Rightarrow> 's option" where
  "print_number_loop syscall_invoke literal number i s = do {
     (s', r) \<leftarrow> core_puts syscall_invoke (literal + (drop_bit (i * 4) number AND 15) * 2) s;
     (if i > 0 then print_number_loop syscall_invoke literal number (i - 1) s' else Some s')
   }"

declare print_number_loop.simps [simp del]

definition print_number_hex :: "'s syscall \<Rightarrow> addr \<Rightarrow> size_t \<Rightarrow> 's \<Rightarrow> 's option" where
  "print_number_hex syscall_invoke literal number s = print_number_loop syscall_invoke literal number (4 * 2 - 1) s"

text \<open>The character in a buffer on the stack, with the end of the string behind it.\<close>

definition core_putchar :: "('c \<times> kstate) syscall \<Rightarrow> addr \<Rightarrow> uint8_t \<Rightarrow> 'c \<times> kstate \<Rightarrow> ('c \<times> kstate) option" where
  "core_putchar syscall_invoke buffer c s =
     (case s of (x, k) \<Rightarrow> map_option fst (syscall_invoke 1 SIZE_MAX DEBUG_PRINT buffer
        (x, k\<lparr>user_bytes := (user_bytes k)(buffer := c, buffer + 1 := 0)\<rparr>)))"

section \<open>Digits\<close>

definition hex_char :: "nat \<Rightarrow> uint8_t" where
  "hex_char d = of_char (''0123456789abcdef'' ! d)"

text \<open>The last digits of a number in hexadecimal, the most significant first.\<close>

definition hex_text :: "nat \<Rightarrow> nat \<Rightarrow> uint8_t list" where
  "hex_text k n = map (\<lambda>i. hex_char (n div 16 ^ i mod 16)) (rev [0..<k])"

text \<open>The digit the loop takes out of the number.\<close>

lemma nibble: "unat (drop_bit (i * 4) n AND 15) = unat n div 16 ^ i mod 16" for n :: size_t
proof -
  have "(15 :: size_t) = mask 4" by (simp add: mask_eq_exp_minus_1)
  then have "drop_bit (i * 4) n AND 15 = take_bit 4 (drop_bit (i * 4) n)" by (simp add: take_bit_eq_mask)
  then have "unat (drop_bit (i * 4) n AND 15) = take_bit 4 (drop_bit (i * 4) (unat n))"
    using unat_lt_2_32 [of n] by (simp add: unsigned_take_bit_eq unsigned_drop_bit_eq take_bit_nat_eq_self)
  also have "\<dots> = unat n div 2 ^ (i * 4) mod 16" by (simp add: take_bit_eq_mod drop_bit_eq_div)
  finally show ?thesis by (simp add: power_mult [symmetric] mult.commute [of i] power_mult)
qed

lemma hex_literal_digit: "d < 16 \<Longrightarrow> hex_literal ! (2 * d) = hex_char d \<and> hex_literal ! (2 * d + 1) = 0 \<and> hex_char d \<noteq> 0 \<and> printable (hex_char d)"
proof -
  assume "d < 16"
  then have "d \<in> set [0..<16]" by simp
  then show ?thesis unfolding hex_literal_def hex_char_def printable_def by (simp add: upt_rec) auto
qed

section \<open>The interface to the kernel\<close>

text \<open>
  What programs rely on: printing a string that is in memory returns, the terminal has got its characters, and all
  strings in memory are still there.
\<close>

locale debug_capability =
  fixes syscall_invoke :: "'s syscall" and shown :: "'s \<Rightarrow> terminal \<Rightarrow> bool" and string :: "'s \<Rightarrow> addr \<Rightarrow> uint8_t list \<Rightarrow> bool"
    and typed :: "uint8_t \<Rightarrow> terminal \<Rightarrow> terminal"
  assumes prints: "shown s t \<Longrightarrow> string s a str \<Longrightarrow> \<exists>s'. syscall_invoke 1 SIZE_MAX DEBUG_PRINT a s = Some (s', 0)
    \<and> shown s' (fold typed str t) \<and> (\<forall>b u. string s b u \<longrightarrow> string s' b u)"
begin

lemma print_number_loop_prints:
  assumes "shown s t" and "\<forall>d < 16. string s (literal + of_nat d * 2) [hex_char d]"
  shows "\<exists>s'. print_number_loop syscall_invoke literal n i s = Some s' \<and> shown s' (fold typed (hex_text (Suc i) (unat n)) t)
    \<and> (\<forall>b u. string s b u \<longrightarrow> string s' b u)"
  using assms
proof (induction i arbitrary: s t)
  let ?d = "\<lambda>i. unat n div 16 ^ i mod 16"
  have arg: "drop_bit (i * 4) n AND 15 = of_nat (?d i)" for i by (simp flip: nibble)
  have first: "\<exists>s' r. core_puts syscall_invoke (literal + (drop_bit (i * 4) n AND 15) * 2) s = Some (s', r) \<and> shown s' (typed (hex_char (?d i)) t)
      \<and> (\<forall>b u. string s b u \<longrightarrow> string s' b u)"
    if "shown s t" "\<forall>d < 16. string s (literal + of_nat d * 2) [hex_char d]" for s t i
    using prints [of s t "literal + of_nat (?d i) * 2" "[hex_char (?d i)]"] that unfolding core_puts_def arg by fastforce
  {
    case 0
    from first [OF 0, of 0] show ?case by (subst print_number_loop.simps) (auto simp: hex_text_def)
  next
    case (Suc i)
    from first [OF Suc.prems, of "Suc i"] obtain s1 r where s1: "core_puts syscall_invoke (literal + (drop_bit (Suc i * 4) n AND 15) * 2) s = Some (s1, r)"
      "shown s1 (typed (hex_char (?d (Suc i))) t)" "\<forall>b u. string s b u \<longrightarrow> string s1 b u" by blast
    from Suc.IH [OF s1(2)] s1(3) Suc.prems(2) obtain s' where
      "print_number_loop syscall_invoke literal n i s1 = Some s'" "shown s' (fold typed (hex_text (Suc i) (unat n)) (typed (hex_char (?d (Suc i))) t))"
      "\<forall>b u. string s1 b u \<longrightarrow> string s' b u" by blast
    moreover have "hex_text (Suc (Suc i)) (unat n) = hex_char (?d (Suc i)) # hex_text (Suc i) (unat n)" by (simp add: hex_text_def)
    ultimately show ?case using s1 by (subst print_number_loop.simps) simp
  }
qed

end

section \<open>The system call\<close>

text \<open>
  \<open>syscall_invoke\<close> of \<open>sys/arch/68000.h\<close>: the arguments go into registers, and the value is in the
  first data register when the trap returns. (When it returns to another thread, the caller
  gets the value later, with the registers saved for it.)
\<close>

definition trap_invoke :: "addr \<Rightarrow> uint32_t \<Rightarrow> thread_registers \<Rightarrow> (console \<times> kstate) syscall" where
  "trap_invoke fa idle_thread regs address depth handler_number argument s =
     map_option (\<lambda>(s', regs'). (s', data_registers regs' ! 0))
       (console_trap fa idle_thread
          (regs\<lparr>data_registers := [SYSCALL_INVOKE, address, depth, handler_number] @ drop 4 (data_registers regs),
                address_registers := argument # drop 1 (address_registers regs)\<rparr>) s)"

section \<open>The kernel's console as that interface\<close>

text \<open>The running thread has the debug capability in slot 1 of its root node, and no other thread is about to run.\<close>

definition has_debug :: "kstate \<Rightarrow> bool" where
  "has_debug k \<longleftrightarrow>
     (let t = current_thread k; n = cap_resource (caps k t) in
      t \<noteq> NULL \<and> cap_handlers (caps k t) = Node_handlers \<and> 0 < slot_bits (nodes k n) \<and> slot_bits (nodes k n) \<le> 32
      \<and> cap_handlers (caps k (slot_address n 1)) = Debug_handlers \<and> \<not> pending_context_switch k)"

text \<open>The screen that was set up as \<open>x0\<close> shows a terminal; a string is in memory that is not part of it.\<close>

definition screen_shows :: "addr \<Rightarrow> console \<Rightarrow> addr \<Rightarrow> console \<times> kstate \<Rightarrow> terminal \<Rightarrow> bool" where
  "screen_shows fa x0 base s t \<longleftrightarrow> (case s of (x, k) \<Rightarrow> (\<exists>cx cy. x = x0\<lparr>console_x := cx, console_y := cy\<rparr>) \<and> SCRN_BASE (user_bytes k) = base
     \<and> display fa x (user_bytes k) \<and> picture x base (user_bytes k) t \<and> cursor x t \<and> has_debug k)"

definition string_in_memory :: "console \<Rightarrow> addr \<Rightarrow> console \<times> kstate \<Rightarrow> addr \<Rightarrow> uint8_t list \<Rightarrow> bool" where
  "string_in_memory x0 base s a str \<longleftrightarrow> text_at (user_bytes (snd s)) a str \<and> safe_text x0 base a str"

text \<open>The invocation finds the debug capability, prints, and leaves no lock behind.\<close>

lemma trap_invoke_debug:
  assumes "has_debug k"
  shows "trap_invoke fa idle regs 1 SIZE_MAX DEBUG_PRINT a (x, k) =
    map_option (\<lambda>(r, x', m). ((x', k\<lparr>user_bytes := m\<rparr>), r)) (debug_print fa a x (user_bytes k))"
proof -
  let ?t = "current_thread k" and ?n = "cap_resource (caps k (current_thread k))"
  from assms have d: "?t \<noteq> NULL" "cap_handlers (caps k ?t) = Node_handlers" "0 < slot_bits (nodes k ?n)" "slot_bits (nodes k ?n) \<le> 32"
    "cap_handlers (caps k (slot_address ?n 1)) = Debug_handlers" "\<not> pending_context_switch k"
    by (simp_all add: has_debug_def Let_def)
  define b where "b = unat (slot_bits (nodes k ?n))"
  have b: "0 < b" "b \<le> 32" using d(3,4) by (auto simp: b_def word_less_nat_alt word_le_nat_alt)
  have one: "1 < (2 :: nat) ^ b" using b(1) by (metis one_less_numeral_iff one_less_power semiring_norm(76))
  have v: "valid_path k ?n [1]" "path_depth k ?n [1] \<le> 32"
    using d(3) one b by (simp_all add: b_def [symmetric])
  have a: "take_bit (path_depth k ?n [1]) 1 = path_address k ?n [1]" using b(1) by (simp add: b_def [symmetric] take_bit_of_1)
  have nn: "cap_handlers (caps k (path_slot k ?n [1])) \<noteq> Node_handlers" using d(5) by simp
  from look_up_first_non_node [OF refl d(1,2) refl v a nn] obtain r where
    r: "look_up_capability_relative 1 SIZE_MAX k = Some (holds_lock k (lr_container r) (lr_should_unlock r), Some r)"
    "lr_slot r = slot_address ?n 1"
    "unlock_looked_up_capability r (holds_lock k (lr_container r) (lr_should_unlock r)) = k" by auto
  have un: "unlock_looked_up_capability r ((holds_lock k (lr_container r) (lr_should_unlock r))\<lparr>user_bytes := m\<rparr>) = k\<lparr>user_bytes := m\<rparr>" for m
  proof -
    have "unlock_looked_up_capability r (y\<lparr>user_bytes := m\<rparr>) = (unlock_looked_up_capability r y)\<lparr>user_bytes := m\<rparr>" for y
      by (simp add: unlock_looked_up_capability_def unlock_if_def heap_unlock_def upd_hdr_def)
    with r(3) show ?thesis by simp
  qed
  have ub: "user_bytes (holds_lock k p q) = user_bytes k" for p q by (simp add: holds_lock_def lock_hdr_def upd_hdr_def)
  have "console_invoke fa 1 SIZE_MAX DEBUG_PRINT a (x, k) =
    map_option (\<lambda>(r, x', m). ((x', k\<lparr>user_bytes := m\<rparr>), r)) (debug_print fa a x (user_bytes k))"
    using r(2) d(5) by (cases "debug_print fa a x (user_bytes k)")
      (auto simp: console_invoke_def r(1) console_handler_def num_handlers_def DEBUG_PRINT_def ub un Let_def)
  with d(6) show ?thesis
    by (cases "debug_print fa a x (user_bytes k)") (auto simp: trap_invoke_def console_trap_def try_context_switch_def SYSCALL_INVOKE_def SYSCALL_YIELD_def)
qed

lemma trap_invoke_prints:
  assumes "screen_shows fa x0 base s t" and "string_in_memory x0 base s a str"
  shows "\<exists>s'. trap_invoke fa idle regs 1 SIZE_MAX DEBUG_PRINT a s = Some (s', 0) \<and> screen_shows fa x0 base s' (fold (type_char (columns x0) (lines x0)) str t)
    \<and> (\<forall>b u. string_in_memory x0 base s b u \<longrightarrow> string_in_memory x0 base s' b u)"
proof -
  obtain x k where s: "s = (x, k)" by (cases s)
  let ?m = "user_bytes k"
  from assms(1) obtain cx cy where x: "x = x0\<lparr>console_x := cx, console_y := cy\<rparr>" and base: "SCRN_BASE ?m = base"
    and d: "display fa x ?m" "picture x (SCRN_BASE ?m) ?m t" "cursor x t" and dbg: "has_debug k" by (auto simp: screen_shows_def s)
  note sc = same_screen [OF x]
  have str: "text_at ?m a str" "safe_text x (SCRN_BASE ?m) a str" using assms(2) by (auto simp: string_in_memory_def s safe_text_def sc base)
  from debug_print_loop_refines [OF d str] obtain x' m' where
    p: "debug_print_loop fa a x ?m = Some (x', m')" "display fa x' m'" "picture x' base m' (fold (type_char (columns x0) (lines x0)) str t)"
      "cursor x' (fold (type_char (columns x0) (lines x0)) str t)" "\<exists>cx cy. x' = x\<lparr>console_x := cx, console_y := cy\<rparr>" and keep: "\<And>b. off_screen x (SCRN_BASE ?m) b \<Longrightarrow> m' b = ?m b"
    unfolding sc base by blast
  from p(5) obtain cx' cy' where x': "x' = x\<lparr>console_x := cx', console_y := cy'\<rparr>" by blast
  have "SCRN_BASE m' = base" using display_keeps(1) [OF d(1) keep x'] base by simp
  moreover have "has_debug (k\<lparr>user_bytes := m'\<rparr>)" using dbg by (simp add: has_debug_def)
  ultimately have "screen_shows fa x0 base (x', k\<lparr>user_bytes := m'\<rparr>) (fold (type_char (columns x0) (lines x0)) str t)"
    using p x' x by (auto simp: screen_shows_def)
  moreover have "string_in_memory x0 base (x', k\<lparr>user_bytes := m'\<rparr>) b u" if "string_in_memory x0 base s b u" for b u
    using that keep by (auto simp: string_in_memory_def s text_at_def safe_text_def sc base)
  moreover have "trap_invoke fa idle regs 1 SIZE_MAX DEBUG_PRINT a s = Some ((x', k\<lparr>user_bytes := m'\<rparr>), 0)"
    using p(1) by (simp add: trap_invoke_debug [OF dbg] debug_print_def s)
  ultimately show ?thesis by blast
qed

interpretation screen: debug_capability "trap_invoke fa idle regs" "screen_shows fa x0 base" "string_in_memory x0 base" "type_char (columns x0) (lines x0)"
  for fa idle regs x0 base
  by unfold_locales (rule trap_invoke_prints)

text \<open>Where the constant of \<open>print_number_hex\<close> is in memory, each of its digits is a string.\<close>

lemma hex_literal_strings:
  assumes "\<forall>i < 32. user_bytes k (literal + of_nat i) = hex_literal ! i \<and> off_screen x0 base (literal + of_nat i)"
  shows "\<forall>d < 16. string_in_memory x0 base (x, k) (literal + of_nat d * 2) [hex_char d]"
proof (intro allI impI)
  fix d :: nat assume d: "d < 16"
  have a: "literal + of_nat d * 2 = literal + of_nat (2 * d)" "literal + of_nat d * 2 + 1 = literal + of_nat (2 * d + 1)" by simp_all
  have i: "2 * d < 32" "2 * d + 1 < 32" using d by simp_all
  note l = hex_literal_digit [OF d] and m = assms [rule_format, OF i(1)] assms [rule_format, OF i(2)]
  show "string_in_memory x0 base (x, k) (literal + of_nat d * 2) [hex_char d]"
    unfolding string_in_memory_def text_at_Cons safe_text_Cons using l m
    by (simp add: text_at_def safe_text_def ac_simps)
qed

text \<open>
  C10: printing a number from a program shows it on the screen. For a thread that has the debug capability in slot 1 of its root node,
  \<open>print_number_hex\<close>, through eight traps, lookups and invocations of the kernel, returns with the screen showing what the terminal shows
  after eight more characters: the digits of the number in hexadecimal, each one of \<open>0123456789abcdef\<close>, the most significant
  first. The string constant of the function is in memory and not on the screen, and no context switch is due.
\<close>

theorem print_number_hex_shows_number:
  assumes "screen_shows fa x base (x, k) t" and "\<forall>i < 32. user_bytes k (literal + of_nat i) = hex_literal ! i \<and> off_screen x base (literal + of_nat i)"
  shows "\<exists>s'. print_number_hex (trap_invoke fa idle regs) literal n (x, k) = Some s'
    \<and> screen_shows fa x base s' (fold (type_char (columns x) (lines x))
        (map (\<lambda>i. of_char (''0123456789abcdef'' ! (unat n div 16 ^ i mod 16))) [7, 6, 5, 4, 3, 2, 1, 0]) t)"
proof -
  from screen.print_number_loop_prints [OF assms(1) hex_literal_strings [OF assms(2)], of idle regs n 7] obtain s' where
    "print_number_hex (trap_invoke fa idle regs) literal n (x, k) = Some s'" "screen_shows fa x base s' (fold (type_char (columns x) (lines x)) (hex_text 8 (unat n)) t)"
    by (auto simp: print_number_hex_def)
  moreover have "rev [0..<8] = [7, 6, 5, 4, 3, 2, 1, 0]" by (simp add: upt_rec)
  ultimately show ?thesis unfolding hex_text_def hex_char_def by metis
qed

text \<open>A single character, as the library for formatted output prints it.\<close>

lemma core_putchar_shows:
  assumes "screen_shows fa x base (x, k\<lparr>user_bytes := (user_bytes k)(buffer := c, buffer + 1 := 0)\<rparr>) t" (is "screen_shows _ _ _ (_, ?k) _")
    and "off_screen x base buffer" "off_screen x base (buffer + 1)" and "c = 10 \<or> printable c"
  shows "\<exists>s'. core_putchar (trap_invoke fa idle regs) buffer c (x, k) = Some s' \<and> screen_shows fa x base s' (type_char (columns x) (lines x) c t)"
proof -
  have "c \<noteq> 0" using assms(4) by (auto simp: printable_def)
  then have "string_in_memory x base (x, ?k) buffer [c]"
    using assms(2-4) by (simp add: string_in_memory_def text_at_Cons safe_text_Cons) (simp add: text_at_def safe_text_def)
  from screen.prints [OF assms(1) this] show ?thesis by (fastforce simp: core_putchar_def)
qed

section \<open>A number on a small screen\<close>

definition demo_io :: memory where
  "demo_io = (\<lambda>a. if unat (a - 0x5100) < 32 then hex_literal ! unat (a - 0x5100) else demo_memory a)"

lemma demo_io_other: "k < 0x5100 \<or> 0x5120 \<le> k \<and> k < 0x20000 \<Longrightarrow> demo_io (of_nat k) = demo_memory (of_nat k)"
  using unat_minus_lt [of "0x5100" 32 "of_nat k"] by (auto simp: demo_io_def unat_of_nat_32)

lemma demo_io_screen:
  "SCRN_BASE demo_io = 0x10000" "display 0x1000 demo_console demo_io" "picture demo_console 0x10000 demo_io demo_terminal"
proof -
  have low: "demo_io (0x824 + of_nat i) = demo_memory (0x824 + of_nat i)" if "i < 4" for i using demo_io_other [of "0x824 + i"] that by simp
  have font: "demo_io (0x1000 + of_nat i) = demo_memory (0x1000 + of_nat i)" if "i < 1045" for i using demo_io_other [of "0x1000 + i"] that by simp
  have scr: "demo_io (0x10000 + of_nat i) = demo_memory (0x10000 + of_nat i)" if "i < 46" for i using demo_io_other [of "0x10000 + i"] that by simp
  show base: "SCRN_BASE demo_io = 0x10000" unfolding demo_base [symmetric] SCRN_BASE_def by (rule load_word_cong) (rule low)
  show "display 0x1000 demo_console demo_io" using demo_display font unfolding display_def base demo_base by simp
  have "screen_bit demo_console 0x10000 demo_io y n = screen_bit demo_console 0x10000 demo_memory y n" if "on_screen demo_console y n" for y n
    using screen_offset(1) [OF that] scr [of "y * row_length demo_console + n div 8"] unfolding screen_bit_def demo_screen by (simp del: of_nat_add of_nat_mult)
  then show "picture demo_console 0x10000 demo_io demo_terminal" using demo_picture unfolding demo_base picture_def by (auto simp: demo_console_def)
qed

text \<open>A thread at 256 whose root node at 512 has the debug capability in slot 1.\<close>

definition demo_program :: kstate where
  "demo_program = zero_kstate\<lparr>user_bytes := demo_io, current_thread := 256,
     caps := (\<lambda>_. zero_capability)(256 := zero_capability\<lparr>cap_handlers := Node_handlers, cap_resource := 512\<rparr>,
       slot_address 512 1 := zero_capability\<lparr>cap_handlers := Debug_handlers\<rparr>),
     nodes := (\<lambda>_. \<lparr>slot_bits = 4, nested_nodes = 0\<rparr>)\<rparr>"

theorem print_number_hex_shows_number_witness:
  "\<exists>s'. print_number_hex (trap_invoke 0x1000 0 zero_registers) 0x5100 0xc0ffee (demo_console, demo_program) = Some s'
    \<and> screen_shows 0x1000 demo_console 0x10000 s' (fold (type_char 2 2) (map of_char ''00c0ffee'') demo_terminal)"
proof -
  have c: "cursor demo_console demo_terminal" unfolding cursor_def demo_screen by (simp add: demo_console_def demo_terminal_def)
  have "\<exists>cx cy. demo_console = demo_console\<lparr>console_x := cx, console_y := cy\<rparr>"
    by (intro exI [of _ "console_x demo_console"] exI [of _ "console_y demo_console"]) simp
  moreover have "has_debug demo_program" by (simp add: has_debug_def demo_program_def slot_address_def zero_kstate_def kernel_consts)
  moreover have ub: "user_bytes demo_program = demo_io" by (simp add: demo_program_def)
  ultimately have "screen_shows 0x1000 demo_console 0x10000 (demo_console, demo_program) demo_terminal"
    using demo_io_screen c by (simp add: screen_shows_def)
  moreover have "\<forall>i < 32. user_bytes demo_program (0x5100 + of_nat i) = hex_literal ! i \<and> off_screen demo_console 0x10000 (0x5100 + of_nat i)"
    using far_from_screen [of "0x5100 + i" for i] by (auto simp: ub demo_io_def unat_of_nat_32 off_screen_def demo_screen)
  ultimately show ?thesis
    using print_number_hex_shows_number [of "0x1000" demo_console "0x10000" demo_program demo_terminal "0x5100" 0 zero_registers "0xc0ffee"]
    by (simp add: demo_screen)
qed

end
