(* ===== verification/Spec2Isabelle.thy ===== *)
theory Spec2Isabelle
  imports List_Properties Cap_Merge Ipc_Properties Initrd_Server Jax_Tool_Properties Boot_Properties Kernel_Listing Core_Io
begin

text \<open>
  Verification of cenix, a capability-based microkernel for the 68000 with its first servers in user
  space. Paths are below \<open>src/\<close>.

  \<^bold>\<open>The program.\<close> The kernel (\<open>core/kernel\<close>) keeps all its objects on one heap whose blocks can move;
  capabilities in nested nodes refer to them, threads run by priority, and endpoints pass messages and
  capabilities between threads. User space enters the kernel with one system call that invokes a
  handler on a capability. The process server (\<open>core/process_server\<close>) is loaded with an archive of
  programs; it starts the VFS server (\<open>core/vfs_server\<close>) and the file system of the archive
  (\<open>core/initrd_fs\<close>), which talk over endpoints with the calls of \<open>core/include/sys/vfs.h\<close>. They
  share the memory functions, the archive reader and the binary loader of \<open>core/common\<close>; the archive is
  written by \<open>utils/jax\<close>. On a Macintosh the kernel takes the machine over from a boot loader, sets up the exception
  vectors, its console and its heap, and starts the process server (\<open>core/kernel/main.c\<close>,
  \<open>core/kernel/platform/mac-68000\<close>).

  \<^bold>\<open>Theories and what they model.\<close>
  \<^item> \<open>Cenix_Prelude\<close>: machine integers as words of 8, 16 and 32 bits, error codes (\<open>errno.h\<close>), shared lemmas.
  \<^item> \<open>Linked_List\<close>, \<open>List_Properties\<close>: the list macros of \<open>linked_list.h\<close> on stores of links; the abstraction to
    lists, and the queue interface \<open>fifo_queue\<close> interpreted by the macros.
  \<^item> \<open>Kernel_Heap\<close>, \<open>Heap_Layout\<close>, \<open>Heap_Alloc\<close>, \<open>Heap_Free\<close>: \<open>heap.c\<close> and \<open>heap.h\<close>; well-formed
    heaps, allocation and freeing on heaps whose blocks stay where they are.
  \<^item> \<open>Moving_Blocks\<close>, \<open>Heap_Search\<close>, \<open>Moving_Objects\<close>, \<open>Heap_Uses\<close>: allocation on heaps with movable blocks. Locale
    \<open>moving_hooks\<close> is what the heap relies on when it tells an owner that a block moved, and the callbacks of the kernel
    satisfy it (\<open>objects\<close>); \<open>heap_use\<close> is the step relation of all uses of the heap. \<open>Kernel_Listing\<close>: what
    debugging builds list of the heap, of capabilities and of registers, as calls of \<open>printk\<close>.
  \<^item> \<open>Byte_Memory\<close>: bytes in memory, words in it, \<open>memcpy\<close>, \<open>memmove\<close> and \<open>memset\<close>.
  \<^item> \<open>Kernel_State\<close>: the kernel's objects as one store per type, and its global variables.
  \<^item> \<open>Scheduler\<close>: \<open>scheduler.c\<close>, run queues and context switches.
  \<^item> \<open>Cap_Lookup\<close>, \<open>Cap_Space\<close>, \<open>Kernel_Objects\<close>, \<open>Ipc\<close>, \<open>Invocation\<close>: \<open>capabilities.c\<close>, \<open>threads.c\<close>,
    \<open>ipc.c\<close> and the trap of \<open>arch/68000/interrupts.c\<close>, in the order in which they call each other.
  \<^item> \<open>Thread_Ids\<close>, \<open>Thread_Table\<close>, \<open>Invocation_Properties\<close>, \<open>Cap_Properties\<close>, \<open>Cap_Merge\<close>, \<open>Ipc_Transfer\<close>,
    \<open>Ipc_Properties\<close>: what these operations do (\<open>Ipc_Transfer\<close>: what the transfer of any capabilities leaves alone); thread ids
    implement the interface \<open>id_allocator\<close>.
  \<^item> \<open>Jax\<close>: the archive reader (\<open>common/jax.c\<close>) and the record writer of the archiver (\<open>utils/jax/create.c\<close>), with files that
    cannot be opened or change during the walk; \<open>Bflt\<close>: the loader, and when it returns for position independent binaries.
  \<^item> \<open>Jax_Tool\<close>, \<open>Jax_Tool_Properties\<close>: the rest of the archiver, \<open>list.c\<close>, \<open>extract.c\<close>, \<open>create.c\<close> and \<open>main.c\<close>, on
    files as lists of bytes. What it asks of the operating system is a list of actions, and a small file system
    (\<open>replay\<close>) says what they amount to.
  \<^item> \<open>Console\<close>, \<open>Console_Properties\<close>: \<open>mac-68000/console.c\<close> with its font and its six drawing functions, and the handler
    of the debug capability (\<open>kernel/debug.c\<close>); the abstract terminal that they implement. \<open>Console_Call\<close>: invocation and trap with the console as a part of the
    machine, which is where the debug capability prints. \<open>Core_Io\<close>: what programs print
    through the trap (\<open>core_io.h\<close>, \<open>print_number.c\<close>, \<open>printf.c\<close>), over the interface \<open>debug_capability\<close> that the console provides.
  \<^item> \<open>Boot\<close>, \<open>Boot_Properties\<close>: exception vectors and handlers (\<open>arch/68000/interrupts.c\<close>; \<open>Halts\<close> is the endless loop of a panic), \<open>kernel/main.c\<close>,
    \<open>user_mode_entry.c\<close> and \<open>mac-68000/main.c\<close>.
  \<^item> \<open>Syscalls\<close>: what servers see of the kernel. A server is a function on a world of memory and
    a kernel; system calls are a record of functions, of which \<open>kernel_invoke\<close> is the instance made of the
    kernel of this development. Locale \<open>untyped_slot\<close> is what servers rely on for locked memory, and the kernel
    satisfies it (\<open>kernel_slot\<close>); \<open>untyped_memory\<close> is the same for many pieces of memory.
  \<^item> \<open>Vfs_Client\<close>: the calls of \<open>vfs.h\<close>; \<open>Initrd_Fs\<close>, \<open>Initrd_Properties\<close>, \<open>Initrd_Server\<close>:
    \<open>initrd_fs/main.c\<close>; \<open>Client_Server\<close>: client and server connected by messages.
  \<^item> \<open>Process_Server\<close>, \<open>Process_Properties\<close>: process ids, loading programs, starting the servers.
  \<^item> \<open>Vfs_Structures\<close>, \<open>Vfs_Server\<close>, \<open>Vfs_Properties\<close>, \<open>Mount_Properties\<close>: all of \<open>vfs_server\<close>.

  \<^bold>\<open>What is shown.\<close>
  \<^item> Heap: allocation finds a run whenever there is one and leaves everything in use alone; it fails only
    when there is none; freeing keeps the heap well formed, and where it does not. When movable blocks have to make room,
    an allocation that returns, successful or not, keeps every immovable block in place and every movable one for its owner;
    the heap is well formed in all states its uses lead to; the search ends when the movable blocks fit in the available
    memory, and never ends at one that does not.
  \<^item> Capabilities: lookups return when nodes have at least one bit, find the slot at the end of a path of indices, and leave no
    lock behind; moving, copying and deleting keep the lists of a resource and of derivations; rejected
    invocations change nothing; merging derivation lists can hang; slots of a
    node lie inside its allocation up to 25 bits.
  \<^item> Threads and scheduling: round robin within the highest priority, ids, the thread table, registers.
  \<^item> Messages: delivery and rendezvous of sender and receiver, whatever capabilities come with the message as long as their transfer
    returns, and order.
  \<^item> Memory functions equal byte-wise copying and filling; the archive reader reads what the archiver
    wrote; the loader puts relocated segments in place.
  \<^item> Servers: reading through descriptors refines reading from a list of bytes; every message to the
    initrd server is answered once with nothing left locked, and five of the six slots it uses are cleared; starting a program cleans up after any failure; ids of processes
    and of structures are fresh; a mount point entered is found; read-only namespaces cannot be
    mounted on.
  \<^item> Archives: listing prints every name and its details; creating an archive succeeds for files that can be stored, and
    extracting it gives back every file, link and directory. Both assume that a machine keeps 0 at 0 when an \<open>int\<close> is shifted
    by 32 and more places (\<open>zero_stays_zero\<close>), which C leaves undefined, and sizes and times below \<open>2 ^ 31\<close>.
  \<^item> Console: on every depth, printing shows what an abstract terminal of characters shows, with wrapping and scrolling, and
    changes no other pixel; numbers printed by programs appear in hexadecimal.
  \<^item> Start-up: every exception vector leads to its handler, which prints its cause and halts or suspends the thread; with enough
    memory the process server becomes the only thread that can run, with an empty root node; without a valid binary or memory for it
    the kernel idles.
  \<^item> Where the code departs from what it means to do, there is a theorem about what it does instead.

  \<^bold>\<open>Conventions.\<close> Addresses and sizes are 32-bit words and wrap around. Loops over linked
  memory are partial functions into \<open>option\<close>: \<open>None\<close> means that the code does not return, because
  a loop never ends, a call goes through a NULL table, or an assertion fails; no loop has fuel other
  than its own bound in the code. Objects of different types never overlap in the kernel's stores; the heap
  decides their addresses. There is one heap. Shifts by a word take its value modulo 64, as the 68000
  does. The sizes of structures are those of the 68000 compiler with alignment to two bytes. Servers' structures are bytes in memory, with their members at
  fixed offsets. Sending and receiving are not instantiated with the kernel, because other threads run
  in between; theorems about servers hold for any answers, or say which ones they need. In \<open>Client_Server\<close> a message
  sent is handled by the server at once and its answer is what the client receives next.

  \<^bold>\<open>Not modelled.\<close> How \<open>printf\<close> formats, which is a library outside the sources, and most of the macros for its
  formats (\<open>inttypes.h\<close>); the other messages of debugging builds; the assembly of the exception entries and of loading the first
  registers; names of device registers that nothing uses (\<open>hw.h\<close>); the service manager and the debug
  console, which are empty loops; and the tests. That the process server gets its first two capabilities is modelled
  (\<open>give_first_capabilities\<close>), but nothing is shown about it beyond the heap staying well formed. Allocation that moves blocks is
  shown correct whenever it returns: that it returns depends on the callbacks, whose loops over lists of capabilities end only if
  these lists do, and on the sizes of movable blocks, as the theorem about the search says.
\<close>

end
